(* ===== verification/Prelude.thy ===== *)
theory Prelude
  imports Main "HOL-Library.Word" "HOL-Library.Sublist"
begin

text \<open>
  What the components of the development share: the Rust \<open>Result\<close> type, byte strings, the
  slice and string operations of the Rust standard library the sources use, and the saturating
  and checked \<open>usize\<close> arithmetic with which they compare sizes.

  A byte is HOL's \<^typ>\<open>char\<close>, which has exactly the 256 values of an octet; a Rust
  \<open>&str\<close> is the list of its UTF-8 bytes, so \<^const>\<open>length\<close> is \<open>str::len\<close> and string literals
  read as in the sources.
\<close>

section \<open>Types\<close>

type_synonym byte = char
type_synonym bytes = "byte list"

datatype ('a, 'e) result = Ok 'a | Err 'e

text \<open>\<open>Result::and_then\<close>, and the meaning of the \<open>?\<close> operator.\<close>

fun and_then :: "('a, 'e) result \<Rightarrow> ('a \<Rightarrow> ('b, 'e) result) \<Rightarrow> ('b, 'e) result" where
  "and_then (Ok a) f = f a"
| "and_then (Err e) f = Err e"

lemma and_then_cong [fundef_cong]:
  "r = r' \<Longrightarrow> (\<And>a. r' = Ok a \<Longrightarrow> f a = g a) \<Longrightarrow> and_then r f = and_then r' g"
  by (cases r') auto

lemma and_then_Ok [simp]: "and_then r Ok = r"
  by (cases r) auto

fun is_ok :: "('a, 'e) result \<Rightarrow> bool" where
  "is_ok (Ok _) = True"
| "is_ok (Err _) = False"

fun map_err :: "('e \<Rightarrow> 'f) \<Rightarrow> ('a, 'e) result \<Rightarrow> ('a, 'f) result" where
  "map_err f (Ok a) = Ok a"
| "map_err f (Err e) = Err (f e)"

text \<open>A guard that returns early with an error.\<close>

lemma refuse_Ok [simp]: "((if c then Err e else r) = Ok a) \<longleftrightarrow> \<not> c \<and> r = Ok a"
  by simp

text \<open>\<open>Option::ok_or\<close>.\<close>

fun ok_or :: "'a option \<Rightarrow> 'e \<Rightarrow> ('a, 'e) result" where
  "ok_or (Some a) e = Ok a"
| "ok_or None e = Err e"

lemma and_then_assoc: "and_then (and_then r f) g = and_then r (\<lambda>a. and_then (f a) g)"
  by (cases r) auto

lemma and_then_Ok_iff: "and_then r f = Ok b \<longleftrightarrow> (\<exists>a. r = Ok a \<and> f a = Ok b)"
  by (cases r) auto

lemma and_then_Err_iff: "and_then r f = Err e \<longleftrightarrow> r = Err e \<or> (\<exists>a. r = Ok a \<and> f a = Err e)"
  by (cases r) auto

lemma ok_or_Ok_iff: "ok_or x e = Ok a \<longleftrightarrow> x = Some a"
  by (cases x) auto

lemma ok_or_Err_iff: "ok_or x e = Err e' \<longleftrightarrow> x = None \<and> e' = e"
  by (cases x) auto

lemma map_err_Ok: "map_err f r = Ok a \<longleftrightarrow> r = Ok a"
  by (cases r) auto

named_theorems byte_class \<open>definitions of the byte classes the grammars test\<close>

section \<open>Sizes\<close>

text \<open>\<open>usize\<close> on the 64-bit targets the hosts run on.\<close>

definition usize_max :: nat where
  "usize_max = 2 ^ 64 - 1"

definition saturating_add :: "nat \<Rightarrow> nat \<Rightarrow> nat" where
  "saturating_add a b = min (a + b) usize_max"

definition checked_add :: "nat \<Rightarrow> nat \<Rightarrow> nat option" where
  "checked_add a b = (if a + b \<le> usize_max then Some (a + b) else None)"

text \<open>A saturated sum exceeds a bound below \<open>usize_max\<close> exactly when the true sum does.\<close>

lemma saturating_add_less:
  "m < usize_max \<Longrightarrow> m < saturating_add a b \<longleftrightarrow> m < a + b"
  by (simp add: saturating_add_def)

lemma saturating_add3_less:
  "m < usize_max \<Longrightarrow> m < saturating_add (saturating_add a b) c \<longleftrightarrow> m < a + b + c"
  by (auto simp: saturating_add_def min_def split: if_splits)

lemma saturating_add4_less:
  "m < usize_max \<Longrightarrow>
    m < saturating_add (saturating_add (saturating_add a b) c) d \<longleftrightarrow> m < a + b + c + d"
  by (auto simp: saturating_add_def min_def split: if_splits)

section \<open>Slices and strings\<close>

text \<open>\<open>Iterator::position\<close>: the index of the first element that satisfies the predicate.\<close>

fun iter_position :: "('a \<Rightarrow> bool) \<Rightarrow> 'a list \<Rightarrow> nat option" where
  "iter_position P [] = None"
| "iter_position P (x # xs) = (if P x then Some 0 else map_option Suc (iter_position P xs))"

text \<open>\<open>slice::strip_prefix\<close> and \<open>str::strip_prefix\<close>.\<close>

fun strip_prefix :: "'a list \<Rightarrow> 'a list \<Rightarrow> 'a list option" where
  "strip_prefix [] xs = Some xs"
| "strip_prefix (p # ps) [] = None"
| "strip_prefix (p # ps) (x # xs) = (if p = x then strip_prefix ps xs else None)"

definition starts_with :: "'a list \<Rightarrow> 'a list \<Rightarrow> bool" where
  "starts_with p xs \<longleftrightarrow> strip_prefix p xs \<noteq> None"

definition ends_with :: "'a list \<Rightarrow> 'a list \<Rightarrow> bool" where
  "ends_with p xs \<longleftrightarrow> starts_with (rev p) (rev xs)"

text \<open>\<open>str::split_once\<close> at an ASCII character.\<close>

fun split_once :: "'a \<Rightarrow> 'a list \<Rightarrow> ('a list \<times> 'a list) option" where
  "split_once c [] = None"
| "split_once c (x # xs) =
     (if x = c then Some ([], xs)
      else map_option (\<lambda>(a, b). (x # a, b)) (split_once c xs))"

text \<open>\<open>str::split\<close> at an ASCII character: always at least one piece.\<close>

fun split_on :: "'a \<Rightarrow> 'a list \<Rightarrow> 'a list list" where
  "split_on c [] = [[]]"
| "split_on c (x # xs) =
     (if x = c then [] # split_on c xs
      else (case split_on c xs of [] \<Rightarrow> [[x]] | p # ps \<Rightarrow> (x # p) # ps))"

text \<open>\<open>slice::get\<close> with an index.\<close>

definition slice_get :: "'a list \<Rightarrow> nat \<Rightarrow> 'a option" where
  "slice_get xs i = (if i < length xs then Some (xs ! i) else None)"

subsection \<open>Laws of the slice operations\<close>

lemma iter_position_Some_iff:
  "iter_position P xs = Some i \<longleftrightarrow> i < length xs \<and> P (xs ! i) \<and> (\<forall>j<i. \<not> P (xs ! j))"
proof (induction xs arbitrary: i)
  case Nil
  then show ?case by simp
next
  case (Cons x xs)
  then show ?case
    by (cases i) (auto simp: All_less_Suc2)
qed

lemma iter_position_None_iff: "iter_position P xs = None \<longleftrightarrow> (\<forall>x\<in>set xs. \<not> P x)"
  by (induction xs) auto

lemma iter_position_append:
  "iter_position P (xs @ ys) =
     (case iter_position P xs of
        Some i \<Rightarrow> Some i
      | None \<Rightarrow> map_option ((+) (length xs)) (iter_position P ys))"
proof (induction xs)
  case Nil
  then show ?case by (cases "iter_position P ys") auto
next
  case (Cons x xs)
  then show ?case by (cases "iter_position P ys") (auto split: option.splits)
qed

lemma iter_position_less: "iter_position P xs = Some i \<Longrightarrow> i < length xs"
  by (simp add: iter_position_Some_iff)

lemma strip_prefix_Some_iff: "strip_prefix p xs = Some ys \<longleftrightarrow> xs = p @ ys"
  by (induction p xs rule: strip_prefix.induct) auto

lemma strip_prefix_append [simp]: "strip_prefix p (p @ ys) = Some ys"
  by (simp add: strip_prefix_Some_iff)

lemma starts_with_iff_prefix: "starts_with p xs \<longleftrightarrow> prefix p xs"
  by (auto simp: starts_with_def prefix_def strip_prefix_Some_iff)

lemma ends_with_iff_suffix: "ends_with p xs \<longleftrightarrow> suffix p xs"
  by (simp add: ends_with_def starts_with_iff_prefix suffix_to_prefix)

lemma split_once_None_iff: "split_once c xs = None \<longleftrightarrow> c \<notin> set xs"
  by (induction xs) auto

lemma split_once_append: "c \<notin> set xs \<Longrightarrow> split_once c (xs @ c # ys) = Some (xs, ys)"
  by (induction xs) auto

lemma split_once_Some_iff:
  "split_once c xs = Some (a, b) \<longleftrightarrow> xs = a @ c # b \<and> c \<notin> set a"
proof (induction xs arbitrary: a)
  case Nil
  then show ?case by simp
next
  case (Cons x xs)
  then show ?case by (cases a) (auto split: option.splits)
qed

lemma split_on_not_Nil [simp]: "split_on c xs \<noteq> []"
  by (cases xs) (auto split: list.splits)

lemma split_on_no_sep: "p \<in> set (split_on c xs) \<Longrightarrow> c \<notin> set p"
proof (induction xs arbitrary: p)
  case Nil
  then show ?case by simp
next
  case (Cons x xs)
  then show ?case by (cases "split_on c xs") (auto split: if_splits)
qed

lemma split_on_plain: "c \<notin> set xs \<Longrightarrow> split_on c xs = [xs]"
  by (induction xs) auto

lemma split_on_sep: "c \<notin> set a \<Longrightarrow> split_on c (a @ c # b) = a # split_on c b"
  by (induction a) auto

section \<open>Bytes as numbers\<close>

lemma unat_of_char:
  assumes "8 \<le> LENGTH('a::len)"
  shows "unat (of_char b :: 'a word) = of_char b"
proof -
  have "(2::nat) ^ 8 \<le> 2 ^ LENGTH('a)"
    using assms by (rule power_increasing) simp
  then have "of_char b < (2::nat) ^ LENGTH('a)"
    using less_le_trans [OF nat_of_char_less_256 [of b]] by simp
  then show ?thesis
    by (subst of_nat_of_char [symmetric]) (simp add: unat_of_nat)
qed

end
