(* ===== verification/Framing.thy ===== *)
theory Framing
  imports Prelude
begin

text \<open>
  The contract two decoders of the repository share: the SSE decoder of
  \<open>south-host-grammars\<close> and the AWS eventstream deframer of \<open>south-contracts\<close> both
  buffer chunks that are split anywhere, cut complete frames off the front of the buffer and
  keep the first error for ever. A decoder is given here by its \<^emph>\<open>step\<close>: what the front of
  the buffered bytes is in a given state. The locale \<open>framer\<close> states the laws a step must obey
  for the result not to depend on the chunking, and proves that consequence once; both decoders
  interpret it.
\<close>

datatype ('s, 'o, 'e) framing =
    Need                    \<comment> \<open>more bytes are needed\<close>
  | Fail 'e                 \<comment> \<open>the bytes are refused\<close>
  | Frame 's "'o option" nat \<comment> \<open>next state, output if any, bytes consumed\<close>

type_synonym ('s, 'o, 'e) step = "'s \<Rightarrow> bytes \<Rightarrow> ('s, 'o, 'e) framing"

text \<open>
  Cut every complete frame off a buffer: the outputs in order, then the state and the bytes left,
  or the first error. A step that consumes nothing would not make progress; the laws below
  exclude it, and the equation stops there.
\<close>

function drain :: "('s, 'o, 'e) step \<Rightarrow> 's \<Rightarrow> bytes \<Rightarrow> 'o list \<times> ('s \<times> bytes, 'e) result" where
  "drain step s b =
     (case step s b of
        Need \<Rightarrow> ([], Ok (s, b))
      | Fail e \<Rightarrow> ([], Err e)
      | Frame s' out n \<Rightarrow>
          if n = 0 \<or> b = [] then ([], Ok (s, b))
          else (let (outs, r) = drain step s' (drop n b)
                in ((case out of None \<Rightarrow> outs | Some x \<Rightarrow> x # outs), r)))"
  by pat_completeness auto
termination
  by (relation "measure (\<lambda>(step, s, b). length b)") auto

declare drain.simps [simp del]

text \<open>A caller that pushes chunk after chunk and drains after every push; errors are sticky.\<close>

fun feed :: "('s, 'o, 'e) step \<Rightarrow> ('s \<times> bytes, 'e) result \<Rightarrow> bytes list
    \<Rightarrow> 'o list \<times> ('s \<times> bytes, 'e) result" where
  "feed step r [] = ([], r)"
| "feed step (Err e) (c # cs) = feed step (Err e) cs"
| "feed step (Ok (s, b)) (c # cs) =
     (let (outs, r) = drain step s (b @ c); (outs', r') = feed step r cs
      in (outs @ outs', r'))"

lemma feed_Err [simp]: "feed step (Err e) cs = ([], Err e)"
  by (induction cs) auto

locale framer =
  fixes step :: "('s, 'o, 'e) step"
  assumes empty_needs: "step s [] = Need"
    and frame_consumes: "step s b = Frame s' out n \<Longrightarrow> 0 < n \<and> n \<le> length b"
    and frame_stable: "step s b = Frame s' out n \<Longrightarrow> step s (b @ c) = Frame s' out n"
    and fail_stable: "step s b = Fail e \<Longrightarrow> step s (b @ c) = Fail e"
begin

lemma drain_Need: "step s b = Need \<Longrightarrow> drain step s b = ([], Ok (s, b))"
  by (subst drain.simps) simp

lemma drain_Fail: "step s b = Fail e \<Longrightarrow> drain step s b = ([], Err e)"
  by (subst drain.simps) simp

lemma drain_Frame:
  assumes "step s b = Frame s' out n"
  shows "drain step s b =
    (let (outs, r) = drain step s' (drop n b)
     in ((case out of None \<Rightarrow> outs | Some x \<Rightarrow> x # outs), r))"
  using assms frame_consumes [OF assms] by (subst drain.simps) auto

text \<open>What is left of a drained buffer holds no complete frame.\<close>

lemma drain_rest_needs: "drain step s b = (outs, Ok (s', b')) \<Longrightarrow> step s' b' = Need"
proof (induction "length b" arbitrary: s b outs rule: less_induct)
  case less
  show ?case
  proof (cases "step s b")
    case Need
    with less.prems show ?thesis by (simp add: drain_Need)
  next
    case (Fail e)
    with less.prems show ?thesis by (simp add: drain_Fail)
  next
    case (Frame s1 out n)
    with less.prems obtain outs' where "drain step s1 (drop n b) = (outs', Ok (s', b'))"
      by (auto simp: drain_Frame Let_def split: prod.splits)
    moreover have "length (drop n b) < length b"
      using frame_consumes [OF Frame] by auto
    ultimately show ?thesis using less.hyps by blast
  qed
qed

text \<open>
  Draining a longer buffer is draining the shorter one first and going on from what it left: the
  fact behind the independence of chunking.
\<close>

lemma drain_append:
  "drain step s (b @ c) =
     (let (outs, r) = drain step s b
      in case r of
           Err e \<Rightarrow> (outs, Err e)
         | Ok (s', b') \<Rightarrow> (let (outs', r') = drain step s' (b' @ c) in (outs @ outs', r')))"
proof (induction "length b" arbitrary: s b rule: less_induct)
  case less
  show ?case
  proof (cases "step s b")
    case Need
    then show ?thesis by (simp add: drain_Need)
  next
    case (Fail e)
    then show ?thesis by (simp add: drain_Fail fail_stable)
  next
    case (Frame s1 out n)
    have n: "0 < n" "n \<le> length b"
      using frame_consumes [OF Frame] by auto
    then have "length (drop n b) < length b" by simp
    from less.hyps [OF this, of s1] show ?thesis
      using n drain_Frame [OF Frame] drain_Frame [OF frame_stable [OF Frame, of c]]
      by (auto simp: Let_def split: prod.splits result.splits option.splits)
  qed
qed

text \<open>A property of states that every step keeps holds of all states, and bounds the outputs.\<close>

lemma drain_invariant:
  assumes keeps: "\<And>s b s' out n. P s \<Longrightarrow> step s b = Frame s' out n \<Longrightarrow> P s' \<and> (\<forall>x. out = Some x \<longrightarrow> Q x)"
  shows "P s \<Longrightarrow> drain step s b = (outs, r) \<Longrightarrow>
    (\<forall>x\<in>set outs. Q x) \<and> (\<forall>s' b'. r = Ok (s', b') \<longrightarrow> P s')"
proof (induction "length b" arbitrary: s b outs rule: less_induct)
  case less
  show ?case
  proof (cases "step s b")
    case Need
    with less.prems show ?thesis by (auto simp: drain_Need)
  next
    case (Fail e)
    with less.prems show ?thesis by (auto simp: drain_Fail)
  next
    case (Frame s1 out n)
    with less.prems(2) obtain outs' where d: "drain step s1 (drop n b) = (outs', r)"
      and outs: "outs = (case out of None \<Rightarrow> outs' | Some x \<Rightarrow> x # outs')"
      by (auto simp: drain_Frame Let_def split: prod.splits)
    from frame_consumes [OF Frame] have "length (drop n b) < length b" by auto
    from less.hyps [OF this _ d] keeps [OF less.prems(1) Frame] outs show ?thesis
      by (auto split: option.splits)
  qed
qed

text \<open>However the input is cut into chunks, the outputs and the first error are the same.\<close>

lemma feed_from:
  "step s b = Need \<Longrightarrow> feed step (Ok (s, b)) cs = drain step s (b @ concat cs)"
proof (induction cs arbitrary: s b)
  case Nil
  then show ?case by (simp add: drain_Need)
next
  case (Cons c cs)
  obtain outs r where d: "drain step s (b @ c) = (outs, r)" by fastforce
  show ?case
  proof (cases r)
    case (Err e)
    then show ?thesis
      using d drain_append [of s "b @ c" "concat cs"] by simp
  next
    case (Ok sb)
    obtain s' b' where sb: "sb = (s', b')" by fastforce
    from d Ok sb have "step s' b' = Need" by (simp add: drain_rest_needs)
    from Cons.IH [OF this] show ?thesis
      using d Ok sb drain_append [of s "b @ c" "concat cs"] by simp
  qed
qed

lemma feed_chunks: "feed step (Ok (s, [])) cs = drain step s (concat cs)"
  using feed_from [OF empty_needs] by simp

lemma feed_chunking_irrelevant:
  "concat cs = concat ds \<Longrightarrow> feed step (Ok (s, [])) cs = feed step (Ok (s, [])) ds"
  by (simp add: feed_chunks)

end

section \<open>Decoders with a buffer of their own\<close>

text \<open>
  The decoders are objects: \<open>push\<close> appends a chunk, \<open>pull\<close> (\<open>next_event\<close>,
  \<open>next_message\<close>) returns the next output, \<open>Ok(None)\<close> when more bytes are needed, or the
  first error. A caller pulls until it gets \<open>Ok(None)\<close>. That loop has no bound of its own, so
  it is a partial function; the locale below proves that it always returns.
  \<open>view\<close> is what the caller records for an output (an event with the stream position after
  it, a message).
\<close>

partial_function (option) pull_all ::
  "('d \<Rightarrow> 'd \<times> ('x option, 'e) result) \<Rightarrow> ('d \<Rightarrow> 'x \<Rightarrow> 'o) \<Rightarrow> 'd
     \<Rightarrow> ('o list \<times> 'd \<times> 'e option) option" where
  "pull_all pull view d =
     (case pull d of
        (d', Err e) \<Rightarrow> Some ([], d', Some e)
      | (d', Ok None) \<Rightarrow> Some ([], d', None)
      | (d', Ok (Some x)) \<Rightarrow>
          Option.bind (pull_all pull view d') (\<lambda>(outs, d'', e). Some (view d' x # outs, d'', e)))"

lemma pull_all_step:
  "pull d = (d', Err e) \<Longrightarrow> pull_all pull view d = Some ([], d', Some e)"
  "pull d = (d', Ok None) \<Longrightarrow> pull_all pull view d = Some ([], d', None)"
  "pull d = (d', Ok (Some x)) \<Longrightarrow> pull_all pull view d' = Some (outs, d'', err) \<Longrightarrow>
    pull_all pull view d = Some (view d' x # outs, d'', err)"
  by (simp_all add: pull_all.simps [of pull view d])

fun run_chunks ::
  "('d \<Rightarrow> bytes \<Rightarrow> 'd) \<Rightarrow> ('d \<Rightarrow> 'd \<times> ('x option, 'e) result) \<Rightarrow> ('d \<Rightarrow> 'x \<Rightarrow> 'o)
     \<Rightarrow> 'd \<Rightarrow> bytes list \<Rightarrow> ('o list \<times> 'd \<times> 'e option) option" where
  "run_chunks push pull view d [] = Some ([], d, None)"
| "run_chunks push pull view d (c # cs) =
     Option.bind (pull_all pull view (push d c)) (\<lambda>(outs, d', err).
       case err of
         Some e \<Rightarrow> Some (outs, d', Some e)
       | None \<Rightarrow> Option.bind (run_chunks push pull view d' cs)
           (\<lambda>(outs', d'', err'). Some (outs @ outs', d'', err')))"

locale incremental_decoder = framer step
  for step :: "('s, 'o, 'e) step" +
  fixes push :: "'d \<Rightarrow> bytes \<Rightarrow> 'd"
    and pull :: "'d \<Rightarrow> 'd \<times> ('x option, 'e) result"
    and view :: "'d \<Rightarrow> 'x \<Rightarrow> 'o"
    and live :: "'d \<Rightarrow> bool"
    and state :: "'d \<Rightarrow> 's"
    and pending :: "'d \<Rightarrow> bytes"
  assumes push_live: "live d \<Longrightarrow> live (push d c)"
    and push_state: "live d \<Longrightarrow> state (push d c) = state d"
    and push_pending: "live d \<Longrightarrow> pending (push d c) = pending d @ c"
    and pull_none: "live d \<Longrightarrow> pull d = (d', Ok None) \<Longrightarrow>
      live d' \<and> drain step (state d) (pending d) = ([], Ok (state d', pending d'))"
    and pull_some: "live d \<Longrightarrow> pull d = (d', Ok (Some x)) \<Longrightarrow>
      live d' \<and> length (pending d') < length (pending d) \<and>
      drain step (state d) (pending d) =
        (let (outs, r) = drain step (state d') (pending d') in (view d' x # outs, r))"
    and pull_err: "live d \<Longrightarrow> pull d = (d', Err e) \<Longrightarrow>
      drain step (state d) (pending d) = ([], Err e)"
begin

text \<open>What a caller of the decoder has seen, against the drained buffer.\<close>

definition agrees :: "'o list \<times> ('s \<times> bytes, 'e) result \<Rightarrow> 'o list \<times> 'd \<times> 'e option \<Rightarrow> bool" where
  "agrees spec seen \<longleftrightarrow>
     (case seen of
        (outs, d, Some e) \<Rightarrow> spec = (outs, Err e)
      | (outs, d, None) \<Rightarrow> live d \<and> spec = (outs, Ok (state d, pending d)))"

lemma pull_all_drains:
  "live d \<Longrightarrow> \<exists>seen. pull_all pull view d = Some seen
     \<and> agrees (drain step (state d) (pending d)) seen"
proof (induction "length (pending d)" arbitrary: d rule: less_induct)
  case less
  obtain d' r where p: "pull d = (d', r)" by fastforce
  consider (err) e where "r = Err e" | (none) "r = Ok None" | (some) x where "r = Ok (Some x)"
    by (metis option.exhaust result.exhaust)
  then show ?case
  proof cases
    case err
    with less.prems p show ?thesis
      by (simp add: pull_all_step agrees_def pull_err)
  next
    case none
    with less.prems p show ?thesis
      using pull_none [of d d'] by (simp add: pull_all_step agrees_def)
  next
    case some
    from pull_some [OF less.prems p [unfolded some]]
    have d': "live d'" "length (pending d') < length (pending d)"
      and dr: "drain step (state d) (pending d) =
        (let (outs, r) = drain step (state d') (pending d') in (view d' x # outs, r))"
      by auto
    from less.hyps [OF d'(2,1)] obtain outs d'' err
      where "pull_all pull view d' = Some (outs, d'', err)"
        and "agrees (drain step (state d') (pending d')) (outs, d'', err)"
      by (metis prod_cases3)
    with some p dr show ?thesis
      by (auto simp: pull_all_step(3) agrees_def split: option.splits)
  qed
qed

theorem run_chunks_drains:
  "live d \<Longrightarrow> step (state d) (pending d) = Need \<Longrightarrow>
     \<exists>seen. run_chunks push pull view d cs = Some seen
       \<and> agrees (drain step (state d) (pending d @ concat cs)) seen"
proof (induction cs arbitrary: d)
  case Nil
  then show ?case by (simp add: agrees_def drain_Need)
next
  case (Cons c cs)
  let ?d = "push d c"
  from Cons.prems(1) obtain outs d' err
    where pa: "pull_all pull view ?d = Some (outs, d', err)"
      and ag: "agrees (drain step (state d) (pending d @ c)) (outs, d', err)"
    using pull_all_drains [of ?d] by (auto simp: push_live push_state push_pending)
  show ?case
  proof (cases err)
    case (Some e)
    with pa ag drain_append [of "state d" "pending d @ c" "concat cs"] show ?thesis
      by (auto simp: agrees_def)
  next
    case None
    with ag have l: "live d'"
      and dr: "drain step (state d) (pending d @ c) = (outs, Ok (state d', pending d'))"
      by (auto simp: agrees_def)
    from Cons.IH [OF l drain_rest_needs [OF dr]] obtain outs' d'' err'
      where "run_chunks push pull view d' cs = Some (outs', d'', err')"
        and "agrees (drain step (state d') (pending d' @ concat cs)) (outs', d'', err')"
      by (metis prod_cases3)
    with None pa dr drain_append [of "state d" "pending d @ c" "concat cs"] show ?thesis
      by (auto simp: agrees_def split: option.splits)
  qed
qed

end

end
