(* ===== verification/Utf8.thy ===== *)
theory Utf8
  imports Prelude
begin

text \<open>
  The UTF-8 validity check \<open>std::str::from_utf8\<close> makes: the well-formed byte sequences of the
  Unicode standard (table 3-7), with overlong forms, surrogates and values above U+10FFFF
  refused. The grammars use it on lines, header names and payloads.
\<close>

definition byte_in :: "nat \<Rightarrow> nat \<Rightarrow> byte \<Rightarrow> bool" where
  "byte_in lo hi c \<longleftrightarrow> lo \<le> of_char c \<and> of_char c \<le> hi"

abbreviation utf8_cont :: "byte \<Rightarrow> bool" where
  "utf8_cont \<equiv> byte_in 0x80 0xBF"

text \<open>The second byte of a three- and of a four-byte character, whose range depends on the first.\<close>

definition utf8_second3 :: "byte \<Rightarrow> byte \<Rightarrow> bool" where
  "utf8_second3 a =
     byte_in (if a = CHR 0xE0 then 0xA0 else 0x80) (if a = CHR 0xED then 0x9F else 0xBF)"

definition utf8_second4 :: "byte \<Rightarrow> byte \<Rightarrow> bool" where
  "utf8_second4 a =
     byte_in (if a = CHR 0xF0 then 0x90 else 0x80) (if a = CHR 0xF4 then 0x8F else 0xBF)"

text \<open>The length of the character at the front, if the bytes there are a well-formed one.\<close>

definition utf8_head :: "bytes \<Rightarrow> nat option" where
  "utf8_head s =
     (case s of
        [] \<Rightarrow> None
      | a # r \<Rightarrow>
          if byte_in 0 0x7F a then Some 1
          else if byte_in 0xC2 0xDF a then
            (case r of b # _ \<Rightarrow> if utf8_cont b then Some 2 else None | _ \<Rightarrow> None)
          else if byte_in 0xE0 0xEF a then
            (case r of
               b # c # _ \<Rightarrow>
                 if utf8_second3 a b \<and> utf8_cont c then Some 3 else None
             | _ \<Rightarrow> None)
          else if byte_in 0xF0 0xF4 a then
            (case r of
               b # c # d # _ \<Rightarrow>
                 if utf8_second4 a b \<and> utf8_cont c \<and> utf8_cont d then Some 4 else None
             | _ \<Rightarrow> None)
          else None)"

lemma utf8_head_bounds: "utf8_head s = Some n \<Longrightarrow> 0 < n \<and> n \<le> length s"
  by (auto simp: utf8_head_def split: list.splits if_splits)

function utf8_valid :: "bytes \<Rightarrow> bool" where
  "utf8_valid s = (case utf8_head s of None \<Rightarrow> s = [] | Some n \<Rightarrow> utf8_valid (drop n s))"
  by pat_completeness auto
termination
  by (relation "measure length") (auto dest: utf8_head_bounds)

declare utf8_valid.simps [simp del]

definition ascii :: "byte \<Rightarrow> bool" where
  "ascii c \<longleftrightarrow> of_char c < (128 :: nat)"

lemma ascii_byte_in: "ascii c \<Longrightarrow> byte_in 0 0x7F c"
  by (simp add: ascii_def byte_in_def)

lemma ascii_not_cont: "ascii c \<Longrightarrow> 0x80 \<le> lo \<Longrightarrow> \<not> byte_in lo hi c"
  by (auto simp: ascii_def byte_in_def)

lemma list4_cases:
  obtains "xs = []" | x where "xs = [x]" | x y where "xs = [x, y]" | x y z where "xs = [x, y, z]"
  | x y z w r where "xs = x # y # z # w # r"
  by (metis list.exhaust)

lemma utf8_head_append: "utf8_head a = Some n \<Longrightarrow> utf8_head (a @ b) = Some n"
  by (cases a rule: list4_cases) (simp_all add: utf8_head_def split: if_splits)

lemma utf8_head_cut:
  assumes "utf8_head (a @ c # b) = Some n" and "ascii c" and "a \<noteq> []"
  shows "utf8_head a = Some n"
proof -
  have c: "\<not> utf8_cont c" "\<not> utf8_second3 x c" "\<not> utf8_second4 x c" for x
    using assms(2) by (simp_all add: ascii_not_cont utf8_second3_def utf8_second4_def)
  from assms(1,3) show ?thesis
    by (cases a rule: list4_cases)
      (simp_all add: utf8_head_def c split: if_splits list.split_asm)
qed

lemma utf8_valid_Nil [simp]: "utf8_valid []"
  by (subst utf8_valid.simps) (simp add: utf8_head_def)

lemma utf8_valid_ascii_Cons [simp]: "ascii c \<Longrightarrow> utf8_valid (c # r) = utf8_valid r"
  by (subst utf8_valid.simps) (simp add: utf8_head_def ascii_byte_in)

lemma utf8_valid_ascii: "list_all ascii s \<Longrightarrow> utf8_valid s"
  by (induction s) auto

lemma utf8_valid_append: "utf8_valid a \<Longrightarrow> utf8_valid (a @ b) = utf8_valid b"
proof (induction a rule: utf8_valid.induct)
  case (1 a)
  show ?case
  proof (cases "utf8_head a")
    case None
    with "1.prems" show ?thesis by (simp add: utf8_valid.simps [of a])
  next
    case (Some n)
    with "1.prems" have "utf8_valid (drop n a)" by (simp add: utf8_valid.simps [of a])
    with "1.IH" [OF Some] have "utf8_valid (drop n a @ b) = utf8_valid b" by simp
    with utf8_head_append [OF Some, of b] utf8_head_bounds [OF Some] show ?thesis
      by (simp add: utf8_valid.simps [of "a @ b"])
  qed
qed

text \<open>An ASCII byte is never inside a multi-byte character, so text may be cut at it.\<close>

lemma utf8_valid_cut_front: "ascii c \<Longrightarrow> utf8_valid (a @ c # b) \<Longrightarrow> utf8_valid a"
proof (induction "length a" arbitrary: a rule: less_induct)
  case less
  show ?case
  proof (cases "a = []")
    case True
    then show ?thesis by simp
  next
    case False
    with less.prems obtain n where n: "utf8_head (a @ c # b) = Some n"
      and v: "utf8_valid (drop n (a @ c # b))"
      by (auto simp: utf8_valid.simps [of "a @ c # b"] split: option.splits)
    from utf8_head_cut [OF n less.prems(1) False] have h: "utf8_head a = Some n" .
    with utf8_head_bounds [OF h] v less.prems(1) less.hyps [of "drop n a"]
    have "utf8_valid (drop n a)" by auto
    with h show ?thesis by (simp add: utf8_valid.simps [of a])
  qed
qed

lemma utf8_valid_cut:
  assumes "ascii c"
  shows "utf8_valid (a @ c # b) \<longleftrightarrow> utf8_valid a \<and> utf8_valid b"
  using assms utf8_valid_cut_front [OF assms, of a b] utf8_valid_append [of a "c # b"] by auto

section \<open>Editing text at its ASCII bytes\<close>

text \<open>
  \<open>ascii_edit s t\<close>: \<open>t\<close> is \<open>s\<close> with some ASCII bytes replaced by ASCII strings, or dropped.
  Escaping and whitespace stripping are such edits, and they keep UTF-8 text valid.
\<close>

inductive ascii_edit :: "bytes \<Rightarrow> bytes \<Rightarrow> bool" where
  nil: "ascii_edit [] []"
| keep: "ascii_edit s t \<Longrightarrow> ascii_edit (c # s) (c # t)"
| edit: "ascii c \<Longrightarrow> list_all ascii cs \<Longrightarrow> ascii_edit s t \<Longrightarrow> ascii_edit (c # s) (cs @ t)"

lemma ascii_edit_drop: "ascii c \<Longrightarrow> ascii_edit s t \<Longrightarrow> ascii_edit (c # s) t"
  using ascii_edit.edit [of c "[]" s t] by simp

lemma ascii_edit_valid_append: "ascii_edit s t \<Longrightarrow> utf8_valid (p @ s) \<Longrightarrow> utf8_valid (p @ t)"
proof (induction arbitrary: p rule: ascii_edit.induct)
  case (keep s t c)
  from keep.IH [of "p @ [c]"] keep.prems show ?case by simp
next
  case (edit c cs s t)
  from edit.prems have "utf8_valid p" "utf8_valid s"
    using utf8_valid_cut [OF edit.hyps(1)] by auto
  with edit.IH [of "[]"] show ?case
    using utf8_valid_ascii [OF edit.hyps(2)] by (simp add: utf8_valid_append)
qed simp

lemma ascii_edit_valid: "ascii_edit s t \<Longrightarrow> utf8_valid s \<Longrightarrow> utf8_valid t"
  using ascii_edit_valid_append [of s t "[]"] by simp

end
