(* ===== verification/Sse.thy ===== *)
theory Sse
  imports Framing Utf8
begin

text \<open>
  The server-sent events decoder of \<open>crates/south-host-grammars/src/sse.rs\<close>: the line
  interpreter \<open>EventBuilder\<close>, the incremental \<open>SseDecoderV1\<close> with its buffer, read and
  scan positions, and the whole-body function \<open>decode_sse_v1\<close>. The decoder is shown to
  implement the \<open>incremental_decoder\<close> contract, so events, frame positions and the first error
  do not depend on how the stream was chunked, and to agree with the whole-body function.
\<close>

section \<open>Bounds, errors and events\<close>

definition MAX_SSE_LINE_BYTES :: nat where
  "MAX_SSE_LINE_BYTES = 16 * 1024 * 1024"

definition MAX_SSE_EVENT_BYTES :: nat where
  "MAX_SSE_EVENT_BYTES = 16 * 1024 * 1024"

definition MAX_SSE_EVENTS :: nat where
  "MAX_SSE_EVENTS = 262144"

definition DEFAULT_SSE_EVENT_TYPE :: string where
  "DEFAULT_SSE_EVENT_TYPE = ''message''"

abbreviation CR :: byte where
  "CR \<equiv> CHR 0x0D"

abbreviation LF :: byte where
  "LF \<equiv> CHR 0x0A"

definition BOM :: bytes where
  "BOM = [CHR 0xEF, CHR 0xBB, CHR 0xBF]"

datatype sse_error = NotUtf8 | LineTooLong | EventTooLarge | TooManyEvents | UndrainedEvent

record sse_event =
  sse_event_type :: string
  sse_event_data :: string

section \<open>The line interpreter\<close>

record event_builder =
  at_stream_start :: bool
  event_type :: string
  builder_data :: string

definition builder_new :: event_builder where
  "builder_new = \<lparr>at_stream_start = True, event_type = [], builder_data = []\<rparr>"

text \<open>\<open>EventBuilder::dispatch\<close>.\<close>

definition dispatch :: "event_builder \<Rightarrow> event_builder \<times> sse_event option" where
  "dispatch b =
     (if builder_data b = [] then (b\<lparr>event_type := []\<rparr>, None)
      else
        let data = butlast (builder_data b);
            event = (if event_type b = [] then DEFAULT_SSE_EVENT_TYPE else event_type b)
        in (b\<lparr>event_type := [], builder_data := []\<rparr>,
            Some \<lparr>sse_event_type = event, sse_event_data = data\<rparr>))"

text \<open>The field name and value of a line, split at its first colon.\<close>

definition line_field :: "string \<Rightarrow> string \<times> string" where
  "line_field line =
     (case split_once (CHR '':'') line of
        Some (field, v) \<Rightarrow>
          (field, case strip_prefix '' '' v of Some v' \<Rightarrow> v' | None \<Rightarrow> v)
      | None \<Rightarrow> (line, []))"

text \<open>The \<open>match field\<close> of \<open>EventBuilder::line\<close>.\<close>

definition apply_field ::
  "event_builder \<Rightarrow> string \<Rightarrow> string \<Rightarrow> event_builder \<times> (sse_event option, sse_error) result" where
  "apply_field b field v =
     (if field = ''event'' then
        (if MAX_SSE_EVENT_BYTES < saturating_add (length v) (length (builder_data b))
         then (b, Err EventTooLarge)
         else (b\<lparr>event_type := v\<rparr>, Ok None))
      else if field = ''data'' then
        (let size = saturating_add (length (event_type b)) (length (builder_data b)) in
         if MAX_SSE_EVENT_BYTES < saturating_add (saturating_add size (length v)) 1
         then (b, Err EventTooLarge)
         else (b\<lparr>builder_data := builder_data b @ v @ [LF]\<rparr>, Ok None))
      else (b, Ok None))"

text \<open>\<open>EventBuilder::line\<close>: one line, given without its terminator.\<close>

definition builder_line ::
  "event_builder \<Rightarrow> bytes \<Rightarrow> event_builder \<times> (sse_event option, sse_error) result" where
  "builder_line b raw =
     (if MAX_SSE_LINE_BYTES < length raw then (b, Err LineTooLong)
      else
        let line = (if at_stream_start b
                    then (case strip_prefix BOM raw of Some rest \<Rightarrow> rest | None \<Rightarrow> raw)
                    else raw);
            b = b\<lparr>at_stream_start := False\<rparr>
        in
        if \<not> utf8_valid line then (b, Err NotUtf8)
        else if line = [] then (let (b', ev) = dispatch b in (b', Ok ev))
        else if starts_with '':'' line then (b, Ok None)
        else (let (field, v) = line_field line in apply_field b field v))"

section \<open>The incremental decoder\<close>

definition is_terminator :: "byte \<Rightarrow> bool" where
  "is_terminator c \<longleftrightarrow> c = CR \<or> c = LF"

text \<open>The position of the first line terminator byte.\<close>

definition terminator :: "bytes \<Rightarrow> nat option" where
  "terminator b = iter_position is_terminator b"

record sse_decoder =
  sse_buffer :: bytes
  sse_read_pos :: nat
  scan_pos :: nat
  position :: "64 word"
  builder :: event_builder
  sse_failure :: "sse_error option"

definition sse_new :: sse_decoder where
  "sse_new = \<lparr>sse_buffer = [], sse_read_pos = 0, scan_pos = 0, position = 0,
     builder = builder_new, sse_failure = None\<rparr>"

definition sse_push :: "sse_decoder \<Rightarrow> bytes \<Rightarrow> sse_decoder" where
  "sse_push d chunk =
     (if sse_failure d \<noteq> None then d
      else
        let d = (if 0 < sse_read_pos d
                 then d\<lparr>sse_buffer := drop (sse_read_pos d) (sse_buffer d),
                        scan_pos := scan_pos d - sse_read_pos d, sse_read_pos := 0\<rparr>
                 else d)
        in d\<lparr>sse_buffer := sse_buffer d @ chunk\<rparr>)"

text \<open>
  The \<open>loop\<close> of \<open>advance\<close>. Each turn reads one line and moves \<open>read_pos\<close> past its
  terminator, so the loop ends.
\<close>

function advance :: "sse_decoder \<Rightarrow> sse_decoder \<times> (sse_event option, sse_error) result" where
  "advance d =
     (let start = sse_read_pos d; from = max (scan_pos d) start; buf = sse_buffer d in
      case terminator (drop from buf) of
        None \<Rightarrow>
          (let d = d\<lparr>scan_pos := length buf\<rparr> in
           if MAX_SSE_LINE_BYTES < length buf - start then (d, Err LineTooLong)
           else if start = length buf
             then (d\<lparr>sse_buffer := [], sse_read_pos := 0, scan_pos := 0\<rparr>, Ok None)
             else (d, Ok None))
      | Some offset \<Rightarrow>
          (let end = from + offset in
           if MAX_SSE_LINE_BYTES < end - start then (d, Err LineTooLong)
           else if slice_get buf end = Some CR \<and> slice_get buf (end + 1) = None
             then (d\<lparr>scan_pos := end\<rparr>, Ok None)
           else
             (let terminator_len =
                    (if slice_get buf end = Some CR \<and> slice_get buf (end + 1) = Some LF
                     then 2 else 1);
                  line = take (end - start) (drop start buf);
                  (b', r) = builder_line (builder d) line;
                  d' = d\<lparr>sse_read_pos := end + terminator_len,
                         scan_pos := end + terminator_len,
                         position := position d + of_nat (end + terminator_len - start),
                         builder := b'\<rparr>
              in case r of
                   Err e \<Rightarrow> (d', Err e)
                 | Ok (Some ev) \<Rightarrow> (d', Ok (Some ev))
                 | Ok None \<Rightarrow> advance d')))"
  by pat_completeness auto
termination
  by (relation "measure (\<lambda>d. length (sse_buffer d) - sse_read_pos d)")
    (auto simp: terminator_def iter_position_Some_iff)

declare advance.simps [simp del]

definition next_event :: "sse_decoder \<Rightarrow> sse_decoder \<times> (sse_event option, sse_error) result" where
  "next_event d =
     (case sse_failure d of
        Some e \<Rightarrow> (d, Err e)
      | None \<Rightarrow>
          (case advance d of
             (d', Ok ev) \<Rightarrow> (d', Ok ev)
           | (d', Err e) \<Rightarrow>
               (d'\<lparr>sse_failure := Some e, sse_buffer := [], sse_read_pos := 0, scan_pos := 0\<rparr>,
                Err e)))"

definition sse_buffered_len :: "sse_decoder \<Rightarrow> nat" where
  "sse_buffered_len d = length (sse_buffer d) - sse_read_pos d"

definition sse_finish :: "sse_decoder \<Rightarrow> (sse_event option, sse_error) result" where
  "sse_finish d =
     (case next_event d of
        (d, Err e) \<Rightarrow> Err e
      | (d, Ok (Some _)) \<Rightarrow> Err UndrainedEvent
      | (d, Ok None) \<Rightarrow>
          (let rest = drop (sse_read_pos d) (sse_buffer d) in
           if rest = [] then Ok (snd (dispatch (builder d)))
           else
             (let line = (if last rest = CR then butlast rest else rest) in
              case builder_line (builder d) line of
                (b', Err e) \<Rightarrow> Err e
              | (b', Ok (Some ev)) \<Rightarrow> Ok (Some ev)
              | (b', Ok None) \<Rightarrow> Ok (snd (dispatch b')))))"

section \<open>The whole-body function\<close>

definition push_bounded :: "sse_event list \<Rightarrow> sse_event \<Rightarrow> (sse_event list, sse_error) result" where
  "push_bounded events ev =
     (if length events = MAX_SSE_EVENTS then Err TooManyEvents else Ok (events @ [ev]))"

definition push_opt ::
  "sse_event list \<Rightarrow> sse_event option \<Rightarrow> (sse_event list, sse_error) result" where
  "push_opt events ev =
     (case ev of None \<Rightarrow> Ok events | Some e \<Rightarrow> push_bounded events e)"

text \<open>The \<open>while let\<close> loop of \<open>decode_sse_v1\<close> and what follows it.\<close>

function decode_lines ::
  "event_builder \<Rightarrow> sse_event list \<Rightarrow> bytes \<Rightarrow> (sse_event list, sse_error) result" where
  "decode_lines b events rest =
     (case terminator rest of
        Some end \<Rightarrow>
          (let (b', r) = builder_line b (take end rest) in
           and_then r (\<lambda>ev. and_then (push_opt events ev) (\<lambda>events'.
             let crlf = (slice_get rest end = Some CR \<and> slice_get rest (end + 1) = Some LF)
             in decode_lines b' events' (drop (end + 1 + (if crlf then 1 else 0)) rest))))
      | None \<Rightarrow>
          (let (b', r) = (if rest = [] then (b, Ok None) else builder_line b rest) in
           and_then r (\<lambda>ev. and_then (push_opt events ev) (\<lambda>events'.
             push_opt events' (snd (dispatch b'))))))"
  by pat_completeness auto
termination
  by (relation "measure (\<lambda>(b, events, rest). length rest)")
    (auto simp: terminator_def iter_position_Some_iff)

declare decode_lines.simps [simp del]

definition decode_sse_v1 :: "bytes \<Rightarrow> (sse_event list, sse_error) result" where
  "decode_sse_v1 body = decode_lines builder_new [] body"

section \<open>The decoder as a framer\<close>

text \<open>
  One line off the front of the stream, without buffer positions: the specification the decoder
  object is measured against. The state is the line interpreter and the stream offset.
\<close>

definition sse_step :: "(event_builder \<times> 64 word, sse_event \<times> 64 word, sse_error) step" where
  "sse_step s b =
     (case terminator b of
        None \<Rightarrow> if MAX_SSE_LINE_BYTES < length b then Fail LineTooLong else Need
      | Some end \<Rightarrow>
          if MAX_SSE_LINE_BYTES < end then Fail LineTooLong
          else if b ! end = CR \<and> end + 1 = length b then Need
          else
            (let n = (if b ! end = CR \<and> b ! (end + 1) = LF then end + 2 else end + 1);
                 pos = snd s + of_nat n
             in case builder_line (fst s) (take end b) of
                  (bl, Err e) \<Rightarrow> Fail e
                | (bl, Ok ev) \<Rightarrow> Frame (bl, pos) (map_option (\<lambda>x. (x, pos)) ev) n))"

lemma terminator_Nil [simp]: "terminator [] = None"
  by (simp add: terminator_def)

lemma terminator_bound: "terminator b = Some i \<Longrightarrow> i < length b"
  by (simp add: terminator_def iter_position_less)

lemma terminator_at: "terminator b = Some i \<Longrightarrow> is_terminator (b ! i)"
  by (simp add: terminator_def iter_position_Some_iff)

lemma terminator_append:
  "terminator (b @ c) =
     (case terminator b of Some i \<Rightarrow> Some i | None \<Rightarrow> map_option ((+) (length b)) (terminator c))"
  unfolding terminator_def by (rule iter_position_append)

interpretation sse_framer: framer sse_step
proof unfold_locales
  fix s b s' out n c e
  show "sse_step s [] = Need"
    by (simp add: sse_step_def)
  show "0 < n \<and> n \<le> length b" if "sse_step s b = Frame s' out n"
    using that terminator_bound [of b] Suc_lessI [of _ "length b"]
    by (auto simp: sse_step_def Let_def split: option.splits if_splits prod.splits result.splits)
  show "sse_step s (b @ c) = Frame s' out n" if "sse_step s b = Frame s' out n"
  proof (cases "terminator b")
    case None
    with that show ?thesis by (simp add: sse_step_def split: if_splits)
  next
    case (Some i)
    with terminator_bound [OF Some] that show ?thesis
      by (auto simp: sse_step_def terminator_append nth_append Let_def
          split: if_splits prod.splits result.splits)
  qed
  show "sse_step s (b @ c) = Fail e" if "sse_step s b = Fail e"
  proof (cases "terminator b")
    case None
    with that show ?thesis
      by (cases "terminator c") (simp_all add: sse_step_def terminator_append split: if_splits)
  next
    case (Some i)
    with terminator_bound [OF Some] that show ?thesis
      by (auto simp: sse_step_def terminator_append nth_append Let_def
          split: if_splits prod.splits result.splits)
  qed
qed

subsection \<open>The decoder object implements the framer\<close>

text \<open>
  The invariant of a decoder that has not failed: the positions are inside the buffer, and no
  terminator lies between \<open>read_pos\<close> and \<open>scan_pos\<close>, which is why the search may
  resume at \<open>scan_pos\<close>.
\<close>

definition sse_pending :: "sse_decoder \<Rightarrow> bytes" where
  "sse_pending d = drop (sse_read_pos d) (sse_buffer d)"

definition sse_state :: "sse_decoder \<Rightarrow> event_builder \<times> 64 word" where
  "sse_state d = (builder d, position d)"

definition sse_inv :: "sse_decoder \<Rightarrow> bool" where
  "sse_inv d \<longleftrightarrow> sse_read_pos d \<le> length (sse_buffer d) \<and> scan_pos d \<le> length (sse_buffer d)
     \<and> terminator (take (scan_pos d - sse_read_pos d) (sse_pending d)) = None"

definition sse_live :: "sse_decoder \<Rightarrow> bool" where
  "sse_live d \<longleftrightarrow> sse_inv d \<and> sse_failure d = None"

text \<open>Resuming the search at \<open>scan_pos\<close> finds the terminator a full search would find.\<close>

lemma resume_scan:
  assumes "sse_inv d"
  shows "terminator (sse_pending d) =
    map_option ((+) (max (scan_pos d) (sse_read_pos d) - sse_read_pos d))
      (terminator (drop (max (scan_pos d) (sse_read_pos d)) (sse_buffer d)))"
proof -
  let ?k = "scan_pos d - sse_read_pos d"
  have k: "max (scan_pos d) (sse_read_pos d) - sse_read_pos d = ?k" by simp
  have "terminator (sse_pending d) = terminator (take ?k (sse_pending d) @ drop ?k (sse_pending d))"
    by simp
  also have "\<dots> = map_option ((+) (length (take ?k (sse_pending d)))) (terminator (drop ?k (sse_pending d)))"
    using assms by (subst terminator_append) (simp add: sse_inv_def)
  also have "drop ?k (sse_pending d) = drop (max (scan_pos d) (sse_read_pos d)) (sse_buffer d)"
    by (cases "scan_pos d \<le> sse_read_pos d") (simp_all add: sse_pending_def max_def)
  also have "length (take ?k (sse_pending d)) = ?k"
    using assms by (auto simp: sse_inv_def sse_pending_def min_def)
  finally show ?thesis by (simp only: k)
qed

text \<open>
  One turn of the loop of \<open>advance\<close> is one step of the framer on the pending bytes: it
  returns where the step needs bytes or fails, and otherwise consumes what the step consumes.
\<close>

definition consumed :: "sse_decoder \<Rightarrow> nat \<Rightarrow> event_builder \<Rightarrow> sse_decoder" where
  "consumed d n b =
     d\<lparr>sse_read_pos := sse_read_pos d + n, scan_pos := sse_read_pos d + n,
       position := position d + of_nat n, builder := b\<rparr>"

lemma advance_pending:
  assumes "sse_inv d"
  shows "advance d =
    (case terminator (sse_pending d) of
       None \<Rightarrow>
         (let d' = d\<lparr>scan_pos := length (sse_buffer d)\<rparr> in
          if MAX_SSE_LINE_BYTES < length (sse_pending d) then (d', Err LineTooLong)
          else if sse_pending d = []
            then (d'\<lparr>sse_buffer := [], sse_read_pos := 0, scan_pos := 0\<rparr>, Ok None)
            else (d', Ok None))
     | Some i \<Rightarrow>
         if MAX_SSE_LINE_BYTES < i then (d, Err LineTooLong)
         else if sse_pending d ! i = CR \<and> i + 1 = length (sse_pending d)
           then (d\<lparr>scan_pos := sse_read_pos d + i\<rparr>, Ok None)
         else
           (let n = (if sse_pending d ! i = CR \<and> sse_pending d ! (i + 1) = LF
                     then i + 2 else i + 1)
            in case builder_line (builder d) (take i (sse_pending d)) of
                 (b', Err e) \<Rightarrow> (consumed d n b', Err e)
               | (b', Ok (Some ev)) \<Rightarrow> (consumed d n b', Ok (Some ev))
               | (b', Ok None) \<Rightarrow> advance (consumed d n b')))"
proof (cases "terminator (drop (max (scan_pos d) (sse_read_pos d)) (sse_buffer d))")
  case None
  with resume_scan [OF assms] assms show ?thesis
    by (subst advance.simps) (auto simp: sse_inv_def sse_pending_def Let_def)
next
  case (Some offset)
  define i where "i = max (scan_pos d) (sse_read_pos d) - sse_read_pos d + offset"
  have e: "max (scan_pos d) (sse_read_pos d) + offset = sse_read_pos d + i"
    by (simp add: i_def)
  from resume_scan [OF assms] Some have t: "terminator (sse_pending d) = Some i"
    by (simp add: i_def)
  from terminator_bound [OF t] have i: "i < length (sse_pending d)" .
  have g: "slice_get (sse_buffer d) (sse_read_pos d + i) = Some (sse_pending d ! i)"
    using i by (simp add: slice_get_def sse_pending_def)
  have g': "slice_get (sse_buffer d) (Suc (sse_read_pos d + i)) =
      (if i + 1 < length (sse_pending d) then Some (sse_pending d ! (i + 1)) else None)"
    using i by (auto simp: slice_get_def sse_pending_def)
  have l: "take (sse_read_pos d + i - sse_read_pos d) (drop (sse_read_pos d) (sse_buffer d)) =
      take i (sse_pending d)"
    by (simp add: sse_pending_def)
  obtain b' r where bl: "builder_line (builder d) (take i (sse_pending d)) = (b', r)"
    by fastforce
  have c: "d\<lparr>sse_read_pos := sse_read_pos d + i + m, scan_pos := sse_read_pos d + i + m,
      position := position d + of_nat (sse_read_pos d + i + m - sse_read_pos d), builder := b'\<rparr> =
      consumed d (i + m) b'" for m
    by (simp add: consumed_def add.assoc)
  have n: "(if P then i + 2 else i + 1) = i + (if P then 2 else 1)" for P
    by simp
  show ?thesis
    unfolding advance.simps [of d] Let_def Some option.case e g l bl prod.case t c n
    using g' i by (cases r) (auto simp: Let_def split: option.splits)
qed

lemma consumed_simps [simp]:
  "sse_pending (consumed d n b) = drop n (sse_pending d)"
  "sse_state (consumed d n b) = (b, position d + of_nat n)"
  "position (consumed d n b) = position d + of_nat n"
  "sse_failure (consumed d n b) = sse_failure d"
  by (simp_all add: consumed_def sse_pending_def sse_state_def add.commute)

lemma sse_inv_consumed:
  assumes "sse_inv d" and "n \<le> length (sse_pending d)"
  shows "sse_inv (consumed d n b)"
  using assms by (auto simp: sse_inv_def consumed_def sse_pending_def)

lemma sse_inv_scanned:
  assumes "sse_inv d"
  shows "terminator (sse_pending d) = None \<Longrightarrow> sse_inv (d\<lparr>scan_pos := length (sse_buffer d)\<rparr>)"
    and "terminator (sse_pending d) = Some i \<Longrightarrow> sse_inv (d\<lparr>scan_pos := sse_read_pos d + i\<rparr>)"
  using assms
  by (auto simp: sse_inv_def sse_pending_def terminator_def iter_position_None_iff
      iter_position_Some_iff in_set_conv_nth)

lemma sse_inv_cleared: "sse_inv (d\<lparr>sse_buffer := [], sse_read_pos := 0, scan_pos := 0\<rparr>)"
  by (simp add: sse_inv_def sse_pending_def)

text \<open>What \<open>advance\<close> returns, in terms of the drained pending bytes.\<close>

definition advance_spec ::
  "sse_decoder \<Rightarrow> sse_decoder \<times> (sse_event option, sse_error) result \<Rightarrow> bool" where
  "advance_spec d res \<longleftrightarrow>
     sse_failure (fst res) = sse_failure d \<and>
     (case res of
        (d', Err e) \<Rightarrow> drain sse_step (sse_state d) (sse_pending d) = ([], Err e)
      | (d', Ok None) \<Rightarrow> sse_inv d' \<and>
          drain sse_step (sse_state d) (sse_pending d) = ([], Ok (sse_state d', sse_pending d'))
      | (d', Ok (Some ev)) \<Rightarrow> sse_inv d' \<and> length (sse_pending d') < length (sse_pending d) \<and>
          drain sse_step (sse_state d) (sse_pending d) =
            (let (outs, r) = drain sse_step (sse_state d') (sse_pending d')
             in ((ev, position d') # outs, r)))"

lemma advance_spec_skip:
  assumes "sse_step (sse_state d) (sse_pending d) = Frame (b, position d + of_nat n) None n"
    and "advance_spec (consumed d n b) res"
  shows "advance_spec d res"
  using assms sse_framer.frame_consumes [OF assms(1)] sse_framer.drain_Frame [OF assms(1)]
  by (auto simp: advance_spec_def split: prod.splits result.splits option.splits)

text \<open>A turn of the loop that reads a line.\<close>

lemma line_turn:
  assumes "sse_inv d" and "terminator (sse_pending d) = Some i" and "\<not> MAX_SSE_LINE_BYTES < i"
    and "\<not> (sse_pending d ! i = CR \<and> i + 1 = length (sse_pending d))"
  obtains (fail) e b' n where "sse_step (sse_state d) (sse_pending d) = Fail e"
      and "advance d = (consumed d n b', Err e)"
  | (skip) b' n where
      "sse_step (sse_state d) (sse_pending d) = Frame (b', position d + of_nat n) None n"
      and "advance d = advance (consumed d n b')"
  | (event) ev b' n where
      "sse_step (sse_state d) (sse_pending d) =
         Frame (b', position d + of_nat n) (Some (ev, position d + of_nat n)) n"
      and "advance d = (consumed d n b', Ok (Some ev))"
proof -
  define n where "n = (if sse_pending d ! i = CR \<and> sse_pending d ! (i + 1) = LF
    then i + 2 else i + 1)"
  obtain b' r where bl: "builder_line (builder d) (take i (sse_pending d)) = (b', r)"
    by fastforce
  have "sse_step (sse_state d) (sse_pending d) =
      (case r of Err e \<Rightarrow> Fail e
       | Ok ev \<Rightarrow> Frame (b', position d + of_nat n)
           (map_option (\<lambda>x. (x, position d + of_nat n)) ev) n)"
    using assms(2-4) bl unfolding sse_step_def n_def [symmetric]
    by (simp add: sse_state_def Let_def n_def split: result.splits)
  moreover have "advance d = (case r of Err e \<Rightarrow> (consumed d n b', Err e)
       | Ok (Some ev) \<Rightarrow> (consumed d n b', Ok (Some ev))
       | Ok None \<Rightarrow> advance (consumed d n b'))"
    using assms(2-4) bl unfolding advance_pending [OF assms(1)]
    by (cases r) (auto simp: Let_def n_def split: option.splits)
  ultimately show thesis
    using that by (auto split: result.splits option.splits)
qed

lemma advance_correct: "sse_inv d \<Longrightarrow> advance_spec d (advance d)"
proof (induction "length (sse_pending d)" arbitrary: d rule: less_induct)
  case less
  show ?case
  proof (cases "terminator (sse_pending d)")
    case None
    then show ?thesis
      using less.prems sse_inv_scanned(1) [OF less.prems None] sse_inv_cleared [of d]
      by (auto simp: advance_pending [OF less.prems] advance_spec_def Let_def
          sse_framer.drain_Need sse_framer.drain_Fail sse_step_def
          sse_state_def sse_pending_def)
  next
    case (Some i)
    consider (long) "MAX_SSE_LINE_BYTES < i"
      | (wait) "\<not> MAX_SSE_LINE_BYTES < i" "sse_pending d ! i = CR" "i + 1 = length (sse_pending d)"
      | (line) "\<not> MAX_SSE_LINE_BYTES < i"
        "\<not> (sse_pending d ! i = CR \<and> i + 1 = length (sse_pending d))"
      by blast
    then show ?thesis
    proof cases
      case long
      with Some show ?thesis
        by (simp add: advance_pending [OF less.prems] advance_spec_def sse_framer.drain_Fail
            sse_step_def)
    next
      case wait
      with Some sse_inv_scanned(2) [OF less.prems Some] show ?thesis
        by (auto simp: advance_pending [OF less.prems] advance_spec_def sse_framer.drain_Need
            sse_step_def sse_state_def sse_pending_def)
    next
      case line
      from less.prems Some line show ?thesis
      proof (cases rule: line_turn)
        case (fail e b' n)
        then show ?thesis by (simp add: advance_spec_def sse_framer.drain_Fail)
      next
        case (skip b' n)
        from sse_framer.frame_consumes [OF skip(1)] less.prems
        have "advance_spec (consumed d n b') (advance (consumed d n b'))"
          by (intro less.hyps) (auto intro: sse_inv_consumed)
        with skip show ?thesis by (simp add: advance_spec_skip)
      next
        case (event ev b' n)
        with sse_framer.frame_consumes [OF event(1)] less.prems sse_framer.drain_Frame [OF event(1)]
        show ?thesis by (auto simp: advance_spec_def intro: sse_inv_consumed)
      qed
    qed
  qed
qed

lemma sse_push_live:
  assumes "sse_live d"
  shows "sse_live (sse_push d c)" and "sse_state (sse_push d c) = sse_state d"
    and "sse_pending (sse_push d c) = sse_pending d @ c"
  using assms
  by (auto simp: sse_live_def sse_inv_def sse_push_def sse_pending_def sse_state_def)

lemma next_event_spec:
  assumes "sse_live d"
  shows "next_event d = (d', Ok ev) \<Longrightarrow> advance_spec d (d', Ok ev) \<and> sse_live d'"
    and "next_event d = (d', Err e) \<Longrightarrow> drain sse_step (sse_state d) (sse_pending d) = ([], Err e)"
  using assms advance_correct [of d]
  by (auto simp: next_event_def sse_live_def advance_spec_def case_prod_beta Let_def
      split: result.splits option.splits)

text \<open>The decoder object meets the contract of an incremental decoder.\<close>

abbreviation sse_view :: "sse_decoder \<Rightarrow> sse_event \<Rightarrow> sse_event \<times> 64 word" where
  "sse_view d ev \<equiv> (ev, position d)"

interpretation sse: incremental_decoder sse_step sse_push next_event sse_view sse_live sse_state
  sse_pending
proof unfold_locales
  fix d d' c ev e
  assume l: "sse_live d"
  show "sse_live (sse_push d c)" "sse_state (sse_push d c) = sse_state d"
    "sse_pending (sse_push d c) = sse_pending d @ c"
    using l by (rule sse_push_live)+
  show "sse_live d' \<and> drain sse_step (sse_state d) (sse_pending d) = ([], Ok (sse_state d', sse_pending d'))"
    if "next_event d = (d', Ok None)"
    using next_event_spec(1) [OF l that] by (simp add: advance_spec_def)
  show "sse_live d' \<and> length (sse_pending d') < length (sse_pending d) \<and>
      drain sse_step (sse_state d) (sse_pending d) =
        (let (outs, r) = drain sse_step (sse_state d') (sse_pending d') in (sse_view d' ev # outs, r))"
    if "next_event d = (d', Ok (Some ev))"
    using next_event_spec(1) [OF l that] by (simp add: advance_spec_def)
  show "drain sse_step (sse_state d) (sse_pending d) = ([], Err e)"
    if "next_event d = (d', Err e)"
    using next_event_spec(2) [OF l that] .
qed

section \<open>End of input and the whole-body function\<close>

text \<open>What the end of input makes of an interpreter and the bytes of an unread last line.\<close>

definition end_of_input :: "event_builder \<Rightarrow> bytes \<Rightarrow> (sse_event option, sse_error) result" where
  "end_of_input b rest =
     (if rest = [] then Ok (snd (dispatch b))
      else case builder_line b (if last rest = CR then butlast rest else rest) of
             (b', Err e) \<Rightarrow> Err e
           | (b', Ok (Some ev)) \<Rightarrow> Ok (Some ev)
           | (b', Ok None) \<Rightarrow> Ok (snd (dispatch b')))"

lemma next_event_idle:
  assumes "sse_live d" and "sse_step (sse_state d) (sse_pending d) = Need"
  obtains d' where "next_event d = (d', Ok None)" and "sse_state d' = sse_state d"
    and "sse_pending d' = sse_pending d"
proof -
  obtain d' r where n: "next_event d = (d', r)" by fastforce
  have dr: "drain sse_step (sse_state d) (sse_pending d) = ([], Ok (sse_state d, sse_pending d))"
    using assms(2) by (rule sse_framer.drain_Need)
  have "r = Ok None"
  proof (cases r)
    case (Err e)
    with n dr sse.pull_err [OF assms(1), of d' e] show ?thesis by simp
  next
    case (Ok ev)
    with n dr sse.pull_some [OF assms(1), of d' "the ev"] show ?thesis
      by (cases ev) (auto simp: Let_def split: prod.splits)
  qed
  with n sse.pull_none [OF assms(1), of d'] dr that show thesis by simp
qed

lemma sse_finish_idle:
  assumes "sse_live d" and "sse_step (sse_state d) (sse_pending d) = Need"
  shows "sse_finish d = end_of_input (builder d) (sse_pending d)"
proof -
  obtain d' where "next_event d = (d', Ok None)" and "sse_state d' = sse_state d"
    and "sse_pending d' = sse_pending d"
    using assms by (rule next_event_idle)
  then show ?thesis
    by (simp add: sse_finish_def end_of_input_def sse_state_def sse_pending_def Let_def)
qed

lemma dispatch_again: "dispatch b = (b', ev) \<Longrightarrow> snd (dispatch b') = None"
  by (auto simp: dispatch_def Let_def split: if_splits)

lemma builder_line_event_resets:
  "builder_line b line = (b', Ok (Some ev)) \<Longrightarrow> snd (dispatch b') = None"
  by (auto simp: builder_line_def apply_field_def Let_def dest: dispatch_again
      split: if_splits prod.splits)

lemma push_opt_append:
  "length events \<le> MAX_SSE_EVENTS \<Longrightarrow>
    push_opt events ev = (if MAX_SSE_EVENTS < length events + length (case ev of None \<Rightarrow> [] | Some e \<Rightarrow> [e])
      then Err TooManyEvents else Ok (events @ (case ev of None \<Rightarrow> [] | Some e \<Rightarrow> [e])))"
  by (auto simp: push_opt_def push_bounded_def split: option.splits)

text \<open>A line that dispatches leaves nothing for the end of input to dispatch.\<close>

definition after_line ::
  "sse_event list \<Rightarrow> event_builder \<times> (sse_event option, sse_error) result
     \<Rightarrow> (sse_event list, sse_error) result" where
  "after_line events res =
     and_then (snd res) (\<lambda>ev. and_then (push_opt events ev) (\<lambda>events'.
       push_opt events' (snd (dispatch (fst res)))))"

lemma after_line_last:
  "after_line events (builder_line b line) =
     and_then (case builder_line b line of
                 (b', Err e) \<Rightarrow> Err e
               | (b', Ok (Some ev)) \<Rightarrow> Ok (Some ev)
               | (b', Ok None) \<Rightarrow> Ok (snd (dispatch b')))
       (push_opt events)"
proof -
  obtain b' r where bl: "builder_line b line = (b', r)" by fastforce
  consider e where "r = Err e" | "r = Ok None" | ev where "r = Ok (Some ev)"
    by (metis option.exhaust result.exhaust)
  then show ?thesis
  proof cases
    case (3 ev)
    with bl have "snd (dispatch b') = None" by (simp add: builder_line_event_resets)
    with 3 bl show ?thesis by (simp add: after_line_def push_opt_def)
  qed (use bl in \<open>simp_all add: after_line_def push_opt_def\<close>)
qed

text \<open>Where the framer needs more bytes, the whole-body function does what the end of input does.\<close>

lemma decode_lines_Nil: "decode_lines b events [] = push_opt events (snd (dispatch b))"
  by (subst decode_lines.simps) (simp add: push_opt_def)

lemma decode_lines_end:
  assumes "sse_step (b, pos) rest = Need"
  shows "decode_lines b events rest = and_then (end_of_input b rest) (push_opt events)"
proof (cases "rest = []")
  case True
  then show ?thesis by (simp add: decode_lines_Nil end_of_input_def)
next
  case False
  let ?line = "if last rest = CR then butlast rest else rest"
  have "decode_lines b events rest = after_line events (builder_line b ?line)"
  proof (cases "terminator rest")
    case None
    then have "last rest \<noteq> CR"
      using False by (auto simp: terminator_def iter_position_None_iff is_terminator_def
          dest: last_in_set)
    with None False show ?thesis
      by (subst decode_lines.simps) (simp add: after_line_def split: prod.splits)
  next
    case (Some i)
    with assms have c: "rest ! i = CR" "length rest = i + 1"
      by (auto simp: sse_step_def Let_def split: if_splits prod.splits result.splits)
    then have "last rest = CR" "butlast rest = take i rest" "drop (Suc i) rest = []"
      using False by (auto simp: last_conv_nth butlast_conv_take)
    with Some c show ?thesis
      by (subst decode_lines.simps)
        (simp add: after_line_def slice_get_def decode_lines_Nil split: prod.splits)
  qed
  with False show ?thesis by (simp add: after_line_last end_of_input_def)
qed

text \<open>Elsewhere it fails where the framer fails and goes on where the framer goes on.\<close>

lemma builder_line_long:
  "MAX_SSE_LINE_BYTES < length line \<Longrightarrow> builder_line b line = (b, Err LineTooLong)"
  by (simp add: builder_line_def)

lemma decode_lines_fail:
  assumes "sse_step (b, pos) rest = Fail e"
  shows "decode_lines b events rest = Err e"
proof (cases "terminator rest")
  case None
  with assms have "MAX_SSE_LINE_BYTES < length rest" "e = LineTooLong"
    by (auto simp: sse_step_def split: if_splits)
  moreover from this have "rest \<noteq> []" by auto
  ultimately show ?thesis
    using None by (subst decode_lines.simps) (simp add: builder_line_long)
next
  case (Some i)
  with assms terminator_bound [OF Some]
  have "\<exists>b'. builder_line b (take i rest) = (b', Err e)"
    by (auto simp: sse_step_def builder_line_long Let_def
        split: if_splits prod.splits result.splits)
  with Some show ?thesis by (subst decode_lines.simps) auto
qed

lemma decode_lines_frame:
  assumes "sse_step (b, pos) rest = Frame (b', pos') out n"
  shows "decode_lines b events rest =
    and_then (push_opt events (map_option fst out)) (\<lambda>events'. decode_lines b' events' (drop n rest))"
proof -
  from assms obtain i where i: "terminator rest = Some i"
    by (auto simp: sse_step_def split: option.splits if_splits)
  with assms terminator_bound [OF i] show ?thesis
    by (subst decode_lines.simps)
      (auto simp: sse_step_def slice_get_def Let_def option.map_comp comp_def
        option.map_ident
        split: if_splits prod.splits result.splits)
qed

definition drained_outcome ::
  "((event_builder \<times> 64 word) \<times> bytes, sse_error) result \<Rightarrow> (sse_event option, sse_error) result" where
  "drained_outcome r =
     (case r of Err e \<Rightarrow> Err e | Ok ((b, _), rest) \<Rightarrow> end_of_input b rest)"

lemma decode_lines_drain:
  "drain sse_step (b, pos) rest = (outs, r) \<Longrightarrow> length events \<le> MAX_SSE_EVENTS \<Longrightarrow>
   decode_lines b events rest =
     (if MAX_SSE_EVENTS < length events + length outs then Err TooManyEvents
      else and_then (drained_outcome r) (push_opt (events @ map fst outs)))"
proof (induction "length rest" arbitrary: b pos rest events outs rule: less_induct)
  case less
  show ?case
  proof (cases "sse_step (b, pos) rest")
    case Need
    with less.prems show ?thesis
      by (auto simp: sse_framer.drain_Need decode_lines_end drained_outcome_def)
  next
    case (Fail e)
    with less.prems show ?thesis
      by (auto simp: sse_framer.drain_Fail decode_lines_fail drained_outcome_def)
  next
    case (Frame s1 out n)
    obtain b1 pos1 where s1: "s1 = (b1, pos1)" by fastforce
    with less.prems(1) Frame obtain outs' where d: "drain sse_step (b1, pos1) (drop n rest) = (outs', r)"
      and outs: "outs = (case out of None \<Rightarrow> outs' | Some x \<Rightarrow> x # outs')"
      by (auto simp: sse_framer.drain_Frame Let_def split: prod.splits)
    from sse_framer.frame_consumes [OF Frame] have "length (drop n rest) < length rest" by auto
    note IH = less.hyps [OF this d]
    from Frame s1 have f: "decode_lines b events rest = and_then (push_opt events (map_option fst out))
        (\<lambda>events'. decode_lines b1 events' (drop n rest))"
      by (simp add: decode_lines_frame)
    show ?thesis
    proof (cases out)
      case None
      with IH [of events] less.prems(2) f outs show ?thesis by (simp add: push_opt_def)
    next
      case (Some x)
      with IH [of "events @ [fst x]"] less.prems(2) f outs show ?thesis
        by (auto simp: push_opt_def push_bounded_def)
    qed
  qed
qed

section \<open>Properties of the decoder\<close>

text \<open>A host's use of the decoder: push and drain every chunk, then finish.\<close>

definition sse_run ::
  "bytes list \<Rightarrow> ((sse_event \<times> 64 word) list \<times> (sse_event option, sse_error) result) option" where
  "sse_run chunks =
     map_option (\<lambda>(frames, d, err). (frames, case err of Some e \<Rightarrow> Err e | None \<Rightarrow> sse_finish d))
       (run_chunks sse_push next_event sse_view sse_new chunks)"

lemma sse_new_live: "sse_live sse_new" "sse_pending sse_new = []" "sse_state sse_new = (builder_new, 0)"
  by (simp_all add: sse_live_def sse_inv_def sse_new_def sse_pending_def sse_state_def)

lemma sse_run_drain:
  "sse_run chunks =
     (let (frames, r) = drain sse_step (builder_new, 0) (concat chunks)
      in Some (frames, drained_outcome r))"
proof -
  obtain frames d err
    where r: "run_chunks sse_push next_event sse_view sse_new chunks = Some (frames, d, err)"
      and a: "sse.agrees (drain sse_step (builder_new, 0) (concat chunks)) (frames, d, err)"
    using sse.run_chunks_drains [of sse_new chunks] sse_new_live
    by (auto simp: sse_framer.empty_needs)
  show ?thesis
  proof (cases err)
    case (Some e)
    with r a show ?thesis by (simp add: sse_run_def sse.agrees_def drained_outcome_def)
  next
    case None
    with a have l: "sse_live d"
      and dr: "drain sse_step (builder_new, 0) (concat chunks) = (frames, Ok (sse_state d, sse_pending d))"
      by (simp_all add: sse.agrees_def)
    from l sse_framer.drain_rest_needs [OF dr]
    have "sse_finish d = end_of_input (builder d) (sse_pending d)"
      by (rule sse_finish_idle)
    with None r dr show ?thesis by (simp add: sse_run_def sse_state_def drained_outcome_def)
  qed
qed

text \<open>
  Claim C25. However a stream is cut into chunks (inside a line, between the CR and the LF of a
  CRLF, inside a multi-byte character), the incremental decoder terminates and produces the same
  events at the same stream positions, the same final event and the same first error as when the
  whole stream arrives in one chunk.
\<close>

theorem sse_chunking_irrelevant:
  "\<exists>frames outcome. sse_run chunks = Some (frames, outcome)
     \<and> sse_run [concat chunks] = Some (frames, outcome)"
  by (simp add: sse_run_drain split: prod.splits)

text \<open>
  The whole-body function returns exactly the events the incremental decoder hands out
  followed by the event the end of input dispatches, and its error otherwise; the only difference
  is that more than \<open>MAX_SSE_EVENTS\<close> events are refused as \<open>TooManyEvents\<close>, also when a
  later line is invalid.
\<close>

theorem sse_whole_body_agrees:
  "\<exists>frames outcome. sse_run chunks = Some (frames, outcome) \<and>
     decode_sse_v1 (concat chunks) =
       (if MAX_SSE_EVENTS < length frames then Err TooManyEvents
        else and_then outcome (push_opt (map fst frames)))"
proof -
  obtain frames r where d: "drain sse_step (builder_new, 0) (concat chunks) = (frames, r)"
    by fastforce
  then show ?thesis
    using decode_lines_drain [OF d, of "[]"] by (simp add: sse_run_drain decode_sse_v1_def)
qed

subsection \<open>Errors are sticky\<close>

text \<open>
  After the first error every later call returns it again: pushed bytes are discarded,
  and both the next pull and the end of input report the same error.
\<close>

theorem sse_errors_sticky:
  assumes "next_event d = (d', Err e)"
  shows "foldl sse_push d' chunks = d' \<and> next_event d' = (d', Err e) \<and> sse_finish d' = Err e
    \<and> sse_buffered_len d' = (if sse_failure d = None then 0 else sse_buffered_len d)"
proof -
  have f: "sse_failure d' = Some e"
    using assms by (auto simp: next_event_def split: option.splits prod.splits result.splits)
  have "foldl sse_push d' chunks = d'"
    by (induction chunks) (simp_all add: sse_push_def f)
  moreover have n: "next_event d' = (d', Err e)"
    by (simp add: next_event_def f)
  moreover have "sse_finish d' = Err e"
    by (simp add: sse_finish_def n)
  moreover have "sse_buffered_len d' = (if sse_failure d = None then 0 else sse_buffered_len d)"
    using assms
    by (auto simp: next_event_def sse_buffered_len_def split: option.splits prod.splits result.splits)
  ultimately show ?thesis by simp
qed

lemmas sse_eval = next_event_def advance.simps sse_push_def sse_new_def terminator_def
  is_terminator_def builder_new_def builder_line_def dispatch_def apply_field_def line_field_def
  starts_with_def slice_get_def utf8_valid.simps utf8_head_def utf8_second3_def utf8_second4_def byte_in_def BOM_def
  MAX_SSE_LINE_BYTES_def MAX_SSE_EVENT_BYTES_def DEFAULT_SSE_EVENT_TYPE_def saturating_add_def
  usize_max_def sse_buffered_len_def

theorem sse_errors_sticky_witness:
  "\<exists>d d'. next_event d = (d', Err NotUtf8) \<and> foldl sse_push d' [''data: x'', [LF, LF]] = d'
     \<and> next_event d' = (d', Err NotUtf8)"
proof -
  let ?d = "sse_push sse_new [CHR 0xFF, LF]"
  have n: "snd (next_event ?d) = Err NotUtf8"
    by (simp add: sse_eval)
  then obtain d' where d: "next_event ?d = (d', Err NotUtf8)"
    by (metis prod.collapse)
  from sse_errors_sticky [OF d, of "[''data: x'', [LF, LF]]"] d show ?thesis by blast
qed

subsection \<open>Memory is bounded\<close>

definition builder_bounded :: "event_builder \<Rightarrow> bool" where
  "builder_bounded b \<longleftrightarrow>
     length (event_type b) + length (builder_data b) \<le> MAX_SSE_EVENT_BYTES"

definition event_bounded :: "sse_event \<Rightarrow> bool" where
  "event_bounded ev \<longleftrightarrow> length (sse_event_data ev) < MAX_SSE_EVENT_BYTES
     \<and> (sse_event_type ev = DEFAULT_SSE_EVENT_TYPE
        \<or> length (sse_event_type ev) + length (sse_event_data ev) < MAX_SSE_EVENT_BYTES)"

lemma max_event_usize: "MAX_SSE_EVENT_BYTES < usize_max"
  by (simp add: MAX_SSE_EVENT_BYTES_def usize_max_def)

lemmas event_sums = saturating_add_less [OF max_event_usize, of "length x" "length y" for x y]
  saturating_add4_less [OF max_event_usize]

lemma dispatch_bounded:
  "builder_bounded b \<Longrightarrow> dispatch b = (b', ev) \<Longrightarrow>
     builder_bounded b' \<and> (\<forall>x. ev = Some x \<longrightarrow> event_bounded x)"
  by (cases "builder_data b" rule: rev_cases)
    (auto simp: dispatch_def builder_bounded_def event_bounded_def Let_def split: if_splits)

lemma apply_field_bounded:
  "builder_bounded b \<Longrightarrow> apply_field b f v = (b', r) \<Longrightarrow> builder_bounded b' \<and> r \<noteq> Ok (Some x)"
  by (auto simp: apply_field_def builder_bounded_def event_sums Let_def split: if_splits)

lemma builder_line_bounded:
  assumes "builder_bounded b" and "builder_line b line = (b', r)"
  shows "builder_bounded b' \<and> (\<forall>x. r = Ok (Some x) \<longrightarrow> event_bounded x)"
proof -
  have "builder_bounded (b\<lparr>at_stream_start := False\<rparr>)"
    using assms(1) by (simp add: builder_bounded_def)
  then show ?thesis
    using assms by (auto simp: builder_line_def Let_def split: if_splits prod.splits
        dest: dispatch_bounded apply_field_bounded)
qed

lemma sse_step_bounded:
  assumes "builder_bounded (fst s)" and "sse_step s b = Frame s' out n"
  shows "builder_bounded (fst s') \<and> (\<forall>x. out = Some x \<longrightarrow> event_bounded (fst x))"
  using assms
  by (auto simp: sse_step_def Let_def dest: builder_line_bounded
      split: option.splits if_splits prod.splits result.splits)

lemma sse_step_needs_bound: "sse_step s b = Need \<Longrightarrow> length b \<le> MAX_SSE_LINE_BYTES + 1"
  by (auto simp: sse_step_def Let_def split: option.splits if_splits prod.splits result.splits)

text \<open>
  A caller that drains after every push holds at most one unterminated line of
  \<open>MAX_SSE_LINE_BYTES\<close> (and the CR that may be half of a CRLF) and one pending event of
  \<open>MAX_SSE_EVENT_BYTES\<close>, and is never handed an event whose type and data exceed that bound.
\<close>

theorem sse_memory_bounded:
  assumes "run_chunks sse_push next_event sse_view sse_new chunks = Some (frames, d, None)"
  shows "sse_buffered_len d \<le> MAX_SSE_LINE_BYTES + 1 \<and> builder_bounded (builder d)
    \<and> (\<forall>(ev, pos) \<in> set frames. event_bounded ev)"
proof -
  from assms sse.run_chunks_drains [of sse_new chunks] sse_new_live
  have dr: "drain sse_step (builder_new, 0) (concat chunks) = (frames, Ok (sse_state d, sse_pending d))"
    by (auto simp: sse_framer.empty_needs sse.agrees_def)
  have "builder_bounded (fst (builder_new, 0 :: 64 word))"
    by (simp add: builder_bounded_def builder_new_def)
  from sse_framer.drain_invariant [where P = "\<lambda>s. builder_bounded (fst s)"
      and Q = "\<lambda>x. event_bounded (fst x)", OF _ this dr] sse_step_bounded
  have "(\<forall>x\<in>set frames. event_bounded (fst x)) \<and> builder_bounded (builder d)"
    by (simp add: sse_state_def)
  moreover have "length (sse_pending d) \<le> MAX_SSE_LINE_BYTES + 1"
    using sse_framer.drain_rest_needs [OF dr] by (rule sse_step_needs_bound)
  ultimately show ?thesis by (auto simp: sse_buffered_len_def sse_pending_def)
qed

theorem sse_memory_bounded_witness:
  "\<exists>d. run_chunks sse_push next_event sse_view sse_new [''data: a'' @ [LF, LF, CHR ''x'']] =
       Some ([(\<lparr>sse_event_type = ''message'', sse_event_data = ''a''\<rparr>, 9)], d, None)
     \<and> sse_buffered_len d \<le> MAX_SSE_LINE_BYTES + 1 \<and> builder_bounded (builder d)"
proof -
  let ?bytes = "''data: a'' @ [LF, LF, CHR ''x'']"
  let ?ev = "\<lparr>sse_event_type = ''message'', sse_event_data = ''a''\<rparr>"
  let ?b = "\<lparr>at_stream_start = False, event_type = [], builder_data = []\<rparr>"
  let ?d1 = "\<lparr>sse_buffer = ?bytes, sse_read_pos = 9, scan_pos = 9, position = 9, builder = ?b,
    sse_failure = None\<rparr>"
  have 1: "next_event (sse_push sse_new ?bytes) = (?d1, Ok (Some ?ev))"
    by (simp add: sse_eval)
  have 2: "next_event ?d1 = (?d1\<lparr>scan_pos := 10\<rparr>, Ok None)"
    by (simp add: sse_eval)
  have "run_chunks sse_push next_event sse_view sse_new [?bytes] =
      Some ([(?ev, 9)], ?d1\<lparr>scan_pos := 10\<rparr>, None)"
    using pull_all_step(3) [where pull = next_event and view = sse_view, OF 1
        pull_all_step(2) [where pull = next_event, OF 2]] by simp
  with sse_memory_bounded [OF this] show ?thesis by blast
qed

end
