(* ===== verification/Sse_Frames.thy ===== *)
theory Sse_Frames
  imports Sse
begin

text \<open>
  What one frame of a server-sent event stream means. Writing events as frames and decoding them
  gives the events back, and the slice of the stream between two positions reported by the
  incremental decoder decodes on its own to the event it carried, which is what a host that
  forwards the upstream's own bytes relies on.
\<close>

section \<open>Writing frames\<close>

definition data_lines :: "string list \<Rightarrow> bytes" where
  "data_lines ls = concat (map (\<lambda>l. ''data: '' @ l @ [LF]) ls)"

definition sse_frame :: "sse_event \<Rightarrow> bytes" where
  "sse_frame ev =
     ''event: '' @ sse_event_type ev @ [LF] @ data_lines (split_on LF (sse_event_data ev)) @ [LF]"

text \<open>
  The events a frame can carry: a non-empty type on one line, data without CR (an LF starts a new
  \<open>data:\<close> line), both UTF-8, and within the bounds of one line and one event.
\<close>

definition framable :: "sse_event \<Rightarrow> bool" where
  "framable ev \<longleftrightarrow>
     sse_event_type ev \<noteq> [] \<and> utf8_valid (sse_event_type ev) \<and> utf8_valid (sse_event_data ev)
     \<and> CR \<notin> set (sse_event_type ev) \<and> LF \<notin> set (sse_event_type ev)
     \<and> CR \<notin> set (sse_event_data ev)
     \<and> length (sse_event_type ev) + length (sse_event_data ev) + 7 \<le> MAX_SSE_LINE_BYTES"

section \<open>Reading lines\<close>

abbreviation clean_line :: "bytes \<Rightarrow> bool" where
  "clean_line l \<equiv> CR \<notin> set l \<and> LF \<notin> set l"

lemma terminator_clean: "clean_line l \<Longrightarrow> terminator (l @ LF # rest) = Some (length l)"
  unfolding terminator_def
  by (subst iter_position_Some_iff) (auto simp: is_terminator_def nth_append in_set_conv_nth)

lemma decode_lines_LF:
  assumes "clean_line l" and "builder_line b l = (b', Ok ev)"
  shows "decode_lines b events (l @ LF # rest) =
    and_then (push_opt events ev) (\<lambda>events'. decode_lines b' events' rest)"
  using assms terminator_clean [OF assms(1), of rest]
  by (subst decode_lines.simps) (simp add: slice_get_def)

text \<open>A line that is neither blank nor a comment sets the field it names.\<close>

lemma builder_line_field:
  assumes "length l \<le> MAX_SSE_LINE_BYTES" and "strip_prefix BOM l = None" and "utf8_valid l"
    and "l \<noteq> []" and "\<not> starts_with '':'' l" and "line_field l = (f, v)"
  shows "builder_line b l = apply_field (b\<lparr>at_stream_start := False\<rparr>) f v"
  using assms by (simp add: builder_line_def Let_def)

lemma builder_line_event:
  assumes "utf8_valid v" and "length v + 7 \<le> MAX_SSE_LINE_BYTES"
    and "length v + length (builder_data b) \<le> MAX_SSE_EVENT_BYTES"
  shows "builder_line b (''event: '' @ v) =
    (b\<lparr>at_stream_start := False, event_type := v\<rparr>, Ok None)"
proof -
  have "builder_line b (''event: '' @ v) = apply_field (b\<lparr>at_stream_start := False\<rparr>) ''event'' v"
    using assms(1,2)
    by (intro builder_line_field) (simp_all add: BOM_def starts_with_def line_field_def ascii_def)
  with assms(3) show ?thesis by (simp add: apply_field_def event_sums)
qed

lemma builder_line_data:
  assumes "utf8_valid v" and "length v + 6 \<le> MAX_SSE_LINE_BYTES"
    and "length (event_type b) + length (builder_data b) + length v + 1 \<le> MAX_SSE_EVENT_BYTES"
  shows "builder_line b (''data: '' @ v) =
    (b\<lparr>at_stream_start := False, builder_data := builder_data b @ v @ [LF]\<rparr>, Ok None)"
proof -
  have "builder_line b (''data: '' @ v) = apply_field (b\<lparr>at_stream_start := False\<rparr>) ''data'' v"
    using assms(1,2)
    by (intro builder_line_field) (simp_all add: BOM_def starts_with_def line_field_def ascii_def)
  with assms(3) show ?thesis by (simp add: apply_field_def event_sums)
qed

lemma started_idem: "\<not> at_stream_start b \<Longrightarrow> b\<lparr>at_stream_start := False\<rparr> = b"
  by simp

lemma builder_line_blank:
  "\<not> at_stream_start b \<Longrightarrow> builder_line b [] = (let (b', ev) = dispatch b in (b', Ok ev))"
  by (simp add: builder_line_def started_idem)

lemma decode_data_lines:
  assumes "\<forall>l\<in>set ls. utf8_valid l \<and> clean_line l \<and> length l + 6 \<le> MAX_SSE_LINE_BYTES"
    and "\<not> at_stream_start b"
    and "length (event_type b) + length (builder_data b) + length (concat (map (\<lambda>l. l @ [LF]) ls))
      \<le> MAX_SSE_EVENT_BYTES"
  shows "decode_lines b events (data_lines ls @ rest) =
    decode_lines (b\<lparr>builder_data := builder_data b @ concat (map (\<lambda>l. l @ [LF]) ls)\<rparr>) events rest"
  using assms
proof (induction ls arbitrary: b)
  case Nil
  then show ?case by (simp add: data_lines_def)
next
  case (Cons l ls)
  let ?b = "b\<lparr>at_stream_start := False, builder_data := builder_data b @ l @ [LF]\<rparr>"
  from Cons.prems have l: "clean_line (''data: '' @ l)"
    and bl: "builder_line b (''data: '' @ l) = (?b, Ok None)"
    by (simp, intro builder_line_data) auto
  have "decode_lines b events (data_lines (l # ls) @ rest) =
      decode_lines b events ((''data: '' @ l) @ LF # (data_lines ls @ rest))"
    by (simp add: data_lines_def)
  also have "\<dots> = decode_lines ?b events (data_lines ls @ rest)"
    using decode_lines_LF [OF l bl] by (simp add: push_opt_def)
  also have "\<dots> = decode_lines (?b\<lparr>builder_data := builder_data ?b @ concat (map (\<lambda>l. l @ [LF]) ls)\<rparr>)
      events rest"
    using Cons.prems by (intro Cons.IH) auto
  finally show ?case using started_idem [OF Cons.prems(2)] by simp
qed

lemma join_split_on: "concat (map (\<lambda>l. l @ [c]) (split_on c xs)) = xs @ [c]"
proof (induction xs)
  case Nil
  then show ?case by simp
next
  case (Cons x xs)
  then show ?case by (cases "split_on c xs") auto
qed

lemma split_on_subset: "p \<in> set (split_on c xs) \<Longrightarrow> set p \<subseteq> set xs \<and> length p \<le> length xs"
proof (induction xs arbitrary: p)
  case Nil
  then show ?case by simp
next
  case (Cons x xs)
  then show ?case by (cases "split_on c xs") (fastforce split: if_splits)+
qed

lemma utf8_valid_split_on:
  "ascii c \<Longrightarrow> utf8_valid xs \<Longrightarrow> p \<in> set (split_on c xs) \<Longrightarrow> utf8_valid p"
proof (induction "length xs" arbitrary: xs rule: less_induct)
  case less
  show ?case
  proof (cases "c \<in> set xs")
    case False
    with less.prems show ?thesis by (simp add: split_on_plain)
  next
    case True
    then obtain a b where xs: "xs = a @ c # b" "c \<notin> set a"
      by (meson split_list_first)
    with less.prems utf8_valid_cut [of c a b] less.hyps [of b] show ?thesis
      by (auto simp: split_on_sep)
  qed
qed

text \<open>One frame, read by an interpreter that is between events.\<close>

lemma decode_frame_step:
  assumes "framable ev" and "event_type b = []" and "builder_data b = []"
    and "length events < MAX_SSE_EVENTS"
  shows "decode_lines b events (sse_frame ev @ rest) =
    decode_lines \<lparr>at_stream_start = False, event_type = [], builder_data = []\<rparr> (events @ [ev]) rest"
proof -
  let ?ty = "sse_event_type ev" and ?data = "sse_event_data ev"
  let ?ls = "split_on LF ?data"
  let ?b1 = "b\<lparr>at_stream_start := False, event_type := ?ty\<rparr>"
  let ?b2 = "?b1\<lparr>builder_data := ?data @ [LF]\<rparr>"
  note fr = assms(1) [unfolded framable_def]
  have maxes: "MAX_SSE_EVENT_BYTES = MAX_SSE_LINE_BYTES"
    by (simp add: MAX_SSE_EVENT_BYTES_def MAX_SSE_LINE_BYTES_def)
  have c1: "clean_line (''event: '' @ ?ty)" using fr by simp
  have bl1: "builder_line b (''event: '' @ ?ty) = (?b1, Ok None)"
    using fr assms(2,3) maxes by (intro builder_line_event) auto
  have "decode_lines b events (sse_frame ev @ rest) =
      decode_lines ?b1 events (data_lines ?ls @ [LF] @ rest)"
    using decode_lines_LF [OF c1 bl1] by (simp add: sse_frame_def push_opt_def)
  also have "\<dots> = decode_lines (?b1\<lparr>builder_data := builder_data ?b1 @ concat (map (\<lambda>l. l @ [LF]) ?ls)\<rparr>)
      events ([LF] @ rest)"
  proof (rule decode_data_lines)
    show "\<forall>l\<in>set ?ls. utf8_valid l \<and> clean_line l \<and> length l + 6 \<le> MAX_SSE_LINE_BYTES"
    proof
      fix l assume l: "l \<in> set ?ls"
      from split_on_subset [OF l] fr have "CR \<notin> set l" "length l + 6 \<le> MAX_SSE_LINE_BYTES" by auto
      with split_on_no_sep [OF l] utf8_valid_split_on [OF _ _ l] fr
      show "utf8_valid l \<and> clean_line l \<and> length l + 6 \<le> MAX_SSE_LINE_BYTES"
        by (simp add: ascii_def)
    qed
  qed (use fr assms maxes in \<open>auto simp: join_split_on\<close>)
  also have "\<dots> = decode_lines ?b2 events ([] @ LF # rest)"
    using assms(3) by (simp add: join_split_on)
  also have "\<dots> = and_then (push_opt events (Some ev)) (\<lambda>events'.
      decode_lines \<lparr>at_stream_start = False, event_type = [], builder_data = []\<rparr> events' rest)"
    using fr by (intro decode_lines_LF) (simp_all add: builder_line_blank dispatch_def Let_def)
  finally show ?thesis
    using assms(4) by (simp add: push_opt_def push_bounded_def)
qed

section \<open>Round trip\<close>

lemma decode_frames:
  assumes "\<forall>ev\<in>set evs. framable ev" and "event_type b = []" and "builder_data b = []"
    and "length events + length evs \<le> MAX_SSE_EVENTS"
  shows "decode_lines b events (concat (map sse_frame evs)) = Ok (events @ evs)"
  using assms
proof (induction evs arbitrary: b events)
  case Nil
  then show ?case by (simp add: decode_lines_Nil dispatch_def push_opt_def)
next
  case (Cons ev evs)
  then have "decode_lines b events (sse_frame ev @ concat (map sse_frame evs)) =
      decode_lines \<lparr>at_stream_start = False, event_type = [], builder_data = []\<rparr> (events @ [ev])
        (concat (map sse_frame evs))"
    by (intro decode_frame_step) auto
  also have "\<dots> = Ok ((events @ [ev]) @ evs)"
    using Cons.prems by (intro Cons.IH) auto
  finally show ?case by simp
qed

text \<open>
  Events written as SSE frames, one \<open>event:\<close> line and one \<open>data:\<close> line per
  line of data, decode to exactly those events, in order, for any number of events up to the bound.
\<close>

theorem sse_frames_round_trip:
  assumes "\<forall>ev\<in>set evs. framable ev" and "length evs \<le> MAX_SSE_EVENTS"
  shows "decode_sse_v1 (concat (map sse_frame evs)) = Ok evs"
  using decode_frames [of evs builder_new "[]"] assms
  by (simp add: decode_sse_v1_def builder_new_def)

theorem sse_frames_round_trip_witness:
  "let evs = [\<lparr>sse_event_type = ''delta'', sse_event_data = ''a'' @ [LF] @ '' b''\<rparr>,
              \<lparr>sse_event_type = ''done'', sse_event_data = []\<rparr>]
   in (\<forall>ev\<in>set evs. framable ev) \<and> decode_sse_v1 (concat (map sse_frame evs)) = Ok evs"
proof -
  let ?evs = "[\<lparr>sse_event_type = ''delta'', sse_event_data = ''a'' @ [LF] @ '' b''\<rparr>,
              \<lparr>sse_event_type = ''done'', sse_event_data = []\<rparr>]"
  have f: "\<forall>ev\<in>set ?evs. framable ev"
    by (simp add: framable_def MAX_SSE_LINE_BYTES_def ascii_def)
  moreover have "length ?evs \<le> MAX_SSE_EVENTS"
    by (simp add: MAX_SSE_EVENTS_def)
  ultimately show ?thesis
    using sse_frames_round_trip [OF f] by (simp add: Let_def)
qed

section \<open>Frames on their own\<close>

text \<open>Reading a line from a prefix of the stream that holds the whole line.\<close>

lemma decode_lines_take:
  assumes "terminator b = Some i" and "builder_line bl (take i b) = (bl', Ok ev)"
    and "n = (if b ! i = CR \<and> b ! (i + 1) = LF then i + 2 else i + 1)" and "n \<le> k"
    and "k \<le> length b"
  shows "decode_lines bl events (take k b) =
    and_then (push_opt events ev) (\<lambda>events'. decode_lines bl' events' (take (k - n) (drop n b)))"
proof -
  from assms(3,4) have i: "i < k" by (auto split: if_splits)
  have t: "terminator (take k b) = Some i"
    using assms(1) i by (auto simp: terminator_def iter_position_Some_iff)
  have m: "min i k = i" using i by simp
  have "slice_get (take k b) i = Some CR \<and> slice_get (take k b) (i + 1) = Some LF
      \<longleftrightarrow> n = i + 2"
    using assms(3-5) i by (auto simp: slice_get_def split: if_splits)
  moreover have "n \<noteq> i + 2 \<Longrightarrow> n = i + 1"
    using assms(3) by (auto split: if_splits)
  ultimately show ?thesis
    using t assms(2) m by (subst decode_lines.simps) (auto simp: drop_take)
qed

text \<open>
  The bytes from one reported position to the next, read by the interpreter that stood at the
  first position, give exactly the event reported at the second.
\<close>

definition event_slice :: "sse_decoder \<Rightarrow> sse_decoder \<Rightarrow> sse_event \<Rightarrow> nat \<Rightarrow> bool" where
  "event_slice d d' ev k \<longleftrightarrow>
     k \<le> length (sse_pending d) \<and> sse_pending d' = drop k (sse_pending d)
     \<and> position d' = position d + of_nat k
     \<and> (\<forall>events. decode_lines (builder d) events (take k (sse_pending d)) = push_opt events (Some ev))"

lemma event_slice_extend:
  assumes "terminator (sse_pending d) = Some i"
    and "builder_line (builder d) (take i (sse_pending d)) = (b', Ok None)"
    and "n = (if sse_pending d ! i = CR \<and> sse_pending d ! (i + 1) = LF then i + 2 else i + 1)"
    and "n \<le> length (sse_pending d)"
    and "event_slice (consumed d n b') d' ev k"
  shows "event_slice d d' ev (n + k)"
  using assms(4,5) decode_lines_take [OF assms(1,2,3), of "n + k"]
  by (auto simp: event_slice_def push_opt_def add_ac consumed_def sse_pending_def)

lemma event_slice_here:
  assumes "terminator (sse_pending d) = Some i"
    and "builder_line (builder d) (take i (sse_pending d)) = (b', Ok (Some ev))"
    and "n = (if sse_pending d ! i = CR \<and> sse_pending d ! (i + 1) = LF then i + 2 else i + 1)"
    and "n \<le> length (sse_pending d)"
  shows "event_slice d (consumed d n b') ev n"
  using decode_lines_take [OF assms(1,2,3) le_refl assms(4)] assms(4)
    builder_line_event_resets [OF assms(2)]
  by (auto simp: event_slice_def decode_lines_Nil push_opt_def)

lemma advance_event_slice:
  "sse_inv d \<Longrightarrow> advance d = (d', Ok (Some ev)) \<Longrightarrow> \<exists>k. event_slice d d' ev k"
proof (induction "length (sse_pending d)" arbitrary: d rule: less_induct)
  case less
  from less.prems obtain i where t: "terminator (sse_pending d) = Some i"
    by (auto simp: advance_pending Let_def split: option.splits if_splits)
  define n where "n = (if sse_pending d ! i = CR \<and> sse_pending d ! (i + 1) = LF
    then i + 2 else i + 1)"
  obtain b' r where bl: "builder_line (builder d) (take i (sse_pending d)) = (b', r)" by fastforce
  from less.prems t bl obtain o' where r: "r = Ok o'"
    and adv: "(case o' of Some x \<Rightarrow> (consumed d n b', Ok (Some x)) | None \<Rightarrow> advance (consumed d n b'))
      = (d', Ok (Some ev))"
    and ni: "\<not> (sse_pending d ! i = CR \<and> i + 1 = length (sse_pending d))"
    unfolding advance_pending [OF less.prems(1)] n_def
    by (cases r) (auto split: if_splits option.splits)
  from terminator_bound [OF t] ni have n: "0 < n" "n \<le> length (sse_pending d)"
    by (auto simp: n_def)
  show ?case
  proof (cases o')
    case None
    moreover have "length (sse_pending (consumed d n b')) < length (sse_pending d)"
      using n by (simp add: diff_less)
    ultimately obtain k where "event_slice (consumed d n b') d' ev k"
      using adv less.hyps sse_inv_consumed [OF less.prems(1) n(2)] by fastforce
    with event_slice_extend [OF t _ n_def n(2)] bl r None show ?thesis by blast
  next
    case (Some x)
    with adv have "d' = consumed d n b'" "x = ev" by auto
    with event_slice_here [OF t _ n_def n(2)] bl r Some show ?thesis by blast
  qed
qed

text \<open>
  A frame decoded on its own is read by a new interpreter, which differs from one that stands
  between two events only in that it drops a leading byte order mark.
\<close>

lemma strip_BOM_take: "\<not> starts_with BOM l \<Longrightarrow> strip_prefix BOM (take i l) = None"
  by (metis append_take_drop_id not_None_eq prefix_prefix prefix_def starts_with_def
      starts_with_iff_prefix strip_prefix_Some_iff)

lemma builder_line_started:
  assumes "strip_prefix BOM l = None" and "\<not> at_stream_start b"
  shows "snd (builder_line (b\<lparr>at_stream_start := True\<rparr>) l) = snd (builder_line b l)"
    and "snd (builder_line b l) = Ok ev \<Longrightarrow>
      fst (builder_line (b\<lparr>at_stream_start := True\<rparr>) l) = fst (builder_line b l)"
  using assms started_idem [OF assms(2)]
  by (auto simp: builder_line_def Let_def split: if_splits prod.splits)

lemma decode_lines_started:
  assumes "\<not> starts_with BOM rest" and "\<not> at_stream_start b"
  shows "decode_lines (b\<lparr>at_stream_start := True\<rparr>) events rest = decode_lines b events rest"
proof -
  have d: "snd (dispatch (b\<lparr>at_stream_start := True\<rparr>)) = snd (dispatch b)"
    by (simp add: dispatch_def Let_def)
  have same: "builder_line (b\<lparr>at_stream_start := True\<rparr>) l = builder_line b l
      \<or> (\<exists>e b1 b2. builder_line (b\<lparr>at_stream_start := True\<rparr>) l = (b1, Err e) \<and> builder_line b l = (b2, Err e))"
    if "strip_prefix BOM l = None" for l
    using builder_line_started [OF that assms(2)]
    by (cases "builder_line b l"; cases "builder_line (b\<lparr>at_stream_start := True\<rparr>) l")
      (metis fst_conv result.exhaust snd_conv)
  have n: "strip_prefix BOM (take i rest) = None" "strip_prefix BOM rest = None" for i
    using assms(1) by (auto simp: strip_BOM_take) (simp add: starts_with_def)
  show ?thesis
  proof (cases "terminator rest")
    case None
    with same [OF n(2)] d show ?thesis
      by (subst (1 2) decode_lines.simps) auto
  next
    case (Some i)
    with same [OF n(1) [of i]] show ?thesis
      by (subst (1 2) decode_lines.simps) auto
  qed
qed

text \<open>
  When \<open>next_event\<close> returns an event, \<open>position\<close> is the end of its frame: the
  bytes between the previous position and this one, decoded on their own, are exactly that one
  event, provided the slice is at the start of the stream or does not begin with a byte order mark.
\<close>

theorem sse_frame_decodes_alone:
  assumes "sse_live d" and "event_type (builder d) = []" and "builder_data (builder d) = []"
    and "next_event d = (d', Ok (Some ev))"
    and "at_stream_start (builder d) \<or> \<not> starts_with BOM (sse_pending d)"
  shows "\<exists>k. k \<le> length (sse_pending d) \<and> sse_pending d' = drop k (sse_pending d)
    \<and> position d' = position d + of_nat k \<and> decode_sse_v1 (take k (sse_pending d)) = Ok [ev]"
proof -
  from assms(1,4) have "sse_inv d" "advance d = (d', Ok (Some ev))"
    by (auto simp: sse_live_def next_event_def split: option.splits prod.splits result.splits)
  then obtain k where k: "event_slice d d' ev k" by (blast dest: advance_event_slice)
  have new: "builder_new = builder d\<lparr>at_stream_start := True\<rparr>"
    using assms(2,3) by (simp add: builder_new_def)
  have "decode_sse_v1 (take k (sse_pending d)) = decode_lines (builder d) [] (take k (sse_pending d))"
  proof (cases "at_stream_start (builder d)")
    case True
    then have "builder d\<lparr>at_stream_start := True\<rparr> = builder d" by simp
    then show ?thesis by (simp add: decode_sse_v1_def new)
  next
    case False
    with assms(5) have "\<not> starts_with BOM (take k (sse_pending d))"
      by (metis strip_BOM_take starts_with_def)
    from decode_lines_started [OF this False] show ?thesis
      by (simp add: decode_sse_v1_def new)
  qed
  with k show ?thesis
    by (auto simp: event_slice_def push_opt_def push_bounded_def MAX_SSE_EVENTS_def)
qed

theorem sse_frame_decodes_alone_witness:
  "\<exists>d' k. next_event (sse_push sse_new (''data: a'' @ [LF, LF, CHR ''x''])) =
       (d', Ok (Some \<lparr>sse_event_type = ''message'', sse_event_data = ''a''\<rparr>))
     \<and> decode_sse_v1 (take k (''data: a'' @ [LF, LF, CHR ''x''])) =
         Ok [\<lparr>sse_event_type = ''message'', sse_event_data = ''a''\<rparr>]"
proof -
  let ?bytes = "''data: a'' @ [LF, LF, CHR ''x'']"
  let ?ev = "\<lparr>sse_event_type = ''message'', sse_event_data = ''a''\<rparr>"
  let ?d = "sse_push sse_new ?bytes"
  have "snd (next_event ?d) = Ok (Some ?ev)"
    by (simp add: sse_eval)
  then obtain d' where n: "next_event ?d = (d', Ok (Some ?ev))" by (metis prod.collapse)
  have l: "sse_live ?d" "sse_pending ?d = ?bytes"
    using sse_push_live [OF sse_new_live(1)] sse_new_live(2) by auto
  have b: "event_type (builder ?d) = []" "builder_data (builder ?d) = []"
    "at_stream_start (builder ?d)"
    by (simp_all add: sse_eval)
  from sse_frame_decodes_alone [OF l(1) b(1,2) n] b(3) n l(2) show ?thesis by auto
qed

text \<open>
  The proviso is needed: a byte order mark in the middle of a stream is part of an
  unknown field name there, but a frame that begins with one and is decoded on its own loses it,
  so it decodes to a different event. Here the second frame of the stream carries the data
  \<open>3\<close> and its slice, from position 9, decodes to two lines of data.
\<close>

theorem sse_frame_with_bom_differs:
  "let body = ''data: 1'' @ [LF, LF] @ BOM @ ''data: 2'' @ [LF] @ ''data: 3'' @ [LF, LF];
       event = (\<lambda>d. \<lparr>sse_event_type = ''message'', sse_event_data = d\<rparr>)
   in sse_run [body] = Some ([(event ''1'', 9), (event ''3'', 29)], Ok None)
      \<and> decode_sse_v1 (drop 9 body) = Ok [event (''2'' @ [LF] @ ''3'')]"
  by (simp add: Let_def sse_run_drain drain.simps sse_step_def sse_eval drained_outcome_def
      end_of_input_def decode_sse_v1_def decode_lines.simps push_opt_def push_bounded_def
      MAX_SSE_EVENTS_def)

end
