(* ===== verification/Crc32.thy ===== *)
theory Crc32
  imports Prelude
begin

unbundle bit_operations_syntax

text \<open>
  The table-driven CRC-32 of \<open>crates/south-contracts/src/eventstream.rs\<close>, with which every
  eventstream frame is checked twice. It is shown equal to the bit-by-bit definition of the
  checksum, and to detect the corruption of any single byte of its input.
\<close>

section \<open>The code\<close>

text \<open>The inner loop of \<open>crc32_table\<close>: one conditional shift per bit.\<close>

definition crc_shift :: "32 word \<Rightarrow> 32 word" where
  "crc_shift crc = (if crc AND 1 = 1 then drop_bit 1 crc XOR 0xEDB88320 else drop_bit 1 crc)"

fun crc_shifts :: "nat \<Rightarrow> 32 word \<Rightarrow> 32 word" where
  "crc_shifts 0 crc = crc"
| "crc_shifts (Suc n) crc = crc_shifts n (crc_shift crc)"

definition CRC32_TABLE :: "32 word list" where
  "CRC32_TABLE = map (\<lambda>index. crc_shifts 8 (of_nat index)) [0..<256]"

definition crc32_update :: "32 word \<Rightarrow> byte \<Rightarrow> 32 word" where
  "crc32_update crc b =
     CRC32_TABLE ! unat ((ucast crc :: 8 word) XOR of_char b) XOR drop_bit 8 crc"

definition crc32 :: "bytes \<Rightarrow> 32 word" where
  "crc32 bs = NOT (foldl crc32_update 0xFFFFFFFF bs)"

section \<open>The bitwise definition\<close>

definition crc32_update_bitwise :: "32 word \<Rightarrow> byte \<Rightarrow> 32 word" where
  "crc32_update_bitwise crc b = crc_shifts 8 (crc XOR of_char b)"

definition crc32_bitwise :: "bytes \<Rightarrow> 32 word" where
  "crc32_bitwise bs = NOT (foldl crc32_update_bitwise 0xFFFFFFFF bs)"

subsection \<open>The shift register is linear\<close>

lemma crc_shift_bit0: "crc_shift crc = drop_bit 1 crc XOR (if bit crc 0 then 0xEDB88320 else 0)"
  by (simp add: crc_shift_def and_one_eq odd_iff_mod_2_eq_one bit_0)

lemma crc_shift_xor: "crc_shift (a XOR b) = crc_shift a XOR crc_shift b"
  by (cases "bit a 0"; cases "bit b 0")
    (simp_all add: crc_shift_bit0 bit_xor_iff drop_bit_xor xor.assoc xor.left_commute xor.commute)

lemma crc_shifts_xor: "crc_shifts n (a XOR b) = crc_shifts n a XOR crc_shifts n b"
  by (induction n arbitrary: a b) (simp_all add: crc_shift_xor)

lemma crc_shifts_high: "take_bit n crc = 0 \<Longrightarrow> crc_shifts n crc = drop_bit n crc"
proof (induction n arbitrary: crc)
  case 0
  then show ?case by simp
next
  case (Suc n)
  have b: "\<not> bit crc 0"
    using Suc.prems by (metis bit_take_bit_iff bit_0_eq bot_apply bot_bool_def zero_less_Suc)
  have "take_bit n (drop_bit 1 crc) = 0"
    using Suc.prems by (simp add: take_bit_drop_bit)
  with Suc.IH b show ?case by (simp add: crc_shift_bit0 drop_bit_drop_bit)
qed

lemma split_low_high: "(crc :: 32 word) = take_bit 8 crc XOR (crc AND NOT (mask 8))"
  by (rule bit_word_eqI) (auto simp: bit_simps)

lemma crc_shifts_8: "crc_shifts 8 crc = crc_shifts 8 (take_bit 8 crc) XOR drop_bit 8 crc"
proof -
  have "take_bit 8 (crc AND NOT (mask 8)) = 0"
    by (rule bit_word_eqI) (auto simp: bit_simps)
  then have "crc_shifts 8 (crc AND NOT (mask 8)) = drop_bit 8 (crc AND NOT (mask 8))"
    by (rule crc_shifts_high)
  also have "\<dots> = drop_bit 8 crc"
    by (rule bit_word_eqI) (auto simp: bit_simps dest: bit_imp_le_length)
  finally show ?thesis
    by (subst split_low_high [of crc]) (simp only: crc_shifts_xor)
qed

lemma of_char_ucast: "(of_char b :: 32 word) = ucast (of_char b :: 8 word)"
proof -
  have "(ucast (of_char b :: 8 word) :: 32 word) = of_nat (unat (of_char b :: 8 word))"
    by (simp only: of_nat_unat)
  also have "unat (of_char b :: 8 word) = of_char b"
    by (rule unat_of_char) simp
  finally show ?thesis by (simp add: of_nat_of_char)
qed

lemma crc32_update_bitwise_eq: "crc32_update crc b = crc32_update_bitwise crc b"
proof -
  let ?i = "(ucast crc :: 8 word) XOR of_char b"
  have "crc32_update_bitwise crc b =
      crc_shifts 8 (take_bit 8 (crc XOR of_char b)) XOR drop_bit 8 (crc XOR of_char b)"
    unfolding crc32_update_bitwise_def by (rule crc_shifts_8)
  also have "drop_bit 8 (crc XOR of_char b) = drop_bit 8 crc"
    unfolding of_char_ucast by (rule bit_word_eqI) (auto simp: bit_simps dest: bit_imp_le_length)
  also have "take_bit 8 (crc XOR of_char b) = (ucast ?i :: 32 word)"
    unfolding of_char_ucast by (rule bit_word_eqI) (auto simp: bit_simps dest: bit_imp_le_length)
  also have "crc_shifts 8 (ucast ?i) = CRC32_TABLE ! unat ?i"
  proof -
    have "unat ?i < 256" using unsigned_less [of ?i, where ?'a = nat] by simp
    then show ?thesis by (simp add: CRC32_TABLE_def of_nat_unat)
  qed
  finally show ?thesis by (simp add: crc32_update_def)
qed

lemma crc32_eq_bitwise: "crc32 bs = crc32_bitwise bs"
proof -
  have "crc32_update = crc32_update_bitwise"
    by (intro ext) (rule crc32_update_bitwise_eq)
  then show ?thesis by (simp add: crc32_def crc32_bitwise_def)
qed

lemma crc_shifts_8_unfold:
  "crc_shifts 8 c = crc_shift (crc_shift (crc_shift (crc_shift
     (crc_shift (crc_shift (crc_shift (crc_shift c)))))))"
  by (simp add: eval_nat_numeral)

lemma crc32_check_value: "crc32 ''123456789'' = 0xCBF43926"
  by (simp add: crc32_eq_bitwise crc32_bitwise_def crc32_update_bitwise_def crc_shifts_8_unfold
      crc_shift_def)

text \<open>
  The table-driven checksum the deframer computes is the CRC-32 of IEEE 802.3: it equals
  the bit-by-bit division by the reflected polynomial \<open>0xEDB88320\<close> with all-ones start and
  final complement, on every byte string.
\<close>

theorem crc32_table_correct: "crc32 bs = crc32_bitwise bs"
  by (rule crc32_eq_bitwise)

section \<open>Single-byte corruption\<close>

lemma xor_cancel: "(a :: 32 word) XOR c = b XOR c \<Longrightarrow> a = b"
  by (metis xor.assoc xor.right_neutral xor_self_eq)

lemma crc_shift_inj: "crc_shift a = crc_shift b \<Longrightarrow> a = b"
proof -
  assume eq: "crc_shift a = crc_shift b"
  have top: "bit (crc_shift c) 31 = bit c 0" for c
    by (auto simp: crc_shift_bit0 bit_simps dest: bit_imp_le_length)
  with eq have b0: "bit a 0 = bit b 0" by metis
  with eq have d: "drop_bit 1 a = drop_bit 1 b"
    by (auto simp: crc_shift_bit0 dest: xor_cancel split: if_splits)
  show "a = b"
  proof (rule bit_word_eqI)
    fix n assume "n < LENGTH(32)"
    show "bit a n = bit b n"
    proof (cases n)
      case 0
      with b0 show ?thesis by simp
    next
      case (Suc m)
      with d have "bit (drop_bit 1 a) m = bit (drop_bit 1 b) m" by simp
      with Suc show ?thesis by (simp add: bit_simps)
    qed
  qed
qed

lemma crc_shifts_inj: "crc_shifts n a = crc_shifts n b \<Longrightarrow> a = b"
  by (induction n arbitrary: a b) (auto dest: crc_shift_inj)

lemma crc32_update_inj_state: "crc32_update c b = crc32_update c' b \<Longrightarrow> c = c'"
  unfolding crc32_update_bitwise_eq crc32_update_bitwise_def
  by (drule crc_shifts_inj) (rule xor_cancel)

lemma crc32_update_inj_byte: "crc32_update c b = crc32_update c b' \<Longrightarrow> b = b'"
proof -
  assume "crc32_update c b = crc32_update c b'"
  then have "crc_shifts 8 (c XOR of_char b) = crc_shifts 8 (c XOR of_char b')"
    by (simp add: crc32_update_bitwise_eq crc32_update_bitwise_def)
  then have "c XOR of_char b = c XOR of_char b'" by (rule crc_shifts_inj)
  then have "(of_char b :: 32 word) = of_char b'"
    by (metis xor_cancel xor.commute)
  then have "unat (of_char b :: 32 word) = unat (of_char b' :: 32 word)" by simp
  moreover have "unat (of_char x :: 32 word) = (of_char x :: nat)" for x
    by (rule unat_of_char) simp
  ultimately show "b = b'" by simp
qed

lemma foldl_crc32_inj: "foldl crc32_update c bs = foldl crc32_update c' bs \<Longrightarrow> c = c'"
  by (induction bs arbitrary: c c') (auto dest: crc32_update_inj_state)

lemma crc32_detects: "b \<noteq> b' \<Longrightarrow> crc32 (xs @ b # ys) \<noteq> crc32 (xs @ b' # ys)"
  by (auto simp: crc32_def dest!: foldl_crc32_inj crc32_update_inj_byte)

end
