(* ===== verification/Ordered_Map.thy ===== *)
theory Ordered_Map
  imports Prelude "HOL-Library.List_Lexorder" "HOL-Library.Char_ord" "HOL-Library.Multiset"
begin

text \<open>
  Rust's \<open>BTreeMap\<close> as the sources use it: \<open>get\<close>, \<open>insert\<close>, iteration in key order. It is
  modelled by the list of its entries in strictly ascending key order (strings compare bytewise,
  as Rust compares them). The locale \<open>keyed_store\<close> is the interface the components rely on;
  \<open>bt_get\<close> and \<open>bt_insert\<close> implement it.
\<close>

type_synonym ('k, 'v) btree = "('k \<times> 'v) list"

fun bt_get :: "('k :: linorder, 'v) btree \<Rightarrow> 'k \<Rightarrow> 'v option" where
  "bt_get [] k = None"
| "bt_get ((a, v) # m) k = (if k = a then Some v else bt_get m k)"

fun bt_insert :: "'k :: linorder \<Rightarrow> 'v \<Rightarrow> ('k, 'v) btree \<Rightarrow> ('k, 'v) btree" where
  "bt_insert k v [] = [(k, v)]"
| "bt_insert k v ((a, w) # m) =
     (if k < a then (k, v) # (a, w) # m
      else if k = a then (k, v) # m
      else (a, w) # bt_insert k v m)"

definition bt_wf :: "('k :: linorder, 'v) btree \<Rightarrow> bool" where
  "bt_wf m \<longleftrightarrow> sorted_wrt (<) (map fst m)"

section \<open>The interface\<close>

locale keyed_store =
  fixes empty :: 'm
    and get :: "'m \<Rightarrow> 'k \<Rightarrow> 'v option"
    and put :: "'k \<Rightarrow> 'v \<Rightarrow> 'm \<Rightarrow> 'm"
    and entries :: "'m \<Rightarrow> ('k \<times> 'v) list"
    and wf :: "'m \<Rightarrow> bool"
  assumes wf_empty: "wf empty"
    and wf_put: "wf m \<Longrightarrow> wf (put k v m)"
    and entries_empty: "entries empty = []"
    and get_entries: "wf m \<Longrightarrow> get m k = map_of (entries m) k"
    and get_put: "wf m \<Longrightarrow> get (put k v m) k' = (if k' = k then Some v else get m k')"
    and entries_put: "wf m \<Longrightarrow> get m k = None \<Longrightarrow>
      mset (entries (put k v m)) = add_mset (k, v) (mset (entries m))"
    and entries_distinct: "wf m \<Longrightarrow> distinct (map fst (entries m))"
begin

lemma get_empty: "get empty k = None"
  by (simp add: get_entries wf_empty entries_empty)

lemma entries_iff: "wf m \<Longrightarrow> (k, v) \<in> set (entries m) \<longleftrightarrow> get m k = Some v"
  by (metis get_entries entries_distinct map_of_eq_Some_iff)

lemma length_put: "wf m \<Longrightarrow> get m k = None \<Longrightarrow> length (entries (put k v m)) = Suc (length (entries m))"
  by (metis entries_put size_add_mset size_mset)

text \<open>A measure summed over the entries grows by the measure of a new entry.\<close>

lemma sum_put:
  "wf m \<Longrightarrow> get m k = None \<Longrightarrow>
    sum_list (map f (entries (put k v m))) = f (k, v) + (sum_list (map f (entries m)) :: nat)"
  using arg_cong [OF entries_put, of m k "\<lambda>M. sum_mset (image_mset f M)" v]
  by (simp flip: sum_mset_sum_list)

text \<open>Two different entries contribute separately to such a sum.\<close>

lemma sum_two:
  assumes "wf m" and "get m k = Some v" and "get m k' = Some v'" and "k \<noteq> k'"
  shows "f (k, v) + f (k', v') \<le> (sum_list (map f (entries m)) :: nat)"
proof -
  have "(k, v) \<in> set (entries m)" "(k', v') \<in> set (entries m)"
    using assms by (simp_all add: entries_iff)
  moreover have "distinct (entries m)"
    using entries_distinct [OF assms(1)] by (simp add: distinct_map)
  ultimately have "sum f {(k, v), (k', v')} \<le> sum f (set (entries m))"
    by (intro sum_mono2) auto
  with assms(4) \<open>distinct (entries m)\<close> show ?thesis
    by (simp add: sum_list_distinct_conv_sum_set)
qed

text \<open>The client both header parsers are: collect pairs, refusing a name that is already there.\<close>

lemma fold_put_get:
  "wf m \<Longrightarrow> wf (fold (\<lambda>(k, v). put k v) kvs m) \<and>
    get (fold (\<lambda>(k, v). put k v) kvs m) k =
      (case map_of (rev kvs) k of Some v \<Rightarrow> Some v | None \<Rightarrow> get m k)"
proof (induction kvs arbitrary: m)
  case Nil
  then show ?case by simp
next
  case (Cons kv kvs)
  then show ?case
    by (cases kv) (auto simp: wf_put get_put map_add_def split: option.splits)
qed

end

section \<open>The implementation\<close>

lemma bt_insert_keys: "set (map fst (bt_insert k v m)) = insert k (set (map fst m))"
  by (induction k v m rule: bt_insert.induct) auto

lemma bt_insert_wf: "bt_wf m \<Longrightarrow> bt_wf (bt_insert k v m)"
proof (induction k v m rule: bt_insert.induct)
  case (2 k v a w m)
  then show ?case
    using bt_insert_keys [of k v m] by (fastforce simp: bt_wf_def)
qed (simp add: bt_wf_def)

lemma bt_get_map_of: "bt_get m k = map_of m k"
  by (induction m k rule: bt_get.induct) auto

lemma bt_get_insert: "bt_wf m \<Longrightarrow> bt_get (bt_insert k v m) k' = (if k' = k then Some v else bt_get m k')"
proof (induction k v m rule: bt_insert.induct)
  case (2 k v a w m)
  then show ?case by (auto simp: bt_wf_def)
qed simp

lemma bt_get_Some_mem: "bt_get m k = Some v \<Longrightarrow> (k, v) \<in> set m"
  by (simp add: bt_get_map_of map_of_SomeD)

lemma bt_insert_mset: "bt_get m k = None \<Longrightarrow> mset (bt_insert k v m) = add_mset (k, v) (mset m)"
  by (induction k v m rule: bt_insert.induct) (auto split: if_splits)

interpretation bt: keyed_store "[] :: ('k :: linorder, 'v) btree" bt_get bt_insert "\<lambda>m. m" bt_wf
proof unfold_locales
  fix m :: "('k, 'v) btree"
  show "distinct (map fst m)" if "bt_wf m"
    using that by (simp add: bt_wf_def strict_sorted_iff)
qed (simp_all add: bt_insert_wf bt_get_map_of [symmetric] bt_get_insert bt_insert_mset,
    simp add: bt_wf_def)

end
