(* ===== verification/Eventstream.thy ===== *)
theory Eventstream
  imports Framing Utf8 Crc32 Ordered_Map
begin

text \<open>
  The AWS eventstream deframer of \<open>crates/south-contracts/src/eventstream.rs\<close>: frame and
  header decoding with both checksums, the incremental \<open>AwsEventStreamDeframerV1\<close> and the
  whole-body function. The deframer interprets the \<open>incremental_decoder\<close> contract, so messages
  and the first error do not depend on the chunking.
\<close>

section \<open>Bounds, errors and messages\<close>

definition PRELUDE_BYTES :: nat where
  "PRELUDE_BYTES = 12"

definition CRC_BYTES :: nat where
  "CRC_BYTES = 4"

definition MAX_EVENTSTREAM_FRAME_BYTES :: nat where
  "MAX_EVENTSTREAM_FRAME_BYTES = 16 * 1024 * 1024"

definition MIN_EVENTSTREAM_FRAME_BYTES :: nat where
  "MIN_EVENTSTREAM_FRAME_BYTES = PRELUDE_BYTES + CRC_BYTES"

definition MAX_EVENTSTREAM_HEADERS_BYTES :: nat where
  "MAX_EVENTSTREAM_HEADERS_BYTES = 128 * 1024"

datatype eventstream_error =
    PreludeChecksumMismatch
  | FrameTooShort
  | FrameTooLarge
  | HeadersTooLarge
  | HeadersExceedFrame
  | MessageChecksumMismatch
  | TruncatedHeader
  | EmptyHeaderName
  | HeaderNotUtf8
  | UnknownHeaderType
  | DuplicateHeader
  | TruncatedFrame
  | UndrainedMessage
  | UnknownMessageType
  | MissingHeader string
  | HeaderNotString string
  | InvalidEventName string
  | PayloadNotUtf8
  | PayloadNotJson

text \<open>The signed integers of the header values are words, read by \<^const>\<open>sint\<close>.\<close>

datatype header_value =
    HBool bool
  | HByte "8 word"
  | HInt16 "16 word"
  | HInt32 "32 word"
  | HInt64 "64 word"
  | HByteArray bytes
  | HString string
  | HTimestamp "64 word"
  | HUuid bytes

record eventstream_message =
  msg_headers :: "(string, header_value) btree"
  msg_payload :: bytes

section \<open>Reading headers\<close>

text \<open>\<open>uN::from_be_bytes\<close> and \<open>iN::from_be_bytes\<close>.\<close>

definition from_be_bytes :: "bytes \<Rightarrow> 'a :: len word" where
  "from_be_bytes bs = foldl (\<lambda>acc b. acc * 256 + of_char b) 0 bs"

text \<open>\<open>HeaderReader::bytes\<close> and \<open>HeaderReader::array\<close>: the bytes taken and the rest.\<close>

definition reader_bytes :: "nat \<Rightarrow> bytes \<Rightarrow> (bytes \<times> bytes, eventstream_error) result" where
  "reader_bytes n rest =
     (if n \<le> length rest then Ok (take n rest, drop n rest) else Err TruncatedHeader)"

definition length_prefixed :: "bytes \<Rightarrow> (bytes \<times> bytes, eventstream_error) result" where
  "length_prefixed rest =
     and_then (reader_bytes 2 rest) (\<lambda>(len, rest').
       reader_bytes (unat (from_be_bytes len :: 16 word)) rest')"

text \<open>A fixed-width value, read from \<open>n\<close> bytes.\<close>

definition read_fixed ::
  "nat \<Rightarrow> (bytes \<Rightarrow> header_value) \<Rightarrow> bytes \<Rightarrow> (header_value \<times> bytes, eventstream_error) result" where
  "read_fixed n val rest = and_then (reader_bytes n rest) (\<lambda>(bs, rest'). Ok (val bs, rest'))"

text \<open>The \<open>match type_byte\<close> of \<open>parse_headers\<close>.\<close>

definition read_value :: "nat \<Rightarrow> bytes \<Rightarrow> (header_value \<times> bytes, eventstream_error) result" where
  "read_value type_byte rest =
     (if type_byte = 0 then Ok (HBool True, rest)
      else if type_byte = 1 then Ok (HBool False, rest)
      else if type_byte = 2 then read_fixed 1 (\<lambda>bs. HByte (from_be_bytes bs)) rest
      else if type_byte = 3 then read_fixed 2 (\<lambda>bs. HInt16 (from_be_bytes bs)) rest
      else if type_byte = 4 then read_fixed 4 (\<lambda>bs. HInt32 (from_be_bytes bs)) rest
      else if type_byte = 5 then read_fixed 8 (\<lambda>bs. HInt64 (from_be_bytes bs)) rest
      else if type_byte = 6 then
        and_then (length_prefixed rest) (\<lambda>(bs, rest'). Ok (HByteArray bs, rest'))
      else if type_byte = 7 then
        and_then (length_prefixed rest) (\<lambda>(bs, rest').
          if utf8_valid bs then Ok (HString bs, rest') else Err HeaderNotUtf8)
      else if type_byte = 8 then read_fixed 8 (\<lambda>bs. HTimestamp (from_be_bytes bs)) rest
      else if type_byte = 9 then read_fixed 16 HUuid rest
      else Err UnknownHeaderType)"

text \<open>One turn of the loop of \<open>parse_headers\<close>: a name and its value.\<close>

definition read_header ::
  "bytes \<Rightarrow> ((string \<times> header_value) \<times> bytes, eventstream_error) result" where
  "read_header rest =
     and_then (reader_bytes 1 rest) (\<lambda>(nl, rest1).
       let name_len = (of_char (hd nl) :: nat) in
       if name_len = 0 then Err EmptyHeaderName
       else and_then (reader_bytes name_len rest1) (\<lambda>(name, rest2).
         if \<not> utf8_valid name then Err HeaderNotUtf8
         else and_then (reader_bytes 1 rest2) (\<lambda>(ty, rest3).
           and_then (read_value (of_char (hd ty)) rest3) (\<lambda>(v, rest4).
             Ok ((name, v), rest4)))))"

lemma reader_bytes_Ok_iff:
  "reader_bytes n rest = Ok (bs, rest') \<longleftrightarrow> rest = bs @ rest' \<and> length bs = n"
  by (auto simp: reader_bytes_def)

lemma read_fixed_rest: "read_fixed n val rest = Ok (v, rest') \<Longrightarrow> length rest' \<le> length rest"
  by (auto simp: read_fixed_def and_then_Ok_iff reader_bytes_Ok_iff)

lemma length_prefixed_rest: "length_prefixed rest = Ok (bs, rest') \<Longrightarrow> length rest' \<le> length rest"
  by (auto simp: length_prefixed_def and_then_Ok_iff reader_bytes_Ok_iff)

lemma read_value_rest: "read_value ty rest = Ok (v, rest') \<Longrightarrow> length rest' \<le> length rest"
  unfolding read_value_def
  by (auto simp: and_then_Ok_iff dest: read_fixed_rest length_prefixed_rest split: if_splits)

lemma read_header_rest: "read_header rest = Ok (nv, rest') \<Longrightarrow> length rest' < length rest"
  by (auto simp: read_header_def and_then_Ok_iff reader_bytes_Ok_iff Let_def
      dest!: read_value_rest split: if_splits)

text \<open>\<open>parse_headers\<close>: the \<open>while\<close> loop, with the headers read so far.\<close>

function parse_headers_loop ::
  "(string, header_value) btree \<Rightarrow> bytes \<Rightarrow> ((string, header_value) btree, eventstream_error) result" where
  "parse_headers_loop headers rest =
     (if rest = [] then Ok headers
      else
        case read_header rest of
          Err e \<Rightarrow> Err e
        | Ok ((name, v), rest') \<Rightarrow>
            if bt_get headers name = None then parse_headers_loop (bt_insert name v headers) rest'
            else Err DuplicateHeader)"
  by pat_completeness auto
termination
  by (relation "measure (\<lambda>(headers, rest). length rest)") (auto dest: read_header_rest)

declare parse_headers_loop.simps [simp del]

definition parse_headers ::
  "bytes \<Rightarrow> ((string, header_value) btree, eventstream_error) result" where
  "parse_headers block = parse_headers_loop [] block"

section \<open>Decoding frames\<close>

text \<open>
  \<open>decode_frame\<close>, in its two halves. \<open>decode_prelude\<close> validates the 12 bytes of the prelude
  and returns the frame length and the header-block length; \<open>usize::try_from\<close> of a \<open>u32\<close>
  cannot fail on the 64-bit targets. \<open>decode_body\<close> reads a frame whose bytes are all there.
\<close>

definition decode_prelude :: "bytes \<Rightarrow> (nat \<times> nat, eventstream_error) result" where
  "decode_prelude prelude =
     (if crc32 (take 8 prelude) \<noteq> from_be_bytes (drop 8 prelude) then Err PreludeChecksumMismatch
      else
        let frame_len = unat (from_be_bytes (take 4 prelude) :: 32 word) in
        if frame_len < MIN_EVENTSTREAM_FRAME_BYTES then Err FrameTooShort
        else if MAX_EVENTSTREAM_FRAME_BYTES < frame_len then Err FrameTooLarge
        else
          let headers_len = unat (from_be_bytes (take 4 (drop 4 prelude)) :: 32 word) in
          if MAX_EVENTSTREAM_HEADERS_BYTES < headers_len then Err HeadersTooLarge
          else if frame_len - MIN_EVENTSTREAM_FRAME_BYTES < headers_len then Err HeadersExceedFrame
          else Ok (frame_len, headers_len))"

definition decode_body :: "nat \<Rightarrow> bytes \<Rightarrow> (eventstream_message, eventstream_error) result" where
  "decode_body headers_len frame =
     (if length frame < CRC_BYTES then Err FrameTooShort
      else
        let covered = take (length frame - CRC_BYTES) frame;
            trailer = drop (length frame - CRC_BYTES) frame
        in
        if crc32 covered \<noteq> from_be_bytes trailer then Err MessageChecksumMismatch
        else
          let body = drop PRELUDE_BYTES covered in
          if length body < headers_len then Err HeadersExceedFrame
          else and_then (parse_headers (take headers_len body)) (\<lambda>headers.
            Ok \<lparr>msg_headers = headers, msg_payload = drop headers_len body\<rparr>))"

text \<open>\<open>Ok None\<close> when more bytes are needed, otherwise the message and the frame's byte length.\<close>

definition decode_frame ::
  "bytes \<Rightarrow> ((eventstream_message \<times> nat) option, eventstream_error) result" where
  "decode_frame bytes =
     (if length bytes < PRELUDE_BYTES then Ok None
      else and_then (decode_prelude (take PRELUDE_BYTES bytes)) (\<lambda>(frame_len, headers_len).
        if length bytes < frame_len then Ok None
        else and_then (decode_body headers_len (take frame_len bytes)) (\<lambda>message.
          Ok (Some (message, frame_len)))))"

section \<open>The incremental deframer\<close>

record deframer =
  df_buffer :: bytes
  df_read_pos :: nat
  df_failure :: "eventstream_error option"

definition df_new :: deframer where
  "df_new = \<lparr>df_buffer = [], df_read_pos = 0, df_failure = None\<rparr>"

definition df_push :: "deframer \<Rightarrow> bytes \<Rightarrow> deframer" where
  "df_push d chunk =
     (if df_failure d \<noteq> None then d
      else
        let d = (if 0 < df_read_pos d
                 then d\<lparr>df_buffer := drop (df_read_pos d) (df_buffer d), df_read_pos := 0\<rparr>
                 else d)
        in d\<lparr>df_buffer := df_buffer d @ chunk\<rparr>)"

definition next_message ::
  "deframer \<Rightarrow> deframer \<times> (eventstream_message option, eventstream_error) result" where
  "next_message d =
     (case df_failure d of
        Some e \<Rightarrow> (d, Err e)
      | None \<Rightarrow>
          (case decode_frame (drop (df_read_pos d) (df_buffer d)) of
             Ok (Some (message, frame_len)) \<Rightarrow>
               (let d' = d\<lparr>df_read_pos := df_read_pos d + frame_len\<rparr>;
                    d'' = (if df_read_pos d' = length (df_buffer d')
                           then d'\<lparr>df_buffer := [], df_read_pos := 0\<rparr> else d')
                in (d'', Ok (Some message)))
           | Ok None \<Rightarrow> (d, Ok None)
           | Err e \<Rightarrow>
               (d\<lparr>df_failure := Some e, df_buffer := [], df_read_pos := 0\<rparr>, Err e)))"

definition df_buffered_len :: "deframer \<Rightarrow> nat" where
  "df_buffered_len d = length (df_buffer d) - df_read_pos d"

definition df_finish :: "deframer \<Rightarrow> (unit, eventstream_error) result" where
  "df_finish d =
     (case next_message d of
        (d, Err e) \<Rightarrow> Err e
      | (d, Ok (Some _)) \<Rightarrow> Err UndrainedMessage
      | (d, Ok None) \<Rightarrow> if df_buffered_len d = 0 then Ok () else Err TruncatedFrame)"

section \<open>The whole-body function\<close>

lemma decode_prelude_Ok:
  "decode_prelude p = Ok (n, h) \<longleftrightarrow>
     crc32 (take 8 p) = from_be_bytes (drop 8 p) \<and>
     n = unat (from_be_bytes (take 4 p) :: 32 word) \<and>
     h = unat (from_be_bytes (take 4 (drop 4 p)) :: 32 word) \<and>
     MIN_EVENTSTREAM_FRAME_BYTES \<le> n \<and> n \<le> MAX_EVENTSTREAM_FRAME_BYTES \<and>
     h \<le> MAX_EVENTSTREAM_HEADERS_BYTES \<and> h \<le> n - MIN_EVENTSTREAM_FRAME_BYTES"
  unfolding decode_prelude_def Let_def by auto

lemma decode_frame_consumes:
  "decode_frame b = Ok (Some (m, n)) \<Longrightarrow>
     MIN_EVENTSTREAM_FRAME_BYTES \<le> n \<and> n \<le> length b \<and> n \<le> MAX_EVENTSTREAM_FRAME_BYTES"
  by (auto simp: decode_frame_def decode_prelude_Ok and_then_Ok_iff split: if_splits)

text \<open>The \<open>while\<close> loop of \<open>deframe_aws_eventstream_v1\<close>.\<close>

function deframe_loop ::
  "eventstream_message list \<Rightarrow> bytes \<Rightarrow> (eventstream_message list, eventstream_error) result" where
  "deframe_loop messages rest =
     (if rest = [] then Ok messages
      else
        case decode_frame rest of
          Err e \<Rightarrow> Err e
        | Ok None \<Rightarrow> Err TruncatedFrame
        | Ok (Some (message, frame_len)) \<Rightarrow>
            deframe_loop (messages @ [message]) (drop frame_len rest))"
  by pat_completeness auto
termination
  by (relation "measure (\<lambda>(messages, rest). length rest)")
    (auto dest!: decode_frame_consumes simp: MIN_EVENTSTREAM_FRAME_BYTES_def PRELUDE_BYTES_def)

declare deframe_loop.simps [simp del]

definition deframe_aws_eventstream_v1 ::
  "bytes \<Rightarrow> (eventstream_message list, eventstream_error) result" where
  "deframe_aws_eventstream_v1 body = deframe_loop [] body"

section \<open>The deframer as an incremental decoder\<close>

text \<open>The frame at the front of the buffered bytes; the deframer has no state besides them.\<close>

definition es_step :: "(unit, eventstream_message, eventstream_error) step" where
  "es_step s b =
     (case decode_frame b of
        Err e \<Rightarrow> Fail e
      | Ok None \<Rightarrow> Need
      | Ok (Some (m, n)) \<Rightarrow> Frame () (Some m) n)"

lemma decode_frame_append: "decode_frame b \<noteq> Ok None \<Longrightarrow> decode_frame (b @ c) = decode_frame b"
proof -
  assume d: "decode_frame b \<noteq> Ok None"
  then have l: "PRELUDE_BYTES \<le> length b"
    by (auto simp: decode_frame_def split: if_splits)
  show ?thesis
  proof (cases "decode_prelude (take PRELUDE_BYTES b)")
    case (Ok nh)
    with d l show ?thesis by (cases nh) (auto simp: decode_frame_def split: if_splits)
  next
    case (Err e)
    with l show ?thesis by (simp add: decode_frame_def)
  qed
qed

lemma decode_frame_Nil [simp]: "decode_frame [] = Ok None"
  by (simp add: decode_frame_def PRELUDE_BYTES_def)

lemma es_step_simps:
  "es_step s b = Need \<longleftrightarrow> decode_frame b = Ok None"
  "es_step s b = Fail e \<longleftrightarrow> decode_frame b = Err e"
  "es_step s b = Frame s' out n \<longleftrightarrow> (\<exists>m. out = Some m \<and> decode_frame b = Ok (Some (m, n)))"
  by (auto simp: es_step_def split: result.splits option.splits)

interpretation es_framer: framer es_step
proof unfold_locales
  fix s b s' out n c e
  show "es_step s [] = Need"
    by (simp add: es_step_simps)
  show "0 < n \<and> n \<le> length b" if "es_step s b = Frame s' out n"
    using that decode_frame_consumes [of b]
    by (force simp: es_step_simps MIN_EVENTSTREAM_FRAME_BYTES_def PRELUDE_BYTES_def)
  show "es_step s (b @ c) = Frame s' out n" if "es_step s b = Frame s' out n"
    using that decode_frame_append [of b c] by (auto simp: es_step_simps)
  show "es_step s (b @ c) = Fail e" if "es_step s b = Fail e"
    using that decode_frame_append [of b c] by (auto simp: es_step_simps)
qed

definition df_live :: "deframer \<Rightarrow> bool" where
  "df_live d \<longleftrightarrow> df_failure d = None \<and> df_read_pos d \<le> length (df_buffer d)"

definition df_pending :: "deframer \<Rightarrow> bytes" where
  "df_pending d = drop (df_read_pos d) (df_buffer d)"

lemma next_message_live:
  assumes "df_live d"
  shows "next_message d =
    (case decode_frame (df_pending d) of
       Ok (Some (m, n)) \<Rightarrow>
         (if n = length (df_pending d) then d\<lparr>df_buffer := [], df_read_pos := 0\<rparr>
          else d\<lparr>df_read_pos := df_read_pos d + n\<rparr>, Ok (Some m))
     | Ok None \<Rightarrow> (d, Ok None)
     | Err e \<Rightarrow> (d\<lparr>df_failure := Some e, df_buffer := [], df_read_pos := 0\<rparr>, Err e))"
  using assms
  by (auto simp: next_message_def df_live_def df_pending_def Let_def
      split: result.splits option.splits prod.splits)

lemma next_message_some:
  assumes "df_live d" and "next_message d = (d', Ok (Some m))"
  obtains n where "decode_frame (df_pending d) = Ok (Some (m, n))"
    and "df_live d'" and "df_pending d' = drop n (df_pending d)"
    and "0 < n" and "n \<le> length (df_pending d)"
proof -
  from assms obtain n where n: "decode_frame (df_pending d) = Ok (Some (m, n))"
    and d': "d' = (if n = length (df_pending d) then d\<lparr>df_buffer := [], df_read_pos := 0\<rparr>
          else d\<lparr>df_read_pos := df_read_pos d + n\<rparr>)"
    by (auto simp: next_message_live split: result.splits option.splits)
  from decode_frame_consumes [OF n] have "0 < n" "n \<le> length (df_pending d)"
    by (auto simp: MIN_EVENTSTREAM_FRAME_BYTES_def PRELUDE_BYTES_def)
  moreover from this d' assms(1) have "df_live d'" "df_pending d' = drop n (df_pending d)"
    by (auto simp: df_live_def df_pending_def add.commute)
  ultimately show thesis using that n by blast
qed

interpretation es: incremental_decoder es_step df_push next_message "\<lambda>d m. m" df_live "\<lambda>d. ()"
  df_pending
proof unfold_locales
  fix d d' c m e
  assume l: "df_live d"
  show "df_live (df_push d c)" "df_pending (df_push d c) = df_pending d @ c"
    using l by (auto simp: df_live_def df_push_def df_pending_def Let_def)
  show "df_live d' \<and> drain es_step () (df_pending d) = ([], Ok ((), df_pending d'))"
    if "next_message d = (d', Ok None)"
    using l that
    by (auto simp: next_message_live es_framer.drain_Need es_step_simps
        split: result.splits option.splits)
  show "df_live d' \<and> length (df_pending d') < length (df_pending d) \<and>
      drain es_step () (df_pending d) =
        (let (outs, r) = drain es_step () (df_pending d') in (m # outs, r))"
    if pulled: "next_message d = (d', Ok (Some m))"
  proof -
    from l pulled obtain n where "decode_frame (df_pending d) = Ok (Some (m, n))"
      and "df_live d'" "df_pending d' = drop n (df_pending d)" "0 < n" "n \<le> length (df_pending d)"
      by (rule next_message_some)
    then show ?thesis
      using es_framer.drain_Frame [of "()" "df_pending d" "()" "Some m" n]
      by (simp add: es_step_simps)
  qed
  show "drain es_step () (df_pending d) = ([], Err e)" if "next_message d = (d', Err e)"
    using l that
    by (auto simp: next_message_live es_framer.drain_Fail es_step_simps
        split: result.splits option.splits)
qed auto

section \<open>Properties of the deframer\<close>

text \<open>A host's use of the deframer: push and drain every chunk, then finish.\<close>

definition es_run ::
  "bytes list \<Rightarrow> (eventstream_message list \<times> (unit, eventstream_error) result) option" where
  "es_run chunks =
     map_option (\<lambda>(messages, d, err). (messages, case err of Some e \<Rightarrow> Err e | None \<Rightarrow> df_finish d))
       (run_chunks df_push next_message (\<lambda>d m. m) df_new chunks)"

text \<open>What the end of input makes of the bytes left.\<close>

definition es_outcome :: "(unit \<times> bytes, eventstream_error) result \<Rightarrow> (unit, eventstream_error) result" where
  "es_outcome r = and_then r (\<lambda>(_, b). if b = [] then Ok () else Err TruncatedFrame)"

lemma df_new_live: "df_live df_new" "df_pending df_new = []"
  by (simp_all add: df_live_def df_new_def df_pending_def)

lemma df_finish_idle:
  assumes "df_live d" and "decode_frame (df_pending d) = Ok None"
  shows "df_finish d = (if df_pending d = [] then Ok () else Err TruncatedFrame)"
  using assms
  by (auto simp: df_finish_def next_message_live df_buffered_len_def df_pending_def df_live_def)

lemma es_drained:
  obtains messages d err
  where "run_chunks df_push next_message (\<lambda>d m. m) df_new chunks = Some (messages, d, err)"
    and "es.agrees (drain es_step () (concat chunks)) (messages, d, err)"
  using es.run_chunks_drains [of df_new chunks] df_new_live es_framer.empty_needs [of "()"]
  by auto

lemma es_run_drain:
  "es_run chunks =
     (let (messages, r) = drain es_step () (concat chunks) in Some (messages, es_outcome r))"
proof -
  obtain messages d err
    where r: "run_chunks df_push next_message (\<lambda>d m. m) df_new chunks = Some (messages, d, err)"
      and a: "es.agrees (drain es_step () (concat chunks)) (messages, d, err)"
    by (rule es_drained)
  show ?thesis
  proof (cases err)
    case (Some e)
    with r a show ?thesis by (simp add: es_run_def es.agrees_def es_outcome_def)
  next
    case None
    with a have l: "df_live d"
      and dr: "drain es_step () (concat chunks) = (messages, Ok ((), df_pending d))"
      by (simp_all add: es.agrees_def)
    from es_framer.drain_rest_needs [OF dr] have "decode_frame (df_pending d) = Ok None"
      by (simp add: es_step_simps)
    with l have "df_finish d = (if df_pending d = [] then Ok () else Err TruncatedFrame)"
      by (rule df_finish_idle)
    with None r dr show ?thesis by (simp add: es_run_def es_outcome_def)
  qed
qed

lemma deframe_loop_drain:
  "deframe_loop messages rest =
     (let (ms, r) = drain es_step () rest in and_then (es_outcome r) (\<lambda>_. Ok (messages @ ms)))"
proof (induction "length rest" arbitrary: messages rest rule: less_induct)
  case less
  consider (need) "decode_frame rest = Ok None" | (fail) e where "decode_frame rest = Err e"
    | (frame) m n where "decode_frame rest = Ok (Some (m, n))"
    by (metis option.exhaust result.exhaust prod.exhaust)
  then show ?case
  proof cases
    case need
    then show ?thesis
      by (subst deframe_loop.simps) (simp add: es_framer.drain_Need es_step_simps es_outcome_def)
  next
    case fail
    then have "rest \<noteq> []" by auto
    with fail show ?thesis
      by (subst deframe_loop.simps) (simp add: es_framer.drain_Fail es_step_simps es_outcome_def)
  next
    case frame
    then have f: "es_step () rest = Frame () (Some m) n"
      by (simp add: es_step_simps)
    from es_framer.frame_consumes [OF f] have "rest \<noteq> []" "length (drop n rest) < length rest"
      by auto
    with less.hyps [OF this(2)] frame show ?thesis
      by (subst deframe_loop.simps) (auto simp: es_framer.drain_Frame [OF f] split: prod.splits)
  qed
qed

text \<open>
  Claim C26. However an eventstream body is cut into chunks, even inside a prelude or a header, the
  deframer terminates and produces the same messages and the same first error, or the same
  end-of-input result, as when the body arrives in one chunk.
\<close>

theorem es_chunking_irrelevant:
  "\<exists>messages outcome. es_run chunks = Some (messages, outcome)
     \<and> es_run [concat chunks] = Some (messages, outcome)"
  by (simp add: es_run_drain split: prod.splits)

text \<open>
  The buffered function is equivalent to pushing the body into a deframer in any chunking,
  draining it and calling \<open>finish\<close>: the same messages when the deframer ends cleanly, the same
  error otherwise.
\<close>

theorem es_whole_body_agrees:
  "\<exists>messages outcome. es_run chunks = Some (messages, outcome) \<and>
     deframe_aws_eventstream_v1 (concat chunks) = and_then outcome (\<lambda>_. Ok messages)"
  by (simp add: es_run_drain deframe_aws_eventstream_v1_def deframe_loop_drain split: prod.splits)

subsection \<open>Errors are sticky\<close>

text \<open>
  After the first error of the deframer every later call returns it again, pushed bytes
  are discarded and nothing stays buffered.
\<close>

theorem es_errors_sticky:
  assumes "df_live d" and "next_message d = (d', Err e)"
  shows "foldl df_push d' chunks = d' \<and> next_message d' = (d', Err e) \<and> df_finish d' = Err e
    \<and> df_buffered_len d' = 0"
proof -
  have f: "df_failure d' = Some e" "df_buffer d' = []"
    using assms by (auto simp: next_message_live split: result.splits option.splits)
  have "foldl df_push d' chunks = d'"
    by (induction chunks) (simp_all add: df_push_def f)
  moreover have n: "next_message d' = (d', Err e)"
    by (simp add: next_message_def f)
  ultimately show ?thesis
    by (simp add: df_finish_def n df_buffered_len_def f)
qed

lemmas crc_eval = crc32_eq_bitwise crc32_bitwise_def crc32_update_bitwise_def crc_shifts_8_unfold
  crc_shift_def

lemmas df_eval = next_message_def df_push_def df_new_def decode_frame_def decode_prelude_def
  from_be_bytes_def PRELUDE_BYTES_def

theorem es_errors_sticky_witness:
  "\<exists>d d'. next_message d = (d', Err PreludeChecksumMismatch)
     \<and> foldl df_push d' [''abc''] = d' \<and> df_finish d' = Err PreludeChecksumMismatch"
proof -
  let ?d = "df_push df_new ''not a frame!''"
  have l: "df_live ?d"
    by (rule es.push_live) (rule df_new_live)
  have "snd (next_message ?d) = Err PreludeChecksumMismatch"
    by (simp add: df_eval crc_eval)
  then obtain d' where d: "next_message ?d = (d', Err PreludeChecksumMismatch)"
    by (metis prod.collapse)
  from es_errors_sticky [OF l d, of "[''abc'']"] d show ?thesis by blast
qed

subsection \<open>Memory is bounded\<close>

lemma decode_frame_needs_bound:
  "decode_frame b = Ok None \<Longrightarrow> length b < MAX_EVENTSTREAM_FRAME_BYTES"
  by (auto simp: decode_frame_def decode_prelude_Ok PRELUDE_BYTES_def
      MAX_EVENTSTREAM_FRAME_BYTES_def and_then_Ok_iff split: if_splits)

text \<open>
  A caller that drains after every push never holds back a whole frame: the bytes kept
  between two pushes are fewer than \<open>MAX_EVENTSTREAM_FRAME_BYTES\<close>.
\<close>

theorem es_memory_bounded:
  assumes "run_chunks df_push next_message (\<lambda>d m. m) df_new chunks = Some (messages, d, None)"
  shows "df_buffered_len d < MAX_EVENTSTREAM_FRAME_BYTES"
proof -
  have dr: "drain es_step () (concat chunks) = (messages, Ok ((), df_pending d))"
    using assms by (auto intro: es_drained [of chunks] simp: es.agrees_def)
  from es_framer.drain_rest_needs [OF dr] have "decode_frame (df_pending d) = Ok None"
    by (simp add: es_step_simps)
  from decode_frame_needs_bound [OF this] show ?thesis
    by (simp add: df_buffered_len_def df_pending_def)
qed

theorem es_memory_bounded_witness:
  "\<exists>d. run_chunks df_push next_message (\<lambda>d m. m) df_new [''ab'', ''cd''] = Some ([], d, None)
     \<and> df_buffered_len d < MAX_EVENTSTREAM_FRAME_BYTES \<and> df_buffered_len d = 4"
proof -
  have r: "run_chunks df_push next_message (\<lambda>d m. m) df_new [''ab'', ''cd''] =
      Some ([], df_new\<lparr>df_buffer := ''abcd''\<rparr>, None)"
    by (simp add: pull_all_step(2) df_eval)
  from es_memory_bounded [OF r] r show ?thesis
    by (simp add: df_buffered_len_def df_new_def)
qed

end
