(* ===== verification/Big_Endian.thy ===== *)
theory Big_Endian
  imports Prelude
begin

text \<open>
  Byte strings as big-endian numbers: the digits of a number in base 256 and the number a byte
  string spells, inverse to each other at a fixed length. The eventstream wire format and the
  base64 codec are both stated with them.
\<close>

fun be_bytes :: "nat \<Rightarrow> nat \<Rightarrow> bytes" where
  "be_bytes 0 v = []"
| "be_bytes (Suc n) v = be_bytes n (v div 256) @ [char_of v]"

definition be_nat :: "bytes \<Rightarrow> nat" where
  "be_nat bs = foldl (\<lambda>acc b. acc * 256 + of_char b) 0 bs"

lemma length_be_bytes [simp]: "length (be_bytes n v) = n"
  by (induction n arbitrary: v) auto

lemma be_nat_snoc [simp]: "be_nat [] = 0" "be_nat (bs @ [b]) = be_nat bs * 256 + of_char b"
  by (simp_all add: be_nat_def)

lemma be_nat_be_bytes: "be_nat (be_bytes n v) = v mod 256 ^ n"
proof (induction n arbitrary: v)
  case (Suc n)
  then show ?case by (simp add: mod_mult2_eq [of v 256 "256 ^ n"])
qed simp

lemma be_nat_less: "be_nat bs < 256 ^ length bs"
proof (induction bs rule: rev_induct)
  case (snoc b bs)
  have "of_char b < (256 :: nat)" by (rule nat_of_char_less_256)
  moreover have "be_nat bs + 1 \<le> 256 ^ length bs" using snoc by simp
  then have "(be_nat bs + 1) * 256 \<le> 256 ^ length bs * 256" by (rule mult_right_mono) simp
  then have "be_nat bs * 256 + 256 \<le> 256 ^ length bs * 256" by (simp only: add_mult_distrib)
  ultimately have "be_nat bs * 256 + of_char b < 256 ^ length bs * 256"
    by (rule less_le_trans [OF add_strict_left_mono])
  then show ?case by (simp add: mult.commute)
qed simp

lemma be_nat_inj: "length bs = length cs \<Longrightarrow> be_nat bs = be_nat cs \<Longrightarrow> bs = cs"
proof (induction bs arbitrary: cs rule: rev_induct)
  case (snoc b bs)
  then obtain c cs' where cs: "cs = cs' @ [c]" and l: "length bs = length cs'"
    by (cases cs rule: rev_cases) auto
  have lt: "of_char x < (256 :: nat)" for x by (rule nat_of_char_less_256)
  from snoc.prems cs have eq: "be_nat bs * 256 + of_char b = be_nat cs' * 256 + (of_char c :: nat)"
    by simp
  then have "(be_nat bs * 256 + of_char b) mod 256 = (be_nat cs' * 256 + (of_char c :: nat)) mod 256"
    by simp
  then have "(of_char b :: nat) = of_char c" using lt by simp
  with eq have "b = c" "be_nat bs = be_nat cs'" by auto
  with snoc.IH l cs show ?case by simp
qed simp

lemma be_bytes_be_nat: "be_bytes (length bs) (be_nat bs) = bs"
  using be_nat_less [of bs] by (intro be_nat_inj) (simp_all add: be_nat_be_bytes)

lemma be_nat_append: "be_nat (xs @ ys) = be_nat xs * 256 ^ length ys + be_nat ys"
proof (induction ys rule: rev_induct)
  case (snoc y ys)
  then show ?case
    by (simp flip: append_assoc add: algebra_simps)
qed simp

end
