(* ===== verification/Eventstream_Frames.thy ===== *)
theory Eventstream_Frames
  imports Eventstream Big_Endian
begin

text \<open>
  The wire format the deframer of \<open>Eventstream\<close> reads, stated as an encoder, and the two facts
  that relate them: the deframer returns what was encoded, and it refuses a frame in which any one
  byte was changed.
\<close>

section \<open>Big-endian numbers\<close>

lemma from_be_bytes_nat: "from_be_bytes bs = of_nat (be_nat bs)"
proof (induction bs rule: rev_induct)
  case (snoc b bs)
  then show ?case by (simp add: from_be_bytes_def of_nat_of_char)
qed (simp add: from_be_bytes_def)

lemma unat_from_be_bytes:
  "8 * length bs \<le> LENGTH('a :: len) \<Longrightarrow> unat (from_be_bytes bs :: 'a word) = be_nat bs"
proof -
  assume "8 * length bs \<le> LENGTH('a)"
  then have "(2 :: nat) ^ (8 * length bs) \<le> 2 ^ LENGTH('a)" by (rule power_increasing) simp
  then have "be_nat bs < 2 ^ LENGTH('a)"
    using be_nat_less [of bs] by (simp add: power_mult)
  then show ?thesis by (simp add: from_be_bytes_nat unat_of_nat)
qed

lemma from_be_bytes_inj:
  "(from_be_bytes bs :: 'a :: len word) = from_be_bytes cs \<Longrightarrow> length bs = length cs \<Longrightarrow>
     8 * length bs \<le> LENGTH('a) \<Longrightarrow> bs = cs"
  by (metis be_nat_inj unat_from_be_bytes)

lemma from_be_bytes_word:
  "LENGTH('a :: len) \<le> 8 * n \<Longrightarrow> from_be_bytes (be_bytes n (unat w)) = (w :: 'a word)"
proof -
  assume "LENGTH('a) \<le> 8 * n"
  then have "(2 :: nat) ^ LENGTH('a) \<le> 2 ^ (8 * n)" by (rule power_increasing) simp
  then have "unat w < 256 ^ n"
    by (intro less_le_trans [OF unsigned_less [of w, where ?'a = nat]]) (simp add: power_mult)
  then show ?thesis by (simp add: from_be_bytes_nat be_nat_be_bytes)
qed

lemma unat_from_be_bytes_be:
  "v < 256 ^ n \<Longrightarrow> 8 * n \<le> LENGTH('a :: len) \<Longrightarrow>
     unat (from_be_bytes (be_bytes n v) :: 'a word) = v"
  by (simp add: unat_from_be_bytes be_nat_be_bytes)

section \<open>The encoder\<close>

definition length_prefix :: "bytes \<Rightarrow> bytes" where
  "length_prefix bs = be_bytes 2 (length bs) @ bs"

fun encode_value :: "header_value \<Rightarrow> bytes" where
  "encode_value (HBool True) = [char_of (0 :: nat)]"
| "encode_value (HBool False) = [char_of (1 :: nat)]"
| "encode_value (HByte w) = char_of (2 :: nat) # be_bytes 1 (unat w)"
| "encode_value (HInt16 w) = char_of (3 :: nat) # be_bytes 2 (unat w)"
| "encode_value (HInt32 w) = char_of (4 :: nat) # be_bytes 4 (unat w)"
| "encode_value (HInt64 w) = char_of (5 :: nat) # be_bytes 8 (unat w)"
| "encode_value (HByteArray bs) = char_of (6 :: nat) # length_prefix bs"
| "encode_value (HString s) = char_of (7 :: nat) # length_prefix s"
| "encode_value (HTimestamp w) = char_of (8 :: nat) # be_bytes 8 (unat w)"
| "encode_value (HUuid bs) = char_of (9 :: nat) # bs"

fun value_ok :: "header_value \<Rightarrow> bool" where
  "value_ok (HByteArray bs) \<longleftrightarrow> length bs < 2 ^ 16"
| "value_ok (HString s) \<longleftrightarrow> length s < 2 ^ 16 \<and> utf8_valid s"
| "value_ok (HUuid bs) \<longleftrightarrow> length bs = 16"
| "value_ok _ \<longleftrightarrow> True"

definition encode_header :: "string \<times> header_value \<Rightarrow> bytes" where
  "encode_header = (\<lambda>(name, v). char_of (length name) # name @ encode_value v)"

definition header_ok :: "string \<times> header_value \<Rightarrow> bool" where
  "header_ok = (\<lambda>(name, v). 0 < length name \<and> length name < 256 \<and> utf8_valid name \<and> value_ok v)"

type_synonym wire_message = "(string \<times> header_value) list \<times> bytes"

definition header_block :: "wire_message \<Rightarrow> bytes" where
  "header_block m = concat (map encode_header (fst m))"

definition encode_prelude :: "nat \<Rightarrow> nat \<Rightarrow> bytes" where
  "encode_prelude frame_len headers_len =
     (let lens = be_bytes 4 frame_len @ be_bytes 4 headers_len
      in lens @ be_bytes 4 (unat (crc32 lens)))"

definition encode_frame :: "wire_message \<Rightarrow> bytes" where
  "encode_frame m =
     (let hb = header_block m;
          covered = encode_prelude (MIN_EVENTSTREAM_FRAME_BYTES + length hb + length (snd m)) (length hb)
            @ hb @ snd m
      in covered @ be_bytes 4 (unat (crc32 covered)))"

definition wire_ok :: "wire_message \<Rightarrow> bool" where
  "wire_ok m \<longleftrightarrow> list_all header_ok (fst m) \<and> distinct (map fst (fst m))
     \<and> length (header_block m) \<le> MAX_EVENTSTREAM_HEADERS_BYTES
     \<and> MIN_EVENTSTREAM_FRAME_BYTES + length (header_block m) + length (snd m)
         \<le> MAX_EVENTSTREAM_FRAME_BYTES"

section \<open>Reading what was encoded\<close>

lemma reader_bytes_append [simp]: "length bs = n \<Longrightarrow> reader_bytes n (bs @ rest) = Ok (bs, rest)"
  by (simp add: reader_bytes_def)

lemma length_prefixed_encoded:
  "length bs < 2 ^ 16 \<Longrightarrow> length_prefixed (length_prefix bs @ rest) = Ok (bs, rest)"
proof -
  assume "length bs < 2 ^ 16"
  then have "unat (from_be_bytes (be_bytes 2 (length bs)) :: 16 word) = length bs"
    by (intro unat_from_be_bytes_be) simp_all
  then show ?thesis by (simp add: length_prefixed_def length_prefix_def)
qed

lemma read_fixed_encoded:
  "length bs = n \<Longrightarrow> read_fixed n val (bs @ rest) = Ok (val bs, rest)"
  by (simp add: read_fixed_def)

lemmas read_encoded = read_value_def read_fixed_encoded length_prefixed_encoded from_be_bytes_word

lemma read_value_encoded:
  "value_ok v \<Longrightarrow> encode_value v = ty # bs \<Longrightarrow> read_value (of_char ty) (bs @ rest) = Ok (v, rest)"
  using from_be_bytes_word [of 1, where ?'a = 8] read_fixed_encoded [of "[b]" 1 for b]
  by (cases v rule: encode_value.cases) (auto simp: read_encoded)

lemma read_header_encoded:
  assumes "header_ok (name, v)"
  shows "read_header (encode_header (name, v) @ rest) = Ok ((name, v), rest)"
proof -
  obtain ty bs where e: "encode_value v = ty # bs"
    by (cases v rule: encode_value.cases) auto
  have r1: "reader_bytes (Suc 0) (x # xs) = Ok ([x], xs)" for x and xs :: bytes
    by (simp add: reader_bytes_def)
  from assms have "of_char (char_of (length name) :: char) = length name"
    by (simp add: header_ok_def)
  with assms e read_value_encoded [OF _ e, of rest] show ?thesis
    by (simp add: encode_header_def read_header_def header_ok_def r1)
qed

lemma parse_headers_loop_encoded:
  "\<forall>h\<in>set hs. header_ok h \<Longrightarrow> distinct (map fst hs) \<Longrightarrow> bt_wf m \<Longrightarrow>
    \<forall>h\<in>set hs. bt_get m (fst h) = None \<Longrightarrow>
    parse_headers_loop m (concat (map encode_header hs)) = Ok (fold (\<lambda>(k, v). bt_insert k v) hs m)"
proof (induction hs arbitrary: m)
  case Nil
  then show ?case by (simp add: parse_headers_loop.simps)
next
  case (Cons h hs)
  obtain k v where h: "h = (k, v)" by fastforce
  have ne: "encode_header h \<noteq> []" by (simp add: encode_header_def split: prod.splits)
  have r: "read_header (encode_header (k, v) @ concat (map encode_header hs)) =
      Ok ((k, v), concat (map encode_header hs))"
    using Cons.prems(1) h by (intro read_header_encoded) simp
  have "parse_headers_loop (bt_insert k v m) (concat (map encode_header hs)) =
      Ok (fold (\<lambda>(k, v). bt_insert k v) hs (bt_insert k v m))"
  proof (rule Cons.IH)
    show "\<forall>h'\<in>set hs. bt_get (bt_insert k v m) (fst h') = None"
      using Cons.prems h by (auto simp: bt.get_put rev_image_eqI)
  qed (use Cons.prems h in \<open>simp_all add: bt.wf_put\<close>)
  with Cons.prems h r ne show ?case by (subst parse_headers_loop.simps) simp
qed

definition decoded :: "wire_message \<Rightarrow> eventstream_message" where
  "decoded m =
     \<lparr>msg_headers = fold (\<lambda>(k, v). bt_insert k v) (fst m) [], msg_payload = snd m\<rparr>"

lemma parse_headers_encoded:
  "wire_ok m \<Longrightarrow> parse_headers (header_block m) = Ok (msg_headers (decoded m))"
  by (auto simp: parse_headers_def header_block_def decoded_def wire_ok_def list_all_iff
      bt.wf_empty intro!: parse_headers_loop_encoded)

section \<open>Frames\<close>

lemma length_encode_prelude [simp]: "length (encode_prelude n h) = PRELUDE_BYTES"
  by (simp add: encode_prelude_def Let_def PRELUDE_BYTES_def)

lemma decode_prelude_encoded:
  assumes "MIN_EVENTSTREAM_FRAME_BYTES \<le> n" "n \<le> MAX_EVENTSTREAM_FRAME_BYTES"
    and "h \<le> MAX_EVENTSTREAM_HEADERS_BYTES" "h \<le> n - MIN_EVENTSTREAM_FRAME_BYTES"
  shows "decode_prelude (encode_prelude n h) = Ok (n, h)"
proof -
  let ?lens = "be_bytes 4 n @ be_bytes 4 h"
  have "n < 256 ^ 4" "h < 256 ^ 4"
    using assms by (simp_all add: MAX_EVENTSTREAM_FRAME_BYTES_def MAX_EVENTSTREAM_HEADERS_BYTES_def)
  then have "unat (from_be_bytes (be_bytes 4 n) :: 32 word) = n"
    "unat (from_be_bytes (be_bytes 4 h) :: 32 word) = h"
    by (simp_all add: unat_from_be_bytes_be)
  moreover have "from_be_bytes (be_bytes 4 (unat (crc32 ?lens))) = crc32 ?lens"
    by (rule from_be_bytes_word) simp
  ultimately show ?thesis
    using assms by (simp add: decode_prelude_Ok encode_prelude_def Let_def)
qed

lemma length_encode_frame:
  "length (encode_frame m) = MIN_EVENTSTREAM_FRAME_BYTES + length (header_block m) + length (snd m)"
  by (simp add: encode_frame_def Let_def MIN_EVENTSTREAM_FRAME_BYTES_def CRC_BYTES_def)

lemma decode_body_encoded:
  assumes "wire_ok m"
  shows "decode_body (length (header_block m)) (encode_frame m) = Ok (decoded m)"
proof -
  let ?covered = "encode_prelude (MIN_EVENTSTREAM_FRAME_BYTES + length (header_block m) + length (snd m))
    (length (header_block m)) @ header_block m @ snd m"
  have "from_be_bytes (be_bytes 4 (unat (crc32 ?covered))) = crc32 ?covered"
    by (rule from_be_bytes_word) simp
  then show ?thesis
    using parse_headers_encoded [OF assms]
    by (simp add: decode_body_def encode_frame_def Let_def CRC_BYTES_def decoded_def)
qed

lemma decode_frame_encoded:
  assumes "wire_ok m"
  shows "decode_frame (encode_frame m @ rest) = Ok (Some (decoded m, length (encode_frame m)))"
proof -
  let ?n = "MIN_EVENTSTREAM_FRAME_BYTES + length (header_block m) + length (snd m)"
  have "take PRELUDE_BYTES (encode_frame m @ rest) = encode_prelude ?n (length (header_block m))"
    by (simp add: encode_frame_def Let_def)
  moreover have "decode_prelude (encode_prelude ?n (length (header_block m))) =
      Ok (?n, length (header_block m))"
    using assms by (intro decode_prelude_encoded) (simp_all add: wire_ok_def)
  moreover have "PRELUDE_BYTES \<le> length (encode_frame m)"
    by (simp add: length_encode_frame MIN_EVENTSTREAM_FRAME_BYTES_def)
  moreover have "take ?n (encode_frame m @ rest) = encode_frame m" "?n = length (encode_frame m)"
    by (simp_all add: length_encode_frame)
  ultimately show ?thesis
    using decode_body_encoded [OF assms] by (simp add: decode_frame_def)
qed

lemma drain_encoded:
  "\<forall>m\<in>set ms. wire_ok m \<Longrightarrow>
     drain es_step () (concat (map encode_frame ms)) = (map decoded ms, Ok ((), []))"
proof (induction ms)
  case Nil
  then show ?case by (simp add: es_framer.drain_Need es_framer.empty_needs)
next
  case (Cons m ms)
  then have "decode_frame (encode_frame m @ concat (map encode_frame ms)) =
      Ok (Some (decoded m, length (encode_frame m)))"
    by (intro decode_frame_encoded) simp
  then have "es_step () (encode_frame m @ concat (map encode_frame ms)) =
      Frame () (Some (decoded m)) (length (encode_frame m))"
    by (simp add: es_step_simps)
  with Cons show ?case by (simp add: es_framer.drain_Frame)
qed

lemma decoded_headers:
  assumes "distinct (map fst (fst m))"
  shows "bt_get (msg_headers (decoded m)) k = map_of (fst m) k"
proof -
  have r: "map_of (rev (fst m)) = map_of (fst m)"
    using assms map_of_inject_set [of "rev (fst m)" "fst m"] by (simp add: rev_map [symmetric])
  show ?thesis
    using bt.fold_put_get [OF bt.wf_empty, of "fst m" k] unfolding r
    by (auto simp: decoded_def split: option.splits)
qed

lemma decoded_matches:
  "wire_ok m \<Longrightarrow> (case m of (hs, payload) \<Rightarrow> \<lambda>message. msg_payload message = payload
      \<and> (\<forall>k. bt_get (msg_headers message) k = map_of hs k)) (decoded m)"
  using decoded_headers [of m] by (cases m) (simp add: wire_ok_def decoded_def)

text \<open>
  Messages encoded in the eventstream wire format (any header order, every header type,
  within the size bounds) come back from the deframer in order, however the bytes are chunked: each
  with its payload and, under each name, the value that was encoded; and the input ends cleanly.
\<close>

theorem es_frames_round_trip:
  assumes "\<forall>m\<in>set ms. wire_ok m" and "concat chunks = concat (map encode_frame ms)"
  shows "\<exists>messages. es_run chunks = Some (messages, Ok ()) \<and>
    list_all2 (\<lambda>(hs, payload) message. msg_payload message = payload
      \<and> (\<forall>k. bt_get (msg_headers message) k = map_of hs k)) ms messages"
proof (intro exI conjI)
  show "es_run chunks = Some (map decoded ms, Ok ())"
    using assms by (simp add: es_run_drain drain_encoded es_outcome_def)
  show "list_all2 (\<lambda>(hs, payload) message. msg_payload message = payload
      \<and> (\<forall>k. bt_get (msg_headers message) k = map_of hs k)) ms (map decoded ms)"
    unfolding list.rel_map using assms(1) by (intro list.rel_refl_strong decoded_matches) simp
qed

section \<open>Nothing else is accepted\<close>

lemma be_bytes_from_be:
  assumes "length bs = n" and "8 * n \<le> LENGTH('a :: len)"
  shows "be_bytes n (unat (from_be_bytes bs :: 'a word)) = bs"
  using assms be_nat_less [of bs] by (intro be_nat_inj) (simp_all add: unat_from_be_bytes be_nat_be_bytes)

lemma length_prefixed_sound:
  assumes "length_prefixed rest = Ok (bs, rest')"
  shows "length bs < 2 ^ 16 \<and> rest = length_prefix bs @ rest'"
proof -
  from assms obtain len where l: "rest = len @ bs @ rest'" "length len = 2"
    "length bs = unat (from_be_bytes len :: 16 word)"
    by (auto simp: length_prefixed_def and_then_Ok_iff reader_bytes_Ok_iff)
  moreover have "be_bytes 2 (unat (from_be_bytes len :: 16 word)) = len"
    using l(2) by (rule be_bytes_from_be) simp
  moreover have "length bs < 2 ^ 16"
    using l(3) unsigned_less [of "from_be_bytes len :: 16 word", where ?'a = nat] by simp
  ultimately show ?thesis by (simp add: length_prefix_def)
qed

lemma read_fixed_sound:
  "read_fixed n val rest = Ok (v, rest') \<longleftrightarrow> (\<exists>bs. rest = bs @ rest' \<and> length bs = n \<and> v = val bs)"
  by (auto simp: read_fixed_def and_then_Ok_iff reader_bytes_Ok_iff)

lemma be_bytes_from_be_1: "length bs = 1 \<Longrightarrow> be_bytes 1 (unat (from_be_bytes bs :: 8 word)) = bs"
  by (rule be_bytes_from_be) simp_all

lemma read_value_sound:
  assumes "read_value ty rest = Ok (v, rest')"
  shows "value_ok v \<and> encode_value v @ rest' = char_of ty # rest"
  using assms unfolding read_value_def
  by (auto simp: read_fixed_sound and_then_Ok_iff be_bytes_from_be dest!: length_prefixed_sound
      be_bytes_from_be_1 split: if_splits simp del: be_bytes.simps)

lemma read_header_sound:
  assumes "read_header rest = Ok (nv, rest')"
  shows "header_ok nv \<and> rest = encode_header nv @ rest'"
proof -
  obtain name v where nv: "nv = (name, v)" by fastforce
  from assms nv obtain nl ty rest3
    where r: "rest = nl # name @ ty # rest3" and n: "of_char nl = length name" "0 < (of_char nl :: nat)"
      and u: "utf8_valid name" and v: "read_value (of_char ty) rest3 = Ok (v, rest')"
    by (auto simp: read_header_def and_then_Ok_iff reader_bytes_Ok_iff Let_def length_Suc_conv
        split: if_splits) (metis length_greater_0_conv)
  have "length name < 256" using n(1) nat_of_char_less_256 [of nl] by simp
  moreover have "char_of (length name) = nl" using n(1) by (metis char_of_char)
  moreover note read_value_sound [OF v]
  ultimately show ?thesis using nv r n u by (simp add: header_ok_def encode_header_def)
qed

lemma parse_headers_loop_sound:
  "parse_headers_loop m rest = Ok m' \<Longrightarrow> bt_wf m \<Longrightarrow>
     \<exists>hs. rest = concat (map encode_header hs) \<and> (\<forall>h\<in>set hs. header_ok h \<and> bt_get m (fst h) = None)
       \<and> distinct (map fst hs) \<and> m' = fold (\<lambda>(k, v). bt_insert k v) hs m"
proof (induction m rest rule: parse_headers_loop.induct)
  case (1 m rest)
  show ?case
  proof (cases "rest = []")
    case True
    with 1 show ?thesis by (intro exI [of _ "[]"]) (simp add: parse_headers_loop.simps)
  next
    case False
    with "1.prems"(1) obtain k v rest' where r: "read_header rest = Ok ((k, v), rest')"
      and g: "bt_get m k = None" and l: "parse_headers_loop (bt_insert k v m) rest' = Ok m'"
      by (subst (asm) parse_headers_loop.simps) (auto split: result.splits if_splits)
    from "1.IH" [OF False r refl refl g l] "1.prems"(2) obtain hs
      where "rest' = concat (map encode_header hs)" "distinct (map fst hs)"
        "\<forall>h\<in>set hs. header_ok h \<and> bt_get (bt_insert k v m) (fst h) = None"
        "m' = fold (\<lambda>(k, v). bt_insert k v) hs (bt_insert k v m)"
      by (auto simp: bt.wf_put)
    with read_header_sound [OF r] g "1.prems"(2) show ?thesis
      by (intro exI [of _ "(k, v) # hs"]) (auto simp: bt.get_put split: if_splits)
  qed
qed

lemma decode_body_sound:
  assumes "decode_body h f = Ok m" and "length f = MIN_EVENTSTREAM_FRAME_BYTES + h + p"
  shows "\<exists>hs. let w = (hs, msg_payload m) in
    length (header_block w) = h \<and> list_all header_ok hs \<and> distinct (map fst hs) \<and> m = decoded w
    \<and> drop PRELUDE_BYTES f =
        header_block w @ msg_payload m @ be_bytes 4 (unat (crc32 (take (length f - CRC_BYTES) f)))"
proof -
  define body where "body = drop PRELUDE_BYTES (take (length f - CRC_BYTES) f)"
  let ?trailer = "drop (length f - CRC_BYTES) f"
  from assms(1) have crc: "crc32 (take (length f - CRC_BYTES) f) = from_be_bytes ?trailer"
    and l: "CRC_BYTES \<le> length f" and h: "h \<le> length body"
    and p: "parse_headers (take h body) = Ok (msg_headers m)" "msg_payload m = drop h body"
    by (auto simp: decode_body_def body_def Let_def and_then_Ok_iff split: if_splits)
  from parse_headers_loop_sound [OF p(1) [unfolded parse_headers_def] bt.wf_empty]
  obtain hs where hs: "take h body = concat (map encode_header hs)" "\<forall>x\<in>set hs. header_ok x"
    "distinct (map fst hs)" "msg_headers m = fold (\<lambda>(k, v). bt_insert k v) hs []"
    by auto
  have "be_bytes 4 (unat (from_be_bytes ?trailer :: 32 word)) = ?trailer"
    using l by (intro be_bytes_from_be) (simp_all add: CRC_BYTES_def)
  moreover have "drop PRELUDE_BYTES f = body @ ?trailer"
    using assms(2) by (simp add: body_def drop_take MIN_EVENTSTREAM_FRAME_BYTES_def CRC_BYTES_def)
      (metis add.commute append_take_drop_id drop_drop)
  ultimately show ?thesis
    using hs h p(2) crc
    by (intro exI [of _ hs]) (auto simp: header_block_def decoded_def list_all_iff Let_def
        append_take_drop_id simp flip: hs(1) intro!: eventstream_message.equality)
qed

lemma decode_frame_Some_iff:
  "decode_frame f = Ok (Some (m, n)) \<longleftrightarrow> PRELUDE_BYTES \<le> length f \<and> n \<le> length f
     \<and> (\<exists>h. decode_prelude (take PRELUDE_BYTES f) = Ok (n, h) \<and> decode_body h (take n f) = Ok m)"
  by (cases "decode_prelude (take PRELUDE_BYTES f)")
    (auto simp: decode_frame_def and_then_Ok_iff split: if_splits)

lemma decode_prelude_sound:
  assumes "decode_prelude p = Ok (n, h)" and "length p = PRELUDE_BYTES"
  shows "p = encode_prelude n h"
proof -
  have be: "be_bytes 4 (unat (from_be_bytes bs :: 32 word)) = bs" if "length bs = 4" for bs
    using that by (rule be_bytes_from_be) simp
  from assms have "be_bytes 4 n = take 4 p" "be_bytes 4 h = take 4 (drop 4 p)"
    and crc: "be_bytes 4 (unat (crc32 (take 8 p))) = drop 8 p"
    by (auto simp: decode_prelude_Ok PRELUDE_BYTES_def be)
  then have "be_bytes 4 n @ be_bytes 4 h = take 8 p"
    by (simp flip: take_add)
  with crc show ?thesis by (simp add: encode_prelude_def Let_def)
qed

lemma decode_frame_sound:
  assumes "decode_frame f = Ok (Some (m, n))"
  obtains w where "wire_ok w" and "take n f = encode_frame w" and "m = decoded w"
    and "n = length (encode_frame w)"
proof -
  from assms obtain h where pre: "decode_prelude (take PRELUDE_BYTES f) = Ok (n, h)"
    and body: "decode_body h (take n f) = Ok m" and l: "PRELUDE_BYTES \<le> length f" "n \<le> length f"
    by (auto simp: decode_frame_Some_iff)
  have b: "MIN_EVENTSTREAM_FRAME_BYTES \<le> n" "n \<le> MAX_EVENTSTREAM_FRAME_BYTES"
    "h \<le> MAX_EVENTSTREAM_HEADERS_BYTES" "h \<le> n - MIN_EVENTSTREAM_FRAME_BYTES"
    using pre unfolding decode_prelude_Ok by blast+
  then obtain p where n: "n = MIN_EVENTSTREAM_FRAME_BYTES + h + p"
    by (metis add.assoc le_Suc_ex le_diff_conv2 add.commute)
  let ?crc = "crc32 (take (n - CRC_BYTES) (take n f))"
  from decode_body_sound [OF body, of p] n l obtain hs where
    w: "length (header_block (hs, msg_payload m)) = h" "list_all header_ok hs" "distinct (map fst hs)"
      "m = decoded (hs, msg_payload m)"
    and rest: "drop PRELUDE_BYTES (take n f) =
      header_block (hs, msg_payload m) @ msg_payload m @ be_bytes 4 (unat ?crc)"
    by (auto simp: Let_def)
  have p: "length (msg_payload m) = p"
    using arg_cong [OF rest, of length] n l w(1)
    by (simp add: MIN_EVENTSTREAM_FRAME_BYTES_def CRC_BYTES_def)
  have pf: "take PRELUDE_BYTES (take n f) = encode_prelude n h"
    using decode_prelude_sound [OF pre] l b(1) by (simp add: min_def MIN_EVENTSTREAM_FRAME_BYTES_def)
  have frame: "take n f = (encode_prelude n h @ header_block (hs, msg_payload m) @ msg_payload m)
      @ be_bytes 4 (unat ?crc)"
    using append_take_drop_id [of PRELUDE_BYTES "take n f"] unfolding rest pf by simp
  have covered: "take (n - CRC_BYTES) (take n f) =
      encode_prelude n h @ header_block (hs, msg_payload m) @ msg_payload m"
    using n w(1) p by (subst frame) (simp add: MIN_EVENTSTREAM_FRAME_BYTES_def CRC_BYTES_def)
  have "encode_frame (hs, msg_payload m) =
      (let c = encode_prelude n h @ header_block (hs, msg_payload m) @ msg_payload m
       in c @ be_bytes 4 (unat (crc32 c)))"
    using n w(1) p by (simp add: encode_frame_def Let_def)
  then have "take n f = encode_frame (hs, msg_payload m)"
    using frame unfolding covered Let_def by simp
  moreover have "wire_ok (hs, msg_payload m)"
    using w b n p by (simp add: wire_ok_def)
  moreover have "length (take n f) = n" using l by simp
  ultimately show thesis using that w(4) by metis
qed

text \<open>
  Claim C30. The deframer accepts exactly the eventstream wire format: it returns a message and a
  length for some bytes if and only if these start with the encoding of a message whose headers
  are well formed and distinct and whose sizes are within the bounds, and then it returns that
  message and the length of its encoding.
\<close>

theorem es_accepts_exactly_frames:
  "decode_frame f = Ok (Some (m, n)) \<longleftrightarrow>
     (\<exists>w rest. f = encode_frame w @ rest \<and> wire_ok w \<and> m = decoded w \<and> n = length (encode_frame w))"
proof
  assume d: "decode_frame f = Ok (Some (m, n))"
  then obtain w where "wire_ok w" "take n f = encode_frame w" "m = decoded w"
    "n = length (encode_frame w)"
    by (rule decode_frame_sound)
  then show "\<exists>w rest. f = encode_frame w @ rest \<and> wire_ok w \<and> m = decoded w
      \<and> n = length (encode_frame w)"
    by (metis append_take_drop_id)
qed (auto simp: decode_frame_encoded)

section \<open>Corruption of one byte\<close>

lemma list_update_split:
  "i < length xs \<Longrightarrow> xs[i := b] = take i xs @ b # drop (Suc i) xs"
  by (rule upd_conv_take_nth_drop)

lemma crc32_update_detects:
  assumes "i < length xs" and "b \<noteq> xs ! i"
  shows "crc32 (xs[i := b]) \<noteq> crc32 xs"
  using crc32_detects [OF assms(2), of "take i xs" "drop (Suc i) xs"] assms(1)
  by (simp add: list_update_split id_take_nth_drop [symmetric])

lemma from_be_bytes_update:
  assumes "i < length xs" and "b \<noteq> xs ! i" and "length xs = 4"
  shows "(from_be_bytes (xs[i := b]) :: 32 word) \<noteq> from_be_bytes xs"
proof
  assume "(from_be_bytes (xs[i := b]) :: 32 word) = from_be_bytes xs"
  then have "xs[i := b] = xs"
    by (rule from_be_bytes_inj) (simp_all add: assms(3))
  with assms show False by (metis nth_list_update_eq)
qed

text \<open>A checksum over a part of a list and the stored value behind it: any one changed byte shows.\<close>

lemma checksum_detects:
  assumes ok: "crc32 (take k f) = from_be_bytes (drop k f)" and l: "length f = k + 4"
    and i: "i < length f" "b \<noteq> f ! i"
  shows "crc32 (take k (f[i := b])) \<noteq> from_be_bytes (drop k (f[i := b]))"
proof (cases "i < k")
  case True
  then have "crc32 ((take k f)[i := b]) \<noteq> crc32 (take k f)"
    using i l by (intro crc32_update_detects) simp_all
  with True ok show ?thesis by (simp add: take_update_swap drop_update_cancel)
next
  case False
  then have "(from_be_bytes ((drop k f)[i - k := b]) :: 32 word) \<noteq> from_be_bytes (drop k f)"
    using i l by (intro from_be_bytes_update) simp_all
  with False ok show ?thesis by (simp add: drop_update_swap)
qed

lemma decode_body_checksum:
  "decode_body h f = Ok m \<Longrightarrow> CRC_BYTES \<le> length f
     \<and> crc32 (take (length f - CRC_BYTES) f) = from_be_bytes (drop (length f - CRC_BYTES) f)"
  by (auto simp: decode_body_def Let_def split: if_splits)

text \<open>
  Claim C40. A frame the deframer accepts is refused when any one of its bytes is changed: as a
  prelude checksum mismatch when the byte is in the prelude, before the rest of the frame is
  awaited, and as a message checksum mismatch anywhere else.
\<close>

theorem es_corruption_detected:
  assumes "decode_frame f = Ok (Some (m, n))" and "i < n" and "b \<noteq> f ! i"
  shows "decode_frame (f[i := b]) =
    Err (if i < PRELUDE_BYTES then PreludeChecksumMismatch else MessageChecksumMismatch)"
proof -
  from assms(1) obtain h where pre: "decode_prelude (take PRELUDE_BYTES f) = Ok (n, h)"
    and body: "decode_body h (take n f) = Ok m" and l: "PRELUDE_BYTES \<le> length f" "n \<le> length f"
    by (auto simp: decode_frame_Some_iff)
  show ?thesis
  proof (cases "i < PRELUDE_BYTES")
    case True
    have "crc32 (take 8 ((take PRELUDE_BYTES f)[i := b])) \<noteq>
        from_be_bytes (drop 8 ((take PRELUDE_BYTES f)[i := b]))"
      using True pre l assms(3)
      by (intro checksum_detects) (simp_all add: decode_prelude_Ok PRELUDE_BYTES_def)
    with True l show ?thesis
      by (simp add: decode_frame_def decode_prelude_def take_update_swap)
  next
    case False
    from pre have "CRC_BYTES \<le> n"
      by (simp add: decode_prelude_Ok MIN_EVENTSTREAM_FRAME_BYTES_def)
    then have "crc32 (take (n - CRC_BYTES) ((take n f)[i := b])) \<noteq>
        from_be_bytes (drop (n - CRC_BYTES) ((take n f)[i := b]))"
      using decode_body_checksum [OF body] l assms(2,3)
      by (intro checksum_detects) (simp_all add: CRC_BYTES_def)
    then have "decode_body h (take n (f[i := b])) = Err MessageChecksumMismatch"
      using \<open>CRC_BYTES \<le> n\<close> l assms(2) by (simp add: decode_body_def Let_def take_update_swap)
    with False pre l show ?thesis
      by (simp add: decode_frame_def)
  qed
qed

text \<open>A frame with one header and a payload, as the examples below use it.\<close>

definition sample_message :: wire_message where
  "sample_message = ([(''k'', HInt16 (- 2))], ''{}'')"

lemma sample_message_ok: "wire_ok sample_message"
  by (simp add: wire_ok_def sample_message_def header_ok_def header_block_def encode_header_def
      utf8_valid.simps utf8_head_def byte_in_def MAX_EVENTSTREAM_HEADERS_BYTES_def
      MIN_EVENTSTREAM_FRAME_BYTES_def MAX_EVENTSTREAM_FRAME_BYTES_def PRELUDE_BYTES_def CRC_BYTES_def)

theorem es_frames_round_trip_witness:
  "\<exists>messages. es_run [take 5 (encode_frame sample_message), drop 5 (encode_frame sample_message)] =
       Some (messages, Ok ()) \<and>
     list_all2 (\<lambda>(hs, payload) message. msg_payload message = payload
       \<and> (\<forall>k. bt_get (msg_headers message) k = map_of hs k)) [sample_message] messages"
  by (rule es_frames_round_trip) (simp_all add: sample_message_ok)

theorem es_corruption_detected_witness:
  "decode_frame (encode_frame sample_message) =
      Ok (Some (decoded sample_message, length (encode_frame sample_message)))
   \<and> (\<exists>b. decode_frame ((encode_frame sample_message)[17 := b]) = Err MessageChecksumMismatch)"
proof -
  have d: "decode_frame (encode_frame sample_message) =
      Ok (Some (decoded sample_message, length (encode_frame sample_message)))"
    using decode_frame_encoded [OF sample_message_ok, of "[]"] by simp
  have l: "17 < length (encode_frame sample_message)"
    by (simp add: length_encode_frame sample_message_def header_block_def encode_header_def
        MIN_EVENTSTREAM_FRAME_BYTES_def PRELUDE_BYTES_def CRC_BYTES_def)
  let ?x = "encode_frame sample_message ! 17"
  have "(if ?x = CHR ''a'' then CHR ''b'' else CHR ''a'') \<noteq> ?x" by simp
  from es_corruption_detected [OF d l this] d show ?thesis
    by (auto simp: PRELUDE_BYTES_def)
qed

end
