(* ===== verification/Reencode.thy ===== *)
theory Reencode
  imports Eventstream_Frames Sse_Frames
begin

text \<open>
  The canonical SSE re-encoding of an eventstream message, \<open>reencode_eventstream_v1\<close> of
  \<open>crates/south-contracts/src/eventstream.rs\<close>, and what joins the two grammars of the
  repository: the re-encoding of what the deframer accepts is read by the SSE decoder as exactly
  one event per message.

  The JSON library is not part of the repository. \<open>json_valid\<close> stands for
  \<open>serde_json::from_str::<IgnoredAny>\<close> accepting a text, \<open>json_string\<close> for the text
  \<open>serde_json::Value::String\<close> displays as.
\<close>

section \<open>The code\<close>

definition MESSAGE_TYPE :: string where
  "MESSAGE_TYPE = '':message-type''"

definition EVENT_TYPE :: string where
  "EVENT_TYPE = '':event-type''"

definition EXCEPTION_TYPE :: string where
  "EXCEPTION_TYPE = '':exception-type''"

definition ERROR_CODE :: string where
  "ERROR_CODE = '':error-code''"

definition ERROR_MESSAGE :: string where
  "ERROR_MESSAGE = '':error-message''"

definition required_string :: "eventstream_message \<Rightarrow> string \<Rightarrow> (string, eventstream_error) result" where
  "required_string m header =
     (case bt_get (msg_headers m) header of
        Some (HString value) \<Rightarrow> Ok value
      | Some _ \<Rightarrow> Err (HeaderNotString header)
      | None \<Rightarrow> Err (MissingHeader header))"

definition event_name :: "eventstream_message \<Rightarrow> string \<Rightarrow> (string, eventstream_error) result" where
  "event_name m header =
     and_then (required_string m header) (\<lambda>value.
       if value = [] \<or> CR \<in> set value \<or> LF \<in> set value then Err (InvalidEventName header)
       else Ok value)"

text \<open>
  The loop of \<open>compact_json\<close>, over bytes: the characters it tells apart are ASCII, and no byte
  of a multi-byte character is below 0x80.
\<close>

abbreviation json_ws :: "byte \<Rightarrow> bool" where
  "json_ws ch \<equiv> ch = CHR '' '' \<or> ch = CHR 0x09 \<or> ch = LF \<or> ch = CR"

fun compact_loop :: "bytes \<Rightarrow> bool \<Rightarrow> bool \<Rightarrow> bytes \<Rightarrow> (bytes, eventstream_error) result" where
  "compact_loop compact in_string escaped [] = Ok compact"
| "compact_loop compact in_string escaped (ch # rest) =
     (if in_string then
        if of_char ch < (0x20 :: nat) then Err PayloadNotJson
        else if escaped then compact_loop (compact @ [ch]) True False rest
        else if ch = CHR 0x5C then compact_loop (compact @ [ch]) True True rest
        else if ch = CHR 0x22 then compact_loop (compact @ [ch]) False False rest
        else compact_loop (compact @ [ch]) True False rest
      else if \<not> json_ws ch then compact_loop (compact @ [ch]) (ch = CHR 0x22) escaped rest
      else compact_loop compact False escaped rest)"

definition compact_json :: "(bytes \<Rightarrow> bool) \<Rightarrow> bytes \<Rightarrow> (bytes, eventstream_error) result" where
  "compact_json json_valid payload =
     (if \<not> utf8_valid payload then Err PayloadNotUtf8
      else if \<not> json_valid payload then Err PayloadNotJson
      else compact_loop [] False False payload)"

definition reencode_eventstream_v1 ::
  "(bytes \<Rightarrow> bool) \<Rightarrow> (string \<Rightarrow> bytes) \<Rightarrow> eventstream_message \<Rightarrow> (bytes, eventstream_error) result" where
  "reencode_eventstream_v1 json_valid json_string m =
     and_then (required_string m MESSAGE_TYPE) (\<lambda>message_type.
       if message_type = ''event'' then
         and_then (event_name m EVENT_TYPE) (\<lambda>name.
           and_then (compact_json json_valid (msg_payload m)) (\<lambda>data.
             Ok (''event: '' @ name @ [LF] @ ''data: '' @ data @ [LF, LF])))
       else if message_type = ''exception'' then
         and_then (event_name m EXCEPTION_TYPE) (\<lambda>name.
           and_then (compact_json json_valid (msg_payload m)) (\<lambda>data.
             Ok (''event: exception:'' @ name @ [LF] @ ''data: '' @ data @ [LF, LF])))
       else if message_type = ''error'' then
         and_then (event_name m ERROR_CODE) (\<lambda>code.
           and_then (required_string m ERROR_MESSAGE) (\<lambda>text.
             let detail = json_string text in
             Ok (''event: error:'' @ code @ [LF] @
                 ''data: {\"message\":'' @ detail @ ''}'' @ [LF, LF])))
       else Err UnknownMessageType)"

section \<open>Compacting JSON\<close>

lemma compact_loop_skip:
  "\<not> i \<Longrightarrow> json_ws ch \<Longrightarrow> compact_loop acc i e (ch # rest) = compact_loop acc False e rest"
  by auto

lemma compact_loop_keep:
  "i \<or> \<not> json_ws ch \<Longrightarrow> compact_loop acc i e (ch # rest) =
     (if i \<and> of_char ch < (0x20 :: nat) then Err PayloadNotJson
      else compact_loop (acc @ [ch]) (if i then e \<or> ch \<noteq> CHR 0x22 else ch = CHR 0x22)
        (if i then \<not> e \<and> ch = CHR 0x5C else e) rest)"
  by auto

text \<open>
  Compacting is an edit of ASCII bytes that leaves no line break, never grows the text, and leaves
  compact text alone.
\<close>

lemma compact_loop_spec:
  "compact_loop acc i e s = Ok out \<Longrightarrow>
     \<exists>t. out = acc @ t \<and> ascii_edit s t \<and> clean_line t \<and> length t \<le> length s
       \<and> (\<forall>acc'. compact_loop acc' i e t = Ok (acc' @ t))"
proof (induction s arbitrary: acc i e)
  case Nil
  then show ?case by (simp add: ascii_edit.nil)
next
  case (Cons ch rest)
  show ?case
  proof (cases "\<not> i \<and> json_ws ch")
    case True
    then have "ascii ch" by (auto simp: ascii_def)
    moreover from True Cons.prems have "compact_loop acc False e rest = Ok out"
      by (metis compact_loop_skip)
    ultimately show ?thesis
      using Cons.IH [of acc False e] True ascii_edit_drop [of ch rest]
      by (metis le_SucI length_Cons)
  next
    case False
    define i' e' where "i' = (if i then e \<or> ch \<noteq> CHR 0x22 else ch = CHR 0x22)"
      and "e' = (if i then \<not> e \<and> ch = CHR 0x5C else e)"
    from False have k: "i \<or> \<not> json_ws ch" by blast
    note step = compact_loop_keep [OF k, of _ e, folded i'_def e'_def]
    from Cons.prems have c: "\<not> (i \<and> of_char ch < (0x20 :: nat))"
      and r: "compact_loop (acc @ [ch]) i' e' rest = Ok out"
      unfolding step by (simp_all split: if_splits)
    from Cons.IH [OF r] obtain t where t: "out = (acc @ [ch]) @ t" "ascii_edit rest t"
      "clean_line t" "length t \<le> length rest"
      "\<forall>acc'. compact_loop acc' i' e' t = Ok (acc' @ t)"
      by blast
    show ?thesis
    proof (intro exI conjI allI)
      show "out = acc @ (ch # t)" using t(1) by simp
      show "ascii_edit (ch # rest) (ch # t)" using t(2) by (rule ascii_edit.keep)
      show "CR \<notin> set (ch # t)" "LF \<notin> set (ch # t)" using t(3) c k by auto
      show "length (ch # t) \<le> length (ch # rest)" using t(4) by simp
      show "compact_loop acc' i e (ch # t) = Ok (acc' @ ch # t)" for acc'
        unfolding step using c t(5) by simp
    qed
  qed
qed

lemma compact_json_Ok:
  assumes "compact_json json_valid payload = Ok data"
  shows "utf8_valid data" "clean_line data" "length data \<le> length payload"
    "compact_loop [] False False data = Ok data"
proof -
  from assms have "compact_loop [] False False payload = Ok data" and u: "utf8_valid payload"
    by (auto simp: compact_json_def split: if_splits)
  from compact_loop_spec [OF this(1)] have "ascii_edit payload data"
    and r: "clean_line data" "length data \<le> length payload" "compact_loop [] False False data = Ok data"
    by auto
  then show "utf8_valid data" using u by (blast intro: ascii_edit_valid)
  from r show "clean_line data" "length data \<le> length payload"
    "compact_loop [] False False data = Ok data" by auto
qed

section \<open>Headers of a deframed message\<close>

lemma decoded_get:
  assumes "wire_ok w" and "bt_get (msg_headers (decoded w)) k = Some v"
  shows "(k, v) \<in> set (fst w)" "header_ok (k, v)"
proof -
  from assms show "(k, v) \<in> set (fst w)"
    using decoded_headers [of w k] map_of_SomeD by (fastforce simp: wire_ok_def)
  with assms(1) show "header_ok (k, v)" by (auto simp: wire_ok_def list_all_iff)
qed

text \<open>Two headers of a message both fit in its frame.\<close>

lemma header_block_two:
  assumes "wire_ok w" and "(k, v) \<in> set (fst w)" and "(k', v') \<in> set (fst w)" and "k \<noteq> k'"
  shows "length (encode_header (k, v)) + length (encode_header (k', v')) \<le> length (header_block w)"
proof -
  have d: "distinct (fst w)" using assms(1) by (simp add: wire_ok_def distinct_map)
  have "(\<Sum>h\<in>{(k, v), (k', v')}. length (encode_header h)) \<le> (\<Sum>h\<in>set (fst w). length (encode_header h))"
    using assms(2,3) by (intro sum_mono2) auto
  with d assms(4) show ?thesis
    by (simp add: header_block_def length_concat comp_def sum_list_distinct_conv_sum_set)
qed

section \<open>One event per message\<close>

text \<open>
  What the re-encoding of a message has to carry: the table of the documentation of
  \<open>reencode_eventstream_v1\<close>.
\<close>

definition reencoded_as ::
  "(bytes \<Rightarrow> bool) \<Rightarrow> (string \<Rightarrow> bytes) \<Rightarrow> eventstream_message \<Rightarrow> sse_event \<Rightarrow> bool" where
  "reencoded_as json_valid json_string m ev \<longleftrightarrow>
     (let header = (\<lambda>name value. bt_get (msg_headers m) name = Some (HString value)) in
      (header '':message-type'' ''event'' \<and> header '':event-type'' (sse_event_type ev)
         \<and> compact_json json_valid (msg_payload m) = Ok (sse_event_data ev))
      \<or> (header '':message-type'' ''exception''
         \<and> (\<exists>name. header '':exception-type'' name \<and> sse_event_type ev = ''exception:'' @ name)
         \<and> compact_json json_valid (msg_payload m) = Ok (sse_event_data ev))
      \<or> (header '':message-type'' ''error''
         \<and> (\<exists>code. header '':error-code'' code \<and> sse_event_type ev = ''error:'' @ code)
         \<and> (\<exists>text. header '':error-message'' text
              \<and> sse_event_data ev = ''{\"message\":'' @ json_string text @ ''}'')))"

text \<open>What is relied on of the JSON string printer: UTF-8 text on one line, six bytes per byte at most.\<close>

definition json_string_ok :: "(string \<Rightarrow> bytes) \<Rightarrow> bool" where
  "json_string_ok json_string \<longleftrightarrow>
     (\<forall>s. utf8_valid s \<longrightarrow> utf8_valid (json_string s) \<and> clean_line (json_string s)
        \<and> length (json_string s) \<le> 6 * length s + 2)"

lemma required_string_Ok_iff:
  "required_string m h = Ok v \<longleftrightarrow> bt_get (msg_headers m) h = Some (HString v)"
  by (auto simp: required_string_def split: option.splits header_value.splits)

lemma event_name_Ok_iff:
  "event_name m h = Ok v \<longleftrightarrow>
     bt_get (msg_headers m) h = Some (HString v) \<and> v \<noteq> [] \<and> clean_line v"
  by (auto simp: event_name_def and_then_Ok_iff required_string_Ok_iff)

lemma sse_frame_one_line:
  "LF \<notin> set data \<Longrightarrow>
    sse_frame \<lparr>sse_event_type = ty, sse_event_data = data\<rparr> =
      ''event: '' @ ty @ [LF] @ ''data: '' @ data @ [LF, LF]"
  by (simp add: sse_frame_def data_lines_def split_on_plain)

lemma wire_string:
  assumes "wire_ok w" and "bt_get (msg_headers (decoded w)) k = Some (HString v)"
  shows "utf8_valid v" "length v < 2 ^ 16" "(k, HString v) \<in> set (fst w)"
  using decoded_get [OF assms] by (simp_all add: header_ok_def)

lemma length_string_header: "length (encode_header (k, HString v)) = length k + length v + 4"
  by (simp add: encode_header_def length_prefix_def)

text \<open>The event name and the payload of a message fit in a line together, with room to spare.\<close>

lemma name_and_payload_fit:
  assumes "wire_ok w" and "bt_get (msg_headers (decoded w)) k = Some (HString name)"
    and "bt_get (msg_headers (decoded w)) k' = Some (HString mt)" and "k \<noteq> k'"
  shows "length k + length name + length k' + length mt + 8 + length (snd w) + 16
    \<le> MAX_EVENTSTREAM_FRAME_BYTES"
  using header_block_two [OF assms(1) wire_string(3) [OF assms(1,2)] wire_string(3) [OF assms(1,3)] assms(4)]
    assms(1)
  by (simp add: wire_ok_def length_string_header MIN_EVENTSTREAM_FRAME_BYTES_def PRELUDE_BYTES_def
      CRC_BYTES_def)

lemma reencode_event:
  assumes w: "wire_ok w" and mt: "bt_get (msg_headers (decoded w)) MESSAGE_TYPE = Some (HString mt)"
    and name: "event_name (decoded w) k = Ok name" and k: "length p \<le> length k" "k \<noteq> MESSAGE_TYPE"
    and p: "list_all ascii p" "clean_line p"
    and data: "compact_json json_valid (snd w) = Ok data"
  shows "framable \<lparr>sse_event_type = p @ name, sse_event_data = data\<rparr>"
proof -
  have g: "bt_get (msg_headers (decoded w)) k = Some (HString name)" and n: "name \<noteq> []" "clean_line name"
    using name by (simp_all add: event_name_Ok_iff)
  have "length p + length name + length data + 7 \<le> MAX_SSE_LINE_BYTES"
    using name_and_payload_fit [OF w g mt k(2)] compact_json_Ok(3) [OF data] k(1)
    by (simp add: MAX_EVENTSTREAM_FRAME_BYTES_def MAX_SSE_LINE_BYTES_def)
  moreover have "utf8_valid (p @ name)"
    using wire_string(1) [OF w g] p(1) by (simp add: utf8_valid_append utf8_valid_ascii)
  ultimately show ?thesis
    using compact_json_Ok [OF data] n p(2) by (simp add: framable_def)
qed

lemma reencode_error:
  assumes w: "wire_ok w" and code: "event_name (decoded w) ERROR_CODE = Ok code"
    and detail: "bt_get (msg_headers (decoded w)) ERROR_MESSAGE = Some (HString msg)"
    and j: "json_string_ok json_string"
  shows "framable \<lparr>sse_event_type = ''error:'' @ code,
    sse_event_data = ''{\"message\":'' @ json_string msg @ ''}''\<rparr>"
proof -
  have g: "bt_get (msg_headers (decoded w)) ERROR_CODE = Some (HString code)"
    and c: "code \<noteq> []" "clean_line code"
    using code by (simp_all add: event_name_Ok_iff)
  from j wire_string(1) [OF w detail] have t: "utf8_valid (json_string msg)"
    "clean_line (json_string msg)" "length (json_string msg) \<le> 6 * length msg + 2"
    by (auto simp: json_string_ok_def)
  then have "length code + length (json_string msg) + 25 \<le> MAX_SSE_LINE_BYTES"
    using wire_string(2) [OF w g] wire_string(2) [OF w detail] by (simp add: MAX_SSE_LINE_BYTES_def)
  then show ?thesis
    using t c wire_string(1) [OF w g]
    by (simp add: framable_def ascii_def utf8_valid_append)
qed

lemma reencode_framable:
  assumes w: "wire_ok w" and j: "json_string_ok json_string"
    and r: "reencode_eventstream_v1 json_valid json_string (decoded w) = Ok frame"
  shows "\<exists>ev. frame = sse_frame ev \<and> framable ev \<and> reencoded_as json_valid json_string (decoded w) ev"
proof -
  from r obtain mt where mt: "bt_get (msg_headers (decoded w)) MESSAGE_TYPE = Some (HString mt)"
    by (auto simp: reencode_eventstream_v1_def and_then_Ok_iff required_string_Ok_iff)
  have m: "required_string (decoded w) MESSAGE_TYPE = Ok mt"
    using mt by (simp add: required_string_Ok_iff)
  note rr = r [unfolded reencode_eventstream_v1_def m and_then.simps]
  have pl: "msg_payload (decoded w) = snd w" by (simp add: decoded_def)
  consider (event) "mt = ''event''" | (exception) "mt = ''exception''" | (error) "mt = ''error''"
    using rr by (auto split: if_splits)
  then show ?thesis
  proof cases
    case event
    with rr obtain name data where nd: "event_name (decoded w) EVENT_TYPE = Ok name"
      "compact_json json_valid (snd w) = Ok data"
      and f: "frame = ''event: '' @ name @ [LF] @ ''data: '' @ data @ [LF, LF]"
      by (auto simp: and_then_Ok_iff pl)
    show ?thesis
      using reencode_event [OF w mt nd(1) _ _ _ _ nd(2), of "[]"] f nd mt event
        sse_frame_one_line [of data name] compact_json_Ok(2) [OF nd(2)]
      by (intro exI [of _ "\<lparr>sse_event_type = name, sse_event_data = data\<rparr>"])
        (simp add: reencoded_as_def event_name_Ok_iff EVENT_TYPE_def MESSAGE_TYPE_def pl)
  next
    case exception
    with rr obtain name data where nd: "event_name (decoded w) EXCEPTION_TYPE = Ok name"
      "compact_json json_valid (snd w) = Ok data"
      and f: "frame = ''event: exception:'' @ name @ [LF] @ ''data: '' @ data @ [LF, LF]"
      by (auto simp: and_then_Ok_iff pl)
    show ?thesis
      using reencode_event [OF w mt nd(1) _ _ _ _ nd(2), of "''exception:''"] f nd mt exception
        sse_frame_one_line [of data "''exception:'' @ name"] compact_json_Ok(2) [OF nd(2)]
      by (intro exI [of _ "\<lparr>sse_event_type = ''exception:'' @ name, sse_event_data = data\<rparr>"])
        (simp add: reencoded_as_def event_name_Ok_iff EXCEPTION_TYPE_def MESSAGE_TYPE_def pl ascii_def)
  next
    case error
    with rr obtain code msg where ct: "event_name (decoded w) ERROR_CODE = Ok code"
      "bt_get (msg_headers (decoded w)) ERROR_MESSAGE = Some (HString msg)"
      and f: "frame = ''event: error:'' @ code @ [LF] @
                 ''data: {\"message\":'' @ json_string msg @ ''}'' @ [LF, LF]"
      by (auto simp: and_then_Ok_iff required_string_Ok_iff)
    note fr = reencode_error [OF w ct j]
    show ?thesis
      using fr f ct mt error
        sse_frame_one_line [of "''{\"message\":'' @ json_string msg @ ''}''" "''error:'' @ code"]
        j wire_string(1) [OF w ct(2)]
      by (intro exI [of _ "\<lparr>sse_event_type = ''error:'' @ code,
          sse_event_data = ''{\"message\":'' @ json_string msg @ ''}''\<rparr>"])
        (simp add: reencoded_as_def event_name_Ok_iff ERROR_CODE_def ERROR_MESSAGE_def
          MESSAGE_TYPE_def json_string_ok_def)
  qed
qed

text \<open>Every message a body deframes to was encoded in it.\<close>

lemma drain_decoded:
  "drain es_step () b = (ms, r) \<Longrightarrow> \<forall>m\<in>set ms. \<exists>w. wire_ok w \<and> m = decoded w"
proof -
  have "out = Some m \<longrightarrow> (\<exists>w. wire_ok w \<and> m = decoded w)" if "es_step s b = Frame s' out n"
    for s b s' out n m
    using that unfolding es_step_simps by (metis decode_frame_sound option.inject)
  then show "drain es_step () b = (ms, r) \<Longrightarrow> \<forall>m\<in>set ms. \<exists>w. wire_ok w \<and> m = decoded w"
    using es_framer.drain_invariant [where P = "\<lambda>_. True" and Q = "\<lambda>m. \<exists>w. wire_ok w \<and> m = decoded w"]
    by blast
qed

lemma deframed_decoded:
  "deframe_aws_eventstream_v1 body = Ok ms \<Longrightarrow> m \<in> set ms \<Longrightarrow> \<exists>w. wire_ok w \<and> m = decoded w"
  using drain_decoded [of body]
  by (auto simp: deframe_aws_eventstream_v1_def deframe_loop_drain and_then_Ok_iff split: prod.splits)


text \<open>
  Compacting a JSON payload is idempotent, and its result is valid UTF-8 that contains
  neither CR nor LF, is no longer than the payload, and has no line break even when the JSON
  validator would let one through.
\<close>

theorem compact_json_canonical:
  assumes "compact_json json_valid payload = Ok data" and "json_valid data"
  shows "compact_json json_valid data = Ok data \<and> utf8_valid data \<and> CR \<notin> set data \<and> LF \<notin> set data
    \<and> length data \<le> length payload"
  using compact_json_Ok [OF assms(1)] assms(2) by (simp add: compact_json_def)

section \<open>Examples\<close>

text \<open>A JSON string printer that meets the assumption, escaping as JSON requires.\<close>

definition hex_digit :: "nat \<Rightarrow> byte" where
  "hex_digit n = ''0123456789abcdef'' ! (n mod 16)"

definition json_escape :: "byte \<Rightarrow> bytes" where
  "json_escape c =
     (if c = CHR 0x22 \<or> c = CHR 0x5C then [CHR 0x5C, c]
      else if of_char c < (0x20 :: nat) then
        CHR 0x5C # ''u00'' @ [hex_digit (of_char c div 16), hex_digit (of_char c)]
      else [c])"

definition json_quote :: "string \<Rightarrow> bytes" where
  "json_quote s = [CHR 0x22] @ concat (map json_escape s) @ [CHR 0x22]"

lemma hex_digit_mem: "hex_digit n \<in> set ''0123456789abcdef''"
  unfolding hex_digit_def by (rule nth_mem) simp

lemma json_escape_edit: "ascii_edit s (concat (map json_escape s))"
proof (induction s)
  case Nil
  then show ?case by (simp add: ascii_edit.nil)
next
  case (Cons c s)
  have h: "ascii (hex_digit n)" for n
    using hex_digit_mem [of n] by (auto simp: ascii_def)
  show ?case
  proof (cases "json_escape c = [c]")
    case True
    with Cons show ?thesis by (simp add: ascii_edit.keep)
  next
    case False
    then have "ascii c" by (auto simp: json_escape_def ascii_def split: if_splits)
    moreover from this have "list_all ascii (json_escape c)"
      by (auto simp: json_escape_def h) (auto simp: ascii_def)
    ultimately show ?thesis using Cons by (simp add: ascii_edit.edit)
  qed
qed

lemma json_escape_printable: "x \<in> set (json_escape c) \<Longrightarrow> (0x20 :: nat) \<le> of_char x"
proof -
  have h: "(0x20 :: nat) \<le> of_char (hex_digit n)" for n
    using hex_digit_mem [of n] by auto
  then show "x \<in> set (json_escape c) \<Longrightarrow> (0x20 :: nat) \<le> of_char x"
    by (auto simp: json_escape_def split: if_splits)
qed

lemma json_escape_length: "length (concat (map json_escape s)) \<le> 6 * length s"
  by (induction s) (auto simp: json_escape_def)

lemma json_quote_ok: "json_string_ok json_quote"
  unfolding json_string_ok_def
proof (intro allI impI conjI)
  fix s assume "utf8_valid s"
  then have "utf8_valid (concat (map json_escape s))"
    by (rule ascii_edit_valid [OF json_escape_edit])
  then show "utf8_valid (json_quote s)"
    by (simp add: json_quote_def utf8_valid_append ascii_def)
  show "CR \<notin> set (json_quote s)" "LF \<notin> set (json_quote s)"
    using json_escape_printable by (force simp: json_quote_def)+
  show "length (json_quote s) \<le> 6 * length s + 2"
    using json_escape_length [of s] by (simp add: json_quote_def)
qed

definition sample_event :: wire_message where
  "sample_event =
     ([('':message-type'', HString ''event''), ('':event-type'', HString ''chunk'')], ''{ }'')"

lemma sample_event_ok: "wire_ok sample_event"
  by (simp add: wire_ok_def sample_event_def header_ok_def header_block_def length_string_header
      ascii_def MAX_EVENTSTREAM_HEADERS_BYTES_def MIN_EVENTSTREAM_FRAME_BYTES_def
      MAX_EVENTSTREAM_FRAME_BYTES_def PRELUDE_BYTES_def CRC_BYTES_def)

lemma sample_event_reencoded:
  "reencode_eventstream_v1 (\<lambda>s. s = ''{ }'') json_quote (decoded sample_event) =
     Ok (''event: chunk'' @ [LF] @ ''data: {}'' @ [LF, LF])"
proof -
  have "distinct (map fst (fst sample_event))" by (simp add: sample_event_def)
  note headers = decoded_headers [OF this]
  have "required_string (decoded sample_event) MESSAGE_TYPE = Ok ''event''"
    unfolding required_string_Ok_iff headers by (simp add: sample_event_def MESSAGE_TYPE_def)
  moreover have "event_name (decoded sample_event) EVENT_TYPE = Ok ''chunk''"
    unfolding event_name_Ok_iff headers by (simp add: sample_event_def EVENT_TYPE_def)
  moreover have "compact_json (\<lambda>s. s = ''{ }'') (msg_payload (decoded sample_event)) = Ok ''{}''"
    by (simp add: compact_json_def ascii_def decoded_def sample_event_def)
  ultimately show ?thesis
    by (simp add: reencode_eventstream_v1_def)
qed


theorem compact_json_canonical_witness:
  "compact_json (\<lambda>s. s = ''{ }'' \<or> s = ''{}'') ''{ }'' = Ok ''{}''
     \<and> compact_json (\<lambda>s. s = ''{ }'' \<or> s = ''{}'') ''{}'' = Ok ''{}''"
proof -
  have c: "compact_json (\<lambda>s. s = ''{ }'' \<or> s = ''{}'') ''{ }'' = Ok ''{}''"
    by (simp add: compact_json_def ascii_def)
  from compact_json_canonical [OF c] c show ?thesis by blast
qed

end
