(* ===== verification/Base64.thy ===== *)
theory Base64
  imports Big_Endian
begin

unbundle bit_operations_syntax

text \<open>
  The strict base64 codec of \<open>crates/south-component-conformance/src/base64.rs\<close> (RFC 4648
  sections 4 and 5). The decoder is shown to accept exactly what the encoder writes: every byte
  string has one spelling in each mode.
\<close>

section \<open>The code\<close>

datatype alphabet = Standard | UrlSafe

datatype padding = Canonical | Indifferent

definition symbols :: "alphabet \<Rightarrow> bytes" where
  "symbols a =
     ''ABCDEFGHIJKLMNOPQRSTUVWXYZabcdefghijklmnopqrstuvwxyz0123456789'' @
     (case a of Standard \<Rightarrow> ''+/'' | UrlSafe \<Rightarrow> ''-_'')"

definition sextet :: "alphabet \<Rightarrow> byte \<Rightarrow> nat option" where
  "sextet a symbol = iter_position (\<lambda>candidate. candidate = symbol) (symbols a)"

text \<open>The body of the loop of \<open>encode\<close>, for one chunk of at most three bytes.\<close>

definition chunk_group :: "bytes \<Rightarrow> nat" where
  "chunk_group chunk =
     foldl (\<lambda>grp (index, b). grp OR push_bit (16 - 8 * index) (of_char b)) 0 (enumerate 0 chunk)"

definition encode_chunk :: "alphabet \<Rightarrow> bool \<Rightarrow> bytes \<Rightarrow> bytes" where
  "encode_chunk a pad chunk =
     map (\<lambda>index. symbols a ! (drop_bit (18 - 6 * index) (chunk_group chunk) AND 0x3F))
       [0..<Suc (length chunk)]
     @ (if pad then replicate (3 - length chunk) (CHR ''='') else [])"

text \<open>\<open>encode\<close>: one turn per chunk of \<open>bytes.chunks(3)\<close>.\<close>

function b64_encode :: "bytes \<Rightarrow> alphabet \<Rightarrow> bool \<Rightarrow> bytes" where
  "b64_encode bs a pad =
     (if bs = [] then [] else encode_chunk a pad (take 3 bs) @ b64_encode (drop 3 bs) a pad)"
  by pat_completeness auto
termination
  by (relation "measure (\<lambda>(bs, a, pad). length bs)") auto

declare b64_encode.simps [simp del]

text \<open>
  The \<open>for\<close> loop of \<open>decode\<close>. \<open>group\<close> (here \<open>grp\<close>) stays below \<open>2 ^ 16\<close>, so the shift by six never leaves
  the \<open>u32\<close>, and the byte pushed is below 256, so \<open>u8::try_from\<close> does not fail.
\<close>

fun decode_loop :: "alphabet \<Rightarrow> nat \<Rightarrow> nat \<Rightarrow> bytes \<Rightarrow> bytes \<Rightarrow> (nat \<times> nat \<times> bytes) option" where
  "decode_loop a grp bits decoded [] = Some (grp, bits, decoded)"
| "decode_loop a grp bits decoded (symbol # body) =
     (case sextet a symbol of
        None \<Rightarrow> None
      | Some s \<Rightarrow>
          (let grp = (push_bit 6 grp OR s) AND 0xFFFF; bits = bits + 6 in
           if 8 \<le> bits
           then decode_loop a grp (bits - 8)
                  (decoded @ [char_of (drop_bit (bits - 8) grp AND 0xFF)]) body
           else decode_loop a grp bits decoded body))"

text \<open>\<open>Iterator::rposition\<close>.\<close>

definition iter_rposition :: "('a \<Rightarrow> bool) \<Rightarrow> 'a list \<Rightarrow> nat option" where
  "iter_rposition P xs = map_option (\<lambda>i. length xs - 1 - i) (iter_position P (rev xs))"

definition b64_decode :: "bytes \<Rightarrow> alphabet \<Rightarrow> padding \<Rightarrow> bytes option" where
  "b64_decode input a padding =
     (let body_len = (case iter_rposition (\<lambda>b. b \<noteq> CHR ''='') input of None \<Rightarrow> 0 | Some at \<Rightarrow> at + 1);
          body = take body_len input;
          pad = drop body_len input;
          remainder = length body mod 4
      in
      if remainder = 1 then None
      else
        let canonical = (if remainder = 0 then 0 else 4 - remainder);
            pad_allowed = (case padding of
                Canonical \<Rightarrow> length pad = canonical
              | Indifferent \<Rightarrow> length pad \<le> canonical)
        in
        if \<not> pad_allowed then None
        else
          (case decode_loop a 0 0 [] body of
             None \<Rightarrow> None
           | Some (grp, bits, decoded) \<Rightarrow>
               if grp AND (push_bit bits 1 - 1) \<noteq> 0 then None else Some decoded))"

section \<open>Base 64 digits\<close>

fun digits64 :: "nat \<Rightarrow> nat \<Rightarrow> nat list" where
  "digits64 0 v = []"
| "digits64 (Suc k) v = digits64 k (v div 64) @ [v mod 64]"

definition value64 :: "nat list \<Rightarrow> nat" where
  "value64 ss = foldl (\<lambda>v s. v * 64 + s) 0 ss"

lemma value64_snoc [simp]: "value64 [] = 0" "value64 (ss @ [s]) = value64 ss * 64 + s"
  by (simp_all add: value64_def)

lemma length_digits64 [simp]: "length (digits64 k v) = k"
  by (induction k arbitrary: v) auto

lemma digits64_less: "s \<in> set (digits64 k v) \<Longrightarrow> s < 64"
  by (induction k arbitrary: v) auto

lemma value64_digits64: "value64 (digits64 k v) = v mod 64 ^ k"
  by (induction k arbitrary: v) (simp_all add: mod_mult2_eq)

lemma digits64_value64: "\<forall>s\<in>set ss. s < 64 \<Longrightarrow> digits64 (length ss) (value64 ss) = ss"
  by (induction ss rule: rev_induct) auto

lemma digits64_append:
  "v < 64 ^ k \<Longrightarrow> digits64 (j + k) (u * 64 ^ k + v) = digits64 j u @ digits64 k v"
proof (induction k arbitrary: v)
  case 0
  then show ?case by simp
next
  case (Suc k)
  have "(u * 64 ^ Suc k + v) div 64 = u * 64 ^ k + v div 64"
    using div_mult_self3 [of 64 "u * 64 ^ k" v] by (simp add: ac_simps)
  moreover have "(u * 64 ^ Suc k + v) mod 64 = v mod 64"
    using mod_mult_self3 [of "u * 64 ^ k" 64 v] by (simp add: ac_simps)
  moreover have "v div 64 < 64 ^ k" using Suc.prems by (simp add: less_mult_imp_div_less mult.commute)
  ultimately show ?case using Suc.IH [of "v div 64"] by simp
qed

section \<open>Symbols and sextets\<close>

lemma length_symbols [simp]: "length (symbols a) = 64"
  by (cases a) (simp_all add: symbols_def)

lemma distinct_symbols_each: "distinct (symbols Standard)" "distinct (symbols UrlSafe)"
  by code_simp+

lemma distinct_symbols: "distinct (symbols a)"
  using distinct_symbols_each by (cases a) auto

lemma pad_not_symbol: "CHR ''='' \<notin> set (symbols a)"
  by (cases a) (simp_all add: symbols_def)

lemma sextet_Some_iff: "sextet a c = Some s \<longleftrightarrow> s < 64 \<and> symbols a ! s = c"
  unfolding sextet_def iter_position_Some_iff
  using distinct_symbols [of a] by (auto simp: distinct_conv_nth)

lemma sextet_symbol [simp]: "s < 64 \<Longrightarrow> sextet a (symbols a ! s) = Some s"
  by (simp add: sextet_Some_iff)

section \<open>Bits as arithmetic\<close>

lemma push_or:
  fixes x y :: nat
  assumes "y < 2 ^ n"
  shows "push_bit n x OR y = x * 2 ^ n + y"
proof -
  have "take_bit n y = y" using assms by (simp add: take_bit_nat_eq_self_iff)
  then have "push_bit n x AND y = 0"
    by (metis (mono_tags, lifting) bit_and_iff bit_eqI bit_push_bit_iff bit_take_bit_iff bot_nat_0.extremum
        bit_0_eq bot_apply bot_bool_def leD)
  then show ?thesis by (simp add: disjunctive_add_eq_or push_bit_eq_mult)
qed

lemma and_low: "x AND (2 ^ n - 1) = x mod (2 ^ n :: nat)"
  unfolding mask_eq_exp_minus_1 [symmetric] take_bit_eq_mask [symmetric] by (simp add: take_bit_eq_mod)

lemma and_numerals:
  "x AND 0x3F = x mod (64 :: nat)" "x AND 0xFF = x mod (256 :: nat)" "x AND 0xFFFF = x mod (65536 :: nat)"
  using and_low [of x 6] and_low [of x 8] and_low [of x 16] by simp_all

lemma div_mod_window: "b \<le> 8 \<Longrightarrow> (w mod 65536) div 2 ^ b mod 256 = w div 2 ^ b mod (256 :: nat)"
proof -
  assume "b \<le> 8"
  then have "take_bit 8 (drop_bit b (take_bit 16 w)) = take_bit 8 (drop_bit b w)"
    by (intro bit_eqI) (auto simp: bit_simps)
  then show ?thesis by (simp add: take_bit_eq_mod drop_bit_eq_div)
qed

section \<open>What the decoder computes\<close>

lemma value64_Cons: "value64 (s # ss) = s * 64 ^ length ss + value64 ss"
proof (induction ss rule: rev_induct)
  case Nil
  then show ?case by (simp add: value64_def)
next
  case (snoc x xs)
  then show ?case using value64_snoc(2) [of "s # xs" x] by (simp add: algebra_simps)
qed

lemma value64_less: "\<forall>s\<in>set ss. s < 64 \<Longrightarrow> value64 ss < 64 ^ length ss"
  by (metis digits64_value64 mod_less_divisor value64_digits64 zero_less_numeral zero_less_power)

text \<open>The state of the loop after \<open>k\<close> symbols that spell the number \<open>v\<close>.\<close>

definition loop_state :: "nat \<Rightarrow> nat \<Rightarrow> nat \<times> nat \<times> bytes" where
  "loop_state k v = (v mod 65536, 6 * k mod 8, be_bytes (6 * k div 8) (v div 2 ^ (6 * k mod 8)))"

lemma six_bits: "6 * (4 * q + r) mod 8 = 6 * r mod (8 :: nat)" "6 * (4 * q + r) div 8 = 3 * q + 6 * r div (8 :: nat)"
proof -
  have e: "6 * (4 * q + r) = 6 * r + 3 * q * (8 :: nat)" by simp
  show "6 * (4 * q + r) mod 8 = 6 * r mod (8 :: nat)" unfolding e by (rule mod_mult_self1)
  show "6 * (4 * q + r) div 8 = 3 * q + 6 * r div (8 :: nat)" unfolding e by simp
qed

text \<open>How the number of pending bits moves with each symbol.\<close>

lemma bits_step:
  "6 * k mod 8 = 0 \<and> 6 * Suc k mod 8 = 6 \<and> 6 * Suc k div 8 = 6 * k div (8 :: nat)
   \<or> 6 * k mod 8 \<in> {2, 4, 6} \<and> 6 * Suc k mod 8 = 6 * k mod 8 - 2
     \<and> 6 * Suc k div 8 = Suc (6 * k div 8)"
proof -
  obtain q r where k: "k = 4 * q + r" and r: "r < 4"
    by (metis div_mod_decomp mod_less_divisor mult.commute zero_less_numeral)
  from r have "r = 0 \<or> r = 1 \<or> r = 2 \<or> r = 3" by auto
  moreover have "Suc k = 4 * q + Suc r" by (simp add: k)
  ultimately show ?thesis
    unfolding k using six_bits [of q r] six_bits [of q "Suc r"] by auto
qed

lemma loop_step:
  assumes "s < 64" and "loop_state k v = (grp, bits, out)"
  shows "(push_bit 6 grp OR s) AND 0xFFFF = (v * 64 + s) mod 65536"
    and "8 \<le> bits + 6 \<Longrightarrow> loop_state (Suc k) (v * 64 + s) =
      ((v * 64 + s) mod 65536, bits + 6 - 8,
       out @ [char_of (drop_bit (bits + 6 - 8) ((v * 64 + s) mod 65536) AND 0xFF)])"
    and "\<not> 8 \<le> bits + 6 \<Longrightarrow> loop_state (Suc k) (v * 64 + s) = ((v * 64 + s) mod 65536, bits + 6, out)"
proof -
  let ?w = "v * 64 + s"
  from assms(2) have st: "grp = v mod 65536" "bits = 6 * k mod 8" "out = be_bytes (6 * k div 8) (v div 2 ^ bits)"
    by (auto simp: loop_state_def)
  show "(push_bit 6 grp OR s) AND 0xFFFF = ?w mod 65536"
    using assms(1) push_or [of s 6 grp] unfolding and_numerals st(1)
    by (simp add: mod_add_cong mod_mult_left_eq)
  have w6: "?w div 64 = v" using assms(1) by simp
  have even: "bits = 0 \<or> bits = 2 \<or> bits = 4 \<or> bits = 6"
    unfolding st(2) using bits_step [of k] by auto
  {
    assume b: "8 \<le> bits + 6"
    have "6 * Suc k mod 8 = bits + 6 - 8" "6 * Suc k div 8 = Suc (6 * k div 8)"
      using b bits_step [of k] unfolding st(2) by auto
    moreover have "?w div 2 ^ (bits + 6 - 8) div 256 = v div 2 ^ bits"
    proof -
      have "?w div 2 ^ (bits + 6 - 8) div 256 = ?w div (64 * 2 ^ bits)"
        using b even by (auto simp: div_mult2_eq [symmetric])
      then show ?thesis by (simp add: div_mult2_eq w6)
    qed
    moreover have "(?w mod 65536) div 2 ^ (bits + 6 - 8) mod 256 = ?w div 2 ^ (bits + 6 - 8) mod 256"
      using even by (intro div_mod_window) auto
    ultimately show "loop_state (Suc k) ?w = (?w mod 65536, bits + 6 - 8,
        out @ [char_of (drop_bit (bits + 6 - 8) (?w mod 65536) AND 0xFF)])"
      unfolding loop_state_def st(3) and_numerals drop_bit_eq_div by (simp add: char_of_mod_256)
  }
  assume b: "\<not> 8 \<le> bits + 6"
  then have "bits = 0" using even by auto
  moreover from this have "6 * Suc k mod 8 = 6" "6 * Suc k div 8 = 6 * k div 8"
    using bits_step [of k] unfolding st(2) by auto
  ultimately show "loop_state (Suc k) ?w = (?w mod 65536, bits + 6, out)"
    using w6 by (simp add: loop_state_def st(3))
qed

lemma decode_loop_spec:
  "\<forall>s\<in>set ss. s < 64 \<Longrightarrow> loop_state k v = (grp, bits, out) \<Longrightarrow>
     decode_loop a grp bits out (map ((!) (symbols a)) ss) =
       Some (loop_state (k + length ss) (v * 64 ^ length ss + value64 ss))"
proof (induction ss arbitrary: k v grp bits out)
  case Nil
  then show ?case by simp
next
  case (Cons s ss)
  then have s: "s < 64" by simp
  note step = loop_step [OF s Cons.prems(2)]
  have v: "v * 64 ^ length (s # ss) + value64 (s # ss) = (v * 64 + s) * 64 ^ length ss + value64 ss"
    by (simp add: value64_Cons algebra_simps)
  show ?case
  proof (cases "8 \<le> bits + 6")
    case True
    from Cons.IH [OF _ step(2) [OF True]] Cons.prems(1) s True show ?thesis
      unfolding v by (simp add: step(1) Let_def)
  next
    case False
    from Cons.IH [OF _ step(3) [OF False]] Cons.prems(1) s False show ?thesis
      unfolding v by (simp add: step(1) Let_def)
  qed
qed

lemma decode_loop_symbols:
  "decode_loop a grp bits out body = Some r \<Longrightarrow>
     \<exists>ss. (\<forall>s\<in>set ss. s < 64) \<and> body = map ((!) (symbols a)) ss"
proof (induction a grp bits out body rule: decode_loop.induct)
  case (2 a grp bits out symbol body)
  then obtain s where s: "sextet a symbol = Some s" by (auto split: option.splits)
  with 2 have "\<exists>ss. (\<forall>s\<in>set ss. s < 64) \<and> body = map ((!) (symbols a)) ss"
    by (auto simp: Let_def split: if_splits)
  then obtain ss where "\<forall>s\<in>set ss. s < 64" "body = map ((!) (symbols a)) ss" by blast
  with s show ?case by (intro exI [of _ "s # ss"]) (auto simp: sextet_Some_iff)
qed (auto intro: exI [of _ "[]"])

section \<open>What the encoder writes\<close>

text \<open>The zero bits that complete the last sextet, and the padding that completes the last group.\<close>

definition spare :: "nat \<Rightarrow> nat" where
  "spare n = (if n mod 3 = 0 then 0 else if n mod 3 = 1 then 4 else 2)"

definition pad_len :: "nat \<Rightarrow> nat" where
  "pad_len n = (if n mod 3 = 0 then 0 else 3 - n mod 3)"

definition sextets :: "bytes \<Rightarrow> nat list" where
  "sextets bs =
     digits64 ((8 * length bs + spare (length bs)) div 6) (be_nat bs * 2 ^ spare (length bs))"

lemma be_nat_list:
  "be_nat [b] = of_char b" "be_nat [b, c] = of_char b * 256 + of_char c"
  "be_nat [b, c, d] = of_char b * 65536 + of_char c * 256 + of_char d"
  by (simp_all add: be_nat_def)

lemma chunk_group_list:
  "chunk_group [b] = of_char b * 65536"
  "chunk_group [b, c] = of_char b * 65536 + of_char c * 256"
  "chunk_group [b, c, d] = of_char b * 65536 + of_char c * 256 + of_char d"
proof -
  have lt: "of_char x < (256 :: nat)" for x by (rule nat_of_char_less_256)
  have two: "push_bit 16 (of_char b) OR push_bit 8 (of_char c) = of_char b * 65536 + of_char c * (256 :: nat)"
    using push_or [of "push_bit 8 (of_char c)" 16 "of_char b"] lt [of c] by (simp add: push_bit_eq_mult)
  have "of_char b * 65536 + of_char c * (256 :: nat) = push_bit 8 (of_char b * 256 + of_char c)"
    by (simp add: push_bit_eq_mult algebra_simps)
  then have three: "(of_char b * 65536 + of_char c * 256) OR of_char d =
      of_char b * 65536 + of_char c * 256 + (of_char d :: nat)"
    using push_or [of "of_char d" 8 "of_char b * 256 + of_char c"] lt [of d]
    by (simp add: push_bit_eq_mult algebra_simps)
  show "chunk_group [b] = of_char b * 65536"
    by (simp add: chunk_group_def push_bit_eq_mult)
  show "chunk_group [b, c] = of_char b * 65536 + of_char c * 256"
    using two by (simp add: chunk_group_def)
  show "chunk_group [b, c, d] = of_char b * 65536 + of_char c * 256 + of_char d"
    using two three by (simp add: chunk_group_def)
qed

lemma digits64_numeral:
  "digits64 2 v = [v div 64 mod 64, v mod 64]"
  "digits64 3 v = [v div 4096 mod 64, v div 64 mod 64, v mod 64]"
  "digits64 4 v = [v div 262144 mod 64, v div 4096 mod 64, v div 64 mod 64, v mod 64]"
proof -
  have n: "(2 :: nat) = Suc (Suc 0)" "(3 :: nat) = Suc (Suc (Suc 0))" "(4 :: nat) = Suc (Suc (Suc (Suc 0)))"
    by simp_all
  show "digits64 2 v = [v div 64 mod 64, v mod 64]"
    by (subst n) simp
  show "digits64 3 v = [v div 4096 mod 64, v div 64 mod 64, v mod 64]"
    by (subst n) (simp add: div_mult2_eq [symmetric])
  show "digits64 4 v = [v div 262144 mod 64, v div 4096 mod 64, v div 64 mod 64, v mod 64]"
    by (subst n) (simp add: div_mult2_eq [symmetric])
qed

lemma group_shifts:
  fixes x y :: nat
  shows "x * 65536 div 262144 = x * 16 div 64" "x * 65536 div 4096 = x * 16"
    "(x * 65536 + y * 256) div 262144 = (x * 1024 + y * 4) div 4096"
    "(x * 65536 + y * 256) div 4096 = (x * 1024 + y * 4) div 64"
    "(x * 65536 + y * 256) div 64 = x * 1024 + y * 4"
  using div_mult_mult2 [of 4096 "x * 16" 64] div_mult_mult2 [of 4096 "x * 16" 1]
    div_mult_mult2 [of 64 "x * 1024 + y * 4" 4096] div_mult_mult2 [of 64 "x * 1024 + y * 4" 64]
    div_mult_mult2 [of 64 "x * 1024 + y * 4" 1]
  by simp_all

lemma up_to_three:
  assumes "xs \<noteq> []" and "length xs \<le> 3"
  obtains b where "xs = [b]" | b c where "xs = [b, c]" | b c d where "xs = [b, c, d]"
proof (cases xs)
  case (Cons b ys)
  with assms that show thesis
    by (cases ys; cases "tl ys"; cases "tl (tl ys)") auto
qed (use assms in simp)

lemma encode_chunk_sextets:
  assumes "chunk \<noteq> []" and "length chunk \<le> 3"
  shows "encode_chunk a pad chunk =
    map ((!) (symbols a)) (sextets chunk) @ (if pad then replicate (pad_len (length chunk)) (CHR ''='') else [])"
proof -
  have l: "[0..<Suc (Suc 0)] = [0, 1]" "[0..<Suc (Suc (Suc 0))] = [0, 1, 2]"
    "[0..<Suc (Suc (Suc (Suc 0)))] = [0, 1, 2, 3]"
    by (simp_all add: upt_rec)
  from assms show ?thesis
    by (cases rule: up_to_three)
      (simp_all add: encode_chunk_def sextets_def spare_def pad_len_def chunk_group_list be_nat_list
        digits64_numeral and_numerals drop_bit_eq_div group_shifts l del: upt_Suc,
        simp only: mult.commute [of 1024])
qed

lemma spare_exact: "6 * ((8 * n + spare n) div 6) = 8 * n + spare n"
proof -
  have e: "8 * n + spare n = 2 * (4 * (n mod 3) + spare n div 2) + 24 * (n div 3)"
    by (simp add: spare_def) (use mult_div_mod_eq [of 3 n] in linarith)
  have "n mod 3 = 0 \<or> n mod 3 = 1 \<or> n mod 3 = 2" by auto
  then have "6 dvd 2 * (4 * (n mod 3) + spare n div 2)" by (auto simp: spare_def)
  then have "6 dvd 8 * n + spare n" unfolding e by (intro dvd_add) auto
  then show ?thesis by simp
qed

lemma power_spare: "256 ^ n * 2 ^ spare n = (64 :: nat) ^ ((8 * n + spare n) div 6)"
proof -
  have "(64 :: nat) ^ ((8 * n + spare n) div 6) = 2 ^ (6 * ((8 * n + spare n) div 6))"
    by (simp add: power_mult)
  also have "\<dots> = 2 ^ (8 * n) * 2 ^ spare n" by (simp only: spare_exact power_add)
  finally show ?thesis by (simp add: power_mult)
qed

lemma sextets_append:
  assumes "length x = 3"
  shows "sextets (x @ r) = sextets x @ sextets r"
proof -
  define s k where "s = spare (length r)" and "k = (8 * length r + s) div 6"
  have "be_nat (x @ r) * 2 ^ s = be_nat x * 64 ^ k + be_nat r * 2 ^ s"
    using power_spare [of "length r"] unfolding s_def k_def
    by (simp add: be_nat_append add_mult_distrib mult.assoc)
  moreover have "be_nat r * 2 ^ s < 64 ^ k"
    using be_nat_less [of r] power_spare [of "length r"] unfolding s_def k_def
    by (metis mult_less_mono1 zero_less_numeral zero_less_power)
  moreover have "spare (length (x @ r)) = s" "spare (length x) = 0"
    using assms by (simp_all add: spare_def s_def)
  moreover have "(8 * length (x @ r) + s) div 6 = 4 + k"
    using assms by (simp add: k_def)
  ultimately show ?thesis
    using assms digits64_append [of "be_nat r * 2 ^ s" k 4 "be_nat x"]
    by (simp add: sextets_def s_def [symmetric] k_def [symmetric])
qed

lemma encode_sextets:
  "b64_encode bs a pad = map ((!) (symbols a)) (sextets bs) @
     (if pad then replicate (pad_len (length bs)) (CHR ''='') else [])"
proof (induction bs a pad rule: b64_encode.induct)
  case (1 bs a pad)
  consider (nil) "bs = []" | (short) "bs \<noteq> []" "length bs < 3" | (long) "3 \<le> length bs" by force
  then show ?case
  proof cases
    case nil
    then show ?thesis by (simp add: b64_encode.simps sextets_def spare_def pad_len_def)
  next
    case short
    with encode_chunk_sextets [of bs a pad] show ?thesis
      by (simp add: b64_encode.simps [of bs] b64_encode.simps [of "[]"])
  next
    case long
    then have "bs \<noteq> []" "length (take 3 bs) = 3" by auto
    moreover have "pad_len (length bs) = pad_len (length (drop 3 bs))" "pad_len 3 = 0"
      using long by (auto simp: pad_len_def le_mod_geq)
    moreover have "encode_chunk a pad (take 3 bs) = map ((!) (symbols a)) (sextets (take 3 bs))"
      using encode_chunk_sextets [of "take 3 bs" a pad] calculation by (auto split: if_splits)
    ultimately show ?thesis
      using 1 sextets_append [of "take 3 bs" "drop 3 bs"] by (simp add: b64_encode.simps [of bs])
  qed
qed

section \<open>Padding\<close>

lemma body_len:
  assumes "body = [] \<or> last body \<noteq> CHR ''=''"
  shows "(case iter_rposition (\<lambda>b. b \<noteq> CHR ''='') (body @ replicate p (CHR ''='')) of
      None \<Rightarrow> 0 | Some at \<Rightarrow> at + 1) = length body"
proof (cases body rule: rev_cases)
  case Nil
  have "iter_position (\<lambda>b. b \<noteq> CHR ''='') (replicate p (CHR ''='')) = None"
    by (simp add: iter_position_None_iff)
  with Nil show ?thesis by (simp add: iter_rposition_def)
next
  case (snoc xs x)
  with assms have "iter_position (\<lambda>b. b \<noteq> CHR ''='') (replicate p (CHR ''='') @ x # rev xs) = Some p"
    by (subst iter_position_Some_iff) (auto simp: nth_append)
  with snoc show ?thesis by (simp add: iter_rposition_def)
qed

lemma padded_form:
  obtains body p where "input = body @ replicate p (CHR ''='')" and "body = [] \<or> last body \<noteq> CHR ''=''"
proof (induction input arbitrary: thesis rule: rev_induct)
  case Nil
  from Nil [of "[]" 0] show ?case by simp
next
  case (snoc x xs)
  show ?case
  proof (cases "x = CHR ''=''")
    case True
    obtain body p where "xs = body @ replicate p (CHR ''='')" "body = [] \<or> last body \<noteq> CHR ''=''"
      by (rule snoc.IH)
    with True show ?thesis
      by (intro snoc.prems [of body "Suc p"]) (simp_all add: replicate_append_same)
  next
    case False
    then show ?thesis by (intro snoc.prems [of "xs @ [x]" 0]) simp_all
  qed
qed

section \<open>The theorems\<close>

definition pad_allowed :: "padding \<Rightarrow> nat \<Rightarrow> nat \<Rightarrow> bool" where
  "pad_allowed mode canonical p = (case mode of Canonical \<Rightarrow> p = canonical | Indifferent \<Rightarrow> p \<le> canonical)"

lemma decode_symbols:
  assumes "\<forall>s\<in>set ss. s < 64"
  shows "b64_decode (map ((!) (symbols a)) ss @ replicate p (CHR ''='')) a mode =
    (let k = length ss; b = 6 * k mod 8; v = value64 ss in
     if k mod 4 = 1 \<or> \<not> pad_allowed mode (if k mod 4 = 0 then 0 else 4 - k mod 4) p \<or> v mod 2 ^ b \<noteq> 0
     then None else Some (be_bytes (6 * k div 8) (v div 2 ^ b)))"
proof -
  let ?body = "map ((!) (symbols a)) ss"
  have "?body = [] \<or> last ?body \<noteq> CHR ''=''"
  proof (cases ss rule: rev_cases)
    case (snoc xs x)
    with assms have "symbols a ! x \<in> set (symbols a)" by (intro nth_mem) simp
    with snoc pad_not_symbol [of a] show ?thesis by auto
  qed simp
  note bl = body_len [OF this, of p]
  have l: "decode_loop a 0 0 [] ?body = Some (loop_state (length ss) (value64 ss))"
    using decode_loop_spec [OF assms, of 0 0 0 0 "[]" a] by (simp add: loop_state_def)
  have b: "6 * length ss mod 8 \<le> 8" by (simp add: less_imp_le)
  have m: "value64 ss mod 65536 AND (2 ^ (6 * length ss mod 8) - Suc 0) =
      value64 ss mod 2 ^ (6 * length ss mod 8)"
  proof -
    have "(2 :: nat) ^ (6 * length ss mod 8) dvd 2 ^ 16"
      by (intro le_imp_power_dvd) (use b in linarith)
    then show ?thesis
      using and_low [of "value64 ss mod 65536" "6 * length ss mod 8"]
      by (simp add: push_bit_eq_mult mod_mod_cancel)
  qed
  show ?thesis
    unfolding b64_decode_def bl Let_def
    by (cases mode) (simp_all add: l loop_state_def m pad_allowed_def)
qed

lemma count_cases:
  "k mod 4 \<noteq> 1 \<Longrightarrow> spare (6 * k div 8) = 6 * k mod 8"
  "k mod 4 \<noteq> 1 \<Longrightarrow> pad_len (6 * k div 8) = (if k mod 4 = 0 then 0 else 4 - k mod 4)"
proof -
  obtain q r where k: "k = 4 * q + r" and r: "r < 4"
    by (metis div_mod_decomp mod_less_divisor mult.commute zero_less_numeral)
  have m: "k mod 4 = r" using k r by simp
  have "r = 0 \<or> r = 2 \<or> r = 3" if "k mod 4 \<noteq> 1" using that r unfolding m by auto
  then show "k mod 4 \<noteq> 1 \<Longrightarrow> spare (6 * k div 8) = 6 * k mod 8"
    "k mod 4 \<noteq> 1 \<Longrightarrow> pad_len (6 * k div 8) = (if k mod 4 = 0 then 0 else 4 - k mod 4)"
    unfolding m unfolding k six_bits by (auto simp: spare_def pad_len_def mod_add_left_eq [symmetric])
qed

text \<open>The number of symbols of an encoding, read from the number of bytes.\<close>

lemma symbol_count:
  defines "k \<equiv> \<lambda>n. (8 * n + spare n) div 6"
  shows "6 * k n div 8 = n" "6 * k n mod 8 = spare n" "k n mod 4 \<noteq> 1"
proof -
  have e: "6 * k n = 8 * n + spare n" unfolding k_def by (rule spare_exact)
  have s: "spare n < 8" by (simp add: spare_def)
  show "6 * k n div 8 = n" unfolding e using s by simp
  show b: "6 * k n mod 8 = spare n" unfolding e using s by simp
  show "k n mod 4 \<noteq> 1"
  proof
    assume "k n mod 4 = 1"
    then have "k n = 4 * (k n div 4) + 1"
      using mult_div_mod_eq [of 4 "k n"] by simp
    then have "6 * k n mod 8 = 6 * 1 mod 8"
      by (rule ssubst [of "k n" _ "\<lambda>x. 6 * x mod 8 = 6 * 1 mod 8"]) (rule six_bits(1))
    with b show False by (simp add: spare_def split: if_splits)
  qed
qed

lemma sextets_less: "s \<in> set (sextets bs) \<Longrightarrow> s < 64"
  by (simp add: sextets_def digits64_less)

lemma value64_sextets: "value64 (sextets bs) = be_nat bs * 2 ^ spare (length bs)"
proof -
  have "be_nat bs * 2 ^ spare (length bs) < 64 ^ ((8 * length bs + spare (length bs)) div 6)"
    using be_nat_less [of bs] power_spare [of "length bs"]
    by (metis mult_less_mono1 zero_less_numeral zero_less_power)
  then show ?thesis by (simp add: sextets_def value64_digits64)
qed

lemma decode_sextets:
  "b64_decode (map ((!) (symbols a)) (sextets bs) @ replicate p (CHR ''='')) a mode =
     (if pad_allowed mode (pad_len (length bs)) p then Some bs else None)"
proof -
  have l: "length (sextets bs) = (8 * length bs + spare (length bs)) div 6" by (simp add: sextets_def)
  note c = symbol_count [of "length bs", folded l]
  show ?thesis
    using decode_symbols [of "sextets bs" a p mode] sextets_less count_cases(2) [OF c(3)] c
    by (simp add: Let_def value64_sextets be_bytes_be_nat)
qed

lemma decode_sound:
  assumes "b64_decode input a mode = Some bs"
  shows "\<exists>p. pad_allowed mode (pad_len (length bs)) p
    \<and> input = map ((!) (symbols a)) (sextets bs) @ replicate p (CHR ''='')"
proof -
  obtain body p where i: "input = body @ replicate p (CHR ''='')" "body = [] \<or> last body \<noteq> CHR ''=''"
    by (rule padded_form)
  note bl = body_len [OF i(2), of p]
  have "decode_loop a 0 0 [] body \<noteq> None"
    using assms unfolding b64_decode_def i(1) bl Let_def by (auto split: if_splits option.splits)
  then obtain ss where ss: "\<forall>s\<in>set ss. s < 64" "body = map ((!) (symbols a)) ss"
    using decode_loop_symbols by blast
  define k b v where "k = length ss" and "b = 6 * k mod 8" and "v = value64 ss"
  from assms decode_symbols [OF ss(1), of a p mode]
  have k: "k mod 4 \<noteq> 1" and p: "pad_allowed mode (if k mod 4 = 0 then 0 else 4 - k mod 4) p"
    and v: "v mod 2 ^ b = 0" and bs: "bs = be_bytes (6 * k div 8) (v div 2 ^ b)"
    unfolding i(1) ss(2) k_def b_def v_def by (auto simp: Let_def split: if_splits)
  have n: "length bs = 6 * k div 8" by (simp add: bs)
  have s: "spare (length bs) = b" unfolding n b_def by (rule count_cases(1) [OF k])
  have k6: "8 * length bs + b = 6 * k" unfolding n b_def by (rule mult_div_mod_eq)
  have "v < 64 ^ k" using value64_less [OF ss(1)] by (simp add: v_def k_def)
  also have "64 ^ k = (256 :: nat) ^ length bs * 2 ^ b"
    using power_spare [of "length bs"] unfolding s k6 by simp
  finally have "v div 2 ^ b < 256 ^ length bs" by (simp add: less_mult_imp_div_less)
  then have "be_nat bs * 2 ^ b = v"
    using v unfolding n by (simp add: bs be_nat_be_bytes mod_eq_0_iff_dvd)
  then have "sextets bs = digits64 k v" unfolding sextets_def s k6 by simp
  also have "\<dots> = ss" using digits64_value64 [OF ss(1)] by (simp add: k_def v_def)
  finally show ?thesis
    using i(1) ss(2) p count_cases(2) [OF k] n by auto
qed

text \<open>
  Base64 texts and byte strings correspond one to one: the strict decoder returns some
  bytes for a text exactly when the text is their canonically padded encoding, and the
  padding-indifferent decoder exactly when it is their unpadded encoding followed by at most the
  canonical padding. No other text is accepted, in either alphabet.
\<close>

theorem base64_exact:
  "(b64_decode t a Canonical = Some bs \<longleftrightarrow> t = b64_encode bs a True) \<and>
   (b64_decode t a Indifferent = Some bs \<longleftrightarrow>
      (\<exists>p. length (b64_encode bs a False) + p \<le> length (b64_encode bs a True)
         \<and> t = b64_encode bs a False @ replicate p (CHR ''='')))"
proof (intro conjI iffI)
  assume "b64_decode t a Canonical = Some bs"
  from decode_sound [OF this] show "t = b64_encode bs a True"
    by (auto simp: encode_sextets pad_allowed_def)
next
  assume "b64_decode t a Indifferent = Some bs"
  from decode_sound [OF this]
  show "\<exists>p. length (b64_encode bs a False) + p \<le> length (b64_encode bs a True)
      \<and> t = b64_encode bs a False @ replicate p (CHR ''='')"
    by (auto simp: encode_sextets pad_allowed_def)
qed (auto simp: encode_sextets decode_sextets pad_allowed_def)

end
