(* ===== verification/Sse_Split.thy ===== *)
theory Sse_Split
  imports Sse_Frames
begin

text \<open>
  The event splitter a component links, \<open>crates/south-component-conformance/src/sse_split.rs\<close>.
  It reads a line that ends in CR at once and drops an LF that follows, where the host's decoder
  waits for the next byte. Both are shown to cut the same events, whatever the chunking, on every
  input within the splitter's bound.
\<close>

section \<open>The code\<close>

definition MAX_SSE_SPLIT_BYTES :: nat where
  "MAX_SSE_SPLIT_BYTES = 16 * 1024 * 1024"

text \<open>\<open>SseFrameV1\<close> has the two fields of the decoder's event.\<close>

type_synonym sse_split_frame = sse_event

datatype sse_split_error = SplitNotUtf8 | SplitTooLarge

text \<open>\<open>SsePushV1\<close>: the events a push completed, and the refusal that stopped it.\<close>

record sse_push_result =
  push_frames :: "sse_split_frame list"
  push_error :: "sse_split_error option"

definition into_result :: "sse_push_result \<Rightarrow> (sse_split_frame list, sse_split_error) result" where
  "into_result p = (case push_error p of Some e \<Rightarrow> Err e | None \<Rightarrow> Ok (push_frames p))"

record sse_splitter =
  tail :: bytes
  bom_settled :: bool
  after_cr :: bool
  sp_event :: string
  sp_data :: string
  has_data :: bool

definition splitter_new :: sse_splitter where
  "splitter_new = \<lparr>tail = [], bom_settled = False, after_cr = False, sp_event = [], sp_data = [],
     has_data = False\<rparr>"

definition is_idle :: "sse_splitter \<Rightarrow> bool" where
  "is_idle s \<longleftrightarrow> tail s = [] \<and> \<not> has_data s \<and> sp_event s = []"

text \<open>\<open>SseSplitterV1::line\<close>: one line, without its terminator.\<close>

definition split_line ::
  "sse_splitter \<Rightarrow> string \<Rightarrow> sse_splitter \<times> (sse_split_frame option, sse_split_error) result" where
  "split_line s line =
     (if line = [] then
        let event = sp_event s; s = s\<lparr>sp_event := []\<rparr> in
        if \<not> has_data s then (s\<lparr>has_data := False\<rparr>, Ok None)
        else
          let data = sp_data s; s = s\<lparr>has_data := False, sp_data := []\<rparr>;
              event = (if event = [] then ''message'' else event)
          in (s, Ok (Some \<lparr>sse_event_type = event, sse_event_data = data\<rparr>))
      else if starts_with '':'' line then (s, Ok None)
      else
        let (field, value) =
              (case split_once (CHR '':'') line of
                 None \<Rightarrow> (line, [])
               | Some (field, value) \<Rightarrow>
                   (field, case strip_prefix '' '' value of Some v \<Rightarrow> v | None \<Rightarrow> value))
        in
        if field = ''event'' then (s\<lparr>sp_event := value\<rparr>, Ok None)
        else if field = ''data'' then
          let s = (if has_data s then s\<lparr>sp_data := sp_data s @ [LF]\<rparr> else s);
              s = s\<lparr>sp_data := sp_data s @ value, has_data := True\<rparr>
          in if MAX_SSE_SPLIT_BYTES < length (sp_data s) then (s, Err SplitTooLarge)
             else (s, Ok None)
        else (s, Ok None))"

lemma split_line_tail: "split_line s line = (s', r) \<Longrightarrow> tail s' = tail s"
  by (auto simp: split_line_def Let_def split: if_splits prod.splits)

text \<open>
  The \<open>while\<close> loop of \<open>push_into\<close>, from position \<open>start\<close> of the tail with the frames pushed
  so far; it ends with the position to drain to, or with a refusal.
\<close>

function split_loop ::
  "sse_splitter \<Rightarrow> nat \<Rightarrow> sse_split_frame list
     \<Rightarrow> sse_splitter \<times> sse_split_frame list \<times> (nat, sse_split_error) result" where
  "split_loop s start frames =
     (case iter_position is_terminator (drop start (tail s)) of
        None \<Rightarrow> (s, frames, Ok start)
      | Some offset \<Rightarrow>
          (let end = start + offset; line = take (end - start) (drop start (tail s)) in
           if \<not> utf8_valid line then (s, frames, Err SplitNotUtf8)
           else
             let term = tail s ! end;
                 next = slice_get (tail s) (end + 1);
                 start' = (if term = CR \<and> next = Some LF then end + 2 else end + 1);
                 s' = (if term = CR \<and> next = None then s\<lparr>after_cr := True\<rparr> else s)
             in
             (case split_line s' line of
                (s'', Err e) \<Rightarrow> (s'', frames, Err e)
              | (s'', Ok None) \<Rightarrow> split_loop s'' start' frames
              | (s'', Ok (Some frame)) \<Rightarrow>
                  split_loop s'' start' (frames @ [frame]))))"
  by pat_completeness auto
termination
  by (relation "measure (\<lambda>(s, start, frames). length (tail s) - start)")
    (auto dest!: iter_position_less split_line_tail [OF sym] split: if_splits)

declare split_loop.simps [simp del]

definition push_into ::
  "sse_splitter \<Rightarrow> bytes \<Rightarrow> sse_splitter \<times> sse_split_frame list \<times> (unit, sse_split_error) result" where
  "push_into s chunk =
     (let chunk' = (if after_cr s \<and> chunk \<noteq> [] \<and> hd chunk = LF then tl chunk else chunk);
          s = (if after_cr s \<and> chunk \<noteq> [] then s\<lparr>after_cr := False\<rparr> else s);
          s = s\<lparr>tail := tail s @ chunk'\<rparr>
      in
      if \<not> bom_settled s \<and> length (tail s) < length BOM \<and> starts_with (tail s) BOM
      then (s, [], Ok ())
      else
        let s = (if bom_settled s then s
                 else if starts_with BOM (tail s)
                   then s\<lparr>tail := drop (length BOM) (tail s), bom_settled := True\<rparr>
                   else s\<lparr>bom_settled := True\<rparr>)
        in
        (case split_loop s 0 [] of
           (s, frames, Err e) \<Rightarrow> (s, frames, Err e)
         | (s, frames, Ok start) \<Rightarrow>
             (let s = s\<lparr>tail := drop start (tail s)\<rparr> in
              if MAX_SSE_SPLIT_BYTES < length (tail s) then (s, frames, Err SplitTooLarge)
              else (s, frames, Ok ()))))"

definition split_push :: "sse_splitter \<Rightarrow> bytes \<Rightarrow> sse_splitter \<times> sse_push_result" where
  "split_push s chunk =
     (case push_into s chunk of
        (s', frames, r) \<Rightarrow>
          (s', \<lparr>push_frames = frames, push_error = (case r of Ok _ \<Rightarrow> None | Err e \<Rightarrow> Some e)\<rparr>))"

definition split_finish ::
  "sse_splitter \<Rightarrow> sse_splitter \<times> (sse_split_frame option, sse_split_error) result" where
  "split_finish s =
     (let s = s\<lparr>bom_settled := True, after_cr := False\<rparr> in
      if tail s = [] then split_line s []
      else
        let line = tail s; s = s\<lparr>tail := []\<rparr> in
        if \<not> utf8_valid line then (s, Err SplitNotUtf8)
        else
          (case split_line s line of
             (s, Err e) \<Rightarrow> (s, Err e)
           | (s, Ok _) \<Rightarrow> split_line s []))"

section \<open>Events line by line\<close>

text \<open>
  The events of a byte string and the first error, without any bound on their number: what both
  the decoder's whole-body function and the splitter are compared with.
\<close>

definition opt_list :: "'a option \<Rightarrow> 'a list" where
  "opt_list x = (case x of None \<Rightarrow> [] | Some a \<Rightarrow> [a])"

definition line_end :: "bytes \<Rightarrow> nat \<Rightarrow> nat" where
  "line_end rest i =
     (if slice_get rest i = Some CR \<and> slice_get rest (i + 1) = Some LF then i + 2 else i + 1)"

function read_lines :: "event_builder \<Rightarrow> bytes \<Rightarrow> sse_event list \<times> sse_error option" where
  "read_lines b rest =
     (case terminator rest of
        Some i \<Rightarrow>
          (case builder_line b (take i rest) of
             (b', Err e) \<Rightarrow> ([], Some e)
           | (b', Ok ev) \<Rightarrow>
               (let (evs, e) = read_lines b' (drop (line_end rest i) rest) in (opt_list ev @ evs, e)))
      | None \<Rightarrow>
          (case if rest = [] then (b, Ok None) else builder_line b rest of
             (b', Err e) \<Rightarrow> ([], Some e)
           | (b', Ok ev) \<Rightarrow> (opt_list ev @ opt_list (snd (dispatch b')), None)))"
  by pat_completeness auto
termination
  by (relation "measure (\<lambda>(b, rest). length rest)")
    (auto simp: terminator_def iter_position_Some_iff line_end_def)

declare read_lines.simps [simp del]

lemma push_opt_list:
  "push_opt events ev = (if MAX_SSE_EVENTS < length (events @ opt_list ev) \<and> ev \<noteq> None
     \<and> length events = MAX_SSE_EVENTS then Err TooManyEvents else Ok (events @ opt_list ev))"
  by (auto simp: push_opt_def push_bounded_def opt_list_def split: option.splits)

text \<open>The whole-body function is this reading with the number of events bounded.\<close>

lemma decode_lines_read:
  "length events \<le> MAX_SSE_EVENTS \<Longrightarrow> decode_lines b events rest =
     (case read_lines b rest of (evs, err) \<Rightarrow>
        if MAX_SSE_EVENTS < length (events @ evs) then Err TooManyEvents
        else case err of None \<Rightarrow> Ok (events @ evs) | Some e \<Rightarrow> Err e)"
proof (induction "length rest" arbitrary: b events rest rule: less_induct)
  case less
  show ?case
  proof (cases "terminator rest")
    case None
    then show ?thesis
      using less.prems
      by (subst decode_lines.simps, subst read_lines.simps)
        (auto simp: push_opt_def push_bounded_def opt_list_def split: result.splits option.splits
          prod.splits if_splits)
  next
    case (Some i)
    obtain b' r where bl: "builder_line b (take i rest) = (b', r)" by fastforce
    have i: "i < length rest" using Some by (simp add: terminator_def iter_position_Some_iff)
    then have l: "length (drop (line_end rest i) rest) < length rest" by (auto simp: line_end_def)
    have n: "i + 1 + (if slice_get rest i = Some CR \<and> slice_get rest (i + 1) = Some LF then 1 else 0) =
        line_end rest i"
      by (simp add: line_end_def)
    note IH = less.hyps [OF l]
    show ?thesis
    proof (cases r)
      case (Err e)
      with Some bl less.prems show ?thesis
        by (simp add: decode_lines.simps [of b events rest] read_lines.simps [of b rest])
    next
      case (Ok ev)
      with Some bl n have d: "decode_lines b events rest = and_then (push_opt events ev)
          (\<lambda>events'. decode_lines b' events' (drop (line_end rest i) rest))"
        by (simp add: decode_lines.simps [of b events rest] Let_def)
      show ?thesis
        unfolding d using Some bl Ok less.prems IH [of "events @ opt_list ev" b']
        by (auto simp: read_lines.simps [of b rest] push_opt_def push_bounded_def opt_list_def
            split: option.splits prod.splits if_splits)
    qed
  qed
qed

section \<open>The splitter follows the decoder's line interpreter\<close>

definition line_state :: "sse_splitter \<Rightarrow> event_builder" where
  "line_state s = \<lparr>at_stream_start = False, event_type = sp_event s,
     builder_data = (if has_data s then sp_data s @ [LF] else [])\<rparr>"

definition data_inv :: "sse_splitter \<Rightarrow> bool" where
  "data_inv s \<longleftrightarrow> has_data s \<or> sp_data s = []"

definition held :: "sse_splitter \<Rightarrow> nat" where
  "held s = length (sp_event s) + length (builder_data (line_state s))"

lemmas split_bounds = MAX_SSE_SPLIT_BYTES_def MAX_SSE_LINE_BYTES_def MAX_SSE_EVENT_BYTES_def

lemma line_field_length: "line_field l = (f, v) \<Longrightarrow> length v \<le> length l \<and> (f = ''data'' \<longrightarrow> length v + 4 \<le> length l)"
  by (auto simp: line_field_def split_once_Some_iff strip_prefix_Some_iff split: option.splits)

lemma split_line_simulates:
  assumes "data_inv s" and "utf8_valid l" and "held s + length l \<le> MAX_SSE_SPLIT_BYTES"
  obtains s' ev where "split_line s l = (s', Ok ev)"
    and "builder_line (line_state s) l = (line_state s', Ok ev)" and "data_inv s'"
    and "held s' \<le> held s + length l"
    and "tail s' = tail s" "bom_settled s' = bom_settled s" "after_cr s' = after_cr s"
proof (cases "l = []")
  case True
  then show thesis
    using that assms
    by (auto simp: split_line_def builder_line_def line_state_def dispatch_def data_inv_def held_def
        Let_def DEFAULT_SSE_EVENT_TYPE_def split_bounds split: if_splits)
next
  case ne: False
  have len: "\<not> MAX_SSE_LINE_BYTES < length l" using assms(3) by (simp add: split_bounds)
  have room: "held s + length l \<le> MAX_SSE_EVENT_BYTES" using assms(3) by (simp add: split_bounds)
  show thesis
  proof (cases "starts_with '':'' l")
    case True
    with ne len assms that [of s None] show thesis
      by (simp add: split_line_def builder_line_def line_state_def Let_def)
  next
    case False
    obtain f v where fv: "line_field l = (f, v)" by fastforce
    have vl: "length v \<le> length l" "f = ''data'' \<Longrightarrow> length v + 4 \<le> length l"
      using line_field_length [OF fv] by auto
    have bl: "builder_line (line_state s) l = apply_field (line_state s) f v"
      using ne False len assms(2) fv by (simp add: builder_line_def line_state_def Let_def)
    have sl: "split_line s l =
       (if f = ''event'' then (s\<lparr>sp_event := v\<rparr>, Ok None)
        else if f = ''data'' then
          let s = (if has_data s then s\<lparr>sp_data := sp_data s @ [LF]\<rparr> else s);
              s = s\<lparr>sp_data := sp_data s @ v, has_data := True\<rparr>
          in if MAX_SSE_SPLIT_BYTES < length (sp_data s) then (s, Err SplitTooLarge)
             else (s, Ok None)
        else (s, Ok None))"
      using ne False fv by (simp add: split_line_def line_field_def Let_def split: option.splits prod.splits)
    consider "f = ''event''" | "f = ''data''" | "f \<noteq> ''event''" "f \<noteq> ''data''" by blast
    then show thesis
    proof cases
      case 1
      let ?s = "s\<lparr>sp_event := v\<rparr>"
      have "builder_line (line_state s) l = (line_state ?s, Ok None)"
        using 1 bl vl room by (simp add: apply_field_def line_state_def event_sums held_def split: if_splits)
      with that [of ?s None] 1 sl vl assms(1) show thesis
        by (simp add: line_state_def held_def data_inv_def)
    next
      case 2
      let ?s = "s\<lparr>sp_data := (if has_data s then sp_data s @ [LF] else sp_data s) @ v, has_data := True\<rparr>"
      from 2 sl vl assms(1,3) have "split_line s l = (?s, Ok None)"
        by (auto simp: Let_def held_def line_state_def data_inv_def)
      moreover have "builder_line (line_state s) l = (line_state ?s, Ok None)"
        using 2 bl vl room assms(1)
        by (auto simp: apply_field_def line_state_def event_sums held_def data_inv_def Let_def)
      ultimately show thesis
        using that [of ?s None] 2 vl assms(1) by (auto simp: data_inv_def held_def line_state_def)
    next
      case 3
      with that [of s None] bl sl assms(1) show thesis
        by (simp add: apply_field_def)
    qed
  qed
qed

lemma builder_line_invalid:
  "\<not> utf8_valid l \<Longrightarrow> length l \<le> MAX_SSE_LINE_BYTES \<Longrightarrow>
     builder_line (line_state s) l = (line_state s, Err NotUtf8)"
  by (simp add: builder_line_def line_state_def Let_def)

section \<open>Pushing\<close>

definition skip_lf :: "bytes \<Rightarrow> bytes" where
  "skip_lf r = (if r \<noteq> [] \<and> hd r = LF then tl r else r)"

text \<open>What the rest of the input means to a splitter: its tail, then the bytes still to come.\<close>

definition to_come :: "sse_splitter \<Rightarrow> bytes \<Rightarrow> bytes" where
  "to_come s r = tail s @ (if after_cr s then skip_lf r else r)"

definition prepend :: "'a list \<Rightarrow> 'a list \<times> 'e option \<Rightarrow> 'a list \<times> 'e option" where
  "prepend fs r = (fs @ fst r, snd r)"

lemma prepend_simps [simp]: "prepend [] r = r" "prepend fs (prepend gs r) = prepend (fs @ gs) r"
  by (simp_all add: prepend_def)

lemma read_lines_terminated:
  assumes "terminator u = Some i"
  shows "read_lines b (u @ r) =
    (case builder_line b (take i u) of
       (b', Err e) \<Rightarrow> ([], Some e)
     | (b', Ok ev) \<Rightarrow> prepend (opt_list ev) (read_lines b'
         (if u ! i = CR \<and> i + 1 = length u then skip_lf r else drop (line_end u i) u @ r)))"
proof -
  have i: "i < length u" using assms by (simp add: terminator_def iter_position_Some_iff)
  have t: "terminator (u @ r) = Some i"
    using assms by (simp add: terminator_def iter_position_append)
  have "drop (line_end (u @ r) i) (u @ r) =
      (if u ! i = CR \<and> i + 1 = length u then skip_lf r else drop (line_end u i) u @ r)"
    using i by (cases r) (auto simp: line_end_def slice_get_def skip_lf_def nth_append)
  then show ?thesis
    using t i by (auto simp: read_lines.simps [of b "u @ r"] prepend_def split: prod.splits result.splits)
qed

text \<open>
  What a run of the loop from \<open>start\<close> does: it hands out the events of the complete lines, and
  what is left means the same to the line interpreter as the whole.
\<close>

definition loop_reads ::
  "sse_splitter \<Rightarrow> bytes \<Rightarrow> bytes \<Rightarrow> sse_splitter \<Rightarrow> sse_event list \<Rightarrow> (nat, sse_split_error) result \<Rightarrow> bool" where
  "loop_reads s u r s' fs res \<longleftrightarrow>
     (case res of
        Err e \<Rightarrow> e = SplitNotUtf8 \<and> read_lines (line_state s) (u @ r) = (fs, Some NotUtf8)
      | Ok st \<Rightarrow>
          (let v = drop st (tail s) in
           data_inv s' \<and> tail s' = tail s \<and> bom_settled s' = bom_settled s \<and> terminator v = None
           \<and> (after_cr s' \<longrightarrow> v = [])
           \<and> held s' + length v \<le> held s + length u
           \<and> read_lines (line_state s) (u @ r) =
               prepend fs (read_lines (line_state s') (v @ (if after_cr s' then skip_lf r else r)))))"

lemma split_loop_step:
  assumes "iter_position is_terminator (drop start (tail s)) = Some i"
    and "utf8_valid (take i (drop start (tail s)))"
    and "split_line (if tail s ! (start + i) = CR \<and> slice_get (tail s) (start + i + 1) = None
           then s\<lparr>after_cr := True\<rparr> else s) (take i (drop start (tail s))) = (s2, Ok ev)"
  shows "split_loop s start frames = split_loop s2
    (if tail s ! (start + i) = CR \<and> slice_get (tail s) (start + i + 1) = Some LF then start + i + 2
     else start + i + 1) (frames @ opt_list ev)"
  using assms by (cases ev) (simp_all add: split_loop.simps [of s start] Let_def opt_list_def)

lemma split_loop_reads:
  assumes "data_inv s" and "\<not> after_cr s" and "held s + length (drop start (tail s)) + length r \<le> MAX_SSE_SPLIT_BYTES"
    and "split_loop s start frames = (s', frames', res)"
  shows "\<exists>fs. frames' = frames @ fs \<and> loop_reads s (drop start (tail s)) r s' fs res"
  using assms
proof (induction "length (tail s) - start" arbitrary: s start frames rule: less_induct)
  case less
  define u where "u = drop start (tail s)"
  show ?case
  proof (cases "iter_position is_terminator u")
    case None
    with less.prems show ?thesis
      by (auto simp: split_loop.simps [of s start] u_def loop_reads_def Let_def terminator_def)
  next
    case (Some i)
    have t: "terminator u = Some i" using Some by (simp add: terminator_def)
    have i: "i < length u" using Some by (rule iter_position_less)
    define l where "l = take i u"
    have ll: "held s + length l + length (drop i u) + length r \<le> MAX_SSE_SPLIT_BYTES"
      using less.prems(3) i by (simp add: l_def u_def)
    note rl = read_lines_terminated [OF t, of "line_state s" r, folded l_def]
    have u_nth: "tail s ! (start + i) = u ! i" "slice_get (tail s) (start + i + 1) = slice_get u (i + 1)"
      using i by (auto simp: u_def slice_get_def)
    show ?thesis
    proof (cases "utf8_valid l")
      case False
      with Some less.prems(4) have "(s', frames', res) = (s, frames, Err SplitNotUtf8)"
        by (simp add: split_loop.simps [of s start] u_def l_def Let_def)
      moreover have "builder_line (line_state s) l = (line_state s, Err NotUtf8)"
        using False ll by (intro builder_line_invalid) (simp_all add: split_bounds)
      ultimately show ?thesis
        using rl by (simp add: loop_reads_def u_def)
    next
      case True
      define s1 where "s1 = (if u ! i = CR \<and> slice_get u (i + 1) = None then s\<lparr>after_cr := True\<rparr> else s)"
      have s1: "data_inv s1" "line_state s1 = line_state s" "held s1 = held s" "tail s1 = tail s"
        "bom_settled s1 = bom_settled s" "after_cr s1 \<longleftrightarrow> u ! i = CR \<and> slice_get u (i + 1) = None"
        using less.prems(1,2) by (auto simp: s1_def data_inv_def line_state_def held_def)
      from s1(1) True obtain s2 ev where sl: "split_line s1 l = (s2, Ok ev)"
        and bl: "builder_line (line_state s) l = (line_state s2, Ok ev)" and s2: "data_inv s2"
        "held s2 \<le> held s + length l" "tail s2 = tail s" "bom_settled s2 = bom_settled s"
        "after_cr s2 = after_cr s1"
        by (rule split_line_simulates [of s1 l]) (use s1 ll in auto)
      define st where "st = start + line_end u i"
      have dr: "drop st (tail s) = drop (line_end u i) u" by (simp add: st_def u_def add.commute)
      have "st = (if u ! i = CR \<and> slice_get u (i + 1) = Some LF then start + i + 2 else start + i + 1)"
        using i by (simp add: st_def line_end_def slice_get_def)
      then have step: "split_loop s start frames = split_loop s2 st (frames @ opt_list ev)"
        using split_loop_step [of start s i s2 ev frames] Some True sl
        unfolding u_def [symmetric] l_def [symmetric] u_nth s1_def [symmetric] by simp
      show ?thesis
      proof (cases "u ! i = CR \<and> i + 1 = length u")
        case cr: True
        then have a: "after_cr s2" using s1(6) s2(5) by (simp add: slice_get_def)
        have e: "drop st (tail s) = []" using cr dr by (auto simp: line_end_def)
        with s2(3) have "split_loop s2 st (frames @ opt_list ev) = (s2, frames @ opt_list ev, Ok st)"
          by (subst split_loop.simps) simp
        with step less.prems(4) have r: "s' = s2" "frames' = frames @ opt_list ev" "res = Ok st" by auto
        show ?thesis
          using cr a e s2 rl bl i unfolding r u_def [symmetric]
          by (intro exI [of _ "opt_list ev"]) (simp add: loop_reads_def Let_def l_def terminator_def)
      next
        case ncr: False
        then have na: "\<not> after_cr s2" using s1(6) s2(5) i by (auto simp: slice_get_def)
        have le: "line_end u i \<le> length u" "i < line_end u i"
          using i by (auto simp: line_end_def slice_get_def split: if_splits)
        have "length (tail s2) - st < length (tail s) - start"
          using le i s2(3) by (auto simp: st_def u_def)
        moreover have "held s2 + length (drop st (tail s2)) + length r \<le> MAX_SSE_SPLIT_BYTES"
          using s2(2,3) ll dr le by simp
        moreover have "split_loop s2 st (frames @ opt_list ev) = (s', frames', res)"
          using step less.prems(4) by simp
        ultimately obtain fs where f: "frames' = (frames @ opt_list ev) @ fs"
          and lr: "loop_reads s2 (drop st (tail s2)) r s' fs res"
          using less.hyps [of s2 st "frames @ opt_list ev"] s2(1) na by blast
        have "loop_reads s u r s' (opt_list ev @ fs) res"
          using lr ncr rl bl s2 le i unfolding loop_reads_def s2(3) dr
          by (auto simp: Let_def prepend_def l_def split: result.splits)
        with f show ?thesis by (auto simp: u_def)
      qed
    qed
  qed
qed

subsection \<open>The byte order mark\<close>

abbreviation started :: event_builder where
  "started \<equiv> line_state splitter_new"

lemma builder_line_new:
  "length l \<le> MAX_SSE_LINE_BYTES \<Longrightarrow>
     builder_line builder_new l = builder_line started (case strip_prefix BOM l of Some y \<Rightarrow> y | None \<Rightarrow> l)"
  by (auto simp: builder_line_def builder_new_def line_state_def splitter_new_def Let_def
      strip_prefix_Some_iff split: option.splits)

lemma terminator_BOM: "terminator (BOM @ y) = map_option (\<lambda>i. i + 3) (terminator y)"
  by (cases "terminator y") (simp_all add: terminator_def BOM_def is_terminator_def)

lemma line_end_BOM: "line_end (BOM @ y) (i + 3) = line_end y i + 3"
  by (simp add: line_end_def slice_get_def BOM_def)

lemma builder_line_BOM:
  "length l + 3 \<le> MAX_SSE_LINE_BYTES \<Longrightarrow> builder_line builder_new (BOM @ l) = builder_line started l"
  by (simp add: builder_line_new BOM_def)

lemma read_lines_BOM:
  assumes "length (BOM @ y) \<le> MAX_SSE_SPLIT_BYTES"
  shows "read_lines builder_new (BOM @ y) = read_lines started y"
proof (cases "terminator y")
  case None
  have "builder_line builder_new (BOM @ y) = builder_line started y"
    using assms by (intro builder_line_BOM) (simp add: split_bounds BOM_def)
  moreover have "builder_line started [] = (started, Ok None)" "snd (dispatch started) = None"
    by (simp_all add: builder_line_def line_state_def splitter_new_def dispatch_def)
  moreover have "BOM @ y \<noteq> []" by (simp add: BOM_def)
  ultimately show ?thesis
    using None unfolding read_lines.simps [of _ "BOM @ y"] read_lines.simps [of _ y] terminator_BOM
    by (cases "y = []") (simp_all add: opt_list_def)
next
  case (Some i)
  then have i: "i < length y" by (simp add: terminator_def iter_position_Some_iff)
  have "take (i + 3) (BOM @ y) = BOM @ take i y" "drop (line_end y i + 3) (BOM @ y) = drop (line_end y i) y"
    by (simp_all add: BOM_def numeral_3_eq_3)
  moreover have "builder_line builder_new (BOM @ take i y) = builder_line started (take i y)"
    using assms i by (intro builder_line_BOM) (simp add: split_bounds BOM_def)
  ultimately show ?thesis
    using Some by (simp add: read_lines.simps [of _ "BOM @ y"] read_lines.simps [of _ y] terminator_BOM
        line_end_BOM)
qed

lemma read_lines_no_BOM:
  assumes "\<not> starts_with BOM x" and "length x \<le> MAX_SSE_SPLIT_BYTES"
  shows "read_lines builder_new x = read_lines started x"
proof -
  have b: "builder_line builder_new (take i x) = builder_line started (take i x)" for i
    using assms(2) strip_BOM_take [OF assms(1), of i] by (subst builder_line_new) (simp_all add: split_bounds)
  have "snd (dispatch builder_new) = snd (dispatch started)"
    by (simp add: dispatch_def builder_new_def line_state_def splitter_new_def)
  then show ?thesis
    using b b [of "length x"]
    by (auto simp: read_lines.simps [of _ x] split: option.splits)
qed

subsection \<open>One push\<close>

definition live :: "sse_splitter \<Rightarrow> bool" where
  "live s \<longleftrightarrow> data_inv s \<and> (after_cr s \<longrightarrow> tail s = []) \<and>
     (bom_settled s \<and> terminator (tail s) = None \<or> (\<exists>t. s = splitter_new\<lparr>tail := t\<rparr> \<and> length t < length BOM \<and> starts_with t BOM))"

definition meaning :: "sse_splitter \<Rightarrow> bytes \<Rightarrow> sse_event list \<times> sse_error option" where
  "meaning s r = (if bom_settled s then read_lines (line_state s) (to_come s r)
                  else read_lines builder_new (tail s @ r))"

definition size_held :: "sse_splitter \<Rightarrow> nat" where
  "size_held s = held s + length (tail s)"

text \<open>The part of \<open>push_into\<close> after the byte order mark is settled.\<close>

definition push_lines :: "sse_splitter \<Rightarrow> sse_splitter \<times> sse_event list \<times> (unit, sse_split_error) result" where
  "push_lines s =
     (case split_loop s 0 [] of
        (s, frames, Err e) \<Rightarrow> (s, frames, Err e)
      | (s, frames, Ok start) \<Rightarrow>
          (let s = s\<lparr>tail := drop start (tail s)\<rparr> in
           if MAX_SSE_SPLIT_BYTES < length (tail s) then (s, frames, Err SplitTooLarge)
           else (s, frames, Ok ())))"

definition push_reads ::
  "sse_event list \<times> sse_error option \<Rightarrow> nat \<Rightarrow> bytes
     \<Rightarrow> sse_splitter \<times> sse_event list \<times> (unit, sse_split_error) result \<Rightarrow> bool" where
  "push_reads m n r = (\<lambda>(s', fs, res).
     case res of
       Err e \<Rightarrow> e = SplitNotUtf8 \<and> m = (fs, Some NotUtf8)
     | Ok _ \<Rightarrow> live s' \<and> size_held s' \<le> n \<and> m = prepend fs (meaning s' r))"

lemma push_lines_reads:
  assumes "data_inv s" and "\<not> after_cr s" and "bom_settled s"
    and "size_held s + length r \<le> MAX_SSE_SPLIT_BYTES"
  shows "push_reads (read_lines (line_state s) (tail s @ r)) (size_held s) r (push_lines s)"
proof -
  obtain s' fs res where l: "split_loop s 0 [] = (s', fs, res)" by (metis prod_cases3)
  have lr: "loop_reads s (tail s) r s' fs res"
    using split_loop_reads [OF assms(1,2) _ l, of r] assms(4) by (simp add: size_held_def)
  show ?thesis
  proof (cases res)
    case (Err e)
    with l lr show ?thesis by (simp add: push_lines_def push_reads_def loop_reads_def)
  next
    case (Ok st)
    let ?s = "s'\<lparr>tail := drop st (tail s)\<rparr>"
    from lr Ok have p: "data_inv s'" "tail s' = tail s" "bom_settled s' = bom_settled s"
      "after_cr s' \<longrightarrow> drop st (tail s) = []" "terminator (drop st (tail s)) = None" "held s' + length (drop st (tail s)) \<le> held s + length (tail s)"
      "read_lines (line_state s) (tail s @ r) = prepend fs (read_lines (line_state s')
         (drop st (tail s) @ (if after_cr s' then skip_lf r else r)))"
      by (simp_all add: loop_reads_def Let_def)
    have e: "line_state ?s = line_state s'" "held ?s = held s'" "data_inv ?s = data_inv s'"
      by (simp_all add: line_state_def held_def data_inv_def)
    have "push_lines s = (?s, fs, Ok ())"
      using l Ok p(2,6) assms(4) by (simp add: push_lines_def Let_def size_held_def)
    with p e assms(3) show ?thesis
      by (simp add: push_reads_def live_def size_held_def meaning_def to_come_def)
  qed
qed

text \<open>The whole of \<open>push_into\<close>.\<close>

lemma push_into_lines:
  "push_into s chunk =
     (let chunk' = (if after_cr s then skip_lf chunk else chunk);
          s = s\<lparr>tail := tail s @ chunk', after_cr := after_cr s \<and> chunk = []\<rparr>
      in
      if \<not> bom_settled s \<and> length (tail s) < length BOM \<and> starts_with (tail s) BOM then (s, [], Ok ())
      else push_lines
        (if bom_settled s then s
         else s\<lparr>bom_settled := True, tail := (case strip_prefix BOM (tail s) of Some y \<Rightarrow> y | None \<Rightarrow> tail s)\<rparr>))"
proof -
  have t: "starts_with BOM t \<Longrightarrow> strip_prefix BOM t = Some (drop (length BOM) t)"
    "\<not> starts_with BOM t \<Longrightarrow> strip_prefix BOM t = None" for t
    by (auto simp: starts_with_def) (simp add: strip_prefix_Some_iff)
  show ?thesis
    unfolding push_into_def push_lines_def [symmetric]
    by (cases s; cases "after_cr s"; cases "chunk = []"; cases "bom_settled s";
        cases "starts_with BOM (tail s @ skip_lf chunk)"; cases "starts_with BOM (tail s @ chunk)")
      (simp_all add: skip_lf_def Let_def t)
qed

lemma push_into_reads:
  assumes l: "live s" and m: "size_held s + length c + length r \<le> MAX_SSE_SPLIT_BYTES"
  shows "push_reads (meaning s (c @ r)) (size_held s + length c) r (push_into s c)"
proof (cases "bom_settled s")
  case True
  show ?thesis
  proof (cases "after_cr s \<and> c = []")
    case ac: True
    with l have s: "s\<lparr>tail := [], after_cr := True\<rparr> = s" "tail s = []" by (auto simp: live_def)
    then have "split_loop s 0 [] = (s, [], Ok 0)" by (subst split_loop.simps) simp
    moreover have "s\<lparr>tail := []\<rparr> = s" using s by (cases s) simp
    ultimately have "push_into s c = (s, [], Ok ())"
      using True ac s(2) unfolding push_into_lines by (simp add: s(1) push_lines_def skip_lf_def Let_def)
    with ac l show ?thesis by (simp add: push_reads_def)
  next
    case False
    define c' where "c' = (if after_cr s then skip_lf c else c)"
    let ?s = "s\<lparr>tail := tail s @ c', after_cr := False\<rparr>"
    have "push_into s c = push_lines ?s"
      using True False by (auto simp: push_into_lines c'_def Let_def)
    moreover have "length c' \<le> length c" by (simp add: c'_def skip_lf_def)
    moreover have "line_state ?s = line_state s" "held ?s = held s" "data_inv ?s = data_inv s"
      by (simp_all add: line_state_def held_def data_inv_def)
    moreover have "meaning s (c @ r) = read_lines (line_state s) (tail s @ c' @ r)"
      using True False by (auto simp: meaning_def to_come_def c'_def skip_lf_def)
    ultimately show ?thesis
      using push_lines_reads [of ?s r] True l m
      by (auto simp: live_def size_held_def push_reads_def split: result.splits)
  qed
next
  case False
  with l obtain t where s: "s = splitter_new\<lparr>tail := t\<rparr>" "length t < length BOM" "starts_with t BOM"
    by (auto simp: live_def)
  have h0: "held (splitter_new\<lparr>tail := u, bom_settled := b\<rparr>) = 0" for u b
    by (simp add: held_def line_state_def splitter_new_def)
  have mt: "length (t @ c @ r) \<le> MAX_SSE_SPLIT_BYTES"
    using m s(1) by (simp add: size_held_def)
  have mn: "meaning s (c @ r) = read_lines builder_new (t @ c @ r)"
    using False by (simp add: meaning_def s)
  show ?thesis
  proof (cases "length (t @ c) < length BOM \<and> starts_with (t @ c) BOM")
    case True
    with s have "push_into s c = (splitter_new\<lparr>tail := t @ c\<rparr>, [], Ok ())"
      by (simp add: push_into_lines splitter_new_def Let_def)
    with True mn s show ?thesis
      using h0 [where u = t and b = False] h0 [where u = "t @ c" and b = False]
      by (auto simp: push_reads_def live_def size_held_def meaning_def data_inv_def splitter_new_def)
  next
    case nb: False
    define u where "u = (case strip_prefix BOM (t @ c) of Some y \<Rightarrow> y | None \<Rightarrow> t @ c)"
    let ?s = "splitter_new\<lparr>tail := u, bom_settled := True\<rparr>"
    have p: "push_into s c = push_lines ?s"
      using nb s(1) by (auto simp: push_into_lines splitter_new_def Let_def u_def split: option.splits)
    have ul: "length u \<le> length (t @ c)"
      by (auto simp: u_def strip_prefix_Some_iff dest!: arg_cong [where f = length] split: option.splits)
    have "read_lines builder_new (t @ c @ r) = read_lines started (u @ r)"
    proof (cases "starts_with BOM (t @ c)")
      case True
      then have "t @ c = BOM @ u" by (auto simp: u_def starts_with_def strip_prefix_Some_iff)
      with mt read_lines_BOM [of "u @ r"] show ?thesis by (metis append.assoc)
    next
      case nbom: False
      have "\<not> starts_with BOM ((t @ c) @ r)"
      proof
        assume "starts_with BOM ((t @ c) @ r)"
        with nbom obtain ys where "BOM = (t @ c) @ ys"
          unfolding starts_with_iff_prefix prefix_append by blast
        then have "prefix (t @ c) BOM" "length BOM = length (t @ c) + length ys"
          by (metis prefixI, metis length_append)
        with nb have "ys = []" by (simp add: starts_with_iff_prefix)
        with \<open>BOM = (t @ c) @ ys\<close> nbom show False by (simp add: starts_with_iff_prefix)
      qed
      with mt nbom show ?thesis
        using read_lines_no_BOM [of "t @ c @ r"] by (simp add: u_def starts_with_def)
    qed
    moreover have "line_state ?s = started" by (simp add: line_state_def splitter_new_def)
    ultimately show ?thesis
      using push_lines_reads [of ?s r] ul mt h0 [where u = u and b = True] h0 [where u = t and b = False] s
      unfolding p mn by (auto simp: size_held_def data_inv_def splitter_new_def push_reads_def
          split: result.splits)
  qed
qed

section \<open>Whole streams\<close>

text \<open>A parser's use of the splitter: push every chunk, stop at the first refusal, finish.\<close>

fun split_all :: "sse_splitter \<Rightarrow> bytes list \<Rightarrow> sse_event list \<times> sse_split_error option" where
  "split_all s [] =
     (case split_finish s of (_, Ok ev) \<Rightarrow> (opt_list ev, None) | (_, Err e) \<Rightarrow> ([], Some e))"
| "split_all s (c # cs) =
     (case split_push s c of (s', p) \<Rightarrow>
        (case push_error p of
           Some e \<Rightarrow> (push_frames p, Some e)
         | None \<Rightarrow> prepend (push_frames p) (split_all s' cs)))"

definition split_agrees ::
  "sse_event list \<times> sse_split_error option \<Rightarrow> sse_event list \<times> sse_error option \<Rightarrow> bool" where
  "split_agrees x m \<longleftrightarrow> fst x = fst m
     \<and> (snd x = None \<and> snd m = None \<or> snd x = Some SplitNotUtf8 \<and> snd m = Some NotUtf8)"

lemma dispatch_line_state:
  "data_inv s \<Longrightarrow> \<exists>s'. split_line s [] = (s', Ok (snd (dispatch (line_state s))))"
  by (auto simp: split_line_def dispatch_def line_state_def Let_def DEFAULT_SSE_EVENT_TYPE_def)

lemma builder_line_content:
  "l \<noteq> [] \<Longrightarrow> \<not> at_stream_start b \<Longrightarrow> builder_line b l = (b', Ok ev) \<Longrightarrow> ev = None"
  by (auto simp: builder_line_def apply_field_def Let_def split: if_splits prod.splits)

lemma split_finish_reads:
  assumes "data_inv s" and "terminator (tail s) = None" and "size_held s \<le> MAX_SSE_SPLIT_BYTES"
  shows "split_agrees (split_all s []) (read_lines (line_state s) (tail s))"
proof -
  let ?s = "s\<lparr>bom_settled := True, after_cr := False, tail := []\<rparr>"
  have e: "line_state ?s = line_state s" "held ?s = held s" "data_inv ?s"
    using assms(1) by (simp_all add: line_state_def held_def data_inv_def)
  have r: "s\<lparr>bom_settled := True, after_cr := False\<rparr> = ?s" if "tail s = []"
    using that by (cases s) simp
  consider (empty) "tail s = []" | (bad) "tail s \<noteq> []" "\<not> utf8_valid (tail s)"
    | (good) "tail s \<noteq> []" "utf8_valid (tail s)" by blast
  then show ?thesis
  proof cases
    case empty
    with dispatch_line_state [OF e(3)] e(1) r assms(2) show ?thesis
      by (auto simp: split_finish_def split_agrees_def read_lines.simps [of _ "[]"] opt_list_def)
  next
    case bad
    have "builder_line (line_state s) (tail s) = (line_state s, Err NotUtf8)"
      using bad assms(3) by (intro builder_line_invalid) (simp_all add: size_held_def split_bounds)
    with bad assms(2) show ?thesis
      by (simp add: split_finish_def split_agrees_def read_lines.simps [of _ "tail s"] Let_def)
  next
    case good
    obtain s' ev where sl: "split_line ?s (tail s) = (s', Ok ev)"
      and bl: "builder_line (line_state s) (tail s) = (line_state s', Ok ev)" and d: "data_inv s'"
      using e assms(3) by (rule_tac split_line_simulates [OF e(3) good(2)]) (auto simp: size_held_def)
    have "ev = None"
      using builder_line_content [OF good(1) _ bl] by (simp add: line_state_def)
    with sl bl dispatch_line_state [OF d] good assms(2) show ?thesis
      by (auto simp: split_finish_def split_agrees_def read_lines.simps [of _ "tail s"] Let_def opt_list_def)
  qed
qed

lemma live_tail: "live s \<Longrightarrow> terminator (tail s) = None"
proof -
  have "terminator BOM = None" by (simp add: terminator_def BOM_def is_terminator_def)
  then have "terminator t = None" if "starts_with t BOM" for t
    using that set_mono_prefix
    by (fastforce simp: terminator_def iter_position_None_iff starts_with_iff_prefix)
  then show "live s \<Longrightarrow> terminator (tail s) = None" by (auto simp: live_def)
qed

lemma split_finish_meaning:
  assumes "live s" and "size_held s \<le> MAX_SSE_SPLIT_BYTES"
  shows "split_agrees (split_all s []) (meaning s [])"
proof -
  have f: "split_agrees (split_all s []) (read_lines (line_state s) (tail s))"
    using assms by (intro split_finish_reads) (simp_all add: live_tail, simp add: live_def)
  show ?thesis
  proof (cases "bom_settled s")
    case True
    with f show ?thesis by (simp add: meaning_def to_come_def skip_lf_def)
  next
    case False
    with assms(1) obtain t where s: "s = splitter_new\<lparr>tail := t\<rparr>" "length t < length BOM"
      by (auto simp: live_def)
    then have "\<not> starts_with BOM t" by (auto simp: starts_with_iff_prefix dest: prefix_length_le)
    then have "read_lines builder_new t = read_lines started t"
      using s assms(2) by (intro read_lines_no_BOM) (simp_all add: size_held_def)
    moreover have "line_state s = started" by (simp add: s line_state_def splitter_new_def)
    ultimately show ?thesis using f False s(1) by (simp add: meaning_def)
  qed
qed

lemma split_all_meaning:
  "live s \<Longrightarrow> size_held s + length (concat cs) \<le> MAX_SSE_SPLIT_BYTES \<Longrightarrow>
     split_agrees (split_all s cs) (meaning s (concat cs))"
proof (induction cs arbitrary: s)
  case Nil
  then show ?case using split_finish_meaning by simp
next
  case (Cons c cs)
  obtain s' fs res where p: "push_into s c = (s', fs, res)" by (metis prod_cases3)
  have pr: "push_reads (meaning s (c @ concat cs)) (size_held s + length c) (concat cs) (s', fs, res)"
    using push_into_reads [OF Cons.prems(1), of c "concat cs"] Cons.prems(2) p by simp
  show ?case
  proof (cases res)
    case (Err e)
    with pr p show ?thesis by (simp add: split_push_def push_reads_def split_agrees_def)
  next
    case (Ok x)
    with pr have l: "live s'" "size_held s' \<le> size_held s + length c"
      and m: "meaning s (c @ concat cs) = prepend fs (meaning s' (concat cs))"
      by (simp_all add: push_reads_def)
    with Cons.prems(2) have "split_agrees (split_all s' cs) (meaning s' (concat cs))"
      by (intro Cons.IH) simp_all
    with Ok p m show ?thesis by (simp add: split_push_def split_agrees_def prepend_def)
  qed
qed

lemma splitter_new_live: "live splitter_new" "size_held splitter_new = 0"
  by (auto simp: live_def size_held_def held_def line_state_def splitter_new_def data_inv_def
      starts_with_def BOM_def intro!: exI [of _ "[]"])

lemma split_all_new:
  "length (concat cs) \<le> MAX_SSE_SPLIT_BYTES \<Longrightarrow>
     split_agrees (split_all splitter_new cs) (read_lines builder_new (concat cs))"
  using split_all_meaning [OF splitter_new_live(1), of cs]
  by (simp add: splitter_new_live(2) meaning_def) (simp add: splitter_new_def)

text \<open>
  Claim C31. The splitter a component links and the decoder of the host cut the same events: on an
  input of at most \<open>MAX_SSE_SPLIT_BYTES\<close>, however it is chunked, the splitter returns the events
  of the decoder's whole-body function and refuses the input exactly when it does, the bound on
  the number of events apart; and the events it hands out before a refusal do not depend on the
  chunking.
\<close>

theorem splitter_cuts_the_decoders_events:
  assumes "length (concat chunks) \<le> MAX_SSE_SPLIT_BYTES"
  shows "\<exists>evs err. split_all splitter_new chunks = (evs, err)
    \<and> split_all splitter_new [concat chunks] = (evs, err)
    \<and> decode_sse_v1 (concat chunks) =
        (if MAX_SSE_EVENTS < length evs then Err TooManyEvents
         else case err of None \<Rightarrow> Ok evs | Some _ \<Rightarrow> Err NotUtf8)"
proof -
  obtain evs err where r: "read_lines builder_new (concat chunks) = (evs, err)" by fastforce
  have "decode_sse_v1 (concat chunks) =
      (if MAX_SSE_EVENTS < length evs then Err TooManyEvents
       else case err of None \<Rightarrow> Ok evs | Some e \<Rightarrow> Err e)"
    using r decode_lines_read [of "[]" builder_new "concat chunks"]
    by (simp add: decode_sse_v1_def split: option.splits)
  moreover have "split_agrees (split_all splitter_new chunks) (evs, err)"
    "split_agrees (split_all splitter_new [concat chunks]) (evs, err)"
    using assms r split_all_new [of chunks] split_all_new [of "[concat chunks]"] by simp_all
  ultimately show ?thesis
    by (cases "split_all splitter_new chunks"; cases "split_all splitter_new [concat chunks]")
      (auto simp: split_agrees_def)
qed


theorem splitter_cuts_the_decoders_events_witness:
  "let chunks = [''data: a'' @ [CR], [LF, LF], ''data: b''] in
   \<exists>evs err. split_all splitter_new chunks = (evs, err)
     \<and> split_all splitter_new [concat chunks] = (evs, err)
     \<and> decode_sse_v1 (concat chunks) =
        (if MAX_SSE_EVENTS < length evs then Err TooManyEvents
         else case err of None \<Rightarrow> Ok evs | Some _ \<Rightarrow> Err NotUtf8)"
  unfolding Let_def
  by (rule splitter_cuts_the_decoders_events) (simp add: MAX_SSE_SPLIT_BYTES_def)

section \<open>The bound on lines\<close>

text \<open>
  The bound on the length of a line is only checked on what a push leaves unterminated:
  a comment line longer than \<open>MAX_SSE_SPLIT_BYTES\<close> is accepted when its terminator arrives in the
  same chunk and refused when it arrives in the next one.
\<close>

theorem splitter_line_bound_depends_on_chunking:
  "let long = CHR '':'' # replicate MAX_SSE_SPLIT_BYTES (CHR ''x'') in
   MAX_SSE_SPLIT_BYTES < length long \<and>
   split_all splitter_new [long @ [LF]] = ([], None) \<and>
   split_all splitter_new [long, [LF]] = ([], Some SplitTooLarge)"
proof -
  define long where "long = CHR '':'' # replicate MAX_SSE_SPLIT_BYTES (CHR ''x'')"
  have len: "length long = Suc MAX_SSE_SPLIT_BYTES" by (simp add: long_def)
  have cl: "clean_line long" by (simp add: long_def)
  have t: "terminator long = None"
    using cl by (auto simp: terminator_def iter_position_None_iff is_terminator_def)
  have u: "utf8_valid long" unfolding long_def by (rule utf8_valid_ascii) (simp add: ascii_def list_all_iff)
  have nb: "starts_with BOM (long @ x) = False" "\<not> length (long @ x) < length BOM" for x
    by (simp_all add: long_def starts_with_def BOM_def MAX_SSE_SPLIT_BYTES_def)
  let ?s = "\<lambda>t. splitter_new\<lparr>bom_settled := True, tail := t\<rparr>"
  have p: "push_into splitter_new (long @ x) = push_lines (?s (long @ x))" for x
    using nb [of x] by (simp add: push_into_lines splitter_new_def Let_def starts_with_def)
  have sl: "split_line (?s y) long = (?s y, Ok None)" for y
    by (simp add: split_line_def long_def starts_with_def)
  have "split_loop (?s (long @ [LF])) 0 [] = (?s (long @ [LF]), [], Ok (length long + 1))"
  proof -
    have a: "iter_position is_terminator (long @ [LF]) = Some (length long)"
      using terminator_clean [OF cl, of "[]"] by (simp add: terminator_def)
    have "split_loop (?s (long @ [LF])) 0 [] = split_loop (?s (long @ [LF])) (length long + 1) []"
      using split_loop_step [of 0 "?s (long @ [LF])" "length long" "?s (long @ [LF])" None "[]"] a u sl
      by (simp add: opt_list_def nth_append)
    also have "\<dots> = (?s (long @ [LF]), [], Ok (length long + 1))"
      by (subst split_loop.simps) simp
    finally show ?thesis .
  qed
  then have "push_into splitter_new (long @ [LF]) = (?s [], [], Ok ())"
    unfolding p push_lines_def by (simp add: splitter_new_def)
  then have one: "split_all splitter_new [long @ [LF]] = ([], None)"
    by (simp add: split_push_def split_finish_def split_line_def splitter_new_def prepend_def opt_list_def)
  have "split_loop (?s long) 0 [] = (?s long, [], Ok 0)"
    using t by (subst split_loop.simps) (simp add: terminator_def)
  then have "push_into splitter_new long = (?s long, [], Err SplitTooLarge)"
    using p [of "[]"] len by (simp add: push_lines_def splitter_new_def)
  then have "split_all splitter_new [long, [LF]] = ([], Some SplitTooLarge)"
    by (simp add: split_push_def)
  with one len show ?thesis unfolding long_def [symmetric] by (simp add: Let_def)
qed

end
