(* ===== verification/Async_Call.thy ===== *)
theory Async_Call
  imports Prelude
begin

text \<open>
  The asynchronous shape that every provider call of \<open>south-core/src/lib.rs\<close> has: guards that run
  at once, then an \<open>async\<close> block with two awaits (a credential is resolved or a request finalized;
  the prepared request is handed to the transport), raced by a biased \<open>tokio::select!\<close> against
  the cancellation token and, through \<open>timeout_at\<close>, against the deadline.

  A future is what its successive polls return. One poll of the race sees whether the token is
  cancelled, reads a clock, and sees whether the timer has fired. The biased \<open>select!\<close> looks at the
  token first; \<open>timeout_at\<close> polls its inner future before its timer. A block's calls are recorded
  in the order it makes them; the first is made when the block is first polled.
\<close>

type_synonym 'a future = "nat \<Rightarrow> 'a option"

record poll =
  po_cancelled :: bool
  po_now :: nat
  po_elapsed :: bool

record ('c, 'p, 'q, 'r, 'e) two_awaits =
  ta_first_calls :: "'c list"
  ta_first :: "('p, 'e) result future"
  ta_between :: "nat \<Rightarrow> 'p \<Rightarrow> ('q, 'e) result"
  ta_second_call :: "'q \<Rightarrow> 'c"
  ta_second :: "'q \<Rightarrow> ('r, 'e) result future"

datatype 'q await_phase = AwaitFirst nat | AwaitSecond 'q nat

definition poll_second ::
  "('c, 'p, 'q, 'r, 'e) two_awaits \<Rightarrow> 'q \<Rightarrow> nat \<Rightarrow> 'q await_phase + ('r, 'e) result" where
  "poll_second b q k = (case ta_second b q k of None \<Rightarrow> Inl (AwaitSecond q (Suc k)) | Some r \<Rightarrow> Inr r)"

fun poll_block ::
  "('c, 'p, 'q, 'r, 'e) two_awaits \<Rightarrow> nat \<Rightarrow> 'q await_phase
    \<Rightarrow> 'c list \<times> ('q await_phase + ('r, 'e) result)" where
  "poll_block b now (AwaitFirst k) =
     (let calls = (if k = 0 then ta_first_calls b else [])
      in case ta_first b k of
           None \<Rightarrow> (calls, Inl (AwaitFirst (Suc k)))
         | Some r \<Rightarrow>
             (case and_then r (ta_between b now) of
                Err e \<Rightarrow> (calls, Inr (Err e))
              | Ok q \<Rightarrow> (calls @ [ta_second_call b q], poll_second b q 0)))"
| "poll_block b now (AwaitSecond q k) = ([], poll_second b q k)"

text \<open>
  The race, poll by poll: cancellation, then the block, then the timer when there is a deadline.
  \<open>None\<close> is a call that is still pending after the polls given.
\<close>

fun race ::
  "('c, 'p, 'q, 'r, 'e) two_awaits \<Rightarrow> bool \<Rightarrow> 'e \<Rightarrow> 'e \<Rightarrow> 'q await_phase \<Rightarrow> poll list
    \<Rightarrow> 'c list \<times> ('r, 'e) result option" where
  "race b timed cancelled elapsed ph [] = ([], None)"
| "race b timed cancelled elapsed ph (p # ps) =
     (if po_cancelled p then ([], Some (Err cancelled))
      else
        case poll_block b (po_now p) ph of
          (calls, Inr r) \<Rightarrow> (calls, Some r)
        | (calls, Inl ph') \<Rightarrow>
            if timed \<and> po_elapsed p then (calls, Some (Err elapsed))
            else map_prod ((@) calls) id (race b timed cancelled elapsed ph' ps))"

lemma map_calls_eq: "map_prod f id x = (calls, r) \<longleftrightarrow> (\<exists>calls'. x = (calls', r) \<and> calls = f calls')"
  by (cases x) auto

section \<open>What a race does\<close>

text \<open>The second await was reached: the first future gave its value and the guard passed at some poll.\<close>

definition reached :: "('c, 'p, 'q, 'r, 'e) two_awaits \<Rightarrow> poll list \<Rightarrow> 'q \<Rightarrow> bool" where
  "reached b ps q \<longleftrightarrow>
     (\<exists>k v. \<exists>p \<in> set ps. ta_first b k = Some (Ok v) \<and> ta_between b (po_now p) v = Ok q \<and> \<not> po_cancelled p)"

text \<open>Why a race ends with an error.\<close>

definition failed_because ::
  "('c, 'p, 'q, 'r, 'e) two_awaits \<Rightarrow> bool \<Rightarrow> 'e \<Rightarrow> 'e \<Rightarrow> poll list \<Rightarrow> 'e \<Rightarrow> bool" where
  "failed_because b timed cancelled elapsed ps e \<longleftrightarrow>
     e = cancelled \<and> (\<exists>p \<in> set ps. po_cancelled p) \<or>
     e = elapsed \<and> timed \<and> (\<exists>p \<in> set ps. po_elapsed p) \<or>
     (\<exists>k. ta_first b k = Some (Err e)) \<or>
     (\<exists>k v. \<exists>p \<in> set ps. ta_first b k = Some (Ok v) \<and> ta_between b (po_now p) v = Err e) \<or>
     (\<exists>q k. reached b ps q \<and> ta_second b q k = Some (Err e))"

lemma reached_Cons: "reached b ps q \<Longrightarrow> reached b (p # ps) q"
  unfolding reached_def by auto

lemma failed_because_Cons:
  "failed_because b t c d ps e \<Longrightarrow> failed_because b t c d (p # ps) e"
  unfolding failed_because_def using reached_Cons by fastforce

text \<open>In the second await no further call is made, and the answer is the second future's.\<close>

lemma race_second:
  "race b timed cancelled elapsed (AwaitSecond q k) ps = (calls, r) \<Longrightarrow>
    calls = [] \<and> (\<forall>a. r = Some (Ok a) \<longrightarrow> (\<exists>j. ta_second b q j = Some (Ok a))) \<and>
    (\<forall>e. r = Some (Err e) \<longrightarrow> e = cancelled \<and> (\<exists>p \<in> set ps. po_cancelled p) \<or>
      e = elapsed \<and> timed \<and> (\<exists>p \<in> set ps. po_elapsed p) \<or> (\<exists>j. ta_second b q j = Some (Err e)))"
proof (induction ps arbitrary: k calls)
  case (Cons p ps)
  show ?case
  proof (cases "po_cancelled p \<or> ta_second b q k \<noteq> None \<or> timed \<and> po_elapsed p")
    case True
    with Cons.prems show ?thesis by (auto simp: poll_second_def split: if_splits option.splits)
  next
    case False
    with Cons.prems have "race b timed cancelled elapsed (AwaitSecond q (Suc k)) ps = (calls, r)"
      by (auto simp: poll_second_def map_calls_eq)
    from Cons.IH [OF this] show ?thesis by (simp; blast)
  qed
qed simp

text \<open>The calls a race makes from the first await, and what its answer rests on.\<close>

definition race_explained ::
  "('c, 'p, 'q, 'r, 'e) two_awaits \<Rightarrow> bool \<Rightarrow> 'e \<Rightarrow> 'e \<Rightarrow> nat \<Rightarrow> poll list \<Rightarrow> 'c list \<Rightarrow> ('r, 'e) result option
    \<Rightarrow> bool" where
  "race_explained b timed cancelled elapsed k ps calls r \<longleftrightarrow>
     ((calls = [] \<or> k = 0 \<and> calls = ta_first_calls b) \<and> (\<forall>a. r \<noteq> Some (Ok a)) \<or>
      (\<exists>q. reached b ps q \<and> calls = (if k = 0 then ta_first_calls b else []) @ [ta_second_call b q] \<and>
         (\<forall>a. r = Some (Ok a) \<longrightarrow> (\<exists>j. ta_second b q j = Some (Ok a))))) \<and>
     (\<forall>e. r = Some (Err e) \<longrightarrow> failed_because b timed cancelled elapsed ps e)"

lemma race_first:
  "race b timed cancelled elapsed (AwaitFirst k) ps = (calls, r) \<Longrightarrow>
    race_explained b timed cancelled elapsed k ps calls r"
proof (induction ps arbitrary: k calls r)
  case Nil
  then show ?case by (simp add: race_explained_def)
next
  case (Cons p ps)
  show ?case
  proof (cases "po_cancelled p")
    case True
    with Cons.prems show ?thesis by (auto simp: race_explained_def failed_because_def)
  next
    case False
    show ?thesis
    proof (cases "ta_first b k")
      case None
      show ?thesis
      proof (cases "timed \<and> po_elapsed p")
        case True
        with Cons.prems False None show ?thesis
          by (auto simp: race_explained_def failed_because_def split: if_splits)
      next
        case wait: False
        obtain calls' where r: "race b timed cancelled elapsed (AwaitFirst (Suc k)) ps = (calls', r)"
            and calls: "calls = (if k = 0 then ta_first_calls b else []) @ calls'"
          using Cons.prems False None wait
          by (cases "race b timed cancelled elapsed (AwaitFirst (Suc k)) ps") (auto simp: Let_def)
        have IH: "race_explained b timed cancelled elapsed (Suc k) ps calls' r" using r by (rule Cons.IH)
        then have "calls' = [] \<and> (\<forall>a. r \<noteq> Some (Ok a)) \<or>
            (\<exists>q. reached b ps q \<and> calls' = [ta_second_call b q] \<and>
              (\<forall>a. r = Some (Ok a) \<longrightarrow> (\<exists>j. ta_second b q j = Some (Ok a))))"
          by (simp add: race_explained_def)
        then consider "calls' = []" "\<forall>a. r \<noteq> Some (Ok a)"
          | q where "reached b (p # ps) q" "calls' = [ta_second_call b q]"
              "\<forall>a. r = Some (Ok a) \<longrightarrow> (\<exists>j. ta_second b q j = Some (Ok a))"
          using reached_Cons [of b ps _ p] by blast
        moreover have "\<forall>e. r = Some (Err e) \<longrightarrow> failed_because b timed cancelled elapsed (p # ps) e"
          using IH [unfolded race_explained_def, THEN conjunct2] by (simp add: failed_because_Cons)
        ultimately show ?thesis using calls by cases (auto simp: race_explained_def)
      qed
    next
      case (Some r1)
      show ?thesis
      proof (cases "and_then r1 (ta_between b (po_now p))")
        case (Err e)
        then consider "r1 = Err e" | v where "r1 = Ok v" "ta_between b (po_now p) v = Err e"
          by (cases r1) auto
        then have "failed_because b timed cancelled elapsed (p # ps) e"
          using Some by cases (auto simp: failed_because_def)
        moreover have "r = Some (Err e)" "calls = (if k = 0 then ta_first_calls b else [])"
          using Cons.prems False Some Err by (auto simp: Let_def)
        ultimately show ?thesis by (auto simp: race_explained_def)
      next
        case (Ok q)
        then obtain v where "r1 = Ok v" "ta_between b (po_now p) v = Ok q" by (cases r1) auto
        then have q: "reached b (p # ps) q" using Some False by (auto simp: reached_def)
        have "calls = (if k = 0 then ta_first_calls b else []) @ [ta_second_call b q] \<and>
            (\<forall>a. r = Some (Ok a) \<longrightarrow> (\<exists>j. ta_second b q j = Some (Ok a))) \<and>
            (\<forall>e. r = Some (Err e) \<longrightarrow> e = cancelled \<and> (\<exists>p \<in> set ps. po_cancelled p) \<or>
              e = elapsed \<and> timed \<and> (\<exists>p' \<in> set (p # ps). po_elapsed p') \<or>
              (\<exists>j. ta_second b q j = Some (Err e)))"
        proof (cases "ta_second b q 0")
          case None
          show ?thesis
          proof (cases "timed \<and> po_elapsed p")
            case True
            with Cons.prems False Some Ok None show ?thesis by (auto simp: poll_second_def Let_def)
          next
            case wait: False
            then obtain calls' where r: "race b timed cancelled elapsed (AwaitSecond q 1) ps = (calls', r)"
                and calls: "calls = (if k = 0 then ta_first_calls b else []) @ [ta_second_call b q] @ calls'"
              using Cons.prems False Some Ok None
              by (cases "race b timed cancelled elapsed (AwaitSecond q 1) ps") (auto simp: poll_second_def Let_def)
            show ?thesis using race_second [OF r] calls by auto
          qed
        next
          case (Some r2)
          with Cons.prems False \<open>ta_first b k = Some r1\<close> Ok show ?thesis
            by (auto simp: poll_second_def Let_def)
        qed
        with q show ?thesis unfolding race_explained_def failed_because_def by auto
      qed
    qed
  qed
qed

section \<open>Returning and cancelling\<close>

lemma race_settled:
  "race b t c d ph ps = (calls, Some r) \<Longrightarrow> race b t c d ph (ps @ qs) = (calls, Some r)"
  by (induction ps arbitrary: ph calls) (auto simp: map_calls_eq split: if_splits prod.splits sum.splits)

text \<open>A cancellation seen by a poll wins over everything that poll could have found ready.\<close>

lemma race_cancelled:
  "race b t c d ph ps = (calls, None) \<Longrightarrow> po_cancelled p \<Longrightarrow>
    race b t c d ph (ps @ p # qs) = (calls, Some (Err c))"
  by (induction ps arbitrary: ph calls) (auto simp: map_calls_eq split: if_splits prod.splits sum.splits)

lemma race_interrupted:
  "p \<in> set ps \<Longrightarrow> po_cancelled p \<or> t \<and> po_elapsed p \<Longrightarrow> snd (race b t c d ph ps) \<noteq> None"
  by (induction ps arbitrary: ph) (auto split: prod.splits sum.splits)

lemma race_second_ready:
  "ta_second b q j \<noteq> None \<Longrightarrow> k \<le> j \<Longrightarrow> j < k + length ps \<Longrightarrow>
    snd (race b t c d (AwaitSecond q k) ps) \<noteq> None"
proof (induction ps arbitrary: k)
  case (Cons p ps)
  show ?case
  proof (cases "ta_second b q k")
    case None
    then have "Suc k \<le> j" using Cons.prems(1,2) by (metis le_neq_implies_less Suc_leI)
    then show ?thesis using Cons None by (auto simp: poll_second_def)
  next
    case (Some r)
    then show ?thesis by (auto simp: poll_second_def)
  qed
qed simp

lemma race_first_ready:
  assumes "ta_first b n \<noteq> None" and "\<And>q. \<exists>j \<le> m. ta_second b q j \<noteq> None"
  shows "k \<le> n \<Longrightarrow> n + m < k + length ps \<Longrightarrow> snd (race b t c d (AwaitFirst k) ps) \<noteq> None"
proof (induction ps arbitrary: k)
  case Nil
  then show ?case by simp
next
  case (Cons p ps)
  show ?case
  proof (cases "ta_first b k")
    case None
    then have "Suc k \<le> n" using Cons.prems(1) assms(1) by (metis le_neq_implies_less Suc_leI)
    then show ?thesis using Cons None by (auto simp: Let_def)
  next
    case (Some r1)
    show ?thesis
    proof (cases "and_then r1 (ta_between b (po_now p))")
      case (Err e)
      with Some show ?thesis by (auto simp: Let_def)
    next
      case (Ok q)
      obtain j where j: "j \<le> m" "ta_second b q j \<noteq> None" using assms(2) by blast
      have "snd (race b t c d (AwaitSecond q 1) ps) \<noteq> None" if "ta_second b q 0 = None"
      proof (rule race_second_ready [OF j(2)])
        show "1 \<le> j" using j(2) that by (cases j) auto
        show "j < 1 + length ps" using j(1) Cons.prems by simp
      qed
      with Some Ok show ?thesis
        by (cases "ta_second b q 0") (auto simp: poll_second_def Let_def)
    qed
  qed
qed

lemma race_second_calls: "fst (race b t c d (AwaitSecond q k) ps) = []"
  using race_second [of b t c d q k ps] by (cases "race b t c d (AwaitSecond q k) ps") simp

text \<open>A first future that is ready at once is followed by the second call in the same poll.\<close>

lemma race_at_once:
  assumes "ta_first b 0 = Some (Ok v)" and "ta_between b (po_now p) v = Ok q" and "\<not> po_cancelled p"
  shows "fst (race b t c d (AwaitFirst 0) (p # ps)) = ta_first_calls b @ [ta_second_call b q]"
  using assms race_second_calls [of b t c d q 1 ps]
  by (cases "ta_second b q 0") (auto simp: poll_second_def Let_def)

section \<open>Guarded flows\<close>

text \<open>
  A guarded flow: guards that can refuse the call at once, and otherwise a race whose answer is
  wrapped. Every provider call is one, so what follows is proved once for all of them.
\<close>

definition settle :: "('r \<Rightarrow> 'o) \<Rightarrow> 'c list \<times> ('r, 'e) result option \<Rightarrow> 'c list \<times> ('o, 'e) result option" where
  "settle wrap = map_prod id (map_option (\<lambda>r. and_then r (\<lambda>a. Ok (wrap a))))"

lemma settle_iff:
  "settle w x = (calls, None) \<longleftrightarrow> x = (calls, None)"
  "settle w x = (calls, Some (Ok out)) \<longleftrightarrow> (\<exists>a. x = (calls, Some (Ok a)) \<and> out = w a)"
  "settle w x = (calls, Some (Err e)) \<longleftrightarrow> x = (calls, Some (Err e))"
  "snd (settle w x) = None \<longleftrightarrow> snd x = None"
  "fst (settle w x) = fst x"
  by (cases x; cases "snd x"; cases "the (snd x)"; auto simp: settle_def)+

lemma settle_ident [simp]: "settle (\<lambda>r. r) x = x"
  by (cases x; cases "snd x") (auto simp: settle_def)

locale guarded_flow =
  fixes run :: "poll \<Rightarrow> poll list \<Rightarrow> 'c list \<times> ('o, 'e) result option"
    and guards :: "poll \<Rightarrow> ('d, 'e) result"
    and block :: "'d \<Rightarrow> ('c, 'p, 'q, 'r, 'e) two_awaits"
    and wrap :: "'r \<Rightarrow> 'o"
    and timed :: bool
    and cancelled :: 'e
    and elapsed :: 'e
  assumes run_guards: "guards start = Err e \<Longrightarrow> run start ps = ([], Some (Err e))"
    and run_race: "guards start = Ok d \<Longrightarrow>
      run start ps = settle wrap (race (block d) timed cancelled elapsed (AwaitFirst 0) ps)"
begin

lemma calls_in_order:
  assumes "run start ps = (calls, r)"
  shows "calls = [] \<or> (\<exists>d. guards start = Ok d \<and>
    (calls = ta_first_calls (block d) \<or>
     (\<exists>q. calls = ta_first_calls (block d) @ [ta_second_call (block d) q] \<and> reached (block d) ps q)))"
proof (cases "guards start")
  case (Ok d)
  have "fst (race (block d) timed cancelled elapsed (AwaitFirst 0) ps) = calls"
    using run_race [OF Ok, of ps] assms settle_iff(5) by (metis fst_conv)
  then obtain r' where "race (block d) timed cancelled elapsed (AwaitFirst 0) ps = (calls, r')"
    by (metis prod.collapse)
  from race_first [OF this] Ok show ?thesis by (auto simp: race_explained_def)
qed (use assms run_guards in simp)

lemma answer_of_second:
  assumes "run start ps = (calls, Some (Ok out))"
  shows "\<exists>d q a j. guards start = Ok d \<and> calls = ta_first_calls (block d) @ [ta_second_call (block d) q] \<and>
    reached (block d) ps q \<and> ta_second (block d) q j = Some (Ok a) \<and> out = wrap a"
proof (cases "guards start")
  case (Ok d)
  obtain a where a: "race (block d) timed cancelled elapsed (AwaitFirst 0) ps = (calls, Some (Ok a))" "out = wrap a"
    using assms unfolding run_race [OF Ok] settle_iff by blast
  from race_first [OF a(1)] obtain q j where "reached (block d) ps q"
      "calls = ta_first_calls (block d) @ [ta_second_call (block d) q]" "ta_second (block d) q j = Some (Ok a)"
    by (auto simp: race_explained_def)
  with Ok a(2) show ?thesis by blast
qed (use assms run_guards in simp)

lemma failure_explained:
  assumes "run start ps = (calls, Some (Err e))"
  shows "guards start = Err e \<or>
    (\<exists>d. guards start = Ok d \<and> failed_because (block d) timed cancelled elapsed ps e)"
proof (cases "guards start")
  case (Ok d)
  have "race (block d) timed cancelled elapsed (AwaitFirst 0) ps = (calls, Some (Err e))"
    using assms unfolding run_race [OF Ok] settle_iff .
  from race_first [OF this] Ok show ?thesis by (auto simp: race_explained_def)
qed (use assms run_guards in simp)

lemma returns_when_interrupted:
  assumes "p \<in> set ps" and "po_cancelled p \<or> timed \<and> po_elapsed p"
  shows "snd (run start ps) \<noteq> None"
proof (cases "guards start")
  case (Ok d)
  with race_interrupted [OF assms] show ?thesis by (simp add: run_race settle_iff)
qed (use run_guards in simp)

lemma returns_when_ready:
  assumes "\<And>d. guards start = Ok d \<Longrightarrow> ta_first (block d) n \<noteq> None"
    and "\<And>d q. guards start = Ok d \<Longrightarrow> \<exists>j \<le> m. ta_second (block d) q j \<noteq> None"
    and "n + m < length ps"
  shows "snd (run start ps) \<noteq> None"
proof (cases "guards start")
  case (Ok d)
  have "snd (race (block d) timed cancelled elapsed (AwaitFirst 0) ps) \<noteq> None"
    by (rule race_first_ready [OF assms(1,2) [OF Ok]]) (use assms(3) in simp_all)
  with Ok show ?thesis by (simp add: run_race settle_iff)
qed (use run_guards in simp)

lemma cancellation_wins:
  assumes "run start ps = (calls, None)" and "po_cancelled p"
  shows "run start (ps @ p # qs) = (calls, Some (Err cancelled))"
proof (cases "guards start")
  case (Ok d)
  then have "race (block d) timed cancelled elapsed (AwaitFirst 0) ps = (calls, None)"
    using assms(1) unfolding run_race [OF Ok] settle_iff by simp
  from race_cancelled [OF this assms(2), of qs] show ?thesis
    by (simp add: run_race [OF Ok] settle_def)
qed (use assms run_guards in simp)

end

end
