(* ===== verification/Ascii.thy ===== *)
theory Ascii
  imports Utf8
begin

text \<open>
  The \<open>u8\<close> and \<open>str\<close> methods of the Rust standard library with which the contract grammars are
  written: the ASCII byte classes, ASCII case folding and the substring test. A byte is compared
  through its number, as Rust's range patterns do.
\<close>

definition is_ascii_lowercase :: "byte \<Rightarrow> bool" where
  [byte_class]: "is_ascii_lowercase c \<longleftrightarrow> byte_in 97 122 c"

definition is_ascii_uppercase :: "byte \<Rightarrow> bool" where
  [byte_class]: "is_ascii_uppercase c \<longleftrightarrow> byte_in 65 90 c"

definition is_ascii_digit :: "byte \<Rightarrow> bool" where
  [byte_class]: "is_ascii_digit c \<longleftrightarrow> byte_in 48 57 c"

definition is_ascii_alphabetic :: "byte \<Rightarrow> bool" where
  [byte_class]: "is_ascii_alphabetic c \<longleftrightarrow> is_ascii_lowercase c \<or> is_ascii_uppercase c"

definition is_ascii_alphanumeric :: "byte \<Rightarrow> bool" where
  [byte_class]: "is_ascii_alphanumeric c \<longleftrightarrow> is_ascii_alphabetic c \<or> is_ascii_digit c"

definition byte_lower :: "byte \<Rightarrow> byte" where
  "byte_lower c = (if is_ascii_uppercase c then char_of (of_char c + 32 :: nat) else c)"

definition to_ascii_lowercase :: "bytes \<Rightarrow> bytes" where
  "to_ascii_lowercase s = map byte_lower s"

definition eq_ignore_ascii_case :: "bytes \<Rightarrow> bytes \<Rightarrow> bool" where
  "eq_ignore_ascii_case s t \<longleftrightarrow> to_ascii_lowercase s = to_ascii_lowercase t"

text \<open>\<open>str::contains\<close> with a string pattern: the pattern occurs at some position.\<close>

fun str_contains :: "'a list \<Rightarrow> 'a list \<Rightarrow> bool" where
  "str_contains p [] = (p = [])"
| "str_contains p (x # xs) = (starts_with p (x # xs) \<or> str_contains p xs)"

text \<open>\<open>str::find\<close> with a string pattern: the first position at which it occurs.\<close>

fun str_find :: "'a list \<Rightarrow> 'a list \<Rightarrow> nat option" where
  "str_find p [] = (if p = [] then Some 0 else None)"
| "str_find p (x # xs) = (if starts_with p (x # xs) then Some 0 else map_option Suc (str_find p xs))"

definition strip_suffix :: "'a list \<Rightarrow> 'a list \<Rightarrow> 'a list option" where
  "strip_suffix p xs = map_option rev (strip_prefix (rev p) (rev xs))"

section \<open>Laws\<close>

lemma strip_suffix_Some_iff: "strip_suffix p xs = Some ys \<longleftrightarrow> xs = ys @ p"
proof -
  have "strip_suffix p xs = Some ys \<longleftrightarrow> rev xs = rev p @ rev ys"
    by (auto simp: strip_suffix_def strip_prefix_Some_iff)
  also have "\<dots> \<longleftrightarrow> xs = ys @ p"
    by (metis rev_append rev_is_rev_conv)
  finally show ?thesis .
qed

lemma str_contains_iff: "str_contains p xs \<longleftrightarrow> (\<exists>a b. xs = a @ p @ b)"
proof (induction xs)
  case Nil
  then show ?case by simp
next
  case (Cons x xs)
  have "(\<exists>a b. x # xs = a @ p @ b) \<longleftrightarrow> (\<exists>b. x # xs = p @ b) \<or> (\<exists>a b. xs = a @ p @ b)"
  proof
    assume "\<exists>a b. x # xs = a @ p @ b"
    then obtain a b where "x # xs = a @ p @ b" by blast
    then show "(\<exists>b. x # xs = p @ b) \<or> (\<exists>a b. xs = a @ p @ b)" by (cases a) auto
  qed (metis append_Nil append_Cons)
  with Cons.IH show ?case by (simp add: starts_with_iff_prefix prefix_def)
qed

lemma str_find_Some: "str_find p xs = Some i \<Longrightarrow> \<exists>b. xs = take i xs @ p @ b"
proof (induction xs arbitrary: i)
  case Nil
  then show ?case by (auto split: if_splits)
next
  case (Cons x xs)
  then show ?case
    by (cases i) (auto simp: starts_with_iff_prefix prefix_def split: if_splits)
qed

lemma byte_class_code:
  "is_ascii_uppercase c \<Longrightarrow> of_char c + 32 < (256 :: nat)"
  by (simp add: is_ascii_uppercase_def byte_in_def)

lemma of_byte_lower:
  "(of_char (byte_lower c) :: nat) = (if is_ascii_uppercase c then of_char c + 32 else of_char c)"
  using byte_class_code [of c] by (simp add: byte_lower_def)

lemma byte_lower_idem [simp]: "byte_lower (byte_lower c) = byte_lower c"
proof -
  have "\<not> is_ascii_uppercase (byte_lower c)"
    by (cases "is_ascii_uppercase c") (auto simp: is_ascii_uppercase_def byte_in_def of_byte_lower)
  then show ?thesis by (simp add: byte_lower_def [of "byte_lower c"])
qed

lemma byte_lower_plain: "\<not> is_ascii_uppercase c \<Longrightarrow> byte_lower c = c"
  by (simp add: byte_lower_def)

lemma to_ascii_lowercase_idem [simp]:
  "to_ascii_lowercase (to_ascii_lowercase s) = to_ascii_lowercase s"
  by (simp add: to_ascii_lowercase_def)

lemma length_to_ascii_lowercase [simp]: "length (to_ascii_lowercase s) = length s"
  by (simp add: to_ascii_lowercase_def)

lemma to_ascii_lowercase_Nil_iff [simp]: "to_ascii_lowercase s = [] \<longleftrightarrow> s = []"
  by (simp add: to_ascii_lowercase_def)

lemma to_ascii_lowercase_plain:
  "list_all (\<lambda>c. \<not> is_ascii_uppercase c) s \<Longrightarrow> to_ascii_lowercase s = s"
  by (induction s) (simp_all add: to_ascii_lowercase_def byte_lower_plain)

lemma eq_ignore_ascii_case_refl [simp]: "eq_ignore_ascii_case s s"
  by (simp add: eq_ignore_ascii_case_def)

lemma ascii_classes [intro]:
  "is_ascii_digit c \<Longrightarrow> is_ascii_alphanumeric c"
  "is_ascii_lowercase c \<Longrightarrow> is_ascii_alphabetic c"
  "is_ascii_alphabetic c \<Longrightarrow> is_ascii_alphanumeric c"
  by (auto simp: is_ascii_alphanumeric_def is_ascii_alphabetic_def)

end
