(* ===== verification/Contract_Errors.thy ===== *)
theory Contract_Errors
  imports Prelude
begin

text \<open>
  The stable error enumerations of \<open>south-contracts/src/lib.rs\<close> and the machine-readable codes a
  host matches on. Each enumeration is a datatype with the constructors of the source; each
  \<open>code\<close> method is a function on it.
\<close>

datatype header_policy_error =
    InvalidName | NameTooLong | InvalidValue | ValueTooLong | ReservedHeader | DuplicateHeader
  | TooManyHeaders | TotalSizeExceeded

fun header_policy_code :: "header_policy_error \<Rightarrow> string" where
  "header_policy_code InvalidName = ''INVALID_HEADER_NAME''"
| "header_policy_code NameTooLong = ''HEADER_NAME_TOO_LONG''"
| "header_policy_code InvalidValue = ''INVALID_HEADER_VALUE''"
| "header_policy_code ValueTooLong = ''HEADER_VALUE_TOO_LONG''"
| "header_policy_code ReservedHeader = ''RESERVED_HEADER_FORBIDDEN''"
| "header_policy_code DuplicateHeader = ''DUPLICATE_HEADER''"
| "header_policy_code TooManyHeaders = ''TOO_MANY_HEADERS''"
| "header_policy_code TotalSizeExceeded = ''HEADER_TOTAL_SIZE_EXCEEDED''"

datatype contract_error =
    InvalidEndpoint | InvalidRelativePath | InvalidCredentialSlot | InvalidJsonBody
  | RequestBodyTooLarge | InvalidQueryValue | DuplicateQueryParameter | EmptyQuery | QueryTooLarge
  | InvalidUserAgentValue | InvalidMultipartBoundary | InvalidMultipartBody
  | ContentTypeHeaderNotPermitted | UnsupportedTextMediaType | InvalidSecretHeaderName
  | InvalidSecretHeaderSet | UndeclaredSecretHeader | InvalidQueryDeclaration
  | InvalidQuotaHeaderDeclaration

fun contract_code :: "contract_error \<Rightarrow> string" where
  "contract_code InvalidEndpoint = ''INVALID_ENDPOINT''"
| "contract_code InvalidRelativePath = ''INVALID_RELATIVE_PATH''"
| "contract_code InvalidCredentialSlot = ''INVALID_CREDENTIAL_SLOT''"
| "contract_code InvalidJsonBody = ''INVALID_JSON_BODY''"
| "contract_code RequestBodyTooLarge = ''REQUEST_BODY_TOO_LARGE''"
| "contract_code InvalidQueryValue = ''INVALID_QUERY_VALUE''"
| "contract_code DuplicateQueryParameter = ''DUPLICATE_QUERY_PARAMETER''"
| "contract_code EmptyQuery = ''EMPTY_QUERY''"
| "contract_code QueryTooLarge = ''QUERY_TOO_LARGE''"
| "contract_code InvalidUserAgentValue = ''INVALID_USER_AGENT_VALUE''"
| "contract_code InvalidMultipartBoundary = ''INVALID_MULTIPART_BOUNDARY''"
| "contract_code InvalidMultipartBody = ''INVALID_MULTIPART_BODY''"
| "contract_code ContentTypeHeaderNotPermitted = ''CONTENT_TYPE_HEADER_NOT_PERMITTED''"
| "contract_code UnsupportedTextMediaType = ''UNSUPPORTED_TEXT_MEDIA_TYPE''"
| "contract_code InvalidSecretHeaderName = ''INVALID_SECRET_HEADER_NAME''"
| "contract_code InvalidSecretHeaderSet = ''INVALID_SECRET_HEADER_SET''"
| "contract_code UndeclaredSecretHeader = ''UNDECLARED_SECRET_HEADER''"
| "contract_code InvalidQueryDeclaration = ''INVALID_QUERY_DECLARATION''"
| "contract_code InvalidQuotaHeaderDeclaration = ''INVALID_QUOTA_HEADER_DECLARATION''"

datatype preparation_error =
    UrlOutsideBinding | CredentialBindingMismatch | CredentialResolutionFailed
  | PreparationCancelled | DeadlineExceeded | UnsupportedAuthShape | RequestFinalizationFailed
  | RequestFinalizationRejected

fun preparation_code :: "preparation_error \<Rightarrow> string" where
  "preparation_code UrlOutsideBinding = ''URL_OUTSIDE_BINDING''"
| "preparation_code CredentialBindingMismatch = ''CREDENTIAL_BINDING_MISMATCH''"
| "preparation_code CredentialResolutionFailed = ''CREDENTIAL_RESOLUTION_FAILED''"
| "preparation_code PreparationCancelled = ''CANCELLED''"
| "preparation_code DeadlineExceeded = ''DEADLINE_EXCEEDED''"
| "preparation_code UnsupportedAuthShape = ''UNSUPPORTED_AUTH_SHAPE''"
| "preparation_code RequestFinalizationFailed = ''REQUEST_FINALIZATION_FAILED''"
| "preparation_code RequestFinalizationRejected = ''REQUEST_FINALIZATION_REJECTED''"

datatype transport_error =
    ClientBuildFailed | TransportTimeout | ConnectFailed | RequestFailed | ResponseReadFailed
  | ResponseBodyTooLarge | ResponseBodyNotUtf8 | ResponseMetadataInvalid | RedirectDenied

fun transport_code :: "transport_error \<Rightarrow> string" where
  "transport_code ClientBuildFailed = ''CLIENT_BUILD_FAILED''"
| "transport_code TransportTimeout = ''TRANSPORT_TIMEOUT''"
| "transport_code ConnectFailed = ''CONNECT_FAILED''"
| "transport_code RequestFailed = ''REQUEST_FAILED''"
| "transport_code ResponseReadFailed = ''RESPONSE_READ_FAILED''"
| "transport_code ResponseBodyTooLarge = ''RESPONSE_BODY_TOO_LARGE''"
| "transport_code ResponseBodyNotUtf8 = ''RESPONSE_BODY_NOT_UTF8''"
| "transport_code ResponseMetadataInvalid = ''RESPONSE_METADATA_INVALID''"
| "transport_code RedirectDenied = ''REDIRECT_DENIED''"

datatype stream_read_error =
    StreamReadFailed | StreamIdleTimeout | StreamDeadlineExceeded | StreamCancelled
  | ChunkNotDeliverable

fun stream_read_code :: "stream_read_error \<Rightarrow> string" where
  "stream_read_code StreamReadFailed = ''STREAM_READ_FAILED''"
| "stream_read_code StreamIdleTimeout = ''STREAM_IDLE_TIMEOUT''"
| "stream_read_code StreamDeadlineExceeded = ''STREAM_DEADLINE_EXCEEDED''"
| "stream_read_code StreamCancelled = ''STREAM_CANCELLED''"
| "stream_read_code ChunkNotDeliverable = ''STREAM_CHUNK_INVALID''"

section \<open>Codes identify errors\<close>

text \<open>Every error a provider call can end with, in the phase it ends in.\<close>

datatype call_error =
    HeaderError header_policy_error
  | ContractError contract_error
  | PreparationError preparation_error
  | TransportError transport_error
  | StreamError stream_read_error

fun call_code :: "call_error \<Rightarrow> string" where
  "call_code (HeaderError e) = header_policy_code e"
| "call_code (ContractError e) = contract_code e"
| "call_code (PreparationError e) = preparation_code e"
| "call_code (TransportError e) = transport_code e"
| "call_code (StreamError e) = stream_read_code e"

definition call_errors :: "call_error list" where
  "call_errors =
     map HeaderError
       [InvalidName, NameTooLong, InvalidValue, ValueTooLong, ReservedHeader, DuplicateHeader,
        TooManyHeaders, TotalSizeExceeded] @
     map ContractError
       [InvalidEndpoint, InvalidRelativePath, InvalidCredentialSlot, InvalidJsonBody,
        RequestBodyTooLarge, InvalidQueryValue, DuplicateQueryParameter, EmptyQuery, QueryTooLarge,
        InvalidUserAgentValue, InvalidMultipartBoundary, InvalidMultipartBody,
        ContentTypeHeaderNotPermitted, UnsupportedTextMediaType, InvalidSecretHeaderName,
        InvalidSecretHeaderSet, UndeclaredSecretHeader, InvalidQueryDeclaration,
        InvalidQuotaHeaderDeclaration] @
     map PreparationError
       [UrlOutsideBinding, CredentialBindingMismatch, CredentialResolutionFailed,
        PreparationCancelled, DeadlineExceeded, UnsupportedAuthShape, RequestFinalizationFailed,
        RequestFinalizationRejected] @
     map TransportError
       [ClientBuildFailed, TransportTimeout, ConnectFailed, RequestFailed, ResponseReadFailed,
        ResponseBodyTooLarge, ResponseBodyNotUtf8, ResponseMetadataInvalid, RedirectDenied] @
     map StreamError
       [StreamReadFailed, StreamIdleTimeout, StreamDeadlineExceeded, StreamCancelled,
        ChunkNotDeliverable]"

lemma call_errors_all: "e \<in> set call_errors"
proof (cases e)
  case (HeaderError x)
  then show ?thesis by (cases x) (simp_all add: call_errors_def)
next
  case (ContractError x)
  then show ?thesis by (cases x) (simp_all add: call_errors_def)
next
  case (PreparationError x)
  then show ?thesis by (cases x) (simp_all add: call_errors_def)
next
  case (TransportError x)
  then show ?thesis by (cases x) (simp_all add: call_errors_def)
next
  case (StreamError x)
  then show ?thesis by (cases x) (simp_all add: call_errors_def)
qed

lemma call_codes_distinct: "distinct (map call_code call_errors)"
  unfolding call_errors_def by simp

text \<open>
  The code alone tells a host which error it received and in which phase: no two errors
  of the header policy, the request contracts, the preparation, the transport and the open stream
  share a code, so a mid-stream failure is never mistaken for its pre-stream cousin.
\<close>

theorem error_codes_identify: "inj call_code"
proof (rule injI)
  fix a b assume "call_code a = call_code b"
  moreover have "inj_on call_code (set call_errors)"
    using call_codes_distinct by (simp add: distinct_map)
  ultimately show "a = b"
    using call_errors_all by (blast dest: inj_onD)
qed

end
