(* ===== verification/Bodies.thy ===== *)
theory Bodies
  imports Ascii Contract_Errors
begin

text \<open>
  The request bodies of \<open>south-contracts/src/lib.rs\<close>: JSON text, multipart bytes under a rendered
  boundary, and text under a closed media type. The JSON reader of \<open>serde_json\<close> is a parameter:
  \<open>rd\<close> reads one value off a text and returns the reader's state, \<open>fin\<close> tells whether the reader is
  at the end of its input.
\<close>

definition MAX_JSON_REQUEST_BODY_BYTES :: nat where
  "MAX_JSON_REQUEST_BODY_BYTES = 32 * 1024 * 1024"

definition MAX_MULTIPART_REQUEST_BODY_BYTES :: nat where
  "MAX_MULTIPART_REQUEST_BODY_BYTES = 100 * 1024 * 1024"

definition MAX_MULTIPART_BOUNDARY_BYTES :: nat where
  "MAX_MULTIPART_BOUNDARY_BYTES = 70"

definition MAX_TEXT_REQUEST_BODY_BYTES :: nat where
  "MAX_TEXT_REQUEST_BODY_BYTES = 1024 * 1024"

section \<open>JSON\<close>

record json_body =
  jb_value :: string

definition json_body_parse ::
  "(string \<Rightarrow> 'd option) \<Rightarrow> ('d \<Rightarrow> bool) \<Rightarrow> string \<Rightarrow> (json_body, contract_error) result" where
  "json_body_parse rd fin input =
     (if MAX_JSON_REQUEST_BODY_BYTES < length input then Err RequestBodyTooLarge
      else
        and_then (ok_or (rd input) InvalidJsonBody) (\<lambda>deserializer.
          if \<not> fin deserializer then Err InvalidJsonBody else Ok \<lparr>jb_value = input\<rparr>))"

definition json_body_len :: "json_body \<Rightarrow> nat" where
  "json_body_len b = length (jb_value b)"

definition json_body_is_empty :: "json_body \<Rightarrow> bool" where
  "json_body_is_empty b \<longleftrightarrow> jb_value b = []"

section \<open>Multipart\<close>

definition is_boundary_character :: "byte \<Rightarrow> bool" where
  "is_boundary_character c \<longleftrightarrow>
     is_ascii_alphanumeric c \<or>
     c \<in> set [CHR 0x27, CHR ''('', CHR '')'', CHR ''+'', CHR ''_'', CHR '','', CHR ''-'', CHR ''.'', CHR ''/'',
       CHR '':'', CHR ''='', CHR ''?'', CHR '' '']"

record multipart_boundary =
  mb_value :: string

definition boundary_parse :: "string \<Rightarrow> (multipart_boundary, contract_error) result" where
  "boundary_parse input =
     (if input = [] \<or> MAX_MULTIPART_BOUNDARY_BYTES < length input then Err InvalidMultipartBoundary
      else if \<not> list_all is_boundary_character input then Err InvalidMultipartBoundary
      else if ends_with '' '' input then Err InvalidMultipartBoundary
      else Ok \<lparr>mb_value = input\<rparr>)"

record multipart_body =
  mp_bytes :: bytes
  mp_boundary :: multipart_boundary
  mp_content_type :: string

definition multipart_body_parse ::
  "bytes \<Rightarrow> multipart_boundary \<Rightarrow> (multipart_body, contract_error) result" where
  "multipart_body_parse bs boundary =
     (if MAX_MULTIPART_REQUEST_BODY_BYTES < length bs then Err RequestBodyTooLarge
      else
        let opening = ''--'' @ mb_value boundary
        in if \<not> starts_with opening bs then Err InvalidMultipartBody
           else
             let closing = ''--'' @ mb_value boundary @ ''--'';
                 terminated =
                   (ends_with closing bs \<or> ends_with (closing @ [CHR 0x0D, CHR 0x0A]) bs \<or>
                    ends_with (closing @ [CHR 0x0A]) bs)
             in if \<not> terminated then Err InvalidMultipartBody
                else Ok
                  \<lparr>mp_bytes = bs,
                   mp_boundary = boundary,
                   mp_content_type = ''multipart/form-data; boundary='' @ mb_value boundary\<rparr>)"

definition multipart_body_len :: "multipart_body \<Rightarrow> nat" where
  "multipart_body_len b = length (mp_bytes b)"

definition multipart_body_is_empty :: "multipart_body \<Rightarrow> bool" where
  "multipart_body_is_empty b \<longleftrightarrow> mp_bytes b = []"

section \<open>Text\<close>

datatype text_media_type = Ssml

definition text_media_type_ALL :: "text_media_type list" where
  "text_media_type_ALL = [Ssml]"

fun text_media_type_as_str :: "text_media_type \<Rightarrow> string" where
  "text_media_type_as_str Ssml = ''application/ssml+xml''"

definition text_media_type_parse :: "string \<Rightarrow> (text_media_type, contract_error) result" where
  "text_media_type_parse input =
     ok_or (List.find (\<lambda>media_type. text_media_type_as_str media_type = input) text_media_type_ALL)
       UnsupportedTextMediaType"

record text_body =
  tb_text :: string
  tb_media_type :: text_media_type

definition text_body_try_new :: "string \<Rightarrow> text_media_type \<Rightarrow> (text_body, contract_error) result" where
  "text_body_try_new txt_value media_type =
     (if MAX_TEXT_REQUEST_BODY_BYTES < length txt_value then Err RequestBodyTooLarge
      else Ok \<lparr>tb_text = txt_value, tb_media_type = media_type\<rparr>)"

definition text_body_content_type :: "text_body \<Rightarrow> string" where
  "text_body_content_type b = text_media_type_as_str (tb_media_type b)"

section \<open>Properties\<close>

lemma boundary_parse_Ok:
  "boundary_parse s = Ok b \<longleftrightarrow>
    1 \<le> length s \<and> length s \<le> MAX_MULTIPART_BOUNDARY_BYTES \<and> list_all is_boundary_character s \<and>
    \<not> suffix '' '' s \<and> b = \<lparr>mb_value = s\<rparr>"
  by (auto simp: boundary_parse_def ends_with_iff_suffix Suc_le_eq)

text \<open>
  A multipart body is accepted exactly when it has at most 100 MiB, begins with the
  delimiter of its boundary and ends with the closing delimiter, possibly followed by a line end.
  The bytes are kept unmodified, the media type sent beside them names that very boundary, and a
  boundary is 1 to 70 characters of the RFC 2046 set that does not end in a space.
\<close>

theorem multipart_body_exact:
  assumes "boundary_parse s = Ok b"
  shows "(\<exists>m. multipart_body_parse bs b = Ok m \<and> mp_bytes m = bs \<and> mp_boundary m = b \<and>
        mp_content_type m = ''multipart/form-data; boundary='' @ s \<and> \<not> multipart_body_is_empty m) =
      (length bs \<le> MAX_MULTIPART_REQUEST_BODY_BYTES \<and>
       (\<exists>rest. bs = ''--'' @ s @ rest) \<and>
       (\<exists>front line_end. bs = front @ ''--'' @ s @ ''--'' @ line_end \<and>
         line_end \<in> {[], [CHR 0x0A], [CHR 0x0D, CHR 0x0A]})) \<and>
    1 \<le> length s \<and> length s \<le> MAX_MULTIPART_BOUNDARY_BYTES \<and> last s \<noteq> CHR '' ''"
proof -
  have b: "b = \<lparr>mb_value = s\<rparr>" "1 \<le> length s" "length s \<le> MAX_MULTIPART_BOUNDARY_BYTES" "\<not> suffix '' '' s"
    using assms by (simp_all add: boundary_parse_Ok)
  have "last s \<noteq> CHR '' ''"
    using b(2,4) by (metis One_nat_def Suc_le_eq append_butlast_last_id length_greater_0_conv suffixI)
  moreover have "suffix (''--'' @ s @ ''--'' @ l) bs \<longleftrightarrow> (\<exists>front. bs = front @ ''--'' @ s @ ''--'' @ l)" for l
    by (auto simp: suffix_def)
  moreover have "prefix (''--'' @ s) bs \<longleftrightarrow> (\<exists>rest. bs = ''--'' @ s @ rest)"
    by (auto simp: prefix_def)
  ultimately show ?thesis
    using b(1-3)
    by (auto simp: multipart_body_parse_def Let_def starts_with_iff_prefix ends_with_iff_suffix
        multipart_body_is_empty_def)
qed

theorem multipart_body_exact_witness:
  "\<exists>m. multipart_body_parse ''--xyz--'' \<lparr>mb_value = ''xyz''\<rparr> = Ok m \<and>
     mp_content_type m = ''multipart/form-data; boundary=xyz''"
proof -
  have "boundary_parse ''xyz'' = Ok \<lparr>mb_value = ''xyz''\<rparr>"
    by (simp add: boundary_parse_Ok MAX_MULTIPART_BOUNDARY_BYTES_def is_boundary_character_def byte_class
        byte_in_def suffix_def)
  note exact = multipart_body_exact [OF this, of "''--xyz--''", THEN conjunct1, THEN iffD2]
  have "\<exists>front line_end. ''--xyz--'' = front @ ''--'' @ ''xyz'' @ ''--'' @ line_end \<and>
      line_end \<in> {[], [CHR 0x0A], [CHR 0x0D, CHR 0x0A]}"
    by (rule exI [of _ "[]"], rule exI [of _ "[]"]) simp
  moreover have "\<exists>rest. ''--xyz--'' = ''--'' @ ''xyz'' @ rest" by simp
  moreover have "length ''--xyz--'' \<le> MAX_MULTIPART_REQUEST_BODY_BYTES"
    by (simp add: MAX_MULTIPART_REQUEST_BODY_BYTES_def)
  ultimately obtain m where "multipart_body_parse ''--xyz--'' \<lparr>mb_value = ''xyz''\<rparr> = Ok m"
      "mp_content_type m = ''multipart/form-data; boundary='' @ ''xyz''"
    using exact by blast
  then show ?thesis by (intro exI [of _ m]) simp
qed

text \<open>
  The opening and the closing delimiter may be the same bytes: a body that consists of the closing
  delimiter alone is accepted, though it holds one delimiter and no part.
\<close>

lemma multipart_delimiters_may_overlap:
  "\<exists>m. multipart_body_parse ''--xyz--'' \<lparr>mb_value = ''xyz''\<rparr> = Ok m \<and> mp_bytes m = ''--xyz--''"
  by (simp add: multipart_body_parse_def MAX_MULTIPART_REQUEST_BODY_BYTES_def starts_with_iff_prefix
      ends_with_iff_suffix)

end
