(* ===== verification/Header_Names.thy ===== *)
theory Header_Names
  imports Contract_Errors
begin

text \<open>
  The header names \<open>south-contracts/src/lib.rs\<close> gives an owner: the sanctioned secret headers, the
  headers a host finalizer may emit and the set a declaration of them forms, the closed response
  fields, and the reserved and denied lists.
\<close>

section \<open>Reserved and denied names\<close>

definition RESERVED_HEADERS :: "string list" where
  "RESERVED_HEADERS =
     [''api-key'', ''authorization'', ''connection'', ''content-length'', ''cookie'', ''expect'',
      ''host'', ''keep-alive'', ''ocp-apim-subscription-key'', ''proxy-authorization'',
      ''proxy-connection'', ''set-cookie'', ''te'', ''trailer'', ''transfer-encoding'',
      ''upgrade'', ''user-agent'', ''x-amz-content-sha256'', ''x-amz-date'',
      ''x-amz-security-token'', ''x-api-key'', ''x-goog-api-key'', ''xi-api-key'']"

definition RESPONSE_TRANSCRIPT_DENIED_HEADERS :: "string list" where
  "RESPONSE_TRANSCRIPT_DENIED_HEADERS =
     [''api-key'', ''authorization'', ''connection'', ''keep-alive'',
      ''ocp-apim-subscription-key'', ''proxy-authenticate'', ''proxy-authorization'',
      ''proxy-connection'', ''set-cookie'', ''set-cookie2'', ''te'', ''trailer'',
      ''transfer-encoding'', ''upgrade'', ''x-api-key'', ''x-goog-api-key'', ''xi-api-key'']"

section \<open>Sanctioned secret headers\<close>

datatype secret_header =
    ApiKey | XApiKey | XGoogApiKey | XiApiKey | OcpApimSubscriptionKey

definition secret_header_ALL :: "secret_header list" where
  "secret_header_ALL =
     [ApiKey, XApiKey, XGoogApiKey, XiApiKey, OcpApimSubscriptionKey]"

fun secret_header_name :: "secret_header \<Rightarrow> string" where
  "secret_header_name ApiKey = ''api-key''"
| "secret_header_name XApiKey = ''x-api-key''"
| "secret_header_name XGoogApiKey = ''x-goog-api-key''"
| "secret_header_name XiApiKey = ''xi-api-key''"
| "secret_header_name OcpApimSubscriptionKey = ''ocp-apim-subscription-key''"

section \<open>Host-signed headers\<close>

datatype signed_header =
    Authorization | XAmzDate | XAmzContentSha256 | XAmzSecurityToken

definition signed_header_ALL :: "signed_header list" where
  "signed_header_ALL =
     [Authorization, XAmzDate, XAmzContentSha256, XAmzSecurityToken]"

fun signed_header_name :: "signed_header \<Rightarrow> string" where
  "signed_header_name Authorization = ''authorization''"
| "signed_header_name XAmzDate = ''x-amz-date''"
| "signed_header_name XAmzContentSha256 = ''x-amz-content-sha256''"
| "signed_header_name XAmzSecurityToken = ''x-amz-security-token''"

datatype signed_header_set_error = SetEmpty | SetDuplicate

record signed_header_set =
  ss_headers :: "signed_header list"

definition signed_header_set_new ::
  "signed_header list \<Rightarrow> (signed_header_set, signed_header_set_error) result" where
  "signed_header_set_new headers =
     (if headers = [] then Err SetEmpty
      else
        let normalized = filter (\<lambda>candidate. candidate \<in> set headers) signed_header_ALL
        in if length normalized \<noteq> length headers then Err SetDuplicate
           else Ok \<lparr>ss_headers = normalized\<rparr>)"

definition signed_set_contains :: "signed_header_set \<Rightarrow> signed_header \<Rightarrow> bool" where
  "signed_set_contains s header \<longleftrightarrow> header \<in> set (ss_headers s)"

section \<open>Closed response fields\<close>

datatype quota_field =
    XRateLimitLimitTokens | XRateLimitRemainingTokens | XRateLimitResetTokens
  | AnthropicRateLimitTokensLimit | AnthropicRateLimitTokensRemaining
  | AnthropicRateLimitTokensReset | AnthropicRateLimitUnifiedLimit
  | AnthropicRateLimitUnifiedRemaining | AnthropicRateLimitUnifiedReset

definition quota_field_ALL :: "quota_field list" where
  "quota_field_ALL =
     [XRateLimitLimitTokens, XRateLimitRemainingTokens, XRateLimitResetTokens,
      AnthropicRateLimitTokensLimit, AnthropicRateLimitTokensRemaining,
      AnthropicRateLimitTokensReset, AnthropicRateLimitUnifiedLimit,
      AnthropicRateLimitUnifiedRemaining, AnthropicRateLimitUnifiedReset]"

fun quota_header_name :: "quota_field \<Rightarrow> string" where
  "quota_header_name XRateLimitLimitTokens = ''x-ratelimit-limit-tokens''"
| "quota_header_name XRateLimitRemainingTokens = ''x-ratelimit-remaining-tokens''"
| "quota_header_name XRateLimitResetTokens = ''x-ratelimit-reset-tokens''"
| "quota_header_name AnthropicRateLimitTokensLimit = ''anthropic-ratelimit-tokens-limit''"
| "quota_header_name AnthropicRateLimitTokensRemaining = ''anthropic-ratelimit-tokens-remaining''"
| "quota_header_name AnthropicRateLimitTokensReset = ''anthropic-ratelimit-tokens-reset''"
| "quota_header_name AnthropicRateLimitUnifiedLimit = ''anthropic-ratelimit-unified-limit''"
| "quota_header_name AnthropicRateLimitUnifiedRemaining = ''anthropic-ratelimit-unified-remaining''"
| "quota_header_name AnthropicRateLimitUnifiedReset = ''anthropic-ratelimit-unified-reset''"

fun quota_index :: "quota_field \<Rightarrow> nat" where
  "quota_index XRateLimitLimitTokens = 0"
| "quota_index XRateLimitRemainingTokens = 1"
| "quota_index XRateLimitResetTokens = 2"
| "quota_index AnthropicRateLimitTokensLimit = 3"
| "quota_index AnthropicRateLimitTokensRemaining = 4"
| "quota_index AnthropicRateLimitTokensReset = 5"
| "quota_index AnthropicRateLimitUnifiedLimit = 6"
| "quota_index AnthropicRateLimitUnifiedRemaining = 7"
| "quota_index AnthropicRateLimitUnifiedReset = 8"

text \<open>\<open>Iterator::find\<close> over \<open>ALL\<close>.\<close>

definition quota_from_header_name :: "string \<Rightarrow> quota_field option" where
  "quota_from_header_name name = List.find (\<lambda>f. quota_header_name f = name) quota_field_ALL"

datatype diagnostic_field =
    XRequestId | RequestId | AnthropicRequestId | OpenAiOrganization | OpenAiProcessingMs
  | OpenAiVersion | CfRay | Server

definition diagnostic_field_ALL :: "diagnostic_field list" where
  "diagnostic_field_ALL =
     [XRequestId, RequestId, AnthropicRequestId, OpenAiOrganization, OpenAiProcessingMs,
      OpenAiVersion, CfRay, Server]"

fun diagnostic_header_name :: "diagnostic_field \<Rightarrow> string" where
  "diagnostic_header_name XRequestId = ''x-request-id''"
| "diagnostic_header_name RequestId = ''request-id''"
| "diagnostic_header_name AnthropicRequestId = ''anthropic-request-id''"
| "diagnostic_header_name OpenAiOrganization = ''openai-organization''"
| "diagnostic_header_name OpenAiProcessingMs = ''openai-processing-ms''"
| "diagnostic_header_name OpenAiVersion = ''openai-version''"
| "diagnostic_header_name CfRay = ''cf-ray''"
| "diagnostic_header_name Server = ''server''"

fun diagnostic_index :: "diagnostic_field \<Rightarrow> nat" where
  "diagnostic_index XRequestId = 0"
| "diagnostic_index RequestId = 1"
| "diagnostic_index AnthropicRequestId = 2"
| "diagnostic_index OpenAiOrganization = 3"
| "diagnostic_index OpenAiProcessingMs = 4"
| "diagnostic_index OpenAiVersion = 5"
| "diagnostic_index CfRay = 6"
| "diagnostic_index Server = 7"

section \<open>The closed enumerations are complete\<close>

lemma secret_header_ALL_all: "h \<in> set secret_header_ALL"
  by (cases h) (simp_all add: secret_header_ALL_def)

lemma signed_header_ALL_all: "h \<in> set signed_header_ALL"
  by (cases h) (simp_all add: signed_header_ALL_def)

lemma signed_header_ALL_distinct: "distinct signed_header_ALL"
  by (simp add: signed_header_ALL_def)

lemma quota_field_ALL_all: "f \<in> set quota_field_ALL"
  by (cases f) (simp_all add: quota_field_ALL_def)

lemma diagnostic_field_ALL_all: "f \<in> set diagnostic_field_ALL"
  by (cases f) (simp_all add: diagnostic_field_ALL_def)

lemma quota_index_ALL: "map quota_index quota_field_ALL = [0..<length quota_field_ALL]"
  by (simp add: quota_field_ALL_def upt_rec)

lemma diagnostic_index_ALL: "map diagnostic_index diagnostic_field_ALL = [0..<length diagnostic_field_ALL]"
  by (simp add: diagnostic_field_ALL_def upt_rec)

text \<open>A field whose indices enumerate a list without repetition names that list's elements.\<close>

lemma enumerated_by_index:
  assumes "\<And>f. f \<in> set fs" and "map ix fs = [0..<length fs]"
  shows "inj ix" and "ix f < length fs" and "fs ! ix f = f"
proof -
  have "distinct (map ix fs)" by (simp add: assms(2))
  then have "inj_on ix (set fs)" by (simp add: distinct_map)
  moreover have "set fs = UNIV" using assms(1) by blast
  ultimately show inj: "inj ix" by simp
  have "ix f \<in> set (map ix fs)" using assms(1) by simp
  then show less: "ix f < length fs" by (simp add: assms(2))
  have "ix (fs ! ix f) = map ix fs ! ix f" using less by simp
  also have "\<dots> = ix f" using less by (simp add: assms(2))
  finally show "fs ! ix f = f" using inj by (simp add: inj_eq)
qed

lemmas quota_enumerated = enumerated_by_index [OF quota_field_ALL_all quota_index_ALL]
lemmas diagnostic_enumerated = enumerated_by_index [OF diagnostic_field_ALL_all diagnostic_index_ALL]

section \<open>Properties\<close>

lemma normalized_signed_length:
  "length (filter (\<lambda>h. h \<in> set hs) signed_header_ALL) = length hs \<longleftrightarrow> distinct hs"
proof -
  let ?n = "filter (\<lambda>h. h \<in> set hs) signed_header_ALL"
  have s: "set ?n = set hs" using signed_header_ALL_all by auto
  have "distinct ?n" by (simp add: signed_header_ALL_distinct)
  then have "length ?n = card (set ?n)" by (rule distinct_card [symmetric])
  with s have "length ?n = card (set hs)" by simp
  then show ?thesis by (metis card_distinct distinct_card)
qed

text \<open>
  A host-signed declaration is accepted exactly when it names at least one header and
  none twice; what it keeps is the declared set, and it depends on nothing else: two accepted
  declarations are equal exactly when they name the same headers, whatever order each was written
  in. An empty declaration and a repeated header are told apart by their errors.
\<close>

theorem signed_set_is_the_declared_set:
  "signed_header_set_new [] = Err SetEmpty \<and>
   (hs \<noteq> [] \<longrightarrow> \<not> distinct hs \<longrightarrow> signed_header_set_new hs = Err SetDuplicate) \<and>
   (hs \<noteq> [] \<longrightarrow> distinct hs \<longrightarrow>
     (\<exists>s. signed_header_set_new hs = Ok s \<and> distinct (ss_headers s) \<and>
       (\<forall>h. signed_set_contains s h \<longleftrightarrow> h \<in> set hs) \<and>
       (\<forall>hs'. signed_header_set_new hs' = Ok s \<longleftrightarrow> distinct hs' \<and> set hs' = set hs)))"
proof -
  have other: "signed_header_set_new hs' = Ok \<lparr>ss_headers = filter (\<lambda>h. h \<in> set hs) signed_header_ALL\<rparr>
      \<longleftrightarrow> distinct hs' \<and> set hs' = set hs" if "hs \<noteq> []" for hs'
  proof -
    let ?n = "\<lambda>xs. filter (\<lambda>h. h \<in> set xs) signed_header_ALL"
    have "set (?n xs) = set xs" for xs using signed_header_ALL_all by auto
    then have "?n hs' = ?n hs \<longleftrightarrow> set hs' = set hs" by metis
    with that show ?thesis
      by (auto simp: signed_header_set_new_def Let_def normalized_signed_length)
  qed
  show ?thesis
    using other
    by (auto simp: signed_header_set_new_def Let_def normalized_signed_length signed_set_contains_def
        signed_header_ALL_distinct signed_header_ALL_all)
qed

theorem signed_set_is_the_declared_set_witness:
  "\<exists>s. signed_header_set_new [XAmzDate, Authorization] = Ok s \<and>
     signed_header_set_new [Authorization, XAmzDate] = Ok s"
proof -
  have "set [Authorization, XAmzDate] = set [XAmzDate, Authorization]" by auto
  then show ?thesis
    using signed_set_is_the_declared_set [of "[XAmzDate, Authorization]"] by fastforce
qed

end
