(* ===== verification/Secret_Headers.thy ===== *)
theory Secret_Headers
  imports Ascii Header_Names
begin

text \<open>
  \<open>south-contracts/src/secret_header.rs\<close>: the secret-bearing header names a package declares in its
  manifest. A name is stored inline as a length and a 64-byte array; a declaration is a bounded,
  duplicate-free list of names, compared case-insensitively.
\<close>

definition MAX_SECRET_HEADER_NAME_BYTES :: nat where
  "MAX_SECRET_HEADER_NAME_BYTES = 64"

definition MAX_DECLARED_SECRET_HEADERS :: nat where
  "MAX_DECLARED_SECRET_HEADERS = 8"

definition UNDECLARABLE_SECRET_HEADER_NAMES :: "string list" where
  "UNDECLARABLE_SECRET_HEADER_NAMES =
     [''accept'', ''accept-encoding'', ''anthropic-ratelimit-tokens-limit'',
      ''anthropic-ratelimit-tokens-remaining'', ''anthropic-ratelimit-tokens-reset'',
      ''anthropic-ratelimit-unified-limit'', ''anthropic-ratelimit-unified-remaining'',
      ''anthropic-ratelimit-unified-reset'', ''anthropic-request-id'', ''api-key'',
      ''authorization'', ''cf-ray'', ''connection'', ''content-encoding'', ''content-length'',
      ''content-type'', ''cookie'', ''expect'', ''forwarded'', ''host'', ''http2-settings'',
      ''keep-alive'', ''ocp-apim-subscription-key'', ''openai-organization'',
      ''openai-processing-ms'', ''openai-version'', ''proxy-authenticate'',
      ''proxy-authorization'', ''proxy-connection'', ''request-id'', ''retry-after'', ''server'',
      ''set-cookie'', ''set-cookie2'', ''te'', ''trailer'', ''transfer-encoding'', ''upgrade'',
      ''user-agent'', ''via'', ''www-authenticate'', ''x-amz-content-sha256'', ''x-amz-date'',
      ''x-amz-security-token'', ''x-api-key'', ''x-goog-api-key'', ''x-ratelimit-limit-tokens'',
      ''x-ratelimit-remaining-tokens'', ''x-ratelimit-reset-tokens'', ''x-request-id'',
      ''xi-api-key'']"

section \<open>One declared name\<close>

record declared_secret_header =
  dsh_len :: "8 word"
  dsh_name :: bytes

definition is_lowercase_tchar :: "byte \<Rightarrow> bool" where
  "is_lowercase_tchar c \<longleftrightarrow>
     is_ascii_lowercase c \<or> is_ascii_digit c \<or>
     c \<in> set [CHR ''!'', CHR ''#'', CHR ''$'', CHR ''%'', CHR ''&'', CHR 0x27, CHR ''*'', CHR ''+'',
       CHR ''-'', CHR ''.'', CHR ''^'', CHR ''_'', CHR 0x60, CHR ''|'', CHR ''~'']"

definition secret_header_parse :: "string \<Rightarrow> (declared_secret_header, contract_error) result" where
  "secret_header_parse input =
     (let valid =
        input \<noteq> [] \<and> length input \<le> MAX_SECRET_HEADER_NAME_BYTES \<and>
        list_all is_lowercase_tchar input \<and> input \<notin> set UNDECLARABLE_SECRET_HEADER_NAMES
      in if \<not> valid then Err InvalidSecretHeaderName
         else if 255 < length input then Err InvalidSecretHeaderName
         else Ok
           \<lparr>dsh_len = of_nat (length input),
            dsh_name = input @ replicate (MAX_SECRET_HEADER_NAME_BYTES - length input) (CHR 0x00)\<rparr>)"

definition dsh_as_str :: "declared_secret_header \<Rightarrow> string" where
  "dsh_as_str h =
     (let name = (if unat (dsh_len h) \<le> length (dsh_name h) then take (unat (dsh_len h)) (dsh_name h) else [])
      in if utf8_valid name then name else [])"

section \<open>A package's declaration\<close>

record declared_secret_headers =
  dshs_names :: "declared_secret_header list option"

definition dshs_none :: declared_secret_headers where
  "dshs_none = \<lparr>dshs_names = None\<rparr>"

fun dshs_collect ::
  "declared_secret_header list \<Rightarrow> declared_secret_header list
    \<Rightarrow> (declared_secret_header list, contract_error) result" where
  "dshs_collect names [] = Ok names"
| "dshs_collect names (header # headers) =
     (if MAX_DECLARED_SECRET_HEADERS \<le> length names \<or> header \<in> set names
      then Err InvalidSecretHeaderSet
      else dshs_collect (names @ [header]) headers)"

definition dshs_try_new ::
  "declared_secret_header list \<Rightarrow> (declared_secret_headers, contract_error) result" where
  "dshs_try_new headers =
     and_then (dshs_collect [] headers)
       (\<lambda>names. Ok \<lparr>dshs_names = (if names = [] then None else Some names)\<rparr>)"

text \<open>Collecting an iterator of \<open>Result\<close>s stops at the first error.\<close>

fun collect_results :: "('a, 'e) result list \<Rightarrow> ('a list, 'e) result" where
  "collect_results [] = Ok []"
| "collect_results (r # rs) = and_then r (\<lambda>a. and_then (collect_results rs) (\<lambda>as. Ok (a # as)))"

definition dshs_try_from_names :: "string list \<Rightarrow> (declared_secret_headers, contract_error) result" where
  "dshs_try_from_names names =
     and_then (collect_results (map secret_header_parse names)) dshs_try_new"

definition dshs_as_slice :: "declared_secret_headers \<Rightarrow> declared_secret_header list" where
  "dshs_as_slice d = (case dshs_names d of Some names \<Rightarrow> names | None \<Rightarrow> [])"

definition dshs_contains :: "declared_secret_headers \<Rightarrow> string \<Rightarrow> bool" where
  "dshs_contains d name \<longleftrightarrow>
     list_ex (\<lambda>declared. eq_ignore_ascii_case (dsh_as_str declared) name) (dshs_as_slice d)"

definition dshs_len :: "declared_secret_headers \<Rightarrow> nat" where
  "dshs_len d = length (dshs_as_slice d)"

definition dshs_is_empty :: "declared_secret_headers \<Rightarrow> bool" where
  "dshs_is_empty d \<longleftrightarrow> dshs_as_slice d = []"

section \<open>Names\<close>

text \<open>The names a package may declare.\<close>

definition declarable :: "string \<Rightarrow> bool" where
  "declarable s \<longleftrightarrow>
     s \<noteq> [] \<and> length s \<le> MAX_SECRET_HEADER_NAME_BYTES \<and> list_all is_lowercase_tchar s \<and>
     s \<notin> set UNDECLARABLE_SECRET_HEADER_NAMES"

lemma lowercase_tchar_ascii: "is_lowercase_tchar c \<Longrightarrow> ascii c"
  by (auto simp: is_lowercase_tchar_def ascii_def byte_class byte_in_def)

lemma lowercase_tchar_not_upper: "is_lowercase_tchar c \<Longrightarrow> \<not> is_ascii_uppercase c"
  by (auto simp: is_lowercase_tchar_def byte_class byte_in_def)

lemma lowercase_token_lower: "list_all is_lowercase_tchar s \<Longrightarrow> to_ascii_lowercase s = s"
  by (rule to_ascii_lowercase_plain) (auto simp: list_all_iff lowercase_tchar_not_upper)

lemma unat_of_length: "n \<le> 255 \<Longrightarrow> unat (of_nat n :: 8 word) = n"
  by (simp add: unat_of_nat)

lemma secret_header_parse_declarable:
  "declarable s \<Longrightarrow>
    secret_header_parse s =
      Ok \<lparr>dsh_len = of_nat (length s), dsh_name = s @ replicate (64 - length s) (CHR 0x00)\<rparr>"
  by (auto simp: secret_header_parse_def declarable_def MAX_SECRET_HEADER_NAME_BYTES_def)

lemma secret_header_parse_undeclarable:
  "\<not> declarable s \<Longrightarrow> secret_header_parse s = Err InvalidSecretHeaderName"
  by (auto simp: secret_header_parse_def declarable_def)

lemma secret_header_parse_as_str:
  assumes "secret_header_parse s = Ok h" shows "dsh_as_str h = s"
proof -
  have "declarable s" using assms secret_header_parse_undeclarable by fastforce
  moreover from this have "utf8_valid s"
    by (auto simp: declarable_def list_all_iff lowercase_tchar_ascii intro!: utf8_valid_ascii)
  ultimately show ?thesis
    using assms
    by (auto simp: secret_header_parse_declarable dsh_as_str_def Let_def unat_of_length
        declarable_def MAX_SECRET_HEADER_NAME_BYTES_def)
qed

text \<open>
  A declared secret header name is accepted exactly when it is a lowercase RFC 9110 token
  of 1 to 64 bytes that is not on the undeclarable list, it reads back as declared, and it is
  refused with \<open>INVALID_SECRET_HEADER_NAME\<close> otherwise. The list covers every name that already has
  an owner: the reserved request headers, the transcript denials, the sanctioned secret headers,
  the host-signed headers and the closed quota and diagnostic fields can never be declared.
\<close>

theorem declared_secret_header_exact:
  "(\<exists>h. secret_header_parse s = Ok h \<and> dsh_as_str h = s) = declarable s \<and>
   (\<not> declarable s \<longrightarrow> secret_header_parse s = Err InvalidSecretHeaderName) \<and>
   (declarable s \<longrightarrow>
     s \<notin> set RESERVED_HEADERS \<and> s \<notin> set RESPONSE_TRANSCRIPT_DENIED_HEADERS \<and>
     s \<notin> range secret_header_name \<and> s \<notin> range signed_header_name \<and>
     s \<notin> range quota_header_name \<and> s \<notin> range diagnostic_header_name)"
proof -
  let ?U = "set UNDECLARABLE_SECRET_HEADER_NAMES"
  have "set RESERVED_HEADERS \<union> set RESPONSE_TRANSCRIPT_DENIED_HEADERS \<subseteq> ?U"
    by (simp add: RESERVED_HEADERS_def RESPONSE_TRANSCRIPT_DENIED_HEADERS_def
        UNDECLARABLE_SECRET_HEADER_NAMES_def)
  moreover have "secret_header_name h \<in> ?U" for h
    by (cases h) (simp_all add: UNDECLARABLE_SECRET_HEADER_NAMES_def)
  moreover have "signed_header_name h \<in> ?U" for h
    by (cases h) (simp_all add: UNDECLARABLE_SECRET_HEADER_NAMES_def)
  moreover have "quota_header_name h \<in> ?U" for h
    by (cases h) (simp_all add: UNDECLARABLE_SECRET_HEADER_NAMES_def)
  moreover have "diagnostic_header_name h \<in> ?U" for h
    by (cases h) (simp_all add: UNDECLARABLE_SECRET_HEADER_NAMES_def)
  ultimately have "declarable s \<longrightarrow>
     s \<notin> set RESERVED_HEADERS \<and> s \<notin> set RESPONSE_TRANSCRIPT_DENIED_HEADERS \<and>
     s \<notin> range secret_header_name \<and> s \<notin> range signed_header_name \<and>
     s \<notin> range quota_header_name \<and> s \<notin> range diagnostic_header_name"
    unfolding declarable_def by blast
  moreover have "(\<exists>h. secret_header_parse s = Ok h \<and> dsh_as_str h = s) = declarable s"
    using secret_header_parse_as_str [of s]
    by (cases "declarable s") (simp_all add: secret_header_parse_declarable secret_header_parse_undeclarable)
  ultimately show ?thesis
    by (simp add: secret_header_parse_undeclarable)
qed

theorem declared_secret_header_exact_witness:
  "(\<exists>h. secret_header_parse ''x-vendor-key'' = Ok h \<and> dsh_as_str h = ''x-vendor-key'') \<and>
   ''x-vendor-key'' \<notin> set RESERVED_HEADERS \<and>
   secret_header_parse ''x-api-key'' = Err InvalidSecretHeaderName"
proof -
  have "declarable ''x-vendor-key''" "\<not> declarable ''x-api-key''"
    by (simp_all add: declarable_def MAX_SECRET_HEADER_NAME_BYTES_def is_lowercase_tchar_def
        byte_class byte_in_def UNDECLARABLE_SECRET_HEADER_NAMES_def)
  then show ?thesis
    using declared_secret_header_exact [of "''x-vendor-key''"]
      declared_secret_header_exact [of "''x-api-key''"] by blast
qed

section \<open>Declarations\<close>

lemma dshs_collect_eq:
  "length names \<le> MAX_DECLARED_SECRET_HEADERS \<Longrightarrow> distinct names \<Longrightarrow>
    dshs_collect names headers =
      (if distinct (names @ headers) \<and> length (names @ headers) \<le> MAX_DECLARED_SECRET_HEADERS
       then Ok (names @ headers) else Err InvalidSecretHeaderSet)"
proof (induction names headers rule: dshs_collect.induct)
  case (2 names header headers)
  then show ?case by (cases "MAX_DECLARED_SECRET_HEADERS \<le> length names \<or> header \<in> set names") auto
qed simp

lemma collect_results_Err:
  "collect_results rs = Err e \<Longrightarrow> Err e \<in> set rs"
proof (induction rs)
  case (Cons r rs)
  then show ?case by (cases r; cases "collect_results rs") auto
qed simp

lemma collect_results_Ok:
  "collect_results rs = Ok as \<longleftrightarrow> rs = map Ok as"
proof (induction rs arbitrary: as)
  case (Cons r rs)
  then show ?case by (cases r; cases as; cases "collect_results rs") auto
qed (auto)

lemma collect_parsed:
  "(\<forall>s \<in> set names. declarable s) \<Longrightarrow>
    \<exists>hs. collect_results (map secret_header_parse names) = Ok hs \<and> map dsh_as_str hs = names \<and>
      (distinct hs \<longleftrightarrow> distinct names)"
proof (induction names)
  case (Cons s names)
  then obtain hs h where hs: "collect_results (map secret_header_parse names) = Ok hs"
      "map dsh_as_str hs = names" "distinct hs \<longleftrightarrow> distinct names"
    and h: "secret_header_parse s = Ok h" "dsh_as_str h = s"
    using secret_header_parse_declarable secret_header_parse_as_str by fastforce
  have eq: "map secret_header_parse names = map Ok hs" using hs(1) by (simp add: collect_results_Ok)
  have "h \<in> set hs \<longleftrightarrow> s \<in> set names"
  proof
    assume "s \<in> set names"
    then have "Ok h \<in> set (map secret_header_parse names)" using h(1) by force
    then show "h \<in> set hs" by (auto simp: eq)
  qed (use hs(2) h(2) in force)
  with hs h show ?case by (auto intro: exI [of _ "h # hs"])
qed simp

lemma dshs_try_from_names_cases:
  "(list_all declarable names \<longrightarrow> distinct names \<longrightarrow> length names \<le> MAX_DECLARED_SECRET_HEADERS \<longrightarrow>
     (\<exists>d. dshs_try_from_names names = Ok d \<and> map dsh_as_str (dshs_as_slice d) = names \<and>
       dshs_len d = length names \<and> dshs_is_empty d = (names = []) \<and>
       (\<forall>n. dshs_contains d n \<longleftrightarrow> to_ascii_lowercase n \<in> set names))) \<and>
   (\<not> list_all declarable names \<longrightarrow> dshs_try_from_names names = Err InvalidSecretHeaderName) \<and>
   (list_all declarable names \<longrightarrow>
     \<not> distinct names \<or> MAX_DECLARED_SECRET_HEADERS < length names \<longrightarrow>
     dshs_try_from_names names = Err InvalidSecretHeaderSet)"
proof (cases "list_all declarable names")
  case False
  then obtain s where s: "s \<in> set names" "\<not> declarable s" by (auto simp: list_all_iff)
  then have "Err InvalidSecretHeaderName \<in> set (map secret_header_parse names)"
    using secret_header_parse_undeclarable by force
  then have "map secret_header_parse names \<noteq> map Ok hs" for hs
    by (metis image_iff list.set_map result.distinct(1))
  then obtain e where e: "collect_results (map secret_header_parse names) = Err e"
    by (metis collect_results_Ok result.exhaust)
  moreover obtain n where n: "secret_header_parse n = Err e"
    using collect_results_Err [OF e] by auto
  moreover have "e = InvalidSecretHeaderName"
    using n by (cases "declarable n")
      (simp_all add: secret_header_parse_declarable secret_header_parse_undeclarable)
  ultimately show ?thesis
    using False by (simp add: dshs_try_from_names_def)
next
  case True
  then obtain hs where hs: "collect_results (map secret_header_parse names) = Ok hs"
      "map dsh_as_str hs = names" "distinct hs \<longleftrightarrow> distinct names"
    using collect_parsed [of names] by (auto simp: list_all_iff)
  have len: "length hs = length names" using hs(2) by (metis length_map)
  have new: "dshs_try_from_names names =
      (if distinct names \<and> length names \<le> MAX_DECLARED_SECRET_HEADERS
       then Ok \<lparr>dshs_names = (if hs = [] then None else Some hs)\<rparr> else Err InvalidSecretHeaderSet)"
    using hs len dshs_collect_eq [of "[]" hs]
    by (simp add: dshs_try_from_names_def dshs_try_new_def)
  have slice: "dshs_as_slice \<lparr>dshs_names = (if hs = [] then None else Some hs)\<rparr> = hs"
    by (simp add: dshs_as_slice_def)
  have "to_ascii_lowercase s = s" if "s \<in> set names" for s
    using True that by (auto simp: list_all_iff [of declarable] declarable_def lowercase_token_lower)
  then have "list_ex (\<lambda>h. eq_ignore_ascii_case (dsh_as_str h) n) hs \<longleftrightarrow> to_ascii_lowercase n \<in> set names"
    for n
    by (force simp: list_ex_iff eq_ignore_ascii_case_def simp flip: hs(2))
  with True new slice len hs(2) show ?thesis
    by (auto simp: dshs_contains_def dshs_len_def dshs_is_empty_def)
qed

lemma dshs_declared:
  assumes "dshs_try_from_names names = Ok d"
  shows "list_all declarable names \<and> (\<forall>n. dshs_contains d n \<longleftrightarrow> to_ascii_lowercase n \<in> set names)"
  using assms dshs_try_from_names_cases [of names] by (metis not_less result.distinct(1) result.inject(1))

text \<open>
  A manifest's list of secret headers is accepted exactly when every name is declarable,
  none is repeated and there are at most eight. The declaration then holds the names in the order
  given, and \<open>contains\<close> decides membership of a name in any letter case. A refused name is reported
  before a malformed set.
\<close>

theorem declared_secret_headers_exact:
  "(list_all declarable names \<longrightarrow> distinct names \<longrightarrow> length names \<le> MAX_DECLARED_SECRET_HEADERS \<longrightarrow>
     (\<exists>d. dshs_try_from_names names = Ok d \<and> map dsh_as_str (dshs_as_slice d) = names \<and>
       dshs_len d = length names \<and> dshs_is_empty d = (names = []) \<and>
       (\<forall>n. dshs_contains d n \<longleftrightarrow> to_ascii_lowercase n \<in> set names))) \<and>
   (\<not> list_all declarable names \<longrightarrow> dshs_try_from_names names = Err InvalidSecretHeaderName) \<and>
   (list_all declarable names \<longrightarrow>
     \<not> distinct names \<or> MAX_DECLARED_SECRET_HEADERS < length names \<longrightarrow>
     dshs_try_from_names names = Err InvalidSecretHeaderSet)"
  by (rule dshs_try_from_names_cases)

theorem declared_secret_headers_exact_witness:
  "(\<exists>d. dshs_try_from_names [''x-vendor-key''] = Ok d \<and> dshs_contains d ''X-Vendor-Key'') \<and>
   dshs_try_from_names [''x-vendor-key'', ''host''] = Err InvalidSecretHeaderName \<and>
   dshs_try_from_names [''x-vendor-key'', ''x-vendor-key''] = Err InvalidSecretHeaderSet"
proof -
  have d: "declarable ''x-vendor-key''" "\<not> declarable ''host''"
    by (simp_all add: declarable_def MAX_SECRET_HEADER_NAME_BYTES_def is_lowercase_tchar_def
        byte_class byte_in_def UNDECLARABLE_SECRET_HEADER_NAMES_def)
  have "to_ascii_lowercase ''X-Vendor-Key'' = ''x-vendor-key''" by code_simp
  with d show ?thesis
    using declared_secret_headers_exact [of "[''x-vendor-key'']"]
      declared_secret_headers_exact [of "[''x-vendor-key'', ''host'']"]
      declared_secret_headers_exact [of "[''x-vendor-key'', ''x-vendor-key'']"]
    by (auto simp: MAX_DECLARED_SECRET_HEADERS_def)
qed

end
