(* ===== verification/Safe_Headers.thy ===== *)
theory Safe_Headers
  imports Secret_Headers Ordered_Map
begin

text \<open>
  \<open>SafeHeaders\<close> of \<open>south-contracts/src/lib.rs\<close>: the bounded set of ordinary request headers a
  provider adapter may supply. The \<open>http\<close> crate is a parameter: \<open>hn\<close> stands for
  \<open>HeaderName::from_bytes\<close> followed by \<open>as_str\<close>, \<open>hv\<close> for the success of \<open>HeaderValue::from_str\<close>.
  What is relied on of the first is its documented normalisation to lower case.
\<close>

definition MAX_PROVIDER_HEADER_COUNT :: nat where
  "MAX_PROVIDER_HEADER_COUNT = 64"

definition MAX_PROVIDER_HEADER_NAME_BYTES :: nat where
  "MAX_PROVIDER_HEADER_NAME_BYTES = 256"

definition MAX_PROVIDER_HEADER_VALUE_BYTES :: nat where
  "MAX_PROVIDER_HEADER_VALUE_BYTES = 16 * 1024"

definition MAX_PROVIDER_HEADER_TOTAL_BYTES :: nat where
  "MAX_PROVIDER_HEADER_TOTAL_BYTES = 64 * 1024"

lemmas header_limits =
  MAX_PROVIDER_HEADER_COUNT_def MAX_PROVIDER_HEADER_NAME_BYTES_def
  MAX_PROVIDER_HEADER_VALUE_BYTES_def MAX_PROVIDER_HEADER_TOTAL_BYTES_def

record safe_headers =
  sh_values :: "(string, string) btree"
  sh_secret_headers :: declared_secret_headers

definition normalize_name ::
  "(bytes \<Rightarrow> string option) \<Rightarrow> string \<Rightarrow> (string, header_policy_error) result" where
  "normalize_name hn name = ok_or (hn name) InvalidName"

definition is_reserved :: "string \<Rightarrow> bool" where
  "is_reserved name \<longleftrightarrow> name \<in> set RESERVED_HEADERS"

fun headers_loop ::
  "(bytes \<Rightarrow> string option) \<Rightarrow> (string \<Rightarrow> bool) \<Rightarrow> declared_secret_headers \<Rightarrow>
    (string, string) btree \<Rightarrow> nat \<Rightarrow> nat \<Rightarrow> (string \<times> string) list \<Rightarrow>
    ((string, string) btree, header_policy_error) result" where
  "headers_loop hn hv secrets values header_count total_bytes [] = Ok values"
| "headers_loop hn hv secrets values header_count total_bytes ((name, v) # headers) =
     and_then (ok_or (checked_add header_count 1) TooManyHeaders) (\<lambda>header_count'.
       if MAX_PROVIDER_HEADER_COUNT < header_count' then Err TooManyHeaders
       else if MAX_PROVIDER_HEADER_NAME_BYTES < length name then Err NameTooLong
       else if MAX_PROVIDER_HEADER_VALUE_BYTES < length v then Err ValueTooLong
       else
         and_then
           (ok_or (Option.bind (checked_add total_bytes (length name))
              (\<lambda>size. checked_add size (length v))) TotalSizeExceeded) (\<lambda>total_bytes'.
           if MAX_PROVIDER_HEADER_TOTAL_BYTES < total_bytes' then Err TotalSizeExceeded
           else
             and_then (normalize_name hn name) (\<lambda>normalized_name.
               if is_reserved normalized_name \<or> dshs_contains secrets normalized_name
               then Err ReservedHeader
               else if \<not> hv v then Err InvalidValue
               else if bt_get values normalized_name \<noteq> None then Err DuplicateHeader
               else headers_loop hn hv secrets (bt_insert normalized_name v values)
                      header_count' total_bytes' headers)))"

definition sh_try_from_iter_with_secret_headers ::
  "(bytes \<Rightarrow> string option) \<Rightarrow> (string \<Rightarrow> bool) \<Rightarrow> (string \<times> string) list \<Rightarrow> declared_secret_headers
    \<Rightarrow> (safe_headers, header_policy_error) result" where
  "sh_try_from_iter_with_secret_headers hn hv headers secrets =
     and_then (headers_loop hn hv secrets [] 0 0 headers)
       (\<lambda>values. Ok \<lparr>sh_values = values, sh_secret_headers = secrets\<rparr>)"

definition sh_try_from_iter ::
  "(bytes \<Rightarrow> string option) \<Rightarrow> (string \<Rightarrow> bool) \<Rightarrow> (string \<times> string) list
    \<Rightarrow> (safe_headers, header_policy_error) result" where
  "sh_try_from_iter hn hv headers = sh_try_from_iter_with_secret_headers hn hv headers dshs_none"

definition sh_get :: "(bytes \<Rightarrow> string option) \<Rightarrow> safe_headers \<Rightarrow> string \<Rightarrow> string option" where
  "sh_get hn h name =
     (case normalize_name hn name of Ok normalized \<Rightarrow> bt_get (sh_values h) normalized | Err _ \<Rightarrow> None)"

definition sh_is_empty :: "safe_headers \<Rightarrow> bool" where
  "sh_is_empty h \<longleftrightarrow> sh_values h = []"

definition sh_len :: "safe_headers \<Rightarrow> nat" where
  "sh_len h = length (sh_values h)"

definition sh_iter :: "safe_headers \<Rightarrow> (string \<times> string) list" where
  "sh_iter h = sh_values h"

section \<open>The admission rule\<close>

text \<open>The documented behaviour of \<open>HeaderName::from_bytes\<close>: names are normalised to lower case.\<close>

definition header_name_law :: "(bytes \<Rightarrow> string option) \<Rightarrow> bool" where
  "header_name_law hn \<longleftrightarrow> (\<forall>n c. hn n = Some c \<longrightarrow> c = to_ascii_lowercase n)"

text \<open>What one header must satisfy, and the bytes it is charged for.\<close>

definition header_admissible ::
  "(bytes \<Rightarrow> string option) \<Rightarrow> (string \<Rightarrow> bool) \<Rightarrow> declared_secret_headers \<Rightarrow> string \<times> string \<Rightarrow> bool" where
  "header_admissible hn hv secrets nv \<longleftrightarrow>
     (case nv of (n, v) \<Rightarrow>
        length n \<le> MAX_PROVIDER_HEADER_NAME_BYTES \<and> length v \<le> MAX_PROVIDER_HEADER_VALUE_BYTES \<and>
        hn n \<noteq> None \<and> \<not> is_reserved (the (hn n)) \<and> \<not> dshs_contains secrets (the (hn n)) \<and> hv v)"

definition header_bytes :: "(string \<times> string) list \<Rightarrow> nat" where
  "header_bytes hs = (\<Sum>(n, v)\<leftarrow>hs. length n + length v)"

definition canonical_headers :: "(bytes \<Rightarrow> string option) \<Rightarrow> (string \<times> string) list \<Rightarrow> (string \<times> string) list" where
  "canonical_headers hn hs = map (\<lambda>(n, v). (the (hn n), v)) hs"

definition headers_admitted ::
  "(bytes \<Rightarrow> string option) \<Rightarrow> (string \<Rightarrow> bool) \<Rightarrow> declared_secret_headers \<Rightarrow> (string \<times> string) list \<Rightarrow> bool" where
  "headers_admitted hn hv secrets hs \<longleftrightarrow>
     length hs \<le> MAX_PROVIDER_HEADER_COUNT \<and> header_bytes hs \<le> MAX_PROVIDER_HEADER_TOTAL_BYTES \<and>
     list_all (header_admissible hn hv secrets) hs \<and> distinct (map fst (canonical_headers hn hs))"

lemma header_bytes_simps [simp]:
  "header_bytes [] = 0"
  "header_bytes ((n, v) # hs) = length n + length v + header_bytes hs"
  by (simp_all add: header_bytes_def)

lemma canonical_headers_simps [simp]:
  "canonical_headers hn [] = []"
  "canonical_headers hn ((n, v) # hs) = (the (hn n), v) # canonical_headers hn hs"
  by (simp_all add: canonical_headers_def)

lemma header_sizes_fit:
  "cnt \<le> MAX_PROVIDER_HEADER_COUNT \<Longrightarrow> checked_add cnt (Suc 0) = Some (Suc cnt)"
  "tot \<le> MAX_PROVIDER_HEADER_TOTAL_BYTES \<Longrightarrow> length n \<le> MAX_PROVIDER_HEADER_NAME_BYTES \<Longrightarrow>
    length v \<le> MAX_PROVIDER_HEADER_VALUE_BYTES \<Longrightarrow>
    Option.bind (checked_add tot (length n)) (\<lambda>size. checked_add size (length v)) =
      Some (tot + length n + length v)"
  by (simp_all add: header_limits checked_add_def usize_max_def)

text \<open>One turn of the loop goes on exactly for an admissible header that still fits.\<close>

definition header_fits ::
  "(bytes \<Rightarrow> string option) \<Rightarrow> (string \<Rightarrow> bool) \<Rightarrow> declared_secret_headers \<Rightarrow>
    (string, string) btree \<Rightarrow> nat \<Rightarrow> nat \<Rightarrow> string \<times> string \<Rightarrow> bool" where
  "header_fits hn hv secrets values cnt tot nv \<longleftrightarrow>
     cnt < MAX_PROVIDER_HEADER_COUNT \<and>
     tot + length (fst nv) + length (snd nv) \<le> MAX_PROVIDER_HEADER_TOTAL_BYTES \<and>
     header_admissible hn hv secrets nv \<and> bt_get values (the (hn (fst nv))) = None"

lemma headers_loop_step:
  assumes "cnt \<le> MAX_PROVIDER_HEADER_COUNT" and "tot \<le> MAX_PROVIDER_HEADER_TOTAL_BYTES"
  shows "header_fits hn hv secrets values cnt tot (n, v) \<Longrightarrow>
      headers_loop hn hv secrets values cnt tot ((n, v) # hs) =
        headers_loop hn hv secrets (bt_insert (the (hn n)) v values) (Suc cnt)
          (tot + length n + length v) hs"
    and "\<not> header_fits hn hv secrets values cnt tot (n, v) \<Longrightarrow>
      \<exists>e. headers_loop hn hv secrets values cnt tot ((n, v) # hs) = Err e"
proof -
  show "headers_loop hn hv secrets values cnt tot ((n, v) # hs) =
        headers_loop hn hv secrets (bt_insert (the (hn n)) v values) (Suc cnt)
          (tot + length n + length v) hs" if fits: "header_fits hn hv secrets values cnt tot (n, v)"
  proof -
    obtain m where "hn n = Some m"
      using fits by (auto simp: header_fits_def header_admissible_def)
    with fits assms show ?thesis
      by (simp add: header_fits_def header_sizes_fit header_admissible_def normalize_name_def)
  qed
  show "\<exists>e. headers_loop hn hv secrets values cnt tot ((n, v) # hs) = Err e"
    if "\<not> header_fits hn hv secrets values cnt tot (n, v)"
  proof (cases "hn n")
    case None
    with assms show ?thesis by (simp add: header_sizes_fit normalize_name_def)
  next
    case (Some m)
    with that assms show ?thesis
      by (simp add: header_fits_def header_sizes_fit header_admissible_def normalize_name_def not_less not_le)
        (auto simp: Suc_le_eq)
  qed
qed

lemma headers_loop_exact:
  assumes "bt_wf values" and "cnt \<le> MAX_PROVIDER_HEADER_COUNT"
    and "tot \<le> MAX_PROVIDER_HEADER_TOTAL_BYTES"
  shows "headers_loop hn hv secrets values cnt tot hs = Ok values' \<longleftrightarrow>
    cnt + length hs \<le> MAX_PROVIDER_HEADER_COUNT \<and>
    tot + header_bytes hs \<le> MAX_PROVIDER_HEADER_TOTAL_BYTES \<and>
    list_all (header_admissible hn hv secrets) hs \<and>
    distinct (map fst (canonical_headers hn hs)) \<and>
    (\<forall>k \<in> fst ` set (canonical_headers hn hs). bt_get values k = None) \<and>
    values' = fold (\<lambda>(k, v). bt_insert k v) (canonical_headers hn hs) values"
  using assms
proof (induction hs arbitrary: "values" cnt tot)
  case Nil
  then show ?case by auto
next
  case (Cons nv hs)
  obtain n v where nv: "nv = (n, v)" by (cases nv)
  show ?case
  proof (cases "header_fits hn hv secrets values cnt tot (n, v)")
    case True
    have step: "headers_loop hn hv secrets values cnt tot (nv # hs) =
        headers_loop hn hv secrets (bt_insert (the (hn n)) v values) (Suc cnt)
          (tot + length n + length v) hs"
      unfolding nv by (rule headers_loop_step(1) [OF Cons.prems(2,3) True])
    have wf: "bt_wf (bt_insert (the (hn n)) v values)" using Cons.prems(1) by (rule bt_insert_wf)
    have "(\<forall>k \<in> fst ` set (canonical_headers hn hs). bt_get (bt_insert (the (hn n)) v values) k = None)
        \<longleftrightarrow> the (hn n) \<notin> fst ` set (canonical_headers hn hs) \<and>
          (\<forall>k \<in> fst ` set (canonical_headers hn hs). bt_get values k = None)"
      using bt_get_insert [OF Cons.prems(1)] by (force split: if_splits)
    with True show ?thesis
      unfolding step
      by (subst Cons.IH [OF wf]) (auto simp: nv header_fits_def add.assoc)
  next
    case False
    then obtain e where "headers_loop hn hv secrets values cnt tot (nv # hs) = Err e"
      using headers_loop_step(2) [OF Cons.prems(2,3)] unfolding nv by blast
    with False show ?thesis by (auto simp: nv header_fits_def)
  qed
qed

lemma bt_wf_Nil [simp]: "bt_wf []"
  by (simp add: bt_wf_def)

lemma sh_try_from_iter_Ok:
  "sh_try_from_iter_with_secret_headers hn hv hs secrets = Ok h \<longleftrightarrow>
     headers_admitted hn hv secrets hs \<and>
     h = \<lparr>sh_values = fold (\<lambda>(k, v). bt_insert k v) (canonical_headers hn hs) [],
          sh_secret_headers = secrets\<rparr>"
  using headers_loop_exact [of "[]" 0 0 hn hv secrets hs]
  by (cases "headers_loop hn hv secrets [] 0 0 hs")
    (auto simp: sh_try_from_iter_with_secret_headers_def headers_admitted_def)

text \<open>Collecting pairs with distinct keys keeps exactly those pairs.\<close>

lemma fold_insert_mset:
  "bt_wf m \<Longrightarrow> distinct (map fst kvs) \<Longrightarrow> (\<forall>k \<in> fst ` set kvs. bt_get m k = None) \<Longrightarrow>
    bt_wf (fold (\<lambda>(k, v). bt_insert k v) kvs m) \<and>
    mset (fold (\<lambda>(k, v). bt_insert k v) kvs m) = mset kvs + mset m"
proof (induction kvs arbitrary: m)
  case (Cons kv kvs)
  obtain k v where kv: "kv = (k, v)" by (cases kv)
  have "\<forall>j \<in> fst ` set kvs. bt_get (bt_insert k v m) j = None"
    using Cons.prems bt_get_insert [OF Cons.prems(1)] by (auto simp: kv image_iff)
  then have "bt_wf (fold (\<lambda>(k, v). bt_insert k v) kvs (bt_insert k v m)) \<and>
      mset (fold (\<lambda>(k, v). bt_insert k v) kvs (bt_insert k v m)) = mset kvs + mset (bt_insert k v m)"
    using Cons.prems by (intro Cons.IH) (auto simp: kv bt_insert_wf)
  then show ?case
    using Cons.prems by (simp add: kv bt_insert_mset)
qed simp

lemma admitted_entries:
  assumes "sh_try_from_iter_with_secret_headers hn hv hs secrets = Ok h"
  shows "bt_wf (sh_values h) \<and> mset (sh_values h) = mset (canonical_headers hn hs)"
  using assms fold_insert_mset [of "[]" "canonical_headers hn hs"]
  by (simp add: sh_try_from_iter_Ok headers_admitted_def)

lemma sh_get_given:
  assumes "sh_try_from_iter_with_secret_headers hn hv hs secrets = Ok h" and "hn n \<noteq> None"
  shows "sh_get hn h n = Some v \<longleftrightarrow> (the (hn n), v) \<in> set (canonical_headers hn hs)"
proof -
  from admitted_entries [OF assms(1)] have wf: "bt_wf (sh_values h)"
    and "set (sh_values h) = set (canonical_headers hn hs)"
    by (auto dest: mset_eq_setD)
  with assms(2) show ?thesis
    using bt.entries_iff [OF wf, of "the (hn n)" v]
    by (auto simp: sh_get_def normalize_name_def)
qed

section \<open>Properties\<close>

lemma canonical_header_mem:
  assumes "(c, v) \<in> set (canonical_headers hn hs)" and "list_all (header_admissible hn hv secrets) hs"
  obtains n where "(n, v) \<in> set hs" and "hn n = Some c" and "header_admissible hn hv secrets (n, v)"
  using assms
  by (fastforce simp: canonical_headers_def list_all_iff header_admissible_def)

lemma admitted_set:
  assumes "sh_try_from_iter_with_secret_headers hn hv hs secrets = Ok h"
  shows "list_all (header_admissible hn hv secrets) hs"
    and "set (sh_iter h) = set (canonical_headers hn hs)"
  using assms admitted_entries [OF assms]
  by (auto simp: sh_try_from_iter_Ok headers_admitted_def sh_iter_def dest: mset_eq_setD)

lemma admitted_name_free:
  assumes "sh_try_from_iter_with_secret_headers hn hv hs secrets = Ok h" and "(n, v) \<in> set (sh_iter h)"
  shows "n \<notin> set RESERVED_HEADERS \<and> \<not> dshs_contains secrets n"
proof -
  obtain b where "hn b = Some n" "header_admissible hn hv secrets (b, v)"
    using canonical_header_mem admitted_set [OF assms(1)] assms(2) by blast
  then show ?thesis by (simp add: header_admissible_def is_reserved_def)
qed

lemma owned_names_reserved:
  "secret_header_name s \<in> set RESERVED_HEADERS" "signed_header_name t \<in> set RESERVED_HEADERS"
  "''authorization'' \<in> set RESERVED_HEADERS" "''user-agent'' \<in> set RESERVED_HEADERS"
  by (cases s; cases t; simp add: RESERVED_HEADERS_def)+

text \<open>
  Claim C32. A set of headers is accepted exactly when there are at most 64 of them, their names and
  values stay within the single and the combined bounds, each name is a header name that is neither
  reserved nor declared secret, each value is a header value, and no two names are equal after
  normalisation. The accepted set holds each header once under its normalised name, in name order,
  and keeps the declaration it was validated under; so the order in which the headers were supplied
  does not matter.
\<close>

theorem safe_headers_exact:
  "(\<exists>h. sh_try_from_iter_with_secret_headers hn hv hs secrets = Ok h \<and>
       mset (sh_iter h) = mset (canonical_headers hn hs) \<and>
       sorted_wrt (<) (map fst (sh_iter h)) \<and> sh_len h = length hs \<and>
       sh_secret_headers h = secrets)
     = headers_admitted hn hv secrets hs \<and>
   (\<exists>e. sh_try_from_iter_with_secret_headers hn hv hs secrets = Err e)
     = (\<not> headers_admitted hn hv secrets hs)"
proof (cases "headers_admitted hn hv secrets hs")
  case True
  define h where "h = \<lparr>sh_values = fold (\<lambda>(k, v). bt_insert k v) (canonical_headers hn hs) [],
    sh_secret_headers = secrets\<rparr>"
  have ok: "sh_try_from_iter_with_secret_headers hn hv hs secrets = Ok h"
    by (simp add: sh_try_from_iter_Ok True h_def)
  have m: "mset (sh_values h) = mset (canonical_headers hn hs)"
    using admitted_entries [OF ok] by simp
  have "length (sh_values h) = length hs"
    using arg_cong [OF m, of size] by (simp add: canonical_headers_def)
  with True ok m show ?thesis
    using admitted_entries [OF ok] by (simp add: sh_iter_def sh_len_def bt_wf_def h_def)
next
  case False
  then show ?thesis
    using sh_try_from_iter_Ok [of hn hv hs secrets]
    by (cases "sh_try_from_iter_with_secret_headers hn hv hs secrets") auto
qed

text \<open>
  On the ordinary channel an accepted header is never one the host owns: no name of the
  set, in any letter case, is reserved, is a sanctioned or a host-signed header, or is one of the
  package's declared secret headers. And a lookup in any letter case returns exactly the value that
  was supplied under that name.
\<close>

theorem safe_headers_confined:
  assumes law: "header_name_law hn"
    and ok: "sh_try_from_iter_with_secret_headers hn hv hs secrets = Ok h"
  shows "(\<forall>n v. (n, v) \<in> set (sh_iter h) \<longrightarrow>
      to_ascii_lowercase n = n \<and> n \<notin> set RESERVED_HEADERS \<and> \<not> dshs_contains secrets n \<and>
      n \<notin> range secret_header_name \<and> n \<notin> range signed_header_name \<and> n \<noteq> ''user-agent'') \<and>
    (\<forall>a v. hn a \<noteq> None \<longrightarrow>
      (sh_get hn h a = Some v \<longleftrightarrow> (\<exists>b. (b, v) \<in> set hs \<and> eq_ignore_ascii_case a b)))"
proof -
  have adm: "list_all (header_admissible hn hv secrets) hs" using ok by (rule admitted_set)
  have part1: "to_ascii_lowercase n = n \<and> n \<notin> set RESERVED_HEADERS \<and> \<not> dshs_contains secrets n \<and>
      n \<notin> range secret_header_name \<and> n \<notin> range signed_header_name \<and> n \<noteq> ''user-agent''"
    if mem: "(n, v) \<in> set (sh_iter h)" for n v
  proof -
    obtain b where "hn b = Some n"
      using canonical_header_mem admitted_set [OF ok] mem by blast
    then have "to_ascii_lowercase n = n"
      using law unfolding header_name_law_def by (metis to_ascii_lowercase_idem)
    with admitted_name_free [OF ok mem] owned_names_reserved show ?thesis by auto
  qed
  have part2: "sh_get hn h a = Some v \<longleftrightarrow> (\<exists>b. (b, v) \<in> set hs \<and> eq_ignore_ascii_case a b)"
    if a: "hn a \<noteq> None" for a v
  proof -
    have "the (hn a) = to_ascii_lowercase a" using a law by (auto simp: header_name_law_def)
    moreover have "the (hn b) = to_ascii_lowercase b" if "(b, v) \<in> set hs" for b
      using that adm law by (fastforce simp: list_all_iff header_admissible_def header_name_law_def)
    ultimately show ?thesis
      using sh_get_given [OF ok a, of v]
      by (force simp: canonical_headers_def eq_ignore_ascii_case_def)
  qed
  show ?thesis using part1 part2 by blast
qed

text \<open>A header name grammar that satisfies the law: lower-cased RFC 9110 tokens.\<close>

definition token_name :: "bytes \<Rightarrow> string option" where
  "token_name n =
     (if n \<noteq> [] \<and> list_all is_lowercase_tchar (to_ascii_lowercase n) then Some (to_ascii_lowercase n)
      else None)"

definition visible_value :: "string \<Rightarrow> bool" where
  "visible_value v = list_all (byte_in 32 126) v"

lemma token_name_law: "header_name_law token_name"
  by (simp add: header_name_law_def token_name_def)

definition sample_headers :: "(string \<times> string) list" where
  "sample_headers = [(''X-Trace'', ''abc''), (''Accept'', ''text/event-stream'')]"

lemma sample_headers_canonical:
  "canonical_headers token_name sample_headers =
     [(''x-trace'', ''abc''), (''accept'', ''text/event-stream'')] \<and>
   token_name ''X-Trace'' = Some ''x-trace'' \<and> token_name ''Accept'' = Some ''accept'' \<and>
   visible_value ''abc'' \<and> visible_value ''text/event-stream''"
  by code_simp

lemma sample_headers_accepted:
  "sh_try_from_iter_with_secret_headers token_name visible_value sample_headers dshs_none =
     Ok \<lparr>sh_values = [(''accept'', ''text/event-stream''), (''x-trace'', ''abc'')],
         sh_secret_headers = dshs_none\<rparr>"
proof -
  have "''x-trace'' \<noteq> ''accept''" "''accept'' < ''x-trace''" by code_simp+
  then show ?thesis
    using sample_headers_canonical
    by (simp add: sh_try_from_iter_Ok headers_admitted_def header_admissible_def header_limits
        is_reserved_def RESERVED_HEADERS_def dshs_contains_def dshs_as_slice_def dshs_none_def
        sample_headers_def)
qed

theorem safe_headers_confined_witness:
  "\<exists>h. sh_try_from_iter_with_secret_headers token_name visible_value sample_headers dshs_none = Ok h \<and>
     sh_get token_name h ''X-TRACE'' = Some ''abc''"
proof -
  have "token_name ''X-TRACE'' \<noteq> None" by code_simp
  moreover have "eq_ignore_ascii_case ''X-TRACE'' ''X-Trace''" by code_simp
  moreover have "(''X-Trace'', ''abc'') \<in> set sample_headers" by (simp add: sample_headers_def)
  ultimately show ?thesis
    using safe_headers_confined [OF token_name_law sample_headers_accepted] sample_headers_accepted
    by blast
qed

end
