(* ===== verification/Paths.thy ===== *)
theory Paths
  imports Ascii Contract_Errors
begin

unbundle bit_operations_syntax

text \<open>
  Endpoints, relative paths and their resolution (\<open>south-contracts/src/lib.rs\<close>). The \<open>url\<close> crate is
  a parameter, the record \<open>url_crate\<close> of the functions the code calls on a URL of some type \<open>'u\<close>.
\<close>

definition MAX_ENDPOINT_BYTES :: nat where
  "MAX_ENDPOINT_BYTES = 8 * 1024"

definition MAX_RELATIVE_PATH_BYTES :: nat where
  "MAX_RELATIVE_PATH_BYTES = 2 * 1024"

definition MAX_CREDENTIAL_SLOT_BYTES :: nat where
  "MAX_CREDENTIAL_SLOT_BYTES = 64"

section \<open>Path grammar\<close>

definition is_forbidden_path_byte :: "byte \<Rightarrow> bool" where
  "is_forbidden_path_byte c \<longleftrightarrow> byte_in 0 32 c \<or> c = CHR 0x7F \<or> c = CHR 0x5C"

definition is_forbidden_raw_url_byte :: "byte \<Rightarrow> bool" where
  "is_forbidden_raw_url_byte c = is_forbidden_path_byte c"

definition hex_nibble :: "byte \<Rightarrow> 8 word option" where
  "hex_nibble c =
     (if byte_in 48 57 c then Some (of_char c - 48)
      else if byte_in 97 102 c then Some (of_char c - 97 + 10)
      else if byte_in 65 70 c then Some (of_char c - 65 + 10)
      else None)"

datatype encoded_slash = Refuse | AdmitInSegment

definition unsafe_piece :: "bytes \<Rightarrow> bool" where
  "unsafe_piece p \<longleftrightarrow> p = '''' \<or> p = ''.'' \<or> p = ''..''"

text \<open>The byte an escape stands for, \<open>(high << 4) | low\<close>.\<close>

definition escaped_byte :: "8 word \<Rightarrow> 8 word \<Rightarrow> byte" where
  "escaped_byte high low = char_of (unat (push_bit 4 high OR low))"

fun escape_loop :: "encoded_slash \<Rightarrow> bytes \<Rightarrow> bool \<Rightarrow> bytes \<Rightarrow> bool" where
  "escape_loop slash out has_encoded_slash [] =
     (has_encoded_slash \<and> list_ex unsafe_piece (split_on (CHR ''/'') out))"
| "escape_loop slash out has_encoded_slash (c # rest) =
     (if c \<noteq> CHR ''%'' then escape_loop slash (out @ [c]) has_encoded_slash rest
      else
        (case rest of
           h # l # rest' \<Rightarrow>
             (case hex_nibble h of
                None \<Rightarrow> True
              | Some high \<Rightarrow>
                  (case hex_nibble l of
                     None \<Rightarrow> True
                   | Some low \<Rightarrow>
                       (let b = escaped_byte high low
                        in if b = CHR ''/'' \<and> slash = AdmitInSegment
                           then escape_loop slash (out @ [b]) True rest'
                           else if b \<in> set [CHR ''.'', CHR ''/'', CHR 0x5C, CHR ''%''] then True
                           else escape_loop slash (out @ [b]) has_encoded_slash rest')))
         | _ \<Rightarrow> True))"

definition segment_has_invalid_or_forbidden_escape :: "bytes \<Rightarrow> encoded_slash \<Rightarrow> bool" where
  "segment_has_invalid_or_forbidden_escape segment slash = escape_loop slash [] False segment"

definition has_invalid_or_forbidden_percent_encoding :: "bytes \<Rightarrow> encoded_slash \<Rightarrow> bool" where
  "has_invalid_or_forbidden_percent_encoding path slash =
     list_ex (\<lambda>segment. segment_has_invalid_or_forbidden_escape segment slash) (split_on (CHR ''/'') path)"

definition has_safe_segments :: "bytes \<Rightarrow> bool" where
  "has_safe_segments path = list_all (\<lambda>segment. \<not> unsafe_piece segment) (split_on (CHR ''/'') path)"

definition has_scheme_like_first_segment :: "bytes \<Rightarrow> bool" where
  "has_scheme_like_first_segment path =
     (let first = hd (split_on (CHR ''/'') path)
      in case split_once (CHR '':'') first of
           None \<Rightarrow> False
         | Some (scheme, _) \<Rightarrow>
             (case scheme of
                [] \<Rightarrow> False
              | b # bs \<Rightarrow>
                  is_ascii_alphabetic b \<and>
                  list_all (\<lambda>c. is_ascii_alphanumeric c \<or> c \<in> set ''+-.'') bs))"

section \<open>Relative paths and credential slots\<close>

record relative_path =
  rp_value :: string

definition relative_path_parse :: "string \<Rightarrow> (relative_path, contract_error) result" where
  "relative_path_parse input =
     (if input = [] \<or> MAX_RELATIVE_PATH_BYTES < length input \<or> \<not> list_all ascii input \<or>
         starts_with ''/'' input \<or> list_ex (\<lambda>c. c \<in> set ''?#'') input \<or>
         list_ex is_forbidden_path_byte input \<or>
         has_invalid_or_forbidden_percent_encoding input AdmitInSegment \<or>
         \<not> has_safe_segments input \<or> has_scheme_like_first_segment input
      then Err InvalidRelativePath
      else Ok \<lparr>rp_value = input\<rparr>)"

record credential_slot =
  cs_value :: string

definition credential_slot_parse :: "string \<Rightarrow> (credential_slot, contract_error) result" where
  "credential_slot_parse input =
     (let valid_first = (case input of [] \<Rightarrow> False | b # _ \<Rightarrow> is_ascii_lowercase b);
          valid_rest = list_all
            (\<lambda>b. is_ascii_lowercase b \<or> is_ascii_digit b \<or> b \<in> set ''._-'') (tl input)
      in if MAX_CREDENTIAL_SLOT_BYTES < length input \<or> \<not> valid_first \<or> \<not> valid_rest
         then Err InvalidCredentialSlot else Ok \<lparr>cs_value = input\<rparr>)"

section \<open>Endpoints\<close>

record 'u url_crate =
  url_parse :: "string \<Rightarrow> 'u option"
  url_as_str :: "'u \<Rightarrow> string"
  url_scheme :: "'u \<Rightarrow> string"
  url_host_str :: "'u \<Rightarrow> string option"
  url_port_or_known_default :: "'u \<Rightarrow> nat option"
  url_username :: "'u \<Rightarrow> string"
  url_password :: "'u \<Rightarrow> string option"
  url_path :: "'u \<Rightarrow> string"
  url_query :: "'u \<Rightarrow> string option"
  url_fragment :: "'u \<Rightarrow> string option"
  url_set_path :: "string \<Rightarrow> 'u \<Rightarrow> 'u"
  url_set_query :: "string option \<Rightarrow> 'u \<Rightarrow> 'u"

record 'u provider_endpoint =
  pe_url :: 'u

definition endpoint_raw_path :: "string \<Rightarrow> string option" where
  "endpoint_raw_path input =
     Option.bind (str_find ''://'' input) (\<lambda>scheme_end.
       let scheme = take scheme_end input
       in if \<not> eq_ignore_ascii_case scheme ''http'' \<and> \<not> eq_ignore_ascii_case scheme ''https'' then None
          else
            let authority_and_path = drop (scheme_end + 3) input;
                path_start = (case iter_position (\<lambda>c. c = CHR ''/'') authority_and_path of
                                Some i \<Rightarrow> i | None \<Rightarrow> length authority_and_path);
                authority = take path_start authority_and_path
            in if authority = [] \<or> CHR ''@'' \<in> set authority then None
               else if path_start = length authority_and_path then Some ''/''
               else Some (drop path_start authority_and_path))"

definition validate_endpoint_path :: "string \<Rightarrow> (unit, contract_error) result" where
  "validate_endpoint_path path =
     (if \<not> list_all ascii path \<or> \<not> starts_with ''/'' path \<or> (path \<noteq> ''/'' \<and> str_contains ''//'' path) \<or>
         list_ex is_forbidden_path_byte path \<or> has_invalid_or_forbidden_percent_encoding path Refuse
      then Err InvalidEndpoint
      else
        let without_leading = drop 1 path;
            without_trailing = (case strip_suffix ''/'' without_leading of
                                  Some p \<Rightarrow> p | None \<Rightarrow> without_leading)
        in if (without_trailing \<noteq> [] \<and> \<not> has_safe_segments without_trailing) \<or>
              has_scheme_like_first_segment without_trailing
           then Err InvalidEndpoint else Ok ())"

definition provider_endpoint_parse ::
  "'u url_crate \<Rightarrow> string \<Rightarrow> ('u provider_endpoint, contract_error) result" where
  "provider_endpoint_parse U input =
     (if input = [] \<or> MAX_ENDPOINT_BYTES < length input \<or> list_ex is_forbidden_raw_url_byte input
      then Err InvalidEndpoint
      else
        and_then (ok_or (endpoint_raw_path input) InvalidEndpoint) (\<lambda>raw_path.
        and_then (validate_endpoint_path raw_path) (\<lambda>_.
        and_then (ok_or (url_parse U input) InvalidEndpoint) (\<lambda>url.
          if url_scheme U url \<notin> set [''http'', ''https''] \<or> url_host_str U url = None \<or>
             url_username U url \<noteq> [] \<or> url_password U url \<noteq> None \<or> url_query U url \<noteq> None \<or>
             url_fragment U url \<noteq> None
          then Err InvalidEndpoint
          else
            and_then (validate_endpoint_path (url_path U url)) (\<lambda>_.
              let url' = (if \<not> ends_with ''/'' (url_path U url)
                          then url_set_path U (url_path U url @ ''/'') url else url)
              in if MAX_ENDPOINT_BYTES < length (url_as_str U url') then Err InvalidEndpoint
                 else Ok \<lparr>pe_url = url'\<rparr>)))))"

section \<open>Percent decoding\<close>

text \<open>What an upstream that decodes escapes reads: RFC 3986 percent decoding.\<close>

definition hex_value :: "byte \<Rightarrow> nat option" where
  "hex_value c =
     (if byte_in 48 57 c then Some (of_char c - 48)
      else if byte_in 97 102 c then Some (of_char c - 87)
      else if byte_in 65 70 c then Some (of_char c - 55)
      else None)"

fun pct_decode :: "bytes \<Rightarrow> bytes option" where
  "pct_decode [] = Some []"
| "pct_decode (c # rest) =
     (if c \<noteq> CHR ''%'' then map_option ((#) c) (pct_decode rest)
      else
        (case rest of
           h # l # rest' \<Rightarrow>
             (case (hex_value h, hex_value l) of
                (Some a, Some b) \<Rightarrow> map_option ((#) (char_of (16 * a + b))) (pct_decode rest')
              | _ \<Rightarrow> None)
         | _ \<Rightarrow> None))"

text \<open>The bytes that arrive through an escape.\<close>

fun escaped :: "bytes \<Rightarrow> bytes" where
  "escaped [] = []"
| "escaped (c # rest) =
     (if c \<noteq> CHR ''%'' then escaped rest
      else
        (case rest of
           h # l # rest' \<Rightarrow>
             (case (hex_value h, hex_value l) of
                (Some a, Some b) \<Rightarrow> char_of (16 * a + b) # escaped rest'
              | _ \<Rightarrow> [])
         | _ \<Rightarrow> []))"

definition escapes_admitted :: "encoded_slash \<Rightarrow> bytes \<Rightarrow> bool" where
  "escapes_admitted slash seg \<longleftrightarrow>
     (\<forall>b \<in> set (escaped seg). b \<notin> set [CHR ''.'', CHR 0x5C, CHR ''%''] \<and> (b = CHR ''/'' \<longrightarrow> slash = AdmitInSegment))"

lemma hex_nibble_value: "hex_nibble c = map_option of_nat (hex_value c)"
proof -
  have c: "(of_char c :: 8 word) = of_nat (of_char c)" by (simp only: of_nat_of_char)
  show ?thesis
    unfolding hex_nibble_def hex_value_def c byte_in_def
    by (auto simp: of_nat_diff simp del: of_nat_of_char)
qed

lemma hex_value_less: "hex_value c = Some n \<Longrightarrow> n < 16"
  by (auto simp: hex_value_def byte_in_def split: if_splits)

lemma nibbles_combine:
  assumes "a < 16" and "b < 16"
  shows "unat (push_bit 4 (of_nat a) OR of_nat b :: 8 word) = 16 * a + b"
proof -
  have "list_all (\<lambda>a. list_all (\<lambda>b. unat (push_bit 4 (of_nat a) OR of_nat b :: 8 word) = 16 * a + b) [0..<16])
      [0..<16]"
    by code_simp
  with assms show ?thesis by (simp add: list_all_iff)
qed

lemma escaped_byte_value:
  "hex_value h = Some a \<Longrightarrow> hex_value l = Some b \<Longrightarrow>
    escaped_byte (of_nat a) (of_nat b) = char_of (16 * a + b)"
  by (simp add: escaped_byte_def nibbles_combine hex_value_less)

text \<open>The scan refuses exactly the segments with a malformed or forbidden escape or an unsafe piece.\<close>

lemma escape_loop_exact:
  "\<not> escape_loop slash out e seg \<longleftrightarrow>
    (\<exists>d. pct_decode seg = Some d \<and> escapes_admitted slash seg \<and>
      (e \<or> CHR ''/'' \<in> set (escaped seg) \<longrightarrow> list_all (\<lambda>p. \<not> unsafe_piece p) (split_on (CHR ''/'') (out @ d))))"
proof (induction seg arbitrary: out e rule: pct_decode.induct)
  case 1
  then show ?case by (auto simp: escapes_admitted_def list_ex_iff list_all_iff)
next
  case (2 c rest)
  show ?case
  proof (cases "c = CHR ''%''")
    case False
    with 2(1) [of "out @ [c]" e] show ?thesis
      by (auto simp: escapes_admitted_def)
  next
    case True
    show ?thesis
    proof (cases "\<exists>h l rest' a b. rest = h # l # rest' \<and> hex_value h = Some a \<and> hex_value l = Some b")
      case False
      then have "pct_decode (c # rest) = None" "escape_loop slash out e (c # rest)"
        using True by (auto simp: hex_nibble_value split: list.split option.split)
      then show ?thesis by simp
    next
      case hex: True
      then obtain h l rest' a b where r: "rest = h # l # rest'" "hex_value h = Some a" "hex_value l = Some b"
        by blast
      let ?b = "char_of (16 * a + b) :: char"
      have IH: "\<not> escape_loop slash (out @ [?b]) e' rest' \<longleftrightarrow>
          (\<exists>d. pct_decode rest' = Some d \<and> escapes_admitted slash rest' \<and>
            (e' \<or> CHR ''/'' \<in> set (escaped rest') \<longrightarrow>
              list_all (\<lambda>p. \<not> unsafe_piece p) (split_on (CHR ''/'') (out @ ?b # d))))" for e'
        using 2(2) [OF _ r(1) refl, of "Some a" "Some b" a b "out @ [?b]" e'] True r(2,3) by simp
      have dec: "pct_decode (c # rest) = map_option ((#) ?b) (pct_decode rest')"
        and esc: "escaped (c # rest) = ?b # escaped rest'"
        using True r by simp_all
      have loop: "escape_loop slash out e (c # rest) \<longleftrightarrow>
          (if ?b = CHR ''/'' \<and> slash = AdmitInSegment then escape_loop slash (out @ [?b]) True rest'
           else ?b \<in> set [CHR ''.'', CHR ''/'', CHR 0x5C, CHR ''%''] \<or> escape_loop slash (out @ [?b]) e rest')"
        using True r by (simp add: hex_nibble_value escaped_byte_value Let_def)
      have pre: "escapes_admitted slash (c # rest) \<longleftrightarrow>
          ?b \<notin> set [CHR ''.'', CHR 0x5C, CHR ''%''] \<and> (?b = CHR ''/'' \<longrightarrow> slash = AdmitInSegment) \<and>
          escapes_admitted slash rest'"
        unfolding escapes_admitted_def esc by (simp only: list.set ball_simps) blast
      have Ex: "(\<exists>d. pct_decode (c # rest) = Some d \<and> Q d) \<longleftrightarrow> (\<exists>d. pct_decode rest' = Some d \<and> Q (?b # d))" for Q
        unfolding dec by auto
      consider (slash) "?b = CHR ''/''" "slash = AdmitInSegment" | (no) "?b = CHR ''/''" "slash \<noteq> AdmitInSegment"
        | (bad) "?b \<noteq> CHR ''/''" "?b \<in> set [CHR ''.'', CHR 0x5C, CHR ''%'']"
        | (good) "?b \<noteq> CHR ''/''" "?b \<notin> set [CHR ''.'', CHR 0x5C, CHR ''%'']"
        by blast
      then show ?thesis
      proof cases
        case slash
        then show ?thesis
          unfolding loop Ex esc using IH [of True] pre by simp
      next
        case no
        then show ?thesis unfolding loop Ex esc using pre by simp
      next
        case bad
        then show ?thesis unfolding loop Ex esc using pre by auto
      next
        case good
        then show ?thesis unfolding loop Ex esc using IH [of e] pre by simp
      qed
    qed
  qed
qed

lemma split_on_append_sep: "split_on c (x @ c # y) = split_on c x @ split_on c y"
proof (induction x)
  case (Cons a x)
  then show ?case by (cases "split_on c x") auto
qed simp

lemma pct_decode_append:
  "pct_decode a = Some d \<Longrightarrow> pct_decode (a @ b) = map_option ((@) d) (pct_decode b)"
proof (induction a arbitrary: d rule: pct_decode.induct)
  case 1
  then show ?case by (cases "pct_decode b") auto
next
  case (2 c rest)
  show ?case
  proof (cases "c = CHR ''%''")
    case False
    with 2 show ?thesis by (cases "pct_decode b") auto
  next
    case True
    with 2(3) obtain h l rest' x y d' where r: "rest = h # l # rest'" "hex_value h = Some x"
        "hex_value l = Some y" "pct_decode rest' = Some d'" "d = char_of (16 * x + y) # d'"
      by (auto split: list.splits option.splits)
    then show ?thesis
      using True 2(2) [OF _ r(1) refl, of "Some x" "Some y" x y d']
      by (cases "pct_decode b") simp_all
  qed
qed

lemma pct_decode_plain: "CHR ''%'' \<notin> set d \<Longrightarrow> pct_decode d = Some d"
  by (induction d) auto

text \<open>Every decoded byte was in the text, other than a percent sign, or arrived through an escape.\<close>

lemma pct_decode_bytes:
  "pct_decode seg = Some d \<Longrightarrow> set d \<subseteq> (set seg - {CHR ''%''}) \<union> set (escaped seg)"
proof (induction seg arbitrary: d rule: pct_decode.induct)
  case 1
  then show ?case by simp
next
  case (2 c rest)
  show ?case
  proof (cases "c = CHR ''%''")
    case False
    with 2 show ?thesis by fastforce
  next
    case True
    with 2(3) obtain h l rest' x y d' where r: "rest = h # l # rest'" "hex_value h = Some x"
        "hex_value l = Some y" "pct_decode rest' = Some d'" "d = char_of (16 * x + y) # d'"
      by (auto split: list.splits option.splits)
    then show ?thesis
      using True 2(2) [OF _ r(1) refl, of "Some x" "Some y" x y d'] by fastforce
  qed
qed

text \<open>A dot segment cannot be spelled with escapes that decode to something else.\<close>

lemma pct_decode_dots:
  "pct_decode seg = Some d \<Longrightarrow> set d \<subseteq> {CHR ''.''} \<Longrightarrow> CHR ''.'' \<notin> set (escaped seg) \<Longrightarrow> d = seg"
proof (induction seg arbitrary: d rule: pct_decode.induct)
  case 1
  then show ?case by simp
next
  case (2 c rest)
  show ?case
  proof (cases "c = CHR ''%''")
    case False
    with 2 show ?thesis by auto
  next
    case True
    with 2(3-5) show ?thesis by (auto split: list.splits option.splits)
  qed
qed

lemma safe_segment_decodes:
  assumes seg: "CHR ''/'' \<notin> set seg" "\<not> unsafe_piece seg"
    and ok: "\<not> segment_has_invalid_or_forbidden_escape seg slash"
  shows "\<exists>d. pct_decode seg = Some d \<and> list_all (\<lambda>p. \<not> unsafe_piece p) (split_on (CHR ''/'') d) \<and>
    CHR ''%'' \<notin> set d \<and> (CHR 0x5C \<notin> set seg \<longrightarrow> CHR 0x5C \<notin> set d)"
proof -
  obtain d where d: "pct_decode seg = Some d" "escapes_admitted slash seg"
    and pieces: "CHR ''/'' \<in> set (escaped seg) \<Longrightarrow> list_all (\<lambda>p. \<not> unsafe_piece p) (split_on (CHR ''/'') d)"
    using ok unfolding segment_has_invalid_or_forbidden_escape_def escape_loop_exact append_Nil by blast
  have sub: "set d \<subseteq> (set seg - {CHR ''%''}) \<union> set (escaped seg)" using d(1) by (rule pct_decode_bytes)
  have esc: "b \<noteq> CHR ''.''" "b \<noteq> CHR 0x5C" "b \<noteq> CHR ''%''" if "b \<in> set (escaped seg)" for b
    using d(2) that by (auto simp: escapes_admitted_def)
  have plain: "list_all (\<lambda>p. \<not> unsafe_piece p) (split_on (CHR ''/'') d)"
    if no: "CHR ''/'' \<notin> set (escaped seg)"
  proof -
    have "CHR ''/'' \<notin> set d" using no seg(1) sub by blast
    moreover have "\<not> unsafe_piece d"
    proof
      assume "unsafe_piece d"
      then have "set d \<subseteq> {CHR ''.''}" by (auto simp: unsafe_piece_def)
      then have "d = seg" using esc(1) by (intro pct_decode_dots [OF d(1)]) blast+
      with \<open>unsafe_piece d\<close> seg(2) show False by simp
    qed
    ultimately show ?thesis by (simp add: split_on_plain)
  qed
  have "CHR ''%'' \<notin> set d" "CHR 0x5C \<notin> set seg \<longrightarrow> CHR 0x5C \<notin> set d"
    using sub esc(2,3) by blast+
  then show ?thesis using d(1) pieces plain by blast
qed

lemma safe_path_decodes:
  assumes "list_all (\<lambda>seg. \<not> unsafe_piece seg \<and> \<not> segment_has_invalid_or_forbidden_escape seg slash)
      (split_on (CHR ''/'') path)"
  shows "\<exists>d. pct_decode path = Some d \<and> list_all (\<lambda>p. \<not> unsafe_piece p) (split_on (CHR ''/'') d) \<and>
    CHR ''%'' \<notin> set d \<and> (CHR 0x5C \<notin> set path \<longrightarrow> CHR 0x5C \<notin> set d)"
  using assms
proof (induction path rule: length_induct)
  case (1 path)
  show ?case
  proof (cases "split_once (CHR ''/'') path")
    case None
    then have "CHR ''/'' \<notin> set path" by (simp add: split_once_None_iff)
    with 1(2) show ?thesis by (intro safe_segment_decodes) (auto simp: split_on_plain)
  next
    case (Some ab)
    then obtain a b where ab: "path = a @ CHR ''/'' # b" "CHR ''/'' \<notin> set a"
      by (cases ab) (auto simp: split_once_Some_iff)
    then have segs: "split_on (CHR ''/'') path = a # split_on (CHR ''/'') b" by (simp add: split_on_sep)
    obtain da where da: "pct_decode a = Some da" "list_all (\<lambda>p. \<not> unsafe_piece p) (split_on (CHR ''/'') da)"
        "CHR ''%'' \<notin> set da" "CHR 0x5C \<notin> set a \<longrightarrow> CHR 0x5C \<notin> set da"
      using safe_segment_decodes [OF ab(2)] 1(2) segs by auto
    moreover obtain db where "pct_decode b = Some db"
        "list_all (\<lambda>p. \<not> unsafe_piece p) (split_on (CHR ''/'') db)"
        "CHR ''%'' \<notin> set db" "CHR 0x5C \<notin> set b \<longrightarrow> CHR 0x5C \<notin> set db"
      using 1(1) [rule_format, of b] 1(2) ab(1) segs by auto
    ultimately show ?thesis
      using ab(1) pct_decode_append [OF da(1), of "CHR ''/'' # b"]
      by (auto simp: split_on_append_sep)
  qed
qed

section \<open>Properties\<close>

text \<open>
  Claim C33. An accepted relative path cannot climb out of the endpoint it is appended to, whether or
  not the upstream decodes escapes: it is a well-formed escaped ASCII path of at most 2048 bytes
  without a leading slash, query or fragment; its decoded form splits at every slash, escaped ones
  included, into pieces none of which is empty, a dot or a double dot; it has no backslash; and it
  has no percent sign left, so decoding it twice gives the same path. The text is kept as supplied.
\<close>

theorem relative_path_stays_below:
  assumes "relative_path_parse input = Ok p"
  shows "rp_value p = input \<and> length input \<le> MAX_RELATIVE_PATH_BYTES \<and> list_all ascii input \<and>
    \<not> starts_with ''/'' input \<and> CHR ''?'' \<notin> set input \<and> CHR ''#'' \<notin> set input \<and>
    (\<exists>d. pct_decode input = Some d \<and> pct_decode d = Some d \<and> CHR 0x5C \<notin> set d \<and>
      list_all (\<lambda>piece. piece \<noteq> [] \<and> piece \<noteq> ''.'' \<and> piece \<noteq> ''..'') (split_on (CHR ''/'') d))"
proof -
  have grammar: "p = \<lparr>rp_value = input\<rparr>" "\<not> MAX_RELATIVE_PATH_BYTES < length input" "list_all ascii input"
      "\<not> starts_with ''/'' input" "\<not> list_ex (\<lambda>c. c \<in> set ''?#'') input"
      "\<not> list_ex is_forbidden_path_byte input"
      "\<not> has_invalid_or_forbidden_percent_encoding input AdmitInSegment" "has_safe_segments input"
    using assms unfolding relative_path_parse_def refuse_Ok de_Morgan_disj not_not result.inject
    by blast+
  have marks: "CHR ''?'' \<notin> set input" "CHR ''#'' \<notin> set input"
    using grammar(5) by (auto simp: list_ex_iff)
  have "CHR 0x5C \<notin> set input"
    using grammar(6) unfolding list_ex_iff is_forbidden_path_byte_def by blast
  moreover obtain d where "pct_decode input = Some d" "CHR ''%'' \<notin> set d"
      "list_all (\<lambda>p. \<not> unsafe_piece p) (split_on (CHR ''/'') d)"
      "CHR 0x5C \<notin> set input \<longrightarrow> CHR 0x5C \<notin> set d"
    using safe_path_decodes [of AdmitInSegment input] grammar(7,8)
    unfolding has_invalid_or_forbidden_percent_encoding_def has_safe_segments_def list_all_iff list_ex_iff
    by blast
  ultimately show ?thesis
    using grammar(1-4) marks pct_decode_plain [of d] by (simp add: unsafe_piece_def)
qed

theorem relative_path_stays_below_witness:
  "\<exists>p. relative_path_parse ''model/a%2Fb:c/converse'' = Ok p \<and> rp_value p = ''model/a%2Fb:c/converse''"
proof -
  let ?s = "''model/a%2Fb:c/converse''"
  have evaluated: "\<not> has_invalid_or_forbidden_percent_encoding ?s AdmitInSegment" "has_safe_segments ?s"
      "\<not> has_scheme_like_first_segment ?s" "list_all ascii ?s" "\<not> starts_with ''/'' ?s"
      "\<not> list_ex (\<lambda>c. c \<in> set ''?#'') ?s" "\<not> list_ex is_forbidden_path_byte ?s"
    by code_simp+
  have size: "?s \<noteq> []" "\<not> MAX_RELATIVE_PATH_BYTES < length ?s"
    by (simp_all add: MAX_RELATIVE_PATH_BYTES_def)
  have "relative_path_parse ?s = Ok \<lparr>rp_value = ?s\<rparr>"
    by (simp only: relative_path_parse_def evaluated size simp_thms if_False)
  from relative_path_stays_below [OF this] this show ?thesis by blast
qed

end
