(* ===== verification/Query.thy ===== *)
theory Query
  imports Ascii Contract_Errors Ordered_Map "HOL-Library.Product_Lexorder"
begin

text \<open>
  The controlled query of a provider request (\<open>south-contracts/src/lib.rs\<close>) and the declared query
  parameters and user agents of \<open>south-contracts/src/declared.rs\<close>.
\<close>

section \<open>Value syntaxes and declared parameters\<close>

definition MAX_QUERY_VALUE_BYTES :: nat where
  "MAX_QUERY_VALUE_BYTES = 64"

definition MAX_QUERY_TOTAL_BYTES :: nat where
  "MAX_QUERY_TOTAL_BYTES = 256"

definition MAX_DECLARED_QUERY_NAME_BYTES :: nat where
  "MAX_DECLARED_QUERY_NAME_BYTES = 64"

definition MAX_QUERY_ENUM_VALUES :: nat where
  "MAX_QUERY_ENUM_VALUES = 16"

definition MAX_QUERY_DIGITS :: nat where
  "MAX_QUERY_DIGITS = 32"

definition DECLARED_QUERY_DENIED_NAMES :: "string list" where
  "DECLARED_QUERY_DENIED_NAMES = [''auth'', ''authorization'', ''code'', ''key'', ''sig'', ''token'']"

definition DECLARED_QUERY_DENIED_FRAGMENTS :: "string list" where
  "DECLARED_QUERY_DENIED_FRAGMENTS =
     [''accesstoken'', ''apikey'', ''credential'', ''idtoken'', ''passwd'', ''password'', ''refreshtoken'',
      ''secret'', ''securitytoken'', ''sessiontoken'', ''signature'']"

datatype query_value_syntax = Digits | Token | Date | Enum "string list"

definition is_unreserved :: "byte \<Rightarrow> bool" where
  "is_unreserved c \<longleftrightarrow> is_ascii_alphanumeric c \<or> c \<in> set ''-._~''"

definition is_query_token :: "string \<Rightarrow> bool" where
  "is_query_token v \<longleftrightarrow>
     1 \<le> length v \<and> length v \<le> MAX_QUERY_VALUE_BYTES \<and> list_all is_unreserved v \<and>
     list_ex is_ascii_alphanumeric v"

text \<open>\<open>enumerate().all(...)\<close>: every value is a token that no earlier value equals.\<close>

fun enum_values_ok :: "string list \<Rightarrow> string list \<Rightarrow> bool" where
  "enum_values_ok seen [] = True"
| "enum_values_ok seen (v # vs) = (is_query_token v \<and> v \<notin> set seen \<and> enum_values_ok (seen @ [v]) vs)"

fun syntax_validate :: "query_value_syntax \<Rightarrow> (unit, contract_error) result" where
  "syntax_validate (Enum vs) =
     (if 1 \<le> length vs \<and> length vs \<le> MAX_QUERY_ENUM_VALUES \<and> enum_values_ok [] vs
      then Ok () else Err InvalidQueryDeclaration)"
| "syntax_validate _ = Ok ()"

fun date_bytes_ok :: "nat \<Rightarrow> bytes \<Rightarrow> bool" where
  "date_bytes_ok i [] = True"
| "date_bytes_ok i (c # cs) =
     ((if i = 4 \<or> i = 7 then c = CHR ''-'' else is_ascii_digit c) \<and> date_bytes_ok (Suc i) cs)"

fun syntax_admits :: "query_value_syntax \<Rightarrow> string \<Rightarrow> bool" where
  "syntax_admits Digits v = (1 \<le> length v \<and> length v \<le> MAX_QUERY_DIGITS \<and> list_all is_ascii_digit v)"
| "syntax_admits Token v = is_query_token v"
| "syntax_admits Date v =
     (let date = (case strip_suffix ''-preview'' v of Some d \<Rightarrow> d | None \<Rightarrow> v)
      in length date = 10 \<and> date_bytes_ok 0 date)"
| "syntax_admits (Enum vs) v = list_ex (\<lambda>allowed. allowed = v) vs"

definition normalized_query_name :: "string \<Rightarrow> string" where
  "normalized_query_name name = map byte_lower (filter (\<lambda>c. c \<notin> set ''-_.'') name)"

record declared_query_parameter =
  dqp_name :: string
  dqp_syntax :: query_value_syntax

section \<open>Query parameters\<close>

datatype query_parameter =
  ApiVersion | Alt | GroupId | TaskId | FileId | Declared declared_query_parameter

definition query_parameter_ALL :: "query_parameter list" where
  "query_parameter_ALL = [ApiVersion, Alt, GroupId, TaskId, FileId]"

fun wire_name :: "query_parameter \<Rightarrow> string" where
  "wire_name ApiVersion = ''api-version''"
| "wire_name Alt = ''alt''"
| "wire_name GroupId = ''GroupId''"
| "wire_name TaskId = ''task_id''"
| "wire_name FileId = ''file_id''"
| "wire_name (Declared parameter) = dqp_name parameter"

definition is_declared_query_name :: "string \<Rightarrow> bool" where
  "is_declared_query_name name =
     (if name = [] \<or> MAX_DECLARED_QUERY_NAME_BYTES < length name \<or> \<not> is_ascii_alphabetic (hd name) \<or>
         \<not> list_all is_unreserved name
      then False
      else
        let normalized = normalized_query_name name
        in normalized \<notin> set DECLARED_QUERY_DENIED_NAMES \<and>
           \<not> list_ex (\<lambda>fragment. str_contains fragment normalized) DECLARED_QUERY_DENIED_FRAGMENTS \<and>
           \<not> list_ex (\<lambda>sanctioned. normalized_query_name (wire_name sanctioned) = normalized)
                query_parameter_ALL)"

definition dqp_try_new ::
  "string \<Rightarrow> query_value_syntax \<Rightarrow> (declared_query_parameter, contract_error) result" where
  "dqp_try_new name syntx =
     (if \<not> is_declared_query_name name then Err InvalidQueryDeclaration
      else and_then (syntax_validate syntx) (\<lambda>_. Ok \<lparr>dqp_name = name, dqp_syntax = syntx\<rparr>))"

definition canonical_key :: "query_parameter \<Rightarrow> nat \<times> string" where
  "canonical_key p =
     ((case iter_position (\<lambda>sanctioned. sanctioned = p) query_parameter_ALL of
         Some i \<Rightarrow> i | None \<Rightarrow> length query_parameter_ALL), wire_name p)"

definition decimal_id :: "string \<Rightarrow> bool" where
  "decimal_id v \<longleftrightarrow> v \<noteq> [] \<and> length v \<le> MAX_QUERY_VALUE_BYTES \<and> list_all is_ascii_digit v"

fun parameter_accepts :: "query_parameter \<Rightarrow> string \<Rightarrow> bool" where
  "parameter_accepts ApiVersion v =
     (v \<noteq> [] \<and> length v \<le> MAX_QUERY_VALUE_BYTES \<and>
      list_all (\<lambda>c. is_ascii_alphanumeric c \<or> c \<in> set ''._-'') v \<and> list_ex is_ascii_alphanumeric v)"
| "parameter_accepts Alt v = (v = ''sse'' \<or> v = ''json'')"
| "parameter_accepts GroupId v = decimal_id v"
| "parameter_accepts TaskId v = decimal_id v"
| "parameter_accepts FileId v = decimal_id v"
| "parameter_accepts (Declared parameter) v = syntax_admits (dqp_syntax parameter) v"

section \<open>Query strings\<close>

record query_string =
  qs_serialized :: string

fun query_collect ::
  "(query_parameter \<times> string) list \<Rightarrow> (query_parameter \<times> string) list
    \<Rightarrow> ((query_parameter \<times> string) list, contract_error) result" where
  "query_collect declared [] = Ok declared"
| "query_collect declared ((parameter, v) # rest) =
     (if \<not> parameter_accepts parameter v then Err InvalidQueryValue
      else if list_ex (\<lambda>(seen, _). wire_name seen = wire_name parameter) declared
      then Err DuplicateQueryParameter
      else query_collect (declared @ [(parameter, v)]) rest)"

fun query_serialize :: "string \<Rightarrow> (query_parameter \<times> string) list \<Rightarrow> string" where
  "query_serialize serialized [] = serialized"
| "query_serialize serialized ((parameter, v) # rest) =
     query_serialize
       ((if serialized = [] then serialized else serialized @ ''&'') @ wire_name parameter @ ''='' @ v) rest"

definition query_try_from_iter ::
  "(query_parameter \<times> string) list \<Rightarrow> (query_string, contract_error) result" where
  "query_try_from_iter parameters =
     and_then (query_collect [] parameters) (\<lambda>declared.
       if declared = [] then Err EmptyQuery
       else
         let serialized = query_serialize [] (sort_key (\<lambda>(p, _). canonical_key p) declared)
         in if MAX_QUERY_TOTAL_BYTES < length serialized then Err QueryTooLarge
            else Ok \<lparr>qs_serialized = serialized\<rparr>)"

section \<open>User agents\<close>

definition MAX_USER_AGENT_BYTES :: nat where
  "MAX_USER_AGENT_BYTES = 256"

fun user_agent_loop :: "bytes \<Rightarrow> bool" where
  "user_agent_loop [] = True"
| "user_agent_loop (c # cs) =
     (if of_char c < (0x20 :: nat) \<or> (0x7E :: nat) < of_char c then False else user_agent_loop cs)"

definition user_agent_grammar_admits :: "bytes \<Rightarrow> bool" where
  "user_agent_grammar_admits bs =
     (if bs = [] \<or> MAX_USER_AGENT_BYTES < length bs then False
      else if hd bs = CHR '' '' \<or> last bs = CHR '' '' then False
      else user_agent_loop bs)"

record controlled_user_agent =
  cua_value :: string

definition cua_try_from_static :: "string \<Rightarrow> (controlled_user_agent, contract_error) result" where
  "cua_try_from_static v =
     (if user_agent_grammar_admits v then Ok \<lparr>cua_value = v\<rparr> else Err InvalidUserAgentValue)"

record declared_user_agent =
  dua_value :: string

definition dua_from_manifest_value :: "string \<Rightarrow> (declared_user_agent, contract_error) result" where
  "dua_from_manifest_value v =
     (if user_agent_grammar_admits v then Ok \<lparr>dua_value = v\<rparr> else Err InvalidUserAgentValue)"

datatype user_agent = Controlled controlled_user_agent | DeclaredAgent declared_user_agent

fun user_agent_as_str :: "user_agent \<Rightarrow> string" where
  "user_agent_as_str (Controlled u) = cua_value u"
| "user_agent_as_str (DeclaredAgent u) = dua_value u"

section \<open>What the grammars admit\<close>

text \<open>A declared parameter comes from its constructor only.\<close>

fun parameter_wf :: "query_parameter \<Rightarrow> bool" where
  "parameter_wf (Declared d) = (dqp_try_new (dqp_name d) (dqp_syntax d) = Ok d)"
| "parameter_wf _ = True"

lemma unreserved_plain: "is_unreserved c \<Longrightarrow> c \<noteq> CHR ''&'' \<and> c \<noteq> CHR ''='' \<and> ascii c"
  by (auto simp: is_unreserved_def byte_class byte_in_def ascii_def)

lemma alphanumeric_unreserved: "is_ascii_alphanumeric c \<Longrightarrow> is_unreserved c"
  by (simp add: is_unreserved_def)

lemma digit_unreserved: "is_ascii_digit c \<Longrightarrow> is_unreserved c"
  by (simp add: is_unreserved_def is_ascii_alphanumeric_def)

lemma date_bytes_unreserved: "date_bytes_ok i v \<Longrightarrow> list_all is_unreserved v"
  by (induction i v rule: date_bytes_ok.induct)
    (auto simp: digit_unreserved is_unreserved_def split: if_splits)

lemma enum_values_tokens: "enum_values_ok seen vs \<Longrightarrow> v \<in> set vs \<Longrightarrow> is_query_token v"
  by (induction seen vs rule: enum_values_ok.induct) auto

lemma preview_unreserved: "list_all is_unreserved ''-preview''"
  by code_simp

lemma syntax_value_unreserved:
  assumes "syntax_validate syn = Ok ()" and "syntax_admits syn v"
  shows "list_all is_unreserved v \<and> length v \<le> MAX_QUERY_VALUE_BYTES"
proof (cases syn)
  case Digits
  with assms show ?thesis
    by (auto simp: list_all_iff digit_unreserved MAX_QUERY_DIGITS_def MAX_QUERY_VALUE_BYTES_def)
next
  case Token
  with assms show ?thesis by (simp add: is_query_token_def)
next
  case Date
  show ?thesis
  proof (cases "strip_suffix ''-preview'' v")
    case None
    with assms Date show ?thesis
      by (auto simp: MAX_QUERY_VALUE_BYTES_def intro: date_bytes_unreserved)
  next
    case (Some d)
    then have "v = d @ ''-preview''" by (simp add: strip_suffix_Some_iff)
    with assms Date Some preview_unreserved show ?thesis
      by (auto simp: MAX_QUERY_VALUE_BYTES_def intro: date_bytes_unreserved)
  qed
next
  case (Enum vs)
  with assms have "v \<in> set vs" "enum_values_ok [] vs" by (auto simp: list_ex_iff split: if_splits)
  then have "is_query_token v" using enum_values_tokens by blast
  then show ?thesis by (simp add: is_query_token_def)
qed

lemma sanctioned_value_unreserved:
  "decimal_id v \<Longrightarrow> list_all is_unreserved v \<and> length v \<le> MAX_QUERY_VALUE_BYTES"
  by (auto simp: decimal_id_def list_all_iff digit_unreserved)

lemma alt_values_unreserved: "list_all is_unreserved ''sse''" "list_all is_unreserved ''json''"
  by code_simp+

lemma declared_wf:
  assumes "parameter_wf (Declared d)"
  shows "is_declared_query_name (dqp_name d) \<and> syntax_validate (dqp_syntax d) = Ok ()"
  using assms by (cases "syntax_validate (dqp_syntax d)") (auto simp: dqp_try_new_def split: if_splits)

lemma accepted_value_unreserved:
  assumes "parameter_wf p" and "parameter_accepts p v"
  shows "list_all is_unreserved v \<and> length v \<le> MAX_QUERY_VALUE_BYTES"
proof (cases p)
  case ApiVersion
  with assms show ?thesis
    by (auto simp: list_all_iff is_unreserved_def)
next
  case Alt
  with assms alt_values_unreserved show ?thesis by (auto simp: MAX_QUERY_VALUE_BYTES_def)
next
  case (Declared d)
  with assms declared_wf [of d] syntax_value_unreserved [of "dqp_syntax d" v] show ?thesis by simp
qed (use assms sanctioned_value_unreserved in auto)

lemma sanctioned_names_unreserved: "list_all (\<lambda>p. list_all is_unreserved (wire_name p)) query_parameter_ALL"
  by code_simp

lemma wire_name_unreserved:
  assumes "parameter_wf p"
  shows "list_all is_unreserved (wire_name p) \<and> wire_name p \<noteq> []"
proof (cases "\<exists>d. p = Declared d")
  case True
  with assms declared_wf show ?thesis by (fastforce simp: is_declared_query_name_def split: if_splits)
next
  case False
  then have "p \<in> set query_parameter_ALL" by (cases p) (auto simp: query_parameter_ALL_def)
  with sanctioned_names_unreserved have "list_all is_unreserved (wire_name p)" by (simp add: list_all_iff)
  moreover have "wire_name p \<noteq> []" using False by (cases p) auto
  ultimately show ?thesis by blast
qed

section \<open>Collecting, sorting and rendering\<close>

abbreviation wire_names :: "(query_parameter \<times> string) list \<Rightarrow> string list" where
  "wire_names ps \<equiv> map (\<lambda>pv. wire_name (fst pv)) ps"

lemma query_collect_Ok:
  "query_collect declared ps = Ok r \<longleftrightarrow>
    list_all (\<lambda>(p, v). parameter_accepts p v) ps \<and>
    (\<forall>n \<in> set (wire_names ps). n \<notin> set (wire_names declared)) \<and>
    distinct (wire_names ps) \<and> r = declared @ ps"
proof (induction declared ps rule: query_collect.induct)
  case (1 declared)
  then show ?case by auto
next
  case (2 declared parameter v rest)
  have "list_ex (\<lambda>(seen, _). wire_name seen = wire_name parameter) declared \<longleftrightarrow>
      wire_name parameter \<in> set (wire_names declared)"
    by (force simp: list_ex_iff)
  with 2 show ?case by (auto simp del: set_map)
qed

lemma query_collect_Err:
  "query_collect declared ps = Err e \<Longrightarrow> e = InvalidQueryValue \<or> e = DuplicateQueryParameter"
  by (induction declared ps rule: query_collect.induct) (auto split: if_splits)

lemma canonical_key_inj:
  "distinct (wire_names ps) \<Longrightarrow> inj_on (\<lambda>(p, _). canonical_key p) (set ps)"
proof (rule inj_onI, clarify)
  fix a b c d
  assume d: "distinct (wire_names ps)"
    and mem: "(a, b) \<in> set ps" "(c, d) \<in> set ps" and "canonical_key a = canonical_key c"
  then have "wire_name (fst (a, b)) = wire_name (fst (c, d))" by (simp add: canonical_key_def)
  with d mem show "a = c \<and> b = d" unfolding distinct_map by (blast dest: inj_onD)
qed

abbreviation canonical :: "(query_parameter \<times> string) list \<Rightarrow> (query_parameter \<times> string) list" where
  "canonical ps \<equiv> sort_key (\<lambda>(p, _). canonical_key p) ps"

lemma canonical_unique:
  assumes "mset ps' = mset ps" and "distinct (wire_names ps)"
  shows "canonical ps' = canonical ps"
  using assms canonical_key_inj [OF assms(2)]
  by (intro sort_key_inj_key_eq) (auto dest: mset_eq_setD)

definition query_item :: "query_parameter \<times> string \<Rightarrow> string" where
  "query_item pv = wire_name (fst pv) @ CHR ''='' # snd pv"

lemma query_serialize_more:
  "acc \<noteq> [] \<Longrightarrow> query_serialize acc ps = acc @ concat (map (\<lambda>pv. CHR ''&'' # query_item pv) ps)"
  by (induction acc ps rule: query_serialize.induct) (auto simp: query_item_def)

lemma query_serialize_items:
  "query_serialize [] (pv # ps) = query_item pv @ concat (map (\<lambda>pv. CHR ''&'' # query_item pv) ps)"
  by (cases pv) (simp add: query_serialize_more query_item_def)

lemma split_items:
  "list_all (\<lambda>pv. CHR ''&'' \<notin> set (query_item pv)) (pv # ps) \<Longrightarrow>
    split_on (CHR ''&'') (query_item pv @ concat (map (\<lambda>pv. CHR ''&'' # query_item pv) ps)) =
      map query_item (pv # ps)"
  by (induction ps arbitrary: pv) (simp_all add: split_on_plain split_on_sep)

definition query_length :: "(query_parameter \<times> string) list \<Rightarrow> nat" where
  "query_length ps = (\<Sum>pv\<leftarrow>ps. Suc (length (query_item pv))) - 1"

lemma length_query_serialize:
  "length (query_serialize [] ps) = query_length ps"
proof (cases ps)
  case (Cons pv rest)
  have "length (concat (map (\<lambda>pv. CHR ''&'' # query_item pv) rest)) = (\<Sum>pv\<leftarrow>rest. Suc (length (query_item pv)))"
    by (induction rest) auto
  with Cons show ?thesis by (simp add: query_serialize_items query_length_def del: query_serialize.simps)
qed (simp add: query_length_def)

lemma query_length_canonical: "query_length (canonical ps) = query_length ps"
proof -
  have "mset (map (\<lambda>pv. Suc (length (query_item pv))) (canonical ps)) =
      mset (map (\<lambda>pv. Suc (length (query_item pv))) ps)" by simp
  then have "(\<Sum>pv\<leftarrow>canonical ps. Suc (length (query_item pv))) = (\<Sum>pv\<leftarrow>ps. Suc (length (query_item pv)))"
    by (metis sum_mset_sum_list)
  then show ?thesis by (simp add: query_length_def)
qed

lemma query_Ok:
  "query_try_from_iter ps = Ok q \<longleftrightarrow>
    ps \<noteq> [] \<and> list_all (\<lambda>(p, v). parameter_accepts p v) ps \<and> distinct (wire_names ps) \<and>
    query_length ps \<le> MAX_QUERY_TOTAL_BYTES \<and> q = \<lparr>qs_serialized = query_serialize [] (canonical ps)\<rparr>"
proof (cases "query_collect [] ps")
  case (Ok r)
  then have "r = ps" "list_all (\<lambda>(p, v). parameter_accepts p v) ps" "distinct (wire_names ps)"
    by (auto simp: query_collect_Ok)
  with Ok show ?thesis
    by (auto simp: query_try_from_iter_def Let_def length_query_serialize query_length_canonical)
next
  case (Err e)
  then have "\<nexists>r. query_collect [] ps = Ok r" by simp
  then have "\<not> (list_all (\<lambda>(p, v). parameter_accepts p v) ps \<and> distinct (wire_names ps))"
    unfolding query_collect_Ok by auto
  with Err show ?thesis by (auto simp: query_try_from_iter_def)
qed

section \<open>Properties\<close>

text \<open>
  Claim C34. A query is accepted exactly when it declares at least one parameter, every value
  satisfies its parameter's grammar, no wire name is repeated and the serialized query has at most
  256 bytes. The serialization is canonical: any reordering of the same declarations is accepted
  with the same bytes. Each refusal has its own error.
\<close>

theorem query_canonical:
  "((\<exists>q. query_try_from_iter ps = Ok q) \<longleftrightarrow>
     ps \<noteq> [] \<and> list_all (\<lambda>(p, v). parameter_accepts p v) ps \<and> distinct (wire_names ps) \<and>
     query_length ps \<le> MAX_QUERY_TOTAL_BYTES) \<and>
   (\<forall>q ps'. query_try_from_iter ps = Ok q \<longrightarrow> mset ps' = mset ps \<longrightarrow> query_try_from_iter ps' = Ok q) \<and>
   (query_try_from_iter ps = Err EmptyQuery \<longleftrightarrow> ps = []) \<and>
   (query_try_from_iter ps = Err QueryTooLarge \<longleftrightarrow>
     list_all (\<lambda>(p, v). parameter_accepts p v) ps \<and> distinct (wire_names ps) \<and>
     MAX_QUERY_TOTAL_BYTES < query_length ps)"
proof -
  have perm: "query_try_from_iter ps' = Ok q"
    if ok: "query_try_from_iter ps = Ok q" and m: "mset ps' = mset ps" for q ps'
  proof -
    have "mset (wire_names ps') = mset (wire_names ps)" using m by simp
    then have "distinct (wire_names ps')"
      using ok by (metis query_Ok mset_eq_imp_distinct_iff)
    moreover have "canonical ps' = canonical ps"
      using ok m by (intro canonical_unique) (auto simp: query_Ok)
    moreover from this have "query_length ps' = query_length ps"
      by (metis query_length_canonical)
    moreover have "set ps' = set ps" using m by (rule mset_eq_setD)
    ultimately show ?thesis using ok by (auto simp: query_Ok list_all_iff)
  qed
  have errors: "(query_try_from_iter ps = Err EmptyQuery \<longleftrightarrow> ps = []) \<and>
    (query_try_from_iter ps = Err QueryTooLarge \<longleftrightarrow>
      list_all (\<lambda>(p, v). parameter_accepts p v) ps \<and> distinct (wire_names ps) \<and>
      MAX_QUERY_TOTAL_BYTES < query_length ps)"
  proof (cases "query_collect [] ps")
    case (Ok r)
    then have "r = ps" "list_all (\<lambda>(p, v). parameter_accepts p v) ps" "distinct (wire_names ps)"
      by (auto simp: query_collect_Ok)
    moreover have "query_length [] = 0" by (simp add: query_length_def)
    ultimately show ?thesis
      using Ok by (auto simp: query_try_from_iter_def Let_def length_query_serialize query_length_canonical)
  next
    case (Err e)
    then have "\<not> (list_all (\<lambda>(p, v). parameter_accepts p v) ps \<and> distinct (wire_names ps))"
      using query_collect_Ok [of "[]" ps ps] by auto
    with Err query_collect_Err [OF Err] show ?thesis by (auto simp: query_try_from_iter_def)
  qed
  show ?thesis using perm errors query_Ok [of ps] by blast
qed

theorem query_canonical_witness:
  "\<exists>q. query_try_from_iter [(ApiVersion, ''v1''), (Alt, ''sse'')] = Ok q \<and>
     query_try_from_iter [(Alt, ''sse''), (ApiVersion, ''v1'')] = Ok q"
proof -
  let ?ps = "[(ApiVersion, ''v1''), (Alt, ''sse'')]"
  have "parameter_accepts ApiVersion ''v1''"
    by (simp add: MAX_QUERY_VALUE_BYTES_def byte_class byte_in_def)
  moreover have "query_length ?ps \<le> MAX_QUERY_TOTAL_BYTES"
    by (simp add: query_length_def query_item_def MAX_QUERY_TOTAL_BYTES_def)
  ultimately obtain q where "query_try_from_iter ?ps = Ok q"
    using query_canonical [of ?ps, THEN conjunct1] by auto
  then show ?thesis
    using query_canonical [of ?ps, THEN conjunct2, THEN conjunct1, rule_format, of q] by simp
qed

lemma list_all_joined:
  assumes "\<And>i. i \<in> set (x # xs) \<Longrightarrow> list_all P (f i)" and "P c"
  shows "list_all P (f x @ concat (map (\<lambda>i. c # f i) xs))"
  using assms by (auto simp: list_all_iff)

lemma query_item_bytes:
  assumes "parameter_wf (fst pv)" and "parameter_accepts (fst pv) (snd pv)"
  shows "CHR ''&'' \<notin> set (query_item pv)"
    and "split_once (CHR ''='') (query_item pv) = Some (wire_name (fst pv), snd pv)"
    and "list_all (\<lambda>c. is_unreserved c \<or> c = CHR ''&'' \<or> c = CHR ''='') (query_item pv)"
proof -
  have "list_all is_unreserved (wire_name (fst pv))" "list_all is_unreserved (snd pv)"
    using assms wire_name_unreserved accepted_value_unreserved by blast+
  then have plain: "c \<noteq> CHR ''&'' \<and> c \<noteq> CHR ''=''" "is_unreserved c"
    if "c \<in> set (wire_name (fst pv)) \<union> set (snd pv)" for c
    using that unreserved_plain by (auto simp: list_all_iff)
  show "CHR ''&'' \<notin> set (query_item pv)" using plain(1) by (auto simp: query_item_def)
  show "split_once (CHR ''='') (query_item pv) = Some (wire_name (fst pv), snd pv)"
    using plain(1) unfolding query_item_def by (intro split_once_append) blast
  show "list_all (\<lambda>c. is_unreserved c \<or> c = CHR ''&'' \<or> c = CHR ''='') (query_item pv)"
    using plain(2) by (auto simp: query_item_def list_all_iff)
qed

lemma query_split:
  assumes "list_all (\<lambda>pv. parameter_wf (fst pv)) ps" and "query_try_from_iter ps = Ok q"
  shows "split_on (CHR ''&'') (qs_serialized q) = map query_item (canonical ps)"
    and "\<And>pv. pv \<in> set ps \<Longrightarrow> split_once (CHR ''='') (query_item pv) = Some (wire_name (fst pv), snd pv)"
proof -
  have items: "parameter_wf (fst pv)" "parameter_accepts (fst pv) (snd pv)" if "pv \<in> set ps" for pv
    using that assms by (auto simp: list_all_iff query_Ok)
  obtain pv rest where xs: "canonical ps = pv # rest"
    using assms(2) by (cases "canonical ps") (auto simp: query_Ok dest: arg_cong [of _ _ length])
  have "list_all (\<lambda>pv. CHR ''&'' \<notin> set (query_item pv)) (canonical ps)"
    using items query_item_bytes(1) by (simp add: list_all_iff)
  moreover have "qs_serialized q = query_item pv @ concat (map (\<lambda>pv. CHR ''&'' # query_item pv) rest)"
    using assms(2) xs query_serialize_items by (simp add: query_Ok)
  ultimately show "split_on (CHR ''&'') (qs_serialized q) = map query_item (canonical ps)"
    unfolding xs by (simp only: split_items)
  show "split_once (CHR ''='') (query_item pv) = Some (wire_name (fst pv), snd pv)" if "pv \<in> set ps" for pv
    using items [OF that] by (rule query_item_bytes(2))
qed

text \<open>
  Claim C35. What goes on the wire is what was declared. Read back the way an upstream reads it,
  split at every ampersand and at the first equals sign of each part, the serialized query gives
  each declared name with its value, once, the sanctioned names first in their fixed order and the
  declared ones after them in byte order. Besides the separators every byte is unreserved, so no
  value can split the query, open a fragment or be re-encoded when the URL is joined.
\<close>

theorem query_reads_back:
  assumes "list_all (\<lambda>pv. parameter_wf (fst pv)) ps" and "query_try_from_iter ps = Ok q"
  shows "\<exists>xs. mset xs = mset ps \<and> sorted (map (\<lambda>pv. canonical_key (fst pv)) xs) \<and>
      map (split_once (CHR ''='')) (split_on (CHR ''&'') (qs_serialized q)) =
        map (\<lambda>pv. Some (wire_name (fst pv), snd pv)) xs \<and>
      distinct (map (\<lambda>pv. wire_name (fst pv)) xs) \<and>
      list_all (\<lambda>c. is_unreserved c \<or> c = CHR ''&'' \<or> c = CHR ''='') (qs_serialized q) \<and>
      length (qs_serialized q) \<le> MAX_QUERY_TOTAL_BYTES"
proof -
  let ?xs = "canonical ps"
  have ok: "ps \<noteq> []" "list_all (\<lambda>(p, v). parameter_accepts p v) ps" "distinct (wire_names ps)"
      "query_length ps \<le> MAX_QUERY_TOTAL_BYTES" and q: "qs_serialized q = query_serialize [] ?xs"
    using assms(2) by (simp_all add: query_Ok)
  have items: "parameter_wf (fst pv)" "parameter_accepts (fst pv) (snd pv)" if "pv \<in> set ?xs" for pv
    using that assms(1) ok(2) by (auto simp: list_all_iff)
  obtain pv rest where xs: "?xs = pv # rest"
    using ok(1) by (cases ?xs) (auto dest: arg_cong [of _ _ length])
  have ser: "qs_serialized q = query_item pv @ concat (map (\<lambda>pv. CHR ''&'' # query_item pv) rest)"
    unfolding q xs by (rule query_serialize_items)
  have split: "split_on (CHR ''&'') (qs_serialized q) = map query_item ?xs" by (rule query_split [OF assms])
  have parts: "map (split_once (CHR ''='')) (map query_item ?xs) = map (\<lambda>pv. Some (wire_name (fst pv), snd pv)) ?xs"
    using query_split(2) [OF assms] by simp
  have bytes:  "list_all (\<lambda>c. is_unreserved c \<or> c = CHR ''&'' \<or> c = CHR ''='') (qs_serialized q)"
    unfolding ser
  proof (rule list_all_joined)
    show "list_all (\<lambda>c. is_unreserved c \<or> c = CHR ''&'' \<or> c = CHR ''='') (query_item i)"
      if "i \<in> set (pv # rest)" for i
      using that items query_item_bytes(3) xs by metis
    show "is_unreserved (CHR ''&'') \<or> CHR ''&'' = CHR ''&'' \<or> CHR ''&'' = CHR ''=''" by blast
  qed
  have sorted: "sorted (map (\<lambda>pv. canonical_key (fst pv)) ?xs)"
    using sorted_sort_key [of "\<lambda>(p, _). canonical_key p" ps] by (simp add: case_prod_unfold)
  have distinct: "distinct (wire_names ?xs)"
  proof -
    have "mset (wire_names ?xs) = mset (wire_names ps)" by simp
    with ok(3) show ?thesis by (metis mset_eq_imp_distinct_iff)
  qed
  have "length (qs_serialized q) \<le> MAX_QUERY_TOTAL_BYTES"
    using ok(4) by (simp add: q length_query_serialize query_length_canonical)
  then show ?thesis
    unfolding split
    by (intro exI [of _ ?xs] conjI mset_sort sorted parts distinct bytes)
qed

definition sample_parameter :: declared_query_parameter where
  "sample_parameter = \<lparr>dqp_name = ''region'', dqp_syntax = Enum [''eu'', ''us'']\<rparr>"

lemma sample_parameter_wf: "parameter_wf (Declared sample_parameter)"
  by code_simp

theorem query_reads_back_witness:
  "\<exists>q xs. query_try_from_iter [(Declared sample_parameter, ''eu''), (TaskId, ''42'')] = Ok q \<and>
     mset xs = mset [(Declared sample_parameter, ''eu''), (TaskId, ''42'')] \<and>
     map (split_once (CHR ''='')) (split_on (CHR ''&'') (qs_serialized q)) =
        map (\<lambda>pv. Some (wire_name (fst pv), snd pv)) xs"
proof -
  have "query_try_from_iter [(Declared sample_parameter, ''eu''), (TaskId, ''42'')] =
      Ok \<lparr>qs_serialized = query_serialize [] (canonical [(Declared sample_parameter, ''eu''), (TaskId, ''42'')])\<rparr>"
    by (simp add: query_Ok sample_parameter_def decimal_id_def MAX_QUERY_VALUE_BYTES_def byte_class
        byte_in_def query_length_def query_item_def MAX_QUERY_TOTAL_BYTES_def)
  with query_reads_back [OF _ this] sample_parameter_wf show ?thesis by fastforce
qed

text \<open>
  A declared query parameter never takes a name that carries a credential or that already
  has an owner, however it is spelled: when a name is accepted, no name that differs from it only in
  letter case and in the separators \<open>-\<close>, \<open>_\<close> and \<open>.\<close> is a denied name, contains a denied fragment or
  is the wire name of a sanctioned parameter. Every value its syntax admits is at most 64
  unreserved bytes.
\<close>

theorem declared_query_parameter_safe:
  assumes "dqp_try_new name syn = Ok d"
  shows "dqp_name d = name \<and> dqp_syntax d = syn \<and>
    (\<forall>variant. normalized_query_name variant = normalized_query_name name \<longrightarrow>
      normalized_query_name variant \<notin> set DECLARED_QUERY_DENIED_NAMES \<and>
      (\<forall>fragment \<in> set DECLARED_QUERY_DENIED_FRAGMENTS.
        \<not> (\<exists>a b. normalized_query_name variant = a @ fragment @ b)) \<and>
      variant \<notin> wire_name ` set query_parameter_ALL) \<and>
    (\<forall>v. syntax_admits syn v \<longrightarrow> list_all is_unreserved v \<and> length v \<le> MAX_QUERY_VALUE_BYTES)"
proof -
  have d: "is_declared_query_name name" "syntax_validate syn = Ok ()"
      "d = \<lparr>dqp_name = name, dqp_syntax = syn\<rparr>"
    using assms by (cases "syntax_validate syn"; simp add: dqp_try_new_def)+
  then have "normalized_query_name name \<notin> set DECLARED_QUERY_DENIED_NAMES"
      "\<not> list_ex (\<lambda>fragment. str_contains fragment (normalized_query_name name)) DECLARED_QUERY_DENIED_FRAGMENTS"
      "\<not> list_ex (\<lambda>p. normalized_query_name (wire_name p) = normalized_query_name name) query_parameter_ALL"
    by (simp_all add: is_declared_query_name_def Let_def split: if_splits)
  then have "\<And>f. f \<in> set DECLARED_QUERY_DENIED_FRAGMENTS \<Longrightarrow> \<not> (\<exists>a b. normalized_query_name name = a @ f @ b)"
      "\<And>p. p \<in> set query_parameter_ALL \<Longrightarrow> normalized_query_name (wire_name p) \<noteq> normalized_query_name name"
      "normalized_query_name name \<notin> set DECLARED_QUERY_DENIED_NAMES"
    unfolding list_ex_iff str_contains_iff by blast+
  then show ?thesis
    using d(3) syntax_value_unreserved [OF d(2)] by auto
qed

theorem declared_query_parameter_safe_witness:
  "dqp_try_new ''region'' (Enum [''eu'', ''us'']) = Ok sample_parameter \<and>
   normalized_query_name ''API_Key'' \<noteq> normalized_query_name ''region''"
proof -
  have ok: "dqp_try_new ''region'' (Enum [''eu'', ''us'']) = Ok sample_parameter" by code_simp
  moreover have "\<exists>a b. normalized_query_name ''API_Key'' = a @ ''apikey'' @ b"
  proof -
    have "normalized_query_name ''API_Key'' = ''apikey''" by code_simp
    then show ?thesis by (metis append_Nil append_Nil2)
  qed
  moreover have "''apikey'' \<in> set DECLARED_QUERY_DENIED_FRAGMENTS"
    by (simp add: DECLARED_QUERY_DENIED_FRAGMENTS_def)
  ultimately show ?thesis using declared_query_parameter_safe [OF ok] by blast
qed

section \<open>User agents\<close>

lemma user_agent_loop_eq: "user_agent_loop bs \<longleftrightarrow> list_all (byte_in 0x20 0x7E) bs"
  by (induction bs) (auto simp: byte_in_def)

lemma user_agent_admits_eq:
  "user_agent_grammar_admits bs \<longleftrightarrow>
    bs \<noteq> [] \<and> length bs \<le> MAX_USER_AGENT_BYTES \<and> hd bs \<noteq> CHR '' '' \<and> last bs \<noteq> CHR '' '' \<and>
    list_all (byte_in 0x20 0x7E) bs"
  by (auto simp: user_agent_grammar_admits_def user_agent_loop_eq)

text \<open>
  Whichever source fills the user-agent slot, the value sent is exactly a value of the
  frozen grammar: 1 to 256 printable ASCII bytes without a space at either end, so no carriage
  return, line feed or other control byte can reach the header. A host literal and a manifest value
  are accepted and refused alike.
\<close>

theorem user_agent_value_printable:
  "(\<exists>u. cua_try_from_static v = Ok u \<and> user_agent_as_str (Controlled u) = v) =
     (1 \<le> length v \<and> length v \<le> MAX_USER_AGENT_BYTES \<and> hd v \<noteq> CHR '' '' \<and> last v \<noteq> CHR '' '' \<and>
      list_all (byte_in 0x20 0x7E) v) \<and>
   (\<exists>u. dua_from_manifest_value v = Ok u \<and> user_agent_as_str (DeclaredAgent u) = v) =
     (\<exists>u. cua_try_from_static v = Ok u) \<and>
   (cua_try_from_static v = Err InvalidUserAgentValue) = (\<forall>u. cua_try_from_static v \<noteq> Ok u)"
  by (auto simp: cua_try_from_static_def dua_from_manifest_value_def user_agent_admits_eq Suc_le_eq)

end
