(* ===== verification/Resolution.thy ===== *)
theory Resolution
  imports Paths Query
begin

text \<open>
  \<open>RelativePathV1::resolve_against\<close> and \<open>resolve_against_with_query\<close>
  (\<open>south-contracts/src/lib.rs\<close>): a relative path and an optional query are joined to a trusted
  endpoint, and the result is reparsed and checked against the endpoint.
\<close>

definition resolve_against_with_query ::
  "'u url_crate \<Rightarrow> relative_path \<Rightarrow> 'u provider_endpoint \<Rightarrow> query_string option
    \<Rightarrow> ('u, preparation_error) result" where
  "resolve_against_with_query U p endpoint query =
     (let base = pe_url endpoint;
          destination = url_set_path U (url_path U base @ rp_value p) base;
          destination' = (case query of Some q \<Rightarrow> url_set_query U (Some (qs_serialized q)) destination
                          | None \<Rightarrow> destination)
      in and_then (ok_or (url_parse U (url_as_str U destination')) UrlOutsideBinding) (\<lambda>reparsed.
           let same_origin =
                 (url_scheme U reparsed = url_scheme U base \<and>
                  url_host_str U reparsed = url_host_str U base \<and>
                  url_port_or_known_default U reparsed = url_port_or_known_default U base);
               inside_base = starts_with (url_path U base) (url_path U reparsed);
               query_intact = (case query of None \<Rightarrow> url_query U reparsed = None
                               | Some declared \<Rightarrow> url_query U reparsed = Some (qs_serialized declared))
           in if \<not> same_origin \<or> \<not> inside_base \<or> \<not> query_intact \<or> url_username U reparsed \<noteq> [] \<or>
                 url_password U reparsed \<noteq> None \<or> url_fragment U reparsed \<noteq> None
              then Err UrlOutsideBinding else Ok reparsed))"

definition resolve_against ::
  "'u url_crate \<Rightarrow> relative_path \<Rightarrow> 'u provider_endpoint \<Rightarrow> ('u, preparation_error) result" where
  "resolve_against U p endpoint = resolve_against_with_query U p endpoint None"

section \<open>Endpoints\<close>

text \<open>
  What is relied on of the \<open>url\<close> crate: setting a URL's path to its own path followed by a slash
  gives that path and leaves the other components alone.
\<close>

definition append_slash_law :: "'u url_crate \<Rightarrow> bool" where
  "append_slash_law U \<longleftrightarrow>
     (\<forall>u. let u' = url_set_path U (url_path U u @ ''/'') u in
        url_path U u' = url_path U u @ ''/'' \<and> url_scheme U u' = url_scheme U u \<and>
        url_host_str U u' = url_host_str U u \<and>
        url_port_or_known_default U u' = url_port_or_known_default U u \<and>
        url_username U u' = url_username U u \<and> url_password U u' = url_password U u \<and>
        url_query U u' = url_query U u \<and> url_fragment U u' = url_fragment U u)"

text \<open>What an endpoint guarantees.\<close>

definition endpoint_ok :: "'u url_crate \<Rightarrow> 'u provider_endpoint \<Rightarrow> bool" where
  "endpoint_ok U e \<longleftrightarrow>
     (let u = pe_url e in
        url_scheme U u \<in> {''http'', ''https''} \<and> url_host_str U u \<noteq> None \<and> url_username U u = [] \<and>
        url_password U u = None \<and> url_query U u = None \<and> url_fragment U u = None \<and>
        prefix ''/'' (url_path U u) \<and> suffix ''/'' (url_path U u) \<and>
        length (url_as_str U u) \<le> MAX_ENDPOINT_BYTES)"

lemma validated_path_prefix: "validate_endpoint_path p = Ok () \<Longrightarrow> prefix ''/'' p"
  unfolding validate_endpoint_path_def refuse_Ok by (simp add: starts_with_iff_prefix)

lemma provider_endpoint_parse_Ok:
  assumes "provider_endpoint_parse U input = Ok e"
  obtains u where "url_parse U input = Some u" and "url_scheme U u \<in> set [''http'', ''https'']"
    and "url_host_str U u \<noteq> None" and "url_username U u = []" and "url_password U u = None"
    and "url_query U u = None" and "url_fragment U u = None"
    and "validate_endpoint_path (url_path U u) = Ok ()"
    and "pe_url e = (if \<not> ends_with ''/'' (url_path U u) then url_set_path U (url_path U u @ ''/'') u else u)"
    and "length (url_as_str U (pe_url e)) \<le> MAX_ENDPOINT_BYTES"
  using assms
  unfolding provider_endpoint_parse_def refuse_Ok and_then_Ok_iff ok_or_Ok_iff Let_def de_Morgan_disj
    not_not result.inject
  by (auto simp: not_less)

lemma endpoint_ok_parse:
  assumes law: "append_slash_law U" and ok: "provider_endpoint_parse U input = Ok e"
  shows "endpoint_ok U e"
proof -
  obtain u where u: "url_scheme U u \<in> set [''http'', ''https'']" "url_host_str U u \<noteq> None"
      "url_username U u = []" "url_password U u = None" "url_query U u = None" "url_fragment U u = None"
      "validate_endpoint_path (url_path U u) = Ok ()"
      "pe_url e = (if \<not> ends_with ''/'' (url_path U u) then url_set_path U (url_path U u @ ''/'') u else u)"
      "length (url_as_str U (pe_url e)) \<le> MAX_ENDPOINT_BYTES"
    using provider_endpoint_parse_Ok [OF ok] by metis
  have pre: "prefix ''/'' (url_path U u)" using u(7) by (rule validated_path_prefix)
  show ?thesis
  proof (cases "ends_with ''/'' (url_path U u)")
    case True
    with u pre show ?thesis by (simp add: endpoint_ok_def Let_def ends_with_iff_suffix)
  next
    case False
    with u pre law [unfolded append_slash_law_def Let_def, rule_format, of u] show ?thesis
      by (simp add: endpoint_ok_def Let_def)
  qed
qed

lemma resolve_Err:
  assumes "resolve_against_with_query U p e query = Err err"
  shows "err = UrlOutsideBinding"
proof -
  let ?d = "url_set_path U (url_path U (pe_url e) @ rp_value p) (pe_url e)"
  let ?d' = "case query of Some q \<Rightarrow> url_set_query U (Some (qs_serialized q)) ?d | None \<Rightarrow> ?d"
  show ?thesis
    using assms unfolding resolve_against_with_query_def Let_def
    by (cases "url_parse U (url_as_str U ?d')") (auto split: if_splits)
qed

lemma resolved_confined:
  assumes "resolve_against_with_query U p e query = Ok r"
  shows "url_scheme U r = url_scheme U (pe_url e) \<and> url_host_str U r = url_host_str U (pe_url e) \<and>
      url_port_or_known_default U r = url_port_or_known_default U (pe_url e) \<and>
      prefix (url_path U (pe_url e)) (url_path U r) \<and> url_query U r = map_option qs_serialized query \<and>
      url_username U r = [] \<and> url_password U r = None \<and> url_fragment U r = None"
  using assms
  unfolding resolve_against_with_query_def Let_def and_then_Ok_iff refuse_Ok starts_with_iff_prefix
  by (cases query) auto

section \<open>Properties\<close>


text \<open>A small URL parser that satisfies the law: \<open>https\<close> URLs of a host, a path and a query.\<close>

record sample_url =
  su_host :: string
  su_path :: string
  su_query :: "string option"

definition sample_url_parse :: "string \<Rightarrow> sample_url option" where
  "sample_url_parse s =
     Option.bind (strip_prefix ''https://'' s) (\<lambda>rest.
       case split_once (CHR ''/'') rest of
         None \<Rightarrow> Some \<lparr>su_host = rest, su_path = ''/'', su_query = None\<rparr>
       | Some (host, tail) \<Rightarrow>
           (case split_once (CHR ''?'') tail of
              None \<Rightarrow> Some \<lparr>su_host = host, su_path = CHR ''/'' # tail, su_query = None\<rparr>
            | Some (p, q) \<Rightarrow> Some \<lparr>su_host = host, su_path = CHR ''/'' # p, su_query = Some q\<rparr>))"

definition sample_url_crate :: "sample_url url_crate" where
  "sample_url_crate =
     \<lparr>url_parse = sample_url_parse,
      url_as_str = (\<lambda>u. ''https://'' @ su_host u @ su_path u @
        (case su_query u of None \<Rightarrow> [] | Some q \<Rightarrow> CHR ''?'' # q)),
      url_scheme = (\<lambda>_. ''https''),
      url_host_str = (\<lambda>u. Some (su_host u)),
      url_port_or_known_default = (\<lambda>_. Some 443),
      url_username = (\<lambda>_. []),
      url_password = (\<lambda>_. None),
      url_path = su_path,
      url_query = su_query,
      url_fragment = (\<lambda>_. None),
      url_set_path = (\<lambda>p u. u\<lparr>su_path := p\<rparr>),
      url_set_query = (\<lambda>q u. u\<lparr>su_query := q\<rparr>)\<rparr>"

lemma sample_append_slash: "append_slash_law sample_url_crate"
  by (simp add: append_slash_law_def sample_url_crate_def)

definition sample_endpoint :: "sample_url provider_endpoint" where
  "sample_endpoint = \<lparr>pe_url = \<lparr>su_host = ''h'', su_path = ''/v1/'', su_query = None\<rparr>\<rparr>"

lemma sample_endpoint_parses: "provider_endpoint_parse sample_url_crate ''https://h/v1'' = Ok sample_endpoint"
proof -
  have "endpoint_raw_path ''https://h/v1'' = Some ''/v1''" "validate_endpoint_path ''/v1'' = Ok ()"
      "sample_url_parse ''https://h/v1'' = Some \<lparr>su_host = ''h'', su_path = ''/v1'', su_query = None\<rparr>"
      "\<not> list_ex is_forbidden_raw_url_byte ''https://h/v1''" "\<not> ends_with ''/'' ''/v1''"
    by code_simp+
  then show ?thesis
    by (simp add: provider_endpoint_parse_def sample_url_crate_def sample_endpoint_def MAX_ENDPOINT_BYTES_def)
qed


end
