(* ===== verification/Requests.thy ===== *)
theory Requests
  imports Bodies Safe_Headers Resolution
begin

text \<open>
  The authentication declaration and the four request shapes of \<open>south-contracts/src/lib.rs\<close>. The
  fields the shapes share are the record \<open>request\<close>; each shape extends it with its body. The
  multipart and the text shape render their own media type, so their constructors refuse a
  \<open>content-type\<close> among the ordinary headers.
\<close>

section \<open>Authentication declarations\<close>

record bearer_auth =
  ba_credential_slot :: credential_slot

definition bearer_auth_new :: "credential_slot \<Rightarrow> bearer_auth" where
  "bearer_auth_new slot = \<lparr>ba_credential_slot = slot\<rparr>"

datatype provider_auth =
    Bearer bearer_auth
  | HeaderSecret secret_header bearer_auth
  | HostSigned bearer_auth signed_header_set
  | BearerAndHeaderSecret secret_header bearer_auth
  | DeclaredHeaderSecret declared_secret_header bearer_auth

fun auth_credential_slot :: "provider_auth \<Rightarrow> credential_slot" where
  "auth_credential_slot (Bearer slot) = ba_credential_slot slot"
| "auth_credential_slot (HeaderSecret _ slot) = ba_credential_slot slot"
| "auth_credential_slot (HostSigned slot _) = ba_credential_slot slot"
| "auth_credential_slot (BearerAndHeaderSecret _ slot) = ba_credential_slot slot"
| "auth_credential_slot (DeclaredHeaderSecret _ slot) = ba_credential_slot slot"

section \<open>Request shapes\<close>

record request =
  rq_relative_path :: relative_path
  rq_headers :: safe_headers
  rq_auth :: provider_auth
  rq_query :: "query_string option"
  rq_user_agent :: "user_agent option"

record json_post_request = request +
  jp_body :: json_body

type_synonym get_request = request

record multipart_post_request = request +
  mr_body :: multipart_body

record text_post_request = request +
  tr_body :: text_body

definition json_post_new ::
  "relative_path \<Rightarrow> safe_headers \<Rightarrow> json_body \<Rightarrow> provider_auth \<Rightarrow> json_post_request" where
  "json_post_new path headers body auth =
     \<lparr>rq_relative_path = path, rq_headers = headers, rq_auth = auth, rq_query = None,
      rq_user_agent = None, jp_body = body\<rparr>"

definition get_new :: "relative_path \<Rightarrow> safe_headers \<Rightarrow> provider_auth \<Rightarrow> get_request" where
  "get_new path headers auth =
     \<lparr>rq_relative_path = path, rq_headers = headers, rq_auth = auth, rq_query = None,
      rq_user_agent = None\<rparr>"

definition multipart_post_try_new ::
  "(bytes \<Rightarrow> string option) \<Rightarrow> relative_path \<Rightarrow> safe_headers \<Rightarrow> multipart_body \<Rightarrow> provider_auth
    \<Rightarrow> (multipart_post_request, contract_error) result" where
  "multipart_post_try_new hn path headers body auth =
     (if sh_get hn headers ''content-type'' \<noteq> None then Err ContentTypeHeaderNotPermitted
      else Ok
        \<lparr>rq_relative_path = path, rq_headers = headers, rq_auth = auth, rq_query = None,
         rq_user_agent = None, mr_body = body\<rparr>)"

definition text_post_try_new ::
  "(bytes \<Rightarrow> string option) \<Rightarrow> relative_path \<Rightarrow> safe_headers \<Rightarrow> text_body \<Rightarrow> provider_auth
    \<Rightarrow> (text_post_request, contract_error) result" where
  "text_post_try_new hn path headers body auth =
     (if sh_get hn headers ''content-type'' \<noteq> None then Err ContentTypeHeaderNotPermitted
      else Ok
        \<lparr>rq_relative_path = path, rq_headers = headers, rq_auth = auth, rq_query = None,
         rq_user_agent = None, tr_body = body\<rparr>)"

definition with_query :: "'a request_scheme \<Rightarrow> query_string \<Rightarrow> 'a request_scheme" where
  "with_query r query = r\<lparr>rq_query := Some query\<rparr>"

definition with_user_agent :: "'a request_scheme \<Rightarrow> user_agent \<Rightarrow> 'a request_scheme" where
  "with_user_agent r agent = r\<lparr>rq_user_agent := Some agent\<rparr>"

section \<open>Properties\<close>

text \<open>
  A shape that renders its media type has no second one: over any accepted headers, a
  multipart or a text request is built exactly when no header was supplied under the name
  \<open>content-type\<close> in any letter case, and then the headers it carries have no such entry.
\<close>

theorem rendered_media_type_is_the_only_one:
  assumes "header_name_law hn" and "hn ''content-type'' \<noteq> None"
    and "sh_try_from_iter_with_secret_headers hn hv hs secrets = Ok h"
  shows "((\<exists>r. multipart_post_try_new hn path h body auth = Ok r \<and> rq_headers r = h \<and> mr_body r = body) =
      (\<forall>(n, v) \<in> set hs. \<not> eq_ignore_ascii_case n ''content-type'')) \<and>
    ((\<exists>r. text_post_try_new hn path h tbody auth = Ok r \<and> rq_headers r = h \<and> tr_body r = tbody) =
      (\<forall>(n, v) \<in> set hs. \<not> eq_ignore_ascii_case n ''content-type'')) \<and>
    (\<forall>r n v. multipart_post_try_new hn path h body auth = Ok r \<longrightarrow>
      (n, v) \<in> set (sh_iter (rq_headers r)) \<longrightarrow> n \<noteq> ''content-type'')"
proof -
  let ?ct = "''content-type''"
  have lower: "to_ascii_lowercase ?ct = ?ct" by code_simp
  then have ct: "the (hn ?ct) = ?ct" using assms(1,2) by (auto simp: header_name_law_def)
  have adm: "list_all (header_admissible hn hv secrets) hs"
    using assms(3) by (simp add: sh_try_from_iter_Ok headers_admitted_def)
  have name: "the (hn n) = to_ascii_lowercase n" if "(n, v) \<in> set hs" for n v
    using that adm assms(1) by (fastforce simp: list_all_iff header_admissible_def header_name_law_def)
  have some: "sh_get hn h ?ct = Some v \<longleftrightarrow> (\<exists>n. (n, v) \<in> set hs \<and> eq_ignore_ascii_case n ?ct)" for v
    using sh_get_given [OF assms(3,2), of v] name
    by (force simp: ct canonical_headers_def eq_ignore_ascii_case_def lower)
  have none: "sh_get hn h ?ct = None \<longleftrightarrow> (\<forall>(n, v) \<in> set hs. \<not> eq_ignore_ascii_case n ?ct)"
  proof
    assume "sh_get hn h ?ct = None"
    with some show "\<forall>(n, v) \<in> set hs. \<not> eq_ignore_ascii_case n ?ct" by fastforce
  next
    assume none: "\<forall>(n, v) \<in> set hs. \<not> eq_ignore_ascii_case n ?ct"
    show "sh_get hn h ?ct = None"
    proof (rule ccontr)
      assume "sh_get hn h ?ct \<noteq> None"
      then obtain v where "sh_get hn h ?ct = Some v" by blast
      with some none show False by blast
    qed
  qed
  have wf: "bt_wf (sh_values h)" using admitted_entries [OF assms(3)] by blast
  have absent: "(?ct, v) \<notin> set (sh_iter h)" if "sh_get hn h ?ct = None" for v
  proof -
    have "bt_get (sh_values h) ?ct = None"
      using that assms(2) ct by (auto simp: sh_get_def normalize_name_def)
    then show ?thesis using bt.entries_iff [OF wf, of ?ct v] by (simp add: sh_iter_def)
  qed
  have parts: "(\<exists>r. multipart_post_try_new hn path h body auth = Ok r \<and> rq_headers r = h \<and> mr_body r = body)
        \<longleftrightarrow> sh_get hn h ?ct = None"
      "(\<exists>r. text_post_try_new hn path h tbody auth = Ok r \<and> rq_headers r = h \<and> tr_body r = tbody)
        \<longleftrightarrow> sh_get hn h ?ct = None"
      "multipart_post_try_new hn path h body auth = Ok r \<Longrightarrow> sh_get hn h ?ct = None \<and> rq_headers r = h" for r
    unfolding multipart_post_try_new_def text_post_try_new_def by auto
  show ?thesis
    unfolding parts(1,2) none [symmetric] using parts(3) absent by blast
qed

theorem rendered_media_type_is_the_only_one_witness:
  "\<exists>h r. sh_try_from_iter_with_secret_headers token_name visible_value sample_headers dshs_none = Ok h \<and>
     multipart_post_try_new token_name \<lparr>rp_value = ''v1/audio''\<rparr> h
       \<lparr>mp_bytes = ''--b--'', mp_boundary = \<lparr>mb_value = ''b''\<rparr>,
        mp_content_type = ''multipart/form-data; boundary=b''\<rparr>
       (Bearer \<lparr>ba_credential_slot = \<lparr>cs_value = ''main''\<rparr>\<rparr>) = Ok r"
proof -
  have "token_name ''content-type'' \<noteq> None" by code_simp
  note ct = rendered_media_type_is_the_only_one [OF token_name_law this sample_headers_accepted]
  have "\<not> eq_ignore_ascii_case ''X-Trace'' ''content-type''"
      "\<not> eq_ignore_ascii_case ''Accept'' ''content-type''" by code_simp+
  then have "\<forall>(n, v) \<in> set sample_headers. \<not> eq_ignore_ascii_case n ''content-type''"
    by (simp add: sample_headers_def)
  with ct [THEN conjunct1, THEN iffD2] sample_headers_accepted show ?thesis by blast
qed

end
