(* ===== verification/Response_Metadata.thy ===== *)
theory Response_Metadata
  imports Safe_Headers
begin

text \<open>
  The response-side metadata of \<open>south-contracts/src/lib.rs\<close> and \<open>declared.rs\<close>: the closed diagnostic
  and quota fields, the quota header declaration of a package, and the bounded, display-only
  transcript of response headers. The success of \<open>HeaderValue::from_str\<close> is the parameter \<open>hv\<close>.
\<close>

definition PROVIDER_QUOTA_METADATA_FIELD_COUNT :: nat where
  "PROVIDER_QUOTA_METADATA_FIELD_COUNT = 9"

definition MAX_PROVIDER_QUOTA_METADATA_VALUE_BYTES :: nat where
  "MAX_PROVIDER_QUOTA_METADATA_VALUE_BYTES = 256"

definition MAX_PROVIDER_QUOTA_METADATA_TOTAL_BYTES :: nat where
  "MAX_PROVIDER_QUOTA_METADATA_TOTAL_BYTES =
     PROVIDER_QUOTA_METADATA_FIELD_COUNT * MAX_PROVIDER_QUOTA_METADATA_VALUE_BYTES"

definition RESPONSE_DIAGNOSTIC_FIELD_COUNT :: nat where
  "RESPONSE_DIAGNOSTIC_FIELD_COUNT = 8"

definition MAX_RESPONSE_DIAGNOSTIC_VALUE_BYTES :: nat where
  "MAX_RESPONSE_DIAGNOSTIC_VALUE_BYTES = 256"

definition MAX_RESPONSE_DIAGNOSTIC_TOTAL_BYTES :: nat where
  "MAX_RESPONSE_DIAGNOSTIC_TOTAL_BYTES =
     RESPONSE_DIAGNOSTIC_FIELD_COUNT * MAX_RESPONSE_DIAGNOSTIC_VALUE_BYTES"

section \<open>Closed fields\<close>

text \<open>
  Both closed sets are filled by the same loop over an array of slots, which differs only in the
  field type's \<open>index\<close> and the bounds; the loop is written once, with these as arguments.
\<close>

fun fill_slots ::
  "(string \<Rightarrow> bool) \<Rightarrow> ('f \<Rightarrow> nat) \<Rightarrow> nat \<Rightarrow> nat \<Rightarrow> string option list \<Rightarrow> nat \<Rightarrow> nat \<Rightarrow> ('f \<times> string) list
    \<Rightarrow> (string option list \<times> nat, transport_error) result" where
  "fill_slots hv index max_value max_total slots total_bytes present [] = Ok (slots, present)"
| "fill_slots hv index max_value max_total slots total_bytes present ((field, v) # rest) =
     (if max_value < length v \<or> \<not> hv v then Err ResponseMetadataInvalid
      else
        and_then (ok_or (checked_add total_bytes (length v)) ResponseMetadataInvalid) (\<lambda>total_bytes'.
          if max_total < total_bytes' then Err ResponseMetadataInvalid
          else if slots ! index field \<noteq> None then Err ResponseMetadataInvalid
          else fill_slots hv index max_value max_total (slots[index field := Some v]) total_bytes'
                 (present + 1) rest))"

text \<open>The values of one response: no array at all when no field was present.\<close>

record field_values =
  fv_values :: "string option list option"

definition default_values :: field_values where
  "default_values = \<lparr>fv_values = None\<rparr>"

definition diagnostics_try_from_iter ::
  "(string \<Rightarrow> bool) \<Rightarrow> (diagnostic_field \<times> string) list \<Rightarrow> (field_values, transport_error) result" where
  "diagnostics_try_from_iter hv entries =
     and_then
       (fill_slots hv diagnostic_index MAX_RESPONSE_DIAGNOSTIC_VALUE_BYTES
          MAX_RESPONSE_DIAGNOSTIC_TOTAL_BYTES (replicate RESPONSE_DIAGNOSTIC_FIELD_COUNT None) 0 0 entries)
       (\<lambda>(slots, present). Ok \<lparr>fv_values = (if present \<noteq> 0 then Some slots else None)\<rparr>)"

definition quota_try_from_iter ::
  "(string \<Rightarrow> bool) \<Rightarrow> (quota_field \<times> string) list \<Rightarrow> (field_values, transport_error) result" where
  "quota_try_from_iter hv entries =
     and_then
       (fill_slots hv quota_index MAX_PROVIDER_QUOTA_METADATA_VALUE_BYTES
          MAX_PROVIDER_QUOTA_METADATA_TOTAL_BYTES (replicate PROVIDER_QUOTA_METADATA_FIELD_COUNT None) 0 0
          entries)
       (\<lambda>(slots, present). Ok \<lparr>fv_values = (if present \<noteq> 0 then Some slots else None)\<rparr>)"

definition field_value :: "('f \<Rightarrow> nat) \<Rightarrow> field_values \<Rightarrow> 'f \<Rightarrow> string option" where
  "field_value index d field = Option.bind (fv_values d) (\<lambda>slots. slots ! index field)"

definition diagnostics_value :: "field_values \<Rightarrow> diagnostic_field \<Rightarrow> string option" where
  "diagnostics_value d field = field_value diagnostic_index d field"

definition quota_value :: "field_values \<Rightarrow> quota_field \<Rightarrow> string option" where
  "quota_value d field = field_value quota_index d field"

definition present_field_count :: "field_values \<Rightarrow> nat" where
  "present_field_count d =
     (case fv_values d of None \<Rightarrow> 0 | Some slots \<Rightarrow> length (filter (\<lambda>s. s \<noteq> None) slots))"

definition diagnostics_iter :: "field_values \<Rightarrow> (string \<times> string) list" where
  "diagnostics_iter d =
     List.map_filter
       (\<lambda>field. map_option (\<lambda>v. (diagnostic_header_name field, v)) (diagnostics_value d field))
       diagnostic_field_ALL"

section \<open>Declared quota headers\<close>

definition MAX_QUOTA_HEADER_NAME_BYTES :: nat where
  "MAX_QUOTA_HEADER_NAME_BYTES = 128"

definition PROVIDER_QUOTA_HEADER_DENIED_NAMES :: "string list" where
  "PROVIDER_QUOTA_HEADER_DENIED_NAMES =
     [''authorization'', ''connection'', ''content-encoding'', ''content-length'',
      ''content-type'', ''cookie'', ''keep-alive'', ''location'', ''proxy-authenticate'',
      ''proxy-authorization'', ''proxy-connection'', ''retry-after'', ''set-cookie'',
      ''set-cookie2'', ''te'', ''trailer'', ''transfer-encoding'', ''upgrade'',
      ''www-authenticate'']"

definition is_quota_header_name :: "string \<Rightarrow> bool" where
  "is_quota_header_name name \<longleftrightarrow>
     name \<noteq> [] \<and> length name \<le> MAX_QUOTA_HEADER_NAME_BYTES \<and> is_ascii_lowercase (hd name) \<and>
     \<not> ends_with ''-'' name \<and>
     list_all (\<lambda>c. is_ascii_lowercase c \<or> is_ascii_digit c \<or> c = CHR ''-'') name \<and>
     name \<notin> set PROVIDER_QUOTA_HEADER_DENIED_NAMES"

record quota_header_map =
  qh_entries :: "(string \<times> quota_field) list"

definition quota_map_canonical :: quota_header_map where
  "quota_map_canonical = \<lparr>qh_entries = map (\<lambda>field. (quota_header_name field, field)) quota_field_ALL\<rparr>"

fun quota_map_collect ::
  "(string \<times> quota_field) list \<Rightarrow> (string \<times> quota_field) list
    \<Rightarrow> ((string \<times> quota_field) list, contract_error) result" where
  "quota_map_collect declared [] = Ok declared"
| "quota_map_collect declared ((name, field) # entries) =
     (if \<not> is_quota_header_name name \<or>
         list_ex (\<lambda>(seen, seen_field). seen = name \<or> seen_field = field) declared
      then Err InvalidQuotaHeaderDeclaration
      else quota_map_collect (declared @ [(name, field)]) entries)"

definition quota_map_try_from_iter ::
  "(string \<times> quota_field) list \<Rightarrow> (quota_header_map, contract_error) result" where
  "quota_map_try_from_iter entries =
     and_then (quota_map_collect [] entries) (\<lambda>declared.
       if declared = [] then Err InvalidQuotaHeaderDeclaration else Ok \<lparr>qh_entries = declared\<rparr>)"

definition quota_map_header_for :: "quota_header_map \<Rightarrow> quota_field \<Rightarrow> string option" where
  "quota_map_header_for m field =
     map_option fst (List.find (\<lambda>(_, candidate). candidate = field) (qh_entries m))"

section \<open>Transcripts\<close>

definition MAX_RESPONSE_TRANSCRIPT_COUNT :: nat where
  "MAX_RESPONSE_TRANSCRIPT_COUNT = 64"

definition MAX_RESPONSE_TRANSCRIPT_NAME_BYTES :: nat where
  "MAX_RESPONSE_TRANSCRIPT_NAME_BYTES = 256"

definition MAX_RESPONSE_TRANSCRIPT_VALUE_BYTES :: nat where
  "MAX_RESPONSE_TRANSCRIPT_VALUE_BYTES = 4 * 1024"

definition MAX_RESPONSE_TRANSCRIPT_TOTAL_BYTES :: nat where
  "MAX_RESPONSE_TRANSCRIPT_TOTAL_BYTES = 16 * 1024"

record response_transcript =
  rt_headers :: "(string \<times> string) list option"
  rt_truncated :: bool

definition default_transcript :: response_transcript where
  "default_transcript = \<lparr>rt_headers = None, rt_truncated = False\<rparr>"

definition transcript_denied :: "declared_secret_headers \<Rightarrow> string \<Rightarrow> bool" where
  "transcript_denied secrets name \<longleftrightarrow>
     name \<in> set RESPONSE_TRANSCRIPT_DENIED_HEADERS \<or> dshs_contains secrets name"

fun capture_loop ::
  "(string \<Rightarrow> bool) \<Rightarrow> declared_secret_headers \<Rightarrow> (string \<times> string) list \<Rightarrow> nat \<Rightarrow> bool
    \<Rightarrow> (string \<times> string option) list \<Rightarrow> (string \<times> string) list \<times> bool" where
  "capture_loop hv secrets captured total_bytes truncated [] = (captured, truncated)"
| "capture_loop hv secrets captured total_bytes truncated ((raw_name, value_opt) # rest) =
     (let name = to_ascii_lowercase raw_name
      in case value_opt of
           None \<Rightarrow> capture_loop hv secrets captured total_bytes True rest
         | Some v \<Rightarrow>
             if transcript_denied secrets name then capture_loop hv secrets captured total_bytes truncated rest
             else if MAX_RESPONSE_TRANSCRIPT_NAME_BYTES < length name \<or>
                     MAX_RESPONSE_TRANSCRIPT_VALUE_BYTES < length v \<or> \<not> hv v
             then capture_loop hv secrets captured total_bytes True rest
             else if MAX_RESPONSE_TRANSCRIPT_COUNT \<le> length captured
             then capture_loop hv secrets captured total_bytes True rest
             else
               (let entry_bytes = saturating_add (length name) (length v)
                in case checked_add total_bytes entry_bytes of
                     Some next_total \<Rightarrow>
                       if next_total \<le> MAX_RESPONSE_TRANSCRIPT_TOTAL_BYTES
                       then capture_loop hv secrets (captured @ [(name, v)]) next_total truncated rest
                       else capture_loop hv secrets captured total_bytes True rest
                   | None \<Rightarrow> capture_loop hv secrets captured total_bytes True rest))"

definition capture_redacting ::
  "(string \<Rightarrow> bool) \<Rightarrow> (string \<times> string option) list \<Rightarrow> declared_secret_headers \<Rightarrow> response_transcript" where
  "capture_redacting hv headers secrets =
     (let (captured, truncated) = capture_loop hv secrets [] 0 False headers
      in \<lparr>rt_headers = (if captured = [] then None else Some captured), rt_truncated = truncated\<rparr>)"

definition capture :: "(string \<Rightarrow> bool) \<Rightarrow> (string \<times> string option) list \<Rightarrow> response_transcript" where
  "capture hv headers = capture_redacting hv headers dshs_none"

definition transcript_iter :: "response_transcript \<Rightarrow> (string \<times> string) list" where
  "transcript_iter t = (case rt_headers t of Some hs \<Rightarrow> hs | None \<Rightarrow> [])"

definition transcript_len :: "response_transcript \<Rightarrow> nat" where
  "transcript_len t = (case rt_headers t of Some hs \<Rightarrow> length hs | None \<Rightarrow> 0)"

section \<open>The closed field contract\<close>

lemma filter_update_None:
  "i < length xs \<Longrightarrow> xs ! i = None \<Longrightarrow>
    length (filter (\<lambda>s. s \<noteq> None) (xs[i := Some v])) = Suc (length (filter (\<lambda>s. s \<noteq> None) xs))"
proof (induction xs arbitrary: i)
  case (Cons x xs)
  then show ?case by (cases i) auto
qed simp

lemma fill_slots_Err:
  "fill_slots hv index max_value max_total slots tot present entries = Err e \<Longrightarrow> e = ResponseMetadataInvalid"
proof (induction entries arbitrary: slots tot present)
  case (Cons fv entries)
  obtain f v where fv: "fv = (f, v)" by (cases fv)
  show ?case
  proof (cases "checked_add tot (length v)")
    case None
    with Cons.prems show ?thesis by (simp add: fv split: if_splits)
  next
    case (Some t)
    with Cons.prems Cons.IH [of "slots[index f := Some v]" t "present + 1"] show ?thesis
      by (simp add: fv split: if_splits)
  qed
qed simp

text \<open>
  What a closed field set promises: an index per field, without collision, inside the array, and
  a total bound that every value bound of the array fits in.
\<close>

locale closed_fields =
  fixes index :: "'f \<Rightarrow> nat" and slot_count :: nat and max_value :: nat and max_total :: nat
  assumes index_inj: "inj index"
    and index_less: "index f < slot_count"
    and total_fits: "slot_count * max_value \<le> max_total"
    and total_small: "max_total + max_value \<le> usize_max"
begin

lemma fill_slots_Ok:
  assumes "length slots = slot_count" and "tot \<le> length (filter (\<lambda>s. s \<noteq> None) slots) * max_value"
  shows "fill_slots hv index max_value max_total slots tot present entries = Ok (slots', present') \<longleftrightarrow>
    list_all (\<lambda>(f, v). length v \<le> max_value \<and> hv v) entries \<and> distinct (map fst entries) \<and>
    (\<forall>f \<in> fst ` set entries. slots ! index f = None) \<and>
    slots' = fold (\<lambda>(f, v) slots. slots[index f := Some v]) entries slots \<and>
    present' = present + length entries"
  using assms
proof (induction entries arbitrary: slots tot present)
  case Nil
  then show ?case by auto
next
  case (Cons fv entries)
  obtain f v where fv: "fv = (f, v)" by (cases fv)
  have less: "index f < length slots" using Cons.prems(1) index_less by simp
  let ?used = "\<lambda>slots. length (filter (\<lambda>s. s \<noteq> None) slots)"
  show ?case
  proof (cases "length v \<le> max_value \<and> hv v \<and> slots ! index f = None")
    case False
    then have "\<exists>e. fill_slots hv index max_value max_total slots tot present (fv # entries) = Err e"
      by (cases "checked_add tot (length v)") (auto simp: fv)
    with False show ?thesis by (auto simp: fv)
  next
    case True
    have used: "?used (slots[index f := Some v]) = Suc (?used slots)"
      using True less by (intro filter_update_None) auto
    have "?used (slots[index f := Some v]) \<le> slot_count"
      using length_filter_le [of _ "slots[index f := Some v]"] Cons.prems(1) by simp
    with used have "Suc (?used slots) * max_value \<le> slot_count * max_value"
      by (intro mult_le_mono1) simp
    with True Cons.prems(2) total_fits have tot: "tot + length v \<le> max_total" by simp
    then have step: "fill_slots hv index max_value max_total slots tot present (fv # entries) =
        fill_slots hv index max_value max_total (slots[index f := Some v]) (tot + length v) (present + 1) entries"
      using True total_small by (simp add: fv checked_add_def)
    have free: "(\<forall>g \<in> fst ` set entries. slots[index f := Some v] ! index g = None) \<longleftrightarrow>
        f \<notin> fst ` set entries \<and> (\<forall>g \<in> fst ` set entries. slots ! index g = None)"
      using less index_inj by (force simp: nth_list_update inj_eq)
    show ?thesis
      unfolding step
      using True Cons.prems used free
      by (subst Cons.IH) (auto simp: fv)
  qed
qed

lemma slots_lookup:
  assumes "length slots = slot_count" and "distinct (map fst entries)"
    and "\<forall>f \<in> fst ` set entries. slots ! index f = None"
  shows "fold (\<lambda>(f, v) slots. slots[index f := Some v]) entries slots ! index g =
    (case map_of entries g of Some v \<Rightarrow> Some v | None \<Rightarrow> slots ! index g)"
  using assms
proof (induction entries arbitrary: slots)
  case (Cons fv entries)
  obtain f v where fv: "fv = (f, v)" by (cases fv)
  have less: "index h < length slots" for h using Cons.prems(1) index_less by simp
  have "\<forall>h \<in> fst ` set entries. slots[index f := Some v] ! index h = None"
    using Cons.prems(2,3) less index_inj by (auto simp: fv nth_list_update inj_eq)
  with Cons less index_inj show ?case
    by (auto simp: fv nth_list_update inj_eq map_of_eq_None_iff [symmetric] split: option.splits)
qed simp

text \<open>
  Collecting succeeds exactly for bounded, legal values of pairwise different fields, and the
  result holds the supplied values. The bound on the total never refuses anything more.
\<close>

lemma collected_exact:
  assumes "collected =
      and_then (fill_slots hv index max_value max_total (replicate slot_count None) 0 0 entries)
        (\<lambda>(slots, present). Ok \<lparr>fv_values = (if present \<noteq> 0 then Some slots else None)\<rparr>)"
  shows "(\<exists>d. collected = Ok d \<and> (\<forall>f. field_value index d f = map_of entries f)) =
      (list_all (\<lambda>(f, v). length v \<le> max_value \<and> hv v) entries \<and> distinct (map fst entries))"
    and "collected = Err e \<Longrightarrow> e = ResponseMetadataInvalid"
proof -
  let ?fill = "fill_slots hv index max_value max_total (replicate slot_count None) 0 0 entries"
  have free: "\<forall>f \<in> fst ` set entries. replicate slot_count (None :: string option) ! index f = None"
    using index_less by simp
  have len: "length (replicate slot_count (None :: string option)) = slot_count" by simp
  note exact = fill_slots_Ok [OF len, of 0 hv 0 entries, OF le0]
  show "(\<exists>d. collected = Ok d \<and> (\<forall>f. field_value index d f = map_of entries f)) =
      (list_all (\<lambda>(f, v). length v \<le> max_value \<and> hv v) entries \<and> distinct (map fst entries))"
  proof (cases ?fill)
    case (Ok sp)
    obtain slots present where sp: "sp = (slots, present)" by (cases sp)
    have ok: "list_all (\<lambda>(f, v). length v \<le> max_value \<and> hv v) entries" "distinct (map fst entries)"
        "slots = fold (\<lambda>(f, v) slots. slots[index f := Some v]) entries (replicate slot_count None)"
        "present = length entries"
      using exact [of slots present] Ok sp by simp_all
    have "field_value index \<lparr>fv_values = (if present \<noteq> 0 then Some slots else None)\<rparr> f = map_of entries f" for f
      using slots_lookup [OF _ ok(2) free, of f] ok(3,4) index_less
      by (cases "entries = []") (auto simp: field_value_def split: option.splits)
    with ok(1,2) Ok sp show ?thesis by (auto simp: assms)
  next
    case (Err e)
    then have "\<not> (list_all (\<lambda>(f, v). length v \<le> max_value \<and> hv v) entries \<and> distinct (map fst entries))"
      using exact [of "fold (\<lambda>(f, v) slots. slots[index f := Some v]) entries (replicate slot_count None)"
          "length entries"] free
      by simp
    with Err show ?thesis by (simp add: assms)
  qed
  show "collected = Err e \<Longrightarrow> e = ResponseMetadataInvalid"
    using fill_slots_Err [of hv index max_value max_total "replicate slot_count None" 0 0 entries]
    by (cases ?fill) (auto simp: assms)
qed

end

lemmas metadata_limits =
  PROVIDER_QUOTA_METADATA_FIELD_COUNT_def MAX_PROVIDER_QUOTA_METADATA_VALUE_BYTES_def
  MAX_PROVIDER_QUOTA_METADATA_TOTAL_BYTES_def RESPONSE_DIAGNOSTIC_FIELD_COUNT_def
  MAX_RESPONSE_DIAGNOSTIC_VALUE_BYTES_def MAX_RESPONSE_DIAGNOSTIC_TOTAL_BYTES_def

interpretation diagnostics: closed_fields diagnostic_index RESPONSE_DIAGNOSTIC_FIELD_COUNT
  MAX_RESPONSE_DIAGNOSTIC_VALUE_BYTES MAX_RESPONSE_DIAGNOSTIC_TOTAL_BYTES
proof unfold_locales
  show "inj diagnostic_index" by (rule diagnostic_enumerated)
  have "length diagnostic_field_ALL = RESPONSE_DIAGNOSTIC_FIELD_COUNT"
    by (simp add: diagnostic_field_ALL_def metadata_limits)
  then show "diagnostic_index f < RESPONSE_DIAGNOSTIC_FIELD_COUNT" for f
    using diagnostic_enumerated(2) [of f] by simp
qed (simp_all add: metadata_limits usize_max_def)

interpretation quota: closed_fields quota_index PROVIDER_QUOTA_METADATA_FIELD_COUNT
  MAX_PROVIDER_QUOTA_METADATA_VALUE_BYTES MAX_PROVIDER_QUOTA_METADATA_TOTAL_BYTES
proof unfold_locales
  show "inj quota_index" by (rule quota_enumerated)
  have "length quota_field_ALL = PROVIDER_QUOTA_METADATA_FIELD_COUNT"
    by (simp add: quota_field_ALL_def metadata_limits)
  then show "quota_index f < PROVIDER_QUOTA_METADATA_FIELD_COUNT" for f
    using quota_enumerated(2) [of f] by simp
qed (simp_all add: metadata_limits usize_max_def)

section \<open>Properties of the closed fields\<close>

text \<open>
  The closed response fields hold exactly what was supplied: the diagnostics and the quota
  metadata are accepted exactly when no field is given twice and every value is a header value of at
  most 256 bytes, each field then reads back as its value or as absent, and every refusal is the one
  opaque metadata error. The separate bound on the combined length never refuses anything these
  checks admit.
\<close>

theorem closed_fields_exact:
  "(\<exists>d. diagnostics_try_from_iter hv ds = Ok d \<and> (\<forall>f. diagnostics_value d f = map_of ds f)) =
     (list_all (\<lambda>(f, v). length v \<le> MAX_RESPONSE_DIAGNOSTIC_VALUE_BYTES \<and> hv v) ds \<and> distinct (map fst ds)) \<and>
   (\<exists>d. quota_try_from_iter hv qs = Ok d \<and> (\<forall>f. quota_value d f = map_of qs f)) =
     (list_all (\<lambda>(f, v). length v \<le> MAX_PROVIDER_QUOTA_METADATA_VALUE_BYTES \<and> hv v) qs \<and> distinct (map fst qs)) \<and>
   (\<forall>e. diagnostics_try_from_iter hv ds = Err e \<longrightarrow> e = ResponseMetadataInvalid) \<and>
   (\<forall>e. quota_try_from_iter hv qs = Err e \<longrightarrow> e = ResponseMetadataInvalid)"
  unfolding diagnostics_value_def quota_value_def
  using diagnostics.collected_exact [OF diagnostics_try_from_iter_def]
    quota.collected_exact [OF quota_try_from_iter_def]
  by blast

theorem closed_fields_exact_witness:
  "\<exists>d. quota_try_from_iter visible_value [(XRateLimitResetTokens, ''6s'')] = Ok d \<and>
     quota_value d XRateLimitResetTokens = Some ''6s'' \<and> quota_value d XRateLimitLimitTokens = None"
proof -
  have "visible_value ''6s''" by code_simp
  then have "list_all (\<lambda>(f, v). length v \<le> MAX_PROVIDER_QUOTA_METADATA_VALUE_BYTES \<and> visible_value v)
      [(XRateLimitResetTokens, ''6s'')]"
    by (simp add: metadata_limits)
  then obtain d where "quota_try_from_iter visible_value [(XRateLimitResetTokens, ''6s'')] = Ok d"
      "\<forall>f. quota_value d f = map_of [(XRateLimitResetTokens, ''6s'')] f"
    using closed_fields_exact [of visible_value "[]" "[(XRateLimitResetTokens, ''6s'')]"] by auto
  then show ?thesis by auto
qed

section \<open>Properties of the quota header declaration\<close>

lemma quota_map_collect_Ok:
  "quota_map_collect declared entries = Ok r \<longleftrightarrow>
    list_all (\<lambda>(n, _). is_quota_header_name n) entries \<and>
    (\<forall>n \<in> set (map fst entries). n \<notin> set (map fst declared)) \<and>
    (\<forall>f \<in> set (map snd entries). f \<notin> set (map snd declared)) \<and>
    distinct (map fst entries) \<and> distinct (map snd entries) \<and> r = declared @ entries"
proof (induction declared entries rule: quota_map_collect.induct)
  case (1 declared)
  then show ?case by auto
next
  case (2 declared name field entries)
  have "list_ex (\<lambda>(seen, seen_field). seen = name \<or> seen_field = field) declared \<longleftrightarrow>
      name \<in> set (map fst declared) \<or> field \<in> set (map snd declared)"
    by (force simp: list_ex_iff)
  with 2 show ?case by (auto simp del: set_map)
qed

lemma find_by_field:
  "distinct (map snd xs) \<Longrightarrow>
    map_option fst (List.find (\<lambda>(_, g). g = f) xs) = Some n \<longleftrightarrow> (n, f) \<in> set xs"
  by (induction xs) (auto simp: rev_image_eqI)

text \<open>
  A quota header declaration is accepted exactly when it is not empty, every name is a
  lowercase header name outside the denied list, and no name and no field repeats; each field then
  has one source, the header declared for it, and a field that was not declared has none. Every
  name the canonical declaration reads is itself declarable.
\<close>

theorem quota_header_map_exact:
  "(\<exists>m. quota_map_try_from_iter es = Ok m \<and> qh_entries m = es \<and>
       (\<forall>f n. quota_map_header_for m f = Some n \<longleftrightarrow> (n, f) \<in> set es)) =
     (es \<noteq> [] \<and> list_all (\<lambda>(n, _). is_quota_header_name n) es \<and> distinct (map fst es) \<and>
      distinct (map snd es)) \<and>
   quota_map_try_from_iter (qh_entries quota_map_canonical) = Ok quota_map_canonical"
proof -
  have Ok: "quota_map_try_from_iter es = Ok m \<longleftrightarrow>
      es \<noteq> [] \<and> list_all (\<lambda>(n, _). is_quota_header_name n) es \<and> distinct (map fst es) \<and>
      distinct (map snd es) \<and> m = \<lparr>qh_entries = es\<rparr>" for m es
    using quota_map_collect_Ok [of "[]" es]
    by (cases "quota_map_collect [] es") (auto simp: quota_map_try_from_iter_def)
  have "list_all (\<lambda>field. is_quota_header_name (quota_header_name field)) quota_field_ALL"
    by (simp add: quota_field_ALL_def is_quota_header_name_def MAX_QUOTA_HEADER_NAME_BYTES_def
        ends_with_iff_suffix byte_class byte_in_def PROVIDER_QUOTA_HEADER_DENIED_NAMES_def suffix_def)
  moreover have "distinct (map quota_header_name quota_field_ALL)" "distinct quota_field_ALL"
    by (simp_all add: quota_field_ALL_def)
  ultimately have "quota_map_try_from_iter (qh_entries quota_map_canonical) = Ok quota_map_canonical"
    by (simp add: Ok quota_map_canonical_def list.pred_map comp_def) (simp add: quota_field_ALL_def)
  then show ?thesis
    using find_by_field [of es] by (auto simp: Ok quota_map_header_for_def)
qed

section \<open>Properties of the transcript\<close>

text \<open>The headers a reader should see: those with a readable value that are not denied.\<close>

fun displayed :: "declared_secret_headers \<Rightarrow> (string \<times> string option) list \<Rightarrow> (string \<times> string) list" where
  "displayed secrets [] = []"
| "displayed secrets ((n, None) # hs) = displayed secrets hs"
| "displayed secrets ((n, Some v) # hs) =
     (if transcript_denied secrets (to_ascii_lowercase n) then displayed secrets hs
      else (to_ascii_lowercase n, v) # displayed secrets hs)"

definition transcript_part ::
  "(string \<Rightarrow> bool) \<Rightarrow> declared_secret_headers \<Rightarrow> (string \<times> string option) list \<Rightarrow> (string \<times> string) list \<Rightarrow> nat \<Rightarrow> bool
    \<Rightarrow> (string \<times> string) list \<Rightarrow> bool \<Rightarrow> bool" where
  "transcript_part hv secrets hs cap tot tr xs tr' \<longleftrightarrow>
     subseq xs (displayed secrets hs) \<and>
     (tr' \<longleftrightarrow> tr \<or> list_ex (\<lambda>(_, v). v = None) hs \<or> xs \<noteq> displayed secrets hs) \<and>
     (xs = [] \<or> length cap + length xs \<le> MAX_RESPONSE_TRANSCRIPT_COUNT) \<and>
     (xs = [] \<or> tot + header_bytes xs \<le> MAX_RESPONSE_TRANSCRIPT_TOTAL_BYTES) \<and>
     list_all (\<lambda>(n, v). hv v \<and> length n \<le> MAX_RESPONSE_TRANSCRIPT_NAME_BYTES \<and>
       length v \<le> MAX_RESPONSE_TRANSCRIPT_VALUE_BYTES) xs"

lemma transcript_part_skip:
  assumes "transcript_part hv secrets hs cap tot True xs tr'"
    and that: "v = None \<or> \<not> transcript_denied secrets (to_ascii_lowercase n)"
  shows "transcript_part hv secrets ((n, v) # hs) cap tot tr xs tr'"
proof (cases v)
  case None
  with assms show ?thesis by (simp add: transcript_part_def)
next
  case (Some w)
  have "length xs \<le> length (displayed secrets hs)"
    using assms unfolding transcript_part_def by (meson list_emb_length)
  then have "xs \<noteq> (to_ascii_lowercase n, w) # displayed secrets hs" by auto
  with assms that Some show ?thesis
    by (simp add: transcript_part_def list_emb_Cons)
qed

lemma entry_bytes_small:
  "n \<le> MAX_RESPONSE_TRANSCRIPT_NAME_BYTES \<Longrightarrow> m \<le> MAX_RESPONSE_TRANSCRIPT_VALUE_BYTES \<Longrightarrow>
    saturating_add n m = n + m"
  by (simp add: saturating_add_def MAX_RESPONSE_TRANSCRIPT_NAME_BYTES_def
      MAX_RESPONSE_TRANSCRIPT_VALUE_BYTES_def usize_max_def)

lemma capture_loop_part:
  "\<exists>xs tr'. capture_loop hv secrets cap tot tr hs = (cap @ xs, tr') \<and>
    transcript_part hv secrets hs cap tot tr xs tr'"
proof (induction hs arbitrary: cap tot tr)
  case Nil
  then show ?case by (simp add: transcript_part_def)
next
  case (Cons nv hs)
  obtain n vo where nv: "nv = (n, vo)" by (cases nv)
  let ?n = "to_ascii_lowercase n"
  consider (none) "vo = None" | (denied) v where "vo = Some v" "transcript_denied secrets ?n"
    | (readable) v where "vo = Some v" "\<not> transcript_denied secrets ?n"
    by (cases vo) auto
  then show ?case
  proof cases
    case none
    then show ?thesis using Cons.IH [of cap tot True] transcript_part_skip by (fastforce simp: nv)
  next
    case denied
    then show ?thesis using Cons.IH [of cap tot tr] by (fastforce simp: nv transcript_part_def)
  next
    case (readable v)
    let ?fits = "length ?n \<le> MAX_RESPONSE_TRANSCRIPT_NAME_BYTES \<and>
        length v \<le> MAX_RESPONSE_TRANSCRIPT_VALUE_BYTES \<and> hv v \<and>
        length cap < MAX_RESPONSE_TRANSCRIPT_COUNT \<and>
        tot + (length ?n + length v) \<le> MAX_RESPONSE_TRANSCRIPT_TOTAL_BYTES"
    show ?thesis
    proof (cases ?fits)
      case True
      then have "checked_add tot (saturating_add (length ?n) (length v)) = Some (tot + (length ?n + length v))"
        by (simp add: entry_bytes_small checked_add_def usize_max_def MAX_RESPONSE_TRANSCRIPT_TOTAL_BYTES_def)
      with True readable have step: "capture_loop hv secrets cap tot tr (nv # hs) =
          capture_loop hv secrets (cap @ [(?n, v)]) (tot + (length ?n + length v)) tr hs"
        by (simp add: nv Let_def)
      obtain xs tr' where "capture_loop hv secrets (cap @ [(?n, v)]) (tot + (length ?n + length v)) tr hs =
            ((cap @ [(?n, v)]) @ xs, tr')"
          "transcript_part hv secrets hs (cap @ [(?n, v)]) (tot + (length ?n + length v)) tr xs tr'"
        using Cons.IH by blast
      with True readable step show ?thesis
        by (intro exI [of _ "(?n, v) # xs"] exI [of _ tr']) (auto simp: nv transcript_part_def)
    next
      case False
      have "capture_loop hv secrets cap tot tr (nv # hs) = capture_loop hv secrets cap tot True hs"
        using False readable
        by (auto simp: nv Let_def entry_bytes_small checked_add_def not_le not_less)
      with readable Cons.IH [of cap tot True] transcript_part_skip show ?thesis by (fastforce simp: nv)
    qed
  qed
qed

lemma displayed_mem:
  "(n, v) \<in> set (displayed secrets hs) \<Longrightarrow>
    to_ascii_lowercase n = n \<and> \<not> transcript_denied secrets n \<and>
    (\<exists>raw. (raw, Some v) \<in> set hs \<and> to_ascii_lowercase raw = n)"
  by (induction secrets hs rule: displayed.induct) (auto split: if_splits)

lemma subseq_set: "subseq xs ys \<Longrightarrow> x \<in> set xs \<Longrightarrow> x \<in> set ys"
  by (metis subseq_order.dual_order.trans subseq_singleton_left)



text \<open>
  The reading of a value comes before the test for denial, so a denied header whose value is not
  UTF-8 marks the transcript truncated, and a name the transcript denies may still be declared as
  a quota header.
\<close>

lemma denied_header_can_mark_truncated:
  "rt_truncated (capture hv [(''set-cookie'', None)])"
  by (simp add: capture_def capture_redacting_def Let_def)

lemma transcript_denied_name_can_be_a_quota_header:
  "''x-api-key'' \<in> set RESPONSE_TRANSCRIPT_DENIED_HEADERS \<and> is_quota_header_name ''x-api-key''"
proof -
  have "is_ascii_lowercase (CHR ''x'')" "\<not> ends_with ''-'' ''x-api-key''"
      "list_all (\<lambda>c. is_ascii_lowercase c \<or> is_ascii_digit c \<or> c = CHR ''-'') ''x-api-key''"
    by code_simp+
  then show ?thesis
    by (simp add: RESPONSE_TRANSCRIPT_DENIED_HEADERS_def is_quota_header_name_def
        MAX_QUOTA_HEADER_NAME_BYTES_def PROVIDER_QUOTA_HEADER_DENIED_NAMES_def)
qed

end
