(* ===== verification/Prepared.thy ===== *)
theory Prepared
  imports Requests Response_Metadata
begin

text \<open>
  The preparation half of \<open>south-core/src/lib.rs\<close>: a provider binding, the projection of the four
  request shapes to their common parts, the binding of a resolved secret to the declared
  authentication headers, and the check of a host finalizer's output against its declaration. A
  secret is its bytes; the zeroizing of its allocations is outside the model.
\<close>

section \<open>Bindings and secrets\<close>

record 'u provider_binding =
  pb_endpoint :: "'u provider_endpoint"
  pb_credential_slot :: credential_slot

record secret_value =
  sv_value :: bytes

definition bearer_prefixed :: "secret_value \<Rightarrow> bytes" where
  "bearer_prefixed secret = ''Bearer '' @ sv_value secret"

type_synonym bound_auth_header = "string \<times> bytes"

section \<open>Request parts\<close>

datatype http_method = POST | GET

datatype request_body_ref = JsonBody json_body | MultipartBody multipart_body | TextBody text_body

fun body_as_bytes :: "request_body_ref \<Rightarrow> bytes" where
  "body_as_bytes (JsonBody b) = jb_value b"
| "body_as_bytes (MultipartBody b) = mp_bytes b"
| "body_as_bytes (TextBody b) = tb_text b"

fun body_content_type :: "request_body_ref \<Rightarrow> string option" where
  "body_content_type (JsonBody _) = None"
| "body_content_type (MultipartBody b) = Some (mp_content_type b)"
| "body_content_type (TextBody b) = Some (text_body_content_type b)"

fun body_len :: "request_body_ref \<Rightarrow> nat" where
  "body_len (JsonBody b) = json_body_len b"
| "body_len (MultipartBody b) = multipart_body_len b"
| "body_len (TextBody b) = length (tb_text b)"

record request_parts =
  pt_method :: http_method
  pt_relative_path :: relative_path
  pt_query :: "query_string option"
  pt_headers :: safe_headers
  pt_body :: "request_body_ref option"
  pt_auth :: provider_auth
  pt_user_agent :: "user_agent option"

definition parts_of :: "http_method \<Rightarrow> request_body_ref option \<Rightarrow> 'a request_scheme \<Rightarrow> request_parts" where
  "parts_of method body r =
     \<lparr>pt_method = method, pt_relative_path = rq_relative_path r, pt_query = rq_query r,
      pt_headers = rq_headers r, pt_body = body, pt_auth = rq_auth r, pt_user_agent = rq_user_agent r\<rparr>"

definition json_parts :: "json_post_request \<Rightarrow> request_parts" where
  "json_parts r = parts_of POST (Some (JsonBody (jp_body r))) r"

definition get_parts :: "get_request \<Rightarrow> request_parts" where
  "get_parts r = parts_of GET None r"

definition multipart_parts :: "multipart_post_request \<Rightarrow> request_parts" where
  "multipart_parts r = parts_of POST (Some (MultipartBody (mr_body r))) r"

definition text_parts :: "text_post_request \<Rightarrow> request_parts" where
  "text_parts r = parts_of POST (Some (TextBody (tr_body r))) r"

definition parts_destination ::
  "'u url_crate \<Rightarrow> request_parts \<Rightarrow> 'u provider_binding \<Rightarrow> ('u, preparation_error) result" where
  "parts_destination U p binding =
     resolve_against_with_query U (pt_relative_path p) (pb_endpoint binding) (pt_query p)"

section \<open>Prepared requests\<close>

record 'u prepared_request =
  pr_method :: http_method
  pr_url :: 'u
  pr_headers :: safe_headers
  pr_body :: "request_body_ref option"
  pr_auth_headers :: "bound_auth_header list"
  pr_user_agent :: "user_agent option"

definition auth_bindings ::
  "request_parts \<Rightarrow> secret_value \<Rightarrow> (bound_auth_header list, preparation_error) result" where
  "auth_bindings p secret =
     (case pt_auth p of
        Bearer _ \<Rightarrow> Ok [(''authorization'', bearer_prefixed secret)]
      | HeaderSecret header _ \<Rightarrow> Ok [(secret_header_name header, sv_value secret)]
      | DeclaredHeaderSecret header _ \<Rightarrow>
          if \<not> dshs_contains (sh_secret_headers (pt_headers p)) (dsh_as_str header)
          then Err UnsupportedAuthShape
          else Ok [(dsh_as_str header, sv_value secret)]
      | BearerAndHeaderSecret header _ \<Rightarrow>
          Ok [(''authorization'', bearer_prefixed secret), (secret_header_name header, sv_value secret)]
      | HostSigned _ _ \<Rightarrow> Err UnsupportedAuthShape)"

definition assemble ::
  "request_parts \<Rightarrow> 'u \<Rightarrow> secret_value \<Rightarrow> ('u prepared_request, preparation_error) result" where
  "assemble p destination secret =
     and_then (auth_bindings p secret) (\<lambda>auth_headers.
       Ok \<lparr>pr_method = pt_method p, pr_url = destination, pr_headers = pt_headers p,
           pr_body = pt_body p, pr_auth_headers = auth_headers, pr_user_agent = pt_user_agent p\<rparr>)"

definition assemble_unsigned ::
  "request_parts \<Rightarrow> 'u \<Rightarrow> ('u prepared_request, preparation_error) result" where
  "assemble_unsigned p destination =
     (case pt_auth p of
        HostSigned _ _ \<Rightarrow>
          Ok \<lparr>pr_method = pt_method p, pr_url = destination, pr_headers = pt_headers p,
              pr_body = pt_body p, pr_auth_headers = [], pr_user_agent = pt_user_agent p\<rparr>
      | _ \<Rightarrow> Err UnsupportedAuthShape)"

definition prepared_content_type :: "'u prepared_request \<Rightarrow> string option" where
  "prepared_content_type r = Option.bind (pr_body r) body_content_type"

section \<open>Host finalizers\<close>

record 'u finalize_view =
  fz_method :: http_method
  fz_url :: 'u
  fz_headers :: safe_headers
  fz_body :: bytes
  fz_user_agent :: "user_agent option"
  fz_slot :: credential_slot
  fz_emits :: signed_header_set

definition prepared_finalize_view ::
  "'u prepared_request \<Rightarrow> signed_header_set \<Rightarrow> credential_slot \<Rightarrow> 'u finalize_view" where
  "prepared_finalize_view r emits slot =
     \<lparr>fz_method = pr_method r, fz_url = pr_url r, fz_headers = pr_headers r,
      fz_body = (case pr_body r of None \<Rightarrow> [] | Some b \<Rightarrow> body_as_bytes b),
      fz_user_agent = pr_user_agent r, fz_slot = slot, fz_emits = emits\<rparr>"

text \<open>The headers a finalizer inserted, in the order it inserted them.\<close>

type_synonym finalized_headers = "(signed_header \<times> bytes) list"

definition finalized_insert :: "finalized_headers \<Rightarrow> signed_header \<Rightarrow> bytes \<Rightarrow> finalized_headers" where
  "finalized_insert hs header v = hs @ [(header, v)]"

fun check_emitted ::
  "signed_header_set \<Rightarrow> signed_header list \<Rightarrow> finalized_headers \<Rightarrow> (unit, preparation_error) result" where
  "check_emitted emits seen [] = Ok ()"
| "check_emitted emits seen ((header, v) # rest) =
     (if \<not> signed_set_contains emits header \<or> v = [] \<or> header \<in> set seen
      then Err RequestFinalizationRejected
      else check_emitted emits (seen @ [header]) rest)"

fun bind_declared ::
  "finalized_headers \<Rightarrow> signed_header list \<Rightarrow> (bound_auth_header list, preparation_error) result" where
  "bind_declared emitted [] = Ok []"
| "bind_declared emitted (declared # rest) =
     (case List.find (\<lambda>(header, _). header = declared) emitted of
        None \<Rightarrow> Err RequestFinalizationRejected
      | Some (_, v) \<Rightarrow>
          and_then (bind_declared emitted rest) (\<lambda>bound. Ok ((signed_header_name declared, v) # bound)))"

definition diff_finalized ::
  "signed_header_set \<Rightarrow> finalized_headers \<Rightarrow> (bound_auth_header list, preparation_error) result" where
  "diff_finalized emits finalized =
     and_then (check_emitted emits [] finalized) (\<lambda>_. bind_declared finalized (ss_headers emits))"

definition bind_finalized :: "'u prepared_request \<Rightarrow> bound_auth_header list \<Rightarrow> 'u prepared_request" where
  "bind_finalized r headers = r\<lparr>pr_auth_headers := headers\<rparr>"

definition prepare_signed ::
  "'u url_crate \<Rightarrow> 'u provider_binding \<Rightarrow> request_parts
    \<Rightarrow> ('u \<times> signed_header_set, preparation_error) result" where
  "prepare_signed U binding p =
     and_then (parts_destination U p binding) (\<lambda>destination.
       case pt_auth p of
         HostSigned _ emits \<Rightarrow>
           if auth_credential_slot (pt_auth p) \<noteq> pb_credential_slot binding
           then Err CredentialBindingMismatch else Ok (destination, emits)
       | _ \<Rightarrow> Err UnsupportedAuthShape)"

section \<open>Secrets stay in their headers\<close>

lemma auth_bindings_Ok:
  assumes "auth_bindings p secret = Ok bound"
  shows "bound \<noteq> [] \<and>
    (\<forall>nv \<in> set bound. (snd nv = sv_value secret \<or> snd nv = ''Bearer '' @ sv_value secret) \<and>
      (fst nv = ''authorization'' \<or> fst nv \<in> range secret_header_name \<or>
       dshs_contains (sh_secret_headers (pt_headers p)) (fst nv))) \<and>
    (\<forall>slot emits. pt_auth p \<noteq> HostSigned slot emits) \<and>
    (\<forall>header slot. pt_auth p = DeclaredHeaderSecret header slot \<longrightarrow>
      dshs_contains (sh_secret_headers (pt_headers p)) (dsh_as_str header))"
  using assms by (cases "pt_auth p") (auto simp: auth_bindings_def bearer_prefixed_def split: if_splits)

lemma assemble_Ok:
  assumes "assemble p destination secret = Ok r"
  shows "pr_url r = destination" "pr_headers r = pt_headers p" "auth_bindings p secret = Ok (pr_auth_headers r)"
    "pr_method r = pt_method p" "pr_body r = pt_body p" "pr_user_agent r = pt_user_agent p"
  using assms by (cases "auth_bindings p secret"; auto simp: assemble_def)+

lemma bound_headers_protected:
  assumes "dshs_try_from_names names = Ok secrets"
    and "sh_try_from_iter_with_secret_headers hn hv hs secrets = Ok (pt_headers p)"
    and "assemble p destination secret = Ok r"
  shows "\<forall>nv \<in> set (pr_auth_headers r).
      (snd nv = sv_value secret \<or> snd nv = ''Bearer '' @ sv_value secret) \<and>
      fst nv \<notin> fst ` set (sh_iter (pr_headers r)) \<and> fst nv \<noteq> ''user-agent'' \<and>
      transcript_denied (sh_secret_headers (pr_headers r)) (fst nv)"
proof -
  have declared: "declarable (to_ascii_lowercase n)" if "dshs_contains secrets n" for n
    using dshs_declared [OF assms(1)] that by (auto simp: list_all_iff)
  have ok: "sh_secret_headers (pt_headers p) = secrets"
    using assms(2) by (simp add: sh_try_from_iter_Ok)
  have agent: "\<not> dshs_contains secrets ''user-agent''"
  proof -
    have "to_ascii_lowercase ''user-agent'' = ''user-agent''" by code_simp
    then show ?thesis using declared by (auto simp: declarable_def UNDECLARABLE_SECRET_HEADER_NAMES_def)
  qed
  note r = assemble_Ok [OF assms(3)]
  have free: "n \<notin> fst ` set (sh_iter (pt_headers p))" if "n \<in> set RESERVED_HEADERS \<or> dshs_contains secrets n" for n
    using admitted_name_free [OF assms(2)] that by auto
  have denied: "''authorization'' \<in> set RESPONSE_TRANSCRIPT_DENIED_HEADERS"
      "secret_header_name h \<in> set RESPONSE_TRANSCRIPT_DENIED_HEADERS" "secret_header_name h \<noteq> ''user-agent''" for h
    by (cases h; simp add: RESPONSE_TRANSCRIPT_DENIED_HEADERS_def)+
  have name: "n \<notin> fst ` set (sh_iter (pr_headers r)) \<and> n \<noteq> ''user-agent'' \<and>
      transcript_denied (sh_secret_headers (pr_headers r)) n"
    if "n = ''authorization'' \<or> n \<in> range secret_header_name \<or> dshs_contains secrets n" for n
    using that
  proof (elim disjE)
    assume "n = ''authorization''"
    then show ?thesis using free [of n] denied(1) owned_names_reserved by (simp add: r transcript_denied_def)
  next
    assume "n \<in> range secret_header_name"
    then obtain h where "n = secret_header_name h" by blast
    then show ?thesis using free [of n] denied owned_names_reserved
      by (simp add: r transcript_denied_def)
  next
    assume "dshs_contains secrets n"
    then show ?thesis using free [of n] agent by (auto simp: r ok transcript_denied_def)
  qed
  show "\<forall>nv \<in> set (pr_auth_headers r).
      (snd nv = sv_value secret \<or> snd nv = ''Bearer '' @ sv_value secret) \<and>
      fst nv \<notin> fst ` set (sh_iter (pr_headers r)) \<and> fst nv \<noteq> ''user-agent'' \<and>
      transcript_denied (sh_secret_headers (pr_headers r)) (fst nv)"
    using auth_bindings_Ok [OF r(3), unfolded ok] name by blast
qed

text \<open>
  Claim C4. A resolved secret reaches the wire only in headers that nothing else can write and
  nobody else can read. For a request over accepted headers, assembly binds the secret, verbatim or
  with the Bearer prefix, to at least one header; no ordinary header has the name of one of them,
  and the response transcript taken under the same headers drops them all. A declared header is
  bound only when the package declared it, and a host-signed request binds no secret at all.
\<close>

theorem secret_bound_to_reserved_headers:
  assumes "dshs_try_from_names names = Ok secrets"
    and "sh_try_from_iter_with_secret_headers hn hv hs secrets = Ok (pt_headers p)"
    and "assemble p destination secret = Ok r"
  shows "pr_auth_headers r \<noteq> [] \<and> pr_url r = destination \<and> pr_headers r = pt_headers p \<and>
    (\<forall>(n, v) \<in> set (pr_auth_headers r).
       (v = sv_value secret \<or> v = ''Bearer '' @ sv_value secret) \<and>
       n \<notin> fst ` set (sh_iter (pr_headers r)) \<and> n \<noteq> ''user-agent'' \<and>
       transcript_denied (sh_secret_headers (pr_headers r)) n) \<and>
    (\<forall>slot emits. pt_auth p \<noteq> HostSigned slot emits) \<and>
    (\<forall>header slot. pt_auth p = DeclaredHeaderSecret header slot \<longrightarrow> dshs_contains secrets (dsh_as_str header))"
proof -
  have "sh_secret_headers (pt_headers p) = secrets"
    using assms(2) by (simp add: sh_try_from_iter_Ok)
  then show ?thesis
    using auth_bindings_Ok [OF assemble_Ok(3) [OF assms(3)]] assemble_Ok(1,2) [OF assms(3)]
      bound_headers_protected [OF assms]
    unfolding case_prod_beta by simp
qed

theorem secret_bound_to_reserved_headers_witness:
  "\<exists>d r. dshs_try_from_names [] = Ok d \<and> assemble
      \<lparr>pt_method = GET, pt_relative_path = \<lparr>rp_value = ''v1/models''\<rparr>, pt_query = None,
       pt_headers = \<lparr>sh_values = [], sh_secret_headers = d\<rparr>, pt_body = None,
       pt_auth = HeaderSecret XApiKey \<lparr>ba_credential_slot = \<lparr>cs_value = ''main''\<rparr>\<rparr>, pt_user_agent = None\<rparr>
      ''https://h/v1/models'' \<lparr>sv_value = ''k''\<rparr> = Ok r \<and>
     pr_auth_headers r = [(''x-api-key'', ''k'')] \<and> transcript_denied d ''x-api-key''"
proof -
  let ?p = "\<lparr>pt_method = GET, pt_relative_path = \<lparr>rp_value = ''v1/models''\<rparr>, pt_query = None,
       pt_headers = \<lparr>sh_values = [], sh_secret_headers = dshs_none\<rparr>, pt_body = None,
       pt_auth = HeaderSecret XApiKey \<lparr>ba_credential_slot = \<lparr>cs_value = ''main''\<rparr>\<rparr>, pt_user_agent = None\<rparr>"
  let ?r = "\<lparr>pr_method = GET, pr_url = ''https://h/v1/models'',
       pr_headers = \<lparr>sh_values = [], sh_secret_headers = dshs_none\<rparr>, pr_body = None,
       pr_auth_headers = [(''x-api-key'', ''k'')], pr_user_agent = None\<rparr>"
  have names: "dshs_try_from_names [] = Ok dshs_none"
    by (simp add: dshs_try_from_names_def dshs_try_new_def dshs_none_def)
  have hs: "sh_try_from_iter_with_secret_headers token_name visible_value [] dshs_none = Ok (pt_headers ?p)"
    by (simp add: sh_try_from_iter_with_secret_headers_def)
  have r: "assemble ?p ''https://h/v1/models'' \<lparr>sv_value = ''k''\<rparr> = Ok ?r"
    by (simp add: assemble_def auth_bindings_def)
  from secret_bound_to_reserved_headers [OF names hs r] have "transcript_denied dshs_none ''x-api-key''"
    by simp
  with names r show ?thesis by (intro exI [of _ dshs_none] exI [of _ ?r]) simp
qed

section \<open>Finalizer output\<close>

lemma check_emitted_Ok:
  "check_emitted emits seen hs = Ok () \<longleftrightarrow>
    list_all (\<lambda>(h, v). signed_set_contains emits h \<and> v \<noteq> []) hs \<and> distinct (map fst hs) \<and>
    (\<forall>h \<in> set (map fst hs). h \<notin> set seen)"
  by (induction emits seen hs rule: check_emitted.induct) (auto simp del: set_map)

lemma check_emitted_Err: "check_emitted emits seen hs = Err e \<Longrightarrow> e = RequestFinalizationRejected"
  by (induction emits seen hs rule: check_emitted.induct) (auto split: if_splits)

lemma find_emitted:
  "List.find (\<lambda>(h, _). h = d) hs = (case map_of hs d of None \<Rightarrow> None | Some v \<Rightarrow> Some (d, v))"
  by (induction hs) auto

lemma bind_declared_eq:
  "bind_declared hs ds =
    (if set ds \<subseteq> fst ` set hs then Ok (map (\<lambda>d. (signed_header_name d, the (map_of hs d))) ds)
     else Err RequestFinalizationRejected)"
proof (induction ds)
  case (Cons d ds)
  show ?case
  proof (cases "map_of hs d")
    case None
    then have "d \<notin> fst ` set hs" by (simp add: map_of_eq_None_iff)
    with None show ?thesis by (simp add: find_emitted)
  next
    case (Some v)
    then have "d \<in> fst ` set hs" by (metis map_of_eq_None_iff option.distinct(1))
    with Some Cons show ?thesis by (simp add: find_emitted)
  qed
qed simp

text \<open>
  A finalizer's output is bound exactly when it is its declaration: every declared header
  arrived once with a value that is not empty, and nothing else arrived. What is bound is each
  declared header under its wire name with the value the finalizer gave it, in the declaration's
  order, whatever order the finalizer emitted them in. Anything else is rejected with the one code.
\<close>

theorem finalizer_output_is_its_declaration:
  assumes "distinct (ss_headers emits)"
  shows "diff_finalized emits hs =
    (if mset (map fst hs) = mset (ss_headers emits) \<and> list_all (\<lambda>(_, v). v \<noteq> []) hs
     then Ok (map (\<lambda>h. (signed_header_name h, the (map_of hs h))) (ss_headers emits))
     else Err RequestFinalizationRejected)"
proof -
  have eq: "mset (map fst hs) = mset (ss_headers emits) \<longleftrightarrow>
      distinct (map fst hs) \<and> set (map fst hs) = set (ss_headers emits)"
    using assms by (metis mset_eq_imp_distinct_iff set_eq_iff_mset_eq_distinct)
  have checked: "check_emitted emits [] hs = Ok () \<longleftrightarrow> list_all (\<lambda>(_, v). v \<noteq> []) hs \<and>
      distinct (map fst hs) \<and> set (map fst hs) \<subseteq> set (ss_headers emits)"
    by (auto simp: check_emitted_Ok signed_set_contains_def list_all_iff)
  show ?thesis
  proof (cases "check_emitted emits [] hs")
    case (Ok u)
    with checked have "list_all (\<lambda>(_, v). v \<noteq> []) hs" "distinct (map fst hs)"
        "set (map fst hs) \<subseteq> set (ss_headers emits)"
      by simp_all
    moreover from this have "mset (map fst hs) = mset (ss_headers emits) \<longleftrightarrow> set (ss_headers emits) \<subseteq> fst ` set hs"
      unfolding eq by auto
    ultimately show ?thesis using Ok by (simp add: diff_finalized_def bind_declared_eq)
  next
    case (Err e)
    with checked have "\<not> (mset (map fst hs) = mset (ss_headers emits) \<and> list_all (\<lambda>(_, v). v \<noteq> []) hs)"
      unfolding eq by auto
    with Err check_emitted_Err [OF Err] show ?thesis by (simp add: diff_finalized_def)
  qed
qed

theorem finalizer_output_is_its_declaration_witness:
  "diff_finalized \<lparr>ss_headers = [Authorization, XAmzDate]\<rparr> [(XAmzDate, ''d''), (Authorization, ''s'')] =
     Ok [(''authorization'', ''s''), (''x-amz-date'', ''d'')]"
  using finalizer_output_is_its_declaration
    [of "\<lparr>ss_headers = [Authorization, XAmzDate]\<rparr>" "[(XAmzDate, ''d''), (Authorization, ''s'')]"]
  by (simp add: add_mset_commute)

end
