(* ===== verification/Responses.thy ===== *)
theory Responses
  imports Response_Metadata
begin

text \<open>
  The response shapes of \<open>south-contracts/src/lib.rs\<close>: buffered text, buffered bytes, the head of a
  stream, a rejected stream, one stream chunk, and the timeouts of a streaming transport. A status
  is a value of some type \<open>'s\<close> of the \<open>http\<close> crate, of which only \<open>StatusCode::is_redirection\<close> is
  used; it is the parameter \<open>redir\<close>. A duration is its number of nanoseconds.
\<close>

definition MAX_RESPONSE_BODY_BYTES :: nat where
  "MAX_RESPONSE_BODY_BYTES = 32 * 1024 * 1024"

definition MAX_BINARY_RESPONSE_BODY_BYTES :: nat where
  "MAX_BINARY_RESPONSE_BODY_BYTES = 64 * 1024 * 1024"

definition MAX_RESPONSE_CONTENT_TYPE_BYTES :: nat where
  "MAX_RESPONSE_CONTENT_TYPE_BYTES = 256"

definition MAX_RESPONSE_RETRY_AFTER_BYTES :: nat where
  "MAX_RESPONSE_RETRY_AFTER_BYTES = 256"

definition MAX_STREAM_ERROR_BODY_BYTES :: nat where
  "MAX_STREAM_ERROR_BODY_BYTES = 64 * 1024"

definition MAX_STREAM_CHUNK_BYTES :: nat where
  "MAX_STREAM_CHUNK_BYTES = 64 * 1024"

type_synonym duration = nat

definition MAX_TRANSPORT_TIMEOUT :: duration where
  "MAX_TRANSPORT_TIMEOUT = 24 * 60 * 60 * 1000000000"

definition validate_response_metadata ::
  "(string \<Rightarrow> bool) \<Rightarrow> string option \<Rightarrow> nat \<Rightarrow> (unit, transport_error) result" where
  "validate_response_metadata hv value_opt maximum_bytes =
     (if (case value_opt of None \<Rightarrow> False | Some v \<Rightarrow> maximum_bytes < length v \<or> \<not> hv v)
      then Err ResponseMetadataInvalid else Ok ())"

section \<open>Shapes\<close>

text \<open>The head of a stream; the two buffered shapes are a head with a body.\<close>

record 's response_head =
  rh_status :: 's
  rh_content_type :: "string option"
  rh_retry_after :: "string option"
  rh_quota :: field_values
  rh_diagnostics :: field_values
  rh_transcript :: response_transcript

record 's buffered_http_response = "'s response_head" +
  br_body :: string

record 's buffered_binary_response = "'s response_head" +
  bb_body :: bytes

definition streaming_head_with_response_metadata ::
  "(string \<Rightarrow> bool) \<Rightarrow> ('s \<Rightarrow> bool) \<Rightarrow> 's \<Rightarrow> string option \<Rightarrow> string option \<Rightarrow> field_values \<Rightarrow> field_values
    \<Rightarrow> response_transcript \<Rightarrow> ('s response_head, transport_error) result" where
  "streaming_head_with_response_metadata hv redir status content_type retry_after quota diagnostics transcript =
     (if redir status then Err RedirectDenied
      else
        and_then (validate_response_metadata hv content_type MAX_RESPONSE_CONTENT_TYPE_BYTES) (\<lambda>_.
        and_then (validate_response_metadata hv retry_after MAX_RESPONSE_RETRY_AFTER_BYTES) (\<lambda>_.
          Ok \<lparr>rh_status = status, rh_content_type = content_type, rh_retry_after = retry_after,
              rh_quota = quota, rh_diagnostics = diagnostics, rh_transcript = transcript\<rparr>)))"

definition streaming_head_with_quota ::
  "(string \<Rightarrow> bool) \<Rightarrow> ('s \<Rightarrow> bool) \<Rightarrow> 's \<Rightarrow> string option \<Rightarrow> string option \<Rightarrow> field_values
    \<Rightarrow> ('s response_head, transport_error) result" where
  "streaming_head_with_quota hv redir status content_type retry_after quota =
     streaming_head_with_response_metadata hv redir status content_type retry_after quota
       default_values default_transcript"

definition streaming_head_from_parts ::
  "(string \<Rightarrow> bool) \<Rightarrow> ('s \<Rightarrow> bool) \<Rightarrow> 's \<Rightarrow> string option \<Rightarrow> string option
    \<Rightarrow> ('s response_head, transport_error) result" where
  "streaming_head_from_parts hv redir status content_type retry_after =
     streaming_head_with_quota hv redir status content_type retry_after default_values"

definition buffered_with_response_metadata ::
  "(string \<Rightarrow> bool) \<Rightarrow> ('s \<Rightarrow> bool) \<Rightarrow> 's \<Rightarrow> bytes \<Rightarrow> string option \<Rightarrow> string option \<Rightarrow> field_values
    \<Rightarrow> field_values \<Rightarrow> response_transcript \<Rightarrow> ('s buffered_http_response, transport_error) result" where
  "buffered_with_response_metadata hv redir status body content_type retry_after quota diagnostics transcript =
     (if redir status then Err RedirectDenied
      else if MAX_RESPONSE_BODY_BYTES < length body then Err ResponseBodyTooLarge
      else
        and_then (validate_response_metadata hv content_type MAX_RESPONSE_CONTENT_TYPE_BYTES) (\<lambda>_.
        and_then (validate_response_metadata hv retry_after MAX_RESPONSE_RETRY_AFTER_BYTES) (\<lambda>_.
          if \<not> utf8_valid body then Err ResponseBodyNotUtf8
          else Ok
            \<lparr>rh_status = status, rh_content_type = content_type, rh_retry_after = retry_after,
             rh_quota = quota, rh_diagnostics = diagnostics, rh_transcript = transcript, br_body = body\<rparr>)))"

definition buffered_with_quota ::
  "(string \<Rightarrow> bool) \<Rightarrow> ('s \<Rightarrow> bool) \<Rightarrow> 's \<Rightarrow> bytes \<Rightarrow> string option \<Rightarrow> string option \<Rightarrow> field_values
    \<Rightarrow> ('s buffered_http_response, transport_error) result" where
  "buffered_with_quota hv redir status body content_type retry_after quota =
     buffered_with_response_metadata hv redir status body content_type retry_after quota
       default_values default_transcript"

definition buffered_from_parts ::
  "(string \<Rightarrow> bool) \<Rightarrow> ('s \<Rightarrow> bool) \<Rightarrow> 's \<Rightarrow> bytes \<Rightarrow> string option \<Rightarrow> string option
    \<Rightarrow> ('s buffered_http_response, transport_error) result" where
  "buffered_from_parts hv redir status body content_type retry_after =
     buffered_with_quota hv redir status body content_type retry_after default_values"

definition binary_with_response_metadata ::
  "(string \<Rightarrow> bool) \<Rightarrow> ('s \<Rightarrow> bool) \<Rightarrow> 's \<Rightarrow> bytes \<Rightarrow> string option \<Rightarrow> string option \<Rightarrow> field_values
    \<Rightarrow> field_values \<Rightarrow> response_transcript \<Rightarrow> ('s buffered_binary_response, transport_error) result" where
  "binary_with_response_metadata hv redir status body content_type retry_after quota diagnostics transcript =
     (if redir status then Err RedirectDenied
      else if MAX_BINARY_RESPONSE_BODY_BYTES < length body then Err ResponseBodyTooLarge
      else
        and_then (validate_response_metadata hv content_type MAX_RESPONSE_CONTENT_TYPE_BYTES) (\<lambda>_.
        and_then (validate_response_metadata hv retry_after MAX_RESPONSE_RETRY_AFTER_BYTES) (\<lambda>_.
          Ok \<lparr>rh_status = status, rh_content_type = content_type, rh_retry_after = retry_after,
              rh_quota = quota, rh_diagnostics = diagnostics, rh_transcript = transcript, bb_body = body\<rparr>)))"

definition binary_with_quota ::
  "(string \<Rightarrow> bool) \<Rightarrow> ('s \<Rightarrow> bool) \<Rightarrow> 's \<Rightarrow> bytes \<Rightarrow> string option \<Rightarrow> string option \<Rightarrow> field_values
    \<Rightarrow> ('s buffered_binary_response, transport_error) result" where
  "binary_with_quota hv redir status body content_type retry_after quota =
     binary_with_response_metadata hv redir status body content_type retry_after quota
       default_values default_transcript"

definition binary_from_parts ::
  "(string \<Rightarrow> bool) \<Rightarrow> ('s \<Rightarrow> bool) \<Rightarrow> 's \<Rightarrow> bytes \<Rightarrow> string option \<Rightarrow> string option
    \<Rightarrow> ('s buffered_binary_response, transport_error) result" where
  "binary_from_parts hv redir status body content_type retry_after =
     binary_with_quota hv redir status body content_type retry_after default_values"

record 's stream_rejected =
  sr_head :: "'s response_head"
  sr_body :: bytes

definition stream_rejected_new :: "'s response_head \<Rightarrow> bytes \<Rightarrow> 's stream_rejected" where
  "stream_rejected_new head body = \<lparr>sr_head = head, sr_body = take MAX_STREAM_ERROR_BODY_BYTES body\<rparr>"

record stream_chunk =
  sc_bytes :: bytes

definition stream_chunk_try_new :: "bytes \<Rightarrow> (stream_chunk, stream_read_error) result" where
  "stream_chunk_try_new bs =
     (if MAX_STREAM_CHUNK_BYTES < length bs then Err ChunkNotDeliverable else Ok \<lparr>sc_bytes = bs\<rparr>)"

record stream_transport_config =
  stc_total :: "duration option"
  stc_connect :: duration
  stc_idle :: duration

definition stream_config_try_new ::
  "duration option \<Rightarrow> duration \<Rightarrow> duration \<Rightarrow> (stream_transport_config, transport_error) result" where
  "stream_config_try_new total_timeout connect_timeout idle_timeout =
     (if connect_timeout = 0 \<or> idle_timeout = 0 then Err ClientBuildFailed
      else if (case total_timeout of None \<Rightarrow> False
               | Some t \<Rightarrow> t = 0 \<or> MAX_TRANSPORT_TIMEOUT < t \<or> t < connect_timeout \<or> t < idle_timeout)
      then Err ClientBuildFailed
      else Ok \<lparr>stc_total = total_timeout, stc_connect = connect_timeout, stc_idle = idle_timeout\<rparr>)"

section \<open>Properties\<close>

definition metadata_ok :: "(string \<Rightarrow> bool) \<Rightarrow> string option \<Rightarrow> nat \<Rightarrow> bool" where
  "metadata_ok hv value_opt maximum_bytes \<longleftrightarrow>
     (case value_opt of None \<Rightarrow> True | Some v \<Rightarrow> length v \<le> maximum_bytes \<and> hv v)"

lemma validate_response_metadata_eq:
  "validate_response_metadata hv v n = (if metadata_ok hv v n then Ok () else Err ResponseMetadataInvalid)"
  by (auto simp: validate_response_metadata_def metadata_ok_def split: option.splits)

text \<open>
  The three response shapes agree on everything but the body. No redirect becomes a
  response. A text response is accepted exactly when its head is, its body has at most 32 MiB and
  the body is UTF-8; a binary response exactly when its head is and its body has at most 64 MiB, and
  it never fails for its encoding. The body and the head are kept as received, and a bad
  \<open>content-type\<close> or \<open>retry-after\<close> is reported before a body that is not UTF-8.
\<close>

theorem response_shapes_agree:
  "(\<exists>head. streaming_head_with_response_metadata hv redir st ct ra q d t = Ok head \<and> rh_status head = st \<and>
       rh_content_type head = ct \<and> rh_retry_after head = ra \<and> rh_transcript head = t) =
     (\<not> redir st \<and> metadata_ok hv ct MAX_RESPONSE_CONTENT_TYPE_BYTES \<and>
      metadata_ok hv ra MAX_RESPONSE_RETRY_AFTER_BYTES) \<and>
   (\<exists>r. buffered_with_response_metadata hv redir st body ct ra q d t = Ok r \<and> br_body r = body \<and>
       streaming_head_with_response_metadata hv redir st ct ra q d t = Ok (response_head.truncate r)) =
     (\<not> redir st \<and> metadata_ok hv ct MAX_RESPONSE_CONTENT_TYPE_BYTES \<and>
      metadata_ok hv ra MAX_RESPONSE_RETRY_AFTER_BYTES \<and>
      length body \<le> MAX_RESPONSE_BODY_BYTES \<and> utf8_valid body) \<and>
   (\<exists>r. binary_with_response_metadata hv redir st body ct ra q d t = Ok r \<and> bb_body r = body \<and>
       streaming_head_with_response_metadata hv redir st ct ra q d t = Ok (response_head.truncate r)) =
     (\<not> redir st \<and> metadata_ok hv ct MAX_RESPONSE_CONTENT_TYPE_BYTES \<and>
      metadata_ok hv ra MAX_RESPONSE_RETRY_AFTER_BYTES \<and> length body \<le> MAX_BINARY_RESPONSE_BODY_BYTES) \<and>
   binary_with_response_metadata hv redir st body ct ra q d t \<noteq> Err ResponseBodyNotUtf8 \<and>
   (buffered_with_response_metadata hv redir st body ct ra q d t = Err ResponseBodyNotUtf8 \<longrightarrow>
      metadata_ok hv ct MAX_RESPONSE_CONTENT_TYPE_BYTES \<and> metadata_ok hv ra MAX_RESPONSE_RETRY_AFTER_BYTES)"
  unfolding streaming_head_with_response_metadata_def buffered_with_response_metadata_def
    binary_with_response_metadata_def validate_response_metadata_eq
  by (simp add: response_head.truncate_def not_less)

theorem response_shapes_agree_witness:
  "(\<exists>r. buffered_with_response_metadata visible_value (\<lambda>s. s = (302 :: nat)) 200 ''ok'' None None
      default_values default_values default_transcript = Ok r \<and> br_body r = ''ok'') \<and>
   metadata_ok visible_value (None :: string option) MAX_RESPONSE_CONTENT_TYPE_BYTES"
proof -
  have "utf8_valid ''ok''" by (rule utf8_valid_ascii) (simp add: ascii_def)
  then show ?thesis
    using response_shapes_agree [of visible_value "\<lambda>s. s = (302 :: nat)" 200 None None default_values
        default_values default_transcript "''ok''"]
    by (auto simp: metadata_ok_def MAX_RESPONSE_BODY_BYTES_def)
qed

text \<open>
  What a streaming transport delivers is bounded: a chunk is accepted exactly when it has
  at most 64 KiB, a rejection keeps at most the first 64 KiB of its error body and all of a shorter
  one, and an accepted configuration has non-zero connect and idle guards, which any bounded total
  timeout is at least as long as and at most a day.
\<close>

theorem streaming_bounds:
  "(\<exists>c. stream_chunk_try_new bs = Ok c \<and> sc_bytes c = bs) = (length bs \<le> MAX_STREAM_CHUNK_BYTES) \<and>
   prefix (sr_body (stream_rejected_new head body)) body \<and>
   length (sr_body (stream_rejected_new head body)) = min MAX_STREAM_ERROR_BODY_BYTES (length body) \<and>
   sr_head (stream_rejected_new head body) = head \<and>
   (\<exists>c. stream_config_try_new total_timeout connect_timeout idle_timeout = Ok c \<and>
       stc_total c = total_timeout \<and> stc_connect c = connect_timeout \<and> stc_idle c = idle_timeout) =
     (0 < connect_timeout \<and> 0 < idle_timeout \<and>
      pred_option (\<lambda>t. max connect_timeout idle_timeout \<le> t \<and> t \<le> MAX_TRANSPORT_TIMEOUT) total_timeout)"
  by (cases total_timeout)
    (auto simp: stream_chunk_try_new_def stream_rejected_new_def stream_config_try_new_def take_is_prefix
      min.commute not_less)

end
