(* ===== verification/Provider_Call.thy ===== *)
theory Provider_Call
  imports Async_Call Prepared Responses
begin

text \<open>
  The provider calls of \<open>south-core/src/lib.rs\<close>: the buffered flow every credential-arm request
  shape shares, its host-signed twin, and the public entry points over them. Resolver, finalizer
  and transport are injected by the host: they are arguments, futures of what they are asked. A
  call's run is what it asked of them, in order, and its answer.
\<close>

section \<open>Errors and effects\<close>

datatype 's provider_call_error =
    Preparation preparation_error | Transport transport_error | UpstreamRejected "'s stream_rejected"

fun provider_call_code :: "'s provider_call_error \<Rightarrow> string" where
  "provider_call_code (Preparation e) = preparation_code e"
| "provider_call_code (Transport e) = transport_code e"
| "provider_call_code (UpstreamRejected _) = ''UPSTREAM_REJECTED''"

datatype 'u provider_effect =
    ResolveCredential credential_slot
  | FinalizeRequest "'u finalize_view"
  | Dispatch "'u prepared_request" duration
  | OpenStream "'u prepared_request"

type_synonym credential_resolver = "credential_slot \<Rightarrow> (secret_value, unit) result future"
type_synonym 'u request_finalizer = "'u finalize_view \<Rightarrow> (finalized_headers, unit) result future"
type_synonym ('u, 'r) buffered_dispatch =
  "'u prepared_request \<Rightarrow> duration \<Rightarrow> ('r, transport_error) result future"
type_synonym ('u, 's, 'r) provider_run =
  "'u provider_effect list \<times> ('r, 's provider_call_error) result option"

text \<open>\<open>checked_duration_since(now)\<close> with a zero budget refused.\<close>

definition remaining_timeout :: "nat \<Rightarrow> nat \<Rightarrow> (duration, 's provider_call_error) result" where
  "remaining_timeout deadline now =
     (if deadline \<le> now then Err (Preparation DeadlineExceeded) else Ok (deadline - now))"

section \<open>The credential flow\<close>

definition credential_first ::
  "request_parts \<Rightarrow> 'u \<Rightarrow> credential_resolver \<Rightarrow> ('u prepared_request, 's provider_call_error) result future" where
  "credential_first p destination resolve k =
     map_option (\<lambda>r.
       and_then (map_err (\<lambda>_. Preparation CredentialResolutionFailed) r) (\<lambda>secret.
         map_err Preparation (assemble p destination secret)))
       (resolve (auth_credential_slot (pt_auth p)) k)"

definition credential_block ::
  "request_parts \<Rightarrow> 'u \<Rightarrow> credential_resolver \<Rightarrow> ('u, 'r) buffered_dispatch \<Rightarrow> nat
    \<Rightarrow> ('u provider_effect, 'u prepared_request, 'u prepared_request \<times> duration, 'r, 's provider_call_error) two_awaits" where
  "credential_block p destination resolve dispatch deadline =
     \<lparr>ta_first_calls = [ResolveCredential (auth_credential_slot (pt_auth p))],
      ta_first = credential_first p destination resolve,
      ta_between = (\<lambda>now prepared.
        and_then (remaining_timeout deadline now) (\<lambda>remaining. Ok (prepared, remaining))),
      ta_second_call = (\<lambda>(prepared, remaining). Dispatch prepared remaining),
      ta_second = (\<lambda>(prepared, remaining) k. map_option (map_err Transport) (dispatch prepared remaining k))\<rparr>"

definition execute_buffered ::
  "'u url_crate \<Rightarrow> 'u provider_binding \<Rightarrow> request_parts \<Rightarrow> credential_resolver \<Rightarrow> ('u, 'r) buffered_dispatch
    \<Rightarrow> nat \<Rightarrow> poll \<Rightarrow> poll list \<Rightarrow> ('u, 's, 'r) provider_run" where
  "execute_buffered U binding p resolve dispatch deadline start polls =
     (case parts_destination U p binding of
        Err e \<Rightarrow> ([], Some (Err (Preparation e)))
      | Ok destination \<Rightarrow>
          if auth_credential_slot (pt_auth p) \<noteq> pb_credential_slot binding
          then ([], Some (Err (Preparation CredentialBindingMismatch)))
          else if po_cancelled start then ([], Some (Err (Preparation PreparationCancelled)))
          else if deadline \<le> po_now start then ([], Some (Err (Preparation DeadlineExceeded)))
          else race (credential_block p destination resolve dispatch deadline) True
                 (Preparation PreparationCancelled) (Preparation DeadlineExceeded) (AwaitFirst 0) polls)"

definition execute_provider_call_v1 ::
  "'u url_crate \<Rightarrow> 'u provider_binding \<Rightarrow> json_post_request \<Rightarrow> credential_resolver
    \<Rightarrow> ('u, 's buffered_http_response) buffered_dispatch \<Rightarrow> nat \<Rightarrow> poll \<Rightarrow> poll list
    \<Rightarrow> ('u, 's, 's buffered_http_response) provider_run" where
  "execute_provider_call_v1 U binding request = execute_buffered U binding (json_parts request)"

definition execute_get_call_v1 ::
  "'u url_crate \<Rightarrow> 'u provider_binding \<Rightarrow> get_request \<Rightarrow> credential_resolver
    \<Rightarrow> ('u, 's buffered_http_response) buffered_dispatch \<Rightarrow> nat \<Rightarrow> poll \<Rightarrow> poll list
    \<Rightarrow> ('u, 's, 's buffered_http_response) provider_run" where
  "execute_get_call_v1 U binding request = execute_buffered U binding (get_parts request)"

definition execute_multipart_call_v1 ::
  "'u url_crate \<Rightarrow> 'u provider_binding \<Rightarrow> multipart_post_request \<Rightarrow> credential_resolver
    \<Rightarrow> ('u, 's buffered_http_response) buffered_dispatch \<Rightarrow> nat \<Rightarrow> poll \<Rightarrow> poll list
    \<Rightarrow> ('u, 's, 's buffered_http_response) provider_run" where
  "execute_multipart_call_v1 U binding request = execute_buffered U binding (multipart_parts request)"

definition execute_binary_call_v1 ::
  "'u url_crate \<Rightarrow> 'u provider_binding \<Rightarrow> json_post_request \<Rightarrow> credential_resolver
    \<Rightarrow> ('u, 's buffered_binary_response) buffered_dispatch \<Rightarrow> nat \<Rightarrow> poll \<Rightarrow> poll list
    \<Rightarrow> ('u, 's, 's buffered_binary_response) provider_run" where
  "execute_binary_call_v1 U binding request = execute_buffered U binding (json_parts request)"

definition execute_multipart_binary_call_v1 ::
  "'u url_crate \<Rightarrow> 'u provider_binding \<Rightarrow> multipart_post_request \<Rightarrow> credential_resolver
    \<Rightarrow> ('u, 's buffered_binary_response) buffered_dispatch \<Rightarrow> nat \<Rightarrow> poll \<Rightarrow> poll list
    \<Rightarrow> ('u, 's, 's buffered_binary_response) provider_run" where
  "execute_multipart_binary_call_v1 U binding request = execute_buffered U binding (multipart_parts request)"

definition execute_text_binary_call_v1 ::
  "'u url_crate \<Rightarrow> 'u provider_binding \<Rightarrow> text_post_request \<Rightarrow> credential_resolver
    \<Rightarrow> ('u, 's buffered_binary_response) buffered_dispatch \<Rightarrow> nat \<Rightarrow> poll \<Rightarrow> poll list
    \<Rightarrow> ('u, 's, 's buffered_binary_response) provider_run" where
  "execute_text_binary_call_v1 U binding request = execute_buffered U binding (text_parts request)"

section \<open>The host-signed flow\<close>

definition finalize_into ::
  "'u prepared_request \<Rightarrow> 'u request_finalizer \<Rightarrow> signed_header_set \<Rightarrow> credential_slot
    \<Rightarrow> ('u prepared_request, 's provider_call_error) result future" where
  "finalize_into prepared finalize emits slot k =
     map_option (\<lambda>r.
       and_then (map_err (\<lambda>_. Preparation RequestFinalizationFailed) r) (\<lambda>emitted.
         and_then (map_err Preparation (diff_finalized emits emitted)) (\<lambda>bound.
           Ok (bind_finalized prepared bound))))
       (finalize (prepared_finalize_view prepared emits slot) k)"

text \<open>The first half of both signed blocks: the unsigned request, then the finalizer over it.\<close>

definition signed_first_calls ::
  "request_parts \<Rightarrow> 'u \<Rightarrow> signed_header_set \<Rightarrow> 'u provider_effect list" where
  "signed_first_calls p destination emits =
     (case assemble_unsigned p destination of
        Err _ \<Rightarrow> []
      | Ok prepared \<Rightarrow> [FinalizeRequest (prepared_finalize_view prepared emits (auth_credential_slot (pt_auth p)))])"

definition signed_first ::
  "request_parts \<Rightarrow> 'u \<Rightarrow> 'u request_finalizer \<Rightarrow> signed_header_set
    \<Rightarrow> ('u prepared_request, 's provider_call_error) result future" where
  "signed_first p destination finalize emits k =
     (case assemble_unsigned p destination of
        Err e \<Rightarrow> Some (Err (Preparation e))
      | Ok prepared \<Rightarrow> finalize_into prepared finalize emits (auth_credential_slot (pt_auth p)) k)"

definition signed_block ::
  "request_parts \<Rightarrow> 'u \<Rightarrow> signed_header_set \<Rightarrow> 'u request_finalizer \<Rightarrow> ('u, 'r) buffered_dispatch \<Rightarrow> nat
    \<Rightarrow> ('u provider_effect, 'u prepared_request, 'u prepared_request \<times> duration, 'r, 's provider_call_error) two_awaits" where
  "signed_block p destination emits finalize dispatch deadline =
     \<lparr>ta_first_calls = signed_first_calls p destination emits,
      ta_first = signed_first p destination finalize emits,
      ta_between = (\<lambda>now prepared.
        and_then (remaining_timeout deadline now) (\<lambda>remaining. Ok (prepared, remaining))),
      ta_second_call = (\<lambda>(prepared, remaining). Dispatch prepared remaining),
      ta_second = (\<lambda>(prepared, remaining) k. map_option (map_err Transport) (dispatch prepared remaining k))\<rparr>"

definition execute_signed_buffered ::
  "'u url_crate \<Rightarrow> 'u provider_binding \<Rightarrow> request_parts \<Rightarrow> 'u request_finalizer \<Rightarrow> ('u, 'r) buffered_dispatch
    \<Rightarrow> nat \<Rightarrow> poll \<Rightarrow> poll list \<Rightarrow> ('u, 's, 'r) provider_run" where
  "execute_signed_buffered U binding p finalize dispatch deadline start polls =
     (case prepare_signed U binding p of
        Err e \<Rightarrow> ([], Some (Err (Preparation e)))
      | Ok (destination, emits) \<Rightarrow>
          if po_cancelled start then ([], Some (Err (Preparation PreparationCancelled)))
          else if deadline \<le> po_now start then ([], Some (Err (Preparation DeadlineExceeded)))
          else race (signed_block p destination emits finalize dispatch deadline) True
                 (Preparation PreparationCancelled) (Preparation DeadlineExceeded) (AwaitFirst 0) polls)"

definition execute_signed_provider_call_v1 ::
  "'u url_crate \<Rightarrow> 'u provider_binding \<Rightarrow> json_post_request \<Rightarrow> 'u request_finalizer
    \<Rightarrow> ('u, 's buffered_http_response) buffered_dispatch \<Rightarrow> nat \<Rightarrow> poll \<Rightarrow> poll list
    \<Rightarrow> ('u, 's, 's buffered_http_response) provider_run" where
  "execute_signed_provider_call_v1 U binding request = execute_signed_buffered U binding (json_parts request)"

definition execute_signed_get_call_v1 ::
  "'u url_crate \<Rightarrow> 'u provider_binding \<Rightarrow> get_request \<Rightarrow> 'u request_finalizer
    \<Rightarrow> ('u, 's buffered_http_response) buffered_dispatch \<Rightarrow> nat \<Rightarrow> poll \<Rightarrow> poll list
    \<Rightarrow> ('u, 's, 's buffered_http_response) provider_run" where
  "execute_signed_get_call_v1 U binding request = execute_signed_buffered U binding (get_parts request)"

section \<open>Both flows are guarded flows\<close>

text \<open>The guards as one step: what they let through is the destination.\<close>

definition credential_guards ::
  "'u url_crate \<Rightarrow> 'u provider_binding \<Rightarrow> request_parts \<Rightarrow> (nat \<Rightarrow> bool) \<Rightarrow> poll
    \<Rightarrow> ('u, 's provider_call_error) result" where
  "credential_guards U binding p expired start =
     and_then (map_err Preparation (parts_destination U p binding)) (\<lambda>destination.
       if auth_credential_slot (pt_auth p) \<noteq> pb_credential_slot binding
       then Err (Preparation CredentialBindingMismatch)
       else if po_cancelled start then Err (Preparation PreparationCancelled)
       else if expired (po_now start) then Err (Preparation DeadlineExceeded)
       else Ok destination)"

definition signed_guards ::
  "'u url_crate \<Rightarrow> 'u provider_binding \<Rightarrow> request_parts \<Rightarrow> (nat \<Rightarrow> bool) \<Rightarrow> poll
    \<Rightarrow> ('u \<times> signed_header_set, 's provider_call_error) result" where
  "signed_guards U binding p expired start =
     and_then (map_err Preparation (prepare_signed U binding p)) (\<lambda>prepared.
       if po_cancelled start then Err (Preparation PreparationCancelled)
       else if expired (po_now start) then Err (Preparation DeadlineExceeded)
       else Ok prepared)"

interpretation buffered: guarded_flow
  "execute_buffered U binding p resolve dispatch deadline"
  "credential_guards U binding p (\<lambda>now. deadline \<le> now)"
  "\<lambda>destination. credential_block p destination resolve dispatch deadline" "\<lambda>r. r" True
  "Preparation PreparationCancelled" "Preparation DeadlineExceeded"
  for U binding p resolve dispatch deadline
  by unfold_locales
    (auto simp: execute_buffered_def credential_guards_def
      split: result.splits if_splits elim!: and_then.elims)

interpretation signed: guarded_flow
  "execute_signed_buffered U binding p finalize dispatch deadline"
  "signed_guards U binding p (\<lambda>now. deadline \<le> now)"
  "\<lambda>(destination, emits). signed_block p destination emits finalize dispatch deadline" "\<lambda>r. r" True
  "Preparation PreparationCancelled" "Preparation DeadlineExceeded"
  for U binding p finalize dispatch deadline
  by unfold_locales
    (auto simp: execute_signed_buffered_def signed_guards_def
      split: result.splits if_splits)

lemma credential_guards_Ok:
  "credential_guards U binding p expired start = Ok destination \<longleftrightarrow>
    parts_destination U p binding = Ok destination \<and>
    auth_credential_slot (pt_auth p) = pb_credential_slot binding \<and>
    \<not> po_cancelled start \<and> \<not> expired (po_now start)"
  by (cases "parts_destination U p binding") (auto simp: credential_guards_def)

lemma signed_guards_Ok:
  "signed_guards U binding p expired start = Ok prepared \<longleftrightarrow>
    prepare_signed U binding p = Ok prepared \<and> \<not> po_cancelled start \<and> \<not> expired (po_now start)"
  by (cases "prepare_signed U binding p") (auto simp: signed_guards_def)

lemma remaining_timeout_Ok:
  "remaining_timeout deadline now = Ok r \<longleftrightarrow> now < deadline \<and> r = deadline - now"
  by (auto simp: remaining_timeout_def)

lemma credential_first_Ok:
  "credential_first p destination resolve k = Some (Ok prepared) \<longleftrightarrow>
    (\<exists>secret. resolve (auth_credential_slot (pt_auth p)) k = Some (Ok secret) \<and>
       assemble p destination secret = Ok prepared)"
  by (auto simp: credential_first_def and_then_Ok_iff map_err_Ok)

lemma credential_block_sel:
  "ta_first_calls (credential_block p destination resolve dispatch deadline) =
    [ResolveCredential (auth_credential_slot (pt_auth p))]"
  "ta_first (credential_block p destination resolve dispatch deadline) = credential_first p destination resolve"
  "ta_between (credential_block p destination resolve dispatch deadline) now prepared =
    and_then (remaining_timeout deadline now) (\<lambda>remaining. Ok (prepared, remaining))"
  "ta_second_call (credential_block p destination resolve dispatch deadline) x = Dispatch (fst x) (snd x)"
  "ta_second (credential_block p destination resolve dispatch deadline) x k =
    map_option (map_err Transport) (dispatch (fst x) (snd x) k)"
  by (auto simp: credential_block_def split: prod.splits)

text \<open>A request that may be dispatched: prepared from the resolver's secret, with budget left at some poll.\<close>

definition dispatchable ::
  "request_parts \<Rightarrow> 'u \<Rightarrow> credential_resolver \<Rightarrow> nat \<Rightarrow> poll list \<Rightarrow> 'u prepared_request \<times> duration \<Rightarrow> bool" where
  "dispatchable p destination resolve deadline polls x \<longleftrightarrow>
    (\<exists>k secret. resolve (auth_credential_slot (pt_auth p)) k = Some (Ok secret) \<and>
       assemble p destination secret = Ok (fst x)) \<and>
    (\<exists>q \<in> set polls. \<not> po_cancelled q \<and> po_now q < deadline \<and> snd x = deadline - po_now q)"

lemma credential_reached:
  "reached (credential_block p destination resolve dispatch deadline) polls x \<longleftrightarrow>
    dispatchable p destination resolve deadline polls x"
  unfolding reached_def dispatchable_def credential_block_sel
  by (cases x) (auto simp: credential_first_Ok and_then_Ok_iff remaining_timeout_Ok)

lemma buffered_dispatched:
  assumes "execute_buffered U binding p resolve dispatch deadline start polls = (calls, r)"
    and "Dispatch prepared remaining \<in> set calls"
  shows "\<exists>destination k secret. parts_destination U p binding = Ok destination \<and>
    auth_credential_slot (pt_auth p) = pb_credential_slot binding \<and>
    calls = [ResolveCredential (pb_credential_slot binding), Dispatch prepared remaining] \<and>
    resolve (pb_credential_slot binding) k = Some (Ok secret) \<and>
    assemble p destination secret = Ok prepared \<and> 0 < remaining \<and> remaining \<le> deadline"
proof -
  from buffered.calls_in_order [OF assms(1), unfolded credential_block_sel credential_reached credential_guards_Ok]
    assms(2)
  obtain destination x where guards: "parts_destination U p binding = Ok destination"
      "auth_credential_slot (pt_auth p) = pb_credential_slot binding"
    and calls: "calls = [ResolveCredential (auth_credential_slot (pt_auth p)), Dispatch (fst x) (snd x)]"
    and x: "dispatchable p destination resolve deadline polls x"
    by auto
  with assms(2) have "x = (prepared, remaining)" by (cases x) auto
  moreover from x [unfolded dispatchable_def guards(2)] obtain k secret and q :: poll where
    "resolve (pb_credential_slot binding) k = Some (Ok secret)" "assemble p destination secret = Ok (fst x)"
    "po_now q < deadline" "snd x = deadline - po_now q"
    by blast
  ultimately show ?thesis using guards calls by (intro exI conjI) auto
qed

section \<open>What a provider call does\<close>

text \<open>
  Claim C3. A buffered provider call asks at most one thing of the host and then sends at most one
  request, and each only when it may. Nothing happens unless the destination resolves inside the
  binding, the request's slot is the binding's slot, the call is not cancelled and its deadline is
  ahead. Then the binding's own slot is resolved, once; and only with the secret the resolver gave,
  assembled into a prepared request for that destination, and with a positive budget left before
  the deadline, one request is dispatched. Nothing else is ever asked.
\<close>

theorem buffered_call_effects:
  assumes "execute_buffered U binding p resolve dispatch deadline start polls = (calls, r)"
  shows "calls = [] \<or>
    (\<exists>destination. parts_destination U p binding = Ok destination \<and>
       auth_credential_slot (pt_auth p) = pb_credential_slot binding \<and>
       \<not> po_cancelled start \<and> po_now start < deadline \<and>
       (calls = [ResolveCredential (pb_credential_slot binding)] \<or>
        (\<exists>k secret prepared. \<exists>q \<in> set polls.
           calls = [ResolveCredential (pb_credential_slot binding), Dispatch prepared (deadline - po_now q)] \<and>
           resolve (pb_credential_slot binding) k = Some (Ok secret) \<and>
           assemble p destination secret = Ok prepared \<and> \<not> po_cancelled q \<and> po_now q < deadline)))"
proof (cases "calls = []")
  case False
  with buffered.calls_in_order [OF assms, unfolded credential_block_sel credential_reached credential_guards_Ok]
  obtain destination where guards: "parts_destination U p binding = Ok destination"
      "auth_credential_slot (pt_auth p) = pb_credential_slot binding" "\<not> po_cancelled start" "po_now start < deadline"
    and calls: "calls = [ResolveCredential (auth_credential_slot (pt_auth p))] \<or>
      (\<exists>x. calls = [ResolveCredential (auth_credential_slot (pt_auth p)), Dispatch (fst x) (snd x)] \<and>
        dispatchable p destination resolve deadline polls x)"
    by auto
  from calls guards show ?thesis unfolding dispatchable_def by fastforce
qed simp

text \<open>A binding, a request, a resolver that answers at its second poll and a transport that answers at once.\<close>

definition sample_binding :: "sample_url provider_binding" where
  "sample_binding = \<lparr>pb_endpoint = sample_endpoint, pb_credential_slot = \<lparr>cs_value = ''main''\<rparr>\<rparr>"

definition sample_parts :: "provider_auth \<Rightarrow> request_parts" where
  "sample_parts auth =
     \<lparr>pt_method = GET, pt_relative_path = \<lparr>rp_value = ''chat''\<rparr>, pt_query = None,
      pt_headers = \<lparr>sh_values = [], sh_secret_headers = dshs_none\<rparr>, pt_body = None, pt_auth = auth,
      pt_user_agent = None\<rparr>"

definition sample_bearer :: provider_auth where
  "sample_bearer = Bearer \<lparr>ba_credential_slot = \<lparr>cs_value = ''main''\<rparr>\<rparr>"

definition sample_resolver :: credential_resolver where
  "sample_resolver slot k = (if k = 0 then None else Some (Ok \<lparr>sv_value = ''s''\<rparr>))"

definition sample_dispatch :: "(sample_url, nat) buffered_dispatch" where
  "sample_dispatch prepared remaining k = Some (Ok (remaining + length (pr_auth_headers prepared)))"

definition sample_poll :: "bool \<Rightarrow> nat \<Rightarrow> poll" where
  "sample_poll c now = \<lparr>po_cancelled = c, po_now = now, po_elapsed = False\<rparr>"

definition sample_prepared :: "bound_auth_header list \<Rightarrow> sample_url prepared_request" where
  "sample_prepared auth_headers =
     \<lparr>pr_method = GET, pr_url = \<lparr>su_host = ''h'', su_path = ''/v1/chat'', su_query = None\<rparr>,
      pr_headers = \<lparr>sh_values = [], sh_secret_headers = dshs_none\<rparr>, pr_body = None,
      pr_auth_headers = auth_headers, pr_user_agent = None\<rparr>"

definition sample_call :: "poll list \<Rightarrow> (sample_url, nat, nat) provider_run" where
  "sample_call =
     execute_buffered sample_url_crate sample_binding (sample_parts sample_bearer) sample_resolver
       sample_dispatch 10 (sample_poll False 0)"

lemma sample_call_runs:
  "sample_call [sample_poll False 1, sample_poll False 3] =
    ([ResolveCredential \<lparr>cs_value = ''main''\<rparr>,
      Dispatch (sample_prepared [(''authorization'', ''Bearer s'')]) 7], Some (Ok 8))"
  by code_simp

lemma sample_call_waits:
  "sample_call [sample_poll False 1] = ([ResolveCredential \<lparr>cs_value = ''main''\<rparr>], None)"
  by code_simp

theorem buffered_call_effects_witness:
  "\<exists>prepared secret. fst (sample_call [sample_poll False 1, sample_poll False 3]) =
      [ResolveCredential (pb_credential_slot sample_binding), Dispatch prepared 7] \<and>
    assemble (sample_parts sample_bearer)
      \<lparr>su_host = ''h'', su_path = ''/v1/chat'', su_query = None\<rparr> secret = Ok prepared"
proof -
  have d: "parts_destination sample_url_crate (sample_parts sample_bearer) sample_binding =
      Ok \<lparr>su_host = ''h'', su_path = ''/v1/chat'', su_query = None\<rparr>"
    by code_simp
  from buffered_call_effects [OF sample_call_runs [unfolded sample_call_def]] show ?thesis
    unfolding sample_call_runs d by (auto simp: sample_binding_def)
qed

lemma credential_guards_Err:
  assumes "credential_guards U binding p expired start = Err e"
  shows "e \<in> {Preparation UrlOutsideBinding, Preparation CredentialBindingMismatch} \<or>
    e = Preparation PreparationCancelled \<and> po_cancelled start \<or>
    e = Preparation DeadlineExceeded \<and> expired (po_now start)"
proof (cases "parts_destination U p binding")
  case (Err f)
  then have "f = UrlOutsideBinding" unfolding parts_destination_def by (rule resolve_Err)
  with Err assms show ?thesis by (simp add: credential_guards_def)
qed (use assms in \<open>auto simp: credential_guards_def split: if_splits\<close>)

lemma assemble_Err: "assemble p destination secret = Err e \<Longrightarrow> e = UnsupportedAuthShape"
  by (cases "pt_auth p") (auto simp: assemble_def auth_bindings_def split: if_splits)

lemma credential_first_Err:
  assumes "credential_first p destination resolve k = Some (Err e)"
  shows "e = Preparation CredentialResolutionFailed \<and>
      resolve (auth_credential_slot (pt_auth p)) k = Some (Err ()) \<or>
    e = Preparation UnsupportedAuthShape"
proof -
  obtain r where r: "resolve (auth_credential_slot (pt_auth p)) k = Some r"
      "and_then (map_err (\<lambda>_. Preparation CredentialResolutionFailed) r)
         (\<lambda>secret. map_err Preparation (assemble p destination secret)) = Err e"
    using assms by (auto simp: credential_first_def)
  show ?thesis
  proof (cases r)
    case (Ok secret)
    with r show ?thesis by (cases "assemble p destination secret") (auto dest: assemble_Err)
  qed (use r in simp)
qed

lemma credential_failed:
  assumes "failed_because (credential_block p destination resolve dispatch deadline) True
      (Preparation PreparationCancelled) (Preparation DeadlineExceeded) polls e"
  shows "e = Preparation PreparationCancelled \<and> (\<exists>q \<in> set polls. po_cancelled q) \<or>
    e = Preparation DeadlineExceeded \<and> (\<exists>q \<in> set polls. deadline \<le> po_now q \<or> po_elapsed q) \<or>
    e = Preparation CredentialResolutionFailed \<and>
      (\<exists>k. resolve (auth_credential_slot (pt_auth p)) k = Some (Err ())) \<or>
    e = Preparation UnsupportedAuthShape \<or>
    (\<exists>t x k. e = Transport t \<and> dispatch (fst x) (snd x) k = Some (Err t) \<and>
      dispatchable p destination resolve deadline polls x)"
  using assms unfolding failed_because_def credential_block_sel credential_reached
proof (elim disjE exE conjE bexE)
  fix k assume "credential_first p destination resolve k = Some (Err e)"
  from credential_first_Err [OF this] show ?thesis by auto
next
  fix x k assume e: "map_option (map_err Transport) (dispatch (fst x) (snd x) k) = Some (Err e)"
      and "dispatchable p destination resolve deadline polls x"
  moreover obtain t where "e = Transport t" "dispatch (fst x) (snd x) k = Some (Err t)"
    using e by (cases "the (dispatch (fst x) (snd x) k)") auto
  ultimately show ?thesis by blast
qed (auto simp: remaining_timeout_def split: if_splits)





text \<open>
  Claim C29. A buffered call returns. It does so as soon as one of its polls sees the cancellation
  or the fired timer, whatever the resolver and the transport do; and without either, once it has
  been polled often enough for the resolver's and the transport's futures to complete.
\<close>

theorem buffered_call_returns:
  assumes "(\<exists>q \<in> set polls. po_cancelled q \<or> po_elapsed q) \<or>
    (\<exists>n m. resolve (auth_credential_slot (pt_auth p)) n \<noteq> None \<and>
       (\<forall>prepared remaining. \<exists>j \<le> m. dispatch prepared remaining j \<noteq> None) \<and> n + m < length polls)"
  shows "\<exists>r. snd (execute_buffered U binding p resolve dispatch deadline start polls) = Some r"
proof -
  have "snd (execute_buffered U binding p resolve dispatch deadline start polls) \<noteq> None"
    using assms
  proof (elim disjE exE conjE bexE)
    fix n m
    assume "resolve (auth_credential_slot (pt_auth p)) n \<noteq> None"
      "\<forall>prepared remaining. \<exists>j \<le> m. dispatch prepared remaining j \<noteq> None" "n + m < length polls"
    then show ?thesis
      by (intro buffered.returns_when_ready [where n = n and m = m])
        (simp_all add: credential_block_sel credential_first_def)
  qed (use buffered.returns_when_interrupted in blast)+
  then show ?thesis by simp
qed

theorem buffered_call_returns_witness:
  "\<exists>r. snd (sample_call [sample_poll False 1, sample_poll True 3]) = Some r"
  unfolding sample_call_def by (rule buffered_call_returns) (simp add: sample_poll_def)

text \<open>
  Cancellation has precedence, in the credential flow and in the signed flow alike: if a
  call is still pending after some polls and the next poll sees the cancellation, the call ends
  there as cancelled, asking nothing more of the host, no matter what that poll would have found
  ready, and whatever polls would follow.
\<close>

theorem cancellation_has_precedence:
  assumes "po_cancelled q"
  shows "(execute_buffered U binding p resolve dispatch deadline start polls =
        (calls, None :: ('r, 's provider_call_error) result option) \<longrightarrow>
      execute_buffered U binding p resolve dispatch deadline start (polls @ q # later) =
        (calls, Some (Err (Preparation PreparationCancelled) :: ('r, 's provider_call_error) result))) \<and>
    (execute_signed_buffered U binding p finalize dispatch deadline start polls =
        (calls, None :: ('r, 's provider_call_error) result option) \<longrightarrow>
      execute_signed_buffered U binding p finalize dispatch deadline start (polls @ q # later) =
        (calls, Some (Err (Preparation PreparationCancelled) :: ('r, 's provider_call_error) result)))"
  using assms by (intro conjI impI buffered.cancellation_wins signed.cancellation_wins)

theorem cancellation_has_precedence_witness:
  "sample_call [sample_poll False 1, sample_poll True 3] =
    ([ResolveCredential \<lparr>cs_value = ''main''\<rparr>], Some (Err (Preparation PreparationCancelled)))"
proof -
  have "po_cancelled (sample_poll True 3)" by (simp add: sample_poll_def)
  from cancellation_has_precedence [OF this] sample_call_waits show ?thesis
    unfolding sample_call_def by fastforce
qed

section \<open>What a signed call does\<close>

lemma prepare_signed_Ok:
  "prepare_signed U binding p = Ok (destination, emits) \<longleftrightarrow>
    parts_destination U p binding = Ok destination \<and>
    pt_auth p = HostSigned (bearer_auth_new (pb_credential_slot binding)) emits"
  unfolding prepare_signed_def and_then_Ok_iff
  by (cases "pt_auth p") (auto simp: bearer_auth_new_def)

lemma signed_block_sel:
  "ta_first_calls (signed_block p destination emits finalize dispatch deadline) =
    signed_first_calls p destination emits"
  "ta_first (signed_block p destination emits finalize dispatch deadline) =
    signed_first p destination finalize emits"
  "ta_between (signed_block p destination emits finalize dispatch deadline) now prepared =
    and_then (remaining_timeout deadline now) (\<lambda>remaining. Ok (prepared, remaining))"
  "ta_second_call (signed_block p destination emits finalize dispatch deadline) x = Dispatch (fst x) (snd x)"
  "ta_second (signed_block p destination emits finalize dispatch deadline) x k =
    map_option (map_err Transport) (dispatch (fst x) (snd x) k)"
  by (auto simp: signed_block_def split: prod.splits)

text \<open>The request as the finalizer sees it: everything that will be sent except the signature.\<close>

definition unsigned_request :: "request_parts \<Rightarrow> 'u \<Rightarrow> 'u prepared_request" where
  "unsigned_request p destination =
     \<lparr>pr_method = pt_method p, pr_url = destination, pr_headers = pt_headers p,
      pr_body = pt_body p, pr_auth_headers = [], pr_user_agent = pt_user_agent p\<rparr>"

lemma assemble_signed:
  "pt_auth p = HostSigned slot emits \<Longrightarrow> assemble_unsigned p destination = Ok (unsigned_request p destination)"
  by (simp add: assemble_unsigned_def unsigned_request_def)

lemma signed_first_Ok:
  assumes "pt_auth p = HostSigned (bearer_auth_new slot) emits"
  shows "signed_first p destination finalize emits k = Some (Ok prepared) \<longleftrightarrow>
    (\<exists>emitted bound.
       finalize (prepared_finalize_view (unsigned_request p destination) emits slot) k = Some (Ok emitted) \<and>
       diff_finalized emits emitted = Ok bound \<and>
       prepared = bind_finalized (unsigned_request p destination) bound)"
  using assms
  by (auto simp: signed_first_def assemble_signed finalize_into_def and_then_Ok_iff map_err_Ok
      bearer_auth_new_def)

text \<open>
  Claim C28. A host-signed call never resolves a credential. It asks the finalizer once, showing it
  the finished request with the binding's slot and the declared headers, and only for a host-signed
  request whose slot is the binding's, not cancelled and before its deadline. At most one request
  is then dispatched, within the deadline: the very request the finalizer was shown, with exactly
  the headers that its output yields when it matches the declaration.
\<close>

theorem signed_call_effects:
  assumes "execute_signed_buffered U binding p finalize dispatch deadline start polls = (calls, r)"
  shows "calls = [] \<or>
    (\<exists>destination emits. let unsigned = unsigned_request p destination;
         view = prepared_finalize_view unsigned emits (pb_credential_slot binding) in
       parts_destination U p binding = Ok destination \<and>
       pt_auth p = HostSigned (bearer_auth_new (pb_credential_slot binding)) emits \<and>
       \<not> po_cancelled start \<and> po_now start < deadline \<and>
       (calls = [FinalizeRequest view] \<or>
        (\<exists>k emitted bound. \<exists>q \<in> set polls.
           calls = [FinalizeRequest view, Dispatch (bind_finalized unsigned bound) (deadline - po_now q)] \<and>
           finalize view k = Some (Ok emitted) \<and> diff_finalized emits emitted = Ok bound \<and>
           \<not> po_cancelled q \<and> po_now q < deadline)))"
proof (cases "calls = []")
  case False
  with signed.calls_in_order [OF assms] obtain d where
    d: "signed_guards U binding p ((\<le>) deadline) start = (Ok d :: (_, 'c provider_call_error) result)"
      and calls_d: "let b = ((case d of (destination, emits) \<Rightarrow>
          signed_block p destination emits finalize dispatch deadline) ::
            (_, _, _, 'b, 'c provider_call_error) two_awaits) in
        calls = ta_first_calls b \<or>
        (\<exists>x. calls = ta_first_calls b @ [ta_second_call b x] \<and> reached b polls x)"
    unfolding Let_def by blast
  obtain destination emits where split: "d = (destination, emits)" by (cases d)
  from d have guards: "parts_destination U p binding = Ok destination" "\<not> po_cancelled start" "po_now start < deadline"
      and auth: "pt_auth p = HostSigned (bearer_auth_new (pb_credential_slot binding)) emits"
    unfolding signed_guards_Ok split prepare_signed_Ok by auto
  from calls_d have calls: "calls = signed_first_calls p destination emits \<or>
        (\<exists>x. calls = signed_first_calls p destination emits @ [Dispatch (fst x) (snd x)] \<and>
          reached (signed_block p destination emits finalize dispatch deadline ::
            (_, _, _, 'b, 'c provider_call_error) two_awaits) polls x)"
    unfolding split by (simp only: Let_def prod.case signed_block_sel)
  let ?u = "unsigned_request p destination"
  let ?v = "prepared_finalize_view ?u emits (pb_credential_slot binding)"
  have first: "signed_first_calls p destination emits = [FinalizeRequest ?v]"
    using auth by (simp add: signed_first_calls_def assemble_signed bearer_auth_new_def)
  have sent: "\<exists>k emitted bound. \<exists>q \<in> set polls. x = (bind_finalized ?u bound, deadline - po_now q) \<and>
      finalize ?v k = Some (Ok emitted) \<and> diff_finalized emits emitted = Ok bound \<and>
      \<not> po_cancelled q \<and> po_now q < deadline"
    if "reached (signed_block p destination emits finalize dispatch deadline ::
        (_, _, _, 'b, 'c provider_call_error) two_awaits) polls x" for x
    using that unfolding reached_def signed_block_sel signed_first_Ok [OF auth] and_then_Ok_iff
      remaining_timeout_Ok by blast
  have "calls = [FinalizeRequest ?v] \<or>
      (\<exists>k emitted bound. \<exists>q \<in> set polls.
         calls = [FinalizeRequest ?v, Dispatch (bind_finalized ?u bound) (deadline - po_now q)] \<and>
         finalize ?v k = Some (Ok emitted) \<and> diff_finalized emits emitted = Ok bound \<and>
         \<not> po_cancelled q \<and> po_now q < deadline)"
    using calls sent unfolding first by fastforce
  with guards auth show ?thesis unfolding Let_def by blast
qed simp

definition sample_signer :: "sample_url request_finalizer" where
  "sample_signer view k = Some (Ok [(Authorization, ''sig'')])"

definition sample_signed :: provider_auth where
  "sample_signed = HostSigned (bearer_auth_new \<lparr>cs_value = ''main''\<rparr>) \<lparr>ss_headers = [Authorization]\<rparr>"

lemma sample_signed_runs:
  "execute_signed_buffered sample_url_crate sample_binding (sample_parts sample_signed) sample_signer
      sample_dispatch 10 (sample_poll False 0) [sample_poll False 4] =
    ([FinalizeRequest (prepared_finalize_view (sample_prepared []) \<lparr>ss_headers = [Authorization]\<rparr> \<lparr>cs_value = ''main''\<rparr>),
      Dispatch (sample_prepared [(''authorization'', ''sig'')]) 6], Some (Ok 7 :: (_, nat provider_call_error) result))"
  by code_simp

theorem signed_call_effects_witness:
  "\<exists>emitted bound. sample_prepared [(''authorization'', ''sig'')] = bind_finalized (sample_prepared []) bound \<and>
     diff_finalized \<lparr>ss_headers = [Authorization]\<rparr> emitted = Ok bound"
proof -
  let ?p = "sample_parts sample_signed"
  have d: "parts_destination sample_url_crate ?p sample_binding = Ok (pr_url (sample_prepared []))"
    by code_simp
  have u: "unsigned_request ?p (pr_url (sample_prepared [])) = sample_prepared []"
    by (simp add: unsigned_request_def sample_parts_def sample_prepared_def)
  have a: "pt_auth ?p = HostSigned (bearer_auth_new slot) emits \<Longrightarrow> emits = \<lparr>ss_headers = [Authorization]\<rparr>"
    for slot emits
    by (simp add: sample_parts_def sample_signed_def)
  from signed_call_effects [OF sample_signed_runs] obtain destination emits emitted bound where
    "parts_destination sample_url_crate ?p sample_binding = Ok destination"
    "pt_auth ?p = HostSigned (bearer_auth_new (pb_credential_slot sample_binding)) emits"
    "sample_prepared [(''authorization'', ''sig'')] = bind_finalized (unsigned_request ?p destination) bound"
    "diff_finalized emits emitted = Ok bound"
    unfolding Let_def list.inject list.distinct provider_effect.inject by blast
  with d u a show ?thesis by auto
qed

text \<open>
  A host-signed request handed to an unsigned entry point is refused, but only after its slot was
  resolved: the flow resolves before it assembles.
\<close>

lemma unsigned_flow_resolves_host_signed_slot:
  "execute_buffered sample_url_crate sample_binding (sample_parts sample_signed) sample_resolver
      sample_dispatch 10 (sample_poll False 0) [sample_poll False 1, sample_poll False 3] =
    ([ResolveCredential \<lparr>cs_value = ''main''\<rparr>],
     Some (Err (Preparation UnsupportedAuthShape) :: (_, nat provider_call_error) result))"
  by code_simp

end
