(* ===== verification/Streaming_Call.thy ===== *)
theory Streaming_Call
  imports Provider_Call
begin

text \<open>
  The streaming calls of \<open>south-core/src/lib.rs\<close>: opening a stream up to its head, in the credential
  and in the host-signed arm, and \<open>StreamingCallV1::next_chunk\<close>, the pull that delivers the body.

  The byte source belongs to the transport: it is a state, with the future of one pull on it. A
  pull that is dropped before it completes leaves the source as it was, as the source's contract
  requires. The second component of a pull's result says whether the source was asked at all.
\<close>

section \<open>Opening\<close>

record ('s, 'b) opened_byte_stream =
  ob_head :: "'s response_head"
  ob_source :: 'b

definition opened_try_new ::
  "('s \<Rightarrow> bool) \<Rightarrow> 's response_head \<Rightarrow> 'b \<Rightarrow> (('s, 'b) opened_byte_stream, transport_error) result" where
  "opened_try_new is_success head source =
     (if \<not> is_success (rh_status head) then Err RequestFailed
      else Ok \<lparr>ob_head = head, ob_source = source\<rparr>)"

datatype 's stream_open_error = OpenRejected "'s stream_rejected" | OpenTransport transport_error

fun open_error :: "'s stream_open_error \<Rightarrow> 's provider_call_error" where
  "open_error (OpenRejected rejected) = UpstreamRejected rejected"
| "open_error (OpenTransport e) = Transport e"

type_synonym ('u, 's, 'b) streaming_transport =
  "'u prepared_request \<Rightarrow> (('s, 'b) opened_byte_stream, 's stream_open_error) result future"

record ('s, 'b) streaming_call =
  st_head :: "'s response_head"
  st_source :: 'b
  st_deadline :: "nat option"
  st_finished :: bool

definition streaming_call_of :: "nat option \<Rightarrow> ('s, 'b) opened_byte_stream \<Rightarrow> ('s, 'b) streaming_call" where
  "streaming_call_of deadline opened =
     \<lparr>st_head = ob_head opened, st_source = ob_source opened, st_deadline = deadline, st_finished = False\<rparr>"

text \<open>\<open>deadline.is_some_and(|deadline| Instant::now() >= deadline)\<close>.\<close>

definition expired :: "nat option \<Rightarrow> nat \<Rightarrow> bool" where
  "expired deadline now = (case deadline of None \<Rightarrow> False | Some d \<Rightarrow> d \<le> now)"

definition open_block ::
  "request_parts \<Rightarrow> 'u \<Rightarrow> credential_resolver \<Rightarrow> ('u, 's, 'b) streaming_transport
    \<Rightarrow> ('u provider_effect, 'u prepared_request, 'u prepared_request, ('s, 'b) opened_byte_stream,
        's provider_call_error) two_awaits" where
  "open_block p destination resolve transport =
     \<lparr>ta_first_calls = [ResolveCredential (auth_credential_slot (pt_auth p))],
      ta_first = credential_first p destination resolve,
      ta_between = (\<lambda>_. Ok),
      ta_second_call = OpenStream,
      ta_second = (\<lambda>prepared k. map_option (map_err open_error) (transport prepared k))\<rparr>"

definition open_streaming_provider_call_v1 ::
  "'u url_crate \<Rightarrow> 'u provider_binding \<Rightarrow> json_post_request \<Rightarrow> credential_resolver
    \<Rightarrow> ('u, 's, 'b) streaming_transport \<Rightarrow> nat option \<Rightarrow> poll \<Rightarrow> poll list
    \<Rightarrow> ('u, 's, ('s, 'b) streaming_call) provider_run" where
  "open_streaming_provider_call_v1 U binding request resolve transport deadline start polls =
     (let p = json_parts request in
      case parts_destination U p binding of
        Err e \<Rightarrow> ([], Some (Err (Preparation e)))
      | Ok destination \<Rightarrow>
          if auth_credential_slot (pt_auth p) \<noteq> pb_credential_slot binding
          then ([], Some (Err (Preparation CredentialBindingMismatch)))
          else if po_cancelled start then ([], Some (Err (Preparation PreparationCancelled)))
          else if expired deadline (po_now start) then ([], Some (Err (Preparation DeadlineExceeded)))
          else settle (streaming_call_of deadline)
                 (race (open_block p destination resolve transport) (deadline \<noteq> None)
                    (Preparation PreparationCancelled) (Preparation DeadlineExceeded) (AwaitFirst 0) polls))"

definition signed_open_block ::
  "request_parts \<Rightarrow> 'u \<Rightarrow> signed_header_set \<Rightarrow> 'u request_finalizer \<Rightarrow> ('u, 's, 'b) streaming_transport
    \<Rightarrow> ('u provider_effect, 'u prepared_request, 'u prepared_request, ('s, 'b) opened_byte_stream,
        's provider_call_error) two_awaits" where
  "signed_open_block p destination emits finalize transport =
     \<lparr>ta_first_calls = signed_first_calls p destination emits,
      ta_first = signed_first p destination finalize emits,
      ta_between = (\<lambda>_. Ok),
      ta_second_call = OpenStream,
      ta_second = (\<lambda>prepared k. map_option (map_err open_error) (transport prepared k))\<rparr>"

definition open_streaming_signed_provider_call_v1 ::
  "'u url_crate \<Rightarrow> 'u provider_binding \<Rightarrow> json_post_request \<Rightarrow> 'u request_finalizer
    \<Rightarrow> ('u, 's, 'b) streaming_transport \<Rightarrow> nat option \<Rightarrow> poll \<Rightarrow> poll list
    \<Rightarrow> ('u, 's, ('s, 'b) streaming_call) provider_run" where
  "open_streaming_signed_provider_call_v1 U binding request finalize transport deadline start polls =
     (let p = json_parts request in
      case prepare_signed U binding p of
        Err e \<Rightarrow> ([], Some (Err (Preparation e)))
      | Ok (destination, emits) \<Rightarrow>
          if po_cancelled start then ([], Some (Err (Preparation PreparationCancelled)))
          else if expired deadline (po_now start) then ([], Some (Err (Preparation DeadlineExceeded)))
          else settle (streaming_call_of deadline)
                 (race (signed_open_block p destination emits finalize transport) (deadline \<noteq> None)
                    (Preparation PreparationCancelled) (Preparation DeadlineExceeded) (AwaitFirst 0) polls))"

interpretation stream_open: guarded_flow
  "open_streaming_provider_call_v1 U binding request resolve transport deadline"
  "credential_guards U binding (json_parts request) (expired deadline)"
  "\<lambda>destination. open_block (json_parts request) destination resolve transport" "streaming_call_of deadline"
  "deadline \<noteq> None" "Preparation PreparationCancelled" "Preparation DeadlineExceeded"
  for U binding request resolve transport deadline
  by unfold_locales
    (auto simp: open_streaming_provider_call_v1_def credential_guards_def Let_def split: result.splits if_splits)

interpretation signed_stream_open: guarded_flow
  "open_streaming_signed_provider_call_v1 U binding request finalize transport deadline"
  "signed_guards U binding (json_parts request) (expired deadline)"
  "\<lambda>(destination, emits). signed_open_block (json_parts request) destination emits finalize transport"
  "streaming_call_of deadline" "deadline \<noteq> None"
  "Preparation PreparationCancelled" "Preparation DeadlineExceeded"
  for U binding request finalize transport deadline
  by unfold_locales
    (auto simp: open_streaming_signed_provider_call_v1_def signed_guards_def Let_def split: result.splits if_splits)

section \<open>Pulling\<close>

type_synonym pull_outcome = "(stream_chunk, stream_read_error) result option"
type_synonym 'b byte_source = "'b \<Rightarrow> ('b \<times> pull_outcome) future"

fun pull_race :: "bool \<Rightarrow> ('b \<times> pull_outcome) future \<Rightarrow> 'b \<Rightarrow> nat \<Rightarrow> poll list \<Rightarrow> ('b \<times> pull_outcome) option" where
  "pull_race timed pull source k [] = None"
| "pull_race timed pull source k (p # ps) =
     (if po_cancelled p then Some (source, Some (Err StreamCancelled))
      else
        case pull k of
          Some answer \<Rightarrow> Some answer
        | None \<Rightarrow>
            if timed \<and> po_elapsed p then Some (source, Some (Err StreamDeadlineExceeded))
            else pull_race timed pull source (Suc k) ps)"

definition next_chunk ::
  "'b byte_source \<Rightarrow> ('s, 'b) streaming_call \<Rightarrow> poll \<Rightarrow> poll list
    \<Rightarrow> ('s, 'b) streaming_call \<times> bool \<times> pull_outcome option" where
  "next_chunk pull c start polls =
     (if st_finished c then (c, False, Some None)
      else if po_cancelled start
      then (c\<lparr>st_finished := True\<rparr>, False, Some (Some (Err StreamCancelled)))
      else if expired (st_deadline c) (po_now start)
      then (c\<lparr>st_finished := True\<rparr>, False, Some (Some (Err StreamDeadlineExceeded)))
      else
        case pull_race (st_deadline c \<noteq> None) (pull (st_source c)) (st_source c) 0 polls of
          None \<Rightarrow> (c, True, None)
        | Some (source, outcome) \<Rightarrow>
            (case outcome of
               Some (Ok _) \<Rightarrow> (c\<lparr>st_source := source\<rparr>, True, Some outcome)
             | _ \<Rightarrow> (c\<lparr>st_source := source, st_finished := True\<rparr>, True, Some outcome)))"

section \<open>Runs of a stream\<close>

text \<open>
  A caller pulls any number of times, each pull polled as it likes and possibly dropped. A run
  collects, pull by pull, whether the source was asked and what the pull returned.
\<close>

inductive stream_run ::
  "'b byte_source \<Rightarrow> ('s, 'b) streaming_call \<Rightarrow> (bool \<times> pull_outcome option) list \<Rightarrow> ('s, 'b) streaming_call \<Rightarrow> bool"
  for pull :: "'b byte_source" and c :: "('s, 'b) streaming_call" where
  run_open: "stream_run pull c [] c"
| run_pull: "stream_run pull c es d \<Longrightarrow> next_chunk pull d start polls = (d', asked, outcome) \<Longrightarrow>
    stream_run pull c (es @ [(asked, outcome)]) d'"

text \<open>The chunks a source gives when it is pulled one after the other.\<close>

inductive source_gives :: "'b byte_source \<Rightarrow> 'b \<Rightarrow> stream_chunk list \<Rightarrow> 'b \<Rightarrow> bool"
  for pull :: "'b byte_source" and b :: 'b where
  gives_none: "source_gives pull b [] b"
| gives_chunk: "source_gives pull b chunks b' \<Longrightarrow> pull b' k = Some (b'', Some (Ok chunk)) \<Longrightarrow>
    source_gives pull b (chunks @ [chunk]) b''"

definition delivered :: "(bool \<times> pull_outcome option) list \<Rightarrow> stream_chunk list" where
  "delivered es = concat (map (\<lambda>(_, r). case r of Some (Some (Ok chunk)) \<Rightarrow> [chunk] | _ \<Rightarrow> []) es)"

lemma delivered_append [simp]: "delivered (xs @ ys) = delivered xs @ delivered ys"
  by (simp add: delivered_def)

lemma delivered_simps [simp]:
  "delivered [] = []"
  "delivered [(asked, None)] = []"
  "delivered [(asked, Some None)] = []"
  "delivered [(asked, Some (Some (Ok chunk)))] = [chunk]"
  "delivered [(asked, Some (Some (Err e)))] = []"
  by (simp_all add: delivered_def)

lemma pull_race_Ok:
  "pull_race timed pull source k ps = Some (source', Some (Ok chunk)) \<Longrightarrow>
    \<exists>j. pull j = Some (source', Some (Ok chunk))"
  by (induction ps arbitrary: k) (auto split: if_splits option.splits)

text \<open>What one pull can do: stay finished, be dropped, deliver a chunk of the source, or finish.\<close>

lemma next_chunk_cases:
  assumes "next_chunk pull d start polls = (d', asked, outcome)"
  obtains (over) "st_finished d" "d' = d" "\<not> asked" "outcome = Some None"
    | (dropped) "\<not> st_finished d" "d' = d" "outcome = None"
    | (chunk) chunk j where "\<not> st_finished d'" "st_head d' = st_head d" "st_deadline d' = st_deadline d"
        "\<not> st_finished d" "outcome = Some (Some (Ok chunk))" "pull (st_source d) j = Some (st_source d', Some (Ok chunk))"
    | (finished) x where "\<not> st_finished d" "st_finished d'" "st_head d' = st_head d" "st_deadline d' = st_deadline d"
        "outcome = Some x" "\<forall>chunk. x \<noteq> Some (Ok chunk)"
proof (cases "st_finished d \<or> po_cancelled start \<or> expired (st_deadline d) (po_now start)")
  case True
  with assms over finished show ?thesis by (auto simp: next_chunk_def split: if_splits)
next
  case False
  show ?thesis
  proof (cases "pull_race (st_deadline d \<noteq> None) (pull (st_source d)) (st_source d) 0 polls")
    case None
    with assms False dropped show ?thesis by (auto simp: next_chunk_def)
  next
    case (Some answer)
    obtain source x where answer: "answer = (source, x)" by (cases answer)
    show ?thesis
    proof (cases "\<exists>chunk. x = Some (Ok chunk)")
      case True
      then obtain y where x: "x = Some (Ok y)" by blast
      obtain j where j: "pull (st_source d) j = Some (source, Some (Ok y))"
        using pull_race_Ok [OF Some [unfolded answer x]] by blast
      have "d' = d\<lparr>st_source := source\<rparr>" "outcome = Some (Some (Ok y))"
        using assms False Some answer x by (auto simp: next_chunk_def)
      with j False show ?thesis by (intro chunk [of y j]) simp_all
    next
      case other: False
      then have "d' = d\<lparr>st_source := source, st_finished := True\<rparr>" "outcome = Some x"
        using assms False Some answer
        by (auto simp: next_chunk_def split: option.splits result.splits)
      with finished other False show ?thesis by auto
    qed
  qed
qed

definition stream_shape ::
  "'b byte_source \<Rightarrow> ('s, 'b) streaming_call \<Rightarrow> (bool \<times> pull_outcome option) list \<Rightarrow> ('s, 'b) streaming_call \<Rightarrow> bool" where
  "stream_shape pull c es d \<longleftrightarrow>
     (\<exists>pre post. es = pre @ post \<and>
        (\<forall>e \<in> set pre. snd e = None \<or> (\<exists>chunk. snd e = Some (Some (Ok chunk)))) \<and>
        (post = [] \<and> \<not> st_finished d \<and> source_gives pull (st_source c) (delivered es) (st_source d) \<or>
         (\<exists>asked x n b. post = (asked, Some x) # replicate n (False, Some None) \<and>
            (\<forall>chunk. x \<noteq> Some (Ok chunk)) \<and> st_finished d \<and>
            source_gives pull (st_source c) (delivered es) b)))"

lemma delivered_terminal: "\<forall>chunk. x \<noteq> Some (Ok chunk) \<Longrightarrow> delivered [(asked, Some x)] = []"
  by (cases x; cases "the x") auto

lemma stream_run_shape:
  assumes "stream_run pull c es d" and "\<not> st_finished c"
  shows "st_head d = st_head c \<and> st_deadline d = st_deadline c \<and> stream_shape pull c es d"
  using assms
proof (induction rule: stream_run.induct)
  case run_open
  then show ?case by (auto simp: stream_shape_def intro: source_gives.intros)
next
  case (run_pull es d start polls d' asked outcome)
  then have head: "st_head d = st_head c" "st_deadline d = st_deadline c" and shape: "stream_shape pull c es d"
    by auto
  from run_pull.hyps(2) show ?case
  proof (cases rule: next_chunk_cases)
    case over
    with shape obtain pre first x n b where pre: "es = pre @ (first, Some x) # replicate n (False, Some None)"
        "\<forall>e \<in> set pre. snd e = None \<or> (\<exists>chunk. snd e = Some (Some (Ok chunk)))"
        "\<forall>chunk. x \<noteq> Some (Ok chunk)" "source_gives pull (st_source c) (delivered es) b"
      by (auto simp: stream_shape_def)
    have "es @ [(asked, outcome)] = pre @ (first, Some x) # replicate (Suc n) (False, Some None)"
      using pre(1) over by (simp add: replicate_append_same)
    moreover have "delivered (es @ [(asked, outcome)]) = delivered es" using over by simp
    ultimately show ?thesis using pre over head unfolding stream_shape_def by metis
  next
    case dropped
    with shape have "source_gives pull (st_source c) (delivered es) (st_source d)"
        "\<forall>e \<in> set es. snd e = None \<or> (\<exists>chunk. snd e = Some (Some (Ok chunk)))"
      by (auto simp: stream_shape_def)
    with dropped head show ?thesis
      unfolding stream_shape_def by (intro conjI exI [of _ "es @ [(asked, outcome)]"] exI [of _ "[]"]) auto
  next
    case (chunk ch j)
    with shape have g: "source_gives pull (st_source c) (delivered es) (st_source d)"
        and es: "\<forall>e \<in> set es. snd e = None \<or> (\<exists>chunk. snd e = Some (Some (Ok chunk)))"
      by (auto simp: stream_shape_def)
    from gives_chunk [OF g chunk(6)] es chunk head show ?thesis
      unfolding stream_shape_def by (intro conjI exI [of _ "es @ [(asked, outcome)]"] exI [of _ "[]"]) auto
  next
    case (finished x)
    with shape have g: "source_gives pull (st_source c) (delivered es) (st_source d)"
        and es: "\<forall>e \<in> set es. snd e = None \<or> (\<exists>chunk. snd e = Some (Some (Ok chunk)))"
      by (auto simp: stream_shape_def)
    have "[(asked, outcome)] = (asked, Some x) # replicate 0 (False, Some None)" using finished by simp
    moreover have "delivered (es @ [(asked, outcome)]) = delivered es"
      using finished delivered_terminal by simp
    ultimately show ?thesis using g es finished head unfolding stream_shape_def by metis
  qed
qed


text \<open>
  Claim C23. However a stream is pulled, its results are chunks first, then at most one end, then
  nothing. The pulls deliver exactly the chunks the byte source gives, in its order, none lost or
  repeated even when pulls are dropped half-way; the first pull that returns anything else, an
  error or the end of the stream, is the last that returns anything but \<open>None\<close>, and after it the
  source is never asked again. The head and the deadline never change.
\<close>

theorem stream_delivers_then_stops:
  assumes "stream_run pull (streaming_call_of deadline opened) es d"
  shows "st_head d = ob_head opened \<and> st_deadline d = deadline \<and>
    (\<exists>pre post. es = pre @ post \<and>
       (\<forall>e \<in> set pre. snd e = None \<or> (\<exists>chunk. snd e = Some (Some (Ok chunk)))) \<and>
       (post = [] \<and> \<not> st_finished d \<and> source_gives pull (ob_source opened) (delivered es) (st_source d) \<or>
        (\<exists>asked x n b. post = (asked, Some x) # replicate n (False, Some None) \<and>
           (\<forall>chunk. x \<noteq> Some (Ok chunk)) \<and> st_finished d \<and>
           source_gives pull (ob_source opened) (delivered es) b)))"
  using stream_run_shape [OF assms] unfolding stream_shape_def by (simp add: streaming_call_of_def)

text \<open>A source with one chunk, then the end.\<close>

definition sample_source :: "bool byte_source" where
  "sample_source b k = (if b then Some (False, Some (Ok \<lparr>sc_bytes = ''x''\<rparr>)) else Some (b, None))"

definition sample_opened :: "(nat, bool) opened_byte_stream" where
  "sample_opened =
     \<lparr>ob_head = \<lparr>rh_status = 200, rh_content_type = None, rh_retry_after = None, rh_quota = default_values,
        rh_diagnostics = default_values, rh_transcript = default_transcript\<rparr>, ob_source = True\<rparr>"

theorem stream_delivers_then_stops_witness:
  "\<exists>d. stream_run sample_source (streaming_call_of None sample_opened)
      [(True, Some (Some (Ok \<lparr>sc_bytes = ''x''\<rparr>))), (True, Some None), (False, Some None)] d \<and>
    st_head d = ob_head sample_opened \<and> st_finished d"
proof -
  let ?c = "streaming_call_of None sample_opened"
  let ?p = "sample_poll False 0"
  have one: "next_chunk sample_source ?c ?p [?p] =
      (?c\<lparr>st_source := False\<rparr>, True, Some (Some (Ok \<lparr>sc_bytes = ''x''\<rparr>)))"
    by code_simp
  have two: "next_chunk sample_source (?c\<lparr>st_source := False\<rparr>) ?p [?p] =
      (?c\<lparr>st_source := False, st_finished := True\<rparr>, True, Some None)"
    by code_simp
  have three: "next_chunk sample_source (?c\<lparr>st_source := False, st_finished := True\<rparr>) ?p [?p] =
      (?c\<lparr>st_source := False, st_finished := True\<rparr>, False, Some None)"
    by code_simp
  have run: "stream_run sample_source ?c
      [(True, Some (Some (Ok \<lparr>sc_bytes = ''x''\<rparr>))), (True, Some None), (False, Some None)]
      (?c\<lparr>st_source := False, st_finished := True\<rparr>)"
    using run_pull [OF run_pull [OF run_pull [OF run_open one] two] three] by simp
  from stream_delivers_then_stops [OF run] run show ?thesis
    by (intro exI [of _ "?c\<lparr>st_source := False, st_finished := True\<rparr>"]) simp
qed

section \<open>Pulls end\<close>

lemma pull_race_ready:
  assumes "pull j \<noteq> None"
  shows "k \<le> j \<Longrightarrow> j < k + length ps \<Longrightarrow> pull_race timed pull source k ps \<noteq> None"
proof (induction ps arbitrary: k)
  case (Cons p ps)
  show ?case
  proof (cases "pull k")
    case None
    then have "Suc k \<le> j" using Cons.prems(1) assms by (metis le_neq_implies_less Suc_leI)
    then show ?thesis using Cons None by auto
  qed auto
qed simp

lemma pull_race_interrupted:
  "p \<in> set ps \<Longrightarrow> po_cancelled p \<or> timed \<and> po_elapsed p \<Longrightarrow> pull_race timed pull source k ps \<noteq> None"
  by (induction ps arbitrary: k) (auto split: option.splits)

lemma pull_race_cancelled:
  "pull_race timed pull source k ps = None \<Longrightarrow> po_cancelled p \<Longrightarrow>
    pull_race timed pull source k (ps @ p # qs) = Some (source, Some (Err StreamCancelled))"
  by (induction ps arbitrary: k) (auto split: if_splits option.splits)

text \<open>A pull that passes its entry checks is its race.\<close>

lemma next_chunk_race:
  assumes "\<not> st_finished c" "\<not> po_cancelled start" "\<not> expired (st_deadline c) (po_now start)"
  shows "snd (snd (next_chunk pull c start polls)) =
      map_option snd (pull_race (st_deadline c \<noteq> None) (pull (st_source c)) (st_source c) 0 polls)"
  using assms by (auto simp: next_chunk_def split: option.splits result.splits)

text \<open>
  A pull ends, and cancellation wins. On a stream that is not finished, a pull returns as
  soon as it, or one of its polls, sees the cancellation, as soon as the deadline, if there is one,
  has passed or fires the timer, and otherwise once it is polled often enough for the source to
  answer. If the cancellation is seen at its start, or by the first poll that could return
  anything, the pull is cancelled, the stream is finished and the source is left as it was.
\<close>

theorem pull_returns:
  assumes "\<not> st_finished c"
  shows "(po_cancelled start \<or> expired (st_deadline c) (po_now start) \<or>
      (\<exists>q \<in> set polls. po_cancelled q \<or> st_deadline c \<noteq> None \<and> po_elapsed q) \<or>
      (\<exists>j < length polls. pull (st_source c) j \<noteq> None) \<longrightarrow>
      snd (snd (next_chunk pull c start polls)) \<noteq> None) \<and>
    (po_cancelled start \<longrightarrow> next_chunk pull c start polls =
      (c\<lparr>st_finished := True\<rparr>, False, Some (Some (Err StreamCancelled)))) \<and>
    (next_chunk pull c start polls = (c, asked, None) \<and> po_cancelled q \<longrightarrow>
      next_chunk pull c start (polls @ q # rest) =
        (c\<lparr>st_finished := True\<rparr>, True, Some (Some (Err StreamCancelled))))"
proof (intro conjI impI)
  assume ends: "po_cancelled start \<or> expired (st_deadline c) (po_now start) \<or>
      (\<exists>q \<in> set polls. po_cancelled q \<or> st_deadline c \<noteq> None \<and> po_elapsed q) \<or>
      (\<exists>j < length polls. pull (st_source c) j \<noteq> None)"
  show "snd (snd (next_chunk pull c start polls)) \<noteq> None"
  proof (cases "po_cancelled start \<or> expired (st_deadline c) (po_now start)")
    case True
    with assms show ?thesis by (auto simp: next_chunk_def)
  next
    case False
    let ?race = "pull_race (st_deadline c \<noteq> None) (pull (st_source c)) (st_source c) 0 polls"
    from False ends consider q where "q \<in> set polls" "po_cancelled q \<or> st_deadline c \<noteq> None \<and> po_elapsed q"
      | j where "j < length polls" "pull (st_source c) j \<noteq> None"
      by blast
    then have "?race \<noteq> None"
    proof cases
      case (1 q)
      then show ?thesis by (rule pull_race_interrupted)
    next
      case (2 j)
      then show ?thesis by (intro pull_race_ready [of _ j]) simp_all
    qed
    with False assms show ?thesis by (simp add: next_chunk_race)
  qed
next
  assume "po_cancelled start"
  with assms show "next_chunk pull c start polls =
      (c\<lparr>st_finished := True\<rparr>, False, Some (Some (Err StreamCancelled)))"
    by (simp add: next_chunk_def)
next
  assume pending: "next_chunk pull c start polls = (c, asked, None) \<and> po_cancelled q"
  then have start: "\<not> po_cancelled start" "\<not> expired (st_deadline c) (po_now start)"
    using assms by (auto simp: next_chunk_def split: if_splits)
  then have "pull_race (st_deadline c \<noteq> None) (pull (st_source c)) (st_source c) 0 polls = None"
    using pending assms next_chunk_race [OF assms start, of pull polls] by simp
  from pull_race_cancelled [OF this] pending start assms
  show "next_chunk pull c start (polls @ q # rest) =
      (c\<lparr>st_finished := True\<rparr>, True, Some (Some (Err StreamCancelled)))"
    by (simp add: next_chunk_def)
qed

theorem pull_returns_witness:
  "snd (snd (next_chunk sample_source (streaming_call_of None sample_opened) (sample_poll False 0)
      [sample_poll False 0])) \<noteq> None"
proof -
  have "\<not> st_finished (streaming_call_of None sample_opened)" by (simp add: streaming_call_of_def)
  moreover have "\<exists>j < length [sample_poll False 0].
      sample_source (st_source (streaming_call_of None sample_opened)) j \<noteq> None"
    by (auto simp: sample_source_def)
  ultimately show ?thesis by (blast dest: pull_returns)
qed

section \<open>What opening gives\<close>

lemma open_block_sel:
  "ta_first_calls (open_block p destination resolve transport) = [ResolveCredential (auth_credential_slot (pt_auth p))]"
  "ta_second_call (open_block p destination resolve transport) prepared = OpenStream prepared"
  "ta_second (open_block p destination resolve transport) prepared k =
    map_option (map_err open_error) (transport prepared k)"
  by (simp_all add: open_block_def)

text \<open>
  An opened stream is what the transport opened, and it is a success. When opening returns
  a stream, the binding's slot was resolved and one request opened, prepared from the resolver's
  secret for the resolved destination; the stream carries the head and the source of the transport's
  answer and the caller's deadline, starts unfinished, and its status is a success, given only that
  transports build their answers with \<open>OpenedByteStreamV1::try_new\<close>.
\<close>

theorem stream_opens_on_success:
  assumes "\<And>prepared k o'. transport prepared k = Some (Ok o') \<Longrightarrow>
      \<exists>head source. opened_try_new is_success head source = Ok o'"
    and "open_streaming_provider_call_v1 U binding request resolve transport deadline start polls =
      (calls, Some (Ok c))"
  shows "is_success (rh_status (st_head c)) \<and> \<not> st_finished c \<and> st_deadline c = deadline \<and>
    (\<exists>destination j secret prepared k opened.
       parts_destination U (json_parts request) binding = Ok destination \<and>
       calls = [ResolveCredential (pb_credential_slot binding), OpenStream prepared] \<and>
       resolve (pb_credential_slot binding) j = Some (Ok secret) \<and>
       assemble (json_parts request) destination secret = Ok prepared \<and>
       transport prepared k = Some (Ok opened) \<and>
       st_head c = ob_head opened \<and> st_source c = ob_source opened)"
proof -
  from stream_open.answer_of_second [OF assms(2), unfolded open_block_sel append_Cons append_Nil] obtain destination prepared opened k where
    guards: "credential_guards U binding (json_parts request) (expired deadline) start =
        (Ok destination :: (_, 'b provider_call_error) result)"
    and calls: "calls = [ResolveCredential (auth_credential_slot (pt_auth (json_parts request))), OpenStream prepared]"
    and reached: "reached (open_block (json_parts request) destination resolve transport) polls prepared"
    and opened: "map_option (map_err open_error) (transport prepared k) = Some (Ok opened)"
    and c: "c = streaming_call_of deadline opened"
    by blast
  from opened have t: "transport prepared k = Some (Ok opened)" by (auto simp: map_err_Ok)
  from assms(1) [OF t] have "is_success (rh_status (ob_head opened))"
    by (auto simp: opened_try_new_def split: if_splits)
  moreover from reached obtain j secret where
    "resolve (auth_credential_slot (pt_auth (json_parts request))) j = Some (Ok secret)"
    "assemble (json_parts request) destination secret = Ok prepared"
    by (auto simp: reached_def open_block_def credential_first_Ok)
  ultimately show ?thesis
    using guards calls c t unfolding credential_guards_Ok by (fastforce simp: streaming_call_of_def)
qed

definition sample_transport :: "(sample_url, nat, bool) streaming_transport" where
  "sample_transport prepared k = Some (Ok sample_opened)"

definition sample_post :: json_post_request where
  "sample_post =
     json_post_new \<lparr>rp_value = ''chat''\<rparr> \<lparr>sh_values = [], sh_secret_headers = dshs_none\<rparr> \<lparr>jb_value = ''{}''\<rparr> sample_bearer"

theorem stream_opens_on_success_witness:
  "\<exists>calls c. open_streaming_provider_call_v1 sample_url_crate sample_binding sample_post sample_resolver
      sample_transport None (sample_poll False 0) [sample_poll False 1, sample_poll False 2] =
        (calls, Some (Ok c)) \<and> rh_status (st_head c) = 200"
proof -
  obtain calls where run: "open_streaming_provider_call_v1 sample_url_crate sample_binding sample_post
      sample_resolver sample_transport None (sample_poll False 0) [sample_poll False 1, sample_poll False 2] =
      (calls, Some (Ok (streaming_call_of None sample_opened)))"
  proof
    show "open_streaming_provider_call_v1 sample_url_crate sample_binding sample_post
      sample_resolver sample_transport None (sample_poll False 0) [sample_poll False 1, sample_poll False 2] =
      ([ResolveCredential \<lparr>cs_value = ''main''\<rparr>, OpenStream ((sample_prepared [(''authorization'', ''Bearer s'')])
         \<lparr>pr_method := POST, pr_body := Some (JsonBody \<lparr>jb_value = ''{}''\<rparr>)\<rparr>)],
       Some (Ok (streaming_call_of None sample_opened)))"
      by code_simp
  qed
  have built: "\<exists>head source. opened_try_new (\<lambda>status. status = 200) head source = Ok o'"
    if "sample_transport prepared k = Some (Ok o')" for prepared k o'
    using that by (intro exI [of _ "ob_head sample_opened"] exI [of _ True])
      (auto simp: sample_transport_def opened_try_new_def sample_opened_def)
  from stream_opens_on_success [of sample_transport "\<lambda>status. status = 200", OF built run] run
  show ?thesis by auto
qed

end
