(* ===== verification/Raw_Call.thy ===== *)
theory Raw_Call
  imports Streaming_Call
begin

text \<open>
  The host prelude of \<open>south-core/src/raw.rs\<close>: raw calls as hosts hold them, strings not yet parsed,
  their parse into a binding and a request, the one-shot wrappers that parse and then call, and the
  two credential resolver adapters. The grammars of third-party crates that the contracts use are
  gathered in one record, passed to every parse.
\<close>

record ('u, 'j) grammars =
  gr_url :: "'u url_crate"
  gr_header_name :: "bytes \<Rightarrow> string option"
  gr_header_value :: "string \<Rightarrow> bool"
  gr_json :: "string \<Rightarrow> 'j option"
  gr_json_end :: "'j \<Rightarrow> bool"

section \<open>Raw calls\<close>

datatype raw_auth =
    RawBearer | RawHeaderSecret secret_header | RawBearerAndHeaderSecret secret_header
  | RawDeclaredHeaderSecret declared_secret_header

fun raw_declare :: "raw_auth \<Rightarrow> bearer_auth \<Rightarrow> provider_auth" where
  "raw_declare RawBearer slot = Bearer slot"
| "raw_declare (RawHeaderSecret header) slot = HeaderSecret header slot"
| "raw_declare (RawBearerAndHeaderSecret header) slot = BearerAndHeaderSecret header slot"
| "raw_declare (RawDeclaredHeaderSecret header) slot = DeclaredHeaderSecret header slot"

text \<open>The fields every raw call has; each shape adds its own.\<close>

record raw_call =
  rc_endpoint :: string
  rc_relative_path :: string
  rc_bound_slot :: string
  rc_requested_slot :: string
  rc_headers :: "(string \<times> string) list"
  rc_query :: "query_string option"
  rc_user_agent :: "user_agent option"

record raw_get_provider_call = raw_call +
  rg_auth :: raw_auth
  rg_secret_headers :: declared_secret_headers

record raw_provider_call = raw_get_provider_call +
  rj_body :: string

record raw_multipart_provider_call = raw_get_provider_call +
  rm_body :: bytes
  rm_boundary :: string

record raw_signed_provider_call = raw_call +
  rs_body :: string
  rs_emits :: signed_header_set

datatype raw_call_error =
    RawEndpoint contract_error | RawBoundSlot contract_error | RawRequestedSlot contract_error
  | RawRelativePath contract_error | RawBody contract_error | RawHeaders header_policy_error
  | RawBoundary contract_error | RawContentTypeHeader contract_error | RawAuth contract_error

fun raw_error_code :: "raw_call_error \<Rightarrow> string" where
  "raw_error_code (RawEndpoint e) = contract_code e"
| "raw_error_code (RawBoundSlot e) = contract_code e"
| "raw_error_code (RawRequestedSlot e) = contract_code e"
| "raw_error_code (RawRelativePath e) = contract_code e"
| "raw_error_code (RawBody e) = contract_code e"
| "raw_error_code (RawBoundary e) = contract_code e"
| "raw_error_code (RawContentTypeHeader e) = contract_code e"
| "raw_error_code (RawAuth e) = contract_code e"
| "raw_error_code (RawHeaders e) = header_policy_code e"

fun raw_error_field :: "raw_call_error \<Rightarrow> string" where
  "raw_error_field (RawEndpoint _) = ''endpoint''"
| "raw_error_field (RawBoundSlot _) = ''bound_slot''"
| "raw_error_field (RawRequestedSlot _) = ''requested_slot''"
| "raw_error_field (RawRelativePath _) = ''relative_path''"
| "raw_error_field (RawBody _) = ''body''"
| "raw_error_field (RawBoundary _) = ''boundary''"
| "raw_error_field (RawAuth _) = ''auth''"
| "raw_error_field (RawHeaders _) = ''headers''"
| "raw_error_field (RawContentTypeHeader _) = ''headers''"

fun check_declared :: "raw_auth \<Rightarrow> declared_secret_headers \<Rightarrow> (unit, raw_call_error) result" where
  "check_declared (RawDeclaredHeaderSecret header) secrets =
     (if \<not> dshs_contains secrets (dsh_as_str header) then Err (RawAuth UndeclaredSecretHeader) else Ok ())"
| "check_declared _ secrets = Ok ()"

section \<open>Parsing\<close>

record 'u parsed_raw_binding =
  pw_binding :: "'u provider_binding"
  pw_requested_slot :: credential_slot
  pw_relative_path :: relative_path

definition parse_raw_binding ::
  "('u, 'j) grammars \<Rightarrow> 'a raw_call_scheme \<Rightarrow> ('u parsed_raw_binding, raw_call_error) result" where
  "parse_raw_binding G raw =
     and_then (map_err RawEndpoint (provider_endpoint_parse (gr_url G) (rc_endpoint raw))) (\<lambda>endpoint.
     and_then (map_err RawBoundSlot (credential_slot_parse (rc_bound_slot raw))) (\<lambda>bound_slot.
     and_then (map_err RawRequestedSlot (credential_slot_parse (rc_requested_slot raw))) (\<lambda>requested_slot.
     and_then (map_err RawRelativePath (relative_path_parse (rc_relative_path raw))) (\<lambda>relative_path.
       Ok \<lparr>pw_binding = \<lparr>pb_endpoint = endpoint, pb_credential_slot = bound_slot\<rparr>,
           pw_requested_slot = requested_slot, pw_relative_path = relative_path\<rparr>))))"

definition parse_raw_headers ::
  "('u, 'j) grammars \<Rightarrow> 'a raw_call_scheme \<Rightarrow> declared_secret_headers \<Rightarrow> (safe_headers, raw_call_error) result" where
  "parse_raw_headers G raw secrets =
     map_err RawHeaders
       (sh_try_from_iter_with_secret_headers (gr_header_name G) (gr_header_value G) (rc_headers raw) secrets)"

record 'u parsed_raw_parts = "'u parsed_raw_binding" +
  pw_headers :: safe_headers
  pw_body :: json_body

definition parse_raw_parts ::
  "('u, 'j) grammars \<Rightarrow> 'a raw_call_scheme \<Rightarrow> declared_secret_headers \<Rightarrow> string
    \<Rightarrow> ('u parsed_raw_parts, raw_call_error) result" where
  "parse_raw_parts G raw secrets body_text =
     and_then (parse_raw_binding G raw) (\<lambda>parts.
     and_then (map_err RawBody (json_body_parse (gr_json G) (gr_json_end G) body_text)) (\<lambda>body.
     and_then (parse_raw_headers G raw secrets) (\<lambda>headers.
       Ok \<lparr>pw_binding = pw_binding parts, pw_requested_slot = pw_requested_slot parts,
           pw_relative_path = pw_relative_path parts, pw_headers = headers, pw_body = body\<rparr>)))"

definition finish_request ::
  "'a request_scheme \<Rightarrow> query_string option \<Rightarrow> user_agent option \<Rightarrow> 'a request_scheme" where
  "finish_request request query agent =
     (let request' = (case query of Some q \<Rightarrow> with_query request q | None \<Rightarrow> request)
      in case agent of Some a \<Rightarrow> with_user_agent request' a | None \<Rightarrow> request')"

definition parse_raw_call ::
  "('u, 'j) grammars \<Rightarrow> raw_provider_call \<Rightarrow> ('u provider_binding \<times> json_post_request, raw_call_error) result" where
  "parse_raw_call G raw =
     and_then (parse_raw_parts G raw (rg_secret_headers raw) (rj_body raw)) (\<lambda>parts.
     and_then (check_declared (rg_auth raw) (rg_secret_headers raw)) (\<lambda>_.
       let auth = raw_declare (rg_auth raw) (bearer_auth_new (pw_requested_slot parts));
           request = finish_request
             (json_post_new (pw_relative_path parts) (pw_headers parts) (pw_body parts) auth)
             (rc_query raw) (rc_user_agent raw)
       in Ok (pw_binding parts, request)))"

definition parse_raw_signed_call ::
  "('u, 'j) grammars \<Rightarrow> raw_signed_provider_call
    \<Rightarrow> ('u provider_binding \<times> json_post_request, raw_call_error) result" where
  "parse_raw_signed_call G raw =
     and_then (parse_raw_parts G raw dshs_none (rs_body raw)) (\<lambda>parts.
       let auth = HostSigned (bearer_auth_new (pw_requested_slot parts)) (rs_emits raw);
           request = finish_request
             (json_post_new (pw_relative_path parts) (pw_headers parts) (pw_body parts) auth)
             (rc_query raw) (rc_user_agent raw)
       in Ok (pw_binding parts, request))"

definition parse_raw_get_call ::
  "('u, 'j) grammars \<Rightarrow> raw_get_provider_call \<Rightarrow> ('u provider_binding \<times> get_request, raw_call_error) result" where
  "parse_raw_get_call G raw =
     and_then (parse_raw_binding G raw) (\<lambda>parts.
     and_then (parse_raw_headers G raw (rg_secret_headers raw)) (\<lambda>headers.
     and_then (check_declared (rg_auth raw) (rg_secret_headers raw)) (\<lambda>_.
       let auth = raw_declare (rg_auth raw) (bearer_auth_new (pw_requested_slot parts));
           request = finish_request (get_new (pw_relative_path parts) headers auth) (rc_query raw) (rc_user_agent raw)
       in Ok (pw_binding parts, request))))"

definition parse_raw_multipart_call ::
  "('u, 'j) grammars \<Rightarrow> raw_multipart_provider_call
    \<Rightarrow> ('u provider_binding \<times> multipart_post_request, raw_call_error) result" where
  "parse_raw_multipart_call G raw =
     and_then (parse_raw_binding G raw) (\<lambda>parts.
     and_then (map_err RawBoundary (boundary_parse (rm_boundary raw))) (\<lambda>boundary.
     and_then (map_err RawBody (multipart_body_parse (rm_body raw) boundary)) (\<lambda>body.
     and_then (parse_raw_headers G raw (rg_secret_headers raw)) (\<lambda>headers.
     and_then (check_declared (rg_auth raw) (rg_secret_headers raw)) (\<lambda>_.
       let auth = raw_declare (rg_auth raw) (bearer_auth_new (pw_requested_slot parts))
       in and_then (map_err RawContentTypeHeader
              (multipart_post_try_new (gr_header_name G) (pw_relative_path parts) headers body auth)) (\<lambda>request.
            Ok (pw_binding parts, finish_request request (rc_query raw) (rc_user_agent raw))))))))"

definition raw_call_parses :: "('u, 'j) grammars \<Rightarrow> raw_provider_call \<Rightarrow> bool" where
  "raw_call_parses G raw = is_ok (parse_raw_call G raw)"

definition raw_signed_call_parses :: "('u, 'j) grammars \<Rightarrow> raw_signed_provider_call \<Rightarrow> bool" where
  "raw_signed_call_parses G raw = is_ok (parse_raw_signed_call G raw)"

definition raw_get_call_parses :: "('u, 'j) grammars \<Rightarrow> raw_get_provider_call \<Rightarrow> bool" where
  "raw_get_call_parses G raw = is_ok (parse_raw_get_call G raw)"

definition raw_multipart_call_parses :: "('u, 'j) grammars \<Rightarrow> raw_multipart_provider_call \<Rightarrow> bool" where
  "raw_multipart_call_parses G raw = is_ok (parse_raw_multipart_call G raw)"

section \<open>One-shot wrappers\<close>

datatype 's raw_provider_call_error = RawParse raw_call_error | RawProviderCall "'s provider_call_error"

fun raw_provider_call_code :: "'s raw_provider_call_error \<Rightarrow> string" where
  "raw_provider_call_code (RawParse e) = raw_error_code e"
| "raw_provider_call_code (RawProviderCall e) = provider_call_code e"

type_synonym ('u, 's, 'r) raw_run = "'u provider_effect list \<times> ('r, 's raw_provider_call_error) result option"

text \<open>Parse, then run the call and wrap its error.\<close>

definition parse_then_call ::
  "('p, raw_call_error) result \<Rightarrow> ('p \<Rightarrow> ('u, 's, 'r) provider_run) \<Rightarrow> ('u, 's, 'r) raw_run" where
  "parse_then_call parsed call =
     (case parsed of
        Err e \<Rightarrow> ([], Some (Err (RawParse e)))
      | Ok p \<Rightarrow> map_prod id (map_option (map_err RawProviderCall)) (call p))"

definition execute_raw_call_v1 where
  "execute_raw_call_v1 G raw resolve transport deadline start polls =
     parse_then_call (parse_raw_call G raw) (\<lambda>(binding, request).
       execute_provider_call_v1 (gr_url G) binding request resolve transport deadline start polls)"

definition open_streaming_raw_call_v1 where
  "open_streaming_raw_call_v1 G raw resolve transport deadline start polls =
     parse_then_call (parse_raw_call G raw) (\<lambda>(binding, request).
       open_streaming_provider_call_v1 (gr_url G) binding request resolve transport deadline start polls)"

definition execute_get_raw_call_v1 where
  "execute_get_raw_call_v1 G raw resolve transport deadline start polls =
     parse_then_call (parse_raw_get_call G raw) (\<lambda>(binding, request).
       execute_get_call_v1 (gr_url G) binding request resolve transport deadline start polls)"

definition execute_multipart_raw_call_v1 where
  "execute_multipart_raw_call_v1 G raw resolve transport deadline start polls =
     parse_then_call (parse_raw_multipart_call G raw) (\<lambda>(binding, request).
       execute_multipart_call_v1 (gr_url G) binding request resolve transport deadline start polls)"

definition execute_signed_raw_call_v1 where
  "execute_signed_raw_call_v1 G raw finalize transport deadline start polls =
     parse_then_call (parse_raw_signed_call G raw) (\<lambda>(binding, request).
       execute_signed_provider_call_v1 (gr_url G) binding request finalize transport deadline start polls)"

definition open_streaming_signed_raw_call_v1 where
  "open_streaming_signed_raw_call_v1 G raw finalize transport deadline start polls =
     parse_then_call (parse_raw_signed_call G raw) (\<lambda>(binding, request).
       open_streaming_signed_provider_call_v1 (gr_url G) binding request finalize transport deadline start polls)"

section \<open>Resolver adapters\<close>

record prepared_secret_resolver =
  ps_secret :: string
  ps_expected_slot :: "credential_slot option"

definition prepared_secret_new :: "string \<Rightarrow> prepared_secret_resolver" where
  "prepared_secret_new secret = \<lparr>ps_secret = secret, ps_expected_slot = None\<rparr>"

definition expecting_slot :: "prepared_secret_resolver \<Rightarrow> credential_slot \<Rightarrow> prepared_secret_resolver" where
  "expecting_slot r slot = r\<lparr>ps_expected_slot := Some slot\<rparr>"

definition prepared_secret_resolve :: "prepared_secret_resolver \<Rightarrow> credential_resolver" where
  "prepared_secret_resolve r slot k =
     (if (case ps_expected_slot r of Some expected \<Rightarrow> expected \<noteq> slot | None \<Rightarrow> False) then Some (Err ())
      else Some (Ok \<lparr>sv_value = ps_secret r\<rparr>))"

definition bounded_resolve :: "credential_resolver \<Rightarrow> nat \<Rightarrow> credential_resolver" where
  "bounded_resolve inner max_secret_bytes slot k =
     map_option (\<lambda>r. and_then r (\<lambda>secret.
       if max_secret_bytes < length (sv_value secret) then Err () else Ok secret)) (inner slot k)"

section \<open>The field a parse refuses\<close>

text \<open>The checks of a raw call in the order the prelude documents, and the first that fails.\<close>

definition first_failing :: "(string \<times> bool) list \<Rightarrow> string option" where
  "first_failing checks = map_option fst (List.find (\<lambda>check. \<not> snd check) checks)"

definition refused_field :: "('a, raw_call_error) result \<Rightarrow> string option" where
  "refused_field r = (case r of Ok _ \<Rightarrow> None | Err e \<Rightarrow> Some (raw_error_field e))"

definition binding_checks :: "('u, 'j) grammars \<Rightarrow> 'a raw_call_scheme \<Rightarrow> (string \<times> bool) list" where
  "binding_checks G raw =
     [(''endpoint'', is_ok (provider_endpoint_parse (gr_url G) (rc_endpoint raw))),
      (''bound_slot'', is_ok (credential_slot_parse (rc_bound_slot raw))),
      (''requested_slot'', is_ok (credential_slot_parse (rc_requested_slot raw))),
      (''relative_path'', is_ok (relative_path_parse (rc_relative_path raw)))]"

abbreviation headers_of where
  "headers_of G raw secrets \<equiv>
     sh_try_from_iter_with_secret_headers (gr_header_name G) (gr_header_value G) (rc_headers raw) secrets"

lemma first_failing_simps [simp]:
  "first_failing [] = None"
  "first_failing ((name, ok) # checks) = (if ok then first_failing checks else Some name)"
  by (simp_all add: first_failing_def)

lemma first_failing_append:
  "first_failing (xs @ ys) = (case first_failing xs of None \<Rightarrow> first_failing ys | Some f \<Rightarrow> Some f)"
  by (induction xs) (auto split: option.splits)

lemma refused_field_simps [simp]:
  "refused_field (Ok a) = None"
  "refused_field (Err e) = Some (raw_error_field e)"
  "refused_field (and_then r f) = (case r of Ok a \<Rightarrow> refused_field (f a) | Err e \<Rightarrow> Some (raw_error_field e))"
  by (auto simp: refused_field_def split: result.splits)

lemma refused_field_None: "refused_field r = None \<longleftrightarrow> (\<exists>a. r = Ok a)"
  by (cases r) auto

lemma refused_binding: "refused_field (parse_raw_binding G raw) = first_failing (binding_checks G raw)"
  unfolding parse_raw_binding_def binding_checks_def
  by (cases "provider_endpoint_parse (gr_url G) (rc_endpoint raw)";
      cases "credential_slot_parse (rc_bound_slot raw)";
      cases "credential_slot_parse (rc_requested_slot raw)";
      cases "relative_path_parse (rc_relative_path raw)") simp_all

lemma refused_after_binding:
  assumes "\<And>parts. parse_raw_binding G raw = Ok parts \<Longrightarrow> refused_field (f parts) = first_failing checks"
  shows "refused_field (and_then (parse_raw_binding G raw) f) = first_failing (binding_checks G raw @ checks)"
  using assms refused_binding [of G raw, symmetric]
  by (cases "parse_raw_binding G raw") (simp_all add: first_failing_append split: option.splits)

lemma boundary_cases:
  obtains "boundary_parse s = Ok \<lparr>mb_value = s\<rparr>" | e where "boundary_parse s = Err e"
  by (cases "boundary_parse s") (auto simp: boundary_parse_Ok)

lemma check_declared_field:
  "check_declared auth secrets = Err e \<Longrightarrow> raw_error_field e = ''auth''"
  by (cases auth) (auto split: if_splits)

text \<open>
  Claim C2. A raw call that does not parse names the first field that fails, in the documented order:
  endpoint, bound slot, requested slot, relative path, the body (for a multipart call the boundary
  first), headers, and the declared authentication arm; a multipart call last refuses a content type
  among its headers. A call parses exactly when none of these fails, so a host that checked a call at
  admission meets no other refusal when it is parsed again.
\<close>

theorem raw_parse_names_first_failing_field:
  "(\<forall>raw. refused_field (parse_raw_call G raw) =
      first_failing (binding_checks G raw @
        [(''body'', is_ok (json_body_parse (gr_json G) (gr_json_end G) (rj_body raw))),
         (''headers'', is_ok (headers_of G raw (rg_secret_headers raw))),
         (''auth'', is_ok (check_declared (rg_auth raw) (rg_secret_headers raw)))])) \<and>
   (\<forall>raw. refused_field (parse_raw_signed_call G raw) =
      first_failing (binding_checks G raw @
        [(''body'', is_ok (json_body_parse (gr_json G) (gr_json_end G) (rs_body raw))),
         (''headers'', is_ok (headers_of G raw dshs_none))])) \<and>
   (\<forall>raw. refused_field (parse_raw_get_call G raw) =
      first_failing (binding_checks G raw @
        [(''headers'', is_ok (headers_of G raw (rg_secret_headers raw))),
         (''auth'', is_ok (check_declared (rg_auth raw) (rg_secret_headers raw)))])) \<and>
   (\<forall>raw. refused_field (parse_raw_multipart_call G raw) =
      first_failing (binding_checks G raw @
        [(''boundary'', is_ok (boundary_parse (rm_boundary raw))),
         (''body'', is_ok (multipart_body_parse (rm_body raw) \<lparr>mb_value = rm_boundary raw\<rparr>)),
         (''headers'', is_ok (headers_of G raw (rg_secret_headers raw))),
         (''auth'', is_ok (check_declared (rg_auth raw) (rg_secret_headers raw))),
         (''headers'', (case headers_of G raw (rg_secret_headers raw) of
            Ok h \<Rightarrow> sh_get (gr_header_name G) h ''content-type'' = None | Err _ \<Rightarrow> True))]))"
proof (intro conjI allI)
  fix raw :: raw_provider_call
  show "refused_field (parse_raw_call G raw) = first_failing (binding_checks G raw @
        [(''body'', is_ok (json_body_parse (gr_json G) (gr_json_end G) (rj_body raw))),
         (''headers'', is_ok (headers_of G raw (rg_secret_headers raw))),
         (''auth'', is_ok (check_declared (rg_auth raw) (rg_secret_headers raw)))])"
    unfolding parse_raw_call_def parse_raw_parts_def and_then_assoc parse_raw_headers_def
    by (rule refused_after_binding,
        cases "json_body_parse (gr_json G) (gr_json_end G) (rj_body raw)";
        cases "headers_of G raw (rg_secret_headers raw)";
        cases "check_declared (rg_auth raw) (rg_secret_headers raw)")
      (simp_all add: check_declared_field Let_def)
next
  fix raw :: raw_signed_provider_call
  show "refused_field (parse_raw_signed_call G raw) = first_failing (binding_checks G raw @
        [(''body'', is_ok (json_body_parse (gr_json G) (gr_json_end G) (rs_body raw))),
         (''headers'', is_ok (headers_of G raw dshs_none))])"
    unfolding parse_raw_signed_call_def parse_raw_parts_def and_then_assoc parse_raw_headers_def
    by (rule refused_after_binding,
        cases "json_body_parse (gr_json G) (gr_json_end G) (rs_body raw)";
        cases "headers_of G raw dshs_none") (simp_all add: Let_def)
next
  fix raw :: raw_get_provider_call
  show "refused_field (parse_raw_get_call G raw) = first_failing (binding_checks G raw @
        [(''headers'', is_ok (headers_of G raw (rg_secret_headers raw))),
         (''auth'', is_ok (check_declared (rg_auth raw) (rg_secret_headers raw)))])"
    unfolding parse_raw_get_call_def parse_raw_headers_def
    by (rule refused_after_binding,
        cases "headers_of G raw (rg_secret_headers raw)";
        cases "check_declared (rg_auth raw) (rg_secret_headers raw)")
      (simp_all add: check_declared_field Let_def)
next
  fix raw :: raw_multipart_provider_call
  show "refused_field (parse_raw_multipart_call G raw) = first_failing (binding_checks G raw @
        [(''boundary'', is_ok (boundary_parse (rm_boundary raw))),
         (''body'', is_ok (multipart_body_parse (rm_body raw) \<lparr>mb_value = rm_boundary raw\<rparr>)),
         (''headers'', is_ok (headers_of G raw (rg_secret_headers raw))),
         (''auth'', is_ok (check_declared (rg_auth raw) (rg_secret_headers raw))),
         (''headers'', (case headers_of G raw (rg_secret_headers raw) of
            Ok h \<Rightarrow> sh_get (gr_header_name G) h ''content-type'' = None | Err _ \<Rightarrow> True))])"
    unfolding parse_raw_multipart_call_def parse_raw_headers_def
    by (rule refused_after_binding,
        cases rule: boundary_cases [of "rm_boundary raw"];
        cases "multipart_body_parse (rm_body raw) \<lparr>mb_value = rm_boundary raw\<rparr>";
        cases "headers_of G raw (rg_secret_headers raw)";
        cases "check_declared (rg_auth raw) (rg_secret_headers raw)")
      (simp_all add: check_declared_field Let_def multipart_post_try_new_def)
qed

section \<open>Parsed calls\<close>

lemma credential_slot_parse_Ok: "credential_slot_parse s = Ok c \<Longrightarrow> c = \<lparr>cs_value = s\<rparr>"
  by (simp add: credential_slot_parse_def Let_def)

lemma json_body_parse_Ok: "json_body_parse rd fin s = Ok b \<Longrightarrow> b = \<lparr>jb_value = s\<rparr>"
  by (auto simp: json_body_parse_def and_then_Ok_iff)

lemma parse_raw_binding_Ok:
  "parse_raw_binding G raw = Ok parts \<Longrightarrow>
    provider_endpoint_parse (gr_url G) (rc_endpoint raw) = Ok (pb_endpoint (pw_binding parts)) \<and>
    pb_credential_slot (pw_binding parts) = \<lparr>cs_value = rc_bound_slot raw\<rparr> \<and>
    pw_requested_slot parts = \<lparr>cs_value = rc_requested_slot raw\<rparr> \<and>
    relative_path_parse (rc_relative_path raw) = Ok (pw_relative_path parts)"
  unfolding parse_raw_binding_def and_then_Ok_iff map_err_Ok
  by (auto dest: credential_slot_parse_Ok)

lemma finish_request_fields [simp]:
  "rq_relative_path (finish_request r query agent) = rq_relative_path r"
  "rq_headers (finish_request r query agent) = rq_headers r"
  "rq_auth (finish_request r query agent) = rq_auth r"
  "rq_query r = None \<Longrightarrow> rq_query (finish_request r query agent) = query"
  "rq_user_agent r = None \<Longrightarrow> rq_user_agent (finish_request r query agent) = agent"
  "request.more (finish_request r query agent) = request.more r"
  by (cases query; cases agent; simp add: finish_request_def with_query_def with_user_agent_def)+

lemma finish_request_body [simp]: "jp_body (finish_request r query agent) = jp_body r"
  by (cases query; cases agent; simp add: finish_request_def with_query_def with_user_agent_def)

lemma raw_declare_slot [simp]: "auth_credential_slot (raw_declare auth slot) = ba_credential_slot slot"
  by (cases auth) simp_all

lemma parse_raw_call_Ok:
  assumes "parse_raw_call G raw = Ok (binding, request)"
  shows "provider_endpoint_parse (gr_url G) (rc_endpoint raw) = Ok (pb_endpoint binding)"
    "pb_credential_slot binding = \<lparr>cs_value = rc_bound_slot raw\<rparr>"
    "auth_credential_slot (rq_auth request) = \<lparr>cs_value = rc_requested_slot raw\<rparr>"
    "relative_path_parse (rc_relative_path raw) = Ok (rq_relative_path request)"
    "headers_of G raw (rg_secret_headers raw) = Ok (rq_headers request)"
    "rq_query request = rc_query raw" "rq_user_agent request = rc_user_agent raw"
    "jp_body request = \<lparr>jb_value = rj_body raw\<rparr>"
proof -
  from assms obtain parts body headers where
    parts: "parse_raw_binding G raw = Ok parts"
    and body: "json_body_parse (gr_json G) (gr_json_end G) (rj_body raw) = Ok body"
    and headers: "headers_of G raw (rg_secret_headers raw) = Ok headers"
    and eq: "binding = pw_binding parts" "request = finish_request
        (json_post_new (pw_relative_path parts) headers body
          (raw_declare (rg_auth raw) (bearer_auth_new (pw_requested_slot parts))))
        (rc_query raw) (rc_user_agent raw)"
    by (auto simp: parse_raw_call_def parse_raw_parts_def parse_raw_headers_def and_then_Ok_iff map_err_Ok Let_def)
  note p = parse_raw_binding_Ok [OF parts]
  show "provider_endpoint_parse (gr_url G) (rc_endpoint raw) = Ok (pb_endpoint binding)"
    "pb_credential_slot binding = \<lparr>cs_value = rc_bound_slot raw\<rparr>"
    "auth_credential_slot (rq_auth request) = \<lparr>cs_value = rc_requested_slot raw\<rparr>"
    "relative_path_parse (rc_relative_path raw) = Ok (rq_relative_path request)"
    "headers_of G raw (rg_secret_headers raw) = Ok (rq_headers request)"
    "rq_query request = rc_query raw" "rq_user_agent request = rc_user_agent raw"
    "jp_body request = \<lparr>jb_value = rj_body raw\<rparr>"
    using p headers json_body_parse_Ok [OF body] by (simp_all add: eq json_post_new_def bearer_auth_new_def)
qed

section \<open>Resolver adapters keep their promises\<close>

text \<open>
  The adapters keep what they promise inside a call. With a prepared secret whose expected
  slot, if any, is the binding's, a call whose guards pass dispatches at its very first poll, before
  the deadline and unless cancelled, with that secret; resolution never fails. Behind a byte cap,
  whatever is dispatched was prepared from a secret the inner resolver gave and that is within the
  cap.
\<close>

theorem resolver_adapters_keep_promises:
  assumes "parts_destination U p binding = Ok destination"
    and "auth_credential_slot (pt_auth p) = pb_credential_slot binding"
    and "\<not> po_cancelled start" and "po_now start < deadline"
  shows "(ps_expected_slot r \<in> {None, Some (pb_credential_slot binding)} \<longrightarrow>
      assemble p destination \<lparr>sv_value = ps_secret r\<rparr> = Ok prepared \<longrightarrow>
      \<not> po_cancelled q \<longrightarrow> po_now q < deadline \<longrightarrow>
      fst (execute_buffered U binding p (prepared_secret_resolve r) dispatch deadline start (q # polls)
          :: (_, 's, _) provider_run) =
        [ResolveCredential (pb_credential_slot binding), Dispatch prepared (deadline - po_now q)]) \<and>
    (Dispatch prepared remaining \<in>
        set (fst (execute_buffered U binding p (bounded_resolve inner cap) dispatch deadline start polls
          :: (_, 's, _) provider_run)) \<longrightarrow>
      (\<exists>k secret. inner (pb_credential_slot binding) k = Some (Ok secret) \<and> length (sv_value secret) \<le> cap \<and>
         assemble p destination secret = Ok prepared))"
proof (intro conjI impI)
  assume slot: "ps_expected_slot r \<in> {None, Some (pb_credential_slot binding)}"
    and prepared: "assemble p destination \<lparr>sv_value = ps_secret r\<rparr> = Ok prepared"
    and q: "\<not> po_cancelled q" "po_now q < deadline"
  let ?b = "credential_block p destination (prepared_secret_resolve r) dispatch deadline ::
    (_, _, _, _, 's provider_call_error) two_awaits"
  have "prepared_secret_resolve r (pb_credential_slot binding) 0 = Some (Ok \<lparr>sv_value = ps_secret r\<rparr>)"
    using slot by (auto simp: prepared_secret_resolve_def)
  then have first: "ta_first ?b 0 = Some (Ok prepared)"
    using prepared assms(2) by (simp add: credential_block_sel credential_first_Ok)
  have between: "ta_between ?b (po_now q) prepared = Ok (prepared, deadline - po_now q)"
    using q by (simp add: credential_block_sel remaining_timeout_def)
  show "fst (execute_buffered U binding p (prepared_secret_resolve r) dispatch deadline start (q # polls)
      :: (_, 's, _) provider_run) =
      [ResolveCredential (pb_credential_slot binding), Dispatch prepared (deadline - po_now q)]"
    using race_at_once [OF first between q(1)] assms
    by (simp add: execute_buffered_def credential_block_sel)
next
  assume "Dispatch prepared remaining \<in>
    set (fst (execute_buffered U binding p (bounded_resolve inner cap) dispatch deadline start polls
      :: (_, 's, _) provider_run))"
  then obtain calls r where "execute_buffered U binding p (bounded_resolve inner cap) dispatch deadline start polls
      = (calls, r :: (_, 's provider_call_error) result option)"
      "Dispatch prepared remaining \<in> set calls"
    by (metis prod.collapse)
  from buffered_dispatched [OF this] assms(1) obtain k secret where
    "bounded_resolve inner cap (pb_credential_slot binding) k = Some (Ok secret)"
    "assemble p destination secret = Ok prepared"
    by auto
  then show "\<exists>k secret. inner (pb_credential_slot binding) k = Some (Ok secret) \<and> length (sv_value secret) \<le> cap \<and>
      assemble p destination secret = Ok prepared"
    by (intro exI [of _ k] exI [of _ secret]) (auto simp: bounded_resolve_def and_then_Ok_iff)
qed

theorem resolver_adapters_keep_promises_witness:
  "fst (execute_buffered sample_url_crate sample_binding (sample_parts sample_bearer)
      (prepared_secret_resolve (prepared_secret_new ''s'')) sample_dispatch 10 (sample_poll False 0)
      [sample_poll False 4] :: (_, nat, _) provider_run) =
    [ResolveCredential \<lparr>cs_value = ''main''\<rparr>, Dispatch (sample_prepared [(''authorization'', ''Bearer s'')]) 6]"
proof -
  have d: "parts_destination sample_url_crate (sample_parts sample_bearer) sample_binding =
      Ok (pr_url (sample_prepared []))"
    by code_simp
  have slot: "auth_credential_slot (pt_auth (sample_parts sample_bearer)) = pb_credential_slot sample_binding"
    by code_simp
  have start: "\<not> po_cancelled (sample_poll False 0)" "po_now (sample_poll False 0) < 10"
    by (simp_all add: sample_poll_def)
  have p: "assemble (sample_parts sample_bearer) (pr_url (sample_prepared []))
      \<lparr>sv_value = ps_secret (prepared_secret_new ''s'')\<rparr> =
      Ok (sample_prepared [(''authorization'', ''Bearer s'')])"
    by code_simp
  have e: "ps_expected_slot (prepared_secret_new ''s'') \<in> {None, Some (pb_credential_slot sample_binding)}"
      "\<not> po_cancelled (sample_poll False 4)" "po_now (sample_poll False 4) < 10"
    by (simp_all add: prepared_secret_new_def sample_poll_def)
  have "fst (execute_buffered sample_url_crate sample_binding (sample_parts sample_bearer)
      (prepared_secret_resolve (prepared_secret_new ''s'')) sample_dispatch 10 (sample_poll False 0)
      [sample_poll False 4] :: (_, nat, _) provider_run) =
    [ResolveCredential (pb_credential_slot sample_binding),
     Dispatch (sample_prepared [(''authorization'', ''Bearer s'')]) (10 - po_now (sample_poll False 4))]"
    using resolver_adapters_keep_promises [OF d slot start] e p by blast
  then show ?thesis by (simp add: sample_binding_def sample_poll_def)
qed

section \<open>A raw call on the wire\<close>

text \<open>What a dispatched raw call rests on, gathered from the layers below.\<close>

lemma raw_call_dispatched:
  fixes r :: "('s buffered_http_response, 's raw_provider_call_error) result option"
  assumes "execute_raw_call_v1 G raw resolve transport deadline start polls = (calls, r)"
    and "Dispatch prepared remaining \<in> set calls"
  obtains binding request destination k secret where
    "parse_raw_call G raw = Ok (binding, request)"
    "parts_destination (gr_url G) (json_parts request) binding = Ok destination"
    "rc_bound_slot raw = rc_requested_slot raw"
    "calls = [ResolveCredential (pb_credential_slot binding), Dispatch prepared remaining]"
    "resolve (pb_credential_slot binding) k = Some (Ok secret)"
    "assemble (json_parts request) destination secret = Ok prepared" "0 < remaining" "remaining \<le> deadline"
proof -
  from assms obtain binding request where parsed: "parse_raw_call G raw = Ok (binding, request)"
    by (cases "parse_raw_call G raw") (auto simp: execute_raw_call_v1_def parse_then_call_def)
  with assms(1) obtain r' where
    run: "execute_buffered (gr_url G) binding (json_parts request) resolve transport deadline start polls =
      (calls, r' :: ('s buffered_http_response, 's provider_call_error) result option)"
    by (auto simp: execute_raw_call_v1_def parse_then_call_def execute_provider_call_v1_def map_prod_def
        split: prod.splits)
  have "auth_credential_slot (rq_auth request) = auth_credential_slot (pt_auth (json_parts request))"
    by (simp add: json_parts_def parts_of_def)
  with buffered_dispatched [OF run assms(2)] parse_raw_call_Ok [OF parsed] parsed that
  show ?thesis by (metis credential_slot.ext_inject)
qed

end
