(* ===== verification/Host_Effects.thy ===== *)
theory Host_Effects
  imports Prelude
begin

text \<open>
  Operations of a host, as \<open>south-task-core\<close> and \<open>south-task-conformance\<close> use them: an awaited
  call takes the host's state and returns the new state with a \<open>Result\<close>. \<open>host_bind\<close> is
  \<open>.await?\<close> followed by the rest of the function. Calls are sequential, since the sources await
  every future before they make the next call.
\<close>

type_synonym ('h, 'a, 'e) host = "'h \<Rightarrow> 'h \<times> ('a, 'e) result"

definition host_bind :: "('h, 'a, 'e) host \<Rightarrow> ('a \<Rightarrow> ('h, 'b, 'e) host) \<Rightarrow> ('h, 'b, 'e) host" where
  "host_bind m k h = (case m h of (h', Ok a) \<Rightarrow> k a h' | (h', Err e) \<Rightarrow> (h', Err e))"

definition host_return :: "'a \<Rightarrow> ('h, 'a, 'e) host" where
  "host_return a h = (h, Ok a)"

definition host_fail :: "'e \<Rightarrow> ('h, 'a, 'e) host" where
  "host_fail e h = (h, Err e)"

text \<open>An awaited call whose \<open>Result\<close> is inspected instead of propagated.\<close>

definition host_try :: "('h, 'a, 'e) host \<Rightarrow> ('h, ('a, 'e) result, 'f) host" where
  "host_try m h = (case m h of (h', r) \<Rightarrow> (h', Ok r))"

lemma host_bind_simps [simp]:
  "host_bind (host_return a) k = k a"
  "host_bind (host_fail e) k = host_fail e"
  by (simp_all add: host_bind_def host_return_def host_fail_def fun_eq_iff)

lemma host_bind_step:
  "m h = (h', Ok a) \<Longrightarrow> host_bind m k h = k a h'"
  "m h = (h', Err e) \<Longrightarrow> host_bind m k h = (h', Err e)"
  by (simp_all add: host_bind_def)

section \<open>Logged operations\<close>

text \<open>
  An operation that also appends what it was and what it returned to a log: the state becomes the
  host's state with the log. The workflows are parametric in the operations, so running them on
  logged operations shows the order of their calls.
\<close>

definition logged :: "(('a, 'e) result \<Rightarrow> 'l) \<Rightarrow> ('h, 'a, 'e) host \<Rightarrow> ('h \<times> 'l list, 'a, 'e) host" where
  "logged entry m = (\<lambda>(h, log). case m h of (h', r) \<Rightarrow> ((h', log @ [entry r]), r))"

lemma logged_apply: "m h = (h', r) \<Longrightarrow> logged entry m (h, log) = ((h', log @ [entry r]), r)"
  by (simp add: logged_def)

end
