(* ===== verification/Task_Core.thy ===== *)
theory Task_Core
  imports Host_Effects
begin

text \<open>
  The task workflows of \<open>crates/south-task-core/src/lib.rs\<close>. The host's effects are parameters,
  as they are in the source (a trait per workflow); \<open>submit\<close>, \<open>observe\<close> and \<open>cancel\<close> are the
  order in which they are called. Each workflow is shown to follow a small state machine, from
  which the guarantees its documentation gives are read off: at most one send, only under a claim,
  its fact always recorded, and every lost compare-and-swap answered by the durable winner.
\<close>

section \<open>Data\<close>

datatype ('t, 'o) prepare_result = Created 't | PrepareReplayed 'o | PrepareConflict 'o

datatype ('a, 'r) submission_fact = Accepted 'a | Rejected 'r | Unknown

datatype 'o apply_result = Applied 'o | ApplyConflict

datatype disposition = DispositionApplied | DispositionReplayed | DispositionConflict

record 'o shared_result =
  outcome :: 'o
  disposition :: disposition

section \<open>Submission\<close>

record ('h, 'i, 't, 'a, 'r, 'o, 'e) submission_effects =
  prepare :: "'i \<Rightarrow> ('h, ('t, 'o) prepare_result, 'e) host"
  begin_dispatch :: "'t \<Rightarrow> ('h, bool, 'e) host"
  send :: "'t \<Rightarrow> ('h, ('a, 'r) submission_fact, 'e) host"
  record_submission :: "'t \<Rightarrow> ('a, 'r) submission_fact \<Rightarrow> ('h, 'o apply_result, 'e) host"
  reload :: "'t \<Rightarrow> ('h, 'o, 'e) host"

text \<open>\<open>Result::unwrap_or(SubmissionFact::Unknown)\<close>.\<close>

definition fact_of :: "(('a, 'r) submission_fact, 'e) result \<Rightarrow> ('a, 'r) submission_fact" where
  "fact_of r = (case r of Ok fct \<Rightarrow> fct | Err _ \<Rightarrow> Unknown)"

definition reload_replayed ::
  "('h, 'i, 't, 'a, 'r, 'o, 'e) submission_effects \<Rightarrow> 't \<Rightarrow> ('h, 'o shared_result, 'e) host" where
  "reload_replayed eff task =
     host_bind (reload eff task) (\<lambda>out.
       host_return \<lparr>outcome = out, disposition = DispositionReplayed\<rparr>)"

definition submit ::
  "('h, 'i, 't, 'a, 'r, 'o, 'e) submission_effects \<Rightarrow> 'i \<Rightarrow> ('h, 'o shared_result, 'e) host" where
  "submit eff input =
     host_bind (prepare eff input) (\<lambda>prepared.
       case prepared of
         PrepareReplayed out \<Rightarrow> host_return \<lparr>outcome = out, disposition = DispositionReplayed\<rparr>
       | PrepareConflict out \<Rightarrow> host_return \<lparr>outcome = out, disposition = DispositionConflict\<rparr>
       | Created task \<Rightarrow>
           host_bind (begin_dispatch eff task) (\<lambda>claimed.
             if \<not> claimed then reload_replayed eff task
             else
               host_bind (host_try (send eff task)) (\<lambda>sent.
                 let fct = fact_of sent in
                 host_bind (record_submission eff task fct) (\<lambda>applied.
                   case applied of
                     Applied out \<Rightarrow> host_return \<lparr>outcome = out, disposition = DispositionApplied\<rparr>
                   | ApplyConflict \<Rightarrow> reload_replayed eff task))))"

section \<open>Observation\<close>

datatype ('t, 'o) observation_plan = Query 't | PlanReturn 'o

record ('h, 'k, 't, 'raw, 'obs, 'o, 'e) observation_effects =
  obs_load :: "'k \<Rightarrow> ('h, ('t, 'o) observation_plan, 'e) host"
  obs_query :: "'t \<Rightarrow> ('h, 'raw, 'e) host"
  obs_normalize :: "'t \<Rightarrow> ('raw, 'e) result \<Rightarrow> ('h, 'obs, 'e) host"
  obs_apply :: "'t \<Rightarrow> 'obs \<Rightarrow> ('h, 'o apply_result, 'e) host"
  obs_reload :: "'t \<Rightarrow> ('h, 'o, 'e) host"

definition apply_observation ::
  "('h, 'k, 't, 'raw, 'obs, 'o, 'e) observation_effects \<Rightarrow> 't \<Rightarrow> 'obs \<Rightarrow> ('h, 'o, 'e) host" where
  "apply_observation eff task observation =
     host_bind (obs_apply eff task observation) (\<lambda>applied.
       case applied of
         Applied out \<Rightarrow> host_return out
       | ApplyConflict \<Rightarrow> obs_reload eff task)"

definition observe ::
  "('h, 'k, 't, 'raw, 'obs, 'o, 'e) observation_effects \<Rightarrow> 'k \<Rightarrow> ('h, 'o, 'e) host" where
  "observe eff key =
     host_bind (obs_load eff key) (\<lambda>plan.
       case plan of
         PlanReturn out \<Rightarrow> host_return out
       | Query task \<Rightarrow>
           host_bind (host_try (obs_query eff task)) (\<lambda>raw.
             host_bind (obs_normalize eff task raw) (\<lambda>observation.
               apply_observation eff task observation)))"

section \<open>Cancellation\<close>

datatype ('t, 'o) cancel_plan = Prepared 't | Dispatched 't | CancelReturn 'o

record ('h, 'k, 't, 'o, 'e) cancel_effects =
  load_for_cancel :: "'k \<Rightarrow> ('h, ('t, 'o) cancel_plan, 'e) host"
  cancel_prepared :: "'t \<Rightarrow> ('h, 'o apply_result, 'e) host"
  record_cancel_intent :: "'t \<Rightarrow> ('h, 'o, 'e) host"

definition cancel :: "('h, 'k, 't, 'o, 'e) cancel_effects \<Rightarrow> 'k \<Rightarrow> ('h, 'o, 'e) host" where
  "cancel eff key =
     host_bind (load_for_cancel eff key) (\<lambda>plan.
       case plan of
         CancelReturn out \<Rightarrow> host_return out
       | Dispatched task \<Rightarrow> record_cancel_intent eff task
       | Prepared task \<Rightarrow>
           host_bind (cancel_prepared eff task) (\<lambda>applied.
             case applied of
               Applied out \<Rightarrow> host_return out
             | ApplyConflict \<Rightarrow> record_cancel_intent eff task))"

section \<open>Waiting\<close>

datatype 'o wait_state = WaitPending | WaitReady 'o

datatype 'o wait_result = ResultReady 'o | TimedOut | Cancelled

datatype 'e wait_error = InvalidInterval | HostError 'e

datatype 'a controlled_result = ControlledReady 'a | ControlledTimedOut | ControlledCancelled

text \<open>
  What one poll of the future of \<open>controlled\<close> finds: the cancellation future, the clock, the
  deadline timer and the operation. A poll function returns at the first of them that is ready, so
  a later field is only looked at when the earlier ones are not. Times are durations from the
  caller's origin, in the smallest unit of \<open>Duration\<close>.
\<close>

record 'a poll_round =
  cancel_ready :: bool
  clock :: nat
  timer_ready :: bool
  operation :: "'a option"

text \<open>
  \<open>controlled\<close>, over the polls the executor makes; \<open>None\<close> when they end before the future is
  ready, that is, while it is still pending.
\<close>

fun controlled :: "nat \<Rightarrow> 'a poll_round list \<Rightarrow> 'a controlled_result option" where
  "controlled deadline [] = None"
| "controlled deadline (p # ps) =
     (if cancel_ready p then Some ControlledCancelled
      else if deadline \<le> clock p \<or> timer_ready p then Some ControlledTimedOut
      else case operation p of
             Some a \<Rightarrow> Some (ControlledReady a)
           | None \<Rightarrow> controlled deadline ps)"

text \<open>
  What one turn of the loop of \<open>wait\<close> meets: the polls of \<open>inspect\<close>, the clock read after it, and
  the polls of the sleep, which may depend on the duration it was asked for.
\<close>

record ('o, 'e) wait_turn =
  inspect_polls :: "('o wait_state, 'e) result poll_round list"
  now_after :: nat
  sleep_polls :: "nat \<Rightarrow> unit poll_round list"

fun wait_loop ::
  "nat \<Rightarrow> nat \<Rightarrow> ('o, 'e) wait_turn list \<Rightarrow> ('o wait_result, 'e wait_error) result option" where
  "wait_loop deadline interval [] = None"
| "wait_loop deadline interval (turn # turns) =
     (case controlled deadline (inspect_polls turn) of
        None \<Rightarrow> None
      | Some ControlledTimedOut \<Rightarrow> Some (Ok TimedOut)
      | Some ControlledCancelled \<Rightarrow> Some (Ok Cancelled)
      | Some (ControlledReady (Err e)) \<Rightarrow> Some (Err (HostError e))
      | Some (ControlledReady (Ok (WaitReady out))) \<Rightarrow> Some (Ok (ResultReady out))
      | Some (ControlledReady (Ok WaitPending)) \<Rightarrow>
          (let remaining = deadline - now_after turn in
           case controlled deadline (sleep_polls turn (min interval remaining)) of
             None \<Rightarrow> None
           | Some ControlledTimedOut \<Rightarrow> Some (Ok TimedOut)
           | Some ControlledCancelled \<Rightarrow> Some (Ok Cancelled)
           | Some (ControlledReady _) \<Rightarrow> wait_loop deadline interval turns))"

definition wait ::
  "nat \<Rightarrow> nat \<Rightarrow> ('o, 'e) wait_turn list \<Rightarrow> ('o wait_result, 'e wait_error) result option" where
  "wait deadline interval turns =
     (if interval = 0 then Some (Err InvalidInterval) else wait_loop deadline interval turns)"

section \<open>The submission protocol\<close>

text \<open>The calls of a submission with what they returned, and the host that logs them.\<close>

datatype ('i, 't, 'a, 'r, 'o, 'e) submit_call =
    CallPrepare 'i "(('t, 'o) prepare_result, 'e) result"
  | CallBegin 't "(bool, 'e) result"
  | CallSend 't "(('a, 'r) submission_fact, 'e) result"
  | CallRecord 't "('a, 'r) submission_fact" "('o apply_result, 'e) result"
  | CallReload 't "('o, 'e) result"

definition logged_submission ::
  "('h, 'i, 't, 'a, 'r, 'o, 'e) submission_effects
     \<Rightarrow> ('h \<times> ('i, 't, 'a, 'r, 'o, 'e) submit_call list, 'i, 't, 'a, 'r, 'o, 'e) submission_effects" where
  "logged_submission eff =
     \<lparr>prepare = (\<lambda>i. logged (CallPrepare i) (prepare eff i)),
      begin_dispatch = (\<lambda>t. logged (CallBegin t) (begin_dispatch eff t)),
      send = (\<lambda>t. logged (CallSend t) (send eff t)),
      record_submission = (\<lambda>t f. logged (CallRecord t f) (record_submission eff t f)),
      reload = (\<lambda>t. logged (CallReload t) (reload eff t))\<rparr>"

text \<open>A run: the host's final state, the calls in order, the result.\<close>

definition submission_run ::
  "('h, 'i, 't, 'a, 'r, 'o, 'e) submission_effects \<Rightarrow> 'i \<Rightarrow> 'h
     \<Rightarrow> 'h \<times> ('i, 't, 'a, 'r, 'o, 'e) submit_call list \<times> ('o shared_result, 'e) result" where
  "submission_run eff input h =
     (case submit (logged_submission eff) input (h, []) of ((h', calls), r) \<Rightarrow> (h', calls, r))"

text \<open>Where a submission stands, and the calls that move it.\<close>

datatype ('i, 't, 'a, 'r, 'o, 'e) phase =
    Admitting 'i
  | Preparing 't
  | Claimed 't
  | Sent 't "('a, 'r) submission_fact"
  | Lost 't
  | Done "('o shared_result, 'e) result"

inductive submit_step ::
  "('i, 't, 'a, 'r, 'o, 'e) phase \<Rightarrow> ('i, 't, 'a, 'r, 'o, 'e) submit_call
     \<Rightarrow> ('i, 't, 'a, 'r, 'o, 'e) phase \<Rightarrow> bool" where
  created: "submit_step (Admitting i) (CallPrepare i (Ok (Created t))) (Preparing t)"
| replayed: "submit_step (Admitting i) (CallPrepare i (Ok (PrepareReplayed out)))
    (Done (Ok \<lparr>outcome = out, disposition = DispositionReplayed\<rparr>))"
| conflict: "submit_step (Admitting i) (CallPrepare i (Ok (PrepareConflict out)))
    (Done (Ok \<lparr>outcome = out, disposition = DispositionConflict\<rparr>))"
| prepare_failed: "submit_step (Admitting i) (CallPrepare i (Err e)) (Done (Err e))"
| claimed: "submit_step (Preparing t) (CallBegin t (Ok True)) (Claimed t)"
| outrun: "submit_step (Preparing t) (CallBegin t (Ok False)) (Lost t)"
| claim_failed: "submit_step (Preparing t) (CallBegin t (Err e)) (Done (Err e))"
| sent: "submit_step (Claimed t) (CallSend t r) (Sent t (fact_of r))"
| applied: "submit_step (Sent t f) (CallRecord t f (Ok (Applied out)))
    (Done (Ok \<lparr>outcome = out, disposition = DispositionApplied\<rparr>))"
| overtaken: "submit_step (Sent t f) (CallRecord t f (Ok ApplyConflict)) (Lost t)"
| record_failed: "submit_step (Sent t f) (CallRecord t f (Err e)) (Done (Err e))"
| reloaded: "submit_step (Lost t) (CallReload t (Ok out))
    (Done (Ok \<lparr>outcome = out, disposition = DispositionReplayed\<rparr>))"
| reload_failed: "submit_step (Lost t) (CallReload t (Err e)) (Done (Err e))"

inductive submit_path ::
  "('i, 't, 'a, 'r, 'o, 'e) phase \<Rightarrow> ('i, 't, 'a, 'r, 'o, 'e) submit_call list
     \<Rightarrow> ('i, 't, 'a, 'r, 'o, 'e) phase \<Rightarrow> bool" where
  here: "submit_path p [] p"
| step: "submit_step p c q \<Longrightarrow> submit_path q cs s \<Longrightarrow> submit_path p (c # cs) s"

inductive_cases submit_step_DoneE: "submit_step (Done r) c q"
inductive_cases submit_path_DoneE: "submit_path (Done r) cs q"

lemma submit_path_Done [simp]: "submit_path (Done r) cs q \<longleftrightarrow> cs = [] \<and> q = Done r"
  by (auto elim: submit_path_DoneE submit_step_DoneE intro: submit_path.intros)

lemma reload_follows:
  "reload_replayed (logged_submission eff) t (h, log) = ((h', log'), r) \<Longrightarrow>
     reload_replayed eff t h = (h', r) \<and>
     (\<exists>calls. log' = log @ calls \<and> submit_path (Lost t) calls (Done r))"
  by (cases "reload eff t h"; cases "snd (reload eff t h)")
    (auto simp: reload_replayed_def logged_submission_def logged_def host_bind_def host_return_def
      intro!: submit_path.intros submit_step.intros)

lemma record_follows:
  assumes "host_bind (record_submission (logged_submission eff) t f) (\<lambda>ap.
      case ap of Applied out \<Rightarrow> host_return \<lparr>outcome = out, disposition = DispositionApplied\<rparr>
      | ApplyConflict \<Rightarrow> reload_replayed (logged_submission eff) t) (h, log) = ((h', log'), r)"
  shows "host_bind (record_submission eff t f) (\<lambda>ap.
      case ap of Applied out \<Rightarrow> host_return \<lparr>outcome = out, disposition = DispositionApplied\<rparr>
      | ApplyConflict \<Rightarrow> reload_replayed eff t) h = (h', r) \<and>
    (\<exists>calls. log' = log @ calls \<and> submit_path (Sent t f) calls (Done r))"
proof -
  obtain h1 x where x: "record_submission eff t f h = (h1, x)" by fastforce
  then have lx: "record_submission (logged_submission eff) t f (h, log) =
      ((h1, log @ [CallRecord t f x]), x)"
    by (simp add: logged_submission_def logged_apply)
  consider (app) out where "x = Ok (Applied out)" | (con) "x = Ok ApplyConflict" | (err) e where "x = Err e"
    by (metis apply_result.exhaust result.exhaust)
  then show ?thesis
  proof cases
    case con
    with assms x lx have "reload_replayed (logged_submission eff) t (h1, log @ [CallRecord t f x]) = ((h', log'), r)"
      by (simp add: host_bind_def)
    from reload_follows [OF this] con x show ?thesis
      by (auto simp: host_bind_def intro!: submit_path.step submit_step.overtaken)
  qed (use assms x lx in \<open>auto simp: host_bind_def host_return_def
        intro!: submit_path.intros submit_step.intros\<close>)
qed

lemma submit_follows:
  assumes "submission_run eff input h = (h', calls, r)"
  shows "submit eff input h = (h', r) \<and> submit_path (Admitting input) calls (Done r)"
proof -
  let ?eff = "logged_submission eff"
  have run: "submit ?eff input (h, []) = ((h', calls), r)"
    using assms by (auto simp: submission_run_def split: prod.splits)
  obtain h1 x where x: "prepare eff input h = (h1, x)" by fastforce
  then have lx: "prepare ?eff input (h, []) = ((h1, [CallPrepare input x]), x)"
    by (simp add: logged_submission_def logged_apply)
  show ?thesis
  proof (cases "\<exists>t. x = Ok (Created t)")
    case False
    with run x lx show ?thesis
      by (cases x rule: result.exhaust; cases "SOME p. x = Ok p")
        (auto simp: submit_def host_bind_def host_return_def
          intro!: submit_path.intros submit_step.intros split: prepare_result.splits)
  next
    case True
    then obtain t where t: "x = Ok (Created t)" by blast
    obtain h2 y where y: "begin_dispatch eff t h1 = (h2, y)" by fastforce
    then have ly: "begin_dispatch ?eff t (h1, [CallPrepare input x]) =
        ((h2, [CallPrepare input x, CallBegin t y]), y)"
      by (simp add: logged_submission_def logged_apply)
    consider (err) e where "y = Err e" | (lost) "y = Ok False" | (won) "y = Ok True"
      by (metis (full_types) result.exhaust)
    then show ?thesis
    proof cases
      case err
      with run x lx y ly t show ?thesis
        by (auto simp: submit_def host_bind_def intro!: submit_path.intros submit_step.intros)
    next
      case lost
      with run x lx y ly t have "reload_replayed ?eff t (h2, [CallPrepare input x, CallBegin t y]) = ((h', calls), r)"
        by (simp add: submit_def host_bind_def)
      from reload_follows [OF this] lost x y t show ?thesis
        by (auto simp: submit_def host_bind_def intro!: submit_path.step submit_step.intros)
    next
      case won
      obtain h3 z where z: "send eff t h2 = (h3, z)" by fastforce
      then have lz: "send ?eff t (h2, [CallPrepare input x, CallBegin t y]) =
          ((h3, [CallPrepare input x, CallBegin t y, CallSend t z]), z)"
        by (simp add: logged_submission_def logged_apply)
      note follows = record_follows [of eff t "fact_of z" h3 "[CallPrepare input x, CallBegin t y, CallSend t z]" h' calls r]
      from run x lx y ly lz t won follows z show ?thesis
        by (auto simp: submit_def host_bind_def host_try_def Let_def
            intro!: submit_path.step submit_step.intros)
    qed
  qed
qed

text \<open>The runs of a submission, spelled out.\<close>

inductive_simps submit_step_simps:
  "submit_step (Admitting i) c q" "submit_step (Preparing t) c q" "submit_step (Claimed t) c q"
  "submit_step (Sent t f) c q" "submit_step (Lost t) c q"

lemma submit_path_unfold:
  "submit_path p cs (Done r) \<longleftrightarrow>
     cs = [] \<and> p = Done r \<or> (\<exists>c q cs'. cs = c # cs' \<and> submit_step p c q \<and> submit_path q cs' (Done r))"
  by (subst submit_path.simps) auto

lemma submit_path_Lost:
  "submit_path (Lost t) cs (Done r) \<Longrightarrow> \<exists>x. cs = [CallReload t x]
     \<and> (\<forall>out. x = Ok out \<longrightarrow> r = Ok \<lparr>outcome = out, disposition = DispositionReplayed\<rparr>)
     \<and> (\<forall>e. x = Err e \<longrightarrow> r = Err e)"
  by (subst (asm) submit_path_unfold) (auto simp: submit_step_simps)

lemma submit_path_Sent:
  "submit_path (Sent t f) cs (Done r) \<Longrightarrow> \<exists>x cs'. cs = CallRecord t f x # cs'
     \<and> (x = Ok ApplyConflict \<longrightarrow> submit_path (Lost t) cs' (Done r))
     \<and> (\<forall>out. x = Ok (Applied out) \<longrightarrow> cs' = [] \<and> r = Ok \<lparr>outcome = out, disposition = DispositionApplied\<rparr>)
     \<and> (\<forall>e. x = Err e \<longrightarrow> cs' = [] \<and> r = Err e)"
  by (subst (asm) submit_path_unfold) (auto simp: submit_step_simps)

lemma submit_path_Claimed:
  "submit_path (Claimed t) cs (Done r) \<Longrightarrow>
     \<exists>z cs'. cs = CallSend t z # cs' \<and> submit_path (Sent t (fact_of z)) cs' (Done r)"
  by (subst (asm) submit_path_unfold) (auto simp: submit_step_simps)

lemma submit_path_Preparing:
  "submit_path (Preparing t) cs (Done r) \<Longrightarrow> \<exists>y cs'. cs = CallBegin t y # cs'
     \<and> (y = Ok True \<longrightarrow> submit_path (Claimed t) cs' (Done r))
     \<and> (y = Ok False \<longrightarrow> submit_path (Lost t) cs' (Done r))
     \<and> (\<forall>e. y = Err e \<longrightarrow> cs' = [] \<and> r = Err e)"
  by (subst (asm) submit_path_unfold) (auto simp: submit_step_simps)

lemma submit_path_Admitting:
  "submit_path (Admitting i) cs (Done r) \<Longrightarrow> \<exists>x cs'. cs = CallPrepare i x # cs'
     \<and> (\<forall>t. x = Ok (Created t) \<longrightarrow> submit_path (Preparing t) cs' (Done r))
     \<and> ((\<forall>t. x \<noteq> Ok (Created t)) \<longrightarrow> cs' = [])"
  by (subst (asm) submit_path_unfold) (auto simp: submit_step_simps)

lemma submit_path_shapes:
  assumes "submit_path (Admitting i) calls (Done r)"
  obtains (unprepared) x where "calls = [CallPrepare i x]" and "\<forall>t. x \<noteq> Ok (Created t)"
  | (unclaimed) t e where "calls = [CallPrepare i (Ok (Created t)), CallBegin t (Err e)]"
  | (outrun) t x where "calls = [CallPrepare i (Ok (Created t)), CallBegin t (Ok False), CallReload t x]"
  | (recorded) t z x where "calls = [CallPrepare i (Ok (Created t)), CallBegin t (Ok True), CallSend t z,
      CallRecord t (fact_of z) x]" and "x \<noteq> Ok ApplyConflict"
  | (overtaken) t z x where "calls = [CallPrepare i (Ok (Created t)), CallBegin t (Ok True), CallSend t z,
      CallRecord t (fact_of z) (Ok ApplyConflict), CallReload t x]"
proof -
  from submit_path_Admitting [OF assms] obtain x cs
    where c: "calls = CallPrepare i x # cs" and p: "\<forall>t. x = Ok (Created t) \<longrightarrow> submit_path (Preparing t) cs (Done r)"
      "(\<forall>t. x \<noteq> Ok (Created t)) \<longrightarrow> cs = []"
    by blast
  show thesis
  proof (cases "\<exists>t. x = Ok (Created t)")
    case False
    with c p(2) that(1) show thesis by blast
  next
    case True
    then obtain t where t: "x = Ok (Created t)" by blast
    with p(1) have "submit_path (Preparing t) cs (Done r)" by blast
    from submit_path_Preparing [OF this] obtain y cs1 where y: "cs = CallBegin t y # cs1"
      "y = Ok True \<longrightarrow> submit_path (Claimed t) cs1 (Done r)"
      "y = Ok False \<longrightarrow> submit_path (Lost t) cs1 (Done r)" "\<forall>e. y = Err e \<longrightarrow> cs1 = [] \<and> r = Err e"
      by blast
    consider (err) e where "y = Err e" | (lost) "y = Ok False" | (won) "y = Ok True"
      by (metis (full_types) result.exhaust)
    then show thesis
    proof cases
      case err
      with c t y(1,4) show thesis by (intro that(2) [of t e]) simp
    next
      case lost
      with y(3) have "submit_path (Lost t) cs1 (Done r)" by simp
      from submit_path_Lost [OF this] obtain v where "cs1 = [CallReload t v]" by auto
      with lost c t y(1) show thesis by (intro that(3) [of t v]) simp
    next
      case won
      with y(2) have "submit_path (Claimed t) cs1 (Done r)" by simp
      from submit_path_Claimed [OF this] obtain z cs2
        where z: "cs1 = CallSend t z # cs2" "submit_path (Sent t (fact_of z)) cs2 (Done r)"
        by auto
      from submit_path_Sent [OF z(2)] obtain w cs3 where w: "cs2 = CallRecord t (fact_of z) w # cs3"
        "w = Ok ApplyConflict \<longrightarrow> submit_path (Lost t) cs3 (Done r)"
        and nil: "\<forall>out. w = Ok (Applied out) \<longrightarrow> cs3 = []" "\<forall>e. w = Err e \<longrightarrow> cs3 = []"
        by auto
      show thesis
      proof (cases "w = Ok ApplyConflict")
        case True
        with w(2) have "submit_path (Lost t) cs3 (Done r)" by simp
        from submit_path_Lost [OF this] obtain v where "cs3 = [CallReload t v]" by auto
        with True c t y(1) won z(1) w(1) show thesis by (intro that(5) [of t z v]) simp
      next
        case False
        with nil have "cs3 = []" by (metis apply_result.exhaust result.exhaust)
        with False c t y(1) won z(1) w(1) show thesis by (intro that(4) [of t z w]) simp_all
      qed
    qed
  qed
qed

lemma submit_path_last: "submit_path p cs q \<Longrightarrow> cs \<noteq> [] \<Longrightarrow> \<exists>p'. submit_step p' (last cs) q"
proof (induction rule: submit_path.induct)
  case (step p c q cs s)
  then show ?case by (cases cs) (auto elim: submit_path.cases)
qed simp

text \<open>
  Claim C24. A submission sends at most once. It sends only the task it prepared itself, right after
  its dispatch claim was persisted, and whatever the send returned is recorded next for that task;
  when the send failed, what is recorded is that acceptance is unknown.
\<close>

theorem submit_sends_once_under_claim:
  assumes "submission_run eff input h = (h', calls, r)"
    and "calls = before @ CallSend t z # after"
  shows "before = [CallPrepare input (Ok (Created t)), CallBegin t (Ok True)]
    \<and> (\<exists>w rest. after = CallRecord t (case z of Ok f \<Rightarrow> f | Err _ \<Rightarrow> Unknown) w # rest
         \<and> (\<forall>t' z'. CallSend t' z' \<notin> set rest))"
proof -
  have "submit_path (Admitting input) calls (Done r)"
    using submit_follows [OF assms(1)] by simp
  then show ?thesis
    using assms(2)
    by (cases rule: submit_path_shapes)
      (auto simp: Cons_eq_append_conv fact_of_def)
qed

text \<open>
  The result of a submission is never made up: the host state and the result are those of
  the unlogged workflow, the result is the one of the last call, an error is the error of that call,
  and the disposition says whether it was the submission's own commit, a conflicting identity, or a
  task found or reloaded because someone else had won.
\<close>

theorem submit_result_is_the_hosts:
  assumes "submission_run eff input h = (h', calls, r)"
  shows "submit eff input h = (h', r) \<and>
    (case last calls of
       CallPrepare i (Ok (PrepareReplayed out)) \<Rightarrow>
         r = Ok \<lparr>outcome = out, disposition = DispositionReplayed\<rparr>
     | CallPrepare i (Ok (PrepareConflict out)) \<Rightarrow>
         r = Ok \<lparr>outcome = out, disposition = DispositionConflict\<rparr>
     | CallPrepare i (Err e) \<Rightarrow> r = Err e
     | CallBegin t (Err e) \<Rightarrow> r = Err e
     | CallRecord t f (Ok (Applied out)) \<Rightarrow> r = Ok \<lparr>outcome = out, disposition = DispositionApplied\<rparr>
     | CallRecord t f (Err e) \<Rightarrow> r = Err e
     | CallReload t (Ok out) \<Rightarrow> r = Ok \<lparr>outcome = out, disposition = DispositionReplayed\<rparr>
     | CallReload t (Err e) \<Rightarrow> r = Err e
     | _ \<Rightarrow> False)"
proof -
  have f: "submit eff input h = (h', r)" "submit_path (Admitting input) calls (Done r)"
    using submit_follows [OF assms] by simp_all
  from f(2) have "calls \<noteq> []" by (auto elim: submit_path.cases)
  from submit_path_last [OF f(2) this] obtain q where "submit_step q (last calls) (Done r)" by blast
  from this f(1) show ?thesis by cases auto
qed

text \<open>A host whose send fails after the claim, for the examples.\<close>

definition sample_host :: "(nat, unit, nat, unit, unit, string, string) submission_effects" where
  "sample_host =
     \<lparr>prepare = (\<lambda>_ h. (h, Ok (Created 7))), begin_dispatch = (\<lambda>_ h. (h + 1, Ok True)),
      send = (\<lambda>_ h. (h, Err ''reset'')),
      record_submission = (\<lambda>_ f h. (h + 1, Ok (Applied (if f = Unknown then ''unknown'' else ''known'')))),
      reload = (\<lambda>_ h. (h, Ok ''winner''))\<rparr>"

lemma sample_host_run:
  "submission_run sample_host () 0 =
     (2, [CallPrepare () (Ok (Created 7)), CallBegin 7 (Ok True), CallSend 7 (Err ''reset''),
          CallRecord 7 Unknown (Ok (Applied ''unknown''))],
      Ok \<lparr>outcome = ''unknown'', disposition = DispositionApplied\<rparr>)"
  by (simp add: submission_run_def submit_def logged_submission_def sample_host_def host_bind_def
      host_try_def host_return_def logged_def fact_of_def)

theorem submit_sends_once_under_claim_witness:
  "fst (snd (submission_run sample_host () 0)) =
     [CallPrepare () (Ok (Created 7)), CallBegin 7 (Ok True)] @ CallSend 7 (Err ''reset'') #
     [CallRecord 7 Unknown (Ok (Applied ''unknown''))]
   \<and> (\<exists>w rest. [CallRecord 7 Unknown (Ok (Applied ''unknown''))] =
        (CallRecord 7 Unknown w :: (unit, nat, unit, unit, string, string) submit_call) # rest)"
proof -
  let ?before = "[CallPrepare () (Ok (Created 7)), CallBegin 7 (Ok True)]
    :: (unit, nat, unit, unit, string, string) submit_call list"
  from submit_sends_once_under_claim [OF sample_host_run, of ?before 7 "Err ''reset''"
      "[CallRecord 7 Unknown (Ok (Applied ''unknown''))]"] sample_host_run
  show ?thesis by simp
qed

theorem submit_result_is_the_hosts_witness:
  "submit sample_host () 0 = (2, Ok \<lparr>outcome = ''unknown'', disposition = DispositionApplied\<rparr>)"
  using submit_result_is_the_hosts [OF sample_host_run] by simp

section \<open>Observation and cancellation\<close>

datatype ('k, 't, 'raw, 'obs, 'o, 'e) observe_call =
    CallLoad 'k "(('t, 'o) observation_plan, 'e) result"
  | CallQuery 't "('raw, 'e) result"
  | CallNormalize 't "('raw, 'e) result" "('obs, 'e) result"
  | CallApply 't 'obs "('o apply_result, 'e) result"
  | CallObsReload 't "('o, 'e) result"

definition logged_observation ::
  "('h, 'k, 't, 'raw, 'obs, 'o, 'e) observation_effects
     \<Rightarrow> ('h \<times> ('k, 't, 'raw, 'obs, 'o, 'e) observe_call list, 'k, 't, 'raw, 'obs, 'o, 'e) observation_effects" where
  "logged_observation eff =
     \<lparr>obs_load = (\<lambda>k. logged (CallLoad k) (obs_load eff k)),
      obs_query = (\<lambda>t. logged (CallQuery t) (obs_query eff t)),
      obs_normalize = (\<lambda>t raw. logged (CallNormalize t raw) (obs_normalize eff t raw)),
      obs_apply = (\<lambda>t obs. logged (CallApply t obs) (obs_apply eff t obs)),
      obs_reload = (\<lambda>t. logged (CallObsReload t) (obs_reload eff t))\<rparr>"

text \<open>The runs of an observation: one list of calls per way through \<open>observe\<close>.\<close>

definition observation_calls ::
  "'k \<Rightarrow> ('k, 't, 'raw, 'obs, 'o, 'e) observe_call list \<Rightarrow> ('o, 'e) result \<Rightarrow> bool" where
  "observation_calls key calls r \<longleftrightarrow>
     (\<exists>e. calls = [CallLoad key (Err e)] \<and> r = Err e)
   \<or> (\<exists>out. calls = [CallLoad key (Ok (PlanReturn out))] \<and> r = Ok out)
   \<or> (\<exists>t raw e. calls = [CallLoad key (Ok (Query t)), CallQuery t raw, CallNormalize t raw (Err e)] \<and> r = Err e)
   \<or> (\<exists>t raw obs out. calls = [CallLoad key (Ok (Query t)), CallQuery t raw, CallNormalize t raw (Ok obs),
        CallApply t obs (Ok (Applied out))] \<and> r = Ok out)
   \<or> (\<exists>t raw obs e. calls = [CallLoad key (Ok (Query t)), CallQuery t raw, CallNormalize t raw (Ok obs),
        CallApply t obs (Err e)] \<and> r = Err e)
   \<or> (\<exists>t raw obs. calls = [CallLoad key (Ok (Query t)), CallQuery t raw, CallNormalize t raw (Ok obs),
        CallApply t obs (Ok ApplyConflict), CallObsReload t r])"

text \<open>
  An observation queries at most once, only the execution it restored itself, and a query
  failure is normalized like a response; what is applied is exactly the normalized observation, at
  most once, and a lost application returns the durable winner, never the observation. Without a
  claim or with a settled task nothing is queried.
\<close>

theorem observe_calls_in_order:
  assumes "observe (logged_observation eff) key (h, []) = ((h', calls), r)"
  shows "observe eff key h = (h', r) \<and> observation_calls key calls r"
  using assms
  by (auto simp: observe_def apply_observation_def logged_observation_def logged_def host_bind_def
      host_try_def host_return_def observation_calls_def
      split: prod.splits result.splits observation_plan.splits apply_result.splits)

definition sample_observer :: "(nat, unit, nat, string, string, string, string) observation_effects" where
  "sample_observer =
     \<lparr>obs_load = (\<lambda>_ h. (h, Ok (Query 7))), obs_query = (\<lambda>_ h. (h, Err ''reset'')),
      obs_normalize = (\<lambda>_ raw h. (h, Ok (case raw of Ok _ \<Rightarrow> ''known'' | Err _ \<Rightarrow> ''unknown''))),
      obs_apply = (\<lambda>_ _ h. (h + 1, Ok ApplyConflict)), obs_reload = (\<lambda>_ h. (h, Ok ''winner''))\<rparr>"

theorem observe_calls_in_order_witness:
  "observe sample_observer () 0 = (1, Ok ''winner'')
   \<and> observation_calls () [CallLoad () (Ok (Query (7 :: nat))), CallQuery 7 (Err ''reset'' :: (string, string) result),
       CallNormalize 7 (Err ''reset'') (Ok ''unknown''), CallApply 7 ''unknown'' (Ok ApplyConflict),
       CallObsReload 7 (Ok ''winner'')] (Ok ''winner'')"
proof -
  have "observe (logged_observation sample_observer) () (0, []) =
     ((1, [CallLoad () (Ok (Query 7)), CallQuery 7 (Err ''reset''),
       CallNormalize 7 (Err ''reset'') (Ok ''unknown''), CallApply 7 ''unknown'' (Ok ApplyConflict),
       CallObsReload 7 (Ok ''winner'')]), Ok ''winner'')"
    by (simp add: observe_def apply_observation_def logged_observation_def sample_observer_def logged_def
        host_bind_def host_try_def)
  from observe_calls_in_order [OF this] show ?thesis by simp
qed

datatype ('k, 't, 'o, 'e) cancel_call =
    CallLoadForCancel 'k "(('t, 'o) cancel_plan, 'e) result"
  | CallCancelPrepared 't "('o apply_result, 'e) result"
  | CallCancelIntent 't "('o, 'e) result"

definition logged_cancel ::
  "('h, 'k, 't, 'o, 'e) cancel_effects
     \<Rightarrow> ('h \<times> ('k, 't, 'o, 'e) cancel_call list, 'k, 't, 'o, 'e) cancel_effects" where
  "logged_cancel eff =
     \<lparr>load_for_cancel = (\<lambda>k. logged (CallLoadForCancel k) (load_for_cancel eff k)),
      cancel_prepared = (\<lambda>t. logged (CallCancelPrepared t) (cancel_prepared eff t)),
      record_cancel_intent = (\<lambda>t. logged (CallCancelIntent t) (record_cancel_intent eff t))\<rparr>"

text \<open>
  Claim C38. A cancellation never treats a dispatched task as free: it cancels outright only a task
  whose plan says it is prepared, and when the atomic proof of that is lost, or the plan says the
  task is dispatched, it records the intent and nothing else. An already settled task is not
  touched.
\<close>

theorem cancel_never_frees_dispatched:
  assumes "cancel (logged_cancel eff) key (h, []) = ((h', calls), r)"
  shows "cancel eff key h = (h', r) \<and>
    ((\<exists>e. calls = [CallLoadForCancel key (Err e)] \<and> r = Err e)
     \<or> (\<exists>out. calls = [CallLoadForCancel key (Ok (CancelReturn out))] \<and> r = Ok out)
     \<or> (\<exists>t. calls = [CallLoadForCancel key (Ok (Dispatched t)), CallCancelIntent t r])
     \<or> (\<exists>t out. calls = [CallLoadForCancel key (Ok (Prepared t)), CallCancelPrepared t (Ok (Applied out))] \<and> r = Ok out)
     \<or> (\<exists>t e. calls = [CallLoadForCancel key (Ok (Prepared t)), CallCancelPrepared t (Err e)] \<and> r = Err e)
     \<or> (\<exists>t. calls = [CallLoadForCancel key (Ok (Prepared t)), CallCancelPrepared t (Ok ApplyConflict),
          CallCancelIntent t r]))"
  using assms
  by (auto simp: cancel_def logged_cancel_def logged_def host_bind_def host_return_def
      split: prod.splits result.splits cancel_plan.splits apply_result.splits)

definition sample_canceller :: "(nat, unit, nat, string, string) cancel_effects" where
  "sample_canceller =
     \<lparr>load_for_cancel = (\<lambda>_ h. (h, Ok (Prepared 7))), cancel_prepared = (\<lambda>_ h. (h, Ok ApplyConflict)),
      record_cancel_intent = (\<lambda>_ h. (h + 1, Ok ''intent''))\<rparr>"

theorem cancel_never_frees_dispatched_witness:
  "cancel sample_canceller () 0 = (1, Ok ''intent'')"
proof -
  have "cancel (logged_cancel sample_canceller) () (0, []) =
      ((1, [CallLoadForCancel () (Ok (Prepared 7)), CallCancelPrepared 7 (Ok ApplyConflict),
        CallCancelIntent 7 (Ok ''intent'')]), Ok ''intent'')"
    by (simp add: cancel_def logged_cancel_def sample_canceller_def logged_def host_bind_def)
  from cancel_never_frees_dispatched [OF this] show ?thesis by simp
qed

section \<open>Waiting\<close>

text \<open>What justifies a result of \<open>controlled\<close>: the first poll that found something ready.\<close>

fun poll_gives :: "nat \<Rightarrow> 'a poll_round \<Rightarrow> 'a controlled_result \<Rightarrow> bool" where
  "poll_gives deadline p ControlledCancelled \<longleftrightarrow> cancel_ready p"
| "poll_gives deadline p ControlledTimedOut \<longleftrightarrow> \<not> cancel_ready p \<and> (deadline \<le> clock p \<or> timer_ready p)"
| "poll_gives deadline p (ControlledReady a) \<longleftrightarrow>
     \<not> cancel_ready p \<and> clock p < deadline \<and> \<not> timer_ready p \<and> operation p = Some a"

lemma controlled_justified:
  "controlled deadline ps = Some res \<Longrightarrow> \<exists>p\<in>set ps. poll_gives deadline p res"
proof (induction ps)
  case (Cons p ps)
  show ?case
  proof (cases "controlled deadline [p]")
    case None
    with Cons show ?thesis by (auto split: if_splits option.splits)
  next
    case (Some x)
    with Cons.prems have "poll_gives deadline p res" by (auto split: if_splits option.splits)
    then show ?thesis by auto
  qed
qed simp

text \<open>What justifies a result of \<open>wait\<close>.\<close>

definition turn_gives :: "nat \<Rightarrow> nat \<Rightarrow> ('o, 'e) wait_turn \<Rightarrow> ('o wait_result, 'e wait_error) result \<Rightarrow> bool" where
  "turn_gives deadline interval turn res \<longleftrightarrow>
     (case res of
        Err InvalidInterval \<Rightarrow> interval = 0
      | Err (HostError e) \<Rightarrow>
          (\<exists>p\<in>set (inspect_polls turn). poll_gives deadline p (ControlledReady (Err e)))
      | Ok (ResultReady out) \<Rightarrow>
          (\<exists>p\<in>set (inspect_polls turn). poll_gives deadline p (ControlledReady (Ok (WaitReady out))))
      | Ok TimedOut \<Rightarrow> (\<exists>p\<in>set (inspect_polls turn). poll_gives deadline p ControlledTimedOut)
          \<or> (\<exists>n\<le>interval. \<exists>p\<in>set (sleep_polls turn n). poll_gives deadline p ControlledTimedOut)
      | Ok Cancelled \<Rightarrow> (\<exists>p\<in>set (inspect_polls turn). cancel_ready p)
          \<or> (\<exists>n\<le>interval. \<exists>p\<in>set (sleep_polls turn n). cancel_ready p))"

lemma wait_loop_turn:
  assumes "wait_loop deadline interval (turn # turns) = Some res"
  shows "turn_gives deadline interval turn res \<or> wait_loop deadline interval turns = Some res"
proof -
  let ?n = "min interval (deadline - now_after turn)"
  have n: "?n \<le> interval" by simp
  obtain x where x: "controlled deadline (inspect_polls turn) = Some x"
    using assms by (auto split: option.splits)
  from controlled_justified [OF x] obtain p where p: "p \<in> set (inspect_polls turn)" "poll_gives deadline p x"
    by blast
  show ?thesis
  proof (cases "x = ControlledReady (Ok WaitPending)")
    case False
    with assms x p show ?thesis
      by (cases x; cases "SOME r. x = ControlledReady r")
        (auto simp: turn_gives_def split: result.splits wait_state.splits)
  next
    case True
    with assms x obtain y where y: "controlled deadline (sleep_polls turn ?n) = Some y"
      by (auto simp: Let_def split: option.splits)
    from controlled_justified [OF y] obtain q where q: "q \<in> set (sleep_polls turn ?n)" "poll_gives deadline q y"
      by blast
    from assms x True y show ?thesis
    proof (cases y)
      case ControlledTimedOut
      with assms x True y have "res = Ok TimedOut" by (simp add: Let_def)
      moreover have "\<exists>n\<le>interval. \<exists>p\<in>set (sleep_polls turn n). poll_gives deadline p ControlledTimedOut"
        using q n ControlledTimedOut by blast
      ultimately show ?thesis by (simp add: turn_gives_def)
    next
      case ControlledCancelled
      with assms x True y have "res = Ok Cancelled" by (simp add: Let_def)
      moreover have "\<exists>n\<le>interval. \<exists>p\<in>set (sleep_polls turn n). cancel_ready p"
        using q n ControlledCancelled by (intro exI [of _ ?n]) auto
      ultimately show ?thesis by (simp add: turn_gives_def)
    qed (simp add: Let_def)
  qed
qed

text \<open>
  A waiter returns what a poll justified, with cancellation before the deadline before
  readiness: an outcome only when some inspection delivered it at a poll before the deadline with no
  cancellation pending, a host error likewise, a timeout only at a poll that found the deadline
  passed or its timer fired and no cancellation, and a cancellation only at a poll that found it;
  a zero interval is refused before anything is polled.
\<close>

theorem wait_result_justified:
  assumes "wait deadline interval turns = Some res"
  shows "(interval = 0 \<and> res = Err InvalidInterval)
    \<or> (0 < interval \<and> (\<exists>turn\<in>set turns. turn_gives deadline interval turn res))"
proof (cases "interval = 0")
  case True
  with assms show ?thesis by (simp add: wait_def)
next
  case False
  with assms have "wait_loop deadline interval turns = Some res" by (simp add: wait_def)
  then have "\<exists>turn\<in>set turns. turn_gives deadline interval turn res"
  proof (induction turns)
    case (Cons turn turns)
    from wait_loop_turn [OF Cons.prems] Cons.IH show ?case by auto
  qed simp
  with False show ?thesis by simp
qed

text \<open>
  What a waiter relies on of its control and its host: every future becomes ready at some poll, a
  sleep is not over before its duration has passed, and the clock does not run backwards from one
  turn to the next.
\<close>

definition prompt :: "nat \<Rightarrow> ('o, 'e) wait_turn \<Rightarrow> bool" where
  "prompt deadline turn \<longleftrightarrow> controlled deadline (inspect_polls turn) \<noteq> None
     \<and> (\<forall>n. controlled deadline (sleep_polls turn n) \<noteq> None)"

definition sleeps_last :: "('o, 'e) wait_turn \<Rightarrow> bool" where
  "sleeps_last turn \<longleftrightarrow>
     (\<forall>n. \<forall>p\<in>set (sleep_polls turn n). operation p \<noteq> None \<longrightarrow> now_after turn + n \<le> clock p)"

fun clock_monotone :: "('o, 'e) wait_turn list \<Rightarrow> bool" where
  "clock_monotone (t # u # turns) \<longleftrightarrow>
     (\<forall>n. \<forall>p\<in>set (sleep_polls t n). clock p \<le> now_after u) \<and> clock_monotone (u # turns)"
| "clock_monotone _ \<longleftrightarrow> True"

lemma wait_loop_returns:
  assumes "0 < interval" and "\<forall>turn\<in>set turns. prompt deadline turn \<and> sleeps_last turn"
    and "clock_monotone turns" and "turns \<noteq> []"
    and "s \<le> now_after (hd turns)" and "deadline \<le> s + length turns * interval"
  shows "wait_loop deadline interval turns \<noteq> None"
  using assms(2-)
proof (induction turns arbitrary: s)
  case (Cons turn turns)
  let ?n = "min interval (deadline - now_after turn)"
  obtain x where x: "controlled deadline (inspect_polls turn) = Some x"
    using Cons.prems(1) by (auto simp: prompt_def)
  have "controlled deadline (sleep_polls turn ?n) \<noteq> None"
    using Cons.prems(1) by (simp add: prompt_def del: not_None_eq)
  then obtain y where y: "controlled deadline (sleep_polls turn ?n) = Some y" by blast
  have "wait_loop deadline interval turns \<noteq> None" if y1: "y = ControlledReady u" for u
  proof -
    from controlled_justified [OF y] y1 obtain q where q: "q \<in> set (sleep_polls turn ?n)"
      "clock q < deadline" "operation q \<noteq> None" by auto
    with Cons.prems(1) have "now_after turn + ?n \<le> clock q" by (auto simp: sleeps_last_def)
    with q(2) have c: "now_after turn + interval \<le> clock q" by (auto simp: min_def split: if_splits)
    with Cons.prems(4) have s: "s + interval \<le> clock q" by simp
    show ?thesis
    proof (cases turns)
      case Nil
      with s q(2) Cons.prems(5) show ?thesis by simp
    next
      case (Cons u us)
      with Cons.prems(2) q(1) s have "s + interval \<le> now_after u" by force
      with Cons.prems Cons show ?thesis by (intro Cons.IH [of "s + interval"]) simp_all
    qed
  qed
  with x y show ?case
    by (auto simp: Let_def split: controlled_result.splits result.splits wait_state.splits)
qed simp

text \<open>
  Claim C37. Waiting ends: when every future becomes ready at some poll, sleeps last as long as they
  are asked to and the clock does not run backwards, a wait with a positive interval returns within
  \<open>deadline / interval\<close> turns, rounded up.
\<close>

theorem wait_returns:
  assumes "\<forall>turn\<in>set turns. prompt deadline turn \<and> sleeps_last turn" and "clock_monotone turns"
    and "turns \<noteq> []" and "0 < interval" and "deadline \<le> length turns * interval"
  shows "\<exists>res. wait deadline interval turns = Some res"
  using wait_loop_returns [OF assms(4,1,2,3), of 0] assms(4,5) by (auto simp: wait_def)

text \<open>A task that stays pending, and a clock that advances by exactly the sleeps.\<close>

definition pending_turn :: "nat \<Rightarrow> (string, string) wait_turn" where
  "pending_turn t =
     \<lparr>inspect_polls = [\<lparr>cancel_ready = False, clock = t, timer_ready = False, operation = Some (Ok WaitPending)\<rparr>],
      now_after = t,
      sleep_polls = (\<lambda>n. [\<lparr>cancel_ready = False, clock = t + min n 5, timer_ready = 5 < n,
        operation = (if n \<le> 5 then Some () else None)\<rparr>])\<rparr>"

theorem wait_result_justified_witness:
  "wait 10 5 [pending_turn 0, pending_turn 5] = Some (Ok TimedOut)
   \<and> (\<exists>turn\<in>set [pending_turn 0, pending_turn 5]. turn_gives 10 5 turn (Ok TimedOut))"
proof -
  have "wait 10 5 [pending_turn 0, pending_turn 5] = Some (Ok TimedOut)"
    by (simp add: wait_def pending_turn_def)
  with wait_result_justified [OF this] show ?thesis by simp
qed

theorem wait_returns_witness:
  "clock_monotone [pending_turn 0, pending_turn 5]
   \<and> (\<exists>res. wait 10 5 [pending_turn 0, pending_turn 5] = Some res)"
proof -
  have "prompt 10 (pending_turn t) \<and> sleeps_last (pending_turn t)" for t
    by (auto simp: prompt_def sleeps_last_def pending_turn_def)
  moreover have "clock_monotone [pending_turn 0, pending_turn 5]"
    by (simp add: pending_turn_def)
  ultimately show ?thesis
    using wait_returns [of "[pending_turn 0, pending_turn 5]" 10 5] by simp
qed

end
