(* ===== verification/Task_Conformance.thy ===== *)
theory Task_Conformance
  imports Host_Effects
begin

text \<open>
  The conformance suite for a task's compound atomic effect, \<open>crates/south-task-conformance/src/lib.rs\<close>.
  The harness that drives a host is a parameter. The suite is shown to run all of its scenarios,
  each from a fresh fixture, to be passed by a host that implements the effect atomically, and to
  establish what its scenarios are about for every host that passes it.
\<close>

section \<open>Data\<close>

datatype fault = NoFault | BeforePrepareCommit | AfterPrepareCommit | BeforeApplyCommit | AfterApplyCommit

datatype prepared = PreparedCreated | PreparedReplayed | PreparedConflict

datatype completion = Succeeded | Failed | CancelledUnknown | CancelledNoCharge

datatype execution = Absent | Queued | Running | ExecutionUnknown | ExecutionSucceeded
  | ExecutionFailed | ExecutionCancelled

record 'd probe =
  tasks :: nat
  execution :: execution
  terminal :: bool
  held :: bool
  reserve_effects :: "nat option"
  close_effects :: "nat option"
  terminal_events :: nat
  version :: nat
  resource_digest :: "'d option"

record ('h, 'd) atomic_harness =
  expected_resource_digest :: "'h \<Rightarrow> completion \<Rightarrow> 'd option"
  reset :: "('h, unit, string) host"
  h_prepare :: "bool \<Rightarrow> fault \<Rightarrow> ('h, prepared, string) host"
  h_dispatch :: "('h, bool, string) host"
  guard :: "('h, nat, string) host"
  h_apply :: "nat \<Rightarrow> completion \<Rightarrow> fault \<Rightarrow> ('h, bool, string) host"
  takeover :: "('h, unit, string) host"
  h_cancel_prepared :: "('h, bool, string) host"
  snapshot :: "('h, 'd probe, string) host"

section \<open>The checks\<close>

definition require :: "bool \<Rightarrow> string \<Rightarrow> ('h, unit, string) host" where
  "require condition message = (if condition then host_return () else host_fail message)"

text \<open>\<open>Result::map_err\<close> on an awaited call.\<close>

definition host_map_err :: "('e \<Rightarrow> 'f) \<Rightarrow> ('h, 'a, 'e) host \<Rightarrow> ('h, 'a, 'f) host" where
  "host_map_err f m h = (case m h of (h', r) \<Rightarrow> (h', map_err f r))"

text \<open>A call that has to fail, \<open>require(call.await.is_err(), message)?\<close>.\<close>

definition require_err :: "('h, 'a, string) host \<Rightarrow> string \<Rightarrow> ('h, unit, string) host" where
  "require_err m message = host_bind (host_try m) (\<lambda>r. require (\<not> is_ok r) message)"

text \<open>\<open>Option::is_none_or(|n| n == k)\<close>.\<close>

definition none_or :: "nat option \<Rightarrow> nat \<Rightarrow> bool" where
  "none_or x k = (case x of None \<Rightarrow> True | Some n \<Rightarrow> n = k)"

definition resource_shape :: "'d probe \<Rightarrow> bool \<Rightarrow> ('h, unit, string) host" where
  "resource_shape p resources =
     require ((reserve_effects p \<noteq> None) = resources \<and> (close_effects p \<noteq> None) = resources
         \<and> (resource_digest p \<noteq> None) = resources)
       ''host resource applicability changed''"

definition suite_prepare :: "('h, 'd) atomic_harness \<Rightarrow> ('h, unit, string) host" where
  "suite_prepare H =
     host_bind (h_prepare H False NoFault) (\<lambda>p.
     host_bind (require (p = PreparedCreated) ''first prepare must create'') (\<lambda>_.
     host_bind (snapshot H) (\<lambda>probe.
     host_bind (require (tasks probe = 1 \<and> \<not> terminal probe \<and> terminal_events probe = 0)
       ''prepare facts mismatch'') (\<lambda>_.
     host_bind (require (none_or (reserve_effects probe) 1) ''prepare resource must happen once'') (\<lambda>_.
     require (none_or (close_effects probe) 0) ''prepare must not close resources'')))))"

definition expected_execution :: "completion \<Rightarrow> execution" where
  "expected_execution c =
     (case c of Succeeded \<Rightarrow> ExecutionSucceeded | Failed \<Rightarrow> ExecutionFailed
      | CancelledUnknown \<Rightarrow> ExecutionCancelled | CancelledNoCharge \<Rightarrow> ExecutionCancelled)"

definition closed :: "'d probe \<Rightarrow> completion \<Rightarrow> 'd option \<Rightarrow> ('h, unit, string) host" where
  "closed probe completion expected_resources =
     host_bind (require (execution probe = expected_execution completion)
       ''committed execution fact differs from observation'') (\<lambda>_.
     host_bind (require (resource_digest probe = expected_resources)
       ''committed resource result differs from host policy'') (\<lambda>_.
     host_bind (resource_shape probe (expected_resources \<noteq> None)) (\<lambda>_.
     host_bind (require (tasks probe = 1 \<and> terminal probe \<and> \<not> held probe) ''terminal facts mismatch'') (\<lambda>_.
     host_bind (require (terminal_events probe = 1) ''terminal event must happen once'') (\<lambda>_.
     host_bind (require (none_or (reserve_effects probe) 1) ''reservation count changed'') (\<lambda>_.
     require (none_or (close_effects probe) 1) ''resource close must happen once''))))))"

text \<open>\<open>host.expected_resource_digest(completion)\<close>, which reads the host.\<close>

definition expected :: "('h, 'd) atomic_harness \<Rightarrow> completion \<Rightarrow> ('h, 'd option, string) host" where
  "expected H completion h = (h, Ok (expected_resource_digest H h completion))"

definition suite_close :: "('h, 'd) atomic_harness \<Rightarrow> completion \<Rightarrow> ('h, unit, string) host" where
  "suite_close H completion =
     host_bind (guard H) (\<lambda>g.
     host_bind (h_apply H g completion NoFault) (\<lambda>committed.
     host_bind (require committed ''fresh apply must commit'') (\<lambda>_.
     host_bind (snapshot H) (\<lambda>probe.
     host_bind (expected H completion) (\<lambda>digest.
     closed probe completion digest)))))"

section \<open>The scenarios\<close>

definition unchanged :: "('h, 'd) atomic_harness \<Rightarrow> 'd probe \<Rightarrow> string \<Rightarrow> ('h, unit, string) host" where
  "unchanged H before message = host_bind (snapshot H) (\<lambda>now. require (now = before) message)"

definition require_bool :: "bool \<Rightarrow> ('h, bool, string) host \<Rightarrow> string \<Rightarrow> ('h, unit, string) host" where
  "require_bool b m message = host_bind m (\<lambda>r. require (r = b) message)"

definition run_observation_case :: "('h, 'd) atomic_harness \<Rightarrow> string \<Rightarrow> ('h, unit, string) host" where
  "run_observation_case H name =
     host_bind (snapshot H) (\<lambda>before.
     host_bind (guard H) (\<lambda>g.
     if name = ''apply_rollback'' then
       host_bind (require_err (h_apply H g Succeeded BeforeApplyCommit) ''injected apply must fail'') (\<lambda>_.
       host_bind (unchanged H before ''partial terminal effects escaped rollback'') (\<lambda>_.
       suite_close H Succeeded))
     else if name = ''apply_reply_loss'' then
       host_bind (require_err (h_apply H g Succeeded AfterApplyCommit) ''lost reply must be observed'') (\<lambda>_.
       host_bind (snapshot H) (\<lambda>committed.
       host_bind (expected H Succeeded) (\<lambda>digest.
       host_bind (closed committed Succeeded digest) (\<lambda>_.
       host_bind (require_bool False (h_apply H g Succeeded NoFault) ''lost reply repeated terminal'') (\<lambda>_.
       unchanged H committed ''lost reply repeated close or event'')))))
     else if name = ''terminal_replay'' then
       host_bind (suite_close H Succeeded) (\<lambda>_.
       host_bind (snapshot H) (\<lambda>committed.
       host_bind (require_bool False (h_apply H g Failed NoFault) ''stale failure replaced success'') (\<lambda>_.
       host_bind (guard H) (\<lambda>current.
       host_bind (require_bool False (h_apply H current Succeeded NoFault)
         ''terminal reapplied at current version'') (\<lambda>_.
       unchanged H committed ''terminal replay changed effects'')))))
     else if name = ''stale_owner'' then
       host_bind (takeover H) (\<lambda>_.
       host_bind (snapshot H) (\<lambda>winner.
       host_bind (require (version winner \<noteq> g) ''takeover did not change guard'') (\<lambda>_.
       host_bind (require_bool False (h_apply H g Succeeded NoFault) ''stale owner wrote after takeover'') (\<lambda>_.
       host_bind (unchanged H winner ''stale owner changed effects'') (\<lambda>_.
       suite_close H Succeeded)))))
     else if name = ''cancel_unknown_then_evidence'' then
       host_bind (require_bool True (h_apply H g CancelledUnknown NoFault)
         ''unknown cancellation not recorded'') (\<lambda>_.
       host_bind (snapshot H) (\<lambda>unknown.
       host_bind (require (terminal unknown \<and> terminal_events unknown = 1)
         ''cancellation lost execution fact'') (\<lambda>_.
       host_bind (require (execution unknown = ExecutionCancelled)
         ''committed execution fact differs from cancellation'') (\<lambda>_.
       host_bind (resource_shape unknown (reserve_effects before \<noteq> None)) (\<lambda>_.
       if reserve_effects before \<noteq> None then
         host_bind (require (held unknown \<and> close_effects unknown = Some 0)
           ''unknown cancellation closed resources'') (\<lambda>_.
         host_bind (require (resource_digest unknown = resource_digest before)
           ''unknown cancellation changed reserved resources'') (\<lambda>_.
         suite_close H CancelledNoCharge))
       else
         require (\<not> held unknown \<and> close_effects unknown = None \<and> resource_digest unknown = None)
           ''no-funds host invented financial effects'')))))
     else if name = ''failure_closes'' then suite_close H Failed
     else host_fail ''unknown conformance case''))"

definition run_case :: "('h, 'd) atomic_harness \<Rightarrow> string \<Rightarrow> ('h, unit, string) host" where
  "run_case H name =
     (if name = ''prepare_rollback'' then
        host_bind (snapshot H) (\<lambda>before.
        host_bind (require_err (h_prepare H False BeforePrepareCommit) ''injected prepare must fail'') (\<lambda>_.
        host_bind (unchanged H before ''partial prepare effects escaped rollback'') (\<lambda>_.
        suite_prepare H)))
      else if name = ''prepare_reply_loss'' then
        host_bind (require_err (h_prepare H False AfterPrepareCommit) ''lost reply must be observed'') (\<lambda>_.
        host_bind (snapshot H) (\<lambda>committed.
        host_bind (require (tasks committed = 1 \<and> none_or (reserve_effects committed) 1)
          ''lost reply did not commit'') (\<lambda>_.
        host_bind (h_prepare H False NoFault) (\<lambda>p.
        host_bind (require (p = PreparedReplayed) ''lost reply replay must find original'') (\<lambda>_.
        unchanged H committed ''lost reply repeated effects'')))))
      else
        host_bind (suite_prepare H) (\<lambda>_.
        if name = ''prepare_replay'' then
          host_bind (snapshot H) (\<lambda>before.
          host_bind (h_prepare H False NoFault) (\<lambda>p.
          host_bind (require (p = PreparedReplayed) ''same request must replay'') (\<lambda>_.
          host_bind (h_prepare H True NoFault) (\<lambda>q.
          host_bind (require (q = PreparedConflict) ''different request must conflict'') (\<lambda>_.
          unchanged H before ''replay or conflict changed effects'')))))
        else if name = ''cancel_before_dispatch'' then
          host_bind (require_bool True (h_cancel_prepared H) ''prepared cancellation must win'') (\<lambda>_.
          host_bind (snapshot H) (\<lambda>committed.
          host_bind (expected H CancelledNoCharge) (\<lambda>digest.
          host_bind (closed committed CancelledNoCharge digest) (\<lambda>_.
          host_bind (require_bool False (h_dispatch H) ''canceled task dispatched'') (\<lambda>_.
          host_bind (require_bool False (h_cancel_prepared H) ''duplicate cancellation committed'') (\<lambda>_.
          unchanged H committed ''duplicate cancellation changed effects''))))))
        else
          host_bind (require_bool True (h_dispatch H) ''first dispatch must win'') (\<lambda>_.
          host_bind (snapshot H) (\<lambda>before.
          if name = ''dispatch_before_cancel'' then
            host_bind (require_bool False (h_cancel_prepared H) ''dispatch winner released resources'') (\<lambda>_.
            host_bind (require_bool False (h_dispatch H) ''task dispatched twice'') (\<lambda>_.
            unchanged H before ''losing cancellation changed effects''))
          else run_observation_case H name))))"

section \<open>The suite\<close>

definition suite_names :: "string list" where
  "suite_names =
     [''prepare_rollback'', ''prepare_replay'', ''prepare_reply_loss'', ''apply_rollback'',
      ''apply_reply_loss'', ''terminal_replay'', ''stale_owner'', ''cancel_before_dispatch'',
      ''dispatch_before_cancel'', ''cancel_unknown_then_evidence'', ''failure_closes'']"

record case_report =
  report_name :: string

text \<open>One turn of the loop over the scenarios.\<close>

definition run_scenario :: "('h, 'd) atomic_harness \<Rightarrow> string \<Rightarrow> ('h, unit, string) host" where
  "run_scenario H name =
     host_bind (host_map_err (\<lambda>e. name @ '': reset: '' @ e) (reset H)) (\<lambda>_.
     host_bind (expected H Succeeded) (\<lambda>digest.
     let resources = (digest \<noteq> None) in
     host_bind (snapshot H) (\<lambda>probe.
     host_bind (resource_shape probe resources) (\<lambda>_.
     host_bind (host_map_err (\<lambda>e. name @ '': '' @ e) (run_case H name)) (\<lambda>_.
     host_bind (snapshot H) (\<lambda>probe'.
     host_map_err (\<lambda>e. name @ '': '' @ e) (resource_shape probe' resources)))))))"

fun suite_loop :: "('h, 'd) atomic_harness \<Rightarrow> string list \<Rightarrow> case_report list
    \<Rightarrow> ('h, case_report list, string) host" where
  "suite_loop H [] reports = host_return reports"
| "suite_loop H (name # names) reports =
     host_bind (run_scenario H name) (\<lambda>_. suite_loop H names (reports @ [\<lparr>report_name = name\<rparr>]))"

definition run_atomic_suite :: "('h, 'd) atomic_harness \<Rightarrow> ('h, case_report list, string) host" where
  "run_atomic_suite H = suite_loop H suite_names []"

section \<open>The suite runs every scenario\<close>

lemma host_bind_Ok_iff:
  "host_bind m k h = (h', Ok b) \<longleftrightarrow> (\<exists>h1 a. m h = (h1, Ok a) \<and> k a h1 = (h', Ok b))"
  by (auto simp: host_bind_def split: prod.splits result.splits)

lemma host_map_err_Ok_iff: "host_map_err f m h = (h', Ok a) \<longleftrightarrow> m h = (h', Ok a)"
proof (cases "m h")
  case (Pair h1 r)
  then show ?thesis by (cases r) (auto simp: host_map_err_def)
qed

lemma require_Ok_iff: "require c m h = (h', Ok u) \<longleftrightarrow> c \<and> h' = h"
  by (auto simp: require_def host_return_def host_fail_def)

lemma require_bool_Ok_iff: "require_bool b m msg h = (h', Ok u) \<longleftrightarrow> m h = (h', Ok b)"
  by (auto simp: require_bool_def host_bind_Ok_iff require_Ok_iff)

lemma unchanged_Ok_iff: "unchanged H before msg h = (h', Ok u) \<longleftrightarrow> snapshot H h = (h', Ok before)"
  by (auto simp: unchanged_def host_bind_Ok_iff require_Ok_iff)

lemma require_err_Ok_iff: "require_err m msg h = (h', Ok u) \<longleftrightarrow> (\<exists>e. m h = (h', Err e))"
proof (cases "m h")
  case (Pair h1 r)
  then show ?thesis
    by (cases r) (auto simp: require_err_def host_bind_def host_try_def require_def host_return_def host_fail_def)
qed

lemma expected_Ok_iff: "expected H c h = (h', Ok d) \<longleftrightarrow> h' = h \<and> d = expected_resource_digest H h c"
  by (auto simp: expected_def)

lemmas suite_iff = host_bind_Ok_iff host_map_err_Ok_iff require_Ok_iff require_bool_Ok_iff
  unchanged_Ok_iff require_err_Ok_iff expected_Ok_iff

text \<open>A scenario passed: the fixture was reset and the case ran without a failed check.\<close>

definition scenario_passed :: "('h, 'd) atomic_harness \<Rightarrow> string \<Rightarrow> bool" where
  "scenario_passed H name \<longleftrightarrow>
     (\<exists>h0 h1 h2 h3. reset H h0 = (h1, Ok ()) \<and> (\<exists>p. snapshot H h1 = (h2, Ok p))
        \<and> run_case H name h2 = (h3, Ok ()))"

lemma run_scenario_passed: "run_scenario H name h = (h', Ok u) \<Longrightarrow> scenario_passed H name"
  unfolding run_scenario_def Let_def
  by (auto simp: suite_iff resource_shape_def scenario_passed_def)

lemma suite_loop_passed:
  "suite_loop H names reports h = (h', Ok reports') \<Longrightarrow>
     reports' = reports @ map (\<lambda>name. \<lparr>report_name = name\<rparr>) names \<and> (\<forall>name\<in>set names. scenario_passed H name)"
proof (induction names arbitrary: reports h)
  case (Cons name names)
  then obtain h1 u where "run_scenario H name h = (h1, Ok u)"
    and "suite_loop H names (reports @ [\<lparr>report_name = name\<rparr>]) h1 = (h', Ok reports')"
    by (auto simp: host_bind_Ok_iff)
  with Cons.IH [OF this(2)] show ?case by (auto dest: run_scenario_passed)
qed (simp add: host_return_def)

text \<open>
  A passing suite has skipped nothing: it reports each of its eleven scenarios, in order,
  and each of them was run to its end on a freshly reset fixture with every check passed.
\<close>

theorem suite_skips_nothing:
  assumes "run_atomic_suite H h = (h', Ok reports)"
  shows "map report_name reports = suite_names \<and> (\<forall>name\<in>set suite_names. scenario_passed H name)"
  using suite_loop_passed [OF assms [unfolded run_atomic_suite_def]] by (simp add: comp_def)

section \<open>What passing means\<close>

lemma passed_prepare_rollback:
  "scenario_passed H ''prepare_rollback'' \<Longrightarrow>
     \<exists>h h1 h2 before e. snapshot H h = (h1, Ok before) \<and> h_prepare H False BeforePrepareCommit h1 = (h2, Err e)
       \<and> (\<exists>h3. snapshot H h2 = (h3, Ok before))"
  unfolding scenario_passed_def run_case_def by (simp add: suite_iff) blast

lemma passed_stale_owner:
  "scenario_passed H ''stale_owner'' \<Longrightarrow>
     \<exists>h g h1 h2 h3 h4 winner. guard H h = (h1, Ok g) \<and> takeover H h1 = (h2, Ok ())
       \<and> snapshot H h2 = (h3, Ok winner) \<and> version winner \<noteq> g
       \<and> h_apply H g Succeeded NoFault h3 = (h4, Ok False) \<and> (\<exists>h5. snapshot H h4 = (h5, Ok winner))"
  unfolding scenario_passed_def run_case_def run_observation_case_def by (simp add: suite_iff) blast

lemma passed_dispatch_before_cancel:
  "scenario_passed H ''dispatch_before_cancel'' \<Longrightarrow>
     \<exists>h h1 h2 h3 h4 before. h_dispatch H h = (h1, Ok True) \<and> snapshot H h1 = (h2, Ok before)
       \<and> h_cancel_prepared H h2 = (h3, Ok False) \<and> h_dispatch H h3 = (h4, Ok False)
       \<and> (\<exists>h5. snapshot H h4 = (h5, Ok before))"
  unfolding scenario_passed_def run_case_def by (simp add: suite_iff) blast


section \<open>A host that passes\<close>

text \<open>A host that keeps one task and makes each effect in one step, with or without resources.\<close>

record ref_task =
  rt_execution :: execution
  rt_terminal :: bool
  rt_held :: bool
  rt_closes :: nat
  rt_version :: nat
  rt_digest :: nat

record ref_host =
  rh_resources :: bool
  rh_task :: "ref_task option"

definition completion_digest :: "completion \<Rightarrow> nat" where
  "completion_digest c =
     (case c of Succeeded \<Rightarrow> 2 | Failed \<Rightarrow> 3 | CancelledUnknown \<Rightarrow> 1 | CancelledNoCharge \<Rightarrow> 4)"

definition ref_snapshot :: "ref_host \<Rightarrow> nat probe" where
  "ref_snapshot h =
     (let res = (\<lambda>n. if rh_resources h then Some n else None) in
      case rh_task h of
        None \<Rightarrow> \<lparr>tasks = 0, execution = Absent, terminal = False, held = False, reserve_effects = res 0,
          close_effects = res 0, terminal_events = 0, version = 0, resource_digest = res 0\<rparr>
      | Some t \<Rightarrow> \<lparr>tasks = 1, execution = rt_execution t, terminal = rt_terminal t, held = rt_held t,
          reserve_effects = res 1, close_effects = res (rt_closes t),
          terminal_events = (if rt_terminal t then 1 else 0), version = rt_version t,
          resource_digest = res (rt_digest t)\<rparr>)"

definition ref_apply :: "completion \<Rightarrow> ref_task \<Rightarrow> ref_task" where
  "ref_apply c t =
     (if c = CancelledUnknown
      then t\<lparr>rt_execution := ExecutionCancelled, rt_terminal := True, rt_version := rt_version t + 1\<rparr>
      else t\<lparr>rt_execution := expected_execution c, rt_terminal := True, rt_held := False,
             rt_closes := 1, rt_version := rt_version t + 1, rt_digest := completion_digest c\<rparr>)"

definition ref_prepare :: "bool \<Rightarrow> fault \<Rightarrow> (ref_host, prepared, string) host" where
  "ref_prepare different f h =
     (if f = BeforePrepareCommit then (h, Err ''injected'')
      else case rh_task h of
        Some _ \<Rightarrow> (h, Ok (if different then PreparedConflict else PreparedReplayed))
      | None \<Rightarrow>
          (h\<lparr>rh_task := Some \<lparr>rt_execution = Queued, rt_terminal = False, rt_held = rh_resources h,
             rt_closes = 0, rt_version = 1, rt_digest = 1\<rparr>\<rparr>,
           if f = AfterPrepareCommit then Err ''reply lost'' else Ok PreparedCreated))"

definition ref_harness :: "(ref_host, nat) atomic_harness" where
  "ref_harness =
     \<lparr>expected_resource_digest = (\<lambda>h c. if rh_resources h then Some (completion_digest c) else None),
      reset = (\<lambda>h. (h\<lparr>rh_task := None\<rparr>, Ok ())),
      h_prepare = ref_prepare,
      h_dispatch = (\<lambda>h. case rh_task h of
          Some t \<Rightarrow> if rt_execution t = Queued
            then (h\<lparr>rh_task := Some (t\<lparr>rt_execution := Running, rt_version := rt_version t + 1\<rparr>)\<rparr>, Ok True)
            else (h, Ok False)
        | None \<Rightarrow> (h, Ok False)),
      guard = (\<lambda>h. (h, Ok (case rh_task h of Some t \<Rightarrow> rt_version t | None \<Rightarrow> 0))),
      h_apply = (\<lambda>g c f h. if f = BeforeApplyCommit then (h, Err ''injected'') else case rh_task h of
          Some t \<Rightarrow> if rt_version t = g \<and> (\<not> rt_terminal t \<or> rt_held t \<and> c = CancelledNoCharge)
            then (h\<lparr>rh_task := Some (ref_apply c t)\<rparr>, if f = AfterApplyCommit then Err ''reply lost'' else Ok True)
            else (h, Ok False)
        | None \<Rightarrow> (h, Ok False)),
      takeover = (\<lambda>h. (h\<lparr>rh_task := map_option (\<lambda>t. t\<lparr>rt_version := rt_version t + 1\<rparr>) (rh_task h)\<rparr>, Ok ())),
      h_cancel_prepared = (\<lambda>h. case rh_task h of
          Some t \<Rightarrow> if rt_execution t = Queued then (h\<lparr>rh_task := Some (ref_apply CancelledNoCharge t)\<rparr>, Ok True)
            else (h, Ok False)
        | None \<Rightarrow> (h, Ok False)),
      snapshot = (\<lambda>h. (h, Ok (ref_snapshot h)))\<rparr>"

lemma ref_harness_passes:
  "snd (run_atomic_suite ref_harness \<lparr>rh_resources = True, rh_task = None\<rparr>) =
     Ok (map (\<lambda>name. \<lparr>report_name = name\<rparr>) suite_names)"
  "snd (run_atomic_suite ref_harness \<lparr>rh_resources = False, rh_task = None\<rparr>) =
     Ok (map (\<lambda>name. \<lparr>report_name = name\<rparr>) suite_names)"
  by code_simp+

text \<open>
  The suite can be passed, and tells hosts apart: a host that makes every effect in one
  step passes all scenarios with and without a resource ledger, while the same host is refused, by
  the scenario made for it, when a failing prepare leaves its task behind, when an apply ignores the
  claim's version, or when a dispatched task can still be cancelled as prepared.
\<close>

theorem suite_separates_hosts:
  "snd (run_atomic_suite ref_harness \<lparr>rh_resources = True, rh_task = None\<rparr>) =
     Ok (map (\<lambda>name. \<lparr>report_name = name\<rparr>) suite_names) \<and>
   snd (run_atomic_suite ref_harness \<lparr>rh_resources = False, rh_task = None\<rparr>) =
     Ok (map (\<lambda>name. \<lparr>report_name = name\<rparr>) suite_names) \<and>
   snd (run_atomic_suite (ref_harness\<lparr>h_prepare := \<lambda>d f h.
       if f = BeforePrepareCommit then (fst (ref_prepare d NoFault h), Err ''injected'') else ref_prepare d f h\<rparr>)
     \<lparr>rh_resources = True, rh_task = None\<rparr>) =
     Err ''prepare_rollback: partial prepare effects escaped rollback'' \<and>
   snd (run_atomic_suite (ref_harness\<lparr>h_apply := \<lambda>g c f h.
       h_apply ref_harness (case rh_task h of Some t \<Rightarrow> rt_version t | None \<Rightarrow> g) c f h\<rparr>)
     \<lparr>rh_resources = True, rh_task = None\<rparr>) = Err ''stale_owner: stale owner wrote after takeover'' \<and>
   snd (run_atomic_suite (ref_harness\<lparr>h_cancel_prepared := \<lambda>h. case rh_task h of
         Some t \<Rightarrow> if \<not> rt_terminal t then (h\<lparr>rh_task := Some (ref_apply CancelledNoCharge t)\<rparr>, Ok True)
           else (h, Ok False)
       | None \<Rightarrow> (h, Ok False)\<rparr>)
     \<lparr>rh_resources = True, rh_task = None\<rparr>) =
     Err ''dispatch_before_cancel: dispatch winner released resources''"
  by code_simp

theorem suite_skips_nothing_witness:
  "\<exists>h' reports. run_atomic_suite ref_harness \<lparr>rh_resources = True, rh_task = None\<rparr> = (h', Ok reports)
     \<and> map report_name reports = suite_names"
proof -
  obtain h' where "run_atomic_suite ref_harness \<lparr>rh_resources = True, rh_task = None\<rparr> =
      (h', Ok (map (\<lambda>name. \<lparr>report_name = name\<rparr>) suite_names))"
    using ref_harness_passes(1) by (metis prod.collapse)
  with suite_skips_nothing [OF this] show ?thesis by blast
qed


end
