(* ===== verification/Utf8_Chars.thy ===== *)
theory Utf8_Chars
  imports Ascii
begin

text \<open>
  Rust's \<open>char\<close> in UTF-8 strings: \<open>char::from_u32\<close>, \<open>String::push\<close> and the character boundaries of
  a string, as the media and task contracts use them.
\<close>

section \<open>Characters as bytes\<close>

text \<open>\<open>char::from_u32\<close>: the Unicode scalar values.\<close>

definition char_from_u32 :: "nat \<Rightarrow> nat option" where
  "char_from_u32 code = (if code < 0xD800 \<or> 0xE000 \<le> code \<and> code \<le> 0x10FFFF then Some code else None)"

text \<open>The bytes \<open>String::push\<close> appends for a scalar value.\<close>

definition encode_utf8 :: "nat \<Rightarrow> bytes" where
  "encode_utf8 code =
     (if code < 0x80 then [char_of code]
      else if code < 0x800 then [char_of (0xC0 + code div 0x40), char_of (0x80 + code mod 0x40)]
      else if code < 0x10000 then
        [char_of (0xE0 + code div 0x1000), char_of (0x80 + code div 0x40 mod 0x40), char_of (0x80 + code mod 0x40)]
      else
        [char_of (0xF0 + code div 0x40000), char_of (0x80 + code div 0x1000 mod 0x40),
         char_of (0x80 + code div 0x40 mod 0x40), char_of (0x80 + code mod 0x40)])"

lemma of_char_of: "n < 256 \<Longrightarrow> (of_char (char_of n :: char) :: nat) = n"
  by (simp add: of_char_mod_256)

lemma char_of_eq_iff: "n < 256 \<Longrightarrow> (char_of n = c) = (n = (of_char c :: nat))"
  by (metis of_char_of char_of_char)

lemma utf8_second3_code:
  fixes code :: nat
  assumes "0x800 \<le> code" and "code < 0xD800 \<or> 0xE000 \<le> code" and "code < 0x10000"
  shows "utf8_second3 (char_of (0xE0 + code div 0x1000)) (char_of (0x80 + code div 0x40 mod 0x40))"
proof -
  define q where "q = code div 64"
  have q: "code div 4096 = q div 64" "32 \<le> q" "q < 864 \<or> 896 \<le> q"
    using assms by (auto simp: q_def simp flip: div_mult2_eq)
  have low: "32 \<le> code div 64 mod 64" if "code div 4096 = 0"
    using that q div_mult_mod_eq [of q 64] unfolding q_def [symmetric] by linarith
  have high: "code div 64 mod 64 < 32" if "code div 4096 = 13"
    using that q div_mult_mod_eq [of q 64] unfolding q_def [symmetric] by linarith
  have a: "(char_of (0xE0 + code div 0x1000) = CHR 0xE0) = (code div 4096 = 0)"
      "(char_of (0xE0 + code div 0x1000) = CHR 0xED) = (code div 4096 = 13)"
    using assms(3) by (simp_all add: char_of_eq_iff)
  show ?thesis
    unfolding utf8_second3_def a byte_in_def using low high mod_less_divisor [of 64 "code div 64"]
    by (auto simp: of_char_of)
qed

lemma utf8_second4_code:
  fixes code :: nat
  assumes "0x10000 \<le> code" and "code \<le> 0x10FFFF"
  shows "utf8_second4 (char_of (0xF0 + code div 0x40000)) (char_of (0x80 + code div 0x1000 mod 0x40))"
proof -
  define q where "q = code div 4096"
  have q: "code div 262144 = q div 64" "16 \<le> q" "q \<le> 271"
    using assms by (auto simp: q_def simp flip: div_mult2_eq)
  have low: "16 \<le> code div 4096 mod 64" if "code div 262144 = 0"
    using that q div_mult_mod_eq [of q 64] unfolding q_def [symmetric] by linarith
  have high: "code div 4096 mod 64 < 16" if "code div 262144 = 4"
    using that q div_mult_mod_eq [of q 64] unfolding q_def [symmetric] by linarith
  have a: "(char_of (0xF0 + code div 0x40000) = CHR 0xF0) = (code div 262144 = 0)"
      "(char_of (0xF0 + code div 0x40000) = CHR 0xF4) = (code div 262144 = 4)"
    using assms(2) by (simp_all add: char_of_eq_iff)
  show ?thesis
    unfolding utf8_second4_def a byte_in_def using low high mod_less_divisor [of 64 "code div 4096"]
    by (auto simp: of_char_of)
qed

lemma encode_utf8_head:
  assumes "char_from_u32 code = Some c"
  shows "utf8_head (encode_utf8 code) = Some (length (encode_utf8 code))"
proof -
  have c: "code < 0xD800 \<or> 0xE000 \<le> code \<and> code \<le> 0x10FFFF"
    using assms by (simp add: char_from_u32_def split: if_splits)
  consider (1) "code < 0x80" | (2) "0x80 \<le> code" "code < 0x800" | (3) "0x800 \<le> code" "code < 0x10000"
    | (4) "0x10000 \<le> code" "code \<le> 0x10FFFF"
    using c by linarith
  then show ?thesis
  proof cases
    case 1
    then show ?thesis by (simp add: encode_utf8_def utf8_head_def byte_in_def of_char_of)
  next
    case 2
    then have "2 \<le> code div 64" "code div 64 < 32" "code mod 64 \<le> 63" by auto
    with 2 show ?thesis by (simp add: encode_utf8_def utf8_head_def byte_in_def of_char_of)
  next
    case 3
    then have "code div 4096 \<le> 15" "code mod 64 \<le> 63" by auto
    with 3 c utf8_second3_code [of code] show ?thesis
      by (simp add: encode_utf8_def utf8_head_def byte_in_def of_char_of)
  next
    case 4
    then have "code div 262144 \<le> 4" "code mod 64 \<le> 63" by auto
    with 4 utf8_second4_code [of code] show ?thesis
      by (simp add: encode_utf8_def utf8_head_def byte_in_def of_char_of)
  qed
qed

section \<open>Whole characters\<close>

definition utf8_char :: "bytes \<Rightarrow> bool" where
  "utf8_char ch \<longleftrightarrow> utf8_head ch = Some (length ch)"

lemma utf8_char_take:
  assumes "utf8_head s = Some n"
  shows "utf8_char (take n s)"
  using assms unfolding utf8_char_def
  by (cases s rule: list4_cases) (auto simp: utf8_head_def split: if_splits)

lemma utf8_char_append: "utf8_char ch \<Longrightarrow> utf8_head (ch @ s) = Some (length ch)"
  by (simp add: utf8_char_def utf8_head_append)

lemma utf8_char_not_Nil [simp]: "\<not> utf8_char []"
  by (simp add: utf8_char_def utf8_head_def)

lemma utf8_char_valid: "utf8_char ch \<Longrightarrow> utf8_valid ch"
  by (subst utf8_valid.simps) (simp add: utf8_char_def)

lemma utf8_char_encode: "char_from_u32 code = Some c \<Longrightarrow> utf8_char (encode_utf8 code)"
  by (simp add: utf8_char_def encode_utf8_head)

lemma utf8_char_ascii: "ascii c \<Longrightarrow> utf8_char [c]"
  by (simp add: utf8_char_def utf8_head_def ascii_byte_in)

text \<open>A valid string is a sequence of whole characters, and can be read one at a time.\<close>

lemma utf8_valid_cases:
  assumes "utf8_valid s"
  obtains "s = []" | ch r where "s = ch @ r" "utf8_char ch" "utf8_valid r"
proof (cases "utf8_head s")
  case None
  with assms that show ?thesis by (simp add: utf8_valid.simps [of s])
next
  case (Some n)
  with assms have "utf8_valid (drop n s)" by (simp add: utf8_valid.simps [of s])
  with that(2) [of "take n s" "drop n s"] utf8_char_take [OF Some] show ?thesis by simp
qed

lemma utf8_chars_induct [consumes 1, case_names Nil Char]:
  assumes "utf8_valid s" and "P []" and "\<And>ch r. utf8_char ch \<Longrightarrow> utf8_valid r \<Longrightarrow> P r \<Longrightarrow> P (ch @ r)"
  shows "P s"
  using assms(1)
proof (induction "length s" arbitrary: s rule: less_induct)
  case less
  from less.prems show ?case
  proof (cases rule: utf8_valid_cases)
    case (2 ch r)
    then have "length r < length s" by (cases ch) auto
    with 2 less.hyps [of r] assms(3) [of ch r] show ?thesis by simp
  qed (simp add: assms(2))
qed

end
