(* ===== verification/Media_Base.thy ===== *)
theory Media_Base
  imports Utf8_Chars Ordered_Map
begin

text \<open>
  \<open>south-contracts/src/media/mod.rs\<close>: the limits, blob identifiers and blob sets of the media
  vocabulary, with \<open>utf8_prefix\<close> of \<open>elide.rs\<close> and the decimal rendering the texts use.
\<close>

section \<open>Limits\<close>

record media_limits =
  ml_inline_string_bytes :: nat
  ml_elision_paths :: nat
  ml_elision_path_bytes :: nat
  ml_blob_head_bytes :: nat
  ml_repeat :: nat
  ml_artifact_url_bytes :: nat
  ml_parts :: nat
  ml_part_header_bytes :: nat
  ml_state_bytes :: nat

definition media_limits_v1 :: media_limits where
  "media_limits_v1 =
     \<lparr>ml_inline_string_bytes = 1024 * 1024, ml_elision_paths = 32, ml_elision_path_bytes = 256,
      ml_blob_head_bytes = 64, ml_repeat = 10, ml_artifact_url_bytes = 8 * 1024, ml_parts = 64,
      ml_part_header_bytes = 8 * 1024, ml_state_bytes = 8 * 1024\<rparr>"

definition RESERVED_KEY_PREFIX :: string where
  "RESERVED_KEY_PREFIX = ''$south.''"

section \<open>Decimal numbers\<close>

text \<open>\<open>to_string\<close> of an unsigned integer, and \<open>str::parse\<close> of its digits.\<close>

definition digit_char :: "nat \<Rightarrow> byte" where
  "digit_char d = char_of (48 + d)"

fun decimal :: "nat \<Rightarrow> string" where
  "decimal n = (if n < 10 then [digit_char n] else decimal (n div 10) @ [digit_char (n mod 10)])"

declare decimal.simps [simp del]

definition decimal_value :: "string \<Rightarrow> nat" where
  "decimal_value ds = foldl (\<lambda>v d. v * 10 + (of_char d - 48)) 0 ds"

section \<open>Blobs\<close>

record blob_id =
  bi_text :: string

datatype invalid_blob_id = InvalidBlobId

definition blob_id_from_index :: "32 word \<Rightarrow> blob_id" where
  "blob_id_from_index i = \<lparr>bi_text = CHR ''b'' # decimal (unat i)\<rparr>"

definition blob_id_parse :: "string \<Rightarrow> (blob_id, invalid_blob_id) result" where
  "blob_id_parse t =
     and_then (ok_or (strip_prefix ''b'' t) InvalidBlobId) (\<lambda>digits.
       if digits \<noteq> [] \<and> list_all is_ascii_digit digits \<and> (digits = ''0'' \<or> \<not> starts_with ''0'' digits) \<and>
          decimal_value digits < 2 ^ 32
       then Ok \<lparr>bi_text = t\<rparr> else Err InvalidBlobId)"

record blob =
  bl_id :: blob_id
  bl_bytes :: bytes
  bl_text :: bool

definition blob_file :: "blob_id \<Rightarrow> bytes \<Rightarrow> blob" where
  "blob_file i b = \<lparr>bl_id = i, bl_bytes = b, bl_text = False\<rparr>"

definition blob_text :: "blob_id \<Rightarrow> string \<Rightarrow> blob" where
  "blob_text i v = \<lparr>bl_id = i, bl_bytes = v, bl_text = True\<rparr>"

text \<open>A \<open>BTreeMap\<close> keyed by blob ids, which compare as their texts.\<close>

record blob_set =
  bs_blobs :: "(string, blob) btree"

fun blob_set_collect :: "(string, blob) btree \<Rightarrow> blob list \<Rightarrow> (blob_set, invalid_blob_id) result" where
  "blob_set_collect m [] = Ok \<lparr>bs_blobs = m\<rparr>"
| "blob_set_collect m (b # bs) =
     (if bt_get m (bi_text (bl_id b)) \<noteq> None then Err InvalidBlobId
      else blob_set_collect (bt_insert (bi_text (bl_id b)) b m) bs)"

definition blob_set_new :: "blob list \<Rightarrow> (blob_set, invalid_blob_id) result" where
  "blob_set_new bs = blob_set_collect [] bs"

definition blob_set_get :: "blob_set \<Rightarrow> blob_id \<Rightarrow> blob option" where
  "blob_set_get s i = bt_get (bs_blobs s) (bi_text i)"

definition blob_set_contains :: "blob_set \<Rightarrow> blob_id \<Rightarrow> bool" where
  "blob_set_contains s i \<longleftrightarrow> bt_get (bs_blobs s) (bi_text i) \<noteq> None"

definition blob_set_len :: "blob_set \<Rightarrow> nat" where
  "blob_set_len s = length (bs_blobs s)"

section \<open>Prefixes of text\<close>

text \<open>\<open>str::is_char_boundary\<close>.\<close>

definition is_char_boundary :: "bytes \<Rightarrow> nat \<Rightarrow> bool" where
  "is_char_boundary s n \<longleftrightarrow> n = 0 \<or> n = length s \<or> n < length s \<and> \<not> utf8_cont (s ! n)"

fun boundary_at_or_before :: "bytes \<Rightarrow> nat \<Rightarrow> nat" where
  "boundary_at_or_before s 0 = 0"
| "boundary_at_or_before s (Suc n) =
     (if is_char_boundary s (Suc n) then Suc n else boundary_at_or_before s n)"

definition utf8_prefix :: "string \<Rightarrow> nat \<Rightarrow> string" where
  "utf8_prefix v limit =
     (if length v \<le> limit then v else take (boundary_at_or_before v limit) v)"

section \<open>Decimal numbers read back\<close>

lemma digit_char_ascii: "d < 10 \<Longrightarrow> is_ascii_digit (digit_char d)"
  by (simp add: digit_char_def is_ascii_digit_def byte_in_def of_char_of)

lemma digit_char_value: "d < 10 \<Longrightarrow> of_char (digit_char d) - 48 = d"
  by (simp add: digit_char_def of_char_of)

lemma decimal_digits: "decimal n \<noteq> [] \<and> list_all is_ascii_digit (decimal n)"
  by (induction n rule: decimal.induct) (subst (1 2) decimal.simps, simp add: digit_char_ascii)

lemma decimal_value_decimal [simp]: "decimal_value (decimal n) = n"
  by (induction n rule: decimal.induct)
    (subst decimal.simps, simp add: decimal_value_def digit_char_value)

lemma decimal_inj: "decimal m = decimal n \<longleftrightarrow> m = n"
  by (metis decimal_value_decimal)

lemma decimal_leading: "hd (decimal n) = CHR ''0'' \<longleftrightarrow> n = 0"
proof (induction n rule: decimal.induct)
  case (1 n)
  have digit: "digit_char d = CHR ''0'' \<longleftrightarrow> d = 0" if "d < 10" for d
    using that char_of_eq_iff [of "48 + d" "CHR ''0''"] by (simp add: digit_char_def)
  show ?case
    using 1 digit [of n] decimal_digits [of "n div 10"] by (subst decimal.simps) (auto simp: hd_append)
qed

text \<open>A digit string without a leading zero is the decimal of its value.\<close>

lemma decimal_of_value:
  assumes "list_all is_ascii_digit ds" and "ds \<noteq> []" and "ds = ''0'' \<or> hd ds \<noteq> CHR ''0''"
  shows "decimal (decimal_value ds) = ds"
  using assms
proof (induction ds rule: rev_induct)
  case (snoc d ds)
  obtain v where v: "v < 10" "d = digit_char v"
  proof
    show "of_char d - 48 < (10 :: nat)" "d = digit_char (of_char d - 48)"
      using snoc.prems by (auto simp: digit_char_def is_ascii_digit_def byte_in_def)
  qed
  have val: "decimal_value (ds @ [d]) = decimal_value ds * 10 + v"
    using v by (simp add: decimal_value_def digit_char_value)
  show ?case
  proof (cases "ds = []")
    case True
    then show ?thesis using v val by (simp add: decimal.simps decimal_value_def)
  next
    case False
    with snoc.prems have lead: "hd ds \<noteq> CHR ''0''" by (cases ds) auto
    with snoc.IH snoc.prems False have IH: "decimal (decimal_value ds) = ds" by simp
    then have "decimal_value ds \<noteq> 0" using lead decimal_leading [of "decimal_value ds"] by auto
    then show ?thesis using v val IH by (subst decimal.simps) (simp add: Suc_leI)
  qed
qed simp

lemma digit_leading: "list_all is_ascii_digit ds \<Longrightarrow> ds \<noteq> [] \<Longrightarrow> starts_with ''0'' ds \<longleftrightarrow> hd ds = CHR ''0''"
  by (cases ds) (auto simp: starts_with_def)

lemma blob_id_parse_Ok:
  "blob_id_parse t = Ok i \<longleftrightarrow> i = \<lparr>bi_text = t\<rparr> \<and> (\<exists>n :: 32 word. t = bi_text (blob_id_from_index n))"
proof
  assume "blob_id_parse t = Ok i"
  then obtain ds where t: "t = CHR ''b'' # ds" and ds: "ds \<noteq> []" "list_all is_ascii_digit ds"
    "ds = ''0'' \<or> \<not> starts_with ''0'' ds" "decimal_value ds < 2 ^ 32" and i: "i = \<lparr>bi_text = t\<rparr>"
    by (auto simp: blob_id_parse_def and_then_Ok_iff ok_or_Ok_iff strip_prefix_Some_iff split: if_splits)
  have "decimal (decimal_value ds) = ds"
    using ds by (intro decimal_of_value) (auto simp: digit_leading)
  moreover have "unat (of_nat (decimal_value ds) :: 32 word) = decimal_value ds"
    using ds(4) by (simp add: unat_of_nat)
  ultimately have "t = bi_text (blob_id_from_index (of_nat (decimal_value ds)))"
    using t by (simp add: blob_id_from_index_def)
  with i show "i = \<lparr>bi_text = t\<rparr> \<and> (\<exists>n :: 32 word. t = bi_text (blob_id_from_index n))" by blast
next
  assume "i = \<lparr>bi_text = t\<rparr> \<and> (\<exists>n :: 32 word. t = bi_text (blob_id_from_index n))"
  then obtain n :: "32 word" where i: "i = \<lparr>bi_text = t\<rparr>" and t: "t = CHR ''b'' # decimal (unat n)"
    by (auto simp: blob_id_from_index_def)
  have "unat n < 2 ^ 32" using unsigned_less [of n, where 'a = nat] by simp
  moreover have "decimal (unat n) = ''0'' \<or> \<not> starts_with ''0'' (decimal (unat n))"
  proof (cases "unat n = 0")
    case True
    moreover have "digit_char 0 = CHR ''0''" using char_of_eq_iff [of 48 "CHR ''0''"] by (simp add: digit_char_def)
    ultimately show ?thesis by (simp add: decimal.simps)
  next
    case False
    then show ?thesis using decimal_digits [of "unat n"] decimal_leading [of "unat n"] by (simp add: digit_leading)
  qed
  ultimately show "blob_id_parse t = Ok i"
    using decimal_digits [of "unat n"] by (simp add: blob_id_parse_def i t)
qed

lemma blob_id_from_index_inj: "blob_id_from_index i = blob_id_from_index j \<longleftrightarrow> i = j"
  by (simp add: blob_id_from_index_def decimal_inj word_unat_eq_iff)

section \<open>Blob sets\<close>

lemma blob_set_collect_Ok:
  "bt_wf m \<Longrightarrow> blob_set_collect m bs = Ok s \<Longrightarrow>
    bt_wf (bs_blobs s) \<and> distinct (map (bi_text \<circ> bl_id) bs) \<and>
    (\<forall>k. bt_get (bs_blobs s) k =
       (case map_of (map (\<lambda>b. (bi_text (bl_id b), b)) bs) k of Some b \<Rightarrow> Some b | None \<Rightarrow> bt_get m k)) \<and>
    (\<forall>b \<in> set bs. bt_get m (bi_text (bl_id b)) = None)"
proof (induction bs arbitrary: m)
  case (Cons b bs)
  then have "bt_wf (bt_insert (bi_text (bl_id b)) b m)" "bt_get m (bi_text (bl_id b)) = None"
    and ok: "blob_set_collect (bt_insert (bi_text (bl_id b)) b m) bs = Ok s"
    by (auto simp: bt_insert_wf split: if_splits)
  from Cons.IH [OF this(1) ok] this(2) Cons.prems(1) show ?case
    by (fastforce simp: bt_get_insert map_of_eq_None_iff split: option.splits if_splits)
qed auto

lemma blob_set_collect_distinct:
  "bt_wf m \<Longrightarrow> distinct (map (bi_text \<circ> bl_id) bs) \<Longrightarrow> (\<forall>b \<in> set bs. bt_get m (bi_text (bl_id b)) = None) \<Longrightarrow>
    \<exists>s. blob_set_collect m bs = Ok s"
proof (induction bs arbitrary: m)
  case (Cons b bs)
  then have "\<forall>c \<in> set bs. bt_get (bt_insert (bi_text (bl_id b)) b m) (bi_text (bl_id c)) = None"
    by (auto simp: bt_get_insert image_iff)
  with Cons.IH [of "bt_insert (bi_text (bl_id b)) b m"] Cons.prems show ?case by (auto simp: bt_insert_wf)
qed auto

lemma blob_set_new_Ok:
  assumes "blob_set_new bs = Ok s"
  shows "blob_set_get s i = Some b \<longleftrightarrow> b \<in> set bs \<and> bi_text (bl_id b) = bi_text i"
    and "distinct (map (bi_text \<circ> bl_id) bs)"
proof -
  have "bt_wf ([] :: (string, blob) btree)" by (simp add: bt_wf_def)
  from blob_set_collect_Ok [OF this assms [unfolded blob_set_new_def]]
  have d: "distinct (map (bi_text \<circ> bl_id) bs)"
    and get: "bt_get (bs_blobs s) (bi_text i) = map_of (map (\<lambda>b. (bi_text (bl_id b), b)) bs) (bi_text i)"
    by (auto split: option.splits)
  from d have "distinct (map fst (map (\<lambda>b. (bi_text (bl_id b), b)) bs))" by (simp add: comp_def)
  from map_of_eq_Some_iff [OF this, of "bi_text i" b] get
  show "blob_set_get s i = Some b \<longleftrightarrow> b \<in> set bs \<and> bi_text (bl_id b) = bi_text i"
    by (auto simp: blob_set_get_def image_iff)
  show "distinct (map (bi_text \<circ> bl_id) bs)" by (rule d)
qed

lemma blob_set_new_iff: "(\<exists>s. blob_set_new bs = Ok s) \<longleftrightarrow> distinct (map (bi_text \<circ> bl_id) bs)"
  using blob_set_new_Ok(2) blob_set_collect_distinct [of "[]" bs]
  by (auto simp: blob_set_new_def bt_wf_def)

section \<open>Prefixes of text are text\<close>

text \<open>Inside a character every byte but the first is a continuation byte, and a text starts with none.\<close>

lemma utf8_char_cont:
  assumes "utf8_char ch" and "0 < n" and "n < length ch"
  shows "utf8_cont (ch ! n)"
proof -
  have second: "utf8_second3 a b \<Longrightarrow> utf8_cont b" "utf8_second4 a b \<Longrightarrow> utf8_cont b" for a b
    by (auto simp: utf8_second3_def utf8_second4_def byte_in_def split: if_splits)
  have "n = 1 \<or> n = 2 \<or> n = 3"
    using assms by (auto simp: utf8_char_def utf8_head_def split: if_splits list.splits)
  then show ?thesis
    using assms second
    by (cases ch rule: list4_cases) (auto simp: utf8_char_def utf8_head_def split: if_splits)
qed

lemma utf8_valid_hd: "utf8_valid (c # r) \<Longrightarrow> \<not> utf8_cont c"
  by (erule utf8_valid_cases) (auto simp: utf8_char_def utf8_head_def Cons_eq_append_conv byte_in_def split: if_splits)

lemma utf8_valid_take:
  assumes "utf8_valid s" and "n \<le> length s"
  shows "utf8_valid (take n s) \<longleftrightarrow> is_char_boundary s n"
proof
  assume "utf8_valid (take n s)"
  with assms(1) have drop: "utf8_valid (drop n s)" by (metis append_take_drop_id utf8_valid_append)
  show "is_char_boundary s n"
  proof (cases "n = length s")
    case False
    with assms(2) have "drop n s = s ! n # drop (Suc n) s" by (simp add: Cons_nth_drop_Suc)
    with drop assms(2) False show ?thesis using utf8_valid_hd by (auto simp: is_char_boundary_def)
  qed (simp add: is_char_boundary_def)
next
  assume "is_char_boundary s n"
  with assms show "utf8_valid (take n s)"
  proof (induction arbitrary: n rule: utf8_chars_induct)
    case (Char ch r)
    show ?case
    proof (cases "n < length ch")
      case True
      with Char.prems Char.hyps(1) have "n = 0"
        using utf8_char_cont [of ch n] by (auto simp: is_char_boundary_def nth_append)
      then show ?thesis by simp
    next
      case False
      with Char.prems have "is_char_boundary r (n - length ch)"
        by (auto simp: is_char_boundary_def nth_append)
      with Char False show ?thesis by (simp add: utf8_valid_append utf8_char_valid)
    qed
  qed simp
qed

lemma boundary_at_or_before_le: "boundary_at_or_before s n \<le> n"
  by (induction n) (auto simp: le_SucI)

lemma boundary_at_or_before_boundary: "is_char_boundary s (boundary_at_or_before s n)"
  by (induction n) (auto simp: is_char_boundary_def)

lemma boundary_at_or_before_greatest: "is_char_boundary s k \<Longrightarrow> k \<le> n \<Longrightarrow> k \<le> boundary_at_or_before s n"
proof (induction n)
  case (Suc n)
  then show ?case by (cases "k = Suc n") auto
qed simp

lemma utf8_prefix_text:
  assumes "utf8_valid v"
  shows "utf8_valid (utf8_prefix v limit)" "prefix (utf8_prefix v limit) v" "length (utf8_prefix v limit) \<le> limit"
    "prefix p v \<Longrightarrow> utf8_valid p \<Longrightarrow> length p \<le> limit \<Longrightarrow> prefix p (utf8_prefix v limit)"
proof -
  have le: "boundary_at_or_before v limit \<le> limit" by (rule boundary_at_or_before_le)
  show "utf8_valid (utf8_prefix v limit)"
    using assms le utf8_valid_take [of v "boundary_at_or_before v limit"] boundary_at_or_before_boundary [of v limit]
    by (simp add: utf8_prefix_def)
  show "prefix (utf8_prefix v limit) v" by (simp add: utf8_prefix_def take_is_prefix)
  show "length (utf8_prefix v limit) \<le> limit" using le by (simp add: utf8_prefix_def)
  show "prefix p (utf8_prefix v limit)" if p: "prefix p v" "utf8_valid p" "length p \<le> limit"
  proof (cases "length v \<le> limit")
    case False
    have take: "p = take (length p) v" using p(1) by (auto simp: prefix_def)
    have len: "length p \<le> length v" using p(1) by (rule prefix_length_le)
    have "is_char_boundary v (length p)"
      using utf8_valid_take [OF assms len] p(2) take by simp
    with p(3) have "length p \<le> boundary_at_or_before v limit" by (intro boundary_at_or_before_greatest)
    then show ?thesis using False take by (metis utf8_prefix_def min.absorb1 take_is_prefix take_take)
  qed (use p in \<open>simp add: utf8_prefix_def\<close>)
qed

end
