(* ===== verification/Egress.thy ===== *)
theory Egress
  imports Media_Base Paths
begin

text \<open>
  \<open>south-contracts/src/media/egress.rs\<close>: the artifact URL grammar and the destinations a host must
  refuse to connect to. The predicates of \<open>Ipv4Addr\<close> and \<open>Ipv6Addr\<close> the code uses are modelled on the
  octets and segments, as the standard library defines them.
\<close>

unbundle bit_operations_syntax

section \<open>Addresses\<close>

datatype ipv4 = Ipv4 "8 word" "8 word" "8 word" "8 word"

datatype ipv6 = Ipv6 "16 word" "16 word" "16 word" "16 word" "16 word" "16 word" "16 word" "16 word"

datatype ip_addr = V4 ipv4 | V6 ipv6

fun is_loopback_v4 :: "ipv4 \<Rightarrow> bool" where
  "is_loopback_v4 (Ipv4 a b c d) = (a = 127)"

fun is_private :: "ipv4 \<Rightarrow> bool" where
  "is_private (Ipv4 a b c d) = (a = 10 \<or> a = 172 \<and> 16 \<le> b \<and> b \<le> 31 \<or> a = 192 \<and> b = 168)"

fun is_link_local :: "ipv4 \<Rightarrow> bool" where
  "is_link_local (Ipv4 a b c d) = (a = 169 \<and> b = 254)"

fun is_unspecified_v4 :: "ipv4 \<Rightarrow> bool" where
  "is_unspecified_v4 (Ipv4 a b c d) = (a = 0 \<and> b = 0 \<and> c = 0 \<and> d = 0)"

fun is_broadcast :: "ipv4 \<Rightarrow> bool" where
  "is_broadcast (Ipv4 a b c d) = (a = 255 \<and> b = 255 \<and> c = 255 \<and> d = 255)"

fun is_multicast_v4 :: "ipv4 \<Rightarrow> bool" where
  "is_multicast_v4 (Ipv4 a b c d) = (224 \<le> a \<and> a \<le> 239)"

fun is_loopback_v6 :: "ipv6 \<Rightarrow> bool" where
  "is_loopback_v6 (Ipv6 s0 s1 s2 s3 s4 s5 s6 s7) \<longleftrightarrow>
     s0 = 0 \<and> s1 = 0 \<and> s2 = 0 \<and> s3 = 0 \<and> s4 = 0 \<and> s5 = 0 \<and> s6 = 0 \<and> s7 = 1"

fun is_unspecified_v6 :: "ipv6 \<Rightarrow> bool" where
  "is_unspecified_v6 (Ipv6 s0 s1 s2 s3 s4 s5 s6 s7) \<longleftrightarrow>
     s0 = 0 \<and> s1 = 0 \<and> s2 = 0 \<and> s3 = 0 \<and> s4 = 0 \<and> s5 = 0 \<and> s6 = 0 \<and> s7 = 0"

fun is_multicast_v6 :: "ipv6 \<Rightarrow> bool" where
  "is_multicast_v6 (Ipv6 s0 s1 s2 s3 s4 s5 s6 s7) \<longleftrightarrow> s0 AND 0xFF00 = 0xFF00"

section \<open>Forbidden destinations\<close>

fun forbidden_v4 :: "ipv4 \<Rightarrow> bool" where
  "forbidden_v4 (Ipv4 a b c d) \<longleftrightarrow>
     is_loopback_v4 (Ipv4 a b c d) \<or> is_private (Ipv4 a b c d) \<or> is_link_local (Ipv4 a b c d) \<or>
     is_unspecified_v4 (Ipv4 a b c d) \<or> is_broadcast (Ipv4 a b c d) \<or> is_multicast_v4 (Ipv4 a b c d) \<or>
     a = 0 \<or> a = 100 \<and> 64 \<le> b \<and> b \<le> 127 \<or> a = 192 \<and> b = 0 \<and> c = 0 \<or> a = 198 \<and> (b = 18 \<or> b = 19) \<or> 240 \<le> a"

text \<open>\<open>to_be_bytes\<close> of two segments, as an IPv4 address.\<close>

definition embedded :: "16 word \<Rightarrow> 16 word \<Rightarrow> ipv4" where
  "embedded high low = Ipv4 (ucast (drop_bit 8 high)) (ucast high) (ucast (drop_bit 8 low)) (ucast low)"

fun forbidden_v6 :: "ipv6 \<Rightarrow> bool" where
  "forbidden_v6 (Ipv6 s0 s1 s2 s3 s4 s5 s6 s7) =
     (if is_loopback_v6 (Ipv6 s0 s1 s2 s3 s4 s5 s6 s7) \<or> is_unspecified_v6 (Ipv6 s0 s1 s2 s3 s4 s5 s6 s7) \<or>
         is_multicast_v6 (Ipv6 s0 s1 s2 s3 s4 s5 s6 s7) then True
      else if s0 AND 0xFE00 = 0xFC00 \<or> s0 AND 0xFFC0 = 0xFE80 \<or> s0 AND 0xFFC0 = 0xFEC0 then True
      else if s0 = 0 \<and> s1 = 0 \<and> s2 = 0 \<and> s3 = 0 \<and> s4 = 0 \<and> (s5 = 0xFFFF \<or> s5 = 0)
      then forbidden_v4 (embedded s6 s7)
      else if s0 = 0x64 \<and> s1 = 0xFF9B \<and> s2 = 0 \<and> s3 = 0 \<and> s4 = 0 \<and> s5 = 0 then forbidden_v4 (embedded s6 s7)
      else if s0 = 0x64 \<and> s1 = 0xFF9B \<and> s2 = 1 then True
      else if s0 = 0x2002 then forbidden_v4 (embedded s1 s2)
      else False)"

fun is_forbidden_egress_address :: "ip_addr \<Rightarrow> bool" where
  "is_forbidden_egress_address (V4 a) = forbidden_v4 a"
| "is_forbidden_egress_address (V6 a) = forbidden_v6 a"

section \<open>Artifact URLs\<close>

datatype url_host = Domain string | HostIpv4 ipv4 | HostIpv6 ipv6

record 'u url_host_crate = "'u url_crate" +
  url_host :: "'u \<Rightarrow> url_host option"

record 'u artifact_url =
  au_url :: 'u

datatype artifact_url_error = TooLong | Invalid | NotHttps | Userinfo | ForbiddenHost | ForbiddenAddress

definition trim_end_dots :: "string \<Rightarrow> string" where
  "trim_end_dots name = rev (dropWhile (\<lambda>c. c = CHR ''.'') (rev name))"

definition forbidden_name :: "string \<Rightarrow> bool" where
  "forbidden_name name \<longleftrightarrow>
     name = [] \<or> eq_ignore_ascii_case name ''localhost'' \<or> ends_with ''.localhost'' (to_ascii_lowercase name)"

definition artifact_url_parse :: "'u url_host_crate \<Rightarrow> string \<Rightarrow> ('u artifact_url, artifact_url_error) result" where
  "artifact_url_parse U input =
     (if ml_artifact_url_bytes media_limits_v1 < length input then Err TooLong
      else
        and_then (ok_or (url_parse U input) Invalid) (\<lambda>url.
          if url_scheme U url \<noteq> ''https'' then Err NotHttps
          else if url_username U url \<noteq> [] \<or> url_password U url \<noteq> None then Err Userinfo
          else
            (case url_host U url of
               None \<Rightarrow> Err ForbiddenHost
             | Some (Domain name) \<Rightarrow>
                 if forbidden_name (trim_end_dots name) then Err ForbiddenHost else Ok \<lparr>au_url = url\<rparr>
             | Some (HostIpv4 address) \<Rightarrow>
                 if is_forbidden_egress_address (V4 address) then Err ForbiddenAddress else Ok \<lparr>au_url = url\<rparr>
             | Some (HostIpv6 address) \<Rightarrow>
                 if is_forbidden_egress_address (V6 address) then Err ForbiddenAddress else Ok \<lparr>au_url = url\<rparr>)))"

definition artifact_port :: "'u url_host_crate \<Rightarrow> 'u artifact_url \<Rightarrow> nat" where
  "artifact_port U a = (case url_port_or_known_default U (au_url a) of Some p \<Rightarrow> p | None \<Rightarrow> 443)"

section \<open>Address blocks\<close>

text \<open>
  Addresses as numbers, and a block as its base and the bits below its prefix: an address is in the
  block when the bits of the prefix agree.
\<close>

fun ipv4_number :: "ipv4 \<Rightarrow> nat" where
  "ipv4_number (Ipv4 a b c d) = ((unat a * 256 + unat b) * 256 + unat c) * 256 + unat d"

fun ipv6_number :: "ipv6 \<Rightarrow> nat" where
  "ipv6_number (Ipv6 s0 s1 s2 s3 s4 s5 s6 s7) =
     foldl (\<lambda>n s. n * 65536 + unat s) 0 [s0, s1, s2, s3, s4, s5, s6, s7]"

definition in_block :: "nat \<Rightarrow> nat \<times> nat \<Rightarrow> bool" where
  "in_block n block \<longleftrightarrow> n div 2 ^ snd block = fst block div 2 ^ snd block"

definition ipv4_block :: "8 word \<Rightarrow> 8 word \<Rightarrow> 8 word \<Rightarrow> 8 word \<Rightarrow> nat \<Rightarrow> nat \<times> nat" where
  "ipv4_block a b c d prefix_length = (ipv4_number (Ipv4 a b c d), 32 - prefix_length)"

definition FORBIDDEN_V4_BLOCKS :: "(nat \<times> nat) list" where
  "FORBIDDEN_V4_BLOCKS =
     [ipv4_block 0 0 0 0 8, ipv4_block 10 0 0 0 8, ipv4_block 100 64 0 0 10, ipv4_block 127 0 0 0 8,
      ipv4_block 169 254 0 0 16, ipv4_block 172 16 0 0 12, ipv4_block 192 0 0 0 24, ipv4_block 192 168 0 0 16,
      ipv4_block 198 18 0 0 15, ipv4_block 224 0 0 0 4, ipv4_block 240 0 0 0 4]"

lemma octet_less: "unat (a :: 8 word) < 256"
  using unsigned_less [of a, where 'a = nat] by simp

lemma segment_less: "unat (s :: 16 word) < 65536"
  using unsigned_less [of s, where 'a = nat] by simp

text \<open>Dividing a number by a power of two drops low digits, and then cuts into the next.\<close>

lemma div_whole_digit:
  fixes x y :: nat
  assumes "y < 2 ^ m"
  shows "(x * 2 ^ m + y) div 2 ^ (m + k) = x div 2 ^ k"
  using assms by (simp add: power_add div_mult2_eq)

lemma div_in_digit:
  fixes x y :: nat
  assumes "y < 2 ^ m" "y' < 2 ^ m" "k \<le> m"
  shows "(x * 2 ^ m + y) div 2 ^ k = (x' * 2 ^ m + y') div 2 ^ k \<longleftrightarrow> x = x' \<and> y div 2 ^ k = y' div 2 ^ k"
proof -
  have split: "(x * 2 ^ m + y) div 2 ^ k = x * 2 ^ (m - k) + y div 2 ^ k" for x y :: nat
  proof -
    have "x * 2 ^ m = x * 2 ^ (m - k) * 2 ^ k" using assms(3) by (simp add: power_add [symmetric])
    then show ?thesis by (simp only: div_mult_self3) simp
  qed
  have low: "y div 2 ^ k < 2 ^ (m - k)" if "y < 2 ^ m" for y :: nat
    using that assms(3) by (simp add: less_mult_imp_div_less power_add [symmetric])
  have "x = x'" if eq: "x * 2 ^ (m - k) + y div 2 ^ k = x' * 2 ^ (m - k) + y' div 2 ^ k"
  proof -
    have "(x * 2 ^ (m - k) + y div 2 ^ k) div 2 ^ (m - k) = x" "(x' * 2 ^ (m - k) + y' div 2 ^ k) div 2 ^ (m - k) = x'"
      using low [OF assms(1)] low [OF assms(2)] by simp_all
    with eq show ?thesis by simp
  qed
  then show ?thesis unfolding split by auto
qed

lemma octet_eq: "unat a = unat b \<longleftrightarrow> (a :: 8 word) = b"
  by (simp add: word_unat_eq_iff)

text \<open>The prefix of an address, octet by octet.\<close>

lemma ipv4_prefix:
  "ipv4_number (Ipv4 a b c d) div 2 ^ (8 + k) = ((unat a * 256 + unat b) * 256 + unat c) div 2 ^ k"
  "ipv4_number (Ipv4 a b c d) div 2 ^ (16 + k) = (unat a * 256 + unat b) div 2 ^ k"
  "ipv4_number (Ipv4 a b c d) div 2 ^ (24 + k) = unat a div 2 ^ k"
proof -
  note digit = div_whole_digit [where m = 8, simplified, OF octet_less]
  show one: "ipv4_number (Ipv4 a b c d) div 2 ^ (8 + k) = ((unat a * 256 + unat b) * 256 + unat c) div 2 ^ k" for k
    by (simp only: ipv4_number.simps digit)
  show two: "ipv4_number (Ipv4 a b c d) div 2 ^ (16 + k) = (unat a * 256 + unat b) div 2 ^ k" for k
    using one [of "8 + k"] by (simp only: digit add.assoc [symmetric]) simp
  show "ipv4_number (Ipv4 a b c d) div 2 ^ (24 + k) = unat a div 2 ^ k"
    using two [of "8 + k"] by (simp only: digit add.assoc [symmetric]) simp
qed

lemma ipv4_in_block:
  "in_block (ipv4_number (Ipv4 a b c d)) (ipv4_block a' b' c' d' 4) \<longleftrightarrow> unat a div 16 = unat a' div 16"
  "in_block (ipv4_number (Ipv4 a b c d)) (ipv4_block a' b' c' d' 8) \<longleftrightarrow> a = a'"
  "in_block (ipv4_number (Ipv4 a b c d)) (ipv4_block a' b' c' d' 10) \<longleftrightarrow> a = a' \<and> unat b div 64 = unat b' div 64"
  "in_block (ipv4_number (Ipv4 a b c d)) (ipv4_block a' b' c' d' 12) \<longleftrightarrow> a = a' \<and> unat b div 16 = unat b' div 16"
  "in_block (ipv4_number (Ipv4 a b c d)) (ipv4_block a' b' c' d' 15) \<longleftrightarrow> a = a' \<and> unat b div 2 = unat b' div 2"
  "in_block (ipv4_number (Ipv4 a b c d)) (ipv4_block a' b' c' d' 16) \<longleftrightarrow> a = a' \<and> b = b'"
  unfolding in_block_def ipv4_block_def fst_conv snd_conv
  using ipv4_prefix(2) [of _ _ _ _ 6] ipv4_prefix(2) [of _ _ _ _ 4] ipv4_prefix(2) [of _ _ _ _ 1]
    ipv4_prefix(2) [of _ _ _ _ 0] ipv4_prefix(3) [of _ _ _ _ 0] ipv4_prefix(3) [of _ _ _ _ 4]
    div_in_digit [where m = 8 and k = 0, OF _ _ le0, simplified, OF octet_less octet_less]
    div_in_digit [where m = 8 and k = 6, simplified, OF octet_less octet_less]
    div_in_digit [where m = 8 and k = 4, simplified, OF octet_less octet_less]
    div_in_digit [where m = 8 and k = 1, simplified, OF octet_less octet_less]
  by (simp_all del: ipv4_number.simps add: octet_eq)

lemma ipv4_in_block_24:
  "in_block (ipv4_number (Ipv4 a b c d)) (ipv4_block a' b' c' d' 24) \<longleftrightarrow> a = a' \<and> b = b' \<and> c = c'"
proof -
  note eq = div_in_digit [where m = 8 and k = 0, OF _ _ le0, simplified, OF octet_less octet_less]
  have "ipv4_number (Ipv4 a b c d) div 2 ^ 8 = (unat a * 256 + unat b) * 256 + unat c" for a b c d
    using ipv4_prefix(1) [of a b c d 0] by (simp only: add_0_right power_0 div_by_1)
  moreover have "32 - 24 = (8 :: nat)" by simp
  ultimately show ?thesis unfolding in_block_def ipv4_block_def fst_conv snd_conv by (simp only: eq octet_eq) auto
qed

lemma octet_order: "(a :: 8 word) \<le> b \<longleftrightarrow> unat a \<le> unat b"
  by (rule word_le_nat_alt)

lemma forbidden_v4_blocks:
  "forbidden_v4 a \<longleftrightarrow> (\<exists>block \<in> set FORBIDDEN_V4_BLOCKS. in_block (ipv4_number a) block)"
proof (cases a)
  case (Ipv4 a b c d)
  have ranges: "unat a div 16 = 14 \<longleftrightarrow> 224 \<le> unat a \<and> unat a \<le> 239" "unat a div 16 = 15 \<longleftrightarrow> 240 \<le> unat a"
    "unat b div 64 = 1 \<longleftrightarrow> 64 \<le> unat b \<and> unat b \<le> 127" "unat b div 16 = 1 \<longleftrightarrow> 16 \<le> unat b \<and> unat b \<le> 31"
    "unat b div 2 = 9 \<longleftrightarrow> b = 18 \<or> b = 19"
    using octet_less [of a] octet_less [of b] by (auto simp: word_unat_eq_iff)
  have bounds: "(224 :: 8 word) \<le> a \<longleftrightarrow> 224 \<le> unat a" "a \<le> 239 \<longleftrightarrow> unat a \<le> 239" "240 \<le> a \<longleftrightarrow> 240 \<le> unat a"
    "16 \<le> b \<longleftrightarrow> 16 \<le> unat b" "b \<le> 31 \<longleftrightarrow> unat b \<le> 31" "64 \<le> b \<longleftrightarrow> 64 \<le> unat b" "b \<le> 127 \<longleftrightarrow> unat b \<le> 127"
    by (simp_all add: word_le_nat_alt)
  have "(\<exists>block \<in> set FORBIDDEN_V4_BLOCKS. in_block (ipv4_number (Ipv4 a b c d)) block) \<longleftrightarrow>
      a = 0 \<or> a = 10 \<or> a = 100 \<and> unat b div 64 = 1 \<or> a = 127 \<or> a = 169 \<and> b = 254 \<or> a = 172 \<and> unat b div 16 = 1 \<or>
      a = 192 \<and> b = 0 \<and> c = 0 \<or> a = 192 \<and> b = 168 \<or> a = 198 \<and> unat b div 2 = 9 \<or>
      unat a div 16 = 14 \<or> unat a div 16 = 15"
    by (simp add: FORBIDDEN_V4_BLOCKS_def ipv4_in_block ipv4_in_block_24 del: ipv4_number.simps)
  also have "\<dots> \<longleftrightarrow> forbidden_v4 (Ipv4 a b c d)"
    unfolding ranges forbidden_v4.simps is_loopback_v4.simps is_private.simps is_link_local.simps is_unspecified_v4.simps
      is_broadcast.simps is_multicast_v4.simps bounds
    by (intro iffI; elim disjE conjE) simp_all
  finally show ?thesis using Ipv4 by simp
qed

section \<open>IPv6\<close>

definition ipv6_block ::
  "16 word \<Rightarrow> 16 word \<Rightarrow> 16 word \<Rightarrow> 16 word \<Rightarrow> 16 word \<Rightarrow> 16 word \<Rightarrow> 16 word \<Rightarrow> 16 word \<Rightarrow> nat \<Rightarrow> nat \<times> nat" where
  "ipv6_block s0 s1 s2 s3 s4 s5 s6 s7 prefix_length = (ipv6_number (Ipv6 s0 s1 s2 s3 s4 s5 s6 s7), 128 - prefix_length)"

definition FORBIDDEN_V6_BLOCKS :: "(nat \<times> nat) list" where
  "FORBIDDEN_V6_BLOCKS =
     [ipv6_block 0 0 0 0 0 0 0 0 128, ipv6_block 0 0 0 0 0 0 0 1 128, ipv6_block 0xFF00 0 0 0 0 0 0 0 8,
      ipv6_block 0xFC00 0 0 0 0 0 0 0 7, ipv6_block 0xFE80 0 0 0 0 0 0 0 10, ipv6_block 0xFEC0 0 0 0 0 0 0 0 10,
      ipv6_block 0x64 0xFF9B 1 0 0 0 0 0 48]"

text \<open>The forms that embed an IPv4 address, with the bits below it.\<close>

definition V4_EMBEDDINGS :: "((nat \<times> nat) \<times> nat) list" where
  "V4_EMBEDDINGS =
     [(ipv6_block 0 0 0 0 0 0xFFFF 0 0 96, 0), (ipv6_block 0 0 0 0 0 0 0 0 96, 0),
      (ipv6_block 0x64 0xFF9B 0 0 0 0 0 0 96, 0), (ipv6_block 0x2002 0 0 0 0 0 0 0 16, 80)]"

lemma segment_eq: "unat s = unat t \<longleftrightarrow> (s :: 16 word) = t"
  by (simp add: word_unat_eq_iff)

lemma ipv6_prefix:
  "ipv6_number (Ipv6 s0 s1 s2 s3 s4 s5 s6 s7) div 2 ^ 32 =
     ((((unat s0 * 65536 + unat s1) * 65536 + unat s2) * 65536 + unat s3) * 65536 + unat s4) * 65536 + unat s5"
  "ipv6_number (Ipv6 s0 s1 s2 s3 s4 s5 s6 s7) div 2 ^ 80 = (unat s0 * 65536 + unat s1) * 65536 + unat s2"
  "ipv6_number (Ipv6 s0 s1 s2 s3 s4 s5 s6 s7) div 2 ^ (112 + k) = unat s0 div 2 ^ k"
proof -
  note digit = div_whole_digit [where m = 16, simplified, OF segment_less]
  define n5 where "n5 = ((((unat s0 * 65536 + unat s1) * 65536 + unat s2) * 65536 + unat s3) * 65536 + unat s4) * 65536 + unat s5"
  have n: "ipv6_number (Ipv6 s0 s1 s2 s3 s4 s5 s6 s7) = (n5 * 65536 + unat s6) * 65536 + unat s7"
    by (simp add: n5_def)
  have low: "ipv6_number (Ipv6 s0 s1 s2 s3 s4 s5 s6 s7) div 2 ^ (16 + (16 + k)) = n5 div 2 ^ k" for k
    unfolding n digit ..
  from low [of 0] show "ipv6_number (Ipv6 s0 s1 s2 s3 s4 s5 s6 s7) div 2 ^ 32 =
     ((((unat s0 * 65536 + unat s1) * 65536 + unat s2) * 65536 + unat s3) * 65536 + unat s4) * 65536 + unat s5"
    by (simp add: n5_def del: ipv6_number.simps)
  have mid: "n5 div 2 ^ (16 + (16 + (16 + k))) = ((unat s0 * 65536 + unat s1) * 65536 + unat s2) div 2 ^ k" for k
    unfolding n5_def digit ..
  from low [of "16 + (16 + (16 + 0))"] mid [of 0]
  show "ipv6_number (Ipv6 s0 s1 s2 s3 s4 s5 s6 s7) div 2 ^ 80 = (unat s0 * 65536 + unat s1) * 65536 + unat s2"
    by (simp del: ipv6_number.simps)
  have "((unat s0 * 65536 + unat s1) * 65536 + unat s2) div 2 ^ (16 + (16 + k)) = unat s0 div 2 ^ k"
    unfolding digit ..
  with low [of "16 + (16 + (16 + (16 + (16 + k))))"] mid [of "16 + (16 + k)"]
  show "ipv6_number (Ipv6 s0 s1 s2 s3 s4 s5 s6 s7) div 2 ^ (112 + k) = unat s0 div 2 ^ k"
    by (simp add: add.assoc [symmetric] del: ipv6_number.simps)
qed

lemmas segment_split = div_in_digit [where m = 16 and k = 0, OF _ _ le0, simplified, OF segment_less segment_less]

lemma ipv6_in_block:
  "in_block (ipv6_number (Ipv6 s0 s1 s2 s3 s4 s5 s6 s7)) (ipv6_block t0 t1 t2 t3 t4 t5 t6 t7 128) \<longleftrightarrow>
     s0 = t0 \<and> s1 = t1 \<and> s2 = t2 \<and> s3 = t3 \<and> s4 = t4 \<and> s5 = t5 \<and> s6 = t6 \<and> s7 = t7"
  "in_block (ipv6_number (Ipv6 s0 s1 s2 s3 s4 s5 s6 s7)) (ipv6_block t0 t1 t2 t3 t4 t5 t6 t7 96) \<longleftrightarrow>
     s0 = t0 \<and> s1 = t1 \<and> s2 = t2 \<and> s3 = t3 \<and> s4 = t4 \<and> s5 = t5"
  "in_block (ipv6_number (Ipv6 s0 s1 s2 s3 s4 s5 s6 s7)) (ipv6_block t0 t1 t2 t3 t4 t5 t6 t7 48) \<longleftrightarrow>
     s0 = t0 \<and> s1 = t1 \<and> s2 = t2"
  "in_block (ipv6_number (Ipv6 s0 s1 s2 s3 s4 s5 s6 s7)) (ipv6_block t0 t1 t2 t3 t4 t5 t6 t7 16) \<longleftrightarrow> s0 = t0"
  "in_block (ipv6_number (Ipv6 s0 s1 s2 s3 s4 s5 s6 s7)) (ipv6_block t0 t1 t2 t3 t4 t5 t6 t7 10) \<longleftrightarrow> unat s0 div 64 = unat t0 div 64"
  "in_block (ipv6_number (Ipv6 s0 s1 s2 s3 s4 s5 s6 s7)) (ipv6_block t0 t1 t2 t3 t4 t5 t6 t7 8) \<longleftrightarrow> unat s0 div 256 = unat t0 div 256"
  "in_block (ipv6_number (Ipv6 s0 s1 s2 s3 s4 s5 s6 s7)) (ipv6_block t0 t1 t2 t3 t4 t5 t6 t7 7) \<longleftrightarrow> unat s0 div 512 = unat t0 div 512"
proof -
  let ?n = "ipv6_number (Ipv6 s0 s1 s2 s3 s4 s5 s6 s7)"
  have all: "ipv6_number (Ipv6 s0 s1 s2 s3 s4 s5 s6 s7) div 2 ^ 0 =
    ((((((unat s0 * 65536 + unat s1) * 65536 + unat s2) * 65536 + unat s3) * 65536 + unat s4) * 65536 + unat s5) * 65536 + unat s6) * 65536 + unat s7"
    for s0 s1 s2 s3 s4 s5 s6 s7 by simp
  note block = in_block_def ipv6_block_def fst_conv snd_conv
  have d: "128 - 128 = (0 :: nat)" "128 - 96 = (32 :: nat)" "128 - 48 = (80 :: nat)" "128 - 16 = 112 + (0 :: nat)"
    "128 - 10 = 112 + (6 :: nat)" "128 - 8 = 112 + (8 :: nat)" "128 - 7 = 112 + (9 :: nat)" by simp_all
  show "in_block ?n (ipv6_block t0 t1 t2 t3 t4 t5 t6 t7 128) \<longleftrightarrow>
     s0 = t0 \<and> s1 = t1 \<and> s2 = t2 \<and> s3 = t3 \<and> s4 = t4 \<and> s5 = t5 \<and> s6 = t6 \<and> s7 = t7"
    unfolding block d all segment_split segment_eq by blast
  show "in_block ?n (ipv6_block t0 t1 t2 t3 t4 t5 t6 t7 96) \<longleftrightarrow> s0 = t0 \<and> s1 = t1 \<and> s2 = t2 \<and> s3 = t3 \<and> s4 = t4 \<and> s5 = t5"
    unfolding block d ipv6_prefix segment_split segment_eq by blast
  show "in_block ?n (ipv6_block t0 t1 t2 t3 t4 t5 t6 t7 48) \<longleftrightarrow> s0 = t0 \<and> s1 = t1 \<and> s2 = t2"
    unfolding block d ipv6_prefix segment_split segment_eq by blast
  show "in_block ?n (ipv6_block t0 t1 t2 t3 t4 t5 t6 t7 16) \<longleftrightarrow> s0 = t0"
    unfolding block d ipv6_prefix power_0 div_by_1 segment_eq ..
  show "in_block ?n (ipv6_block t0 t1 t2 t3 t4 t5 t6 t7 10) \<longleftrightarrow> unat s0 div 64 = unat t0 div 64"
    "in_block ?n (ipv6_block t0 t1 t2 t3 t4 t5 t6 t7 8) \<longleftrightarrow> unat s0 div 256 = unat t0 div 256"
    "in_block ?n (ipv6_block t0 t1 t2 t3 t4 t5 t6 t7 7) \<longleftrightarrow> unat s0 div 512 = unat t0 div 512"
    unfolding block d ipv6_prefix by simp_all
qed

text \<open>Masking off low bits compares a prefix.\<close>

lemma unat_drop_bit: "unat (drop_bit k (w :: 16 word)) = unat w div 2 ^ k"
  by (subst unat_drop_bit_eq) (simp add: drop_bit_eq_div)

lemma mask_compare:
  fixes s t :: "16 word"
  shows "s AND NOT (mask k) = t AND NOT (mask k) \<longleftrightarrow> unat s div 2 ^ k = unat t div 2 ^ k"
proof -
  have "s AND NOT (mask k) = t AND NOT (mask k) \<longleftrightarrow> drop_bit k s = drop_bit k t"
  proof
    assume eq: "s AND NOT (mask k) = t AND NOT (mask k)"
    show "drop_bit k s = drop_bit k t"
    proof (rule bit_word_eqI)
      fix n :: nat
      show "bit (drop_bit k s) n = bit (drop_bit k t) n"
        using arg_cong [OF eq, of "\<lambda>w. bit w (k + n)"]
        by (cases "k + n < 16") (auto simp: bit_simps dest: bit_imp_le_length)
    qed
  next
    assume eq: "drop_bit k s = drop_bit k t"
    show "s AND NOT (mask k) = t AND NOT (mask k)"
    proof (rule bit_word_eqI)
      fix n :: nat
      show "bit (s AND NOT (mask k)) n = bit (t AND NOT (mask k)) n"
        using arg_cong [OF eq, of "\<lambda>w. bit w (n - k)"] by (cases "n < k") (auto simp: bit_simps)
    qed
  qed
  then show ?thesis by (metis unat_drop_bit word_unat_eq_iff)
qed

lemma segment_masks:
  "(s :: 16 word) AND 0xFF00 = 0xFF00 \<longleftrightarrow> unat s div 256 = 255"
  "s AND 0xFE00 = 0xFC00 \<longleftrightarrow> unat s div 512 = 126"
  "s AND 0xFFC0 = 0xFE80 \<longleftrightarrow> unat s div 64 = 1018"
  "s AND 0xFFC0 = 0xFEC0 \<longleftrightarrow> unat s div 64 = 1019"
proof -
  have m: "(0xFF00 :: 16 word) = NOT (mask 8)" "(0xFE00 :: 16 word) = NOT (mask 9)" "(0xFFC0 :: 16 word) = NOT (mask 6)"
    by code_simp+
  have c: "(0xFF00 :: 16 word) = 0xFF00 AND NOT (mask 8)" "(0xFC00 :: 16 word) = 0xFC00 AND NOT (mask 9)"
    "(0xFE80 :: 16 word) = 0xFE80 AND NOT (mask 6)" "(0xFEC0 :: 16 word) = 0xFEC0 AND NOT (mask 6)"
    by code_simp+
  show "s AND 0xFF00 = 0xFF00 \<longleftrightarrow> unat s div 256 = 255"
    using mask_compare [of s 8 "0xFF00"] c(1) m(1) by simp
  show "s AND 0xFE00 = 0xFC00 \<longleftrightarrow> unat s div 512 = 126"
    using mask_compare [of s 9 "0xFC00"] c(2) m(2) by simp
  show "s AND 0xFFC0 = 0xFE80 \<longleftrightarrow> unat s div 64 = 1018"
    using mask_compare [of s 6 "0xFE80"] c(3) m(3) by simp
  show "s AND 0xFFC0 = 0xFEC0 \<longleftrightarrow> unat s div 64 = 1019"
    using mask_compare [of s 6 "0xFEC0"] c(4) m(3) by simp
qed

lemma embedded_number: "ipv4_number (embedded high low) = unat high * 65536 + unat low"
proof -
  have "unat (ucast (drop_bit 8 s) :: 8 word) = unat s div 256" "unat (ucast s :: 8 word) = unat s mod 256" for s :: "16 word"
  proof -
    have "unat s div 256 < 256" using segment_less [of s] by simp
    then show "unat (ucast (drop_bit 8 s) :: 8 word) = unat s div 256"
      by (simp add: unsigned_ucast_eq unat_drop_bit take_bit_eq_mod del: drop_bit_eq_div)
    show "unat (ucast s :: 8 word) = unat s mod 256" by (simp add: unsigned_ucast_eq take_bit_eq_mod)
  qed
  then have "ipv4_number (embedded high low) =
      ((unat high div 256 * 256 + unat high mod 256) * 256 + unat low div 256) * 256 + unat low mod 256"
    by (simp add: embedded_def)
  also have "\<dots> = unat high * 65536 + (unat low div 256 * 256 + unat low mod 256)"
    by (simp only: div_mult_mod_eq) simp
  finally show ?thesis by (simp only: div_mult_mod_eq)
qed

lemma ipv6_embedded_number:
  "ipv6_number (Ipv6 s0 s1 s2 s3 s4 s5 s6 s7) div 2 ^ 0 mod 2 ^ 32 = ipv4_number (embedded s6 s7)"
  "ipv6_number (Ipv6 s0 s1 s2 s3 s4 s5 s6 s7) div 2 ^ 80 mod 2 ^ 32 = ipv4_number (embedded s1 s2)"
proof -
  have pair: "(x * 2 ^ 32 + (unat h * 65536 + unat l)) mod 2 ^ 32 = unat h * 65536 + unat l" for x and h l :: "16 word"
    using segment_less [of h] segment_less [of l] by simp
  have "ipv6_number (Ipv6 s0 s1 s2 s3 s4 s5 s6 s7) =
      (((((unat s0 * 65536 + unat s1) * 65536 + unat s2) * 65536 + unat s3) * 65536 + unat s4) * 65536 + unat s5) * 2 ^ 32 +
      (unat s6 * 65536 + unat s7)" by simp
  then show "ipv6_number (Ipv6 s0 s1 s2 s3 s4 s5 s6 s7) div 2 ^ 0 mod 2 ^ 32 = ipv4_number (embedded s6 s7)"
    by (simp only: pair power_0 div_by_1 embedded_number)
  have "(unat s0 * 65536 + unat s1) * 65536 + unat s2 = unat s0 * 2 ^ 32 + (unat s1 * 65536 + unat s2)" by simp
  then show "ipv6_number (Ipv6 s0 s1 s2 s3 s4 s5 s6 s7) div 2 ^ 80 mod 2 ^ 32 = ipv4_number (embedded s1 s2)"
    by (simp only: ipv6_prefix pair embedded_number)
qed

lemma forbidden_v6_blocks:
  "forbidden_v6 a \<longleftrightarrow>
     (\<exists>block \<in> set FORBIDDEN_V6_BLOCKS. in_block (ipv6_number a) block) \<or>
     (\<exists>(block, below) \<in> set V4_EMBEDDINGS. in_block (ipv6_number a) block \<and>
        (\<exists>v4 \<in> set FORBIDDEN_V4_BLOCKS. in_block (ipv6_number a div 2 ^ below mod 2 ^ 32) v4))"
proof (cases a)
  case (Ipv6 s0 s1 s2 s3 s4 s5 s6 s7)
  note number = ipv6_number.simps [simp del]
  have blocks: "(\<exists>block \<in> set FORBIDDEN_V6_BLOCKS. in_block (ipv6_number (Ipv6 s0 s1 s2 s3 s4 s5 s6 s7)) block) \<longleftrightarrow>
      is_unspecified_v6 (Ipv6 s0 s1 s2 s3 s4 s5 s6 s7) \<or> is_loopback_v6 (Ipv6 s0 s1 s2 s3 s4 s5 s6 s7) \<or>
      s0 AND 0xFF00 = 0xFF00 \<or> s0 AND 0xFE00 = 0xFC00 \<or> s0 AND 0xFFC0 = 0xFE80 \<or> s0 AND 0xFFC0 = 0xFEC0 \<or>
      s0 = 0x64 \<and> s1 = 0xFF9B \<and> s2 = 1"
    by (simp add: FORBIDDEN_V6_BLOCKS_def ipv6_in_block segment_masks)
  have embeddings: "(\<exists>(block, below) \<in> set V4_EMBEDDINGS. in_block (ipv6_number (Ipv6 s0 s1 s2 s3 s4 s5 s6 s7)) block \<and>
        (\<exists>v4 \<in> set FORBIDDEN_V4_BLOCKS. in_block (ipv6_number (Ipv6 s0 s1 s2 s3 s4 s5 s6 s7) div 2 ^ below mod 2 ^ 32) v4)) \<longleftrightarrow>
      s0 = 0 \<and> s1 = 0 \<and> s2 = 0 \<and> s3 = 0 \<and> s4 = 0 \<and> (s5 = 0xFFFF \<or> s5 = 0) \<and> forbidden_v4 (embedded s6 s7) \<or>
      s0 = 0x64 \<and> s1 = 0xFF9B \<and> s2 = 0 \<and> s3 = 0 \<and> s4 = 0 \<and> s5 = 0 \<and> forbidden_v4 (embedded s6 s7) \<or>
      s0 = 0x2002 \<and> forbidden_v4 (embedded s1 s2)"
    unfolding V4_EMBEDDINGS_def list.set bex_simps split_conv ipv6_in_block ipv6_embedded_number
      forbidden_v4_blocks [symmetric] by blast
  show ?thesis
    unfolding Ipv6 blocks embeddings
    by (cases "s0 = 0"; cases "s0 = 0x64"; cases "s0 = 0x2002") (auto simp: number)
qed

section \<open>Properties\<close>


text \<open>
  Claim C14. An artifact URL that parses is an \<open>https\<close> URL within the bound without user information,
  whose host is a name other than \<open>localhost\<close> and outside \<open>.localhost\<close> whatever its case and trailing
  dots, or a literal address outside every forbidden block.
\<close>

theorem artifact_url_safe:
  assumes "artifact_url_parse U input = Ok a"
  shows "length input \<le> ml_artifact_url_bytes media_limits_v1 \<and> url_parse U input = Some (au_url a) \<and>
    url_scheme U (au_url a) = ''https'' \<and> url_username U (au_url a) = [] \<and> url_password U (au_url a) = None \<and>
    ((\<exists>name. url_host U (au_url a) = Some (Domain name) \<and> trim_end_dots name \<noteq> [] \<and>
        to_ascii_lowercase (trim_end_dots name) \<noteq> ''localhost'' \<and>
        \<not> suffix ''.localhost'' (to_ascii_lowercase (trim_end_dots name))) \<or>
     (\<exists>ip. url_host U (au_url a) = Some (HostIpv4 ip) \<and>
        (\<forall>block \<in> set FORBIDDEN_V4_BLOCKS. \<not> in_block (ipv4_number ip) block)) \<or>
     (\<exists>ip. url_host U (au_url a) = Some (HostIpv6 ip) \<and> \<not> forbidden_v6 ip))"
proof -
  have lower: "to_ascii_lowercase ''localhost'' = ''localhost''" by code_simp
  from assms obtain url where url: "length input \<le> ml_artifact_url_bytes media_limits_v1"
    "url_parse U input = Some url" "url_scheme U url = ''https''" "url_username U url = []" "url_password U url = None"
    and host: "(case url_host U url of
               None \<Rightarrow> Err ForbiddenHost
             | Some (Domain name) \<Rightarrow>
                 if forbidden_name (trim_end_dots name) then Err ForbiddenHost else Ok \<lparr>au_url = url\<rparr>
             | Some (HostIpv4 address) \<Rightarrow>
                 if is_forbidden_egress_address (V4 address) then Err ForbiddenAddress else Ok \<lparr>au_url = url\<rparr>
             | Some (HostIpv6 address) \<Rightarrow>
                 if is_forbidden_egress_address (V6 address) then Err ForbiddenAddress else Ok \<lparr>au_url = url\<rparr>) = Ok a"
    unfolding artifact_url_parse_def and_then_Ok_iff refuse_Ok ok_or_Ok_iff by (auto split: if_splits)
  show ?thesis
  proof (cases "url_host U url")
    case (Some h)
    show ?thesis
      using url host lower unfolding Some
      by (cases h)
        (auto simp: Some forbidden_name_def eq_ignore_ascii_case_def ends_with_iff_suffix
          forbidden_v4_blocks simp del: forbidden_v4.simps forbidden_v6.simps split: if_splits)
  qed (use host in simp)
qed

text \<open>A URL library that knows one literal address.\<close>

definition sample_fetch_crate :: "unit url_host_crate" where
  "sample_fetch_crate =
     \<lparr>url_parse = (\<lambda>s. if s = ''https://8.8.8.8/'' then Some () else None), url_as_str = (\<lambda>_. ''https://8.8.8.8/''),
      url_scheme = (\<lambda>_. ''https''), url_host_str = (\<lambda>_. Some ''8.8.8.8''), url_port_or_known_default = (\<lambda>_. Some 443),
      url_username = (\<lambda>_. []), url_password = (\<lambda>_. None), url_path = (\<lambda>_. ''/''), url_query = (\<lambda>_. None),
      url_fragment = (\<lambda>_. None), url_set_path = (\<lambda>_ u. u), url_set_query = (\<lambda>_ u. u),
      url_host = (\<lambda>_. Some (HostIpv4 (Ipv4 8 8 8 8)))\<rparr>"

theorem artifact_url_safe_witness:
  "artifact_url_parse sample_fetch_crate ''https://8.8.8.8/'' = Ok \<lparr>au_url = ()\<rparr> \<and>
   url_scheme sample_fetch_crate () = ''https'' \<and> \<not> in_block (ipv4_number (Ipv4 8 8 8 8)) (ipv4_block 10 0 0 0 8)"
proof -
  have allowed: "\<not> forbidden_v4 (Ipv4 8 8 8 8)" by code_simp
  then have ok: "artifact_url_parse sample_fetch_crate ''https://8.8.8.8/'' = Ok \<lparr>au_url = ()\<rparr>"
    by (simp add: artifact_url_parse_def sample_fetch_crate_def media_limits_v1_def del: forbidden_v4.simps)
  have "ipv4_block 10 0 0 0 8 \<in> set FORBIDDEN_V4_BLOCKS" by (simp add: FORBIDDEN_V4_BLOCKS_def)
  with artifact_url_safe [OF ok] ok show ?thesis
    by (auto simp: sample_fetch_crate_def simp del: ipv4_number.simps)
qed


text \<open>The local-use NAT64 prefix \<open>64:ff9b:1::/48\<close> is refused as a whole, also when the address it embeds is
  a public one.\<close>

lemma local_nat64_refused_whole:
  "forbidden_v6 (Ipv6 0x64 0xFF9B 1 0 0 0 0x0808 0x0808) \<and> \<not> forbidden_v4 (embedded 0x0808 0x0808)"
  by code_simp

end
