(* ===== verification/Transform.thy ===== *)
theory Transform
  imports Base64 Media_Base
begin

text \<open>
  \<open>south-contracts/src/media/transform.rs\<close>: the closed transforms and the codecs under them. The base64
  codec here is written independently of the one in \<open>south-component-conformance\<close>; both are shown to
  be the same function. A \<open>u32\<close> that holds at most 24 bits is a natural number.
\<close>

unbundle bit_operations_syntax

definition MAX_MEDIA_TYPE_BYTES :: nat where
  "MAX_MEDIA_TYPE_BYTES = 128"

definition MAX_WAV_SAMPLE_RATE :: nat where
  "MAX_WAV_SAMPLE_RATE = 384000"

definition MAX_WAV_CHANNELS :: nat where
  "MAX_WAV_CHANNELS = 8"

datatype transform_error =
    NotText | InvalidBase64 | InvalidHex | InvalidDataUrl | InvalidMediaType | InvalidPcm | ConcatNeedsList

section \<open>Base64\<close>

definition BASE64_SYMBOLS :: bytes where
  "BASE64_SYMBOLS = ''ABCDEFGHIJKLMNOPQRSTUVWXYZabcdefghijklmnopqrstuvwxyz0123456789+/''"

definition base64_chunk :: "bytes \<Rightarrow> bytes" where
  "base64_chunk chunk =
     (let grp = foldl (\<lambda>grp (index, b). grp OR push_bit (16 - 8 * index) (of_char b)) (0 :: nat) (enumerate 0 chunk)
      in map (\<lambda>index. if index \<le> length chunk then BASE64_SYMBOLS ! (drop_bit (18 - 6 * index) grp AND 0x3F) else CHR ''='')
           [0..<4])"

function encode_base64 :: "bytes \<Rightarrow> bytes" where
  "encode_base64 bs = (if bs = [] then [] else base64_chunk (take 3 bs) @ encode_base64 (drop 3 bs))"
  by pat_completeness auto
termination
  by (relation "measure length") auto

declare encode_base64.simps [simp del]

definition base64_value :: "byte \<Rightarrow> nat option" where
  "base64_value c =
     (if byte_in 65 90 c then Some (of_char c - 65)
      else if byte_in 97 122 c then Some (of_char c - 97 + 26)
      else if byte_in 48 57 c then Some (of_char c - 48 + 52)
      else if c = CHR ''+'' then Some 62
      else if c = CHR ''/'' then Some 63
      else None)"

fun group_value :: "nat \<Rightarrow> bytes \<Rightarrow> (nat, transform_error) result" where
  "group_value v [] = Ok v"
| "group_value v (symbol # rest) =
     and_then (ok_or (base64_value symbol) InvalidBase64) (\<lambda>s. group_value (push_bit 6 v OR s) rest)"

definition decode_group :: "bool \<Rightarrow> bytes \<Rightarrow> (bytes, transform_error) result" where
  "decode_group final grp =
     (let padding = length (takeWhile (\<lambda>symbol. symbol = CHR ''='') (rev grp)) in
      if 2 < padding \<or> 0 < padding \<and> \<not> final then Err InvalidBase64
      else
        and_then (group_value 0 (take (4 - padding) grp)) (\<lambda>v.
          let v = push_bit (6 * padding) v;
              produced = 3 - padding;
              unused = (if padding = 2 then 16 else if padding = 1 then 8 else (0 :: nat))
          in if 0 < unused \<and> v AND (push_bit unused 1 - 1) \<noteq> 0 then Err InvalidBase64
             else Ok (map (\<lambda>shift. char_of (drop_bit (16 - 8 * shift) v AND 0xFF)) [0..<produced])))"

function decode_groups :: "bytes \<Rightarrow> (bytes, transform_error) result" where
  "decode_groups t =
     (if t = [] then Ok []
      else
        and_then (decode_group (drop 4 t = []) (take 4 t)) (\<lambda>out.
        and_then (decode_groups (drop 4 t)) (\<lambda>rest. Ok (out @ rest))))"
  by pat_completeness auto
termination
  by (relation "measure length") auto

declare decode_groups.simps [simp del]

definition decode_base64 :: "string \<Rightarrow> (bytes, transform_error) result" where
  "decode_base64 t = (if length t mod 4 \<noteq> 0 then Err InvalidBase64 else decode_groups t)"

section \<open>Hexadecimal\<close>

definition hex_symbol :: "byte \<Rightarrow> nat option" where
  "hex_symbol c =
     (if byte_in 48 57 c then Some (of_char c - 48)
      else if byte_in 97 102 c then Some (of_char c - 87)
      else if byte_in 65 70 c then Some (of_char c - 55)
      else None)"

fun hex_pairs :: "bytes \<Rightarrow> (bytes, transform_error) result" where
  "hex_pairs (h # l # rest) =
     and_then (ok_or (hex_symbol h) InvalidHex) (\<lambda>high.
     and_then (ok_or (hex_symbol l) InvalidHex) (\<lambda>low.
     and_then (hex_pairs rest) (\<lambda>out.
       Ok (char_of (push_bit 4 high OR low) # out))))"
| "hex_pairs _ = Ok []"

definition decode_hex :: "string \<Rightarrow> (bytes, transform_error) result" where
  "decode_hex t = (if length t mod 2 \<noteq> 0 then Err InvalidHex else hex_pairs t)"

section \<open>Data URLs and media types\<close>

definition is_tchar :: "byte \<Rightarrow> bool" where
  "is_tchar c \<longleftrightarrow> is_ascii_alphanumeric c \<or> c \<in> set ''!#$%&*+-.^_`|~'' \<or> c = CHR 0x27"

definition is_media_type :: "string \<Rightarrow> bool" where
  "is_media_type v =
     (if v = [] \<or> MAX_MEDIA_TYPE_BYTES < length v then False
      else
        (case split_once (CHR ''/'') v of
           None \<Rightarrow> False
         | Some (kind, subtype) \<Rightarrow> kind \<noteq> [] \<and> list_all is_tchar kind \<and> subtype \<noteq> [] \<and> list_all is_tchar subtype))"

definition strip_prefix_ignore_case :: "string \<Rightarrow> string \<Rightarrow> string option" where
  "strip_prefix_ignore_case v p =
     (if length p \<le> length v \<and> is_char_boundary v (length p) \<and> eq_ignore_ascii_case (take (length p) v) p
      then Some (drop (length p) v) else None)"

fun base64_marker :: "bool \<Rightarrow> string list \<Rightarrow> (bool, transform_error) result" where
  "base64_marker base64 [] = Ok base64"
| "base64_marker base64 (segment # segments) =
     (if eq_ignore_ascii_case segment ''base64'' then base64_marker True segments
      else if base64 then Err InvalidDataUrl
      else base64_marker base64 segments)"

definition parse_data_url_v1 :: "string \<Rightarrow> (string option \<times> bytes, transform_error) result" where
  "parse_data_url_v1 url =
     and_then (ok_or (strip_prefix_ignore_case url ''data:'') InvalidDataUrl) (\<lambda>rest.
     and_then (ok_or (split_once (CHR '','') rest) InvalidDataUrl) (\<lambda>(header, payload).
       let segments = split_on (CHR '';'') header; media_type = hd segments in
       and_then (base64_marker False (tl segments)) (\<lambda>base64.
         if \<not> base64 then Err InvalidDataUrl
         else
           and_then
             (if media_type = [] then Ok None
              else if is_media_type media_type then Ok (Some media_type)
              else Err InvalidDataUrl) (\<lambda>media_type.
           and_then (map_err (\<lambda>_. InvalidDataUrl) (decode_base64 payload)) (\<lambda>bytes.
             Ok (media_type, bytes))))))"

definition data_url_payload_v1 :: "string \<Rightarrow> (string, transform_error) result" where
  "data_url_payload_v1 url = and_then (parse_data_url_v1 url) (\<lambda>p. Ok (encode_base64 (snd p)))"

section \<open>WAV and the transforms\<close>

text \<open>\<open>to_le_bytes\<close> of an unsigned integer of a number of bytes.\<close>

definition le_bytes :: "nat \<Rightarrow> nat \<Rightarrow> bytes" where
  "le_bytes n v = map (\<lambda>i. char_of (v div 256 ^ i)) [0..<n]"

definition wav_pcm_s16le_v1 :: "bytes \<Rightarrow> nat \<Rightarrow> nat \<Rightarrow> (bytes, transform_error) result" where
  "wav_pcm_s16le_v1 pcm sample_rate channels =
     (if \<not> (1 \<le> sample_rate \<and> sample_rate \<le> MAX_WAV_SAMPLE_RATE) \<or> \<not> (1 \<le> channels \<and> channels \<le> MAX_WAV_CHANNELS)
      then Err InvalidPcm
      else
        let block_align = 2 * channels in
        if 2 ^ 32 \<le> length pcm then Err InvalidPcm
        else if length pcm mod block_align \<noteq> 0 then Err InvalidPcm
        else if 2 ^ 32 \<le> length pcm + 36 then Err InvalidPcm
        else if 2 ^ 32 \<le> sample_rate * block_align then Err InvalidPcm
        else Ok (''RIFF'' @ le_bytes 4 (length pcm + 36) @ ''WAVEfmt '' @ le_bytes 4 16 @ le_bytes 2 1 @
          le_bytes 2 channels @ le_bytes 4 sample_rate @ le_bytes 4 (sample_rate * block_align) @
          le_bytes 2 block_align @ le_bytes 2 16 @ ''data'' @ le_bytes 4 (length pcm) @ pcm))"

datatype media_transform =
    AsIs | ToBase64 | DataUrl | FromDataUrl | DataUrlPayload | FromBase64 | FromHex | Concat | WavPcmS16le nat nat

definition transform_text :: "bytes \<Rightarrow> (string, transform_error) result" where
  "transform_text input = (if utf8_valid input then Ok input else Err NotText)"

fun transform_apply :: "media_transform \<Rightarrow> bytes \<Rightarrow> string option \<Rightarrow> (bytes, transform_error) result" where
  "transform_apply AsIs input media_type = Ok input"
| "transform_apply ToBase64 input media_type = Ok (encode_base64 input)"
| "transform_apply DataUrl input media_type =
     and_then (ok_or media_type InvalidMediaType) (\<lambda>m.
       if \<not> is_media_type m then Err InvalidMediaType
       else Ok (''data:'' @ m @ '';base64,'' @ encode_base64 input))"
| "transform_apply FromDataUrl input media_type =
     and_then (transform_text input) (\<lambda>t. and_then (parse_data_url_v1 t) (\<lambda>p. Ok (snd p)))"
| "transform_apply DataUrlPayload input media_type = and_then (transform_text input) data_url_payload_v1"
| "transform_apply FromBase64 input media_type = and_then (transform_text input) decode_base64"
| "transform_apply FromHex input media_type = and_then (transform_text input) decode_hex"
| "transform_apply Concat input media_type = Err ConcatNeedsList"
| "transform_apply (WavPcmS16le sample_rate channels) input media_type = wav_pcm_s16le_v1 input sample_rate channels"

definition reads_text :: "media_transform \<Rightarrow> bool" where
  "reads_text w \<longleftrightarrow> w \<in> {FromDataUrl, DataUrlPayload, FromBase64, FromHex}"

definition produces_text :: "media_transform \<Rightarrow> bool" where
  "produces_text w \<longleftrightarrow> w \<in> {ToBase64, DataUrl, DataUrlPayload}"

definition transform_minimum_contract_version :: "media_transform \<Rightarrow> nat" where
  "transform_minimum_contract_version w = (if w = DataUrlPayload then 2 else 1)"

definition concat_v1 :: "bytes list \<Rightarrow> bytes" where
  "concat_v1 parts = fold (\<lambda>part out. out @ part) parts []"

section \<open>The two base64 codecs agree\<close>

lemma BASE64_SYMBOLS_standard: "BASE64_SYMBOLS = symbols Standard"
  by (simp add: BASE64_SYMBOLS_def symbols_def)

lemma symbols_codes:
  "map of_char (symbols Standard) = [65..<91] @ [97..<123] @ [48..<58] @ [43, 47 :: nat]"
  by (simp add: symbols_def upt_rec)

lemma symbol_code:
  assumes "s < 64"
  shows "of_char (symbols Standard ! s) =
    (if s < 26 then s + 65 else if s < 52 then s + 71 else if s < 62 then s - 4 else if s = 62 then 43 else (47 :: nat))"
proof -
  have s: "of_char (symbols Standard ! s) = ([65..<91] @ [97..<123] @ [48..<58] @ [43, 47 :: nat]) ! s"
    using assms arg_cong [OF symbols_codes, of "\<lambda>xs. xs ! s"] by (simp only: nth_map length_symbols)
  have app: "([a..<b] @ xs) ! k = (if k < b - a then a + k else xs ! (k - (b - a)))" for a b k :: nat and xs
    by (simp add: nth_append)
  consider "s < 26" | "26 \<le> s" "s < 52" | "52 \<le> s" "s < 62" | "s = 62" | "s = 63" using assms by linarith
  then show ?thesis unfolding s app by cases auto
qed

lemma base64_value_symbol: "s < 64 \<Longrightarrow> base64_value (symbols Standard ! s) = Some s"
  using symbol_code [of s] of_char_eq_iff [of "symbols Standard ! s" "CHR ''+''", where 'a = nat]
    of_char_eq_iff [of "symbols Standard ! s" "CHR ''/''", where 'a = nat]
  by (auto simp: base64_value_def byte_in_def split: if_splits)

lemma base64_value_code:
  assumes "base64_value c = Some s"
  shows "s < 64 \<and> of_char c =
    (if s < 26 then s + 65 else if s < 52 then s + 71 else if s < 62 then s - 4 else if s = 62 then 43 else (47 :: nat))"
  using assms by (auto simp: base64_value_def byte_in_def split: if_splits)

lemma base64_value_sextet: "base64_value c = sextet Standard c"
proof -
  have "base64_value c = Some s \<longleftrightarrow> sextet Standard c = Some s" for s
  proof
    assume c: "base64_value c = Some s"
    then have s: "s < 64" using base64_value_code by blast
    have "of_char c = (of_char (symbols Standard ! s) :: nat)"
      using base64_value_code [OF c] base64_value_code [OF base64_value_symbol [OF s]] by simp
    with s show "sextet Standard c = Some s" by (simp add: sextet_Some_iff)
  qed (auto simp: sextet_Some_iff base64_value_symbol)
  then show ?thesis by (metis not_Some_eq)
qed

lemma base64_chunk_encode_chunk:
  assumes "chunk \<noteq> []" and "length chunk \<le> 3"
  shows "base64_chunk chunk = encode_chunk Standard True chunk"
proof -
  have "[0..<4] = [0, 1, 2, 3 :: nat]" by (simp add: upt_rec)
  from assms show ?thesis
    by (cases rule: up_to_three)
      (simp_all add: base64_chunk_def encode_chunk_def chunk_group_def BASE64_SYMBOLS_standard \<open>[0..<4] = _\<close> Let_def
        upt_rec numeral_3_eq_3)
qed

lemma encode_base64_standard: "encode_base64 bs = b64_encode bs Standard True"
proof (induction bs rule: encode_base64.induct)
  case (1 bs)
  show ?case
  proof (cases "bs = []")
    case False
    with 1 base64_chunk_encode_chunk [of "take 3 bs"] show ?thesis
      by (simp add: encode_base64.simps [of bs] b64_encode.simps [of bs])
  qed (simp add: encode_base64.simps b64_encode.simps)
qed

lemma group_value_Ok:
  assumes "group_value v t = Ok v'"
  shows "\<exists>ss. t = map ((!) (symbols Standard)) ss \<and> (\<forall>s \<in> set ss. s < 64) \<and> v' = v * 64 ^ length ss + value64 ss"
  using assms
proof (induction t arbitrary: v)
  case (Cons c t)
  then obtain s where s: "sextet Standard c = Some s" and rest: "group_value (push_bit 6 v OR s) t = Ok v'"
    by (auto simp: and_then_Ok_iff ok_or_Ok_iff base64_value_sextet)
  then have c: "s < 64" "symbols Standard ! s = c" by (simp_all add: sextet_Some_iff)
  from Cons.IH [OF rest] obtain ss where ss: "t = map ((!) (symbols Standard)) ss" "\<forall>s \<in> set ss. s < 64"
    "v' = (push_bit 6 v OR s) * 64 ^ length ss + value64 ss" by blast
  have "push_bit 6 v OR s = v * 64 + s" using push_or [of s 6 v] c(1) by simp
  with ss c show ?case by (intro exI [of _ "s # ss"]) (simp add: value64_Cons algebra_simps)
qed (auto intro: exI [of _ "[]"])

lemma group_value_symbols:
  "(\<forall>s \<in> set ss. s < 64) \<Longrightarrow> group_value v (map ((!) (symbols Standard)) ss) = Ok (v * 64 ^ length ss + value64 ss)"
proof (induction ss arbitrary: v)
  case (Cons s ss)
  have "push_bit 6 v OR s = v * 64 + s" using push_or [of s 6 v] Cons.prems by simp
  with Cons show ?case by (simp add: base64_value_sextet value64_Cons algebra_simps)
qed simp

text \<open>The padding of a group of symbols.\<close>

lemma group_padding:
  assumes "\<forall>s \<in> set ss. s < 64" and "ss \<noteq> []"
  shows "length (takeWhile (\<lambda>c. c = CHR ''='') (rev (map ((!) (symbols Standard)) ss @ replicate p (CHR ''='')))) = p"
proof -
  have "last (map ((!) (symbols Standard)) ss) \<in> set (symbols Standard)"
    using assms by (simp add: last_map)
  then have "last (map ((!) (symbols Standard)) ss) \<noteq> CHR ''=''" using pad_not_symbol [of Standard] by metis
  then have "takeWhile (\<lambda>c. c = CHR ''='') (rev (map ((!) (symbols Standard)) ss)) = []"
    using assms(2) by (cases ss rule: rev_cases) auto
  then show ?thesis by (simp add: takeWhile_append)
qed

text \<open>The bytes a group of four sextets produces, for each padding.\<close>

lemma group_bytes:
  fixes v :: nat
  assumes "p \<le> 2"
  shows "map (\<lambda>shift. char_of (drop_bit (16 - 8 * shift) (push_bit (6 * p) v) AND 0xFF)) [0..<3 - p] =
      be_bytes (3 - p) (v div 4 ^ p)" (is ?bytes)
    and "push_bit (6 * p) v AND (push_bit (8 * p) 1 - 1) = 0 \<longleftrightarrow> v mod 4 ^ p = 0" (is ?unused)
proof -
  have byte: "char_of (x AND 0xFF) = char_of x" for x :: nat by (simp add: and_numerals)
  have shifts: "v * 64 div 65536 = v div 4 div 256" "v * 64 div 256 = v div 4" "v * 4096 div 65536 = v div 16"
    "v div 65536 = v div 256 div 256"
    using div_mult_mult2 [of 64 v 1024] div_mult_mult2 [of 64 v 4] div_mult_mult2 [of 4096 v 16]
    by (simp_all add: div_mult2_eq [symmetric])
  have lists: "[0..<3] = [0, 1, 2 :: nat]" "[0..<2] = [0, 1 :: nat]" "[0..<Suc 0] = [0]" by (simp_all add: upt_rec)
  have n: "(3 :: nat) = Suc (Suc (Suc 0))" "(2 :: nat) = Suc (Suc 0)" by simp_all
  have cases: "p = 0 \<or> p = 1 \<or> p = 2" using assms by linarith
  then show ?bytes
    by (elim disjE) (simp_all add: byte drop_bit_eq_div push_bit_eq_mult lists shifts, simp_all add: n)
  have "v * 64 mod 256 = v mod 4 * 64" "v * 4096 mod 65536 = v mod 16 * 4096"
    using mult_mod_left [of v 4 64] mult_mod_left [of v 16 4096] by simp_all
  with cases show ?unused
    using and_low [of "v * 64" 8] and_low [of "v * 4096" 16] by (elim disjE) (simp_all add: push_bit_eq_mult)
qed

lemma decode_group_padded:
  assumes "\<forall>s \<in> set ss. s < 64" and "length ss + p = 4" and "p \<le> 2"
  shows "decode_group final (map ((!) (symbols Standard)) ss @ replicate p (CHR ''='')) =
    (if 0 < p \<and> \<not> final \<or> value64 ss mod 4 ^ p \<noteq> 0 then Err InvalidBase64
     else Ok (be_bytes (3 - p) (value64 ss div 4 ^ p)))"
proof -
  have "ss \<noteq> []" using assms(2,3) by auto
  from group_padding [OF assms(1) this, of p] have pad:
    "length (takeWhile (\<lambda>c. c = CHR ''='') (rev (map ((!) (symbols Standard)) ss @ replicate p (CHR ''='')))) = p" .
  have take: "take (4 - p) (map ((!) (symbols Standard)) ss @ replicate p (CHR ''='')) = map ((!) (symbols Standard)) ss"
    using assms(2) by simp
  have v: "group_value 0 (map ((!) (symbols Standard)) ss) = Ok (value64 ss)"
    using group_value_symbols [OF assms(1), of 0] by simp
  have unused: "(if p = 2 then 16 else if p = 1 then 8 else 0) = 8 * p" using assms(3) by auto
  have "\<not> 2 < p" using assms(3) by simp
  then show ?thesis
    unfolding decode_group_def pad take v Let_def and_then.simps unused group_bytes [OF assms(3)]
    by (cases "p = 0") simp_all
qed

lemma value64_spare:
  assumes "length bs + p = 3" and "p \<le> 2"
  shows "value64 (sextets bs) = be_nat bs * 4 ^ p" and "length (sextets bs) + p = 4"
proof -
  have "length bs = 1 \<and> p = 2 \<or> length bs = 2 \<and> p = 1 \<or> length bs = 3 \<and> p = 0" using assms by linarith
  then have spare: "2 ^ spare (length bs) = (4 ^ p :: nat)" "(8 * length bs + spare (length bs)) div 6 + p = 4"
    by (elim disjE conjE; simp add: spare_def)+
  show "value64 (sextets bs) = be_nat bs * 4 ^ p" by (simp only: value64_sextets spare)
  show "length (sextets bs) + p = 4" using spare(2) by (simp add: sextets_def)
qed

lemma padding_replicate:
  fixes xs a
  defines "p \<equiv> length (takeWhile (\<lambda>c. c = a) (rev xs))"
  shows "xs = take (length xs - p) xs @ replicate p a"
proof -
  let ?p = "takeWhile (\<lambda>c. c = a) (rev xs)"
  have "\<forall>y \<in> set ?p. y = a" by (auto dest: set_takeWhileD)
  then have "replicate p a = ?p" unfolding p_def by (rule replicate_length_same)
  then have "rev ?p = replicate p a" by (metis rev_replicate)
  moreover have "take (length xs - p) xs = rev (dropWhile (\<lambda>c. c = a) (rev xs))"
    by (simp add: p_def dropWhile_eq_drop rev_drop)
  moreover have "rev (dropWhile (\<lambda>c. c = a) (rev xs)) @ rev ?p = xs"
    by (metis rev_append rev_rev_ident takeWhile_dropWhile_id)
  ultimately show ?thesis by simp
qed

lemma pad_len_three: "length bs + p = 3 \<Longrightarrow> p \<le> 2 \<Longrightarrow> pad_len (length bs) = p"
proof -
  assume "length bs + p = 3" and "p \<le> 2"
  then have "length bs = 1 \<and> p = 2 \<or> length bs = 2 \<and> p = 1 \<or> length bs = 3 \<and> p = 0" by linarith
  then show ?thesis by (elim disjE conjE) (simp_all add: pad_len_def)
qed

lemma decode_group_Ok:
  assumes "length g = 4" and ok: "decode_group final g = Ok bs"
  shows "bs \<noteq> [] \<and> length bs \<le> 3 \<and> g = encode_chunk Standard True bs \<and> (length bs < 3 \<longrightarrow> final)"
proof -
  define p where "p = length (takeWhile (\<lambda>c. c = CHR ''='') (rev g))"
  have p: "p \<le> 2" using ok by (auto simp: decode_group_def Let_def p_def [symmetric] split: if_splits)
  have g: "g = take (4 - p) g @ replicate p (CHR ''='')"
    using padding_replicate [of g "CHR ''=''"] by (simp only: p_def [symmetric] assms(1))
  from ok obtain v where "group_value 0 (take (4 - p) g) = Ok v"
    by (auto simp: decode_group_def Let_def p_def [symmetric] and_then_Ok_iff split: if_splits)
  from group_value_Ok [OF this] obtain ss where ss: "take (4 - p) g = map ((!) (symbols Standard)) ss" "\<forall>s \<in> set ss. s < 64"
    by blast
  have len: "length ss + p = 4" using arg_cong [OF ss(1), of length] assms(1) p by simp
  have "decode_group final (map ((!) (symbols Standard)) ss @ replicate p (CHR ''='')) = Ok bs"
    using ok g ss(1) by simp
  then have f: "0 < p \<longrightarrow> final" "value64 ss mod 4 ^ p = 0" "bs = be_bytes (3 - p) (value64 ss div 4 ^ p)"
    unfolding decode_group_padded [OF ss(2) len p] by (auto split: if_splits)
  have lb: "length bs + p = 3" using f(3) p by simp
  have "value64 ss < 64 ^ length ss" by (rule value64_less [OF ss(2)])
  also have "64 ^ length ss = 256 ^ (3 - p) * (4 :: nat) ^ p"
  proof -
    have "p = 0 \<and> length ss = 4 \<or> p = 1 \<and> length ss = 3 \<or> p = 2 \<and> length ss = 2" using p len by linarith
    then show ?thesis by (elim disjE conjE) simp_all
  qed
  finally have "value64 ss div 4 ^ p < 256 ^ (3 - p)" by (simp add: less_mult_imp_div_less)
  then have "be_nat bs * 4 ^ p = value64 ss" using f(2,3) by (auto simp: be_nat_be_bytes)
  with value64_spare [OF lb p] have "value64 (sextets bs) = value64 ss" "length (sextets bs) = length ss" using len by simp_all
  then have "sextets bs = ss" using digits64_value64 [of ss] digits64_value64 [of "sextets bs"] ss(2) sextets_less by metis
  moreover have "bs \<noteq> []" "length bs \<le> 3" using lb p by auto
  moreover have "pad_len (length bs) = p" using lb p by (rule pad_len_three)
  ultimately show ?thesis using f(1) g ss(1) lb encode_chunk_sextets [of bs Standard True] by auto
qed

lemma decode_group_exact:
  assumes "length g = 4"
  shows "decode_group final g = Ok bs \<longleftrightarrow>
    bs \<noteq> [] \<and> length bs \<le> 3 \<and> g = encode_chunk Standard True bs \<and> (length bs < 3 \<longrightarrow> final)"
proof
  assume bs: "bs \<noteq> [] \<and> length bs \<le> 3 \<and> g = encode_chunk Standard True bs \<and> (length bs < 3 \<longrightarrow> final)"
  define p where "p = 3 - length bs"
  have p: "length bs + p = 3" "p \<le> 2" using bs by (cases bs; auto simp: p_def)+
  have pl: "pad_len (length bs) = p" using p by (rule pad_len_three)
  have g: "g = map ((!) (symbols Standard)) (sextets bs) @ replicate p (CHR ''='')"
    using bs encode_chunk_sextets [of bs Standard True] pl by simp
  have "be_bytes (3 - p) (be_nat bs) = bs" using p be_bytes_be_nat [of bs] by (metis add_diff_cancel_right')
  with p bs show "decode_group final g = Ok bs"
    using sextets_less unfolding g
    by (subst decode_group_padded) (auto simp: value64_spare [OF p] )
qed (use decode_group_Ok [OF assms] in blast)

lemma length_encode_chunk: "chunk \<noteq> [] \<Longrightarrow> length chunk \<le> 3 \<Longrightarrow> length (encode_chunk Standard True chunk) = 4"
  by (simp add: encode_chunk_def)

lemma encode_base64_step:
  "encode_base64 [] = []"
  "bs \<noteq> [] \<Longrightarrow> encode_base64 bs = encode_chunk Standard True (take 3 bs) @ encode_base64 (drop 3 bs)"
  using base64_chunk_encode_chunk [of "take 3 bs"] by (simp_all add: encode_base64.simps [of bs] encode_base64.simps [of "[]"])

lemma encode_base64_Nil_iff [simp]: "encode_base64 bs = [] \<longleftrightarrow> bs = []"
proof (cases "bs = []")
  case False
  then have "length (encode_chunk Standard True (take 3 bs)) = 4" by (simp add: length_encode_chunk)
  with False show ?thesis by (auto simp: encode_base64_step(2))
qed (simp add: encode_base64_step)

lemma length_encode_base64: "length (encode_base64 bs) mod 4 = 0"
proof (induction bs rule: encode_base64.induct)
  case (1 bs)
  then show ?case
    using length_encode_chunk [of "take 3 bs"] by (cases "bs = []") (simp_all add: encode_base64_step)
qed

lemma decode_groups_exact:
  "length t mod 4 = 0 \<Longrightarrow> decode_groups t = Ok bs \<longleftrightarrow> t = encode_base64 bs"
proof (induction t arbitrary: bs rule: measure_induct_rule [of length])
  case (less t)
  show ?case
  proof (cases "t = []")
    case True
    then show ?thesis by (auto simp: decode_groups.simps eq_commute [of _ bs] eq_commute [of "[]" "encode_base64 bs"])
  next
    case False
    with less.prems have l4: "length (take 4 t) = 4" by (cases "length t < 4") auto
    with less.prems have ld: "length (drop 4 t) mod 4 = 0" by (simp add: le_mod_geq)
    have IH: "decode_groups (drop 4 t) = Ok r \<longleftrightarrow> drop 4 t = encode_base64 r" for r
      using False ld by (intro less.IH) auto
    show ?thesis
    proof
      assume "decode_groups t = Ok bs"
      with False obtain out rest where o: "decode_group (drop 4 t = []) (take 4 t) = Ok out" and
        r: "drop 4 t = encode_base64 rest" and bs: "bs = out @ rest"
        unfolding decode_groups.simps [of t] and_then_Ok_iff IH by (auto simp: and_then_Ok_iff IH simp del: drop_eq_Nil drop_eq_Nil2)
      from o have o': "out \<noteq> []" "length out \<le> 3" "take 4 t = encode_chunk Standard True out"
        "length out < 3 \<longrightarrow> drop 4 t = []" by (simp_all add: decode_group_exact [OF l4])
      then have "take 3 bs = out" "drop 3 bs = rest" using bs r by (cases "length out = 3"; simp)+
      then show "t = encode_base64 bs"
        using encode_base64_step(2) [of bs] o' bs r by (metis append_is_Nil_conv append_take_drop_id)
    next
      assume t: "t = encode_base64 bs"
      then have bs: "bs \<noteq> []" using False by auto
      then have l: "length (encode_chunk Standard True (take 3 bs)) = 4" by (simp add: length_encode_chunk)
      have "take 4 t = encode_chunk Standard True (take 3 bs)" "drop 4 t = encode_base64 (drop 3 bs)"
        using t encode_base64_step(2) [OF bs] l by simp_all
      moreover have "decode_group (drop 4 t = []) (take 4 t) = Ok (take 3 bs)"
        unfolding decode_group_exact [OF l4] using calculation bs by auto
      ultimately show "decode_groups t = Ok bs"
        using False IH [of "drop 3 bs"] by (simp add: decode_groups.simps [of t])
    qed
  qed
qed

lemma decode_base64_exact: "decode_base64 t = Ok bs \<longleftrightarrow> t = encode_base64 bs"
  using decode_groups_exact [of t bs] length_encode_base64 [of bs] by (auto simp: decode_base64_def)


lemma canonical_decode_Some: "b64_decode t a Canonical = Some bs \<longleftrightarrow> t = b64_encode bs a True"
proof
  assume "b64_decode t a Canonical = Some bs"
  from decode_sound [OF this] show "t = b64_encode bs a True" by (auto simp: encode_sextets pad_allowed_def)
qed (simp add: encode_sextets decode_sextets pad_allowed_def)

text \<open>
  Claim C15. The base64 codec of the media transforms and the one of the reference components,
  written independently, are the same function: they encode alike, and the media decoder accepts
  exactly the texts the canonical decoder of the references accepts, that is the encoder's own texts,
  with the same bytes.\<close>

theorem base64_codecs_agree:
  "encode_base64 bs = b64_encode bs Standard True \<and>
   (decode_base64 t = (case b64_decode t Standard Canonical of Some d \<Rightarrow> Ok d | None \<Rightarrow> Err InvalidBase64)) \<and>
   (decode_base64 t = Ok bs \<longleftrightarrow> t = encode_base64 bs)"
proof -
  have err: "decode_group f g = Err e \<Longrightarrow> e = InvalidBase64" for f g e
  proof -
    have "group_value v xs = Err e' \<Longrightarrow> e' = InvalidBase64" for v xs e'
      by (induction v xs rule: group_value.induct) (auto simp: and_then_Err_iff ok_or_Err_iff)
    then show "decode_group f g = Err e \<Longrightarrow> e = InvalidBase64"
      by (auto simp: decode_group_def Let_def and_then_Err_iff split: if_splits)
  qed
  have "decode_groups x = Err e \<Longrightarrow> e = InvalidBase64" for x e
  proof (induction x rule: measure_induct_rule [of length])
    case (less x)
    have "decode_groups (drop 4 x) = Err e \<Longrightarrow> x \<noteq> [] \<Longrightarrow> e = InvalidBase64" using less.IH [of "drop 4 x"] by simp
    with less.prems err show ?case by (auto simp: decode_groups.simps [of x] and_then_Err_iff split: if_splits)
  qed
  then have "decode_base64 t = Err e \<Longrightarrow> e = InvalidBase64" for e
    by (auto simp: decode_base64_def split: if_splits)
  moreover have "b64_decode t Standard Canonical = Some d \<longleftrightarrow> decode_base64 t = Ok d" for d
    by (simp add: decode_base64_exact canonical_decode_Some encode_base64_standard)
  ultimately have "decode_base64 t = (case b64_decode t Standard Canonical of Some d \<Rightarrow> Ok d | None \<Rightarrow> Err InvalidBase64)"
    by (cases "decode_base64 t") (auto split: option.splits)
  then show ?thesis by (intro conjI encode_base64_standard decode_base64_exact)
qed

section \<open>Data URLs\<close>

lemma encode_base64_ascii: "list_all ascii (encode_base64 bs)"
proof -
  have "list_all ascii (symbols Standard)" by (simp add: symbols_def ascii_def)
  then have "ascii (symbols Standard ! s)" if "s < 64" for s using that nth_mem [of s "symbols Standard"] by (simp add: list_all_iff)
  moreover have "ascii (CHR ''='')" by (simp add: ascii_def)
  ultimately show ?thesis
    by (auto simp: encode_base64_standard encode_sextets list_all_iff dest: sextets_less)
qed

lemma tchar_ascii: "is_tchar c \<Longrightarrow> ascii c"
  by (auto simp: is_tchar_def is_ascii_alphanumeric_def is_ascii_alphabetic_def is_ascii_uppercase_def
      is_ascii_lowercase_def is_ascii_digit_def byte_in_def ascii_def)

lemma separators_not_tchar: "\<not> is_tchar (CHR '','')" "\<not> is_tchar (CHR '';'')" "\<not> is_tchar (CHR ''/'')"
  by code_simp+

lemma media_type_chars:
  assumes "is_media_type m"
  shows "m \<noteq> []" and "list_all ascii m" and "CHR '','' \<notin> set m" and "CHR '';'' \<notin> set m"
proof -
  from assms obtain kind subtype where m: "m = kind @ CHR ''/'' # subtype" "list_all is_tchar kind" "list_all is_tchar subtype"
    by (auto simp: is_media_type_def split_once_Some_iff split: if_splits option.splits)
  then have chars: "\<forall>c \<in> set m. is_tchar c \<or> c = CHR ''/''" by (auto simp: list_all_iff)
  show "m \<noteq> []" using m by simp
  show "list_all ascii m" using chars tchar_ascii by (auto simp: list_all_iff ascii_def)
  show "CHR '','' \<notin> set m" "CHR '';'' \<notin> set m" using chars separators_not_tchar by fastforce+
qed


lemma strip_prefix_plain:
  assumes "\<forall>c \<in> set rest. ascii c"
  shows "strip_prefix_ignore_case (p @ rest) p = Some rest"
proof -
  have "is_char_boundary (p @ rest) (length p)"
    using assms by (cases rest) (auto simp: is_char_boundary_def nth_append ascii_def byte_in_def)
  then show ?thesis by (simp add: strip_prefix_ignore_case_def)
qed

lemma strip_prefix_suffix: "strip_prefix_ignore_case v p = Some rest \<Longrightarrow> v = take (length p) v @ rest"
  by (auto simp: strip_prefix_ignore_case_def split: if_splits)

lemma parse_data_url_written:
  assumes "is_media_type m"
  shows "parse_data_url_v1 (''data:'' @ m @ '';base64,'' @ encode_base64 bs) = Ok (Some m, bs)"
proof -
  note m = media_type_chars [OF assms]
  have strip: "strip_prefix_ignore_case (''data:'' @ m @ '';base64,'' @ encode_base64 bs) ''data:'' =
      Some (m @ '';base64,'' @ encode_base64 bs)"
    using m(2) encode_base64_ascii [of bs] by (intro strip_prefix_plain) (auto simp: list_all_iff ascii_def)
  have once: "split_once (CHR '','') (m @ '';base64,'' @ encode_base64 bs) = Some (m @ '';base64'', encode_base64 bs)"
    using m(3) by (simp add: split_once_Some_iff)
  have "split_on (CHR '';'') (m @ '';base64'') = [m, ''base64'']"
    using split_on_sep [OF m(4), of "''base64''"] by simp
  moreover have "decode_base64 (encode_base64 bs) = Ok bs" by (simp add: decode_base64_exact)
  ultimately show ?thesis
    unfolding parse_data_url_v1_def strip ok_or.simps and_then.simps once using m(1) assms by (simp add: Let_def)
qed

text \<open>
  A data URL a transform writes is read back: whenever \<open>data_url\<close> succeeds on some
  bytes, the URL parses into the media type it was given and those bytes, \<open>from_data_url\<close> returns
  the bytes and \<open>data_url_payload\<close> their base64. And of every data URL that is accepted, written here
  or not, \<open>data_url_payload\<close> returns the payload as written, the text after a comma.\<close>

theorem data_url_round_trip:
  assumes "transform_apply DataUrl input (Some m) = Ok url"
  shows "parse_data_url_v1 url = Ok (Some m, input) \<and>
    transform_apply FromDataUrl url m' = Ok input \<and>
    transform_apply DataUrlPayload url m' = transform_apply ToBase64 input m'' \<and>
    (\<forall>other payload. data_url_payload_v1 other = Ok payload \<longrightarrow> (\<exists>header. other = header @ CHR '','' # payload))"
proof -
  from assms have m: "is_media_type m" and url: "url = ''data:'' @ m @ '';base64,'' @ encode_base64 input"
    by (auto split: if_splits)
  have p: "parse_data_url_v1 url = Ok (Some m, input)" unfolding url by (rule parse_data_url_written [OF m])
  have "list_all ascii url"
    using media_type_chars(2) [OF m] encode_base64_ascii [of input] by (simp add: url ascii_def)
  then have "utf8_valid url" by (rule utf8_valid_ascii)
  with p have "transform_text url = Ok url" by (simp add: transform_text_def)
  moreover have "\<exists>header. other = header @ CHR '','' # payload" if "data_url_payload_v1 other = Ok payload" for other payload
  proof -
    from that obtain rest header sent bs where "strip_prefix_ignore_case other ''data:'' = Some rest"
      "split_once (CHR '','') rest = Some (header, sent)" "decode_base64 sent = Ok bs" "payload = encode_base64 bs"
      by (auto simp: data_url_payload_v1_def parse_data_url_v1_def and_then_Ok_iff ok_or_Ok_iff map_err_Ok Let_def
          split: if_splits)
    then have "other = (take (length ''data:'') other @ header) @ CHR '','' # payload"
      using strip_prefix_suffix [of other "''data:''" rest] by (auto simp: split_once_Some_iff decode_base64_exact)
    then show ?thesis by blast
  qed
  ultimately show ?thesis using p by (simp add: data_url_payload_v1_def)
qed

theorem data_url_round_trip_witness:
  "parse_data_url_v1 ''data:image/png;base64,aGk='' = Ok (Some ''image/png'', ''hi'')"
proof -
  have "transform_apply DataUrl ''hi'' (Some ''image/png'') = Ok ''data:image/png;base64,aGk=''"
  proof -
    have "is_media_type ''image/png''" by code_simp
    moreover have "encode_base64 ''hi'' = ''aGk=''"
      by (simp add: encode_base64.simps base64_chunk_def BASE64_SYMBOLS_def upt_rec)
    ultimately show ?thesis by simp
  qed
  from data_url_round_trip [OF this, of None None] show ?thesis by blast
qed


section \<open>Text, hexadecimal and WAV\<close>

text \<open>A word that says it produces text does: its result can stand as a JSON string.\<close>

lemma produces_text_utf8:
  assumes "produces_text w" and "transform_apply w input m = Ok out"
  shows "list_all ascii out"
proof -
  from assms(1) consider "w = ToBase64" | "w = DataUrl" | "w = DataUrlPayload" by (auto simp: produces_text_def)
  then show ?thesis
  proof cases
    case 2
    with assms(2) obtain t where "is_media_type t" "out = ''data:'' @ t @ '';base64,'' @ encode_base64 input"
      by (auto simp: and_then_Ok_iff ok_or_Ok_iff split: if_splits)
    then show ?thesis using media_type_chars(2) [of t] encode_base64_ascii [of input] by (simp add: ascii_def)
  next
    case 3
    with assms(2) show ?thesis by (auto simp: and_then_Ok_iff data_url_payload_v1_def encode_base64_ascii)
  qed (use assms(2) encode_base64_ascii in auto)
qed

lemma reads_text_refuses: "reads_text w \<Longrightarrow> \<not> utf8_valid input \<Longrightarrow> transform_apply w input m = Err NotText"
  by (auto simp: reads_text_def transform_text_def)

lemma hex_symbol_less: "hex_symbol c = Some d \<Longrightarrow> d < 16"
  by (auto simp: hex_symbol_def byte_in_def split: if_splits)

lemma hex_pairs_length: "hex_pairs t = Ok bs \<Longrightarrow> length t mod 2 = 0 \<Longrightarrow> length t = 2 * length bs"
  by (induction t arbitrary: bs rule: hex_pairs.induct) (auto simp: and_then_Ok_iff)

text \<open>Byte \<open>i\<close> of the result is the number its two digits spell.\<close>

lemma decode_hex_nth:
  assumes "decode_hex t = Ok bs" and "i < length bs"
  shows "\<exists>h l. hex_symbol (t ! (2 * i)) = Some h \<and> hex_symbol (t ! (2 * i + 1)) = Some l \<and>
    of_char (bs ! i) = 16 * h + l"
proof -
  have "hex_pairs t = Ok bs" using assms(1) by (auto simp: decode_hex_def split: if_splits)
  then show ?thesis using assms(2)
  proof (induction t arbitrary: bs i rule: hex_pairs.induct)
    case (1 h l rest)
    then obtain hi lo out where d: "hex_symbol h = Some hi" "hex_symbol l = Some lo" "hex_pairs rest = Ok out"
      "bs = char_of (push_bit 4 hi OR lo) # out" by (auto simp: and_then_Ok_iff ok_or_Ok_iff)
    have "push_bit 4 hi OR lo = 16 * hi + lo" "16 * hi + lo < 256"
      using push_or [of lo 4 hi] hex_symbol_less [OF d(1)] hex_symbol_less [OF d(2)] by simp_all
    then show ?case using d 1 by (cases i) (auto simp: of_char_of)
  qed auto
qed

text \<open>A WAV file is the 44-byte header followed by the samples, and its two sizes are those of what
  follows them.\<close>

fun le_nat :: "bytes \<Rightarrow> nat" where
  "le_nat [] = 0"
| "le_nat (b # bs) = of_char b + 256 * le_nat bs"

lemma length_le_bytes [simp]: "length (le_bytes n v) = n"
  by (simp add: le_bytes_def)

lemma le_bytes_Suc: "le_bytes (Suc n) v = char_of v # le_bytes n (v div 256)"
proof -
  have "le_bytes (Suc n) v = map (\<lambda>i. char_of (v div 256 ^ i)) (0 # map Suc [0..<n])"
    by (simp only: le_bytes_def upt_conv_Cons zero_less_Suc map_Suc_upt)
  then show ?thesis by (simp add: le_bytes_def comp_def div_mult2_eq)
qed

lemma le_nat_le_bytes: "v < 256 ^ n \<Longrightarrow> le_nat (le_bytes n v) = v"
proof (induction n arbitrary: v)
  case (Suc n)
  then have "le_nat (le_bytes n (v div 256)) = v div 256" by (simp add: less_mult_imp_div_less mult.commute)
  then show ?case by (simp add: le_bytes_Suc)
qed (simp add: le_bytes_def)

lemma wav_layout:
  assumes "wav_pcm_s16le_v1 pcm sample_rate channels = Ok wav"
  shows "drop 44 wav = pcm" and "length wav = 44 + length pcm"
    and "le_nat (take 4 (drop 4 wav)) = length (drop 8 wav)"
    and "le_nat (take 4 (drop 40 wav)) = length (drop 44 wav)"
proof -
  from assms have small: "length pcm + 36 < 256 ^ 4" and
    wav: "wav = ''RIFF'' @ le_bytes 4 (length pcm + 36) @ ''WAVEfmt '' @ le_bytes 4 16 @ le_bytes 2 1 @
          le_bytes 2 channels @ le_bytes 4 sample_rate @ le_bytes 4 (sample_rate * (2 * channels)) @
          le_bytes 2 (2 * channels) @ le_bytes 2 16 @ ''data'' @ le_bytes 4 (length pcm) @ pcm"
    by (auto simp: wav_pcm_s16le_v1_def Let_def split: if_splits)
  show len: "length wav = 44 + length pcm" by (simp add: wav)
  show data: "drop 44 wav = pcm" by (simp add: wav)
  have "take 4 (drop 4 wav) = le_bytes 4 (length pcm + 36)" "take 4 (drop 40 wav) = le_bytes 4 (length pcm)" by (simp_all add: wav)
  then show "le_nat (take 4 (drop 4 wav)) = length (drop 8 wav)" "le_nat (take 4 (drop 40 wav)) = length (drop 44 wav)"
    using small len data by (simp_all add: le_nat_le_bytes)
qed

lemma concat_v1_concat: "concat_v1 parts = concat parts"
proof -
  have "fold (\<lambda>part out. out @ part) parts acc = acc @ concat parts" for acc by (induction parts arbitrary: acc) auto
  then show ?thesis by (simp add: concat_v1_def)
qed

end
