(* ===== verification/Media_Json.thy ===== *)
theory Media_Json
  imports Utf8_Chars
begin

text \<open>
  \<open>south-contracts/src/media/json.rs\<close>: the order- and text-preserving JSON tree the elider and the
  template expander share. The parser's position is the list of bytes still to be read, so
  \<open>text[start..at]\<close> is what was read between two such lists. The parser is compared with the grammar
  of RFC 8259, written as inductive relations.
\<close>

section \<open>The tree\<close>

record json_string =
  js_raw :: string
  js_decoded :: string

datatype json_node =
    Scalar string | String json_string | Array "json_node list" | Object "json_member list"
and json_member = Member (member_key: json_string) (member_value: json_node)

datatype json_parse_error = Syntax | TooDeep

definition MAX_MEDIA_JSON_DEPTH :: nat where
  "MAX_MEDIA_JSON_DEPTH = 128"

section \<open>The scanner\<close>

type_synonym 'a json_scan = "('a \<times> bytes, json_parse_error) result"

definition json_peek :: "bytes \<Rightarrow> byte option" where
  "json_peek s = (case s of [] \<Rightarrow> None | b # _ \<Rightarrow> Some b)"

definition json_space :: "byte \<Rightarrow> bool" where
  "json_space b \<longleftrightarrow> b \<in> {CHR '' '', CHR 0x09, CHR 0x0A, CHR 0x0D}"

definition skip_whitespace :: "bytes \<Rightarrow> bytes" where
  "skip_whitespace s = dropWhile json_space s"

definition json_expect :: "byte \<Rightarrow> bytes \<Rightarrow> (bytes, json_parse_error) result" where
  "json_expect b s = (if json_peek s = Some b then Ok (tl s) else Err Syntax)"

definition text_between :: "bytes \<Rightarrow> bytes \<Rightarrow> bytes" where
  "text_between start rest = take (length start - length rest) start"

definition json_literal :: "string \<Rightarrow> bytes \<Rightarrow> json_node json_scan" where
  "json_literal word s =
     (if starts_with word s then Ok (Scalar word, drop (length word) s) else Err Syntax)"

definition json_digits :: "bytes \<Rightarrow> nat \<times> bytes" where
  "json_digits s = (length (takeWhile is_ascii_digit s), dropWhile is_ascii_digit s)"

definition json_number :: "bytes \<Rightarrow> json_node json_scan" where
  "json_number start =
     (let signed = (if json_peek start = Some (CHR ''-'') then tl start else start) in
      and_then
        (case json_peek signed of
           None \<Rightarrow> Err Syntax
         | Some b \<Rightarrow>
             if b = CHR ''0'' then Ok (tl signed)
             else if byte_in 49 57 b then Ok (snd (json_digits signed))
             else Err Syntax) (\<lambda>whole.
      and_then
        (if json_peek whole = Some (CHR ''.'') then
           (case json_digits (tl whole) of (n, rest) \<Rightarrow> if n = 0 then Err Syntax else Ok rest)
         else Ok whole) (\<lambda>fraction.
      and_then
        (if json_peek fraction \<in> {Some (CHR ''e''), Some (CHR ''E'')} then
           (let exponent = tl fraction;
                exponent' = (if json_peek exponent \<in> {Some (CHR ''+''), Some (CHR ''-'')} then tl exponent
                             else exponent)
            in case json_digits exponent' of (n, rest) \<Rightarrow> if n = 0 then Err Syntax else Ok rest)
         else Ok fraction) (\<lambda>rest.
      Ok (Scalar (text_between start rest), rest)))))"

text \<open>\<open>char::to_digit(16)\<close>.\<close>

definition hex_digit_value :: "byte \<Rightarrow> nat option" where
  "hex_digit_value c =
     (if byte_in 48 57 c then Some (of_char c - 48)
      else if byte_in 97 102 c then Some (of_char c - 87)
      else if byte_in 65 70 c then Some (of_char c - 55)
      else None)"

fun hex_loop :: "nat \<Rightarrow> bytes \<Rightarrow> (nat, json_parse_error) result" where
  "hex_loop v [] = Ok v"
| "hex_loop v (d # ds) =
     and_then (ok_or (hex_digit_value d) Syntax) (\<lambda>nibble. hex_loop (v * 16 + nibble) ds)"

definition hex4 :: "bytes \<Rightarrow> nat json_scan" where
  "hex4 s =
     (if length s < 4 then Err Syntax
      else and_then (hex_loop 0 (take 4 s)) (\<lambda>v. Ok (v, drop 4 s)))"

definition unicode_escape :: "bytes \<Rightarrow> nat json_scan" where
  "unicode_escape s =
     and_then (hex4 s) (\<lambda>(first, s1).
     and_then
       (if 0xD800 \<le> first \<and> first \<le> 0xDBFF then
          (if \<not> starts_with [CHR 0x5C, CHR ''u''] s1 then Err Syntax
           else
             and_then (hex4 (drop 2 s1)) (\<lambda>(second, s2).
               if \<not> (0xDC00 \<le> second \<and> second \<le> 0xDFFF) then Err Syntax
               else Ok (0x10000 + (first - 0xD800) * 0x400 + (second - 0xDC00), s2)))
        else if 0xDC00 \<le> first \<and> first \<le> 0xDFFF then Err Syntax
        else Ok (first, s1)) (\<lambda>(code, rest).
     and_then (ok_or (char_from_u32 code) Syntax) (\<lambda>c. Ok (c, rest))))"

text \<open>The escapes of one letter.\<close>

definition short_escape :: "byte \<Rightarrow> byte option" where
  "short_escape e =
     map_of [(CHR 0x22, CHR 0x22), (CHR 0x5C, CHR 0x5C), (CHR ''/'', CHR ''/''), (CHR ''b'', CHR 0x08),
       (CHR ''f'', CHR 0x0C), (CHR ''n'', CHR 0x0A), (CHR ''r'', CHR 0x0D), (CHR ''t'', CHR 0x09)] e"

lemma hex4_shrinks: "hex4 s = Ok (v, r) \<Longrightarrow> length s = length r + 4"
  by (auto simp: hex4_def and_then_Ok_iff split: if_splits)

lemma unicode_escape_shrinks: "unicode_escape s = Ok (v, r) \<Longrightarrow> length r < length s"
  unfolding unicode_escape_def and_then_Ok_iff
  by (force dest!: hex4_shrinks simp: and_then_Ok_iff starts_with_iff_prefix prefix_def split: if_splits)

text \<open>The loop of \<open>string\<close>: the decoded text and the input at the closing quote.\<close>

function json_string_loop :: "bytes \<Rightarrow> bytes \<Rightarrow> string json_scan" where
  "json_string_loop decoded s =
     (case s of
        [] \<Rightarrow> Err Syntax
      | b # s1 \<Rightarrow>
          if b = CHR 0x22 then Ok (decoded, s)
          else if b = CHR 0x5C then
            (case s1 of
               [] \<Rightarrow> Err Syntax
             | e # s2 \<Rightarrow>
                 (case short_escape e of
                    Some c \<Rightarrow> json_string_loop (decoded @ [c]) s2
                  | None \<Rightarrow>
                      if e = CHR ''u'' then
                        (case unicode_escape s2 of
                           Err x \<Rightarrow> Err x
                         | Ok (c, s3) \<Rightarrow> json_string_loop (decoded @ encode_utf8 c) s3)
                      else Err Syntax))
          else if byte_in 0 0x1F b then Err Syntax
          else
            (case utf8_head s of
               None \<Rightarrow> Err Syntax
             | Some n \<Rightarrow> json_string_loop (decoded @ take n s) (drop n s)))"
  by pat_completeness auto
termination
  by (relation "measure (length \<circ> snd)")
    (auto dest: unicode_escape_shrinks utf8_head_bounds less_SucI)

declare json_string_loop.simps [simp del]

definition json_string_scan :: "bytes \<Rightarrow> json_string json_scan" where
  "json_string_scan s =
     and_then (json_expect (CHR 0x22) s) (\<lambda>start.
     and_then (json_string_loop [] start) (\<lambda>(decoded, rest).
       Ok (\<lparr>js_raw = text_between start rest, js_decoded = decoded\<rparr>, tl rest)))"

lemma skip_whitespace_length: "length (skip_whitespace s) \<le> length s"
  by (simp add: skip_whitespace_def length_dropWhile_le)

lemma json_peek_Some: "json_peek s = Some b \<longleftrightarrow> (\<exists>r. s = b # r)"
  by (auto simp: json_peek_def split: list.splits)

lemma json_expect_Ok: "json_expect b s = Ok r \<longleftrightarrow> s = b # r"
  by (auto simp: json_expect_def json_peek_Some)

section \<open>Values\<close>

function json_value :: "nat \<Rightarrow> bytes \<Rightarrow> json_node json_scan"
  and json_array :: "nat \<Rightarrow> bytes \<Rightarrow> json_node json_scan"
  and json_items :: "nat \<Rightarrow> json_node list \<Rightarrow> bytes \<Rightarrow> json_node json_scan"
  and json_object :: "nat \<Rightarrow> bytes \<Rightarrow> json_node json_scan"
  and json_members :: "nat \<Rightarrow> json_member list \<Rightarrow> bytes \<Rightarrow> json_node json_scan" where
  "json_value depth s =
     (case json_peek s of
        None \<Rightarrow> Err Syntax
      | Some b \<Rightarrow>
          if b = CHR ''{'' then json_object (depth + 1) s
          else if b = CHR ''['' then json_array (depth + 1) s
          else if b = CHR 0x22 then and_then (json_string_scan s) (\<lambda>(v, rest). Ok (String v, rest))
          else if b = CHR ''t'' then json_literal ''true'' s
          else if b = CHR ''f'' then json_literal ''false'' s
          else if b = CHR ''n'' then json_literal ''null'' s
          else if b = CHR ''-'' \<or> is_ascii_digit b then json_number s
          else Err Syntax)"
| "json_array depth s =
     (if MAX_MEDIA_JSON_DEPTH < depth then Err TooDeep
      else
        and_then (json_expect (CHR ''['') s) (\<lambda>s1.
          let s2 = skip_whitespace s1 in
          if json_peek s2 = Some (CHR '']'') then Ok (Array [], tl s2)
          else json_items depth [] s2))"
| "json_items depth items s =
     and_then (json_value depth (skip_whitespace s)) (\<lambda>(item, s1).
       let s2 = skip_whitespace s1 in
       if json_peek s2 = Some (CHR '','') then json_items depth (items @ [item]) (tl s2)
       else if json_peek s2 = Some (CHR '']'') then Ok (Array (items @ [item]), tl s2)
       else Err Syntax)"
| "json_object depth s =
     (if MAX_MEDIA_JSON_DEPTH < depth then Err TooDeep
      else
        and_then (json_expect (CHR ''{'') s) (\<lambda>s1.
          let s2 = skip_whitespace s1 in
          if json_peek s2 = Some (CHR ''}'') then Ok (Object [], tl s2)
          else json_members depth [] s2))"
| "json_members depth members s =
     and_then (json_string_scan (skip_whitespace s)) (\<lambda>(key, s1).
     and_then (json_expect (CHR '':'') (skip_whitespace s1)) (\<lambda>s2.
     and_then (json_value depth (skip_whitespace s2)) (\<lambda>(v, s3).
       let s4 = skip_whitespace s3 in
       if json_peek s4 = Some (CHR '','') then json_members depth (members @ [Member key v]) (tl s4)
       else if json_peek s4 = Some (CHR ''}'') then Ok (Object (members @ [Member key v]), tl s4)
       else Err Syntax)))"
  by pat_completeness auto

text \<open>Every call that succeeds has read something.\<close>

lemma json_string_loop_shrinks: "json_string_loop d s = Ok (d', r) \<Longrightarrow> length r \<le> length s \<and> (\<exists>t. r = CHR 0x22 # t)"
proof (induction d s rule: json_string_loop.induct)
  case (1 d s)
  note IH = "1.IH" and ok = "1.prems" [unfolded json_string_loop.simps [of d s]]
  show ?case
  proof (cases s)
    case (Cons b s1)
    consider (quote) "b = CHR 0x22" | (escape) "b = CHR 0x5C" | (other) "b \<noteq> CHR 0x22" "b \<noteq> CHR 0x5C" by blast
    then show ?thesis
    proof cases
      case quote
      then show ?thesis using ok Cons by auto
    next
      case escape
      then show ?thesis using ok IH(1-2) [OF Cons] Cons unicode_escape_shrinks
        by (fastforce split: list.splits option.splits result.splits prod.splits if_splits)
    next
      case other
      then show ?thesis using ok IH(3) [OF Cons] Cons
        by (fastforce split: option.splits if_splits)
    qed
  qed (use ok in simp)
qed

lemma json_string_scan_shrinks: "json_string_scan s = Ok (v, r) \<Longrightarrow> length r < length s"
  by (auto simp: json_string_scan_def and_then_Ok_iff json_expect_Ok dest!: json_string_loop_shrinks)

lemma json_literal_shrinks: "json_literal word s = Ok (n, r) \<Longrightarrow> word \<noteq> [] \<Longrightarrow> length r < length s"
  by (auto simp: json_literal_def starts_with_iff_prefix prefix_def split: if_splits)

lemma json_peek_tl: "json_peek s = Some b \<Longrightarrow> length (tl s) < length s"
  by (auto simp: json_peek_Some)

lemma json_digits_shrinks: "json_digits s = (n, r) \<Longrightarrow> length r \<le> length s \<and> (0 < n \<longrightarrow> length r < length s)"
  by (cases s) (auto simp: json_digits_def length_dropWhile_le less_Suc_eq_le le_SucI split: if_splits)

lemma json_number_shrinks:
  assumes "json_number s = Ok (n, r)"
  shows "length r < length s"
proof -
  define signed where "signed = (if json_peek s = Some (CHR ''-'') then tl s else s)"
  have signed: "length signed \<le> length s" by (simp add: signed_def)
  from assms obtain whole fraction where
    whole: "(case json_peek signed of None \<Rightarrow> Err Syntax | Some b \<Rightarrow> if b = CHR ''0'' then Ok (tl signed)
        else if byte_in 49 57 b then Ok (snd (json_digits signed)) else Err Syntax) = Ok whole"
    and fraction: "(if json_peek whole = Some (CHR ''.'') then
        (case json_digits (tl whole) of (n, rest) \<Rightarrow> if n = 0 then Err Syntax else Ok rest) else Ok whole) = Ok fraction"
    and rest: "(if json_peek fraction \<in> {Some (CHR ''e''), Some (CHR ''E'')} then
           (let exponent = tl fraction;
                exponent' = (if json_peek exponent \<in> {Some (CHR ''+''), Some (CHR ''-'')} then tl exponent
                             else exponent)
            in case json_digits exponent' of (n, rest) \<Rightarrow> if n = 0 then Err Syntax else Ok rest)
         else Ok fraction) = Ok r"
    unfolding json_number_def Let_def and_then_Ok_iff signed_def [symmetric] by auto
  have "length whole < length signed"
    using whole json_digits_shrinks [of signed]
    by (cases signed) (auto simp: json_peek_def json_digits_def is_ascii_digit_def byte_in_def le_imp_less_Suc
        length_dropWhile_le split: if_splits)
  moreover have "length fraction \<le> length whole"
    using fraction json_digits_shrinks [of "tl whole"] by (fastforce split: if_splits prod.splits)
  moreover have "length r \<le> length fraction"
    using rest json_digits_shrinks [of "tl fraction"] json_digits_shrinks [of "tl (tl fraction)"]
    by (fastforce simp: Let_def split: if_splits prod.splits)
  ultimately show ?thesis using signed by linarith
qed

lemmas json_token_shrinks =
  json_literal_shrinks [of "''true''", simplified] json_literal_shrinks [of "''false''", simplified]
  json_literal_shrinks [of "''null''", simplified] json_number_shrinks json_string_scan_shrinks

lemma json_shrinks:
  "json_value_json_array_json_items_json_object_json_members_dom (Inl (Inl (d, s))) \<Longrightarrow>
    json_value d s = Ok (n, r) \<Longrightarrow> length r < length s"
  "json_value_json_array_json_items_json_object_json_members_dom (Inl (Inr (d, s))) \<Longrightarrow>
    json_array d s = Ok (n, r) \<Longrightarrow> length r < length s"
  "json_value_json_array_json_items_json_object_json_members_dom (Inr (Inl (d, items, s))) \<Longrightarrow>
    json_items d items s = Ok (n, r) \<Longrightarrow> length r < length s"
  "json_value_json_array_json_items_json_object_json_members_dom (Inr (Inr (Inl (d, s)))) \<Longrightarrow>
    json_object d s = Ok (n, r) \<Longrightarrow> length r < length s"
  "json_value_json_array_json_items_json_object_json_members_dom (Inr (Inr (Inr (d, ms, s)))) \<Longrightarrow>
    json_members d ms s = Ok (n, r) \<Longrightarrow> length r < length s"
proof (induction d s and d s and d items s and d s and d ms s arbitrary: n r and n r and n r and n r and n r
    rule: json_value_json_array_json_items_json_object_json_members.pinduct)
  case (1 d s)
  from "1.prems" obtain b where b: "json_peek s = Some b"
    and ok: "(if b = CHR ''{'' then json_object (d + 1) s
          else if b = CHR ''['' then json_array (d + 1) s
          else if b = CHR 0x22 then and_then (json_string_scan s) (\<lambda>(v, rest). Ok (String v, rest))
          else if b = CHR ''t'' then json_literal ''true'' s
          else if b = CHR ''f'' then json_literal ''false'' s
          else if b = CHR ''n'' then json_literal ''null'' s
          else if b = CHR ''-'' \<or> is_ascii_digit b then json_number s
          else Err Syntax) = Ok (n, r)"
    unfolding json_value.psimps [OF "1.hyps"] by (auto split: option.splits)
  note IH = "1.IH" [OF b]
  show ?case
    using ok by (simp add: IH json_token_shrinks and_then_Ok_iff split: if_splits)
      (auto simp: IH json_token_shrinks)
next
  case (2 d s)
  from "2.prems" obtain s1 where s1: "\<not> MAX_MEDIA_JSON_DEPTH < d" "json_expect (CHR ''['') s = Ok s1"
    and ok: "(if json_peek (skip_whitespace s1) = Some (CHR '']'') then Ok (Array [], tl (skip_whitespace s1))
          else json_items d [] (skip_whitespace s1)) = Ok (n, r)"
    unfolding json_array.psimps [OF "2.hyps"] Let_def by (auto simp: and_then_Ok_iff split: if_splits)
  from ok have "length r \<le> length (skip_whitespace s1)"
    using "2.IH" [OF s1 refl] by (auto split: if_splits)
  with s1(2) skip_whitespace_length [of s1] show ?case by (simp add: json_expect_Ok)
next
  case (3 d items s)
  from "3.prems" obtain item s1 where v: "json_value d (skip_whitespace s) = Ok (item, s1)"
    and ok: "(if json_peek (skip_whitespace s1) = Some (CHR '','') then json_items d (items @ [item]) (tl (skip_whitespace s1))
       else if json_peek (skip_whitespace s1) = Some (CHR '']'') then Ok (Array (items @ [item]), tl (skip_whitespace s1))
       else Err Syntax) = Ok (n, r)"
    unfolding json_items.psimps [OF "3.hyps"] Let_def by (auto simp: and_then_Ok_iff)
  have "length s1 < length s"
    using "3.IH"(1) [OF v] skip_whitespace_length [of s] by simp
  moreover have "length r \<le> length (skip_whitespace s1)"
    using ok "3.IH"(2) [OF v refl refl] by (fastforce split: if_splits)
  ultimately show ?case using skip_whitespace_length [of s1] by linarith
next
  case (4 d s)
  from "4.prems" obtain s1 where s1: "\<not> MAX_MEDIA_JSON_DEPTH < d" "json_expect (CHR ''{'') s = Ok s1"
    and ok: "(if json_peek (skip_whitespace s1) = Some (CHR ''}'') then Ok (Object [], tl (skip_whitespace s1))
          else json_members d [] (skip_whitespace s1)) = Ok (n, r)"
    unfolding json_object.psimps [OF "4.hyps"] Let_def by (auto simp: and_then_Ok_iff split: if_splits)
  from ok have "length r \<le> length (skip_whitespace s1)"
    using "4.IH" [OF s1 refl] by (auto split: if_splits)
  with s1(2) skip_whitespace_length [of s1] show ?case by (simp add: json_expect_Ok)
next
  case (5 d ms s)
  from "5.prems" obtain key s1 s2 v s3 where k: "json_string_scan (skip_whitespace s) = Ok (key, s1)"
    and colon: "json_expect (CHR '':'') (skip_whitespace s1) = Ok s2"
    and v: "json_value d (skip_whitespace s2) = Ok (v, s3)"
    and ok: "(if json_peek (skip_whitespace s3) = Some (CHR '','')
         then json_members d (ms @ [Member key v]) (tl (skip_whitespace s3))
       else if json_peek (skip_whitespace s3) = Some (CHR ''}'') then Ok (Object (ms @ [Member key v]), tl (skip_whitespace s3))
       else Err Syntax) = Ok (n, r)"
    unfolding json_members.psimps [OF "5.hyps"] Let_def by (auto simp: and_then_Ok_iff)
  have "length s3 < length s"
    using "5.IH"(1) [OF k refl colon v] json_string_scan_shrinks [OF k] colon skip_whitespace_length [of s]
      skip_whitespace_length [of s1] skip_whitespace_length [of s2] by (simp add: json_expect_Ok)
  moreover have "length r \<le> length (skip_whitespace s3)"
    using ok "5.IH"(2) [OF k refl colon v refl refl] by (fastforce split: if_splits)
  ultimately show ?case using skip_whitespace_length [of s3] by linarith
qed

text \<open>
  The input shrinks around every loop, and between two reads the calls go from a loop to a value to
  an array or object, which starts by reading its bracket.
\<close>

definition json_rank :: "(nat \<times> bytes + nat \<times> bytes) + nat \<times> json_node list \<times> bytes + nat \<times> bytes + nat \<times> json_member list \<times> bytes \<Rightarrow> nat \<times> nat" where
  "json_rank c =
     (case c of
        Inl (Inl (d, s)) \<Rightarrow> (length s, 1)
      | Inl (Inr (d, s)) \<Rightarrow> (length s, 0)
      | Inr (Inl (d, items, s)) \<Rightarrow> (length s, 2)
      | Inr (Inr (Inl (d, s))) \<Rightarrow> (length s, 0)
      | Inr (Inr (Inr (d, members, s))) \<Rightarrow> (length s, 2))"

lemma skip_whitespace_less:
  "n < length (skip_whitespace s) \<Longrightarrow> n < length s"
  "skip_whitespace s = b # r \<Longrightarrow> length r < length s"
  "length s < n \<Longrightarrow> length (skip_whitespace s) < n" "length s < n \<Longrightarrow> length (skip_whitespace s) - Suc 0 < n"
  using skip_whitespace_length [of s] by auto

termination json_value
proof (relation "inv_image (less_than <*lex*> less_than) json_rank", goal_cases)
  case 1
  show ?case by (intro wf_inv_image wf_lex_prod wf_less_than)
qed (auto simp: json_rank_def json_expect_Ok json_peek_Some less_Suc_eq_le skip_whitespace_length
    intro: skip_whitespace_less(3,4) le_neq_implies_less
    dest!: json_shrinks json_string_scan_shrinks skip_whitespace_less(1,2))

declare json_value.simps [simp del] json_array.simps [simp del] json_items.simps [simp del]
  json_object.simps [simp del] json_members.simps [simp del]

definition json_parse :: "bytes \<Rightarrow> (json_node, json_parse_error) result" where
  "json_parse document =
     (if \<not> utf8_valid document then Err Syntax
      else
        and_then (json_value 0 (skip_whitespace document)) (\<lambda>(node, rest).
          if skip_whitespace rest \<noteq> [] then Err Syntax else Ok node))"

section \<open>Writers\<close>

text \<open>Pieces with a comma between them, as the writer's index loops put them.\<close>

fun comma_separated :: "string list \<Rightarrow> string" where
  "comma_separated [] = []"
| "comma_separated [p] = p"
| "comma_separated (p # q # ps) = p @ '','' @ comma_separated (q # ps)"

fun write_compact :: "json_node \<Rightarrow> string" and write_member :: "json_member \<Rightarrow> string" where
  "write_compact (Scalar t) = t"
| "write_compact (String v) = [CHR 0x22] @ js_raw v @ [CHR 0x22]"
| "write_compact (Array items) = ''['' @ comma_separated (map write_compact items) @ '']''"
| "write_compact (Object members) = ''{'' @ comma_separated (map write_member members) @ ''}''"
| "write_member (Member k v) = [CHR 0x22] @ js_raw k @ [CHR 0x22, CHR '':''] @ write_compact v"

definition lower_hex :: "nat \<Rightarrow> byte" where
  "lower_hex n = char_of (if n < 10 then 48 + n else 87 + n)"

text \<open>One character of \<open>write_string\<close>; a byte of a longer character is itself.\<close>

definition escape_char :: "byte \<Rightarrow> string" where
  "escape_char c =
     (if c = CHR 0x22 then [CHR 0x5C, CHR 0x22]
      else if c = CHR 0x5C then [CHR 0x5C, CHR 0x5C]
      else if c = CHR 0x08 then [CHR 0x5C, CHR ''b'']
      else if c = CHR 0x0C then [CHR 0x5C, CHR ''f'']
      else if c = CHR 0x0A then [CHR 0x5C, CHR ''n'']
      else if c = CHR 0x0D then [CHR 0x5C, CHR ''r'']
      else if c = CHR 0x09 then [CHR 0x5C, CHR ''t'']
      else if of_char c < (0x20 :: nat) then
        [CHR 0x5C, CHR ''u'', CHR ''0'', CHR ''0'', lower_hex (of_char c div 16), lower_hex (of_char c mod 16)]
      else [c])"

definition write_string :: "string \<Rightarrow> string" where
  "write_string v = [CHR 0x22] @ concat (map escape_char v) @ [CHR 0x22]"

section \<open>The grammar of RFC 8259\<close>

definition json_blank :: "bytes \<Rightarrow> bool" where
  "json_blank w \<longleftrightarrow> list_all json_space w"

definition json_digit_run :: "bytes \<Rightarrow> bool" where
  "json_digit_run ds \<longleftrightarrow> ds \<noteq> [] \<and> list_all is_ascii_digit ds"

definition json_number_text :: "bytes \<Rightarrow> bool" where
  "json_number_text t \<longleftrightarrow>
     (\<exists>sign whole fraction exponent. t = sign @ whole @ fraction @ exponent \<and>
        sign \<in> {[], ''-''} \<and>
        (whole = ''0'' \<or> json_digit_run whole \<and> hd whole \<noteq> CHR ''0'') \<and>
        (fraction = [] \<or> (\<exists>ds. fraction = CHR ''.'' # ds \<and> json_digit_run ds)) \<and>
        (exponent = [] \<or> (\<exists>e s ds. exponent = e # s @ ds \<and> e \<in> set ''eE'' \<and> s \<in> {[], ''+'', ''-''} \<and>
           json_digit_run ds)))"

text \<open>Four hexadecimal digits and the number they write.\<close>

definition json_hex4 :: "bytes \<Rightarrow> nat \<Rightarrow> bool" where
  "json_hex4 h v \<longleftrightarrow>
     (\<exists>a b c d. map hex_digit_value h = [Some a, Some b, Some c, Some d] \<and>
        v = ((a * 16 + b) * 16 + c) * 16 + d)"

text \<open>The text between the quotes of a string, and what it means.\<close>

inductive json_chars :: "bytes \<Rightarrow> bytes \<Rightarrow> bool" where
  empty: "json_chars [] []"
| plain: "utf8_char ch \<Longrightarrow> hd ch \<notin> {CHR 0x22, CHR 0x5C} \<Longrightarrow> \<not> byte_in 0 0x1F (hd ch) \<Longrightarrow>
    json_chars r d \<Longrightarrow> json_chars (ch @ r) (ch @ d)"
| escape: "short_escape e = Some c \<Longrightarrow> json_chars r d \<Longrightarrow> json_chars (CHR 0x5C # e # r) (c # d)"
| code: "json_hex4 h v \<Longrightarrow> v < 0xD800 \<or> 0xDFFF < v \<Longrightarrow> json_chars r d \<Longrightarrow>
    json_chars (CHR 0x5C # CHR ''u'' # h @ r) (encode_utf8 v @ d)"
| pair: "json_hex4 h v \<Longrightarrow> 0xD800 \<le> v \<Longrightarrow> v \<le> 0xDBFF \<Longrightarrow> json_hex4 h' v' \<Longrightarrow> 0xDC00 \<le> v' \<Longrightarrow> v' \<le> 0xDFFF \<Longrightarrow>
    json_chars r d \<Longrightarrow>
    json_chars (CHR 0x5C # CHR ''u'' # h @ CHR 0x5C # CHR ''u'' # h' @ r)
      (encode_utf8 (0x10000 + (v - 0xD800) * 0x400 + (v' - 0xDC00)) @ d)"

abbreviation json_quoted :: "bytes \<Rightarrow> bytes" where
  "json_quoted raw \<equiv> CHR 0x22 # raw @ [CHR 0x22]"

inductive json_text :: "json_node \<Rightarrow> bytes \<Rightarrow> bool"
  and json_item_list :: "json_node list \<Rightarrow> bytes \<Rightarrow> bool"
  and json_member_list :: "json_member list \<Rightarrow> bytes \<Rightarrow> bool"
  and json_member_text :: "json_member \<Rightarrow> bytes \<Rightarrow> bool" where
  word: "t \<in> {''true'', ''false'', ''null''} \<Longrightarrow> json_text (Scalar t) t"
| number: "json_number_text t \<Longrightarrow> json_text (Scalar t) t"
| quoted: "json_chars (js_raw v) (js_decoded v) \<Longrightarrow> json_text (String v) (json_quoted (js_raw v))"
| no_items: "json_blank w \<Longrightarrow> json_text (Array []) (CHR ''['' # w @ '']'')"
| items: "json_item_list ns t \<Longrightarrow> json_text (Array ns) (CHR ''['' # t @ '']'')"
| no_members: "json_blank w \<Longrightarrow> json_text (Object []) (CHR ''{'' # w @ ''}'')"
| members: "json_member_list ms t \<Longrightarrow> json_text (Object ms) (CHR ''{'' # t @ ''}'')"
| last_item: "json_blank w \<Longrightarrow> json_text n t \<Longrightarrow> json_blank w' \<Longrightarrow> json_item_list [n] (w @ t @ w')"
| next_item: "json_blank w \<Longrightarrow> json_text n t \<Longrightarrow> json_blank w' \<Longrightarrow> json_item_list ns t' \<Longrightarrow>
    json_item_list (n # ns) (w @ t @ w' @ CHR '','' # t')"
| last_member: "json_blank w \<Longrightarrow> json_member_text m t \<Longrightarrow> json_blank w' \<Longrightarrow> json_member_list [m] (w @ t @ w')"
| next_member: "json_blank w \<Longrightarrow> json_member_text m t \<Longrightarrow> json_blank w' \<Longrightarrow> json_member_list ms t' \<Longrightarrow>
    json_member_list (m # ms) (w @ t @ w' @ CHR '','' # t')"
| member: "json_chars (js_raw k) (js_decoded k) \<Longrightarrow> json_blank w \<Longrightarrow> json_blank w' \<Longrightarrow> json_text n t \<Longrightarrow>
    json_member_text (Member k n) (json_quoted (js_raw k) @ w @ CHR '':'' # w' @ t)"

text \<open>How deep arrays and objects are nested.\<close>

fun json_depth :: "json_node \<Rightarrow> nat" and json_member_depth :: "json_member \<Rightarrow> nat" where
  "json_depth (Scalar t) = 0"
| "json_depth (String v) = 0"
| "json_depth (Array items) = Suc (fold max (map json_depth items) 0)"
| "json_depth (Object members) = Suc (fold max (map json_member_depth members) 0)"
| "json_member_depth (Member k v) = json_depth v"

section \<open>Tokens read what the grammar writes\<close>

lemma hex_digit_value_less: "hex_digit_value c = Some n \<Longrightarrow> n < 16"
  by (auto simp: hex_digit_value_def byte_in_def split: if_splits)

lemma hex4_iff: "hex4 s = Ok (v, r) \<longleftrightarrow> (\<exists>h. s = h @ r \<and> json_hex4 h v)"
proof -
  have loop: "hex_loop 0 [a, b, c, d] = Ok v \<longleftrightarrow> json_hex4 [a, b, c, d] v" for a b c d
    by (auto simp: and_then_Ok_iff ok_or_Ok_iff json_hex4_def)
  have long: "hex4 (a # b # c # d # r') = Ok (v, r) \<longleftrightarrow> r = r' \<and> json_hex4 [a, b, c, d] v" for a b c d r'
    by (auto simp: hex4_def and_then_Ok_iff loop simp del: hex_loop.simps)
  have four: "\<exists>a b c d. h = [a, b, c, d]" if "json_hex4 h v" for h
    using that by (auto simp: json_hex4_def map_eq_Cons_conv)
  have "hex4 s = Err Syntax" if "length s < 4"
    using that by (simp add: hex4_def)
  moreover have "4 \<le> length s" if "s = h @ r" "json_hex4 h v" for h
    using four [OF that(2)] that(1) by auto
  moreover have "\<exists>a b c d r'. s = a # b # c # d # r'" if "4 \<le> length s"
    using that by (cases s rule: list4_cases) auto
  ultimately show ?thesis
  proof (cases "4 \<le> length s")
    case True
    then obtain a b c d r' where "s = a # b # c # d # r'"
      using \<open>4 \<le> length s \<Longrightarrow> _\<close> by blast
    then show ?thesis using long four by fastforce
  qed (auto simp: not_le)
qed

lemma json_hex4_less:
  assumes "json_hex4 h v"
  shows "v < 0x10000"
proof -
  from assms obtain a b c d where "map hex_digit_value h = [Some a, Some b, Some c, Some d]"
    "v = ((a * 16 + b) * 16 + c) * 16 + d"
    by (auto simp: json_hex4_def)
  moreover from this(1) have "a < 16" "b < 16" "c < 16" "d < 16"
    by (auto simp: map_eq_Cons_conv dest: hex_digit_value_less)
  ultimately show ?thesis by simp
qed

lemma unicode_escape_iff:
  "unicode_escape s = Ok (c, r) \<longleftrightarrow>
     (\<exists>h. s = h @ r \<and> json_hex4 h c \<and> (c < 0xD800 \<or> 0xDFFF < c)) \<or>
     (\<exists>h v h' v'. s = h @ CHR 0x5C # CHR ''u'' # h' @ r \<and> json_hex4 h v \<and> 0xD800 \<le> v \<and> v \<le> 0xDBFF \<and>
        json_hex4 h' v' \<and> 0xDC00 \<le> v' \<and> v' \<le> 0xDFFF \<and> c = 0x10000 + (v - 0xD800) * 0x400 + (v' - 0xDC00))"
  (is "?L \<longleftrightarrow> ?single \<or> ?pair")
proof
  assume ?L
  then obtain v s1 where v: "hex4 s = Ok (v, s1)"
    and ok: "and_then
       (if 0xD800 \<le> v \<and> v \<le> 0xDBFF then
          (if \<not> starts_with [CHR 0x5C, CHR ''u''] s1 then Err Syntax
           else
             and_then (hex4 (drop 2 s1)) (\<lambda>(second, s2).
               if \<not> (0xDC00 \<le> second \<and> second \<le> 0xDFFF) then Err Syntax
               else Ok (0x10000 + (v - 0xD800) * 0x400 + (second - 0xDC00), s2)))
        else if 0xDC00 \<le> v \<and> v \<le> 0xDFFF then Err Syntax
        else Ok (v, s1)) (\<lambda>(code, rest).
     and_then (ok_or (char_from_u32 code) Syntax) (\<lambda>c. Ok (c, rest))) = Ok (c, r)"
    by (auto simp: unicode_escape_def and_then_Ok_iff [of "hex4 s"])
  show "?single \<or> ?pair"
  proof (cases "0xD800 \<le> v \<and> v \<le> 0xDBFF")
    case True
    with ok have "?pair"
      using v by (fastforce simp: hex4_iff and_then_Ok_iff starts_with_iff_prefix prefix_def ok_or_Ok_iff
          char_from_u32_def split: if_splits)
    then show ?thesis ..
  next
    case False
    with ok v have "?single"
      by (fastforce simp: hex4_iff and_then_Ok_iff ok_or_Ok_iff char_from_u32_def split: if_splits)
    then show ?thesis ..
  qed
next
  assume "?single \<or> ?pair"
  then show ?L
  proof
    assume ?single
    then obtain h where h: "s = h @ r" "json_hex4 h c" "c < 0xD800 \<or> 0xDFFF < c" by blast
    then have "hex4 s = Ok (c, r)" by (auto simp: hex4_iff)
    with h json_hex4_less [OF h(2)] show ?L
      by (auto simp: unicode_escape_def char_from_u32_def)
  next
    assume ?pair
    then obtain h v h' v' where h: "s = h @ CHR 0x5C # CHR ''u'' # h' @ r" "json_hex4 h v" "0xD800 \<le> v"
      "v \<le> 0xDBFF" "json_hex4 h' v'" "0xDC00 \<le> v'" "v' \<le> 0xDFFF"
      "c = 0x10000 + (v - 0xD800) * 0x400 + (v' - 0xDC00)" by blast
    then have "hex4 s = Ok (v, CHR 0x5C # CHR ''u'' # h' @ r)" "hex4 (h' @ r) = Ok (v', r)"
      by (auto simp: hex4_iff)
    with h show ?L
      by (auto simp: unicode_escape_def char_from_u32_def starts_with_def)
  qed
qed

lemma json_string_loop_sound:
  "json_string_loop d s = Ok (d', r) \<Longrightarrow>
    \<exists>raw dec t. s = raw @ r \<and> r = CHR 0x22 # t \<and> json_chars raw dec \<and> d' = d @ dec"
proof (induction d s rule: json_string_loop.induct)
  case (1 d s)
  note ok = "1.prems" [unfolded json_string_loop.simps [of d s]]
  from ok obtain b s1 where s: "s = b # s1" by (cases s) auto
  note IH = "1.IH" [OF s]
  consider (quote) "b = CHR 0x22" | (escape) "b = CHR 0x5C" | (other) "b \<noteq> CHR 0x22" "b \<noteq> CHR 0x5C" by blast
  then show ?case
  proof cases
    case quote
    then show ?thesis using ok s by (auto intro: json_chars.empty)
  next
    case escape
    with ok s obtain e s2 where s1: "s1 = e # s2" by (cases s1) auto
    show ?thesis
    proof (cases "short_escape e")
      case (Some c)
      with ok s s1 escape have "json_string_loop (d @ [c]) s2 = Ok (d', r)" by simp
      from IH(2) [OF _ escape s1 Some this] escape obtain raw dec t where
        "s2 = raw @ r" "r = CHR 0x22 # t" "json_chars raw dec" "d' = (d @ [c]) @ dec" by auto
      with json_chars.escape [OF Some, of raw dec] s s1 escape show ?thesis by fastforce
    next
      case None
      with ok s s1 escape obtain c s3 where e: "e = CHR ''u''" and c: "unicode_escape s2 = Ok (c, s3)"
        and rest: "json_string_loop (d @ encode_utf8 c) s3 = Ok (d', r)"
        by (auto split: if_splits result.splits)
      from IH(1) [OF _ escape s1 None e c refl rest] escape obtain raw dec t where
        raw: "s3 = raw @ r" "r = CHR 0x22 # t" "json_chars raw dec" "d' = (d @ encode_utf8 c) @ dec" by auto
      from c consider h where "s2 = h @ s3" "json_hex4 h c" "c < 0xD800 \<or> 0xDFFF < c"
        | h v h' v' where "s2 = h @ CHR 0x5C # CHR ''u'' # h' @ s3" "json_hex4 h v" "0xD800 \<le> v" "v \<le> 0xDBFF"
          "json_hex4 h' v'" "0xDC00 \<le> v'" "v' \<le> 0xDFFF" "c = 0x10000 + (v - 0xD800) * 0x400 + (v' - 0xDC00)"
        unfolding unicode_escape_iff by blast
      then show ?thesis
      proof cases
        case 1
        with json_chars.code [OF 1(2,3) raw(3)] raw s s1 e escape show ?thesis by fastforce
      next
        case 2
        with json_chars.pair [OF 2(2-7) raw(3)] raw s s1 e escape show ?thesis by fastforce
      qed
    qed
  next
    case other
    with ok s obtain n where plain: "\<not> byte_in 0 0x1F b" "utf8_head s = Some n"
      and rest: "json_string_loop (d @ take n s) (drop n s) = Ok (d', r)"
      by (auto split: if_splits option.splits)
    from IH(3) [OF other plain rest] obtain raw dec t where
      raw: "drop n s = raw @ r" "r = CHR 0x22 # t" "json_chars raw dec" "d' = (d @ take n s) @ dec" by auto
    have "hd (take n s) = b" using utf8_head_bounds [OF plain(2)] s by (cases n) auto
    with json_chars.plain [OF utf8_char_take [OF plain(2)], of raw dec] plain other raw(3)
    have "json_chars (take n s @ raw) (take n s @ dec)" by simp
    moreover have "s = (take n s @ raw) @ r" using raw(1) by (metis append_assoc append_take_drop_id)
    ultimately show ?thesis using raw(2,4) by (metis append_assoc)
  qed
qed

lemma json_string_loop_complete:
  "json_chars raw dec \<Longrightarrow> json_string_loop d (raw @ CHR 0x22 # t) = Ok (d @ dec, CHR 0x22 # t)"
proof (induction arbitrary: d rule: json_chars.induct)
  case empty
  show ?case by (simp add: json_string_loop.simps)
next
  case (plain ch r dec)
  obtain b ch' where ch: "ch = b # ch'" using plain.hyps(1) by (cases ch) auto
  have "json_string_loop (d @ ch) (r @ CHR 0x22 # t) = Ok ((d @ ch) @ dec, CHR 0x22 # t)" by (rule plain.IH)
  then show ?case
    using plain.hyps utf8_char_append [OF plain.hyps(1), of "r @ CHR 0x22 # t"] ch
    by (simp add: json_string_loop.simps [of d "_ # _"])
next
  case (escape e c r dec)
  from escape.IH [of "d @ [c]"] escape.hyps show ?case
    by (simp add: json_string_loop.simps [of d "_ # _"])
next
  case (code h v r dec)
  have "unicode_escape (h @ r @ CHR 0x22 # t) = Ok (v, r @ CHR 0x22 # t)"
    unfolding unicode_escape_iff using code.hyps by blast
  moreover have "short_escape (CHR ''u'') = None" by (simp add: short_escape_def)
  ultimately show ?case using code.IH [of "d @ encode_utf8 v"]
    by (simp add: json_string_loop.simps [of d "_ # _"])
next
  case (pair h v h' v' r dec)
  let ?c = "0x10000 + (v - 0xD800) * 0x400 + (v' - 0xDC00)"
  have "unicode_escape (h @ CHR 0x5C # CHR ''u'' # h' @ r @ CHR 0x22 # t) = Ok (?c, r @ CHR 0x22 # t)"
    unfolding unicode_escape_iff using pair.hyps by blast
  moreover have "short_escape (CHR ''u'') = None" by (simp add: short_escape_def)
  ultimately show ?case using pair.IH [of "d @ encode_utf8 ?c"]
    by (simp add: json_string_loop.simps [of d "_ # _"])
qed

lemma json_string_scan_iff:
  "json_string_scan s = Ok (v, r) \<longleftrightarrow> s = json_quoted (js_raw v) @ r \<and> json_chars (js_raw v) (js_decoded v)"
proof
  assume "json_string_scan s = Ok (v, r)"
  then obtain start dec rest where s: "s = CHR 0x22 # start" and loop: "json_string_loop [] start = Ok (dec, rest)"
    and v: "v = \<lparr>js_raw = text_between start rest, js_decoded = dec\<rparr>" and r: "r = tl rest"
    by (auto simp: json_string_scan_def and_then_Ok_iff json_expect_Ok)
  from json_string_loop_sound [OF loop] s v r
  show "s = json_quoted (js_raw v) @ r \<and> json_chars (js_raw v) (js_decoded v)"
    by (auto simp: text_between_def)
next
  assume "s = json_quoted (js_raw v) @ r \<and> json_chars (js_raw v) (js_decoded v)"
  then show "json_string_scan s = Ok (v, r)"
    using json_string_loop_complete [of "js_raw v" "js_decoded v" "[]" r]
    by (simp add: json_string_scan_def json_expect_def json_peek_def text_between_def)
qed

subsection \<open>Numbers\<close>

lemma json_digits_sound: "json_digits s = (n, r) \<Longrightarrow> \<exists>ds. s = ds @ r \<and> list_all is_ascii_digit ds \<and> n = length ds"
  by (intro exI [of _ "takeWhile is_ascii_digit s"]) (auto simp: json_digits_def list_all_iff dest: set_takeWhileD)

lemma json_digits_complete:
  "list_all is_ascii_digit ds \<Longrightarrow> (r = [] \<or> \<not> is_ascii_digit (hd r)) \<Longrightarrow> json_digits (ds @ r) = (length ds, r)"
  by (induction ds) (cases r, auto simp: json_digits_def)

text \<open>What may stand after a number that ends where it is read.\<close>

definition json_delimited :: "bytes \<Rightarrow> bool" where
  "json_delimited r \<longleftrightarrow> r = [] \<or> \<not> is_ascii_digit (hd r) \<and> hd r \<notin> set ''.eE''"

lemma json_digit_run_sound:
  "(case json_digits s of (n, rest) \<Rightarrow> if n = 0 then Err Syntax else Ok rest) = Ok r \<Longrightarrow>
    \<exists>ds. s = ds @ r \<and> json_digit_run ds"
  using json_digits_sound [of s] by (fastforce simp: json_digit_run_def split: prod.splits if_splits)

lemma json_whole_sound:
  assumes whole: "(case json_peek s of None \<Rightarrow> Err Syntax | Some b \<Rightarrow> if b = CHR ''0'' then Ok (tl s)
        else if byte_in 49 57 b then Ok (snd (json_digits s)) else Err Syntax) = Ok r"
  shows "\<exists>whole. s = whole @ r \<and> (whole = ''0'' \<or> json_digit_run whole \<and> hd whole \<noteq> CHR ''0'')"
proof -
  from whole obtain b q where b: "s = b # q" by (auto simp: json_peek_def split: list.splits)
  show ?thesis
  proof (cases "b = CHR ''0''")
    case True
    then show ?thesis using whole b by (intro exI [of _ "''0''"]) (simp add: json_peek_def)
  next
    case False
    then have d: "is_ascii_digit b" "json_digits s = (fst (json_digits s), r)"
      using whole b by (auto simp: json_peek_def is_ascii_digit_def byte_in_def split: if_splits)
    from json_digits_sound [OF d(2)] obtain ds where ds: "s = ds @ r" "list_all is_ascii_digit ds"
      "fst (json_digits s) = length ds" by blast
    moreover have "ds \<noteq> []" using ds(3) d(1) b by (auto simp: json_digits_def)
    moreover from this ds(1) b have "hd ds = b" by (cases ds) auto
    ultimately show ?thesis using False by (auto simp: json_digit_run_def)
  qed
qed

lemma json_exponent_sound:
  assumes "json_peek s \<in> {Some (CHR ''e''), Some (CHR ''E'')}"
    and "(let exponent = tl s;
              exponent' = (if json_peek exponent \<in> {Some (CHR ''+''), Some (CHR ''-'')} then tl exponent else exponent)
          in case json_digits exponent' of (n, rest) \<Rightarrow> if n = 0 then Err Syntax else Ok rest) = Ok r"
  shows "\<exists>c g ds. s = (c # g @ ds) @ r \<and> c \<in> set ''eE'' \<and> g \<in> {[], ''+'', ''-''} \<and> json_digit_run ds"
proof -
  from assms(1) obtain c t where s: "s = c # t" "c \<in> set ''eE''" by (auto simp: json_peek_Some)
  define g where "g = (if json_peek t \<in> {Some (CHR ''+''), Some (CHR ''-'')} then [hd t] else [])"
  define t' where "t' = (if json_peek t \<in> {Some (CHR ''+''), Some (CHR ''-'')} then tl t else t)"
  have t: "t = g @ t'" "g \<in> {[], ''+'', ''-''}" by (auto simp: g_def t'_def json_peek_Some)
  have "\<exists>ds. t' = ds @ r \<and> json_digit_run ds"
    using assms(2) s(1) by (intro json_digit_run_sound) (simp add: t'_def Let_def)
  then obtain ds where "t' = ds @ r" "json_digit_run ds" by blast
  with s t show ?thesis by (intro exI [of _ c] exI [of _ g] exI [of _ ds]) simp
qed

lemma json_number_sound:
  assumes "json_number s = Ok (n, r)"
  shows "\<exists>t. s = t @ r \<and> n = Scalar t \<and> json_number_text t"
proof -
  define sign where "sign = (if json_peek s = Some (CHR ''-'') then ''-'' else [])"
  define signed where "signed = (if json_peek s = Some (CHR ''-'') then tl s else s)"
  have signed: "s = sign @ signed" "sign \<in> {[], ''-''}"
    by (auto simp: sign_def signed_def json_peek_Some)
  from assms obtain rest1 rest2 where
    whole: "(case json_peek signed of None \<Rightarrow> Err Syntax | Some b \<Rightarrow> if b = CHR ''0'' then Ok (tl signed)
        else if byte_in 49 57 b then Ok (snd (json_digits signed)) else Err Syntax) = Ok rest1"
    and fraction: "(if json_peek rest1 = Some (CHR ''.'') then
        (case json_digits (tl rest1) of (n, rest) \<Rightarrow> if n = 0 then Err Syntax else Ok rest) else Ok rest1) = Ok rest2"
    and exponent: "(if json_peek rest2 \<in> {Some (CHR ''e''), Some (CHR ''E'')} then
           (let exponent = tl rest2;
                exponent' = (if json_peek exponent \<in> {Some (CHR ''+''), Some (CHR ''-'')} then tl exponent
                             else exponent)
            in case json_digits exponent' of (n, rest) \<Rightarrow> if n = 0 then Err Syntax else Ok rest)
         else Ok rest2) = Ok r"
    and n: "n = Scalar (text_between s r)"
    unfolding json_number_def Let_def and_then_Ok_iff signed_def [symmetric] by auto
  from json_whole_sound [OF whole] obtain w where w: "signed = w @ rest1"
    "w = ''0'' \<or> json_digit_run w \<and> hd w \<noteq> CHR ''0''" by blast
  from fraction have "\<exists>f. rest1 = f @ rest2 \<and> (f = [] \<or> (\<exists>ds. f = CHR ''.'' # ds \<and> json_digit_run ds))"
    by (auto simp: json_peek_Some dest: json_digit_run_sound split: if_split_asm)
  then obtain f where f: "rest1 = f @ rest2" "f = [] \<or> (\<exists>ds. f = CHR ''.'' # ds \<and> json_digit_run ds)" by blast
  have "\<exists>e. rest2 = e @ r \<and> (e = [] \<or> (\<exists>c g ds. e = c # g @ ds \<and> c \<in> set ''eE'' \<and> g \<in> {[], ''+'', ''-''} \<and>
      json_digit_run ds))"
  proof (cases "json_peek rest2 \<in> {Some (CHR ''e''), Some (CHR ''E'')}")
    case True
    from json_exponent_sound [OF this exponent [unfolded if_P [OF this]]] obtain c g ds where
      "rest2 = (c # g @ ds) @ r" "c \<in> set ''eE''" "g \<in> {[], ''+'', ''-''}" "json_digit_run ds" by blast
    then show ?thesis by blast
  next
    case False
    then have "rest2 = r" using exponent by simp
    then show ?thesis by simp
  qed
  then obtain e where e: "rest2 = e @ r" "e = [] \<or> (\<exists>c g ds. e = c # g @ ds \<and> c \<in> set ''eE'' \<and>
      g \<in> {[], ''+'', ''-''} \<and> json_digit_run ds)" by blast
  have "json_number_text (sign @ w @ f @ e)"
    unfolding json_number_text_def using signed(2) w(2) f(2) e(2) by blast
  then show ?thesis using signed(1) w(1) f(1) e(1) n by (intro exI [of _ "sign @ w @ f @ e"]) (simp add: text_between_def)
qed

lemma json_digit_run_complete:
  "json_digit_run ds \<Longrightarrow> (r = [] \<or> \<not> is_ascii_digit (hd r)) \<Longrightarrow>
    (case json_digits (ds @ r) of (n, rest) \<Rightarrow> if n = 0 then Err Syntax else Ok rest) = Ok r"
  by (simp add: json_digits_complete json_digit_run_def)

lemma json_whole_complete:
  assumes "w = ''0'' \<or> json_digit_run w \<and> hd w \<noteq> CHR ''0''" and "r = [] \<or> \<not> is_ascii_digit (hd r)"
  shows "(case json_peek (w @ r) of None \<Rightarrow> Err Syntax | Some b \<Rightarrow> if b = CHR ''0'' then Ok (tl (w @ r))
        else if byte_in 49 57 b then Ok (snd (json_digits (w @ r))) else Err Syntax) = Ok r"
proof (cases w)
  case (Cons b ds)
  have "byte_in 49 57 b" if "is_ascii_digit b" "b \<noteq> CHR ''0''"
  proof -
    have "of_char b \<noteq> (of_char (CHR ''0'') :: nat)" using that(2) by (simp only: of_char_eq_iff) simp
    then show ?thesis using that(1) by (simp add: is_ascii_digit_def byte_in_def)
  qed
  then show ?thesis
    using assms Cons json_digits_complete [of w r] by (auto simp: json_peek_def json_digit_run_def)
qed (use assms in \<open>simp add: json_digit_run_def\<close>)

lemma json_exponent_complete:
  assumes "c \<in> set ''eE''" and "g \<in> {[], ''+'', ''-''}" and "json_digit_run ds" and "r = [] \<or> \<not> is_ascii_digit (hd r)"
  shows "(let exponent = tl ((c # g @ ds) @ r);
              exponent' = (if json_peek exponent \<in> {Some (CHR ''+''), Some (CHR ''-'')} then tl exponent else exponent)
          in case json_digits exponent' of (n, rest) \<Rightarrow> if n = 0 then Err Syntax else Ok rest) = Ok r"
proof -
  obtain d ds' where ds: "ds = d # ds'" "is_ascii_digit d" using assms(3) by (cases ds) (auto simp: json_digit_run_def)
  then have "d \<noteq> CHR ''+''" "d \<noteq> CHR ''-''" by (auto simp: is_ascii_digit_def byte_in_def)
  with assms(2) ds have "(if json_peek (g @ ds @ r) \<in> {Some (CHR ''+''), Some (CHR ''-'')} then tl (g @ ds @ r)
      else g @ ds @ r) = ds @ r"
    by (auto simp: json_peek_def)
  then show ?thesis using json_digit_run_complete [OF assms(3,4)] by (simp add: Let_def)
qed

lemma json_number_complete:
  assumes "json_number_text t" and "json_delimited r"
  shows "json_number (t @ r) = Ok (Scalar t, r)"
proof -
  from assms(1) obtain sign w f e where t: "t = sign @ w @ f @ e" and sign: "sign \<in> {[], ''-''}"
    and w: "w = ''0'' \<or> json_digit_run w \<and> hd w \<noteq> CHR ''0''"
    and f: "f = [] \<or> (\<exists>ds. f = CHR ''.'' # ds \<and> json_digit_run ds)"
    and e: "e = [] \<or> (\<exists>c g ds. e = c # g @ ds \<and> c \<in> set ''eE'' \<and> g \<in> {[], ''+'', ''-''} \<and> json_digit_run ds)"
    unfolding json_number_text_def by blast
  have r: "r = [] \<or> \<not> is_ascii_digit (hd r)" using assms(2) by (auto simp: json_delimited_def)
  have er: "e @ r = [] \<or> \<not> is_ascii_digit (hd (e @ r)) \<and> hd (e @ r) \<noteq> CHR ''.''"
    using e assms(2) by (auto simp: json_delimited_def is_ascii_digit_def byte_in_def)
  have fer: "f @ e @ r = [] \<or> \<not> is_ascii_digit (hd (f @ e @ r))"
    using f er by (auto simp: is_ascii_digit_def byte_in_def)
  obtain d w' where d: "w = d # w'" "is_ascii_digit d"
    using w by (cases w) (auto simp: json_digit_run_def is_ascii_digit_def byte_in_def)
  have peek: "(if json_peek (t @ r) = Some (CHR ''-'') then tl (t @ r) else t @ r) = w @ f @ e @ r"
    using sign d by (auto simp: t json_peek_def is_ascii_digit_def byte_in_def)
  have fraction: "(if json_peek (f @ e @ r) = Some (CHR ''.'') then
      (case json_digits (tl (f @ e @ r)) of (n, rest) \<Rightarrow> if n = 0 then Err Syntax else Ok rest) else Ok (f @ e @ r)) = Ok (e @ r)"
    using f er json_digit_run_complete [of _ "e @ r"] by (auto simp: json_peek_def split: list.splits)
  have exponent: "(if json_peek (e @ r) \<in> {Some (CHR ''e''), Some (CHR ''E'')} then
      (let exponent = tl (e @ r);
           exponent' = (if json_peek exponent \<in> {Some (CHR ''+''), Some (CHR ''-'')} then tl exponent else exponent)
       in case json_digits exponent' of (n, rest) \<Rightarrow> if n = 0 then Err Syntax else Ok rest) else Ok (e @ r)) = Ok r"
  proof (cases "e = []")
    case True
    then show ?thesis using assms(2) by (auto simp: json_peek_Some json_delimited_def)
  next
    case False
    with e obtain c g ds where e': "e = c # g @ ds" "c \<in> set ''eE''" "g \<in> {[], ''+'', ''-''}" "json_digit_run ds" by blast
    from json_exponent_complete [OF e'(2-4) r] e'(1,2) show ?thesis by (auto simp: json_peek_def)
  qed
  show ?thesis
    unfolding json_number_def Let_def peek json_whole_complete [OF w fer] and_then.simps fraction
      exponent [unfolded Let_def] by (simp add: text_between_def t)
qed

subsection \<open>Whitespace and literals\<close>

lemma skip_whitespace_split: obtains w where "json_blank w" "s = w @ skip_whitespace s"
  using takeWhile_dropWhile_id [of json_space s] set_takeWhileD [of _ json_space s]
  unfolding json_blank_def skip_whitespace_def list_all_iff by metis

lemma skip_whitespace_blank [simp]: "json_blank w \<Longrightarrow> skip_whitespace (w @ s) = skip_whitespace s"
  by (simp add: json_blank_def skip_whitespace_def list_all_iff dropWhile_append2)

lemma skip_whitespace_stop [simp]: "\<not> json_space b \<Longrightarrow> skip_whitespace (b # s) = b # s"
  by (simp add: skip_whitespace_def)

lemma skip_whitespace_idem [simp]: "skip_whitespace (skip_whitespace s) = skip_whitespace s"
  by (simp add: skip_whitespace_def)

lemma skip_whitespace_peek:
  assumes "json_peek (skip_whitespace s) = Some b"
  obtains w where "json_blank w" "s = w @ b # tl (skip_whitespace s)"
  by (metis assms json_peek_Some list.sel(3) skip_whitespace_split)

lemma json_literal_sound: "json_literal word s = Ok (n, r) \<Longrightarrow> s = word @ r \<and> n = Scalar word"
  by (auto simp: json_literal_def starts_with_iff_prefix prefix_def split: if_splits)

section \<open>Values read what the grammar writes\<close>

lemma json_depth_le:
  "json_depth (Array ns) \<le> Suc k \<longleftrightarrow> (\<forall>n \<in> set ns. json_depth n \<le> k)"
  "json_depth (Object ms) \<le> Suc k \<longleftrightarrow> (\<forall>m \<in> set ms. json_member_depth m \<le> k)"
proof -
  have "fold max xs (a :: nat) \<le> k \<longleftrightarrow> a \<le> k \<and> (\<forall>x \<in> set xs. x \<le> k)" for xs a
    by (induction xs arbitrary: a) auto
  then show "json_depth (Array ns) \<le> Suc k \<longleftrightarrow> (\<forall>n \<in> set ns. json_depth n \<le> k)"
    "json_depth (Object ms) \<le> Suc k \<longleftrightarrow> (\<forall>m \<in> set ms. json_member_depth m \<le> k)"
    by auto
qed

lemmas json_text_intros = json_text_json_item_list_json_member_list_json_member_text.intros

lemma json_value_leaf:
  assumes "json_value d s = Ok (n, r)" and "json_peek s \<notin> {Some (CHR ''{''), Some (CHR ''['')}"
  shows "\<exists>t. s = t @ r \<and> json_text n t \<and> json_depth n = 0"
proof -
  from assms obtain b where b: "json_peek s = Some b" "b \<noteq> CHR ''{''" "b \<noteq> CHR ''[''"
    and ok: "(if b = CHR 0x22 then and_then (json_string_scan s) (\<lambda>(v, rest). Ok (String v, rest))
          else if b = CHR ''t'' then json_literal ''true'' s
          else if b = CHR ''f'' then json_literal ''false'' s
          else if b = CHR ''n'' then json_literal ''null'' s
          else if b = CHR ''-'' \<or> is_ascii_digit b then json_number s
          else Err Syntax) = Ok (n, r)"
    unfolding json_value.simps [of d s] by (auto split: option.splits)
  consider (quote) v where "json_string_scan s = Ok (v, r)" "n = String v"
    | (word) word where "json_literal word s = Ok (n, r)" "word \<in> {''true'', ''false'', ''null''}"
    | (number) "json_number s = Ok (n, r)"
    using ok by (auto simp: and_then_Ok_iff split: if_splits)
  then show ?thesis
  proof cases
    case quote
    then show ?thesis using json_text_intros(3) [of v] by (auto simp: json_string_scan_iff)
  next
    case word
    then show ?thesis using json_text_intros(1) json_literal_sound [OF word(1)] by auto
  next
    case number
    from json_number_sound [OF this] show ?thesis using json_text_intros(2) by auto
  qed
qed

lemma json_array_Ok:
  "json_array d s = Ok (n, r) \<longleftrightarrow>
     d \<le> MAX_MEDIA_JSON_DEPTH \<and> (\<exists>s1. s = CHR ''['' # s1 \<and>
       (if json_peek (skip_whitespace s1) = Some (CHR '']'') then n = Array [] \<and> r = tl (skip_whitespace s1)
        else json_items d [] (skip_whitespace s1) = Ok (n, r)))"
  by (auto simp: json_array.simps [of d s] and_then_Ok_iff json_expect_Ok Let_def)

lemma json_object_Ok:
  "json_object d s = Ok (n, r) \<longleftrightarrow>
     d \<le> MAX_MEDIA_JSON_DEPTH \<and> (\<exists>s1. s = CHR ''{'' # s1 \<and>
       (if json_peek (skip_whitespace s1) = Some (CHR ''}'') then n = Object [] \<and> r = tl (skip_whitespace s1)
        else json_members d [] (skip_whitespace s1) = Ok (n, r)))"
  by (auto simp: json_object.simps [of d s] and_then_Ok_iff json_expect_Ok Let_def)

lemma json_items_Ok:
  "json_items d items s = Ok (n, r) \<longleftrightarrow>
     (\<exists>item s1. json_value d (skip_whitespace s) = Ok (item, s1) \<and>
       (json_peek (skip_whitespace s1) = Some (CHR '','') \<and>
          json_items d (items @ [item]) (tl (skip_whitespace s1)) = Ok (n, r) \<or>
        json_peek (skip_whitespace s1) = Some (CHR '']'') \<and>
          n = Array (items @ [item]) \<and> r = tl (skip_whitespace s1)))"
  by (cases "json_value d (skip_whitespace s)") (auto simp: json_items.simps [of d items s] Let_def split: prod.splits)

lemma json_members_Ok:
  "json_members d ms s = Ok (n, r) \<longleftrightarrow>
     (\<exists>key s1 s2 v s3. json_string_scan (skip_whitespace s) = Ok (key, s1) \<and>
       skip_whitespace s1 = CHR '':'' # s2 \<and> json_value d (skip_whitespace s2) = Ok (v, s3) \<and>
       (json_peek (skip_whitespace s3) = Some (CHR '','') \<and>
          json_members d (ms @ [Member key v]) (tl (skip_whitespace s3)) = Ok (n, r) \<or>
        json_peek (skip_whitespace s3) = Some (CHR ''}'') \<and>
          n = Object (ms @ [Member key v]) \<and> r = tl (skip_whitespace s3)))"
  (is "?L \<longleftrightarrow> (\<exists>key s1 s2 v s3. ?R key s1 s2 v s3)")
proof
  assume ?L
  then obtain key s1 s2 v s3 where "?R key s1 s2 v s3"
    unfolding json_members.simps [of d ms s] Let_def
    by (auto simp: and_then_Ok_iff json_expect_Ok split: if_splits)
  then show "\<exists>key s1 s2 v s3. ?R key s1 s2 v s3" by blast
next
  assume "\<exists>key s1 s2 v s3. ?R key s1 s2 v s3"
  then obtain key s1 s2 v s3 where "?R key s1 s2 v s3" by blast
  then show ?L
    unfolding json_members.simps [of d ms s] Let_def by (auto simp: json_expect_def json_peek_def)
qed

text \<open>What a call that read \<open>n\<close> at a depth has seen: the text of \<open>n\<close>, within the bound on nesting.\<close>

definition reads_value :: "nat \<Rightarrow> bytes \<Rightarrow> json_node \<Rightarrow> bytes \<Rightarrow> bool" where
  "reads_value d s n r \<longleftrightarrow>
     (\<exists>t. s = t @ r \<and> json_text n t) \<and> (d \<le> MAX_MEDIA_JSON_DEPTH \<longrightarrow> d + json_depth n \<le> MAX_MEDIA_JSON_DEPTH)"

lemma json_list_blank:
  "json_blank w \<Longrightarrow> json_item_list ns t \<Longrightarrow> json_item_list ns (w @ t)"
  "json_blank w \<Longrightarrow> json_member_list ms t \<Longrightarrow> json_member_list ms (w @ t)"
proof -
  have blank: "json_blank (w @ w')" if "json_blank w" "json_blank w'" for w'
    using that by (simp add: json_blank_def)
  show "json_blank w \<Longrightarrow> json_item_list ns t \<Longrightarrow> json_item_list ns (w @ t)"
    by (erule json_item_list.cases)
      (metis append_assoc blank json_text_intros(8), metis append_assoc blank json_text_intros(9))
  show "json_blank w \<Longrightarrow> json_member_list ms t \<Longrightarrow> json_member_list ms (w @ t)"
    by (erule json_member_list.cases)
      (metis append_assoc blank json_text_intros(10), metis append_assoc blank json_text_intros(11))
qed

lemma reads_array:
  assumes "d \<le> MAX_MEDIA_JSON_DEPTH" "0 < d" "json_item_list ns t \<or> ns = [] \<and> json_blank t"
    and "\<forall>x \<in> set ns. d + json_depth x \<le> MAX_MEDIA_JSON_DEPTH"
  shows "reads_value (d - 1) (CHR ''['' # t @ CHR '']'' # r) (Array ns) r"
proof -
  have "json_text (Array ns) (CHR ''['' # t @ '']'')"
    using assms(3) json_text_intros(4,5) by blast
  moreover have "json_depth (Array ns) \<le> Suc (MAX_MEDIA_JSON_DEPTH - d)"
    unfolding json_depth_le using assms(4) by (auto simp: le_diff_conv2 assms(1) add.commute)
  ultimately show ?thesis using assms(1,2)
    by (auto simp: reads_value_def intro!: exI [of _ "CHR ''['' # t @ '']''"])
qed

lemma reads_object:
  assumes "d \<le> MAX_MEDIA_JSON_DEPTH" "0 < d" "json_member_list ms t \<or> ms = [] \<and> json_blank t"
    and "\<forall>x \<in> set ms. d + json_member_depth x \<le> MAX_MEDIA_JSON_DEPTH"
  shows "reads_value (d - 1) (CHR ''{'' # t @ CHR ''}'' # r) (Object ms) r"
proof -
  have "json_text (Object ms) (CHR ''{'' # t @ ''}'')"
    using assms(3) json_text_intros(6,7) by blast
  moreover have "json_depth (Object ms) \<le> Suc (MAX_MEDIA_JSON_DEPTH - d)"
    unfolding json_depth_le using assms(4) by (auto simp: le_diff_conv2 assms(1) add.commute)
  ultimately show ?thesis using assms(1,2)
    by (auto simp: reads_value_def intro!: exI [of _ "CHR ''{'' # t @ ''}''"])
qed

text \<open>What the loop over the items of an array, or the members of an object, has seen.\<close>

definition reads_items :: "nat \<Rightarrow> bytes \<Rightarrow> json_node list \<Rightarrow> bytes \<Rightarrow> bool" where
  "reads_items d s ns r \<longleftrightarrow>
     (\<exists>t. s = t @ CHR '']'' # r \<and> json_item_list ns t) \<and> (\<forall>x \<in> set ns. d + json_depth x \<le> MAX_MEDIA_JSON_DEPTH)"

definition reads_members :: "nat \<Rightarrow> bytes \<Rightarrow> json_member list \<Rightarrow> bytes \<Rightarrow> bool" where
  "reads_members d s ms r \<longleftrightarrow>
     (\<exists>t. s = t @ CHR ''}'' # r \<and> json_member_list ms t) \<and>
     (\<forall>x \<in> set ms. d + json_member_depth x \<le> MAX_MEDIA_JSON_DEPTH)"

lemma reads_items_step:
  assumes v: "reads_value d (skip_whitespace s) n s1" and d: "d \<le> MAX_MEDIA_JSON_DEPTH"
  shows "json_peek (skip_whitespace s1) = Some (CHR '']'') \<Longrightarrow> reads_items d s [n] (tl (skip_whitespace s1))"
    and "json_peek (skip_whitespace s1) = Some (CHR '','') \<Longrightarrow> reads_items d (tl (skip_whitespace s1)) ns r \<Longrightarrow>
      reads_items d s (n # ns) r"
proof -
  obtain w where w: "json_blank w" "s = w @ skip_whitespace s" by (rule skip_whitespace_split)
  from v d obtain t where t: "skip_whitespace s = t @ s1" "json_text n t" "d + json_depth n \<le> MAX_MEDIA_JSON_DEPTH"
    by (auto simp: reads_value_def)
  show "reads_items d s [n] (tl (skip_whitespace s1))" if "json_peek (skip_whitespace s1) = Some (CHR '']'')"
  proof -
    from that obtain w' where w': "json_blank w'" "s1 = w' @ CHR '']'' # tl (skip_whitespace s1)"
      by (metis skip_whitespace_peek)
    have "s = (w @ t @ w') @ CHR '']'' # tl (skip_whitespace s1)" using w(2) t(1) w'(2) by simp
    with json_text_intros(8) [OF w(1) t(2) w'(1)] t(3) show ?thesis by (auto simp: reads_items_def)
  qed
  show "reads_items d s (n # ns) r"
    if comma: "json_peek (skip_whitespace s1) = Some (CHR '','')" and rest: "reads_items d (tl (skip_whitespace s1)) ns r"
  proof -
    from comma obtain w' where w': "json_blank w'" "s1 = w' @ CHR '','' # tl (skip_whitespace s1)"
      by (metis skip_whitespace_peek)
    from rest obtain t' where t': "tl (skip_whitespace s1) = t' @ CHR '']'' # r" "json_item_list ns t'"
      by (auto simp: reads_items_def)
    have "s = (w @ t @ w' @ CHR '','' # t') @ CHR '']'' # r" using w(2) t(1) w'(2) t'(1) by simp
    with json_text_intros(9) [OF w(1) t(2) w'(1) t'(2)] rest t(3) show ?thesis unfolding reads_items_def by auto
  qed
qed

lemma reads_members_step:
  assumes k: "json_string_scan (skip_whitespace s) = Ok (key, s1)" and colon: "skip_whitespace s1 = CHR '':'' # s2"
    and v: "reads_value d (skip_whitespace s2) v s3" and d: "d \<le> MAX_MEDIA_JSON_DEPTH"
  shows "json_peek (skip_whitespace s3) = Some (CHR ''}'') \<Longrightarrow>
      reads_members d s [Member key v] (tl (skip_whitespace s3))"
    and "json_peek (skip_whitespace s3) = Some (CHR '','') \<Longrightarrow> reads_members d (tl (skip_whitespace s3)) ms r \<Longrightarrow>
      reads_members d s (Member key v # ms) r"
proof -
  obtain w where w: "json_blank w" "s = w @ skip_whitespace s" by (rule skip_whitespace_split)
  obtain w1 where w1: "json_blank w1" "s1 = w1 @ skip_whitespace s1" by (rule skip_whitespace_split)
  obtain w2 where w2: "json_blank w2" "s2 = w2 @ skip_whitespace s2" by (rule skip_whitespace_split)
  from v d obtain t where t: "skip_whitespace s2 = t @ s3" "json_text v t" "d + json_depth v \<le> MAX_MEDIA_JSON_DEPTH"
    by (auto simp: reads_value_def)
  define m where "m = json_quoted (js_raw key) @ w1 @ CHR '':'' # w2 @ t"
  have m: "json_member_text (Member key v) m"
    unfolding m_def using k t(2) w1(1) w2(1) by (intro json_text_intros(12)) (simp_all add: json_string_scan_iff)
  have s: "s = w @ m @ s3"
    using w(2) w1(2) w2(2) colon t(1) k by (simp add: m_def json_string_scan_iff)
  show "reads_members d s [Member key v] (tl (skip_whitespace s3))" if "json_peek (skip_whitespace s3) = Some (CHR ''}'')"
  proof -
    from that obtain w' where w': "json_blank w'" "s3 = w' @ CHR ''}'' # tl (skip_whitespace s3)"
      by (metis skip_whitespace_peek)
    have "s = (w @ m @ w') @ CHR ''}'' # tl (skip_whitespace s3)" using s w'(2) by simp
    with json_text_intros(10) [OF w(1) m w'(1)] t(3) show ?thesis by (auto simp: reads_members_def)
  qed
  show "reads_members d s (Member key v # ms) r"
    if comma: "json_peek (skip_whitespace s3) = Some (CHR '','')" and rest: "reads_members d (tl (skip_whitespace s3)) ms r"
  proof -
    from comma obtain w' where w': "json_blank w'" "s3 = w' @ CHR '','' # tl (skip_whitespace s3)"
      by (metis skip_whitespace_peek)
    from rest obtain t' where t': "tl (skip_whitespace s3) = t' @ CHR ''}'' # r" "json_member_list ms t'"
      by (auto simp: reads_members_def)
    have "s = (w @ m @ w' @ CHR '','' # t') @ CHR ''}'' # r" using s w'(2) t'(1) by simp
    with json_text_intros(11) [OF w(1) m w'(1) t'(2)] rest t(3) show ?thesis unfolding reads_members_def by auto
  qed
qed

lemma reads_bracketed:
  assumes d: "d \<le> MAX_MEDIA_JSON_DEPTH" "0 < d"
  shows "json_peek (skip_whitespace s) = Some (CHR '']'') \<Longrightarrow>
      reads_value (d - 1) (CHR ''['' # s) (Array []) (tl (skip_whitespace s))"
    and "json_peek (skip_whitespace s) = Some (CHR ''}'') \<Longrightarrow>
      reads_value (d - 1) (CHR ''{'' # s) (Object []) (tl (skip_whitespace s))"
    and "reads_items d (skip_whitespace s) ns r \<Longrightarrow> reads_value (d - 1) (CHR ''['' # s) (Array ns) r"
    and "reads_members d (skip_whitespace s) ms r \<Longrightarrow> reads_value (d - 1) (CHR ''{'' # s) (Object ms) r"
proof -
  obtain w where w: "json_blank w" "s = w @ skip_whitespace s" by (rule skip_whitespace_split)
  show "reads_value (d - 1) (CHR ''['' # s) (Array []) (tl (skip_whitespace s))"
    if "json_peek (skip_whitespace s) = Some (CHR '']'')"
    using that reads_array [OF d, of "[]"] by (metis skip_whitespace_peek empty_iff list.set(1))
  show "reads_value (d - 1) (CHR ''{'' # s) (Object []) (tl (skip_whitespace s))"
    if "json_peek (skip_whitespace s) = Some (CHR ''}'')"
    using that reads_object [OF d, of "[]"] by (metis skip_whitespace_peek empty_iff list.set(1))
  show "reads_value (d - 1) (CHR ''['' # s) (Array ns) r" if "reads_items d (skip_whitespace s) ns r"
  proof -
    from that obtain t where "skip_whitespace s = t @ CHR '']'' # r" "json_item_list ns t"
      "\<forall>x \<in> set ns. d + json_depth x \<le> MAX_MEDIA_JSON_DEPTH" by (auto simp: reads_items_def)
    with reads_array [OF d, of ns "w @ t" r] json_list_blank(1) [OF w(1)] w(2) show ?thesis by simp
  qed
  show "reads_value (d - 1) (CHR ''{'' # s) (Object ms) r" if "reads_members d (skip_whitespace s) ms r"
  proof -
    from that obtain t where "skip_whitespace s = t @ CHR ''}'' # r" "json_member_list ms t"
      "\<forall>x \<in> set ms. d + json_member_depth x \<le> MAX_MEDIA_JSON_DEPTH" by (auto simp: reads_members_def)
    with reads_object [OF d, of ms "w @ t" r] json_list_blank(2) [OF w(1)] w(2) show ?thesis by simp
  qed
qed

lemma json_sound:
  "json_value d s = Ok (n, r) \<Longrightarrow> reads_value d s n r"
  "json_array d s = Ok (n, r) \<Longrightarrow> 0 < d \<Longrightarrow> reads_value (d - 1) s n r"
  "json_items d items s = Ok (n, r) \<Longrightarrow> d \<le> MAX_MEDIA_JSON_DEPTH \<Longrightarrow>
     \<exists>ns. n = Array (items @ ns) \<and> reads_items d s ns r"
  "json_object d s = Ok (n, r) \<Longrightarrow> 0 < d \<Longrightarrow> reads_value (d - 1) s n r"
  "json_members d mems s = Ok (n, r) \<Longrightarrow> d \<le> MAX_MEDIA_JSON_DEPTH \<Longrightarrow>
     \<exists>ms. n = Object (mems @ ms) \<and> reads_members d s ms r"
proof (induction d s and d s and d items s and d s and d mems s arbitrary: n r and n r and n r and n r and n r
    rule: json_value_json_array_json_items_json_object_json_members.induct)
  case (1 d s)
  show ?case
  proof (cases "json_peek s \<in> {Some (CHR ''{''), Some (CHR ''['')}")
    case True
    then show ?thesis
      using "1.prems" "1.IH"(1) [of "CHR ''{''" n r] "1.IH"(2) [of "CHR ''[''" n r]
      by (auto simp: json_value.simps [of d s])
  next
    case False
    with json_value_leaf [OF "1.prems"] show ?thesis by (auto simp: reads_value_def)
  qed
next
  case (2 d s)
  from "2.prems" obtain s1 where s: "d \<le> MAX_MEDIA_JSON_DEPTH" "s = CHR ''['' # s1"
    and ok: "if json_peek (skip_whitespace s1) = Some (CHR '']'') then n = Array [] \<and> r = tl (skip_whitespace s1)
        else json_items d [] (skip_whitespace s1) = Ok (n, r)"
    by (auto simp: json_array_Ok)
  show ?case
    using ok s "2.IH" [of s1, OF _ _ refl _ _ s(1)] reads_bracketed(1,3) [OF s(1) "2.prems"(2), of s1]
    by (fastforce simp: json_expect_Ok split: if_split_asm)
next
  case (3 d items s)
  from "3.prems"(1) [THEN json_items_Ok [THEN iffD1]] obtain item s1 where
    v: "json_value d (skip_whitespace s) = Ok (item, s1)"
    and ok: "json_peek (skip_whitespace s1) = Some (CHR '','') \<and>
          json_items d (items @ [item]) (tl (skip_whitespace s1)) = Ok (n, r) \<or>
        json_peek (skip_whitespace s1) = Some (CHR '']'') \<and> n = Array (items @ [item]) \<and> r = tl (skip_whitespace s1)"
    by blast
  note step = reads_items_step [OF "3.IH"(1) [OF v] "3.prems"(2)]
  from ok show ?case
    using step "3.IH"(2) [OF v refl refl] "3.prems"(2) by fastforce
next
  case (4 d s)
  from "4.prems" obtain s1 where s: "d \<le> MAX_MEDIA_JSON_DEPTH" "s = CHR ''{'' # s1"
    and ok: "if json_peek (skip_whitespace s1) = Some (CHR ''}'') then n = Object [] \<and> r = tl (skip_whitespace s1)
        else json_members d [] (skip_whitespace s1) = Ok (n, r)"
    by (auto simp: json_object_Ok)
  show ?case
    using ok s "4.IH" [of s1, OF _ _ refl _ _ s(1)] reads_bracketed(2,4) [OF s(1) "4.prems"(2), of s1]
    by (fastforce simp: json_expect_Ok split: if_split_asm)
next
  case (5 d mems s)
  from "5.prems"(1) [THEN json_members_Ok [THEN iffD1]] obtain key s1 s2 v s3 where
    k: "json_string_scan (skip_whitespace s) = Ok (key, s1)"
    and colon: "skip_whitespace s1 = CHR '':'' # s2" and v: "json_value d (skip_whitespace s2) = Ok (v, s3)"
    and ok: "json_peek (skip_whitespace s3) = Some (CHR '','') \<and>
          json_members d (mems @ [Member key v]) (tl (skip_whitespace s3)) = Ok (n, r) \<or>
        json_peek (skip_whitespace s3) = Some (CHR ''}'') \<and> n = Object (mems @ [Member key v]) \<and> r = tl (skip_whitespace s3)"
    by blast
  have expect: "json_expect (CHR '':'') (skip_whitespace s1) = Ok s2" using colon by (simp add: json_expect_Ok)
  note step = reads_members_step [OF k colon "5.IH"(1) [OF k refl expect v] "5.prems"(2)]
  from ok show ?case
    using step "5.IH"(2) [OF k refl expect v refl refl] "5.prems"(2) by fastforce
qed

lemma json_space_cases: "json_space b \<Longrightarrow> \<not> is_ascii_digit b \<and> b \<notin> set ''.eE''"
  by (auto simp: json_space_def is_ascii_digit_def byte_in_def)

lemma json_delimited_blank:
  "json_blank w \<Longrightarrow> json_delimited w"
  "json_blank w \<Longrightarrow> b \<in> set '',]}'' \<Longrightarrow> json_delimited (w @ b # r)"
  by (cases w; auto simp: json_delimited_def json_blank_def is_ascii_digit_def byte_in_def dest: json_space_cases)+

text \<open>A value starts with neither whitespace nor a closing bracket, and its first byte tells what it is.\<close>

lemma json_number_text_hd:
  assumes "json_number_text t"
  shows "\<exists>b u. t = b # u \<and> (b = CHR ''-'' \<or> is_ascii_digit b)"
proof -
  from assms obtain sign w x where t: "t = sign @ w @ x" and sign: "sign \<in> {[], ''-''}"
    and w: "w = ''0'' \<or> json_digit_run w \<and> hd w \<noteq> CHR ''0''"
    unfolding json_number_text_def by blast
  have "\<exists>d ds. w = d # ds \<and> is_ascii_digit d"
    using w by (cases w) (auto simp: json_digit_run_def is_ascii_digit_def byte_in_def)
  with sign t show ?thesis by auto
qed

lemma json_text_hd: "json_text n t \<Longrightarrow> \<exists>b u. t = b # u \<and> \<not> json_space b \<and> b \<noteq> CHR '']''"
  by (erule json_text.cases) (auto dest!: json_number_text_hd simp: json_space_def is_ascii_digit_def byte_in_def)

lemma skip_before_value [simp]: "json_text n t \<Longrightarrow> skip_whitespace (t @ r) = t @ r"
  by (auto dest!: json_text_hd)

lemma json_item_list_peek: "json_item_list ns t \<Longrightarrow> json_peek (skip_whitespace (t @ r)) \<noteq> Some (CHR '']'')"
  by (erule json_item_list.cases) (auto simp: json_peek_def dest!: json_text_hd)

lemma json_member_list_peek: "json_member_list ms t \<Longrightarrow> json_peek (skip_whitespace (t @ r)) \<noteq> Some (CHR ''}'')"
  by (erule json_member_list.cases; erule json_member_text.cases) (auto simp: json_peek_def json_space_def)

lemma json_value_dispatch:
  "json_value d (CHR ''{'' # s) = json_object (Suc d) (CHR ''{'' # s)"
  "json_value d (CHR ''['' # s) = json_array (Suc d) (CHR ''['' # s)"
  "json_value d (CHR 0x22 # s) = and_then (json_string_scan (CHR 0x22 # s)) (\<lambda>(v, rest). Ok (String v, rest))"
  "json_value d (CHR ''t'' # s) = json_literal ''true'' (CHR ''t'' # s)"
  "json_value d (CHR ''f'' # s) = json_literal ''false'' (CHR ''f'' # s)"
  "json_value d (CHR ''n'' # s) = json_literal ''null'' (CHR ''n'' # s)"
  by (simp_all add: json_value.simps [of d "_ # s"] json_peek_def)

lemma json_value_number:
  assumes "b = CHR ''-'' \<or> is_ascii_digit b"
  shows "json_value d (b # s) = json_number (b # s)"
proof -
  have "b \<notin> set ''{[tfn'' \<union> {CHR 0x22}"
    using assms by (auto simp: is_ascii_digit_def byte_in_def)
  then show ?thesis
    using assms by (simp add: json_value.simps [of d "b # s"] json_peek_def)
qed

lemma json_depth_children:
  "d + json_depth (Array ns) \<le> m \<Longrightarrow> n \<in> set ns \<Longrightarrow> Suc d + json_depth n \<le> m"
  "d + json_depth (Object ms) \<le> m \<Longrightarrow> x \<in> set ms \<Longrightarrow> Suc d + json_member_depth x \<le> m"
  using json_depth_le(1) [of ns "json_depth (Array ns) - 1"] json_depth_le(2) [of ms "json_depth (Object ms) - 1"]
  by auto

lemma json_complete:
  "json_text n t \<Longrightarrow> d + json_depth n \<le> MAX_MEDIA_JSON_DEPTH \<Longrightarrow> json_delimited r \<Longrightarrow> json_value d (t @ r) = Ok (n, r)"
  "json_item_list ns t \<Longrightarrow> (\<forall>x \<in> set ns. d + json_depth x \<le> MAX_MEDIA_JSON_DEPTH) \<Longrightarrow>
     json_items d items (t @ CHR '']'' # r) = Ok (Array (items @ ns), r)"
  "json_member_list ms t \<Longrightarrow> (\<forall>x \<in> set ms. d + json_member_depth x \<le> MAX_MEDIA_JSON_DEPTH) \<Longrightarrow>
     json_members d mems (t @ CHR ''}'' # r) = Ok (Object (mems @ ms), r)"
  "json_member_text m t \<Longrightarrow> d + json_member_depth m \<le> MAX_MEDIA_JSON_DEPTH \<Longrightarrow> json_delimited r \<Longrightarrow>
     \<exists>s1 s2. skip_whitespace (t @ r) = t @ r \<and> json_string_scan (t @ r) = Ok (member_key m, s1) \<and>
       skip_whitespace s1 = CHR '':'' # s2 \<and> json_value d (skip_whitespace s2) = Ok (member_value m, r)"
proof (induction arbitrary: d r and d items r and d mems r and d r
    rule: json_text_json_item_list_json_member_list_json_member_text.inducts)
  case (word t)
  then show ?case
    by (auto simp: json_value_dispatch json_literal_def starts_with_def)
next
  case (number t)
  then obtain b u where t: "t = b # u" "b = CHR ''-'' \<or> is_ascii_digit b" by (metis json_number_text_hd)
  with json_number_complete [OF number(1,3)] show ?case
    by (simp add: json_value_number)
next
  case (quoted v)
  have "json_string_scan (json_quoted (js_raw v) @ r) = Ok (v, r)"
    using quoted by (simp add: json_string_scan_iff)
  then show ?case by (simp add: json_value_dispatch)
next
  case (no_items w)
  then show ?case
    by (simp add: json_value_dispatch json_peek_def json_array_Ok json_space_def)
next
  case (items ns t)
  have "json_items (Suc d) [] (skip_whitespace (t @ CHR '']'' # r)) = Ok (Array ns, r)"
    using items.IH [of "Suc d" "[]" r] json_depth_children(1) [OF items.prems(1)]
    by (simp add: json_items.simps [of "Suc d" "[]" "skip_whitespace _"] json_items.simps [of "Suc d" "[]" "_ @ _"])
  with json_item_list_peek [OF items.hyps, of "CHR '']'' # r"] items.prems(1) show ?case
    by (simp add: json_value_dispatch json_array_Ok)
next
  case (no_members w)
  then show ?case
    by (simp add: json_value_dispatch json_peek_def json_object_Ok json_space_def)
next
  case (members ms t)
  have "json_members (Suc d) [] (skip_whitespace (t @ CHR ''}'' # r)) = Ok (Object ms, r)"
    using members.IH [of "Suc d" "[]" r] json_depth_children(2) [OF members.prems(1)]
    by (simp add: json_members.simps [of "Suc d" "[]" "skip_whitespace _"] json_members.simps [of "Suc d" "[]" "_ @ _"])
  with json_member_list_peek [OF members.hyps, of "CHR ''}'' # r"] members.prems(1) show ?case
    by (simp add: json_value_dispatch json_object_Ok)
next
  case (last_item w n t w')
  have v: "json_value d (t @ w' @ CHR '']'' # r) = Ok (n, w' @ CHR '']'' # r)"
    using last_item by (intro last_item.IH) (simp_all add: json_delimited_blank)
  then show ?case using last_item.hyps
    by (intro json_items_Ok [THEN iffD2] exI [of _ n] exI [of _ "w' @ CHR '']'' # r"])
      (simp add: json_peek_def json_space_def)
next
  case (next_item w n t w' ns t')
  have v: "json_value d (t @ w' @ CHR '','' # t' @ CHR '']'' # r) = Ok (n, w' @ CHR '','' # t' @ CHR '']'' # r)"
    using next_item.prems next_item.hyps by (intro next_item.IH(1)) (simp_all add: json_delimited_blank)
  then show ?case using next_item.hyps next_item.IH(2) [of d "items @ [n]" r] next_item.prems
    by (intro json_items_Ok [THEN iffD2] exI [of _ n] exI [of _ "w' @ CHR '','' # t' @ CHR '']'' # r"])
      (simp add: json_peek_def json_space_def)
next
  case (last_member w m t w')
  have "d + json_member_depth m \<le> MAX_MEDIA_JSON_DEPTH" using last_member.prems by simp
  from last_member.IH [OF this json_delimited_blank(2) [OF last_member.hyps(3), of "CHR ''}''" r]] obtain s1 s2 where
    "skip_whitespace (t @ w' @ CHR ''}'' # r) = t @ w' @ CHR ''}'' # r"
    "json_string_scan (t @ w' @ CHR ''}'' # r) = Ok (member_key m, s1)"
    "skip_whitespace s1 = CHR '':'' # s2" "json_value d (skip_whitespace s2) = Ok (member_value m, w' @ CHR ''}'' # r)"
    by auto
  then show ?case using last_member.hyps
    by (intro json_members_Ok [THEN iffD2] exI [of _ "member_key m"] exI [of _ s1] exI [of _ s2] exI [of _ "member_value m"]
        exI [of _ "w' @ CHR ''}'' # r"]) (simp add: json_peek_def json_space_def)
next
  case (next_member w m t w' ms t')
  have "d + json_member_depth m \<le> MAX_MEDIA_JSON_DEPTH" using next_member.prems by simp
  from next_member.IH(1) [OF this json_delimited_blank(2) [OF next_member.hyps(3), of "CHR '',''" "t' @ CHR ''}'' # r"]]
  obtain s1 s2 where
    "skip_whitespace (t @ w' @ CHR '','' # t' @ CHR ''}'' # r) = t @ w' @ CHR '','' # t' @ CHR ''}'' # r"
    "json_string_scan (t @ w' @ CHR '','' # t' @ CHR ''}'' # r) = Ok (member_key m, s1)"
    "skip_whitespace s1 = CHR '':'' # s2"
    "json_value d (skip_whitespace s2) = Ok (member_value m, w' @ CHR '','' # t' @ CHR ''}'' # r)"
    by auto
  then show ?case using next_member.hyps next_member.IH(2) [of d "mems @ [m]" r] next_member.prems
    by (intro json_members_Ok [THEN iffD2] exI [of _ "member_key m"] exI [of _ s1] exI [of _ s2] exI [of _ "member_value m"]
        exI [of _ "w' @ CHR '','' # t' @ CHR ''}'' # r"]) (simp add: json_peek_def json_space_def)
next
  case (member k w w' n t)
  then show ?case
    by (intro exI [of _ "w @ CHR '':'' # w' @ t @ r"] exI [of _ "w' @ t @ r"])
      (simp add: json_string_scan_iff json_space_def)
qed

section \<open>Texts of the grammar are UTF-8\<close>

lemma hex_digit_value_ascii: "hex_digit_value c = Some n \<Longrightarrow> ascii c"
  by (auto simp: hex_digit_value_def ascii_def byte_in_def split: if_splits)

lemma json_hex4_ascii: "json_hex4 h v \<Longrightarrow> list_all ascii h"
  by (auto simp: json_hex4_def map_eq_Cons_conv hex_digit_value_ascii)

lemma utf8_valid_ascii_append: "list_all ascii a \<Longrightarrow> utf8_valid (a @ b) = utf8_valid b"
  by (simp add: utf8_valid_append utf8_valid_ascii)

lemma json_chars_valid: "json_chars raw dec \<Longrightarrow> utf8_valid raw \<and> utf8_valid dec"
proof (induction rule: json_chars.induct)
  case (plain ch r d)
  then show ?case by (simp add: utf8_valid_append utf8_char_valid)
next
  case (escape e c r d)
  then have "ascii e" "ascii c"
    by (auto simp: short_escape_def ascii_def split: if_splits)
  with escape.IH show ?case by (simp add: ascii_def)
next
  case (code h v r d)
  have "char_from_u32 v = Some v" using code.hyps json_hex4_less [of h v] by (auto simp: char_from_u32_def)
  with code.IH show ?case
    by (simp add: utf8_valid_append utf8_char_valid utf8_char_encode utf8_valid_ascii_append json_hex4_ascii [OF code.hyps(1)]
        ascii_def)
next
  case (pair h v h' v' r d)
  let ?c = "0x10000 + (v - 0xD800) * 0x400 + (v' - 0xDC00)"
  have "(v - 0xD800) * 0x400 \<le> 0x3FF * 0x400" using pair.hyps by (intro mult_le_mono1) linarith
  then have "char_from_u32 ?c = Some ?c" using pair.hyps by (simp add: char_from_u32_def)
  with pair.IH show ?case
    by (simp add: utf8_valid_append utf8_char_valid utf8_char_encode utf8_valid_ascii_append
        json_hex4_ascii [OF pair.hyps(1)] json_hex4_ascii [OF pair.hyps(4)] ascii_def)
qed simp

lemma json_number_text_ascii:
  assumes "json_number_text t"
  shows "list_all ascii t"
proof -
  have digits: "json_digit_run ds \<Longrightarrow> list_all ascii ds" for ds
    by (auto simp: json_digit_run_def list_all_iff is_ascii_digit_def byte_in_def ascii_def)
  from assms obtain sign w f e where t: "t = sign @ w @ f @ e" and sign: "sign \<in> {[], ''-''}"
    and w: "w = ''0'' \<or> json_digit_run w \<and> hd w \<noteq> CHR ''0''"
    and f: "f = [] \<or> (\<exists>ds. f = CHR ''.'' # ds \<and> json_digit_run ds)"
    and e: "e = [] \<or> (\<exists>c g ds. e = c # g @ ds \<and> c \<in> set ''eE'' \<and> g \<in> {[], ''+'', ''-''} \<and> json_digit_run ds)"
    unfolding json_number_text_def by blast
  have "list_all ascii sign" using sign by (auto simp: ascii_def)
  moreover have "list_all ascii w" using w digits [of w] by (elim disjE) (simp_all add: ascii_def)
  moreover have "list_all ascii f" using f digits by (auto simp: ascii_def)
  moreover have "list_all ascii e"
  proof (cases "e = []")
    case False
    with e obtain c g ds where "e = c # g @ ds" "c \<in> set ''eE''" "g \<in> {[], ''+'', ''-''}" "json_digit_run ds" by blast
    then show ?thesis using digits [of ds] by (auto simp: ascii_def)
  qed simp
  ultimately show ?thesis by (simp add: t)
qed

lemma json_blank_ascii: "json_blank w \<Longrightarrow> list_all ascii w"
proof -
  have "json_space b \<Longrightarrow> ascii b" for b by (auto simp: json_space_def ascii_def)
  then show "json_blank w \<Longrightarrow> list_all ascii w" by (auto simp: json_blank_def elim: list.pred_mono_strong)
qed

lemma json_text_valid:
  "json_text n t \<Longrightarrow> utf8_valid t"
  "json_item_list ns t \<Longrightarrow> utf8_valid t"
  "json_member_list ms t \<Longrightarrow> utf8_valid t"
  "json_member_text m t \<Longrightarrow> utf8_valid t"
proof (induction rule: json_text_json_item_list_json_member_list_json_member_text.inducts)
  case (word t)
  then show ?case by (intro utf8_valid_ascii) (auto simp: ascii_def)
next
  case (number t)
  then show ?case by (intro utf8_valid_ascii json_number_text_ascii)
qed (simp_all add: utf8_valid_append utf8_valid_ascii_append json_blank_ascii utf8_valid_ascii ascii_def json_chars_valid)

section \<open>The parser and the grammar\<close>

lemma json_parse_Ok_iff:
  "json_parse document = Ok n \<longleftrightarrow>
     (\<exists>w t w'. document = w @ t @ w' \<and> json_blank w \<and> json_blank w' \<and> json_text n t) \<and>
     json_depth n \<le> MAX_MEDIA_JSON_DEPTH"
  (is "?L \<longleftrightarrow> ?T \<and> ?D")
proof
  assume ?L
  then obtain rest where v: "json_value 0 (skip_whitespace document) = Ok (n, rest)" and rest: "skip_whitespace rest = []"
    by (auto simp: json_parse_def and_then_Ok_iff split: if_splits)
  from json_sound(1) [OF v] obtain t where t: "skip_whitespace document = t @ rest" "json_text n t" and ?D
    by (auto simp: reads_value_def)
  moreover obtain w where "json_blank w" "document = w @ skip_whitespace document" by (rule skip_whitespace_split)
  moreover from rest have "json_blank rest" by (simp add: json_blank_def skip_whitespace_def list_all_iff)
  ultimately show "?T \<and> ?D" by metis
next
  assume "?T \<and> ?D"
  then obtain w t w' where d: "document = w @ t @ w'" "json_blank w" "json_blank w'" "json_text n t" and ?D by blast
  have "utf8_valid document"
    using d by (simp add: utf8_valid_ascii_append json_blank_ascii utf8_valid_append json_text_valid(1) utf8_valid_ascii)
  moreover have "json_value 0 (t @ w') = Ok (n, w')"
    using json_complete(1) [OF d(4), of 0 w'] \<open>?D\<close> json_delimited_blank(1) [OF d(3)] by simp
  moreover have "skip_whitespace w' = []"
    using skip_whitespace_blank [OF d(3), of "[]"] by (simp add: skip_whitespace_def)
  ultimately show ?L using d by (simp add: json_parse_def)
qed

lemma comma_separated_Cons: "ps \<noteq> [] \<Longrightarrow> comma_separated (p # ps) = p @ CHR '','' # comma_separated ps"
  by (cases ps) auto

lemma json_list_not_Nil: "\<not> json_item_list [] t" "\<not> json_member_list [] t"
  by (auto elim: json_item_list.cases json_member_list.cases)

lemma json_blank_Nil [simp]: "json_blank []"
  by (simp add: json_blank_def)

text \<open>Compact writing is one of the texts of a tree, and the shortest.\<close>

lemma json_text_compact:
  "json_text n t \<Longrightarrow> json_text n (write_compact n) \<and> length (write_compact n) \<le> length t"
  "json_item_list ns t \<Longrightarrow> json_item_list ns (comma_separated (map write_compact ns)) \<and>
     length (comma_separated (map write_compact ns)) \<le> length t"
  "json_member_list ms t \<Longrightarrow> json_member_list ms (comma_separated (map write_member ms)) \<and>
     length (comma_separated (map write_member ms)) \<le> length t"
  "json_member_text m t \<Longrightarrow> json_member_text m (write_member m) \<and> length (write_member m) \<le> length t"
proof (induction rule: json_text_json_item_list_json_member_list_json_member_text.inducts)
  case (no_items w)
  show ?case using json_text_intros(4) [of "[]"] by simp
next
  case (no_members w)
  show ?case using json_text_intros(6) [of "[]"] by simp
next
  case (last_item w n t w')
  then show ?case using json_text_intros(8) [of "[]" n "write_compact n" "[]"] by simp
next
  case (next_item w n t w' ns t')
  then have "map write_compact ns \<noteq> []" using json_list_not_Nil(1) by auto
  with next_item show ?case using json_text_intros(9) [of "[]" n "write_compact n" "[]" ns]
    by (simp add: comma_separated_Cons)
next
  case (last_member w m t w')
  then show ?case using json_text_intros(10) [of "[]" m "write_member m" "[]"] by simp
next
  case (next_member w m t w' ms t')
  then have "map write_member ms \<noteq> []" using json_list_not_Nil(2) by auto
  with next_member show ?case using json_text_intros(11) [of "[]" m "write_member m" "[]" ms]
    by (simp add: comma_separated_Cons)
next
  case (member k w w' n t)
  then show ?case using json_text_intros(12) [of k "[]" "[]" n "write_compact n"] by simp
qed (simp_all add: json_text_intros)

lemma json_parse_compact:
  assumes "json_text n t" and "json_depth n \<le> MAX_MEDIA_JSON_DEPTH"
  shows "json_parse (write_compact n) = Ok n"
proof -
  have "write_compact n = [] @ write_compact n @ []" by simp
  moreover have "json_text n (write_compact n)" using json_text_compact(1) [OF assms(1)] by simp
  ultimately show ?thesis
    unfolding json_parse_Ok_iff using assms(2) json_blank_Nil by blast
qed

section \<open>Written strings mean what was written\<close>

lemma hex_digit_value_lower_hex: "n < 16 \<Longrightarrow> hex_digit_value (lower_hex n) = Some n"
  by (simp add: hex_digit_value_def lower_hex_def byte_in_def of_char_of)

abbreviation escaped_short :: "byte list" where
  "escaped_short \<equiv> [CHR 0x22, CHR 0x5C, CHR 0x08, CHR 0x0C, CHR 0x0A, CHR 0x0D, CHR 0x09]"

lemma escape_char_long:
  "c \<notin> set escaped_short \<Longrightarrow> escape_char c =
    (if of_char c < (0x20 :: nat) then
       [CHR 0x5C, CHR ''u'', CHR ''0'', CHR ''0'', lower_hex (of_char c div 16), lower_hex (of_char c mod 16)]
     else [c])"
  by (simp add: escape_char_def)

lemma escape_char_high:
  assumes "\<not> ascii c"
  shows "escape_char c = [c]"
proof -
  have "list_all ascii escaped_short" by (simp add: ascii_def)
  with assms have "c \<notin> set escaped_short" unfolding list_all_iff by blast
  with assms show ?thesis by (simp add: escape_char_long ascii_def)
qed

lemma json_chars_control:
  assumes "of_char c < (0x20 :: nat)" and "json_chars r d"
  shows "json_chars ([CHR 0x5C, CHR ''u'', CHR ''0'', CHR ''0'', lower_hex (of_char c div 16), lower_hex (of_char c mod 16)] @ r)
    (c # d)"
proof -
  let ?h = "[CHR ''0'', CHR ''0'', lower_hex (of_char c div 16), lower_hex (of_char c mod 16)]"
  have "hex_digit_value (CHR ''0'') = Some 0" by (simp add: hex_digit_value_def byte_in_def)
  then have "json_hex4 ?h (of_char c)"
    using assms(1) by (simp add: json_hex4_def hex_digit_value_lower_hex div_mult_mod_eq)
  moreover have "encode_utf8 (of_char c) = [c]" using assms(1) by (simp add: encode_utf8_def)
  ultimately show ?thesis using json_chars.code [of ?h "of_char c" r d] assms by simp
qed

lemma json_chars_escape_char:
  assumes "ascii c" and "json_chars r d"
  shows "json_chars (escape_char c @ r) (c # d)"
proof -
  show ?thesis
  proof (cases "c \<in> set escaped_short")
    case True
    then obtain e where "escape_char c = [CHR 0x5C, e]" "short_escape e = Some c"
      by (simp only: set_simps, elim insertE emptyE) (simp_all add: escape_char_def short_escape_def)
    with json_chars.escape [OF _ assms(2)] show ?thesis by simp
  next
    case False
    then show ?thesis
      using json_chars_control [OF _ assms(2), of c] json_chars.plain [OF utf8_char_ascii [OF assms(1)] _ _ assms(2)]
      by (simp add: escape_char_long byte_in_def)
  qed
qed

lemma utf8_char_cases:
  assumes "utf8_char ch"
  obtains c where "ch = [c]" "ascii c" | "list_all (\<lambda>c. \<not> ascii c) ch"
  using assms
  by (cases ch rule: list4_cases)
    (auto simp: utf8_char_def utf8_head_def ascii_def byte_in_def utf8_second3_def utf8_second4_def split: if_splits)

lemma json_chars_escaped: "utf8_valid v \<Longrightarrow> json_chars (concat (map escape_char v)) v"
proof (induction rule: utf8_chars_induct)
  case (Char ch r)
  from Char.hyps(1) show ?case
  proof (cases rule: utf8_char_cases)
    case (1 c)
    with Char.IH show ?thesis by (simp add: json_chars_escape_char)
  next
    case 2
    then have "concat (map escape_char ch) = ch" by (induction ch) (auto simp: escape_char_high)
    moreover from 2 Char.hyps(1) have "hd ch \<notin> {CHR 0x22, CHR 0x5C}" "\<not> byte_in 0 0x1F (hd ch)"
      by (cases ch; auto simp: ascii_def byte_in_def)+
    ultimately show ?thesis using json_chars.plain [OF Char.hyps(1) _ _ Char.IH] by simp
  qed
qed (simp add: json_chars.empty)

text \<open>The string a text is written as.\<close>

definition written :: "string \<Rightarrow> json_string" where
  "written v = \<lparr>js_raw = concat (map escape_char v), js_decoded = v\<rparr>"

lemma write_string_text: "utf8_valid v \<Longrightarrow> json_text (String (written v)) (write_string v)"
  using json_text_intros(3) [of "written v"] by (simp add: written_def write_string_def json_chars_escaped)

lemma write_string_compact: "write_compact (String (written v)) = write_string v"
  by (simp add: written_def write_string_def)

section \<open>Trees that have a text\<close>

fun json_wf :: "json_node \<Rightarrow> bool" and json_member_wf :: "json_member \<Rightarrow> bool" where
  "json_wf (Scalar t) \<longleftrightarrow> t \<in> {''true'', ''false'', ''null''} \<or> json_number_text t"
| "json_wf (String v) \<longleftrightarrow> json_chars (js_raw v) (js_decoded v)"
| "json_wf (Array items) \<longleftrightarrow> (\<forall>n \<in> set items. json_wf n)"
| "json_wf (Object members) \<longleftrightarrow> (\<forall>m \<in> set members. json_member_wf m)"
| "json_member_wf (Member k v) \<longleftrightarrow> json_chars (js_raw k) (js_decoded k) \<and> json_wf v"

lemma json_text_wf:
  "json_text n t \<Longrightarrow> json_wf n"
  "json_item_list ns t \<Longrightarrow> \<forall>n \<in> set ns. json_wf n"
  "json_member_list ms t \<Longrightarrow> \<forall>m \<in> set ms. json_member_wf m"
  "json_member_text m t \<Longrightarrow> json_member_wf m"
  by (induction rule: json_text_json_item_list_json_member_list_json_member_text.inducts) auto

lemma json_item_list_compact:
  "(\<And>n. n \<in> set ns \<Longrightarrow> json_text n (write_compact n)) \<Longrightarrow> ns \<noteq> [] \<Longrightarrow>
    json_item_list ns (comma_separated (map write_compact ns))"
proof (induction ns rule: induct_list012)
  case (2 n)
  then show ?case using json_text_intros(8) [of "[]" n "write_compact n" "[]"] by simp
next
  case (3 n n' ns)
  then show ?case using json_text_intros(9) [of "[]" n "write_compact n" "[]" "n' # ns"] by simp
qed simp

lemma json_member_list_compact:
  "(\<And>m. m \<in> set ms \<Longrightarrow> json_member_text m (write_member m)) \<Longrightarrow> ms \<noteq> [] \<Longrightarrow>
    json_member_list ms (comma_separated (map write_member ms))"
proof (induction ms rule: induct_list012)
  case (2 m)
  then show ?case using json_text_intros(10) [of "[]" m "write_member m" "[]"] by simp
next
  case (3 m m' ms)
  then show ?case using json_text_intros(11) [of "[]" m "write_member m" "[]" "m' # ms"] by simp
qed simp

lemma json_wf_compact:
  "json_wf n \<Longrightarrow> json_text n (write_compact n)"
  "json_member_wf m \<Longrightarrow> json_member_text m (write_member m)"
proof (induction n and m rule: write_compact_write_member.induct)
  case (1 t)
  then show ?case by (auto simp: json_text_intros)
next
  case (2 v)
  then show ?case by (simp add: json_text_intros)
next
  case (3 items)
  then show ?case
    using json_text_intros(4) [of "[]"] json_text_intros(5) [OF json_item_list_compact, of items]
    by (cases "items = []") auto
next
  case (4 members)
  then show ?case
    using json_text_intros(6) [of "[]"] json_text_intros(7) [OF json_member_list_compact, of members]
    by (cases "members = []") auto
next
  case (5 k v)
  then show ?case using json_text_intros(12) [of k "[]" "[]" v "write_compact v"] by simp
qed

lemma json_parse_wf: "json_parse document = Ok n \<Longrightarrow> json_wf n \<and> json_depth n \<le> MAX_MEDIA_JSON_DEPTH"
  using json_text_wf(1) by (auto simp: json_parse_Ok_iff)

lemma json_parse_write:
  assumes "json_wf n" and "json_depth n \<le> MAX_MEDIA_JSON_DEPTH"
  shows "json_parse (write_compact n) = Ok n"
  by (rule json_parse_compact [OF json_wf_compact(1) [OF assms(1)] assms(2)])

section \<open>Properties\<close>

text \<open>
  Claim C11. The parser accepts exactly RFC 8259: a document parses to a tree if and only if it is,
  between whitespace, a text the grammar derives for that tree, with arrays and objects nested at
  most 128 deep. In particular every document has at most one tree, scalars and strings are kept as
  their source text, members in their source order, and the decoded strings are what the escapes
  mean. The recursive descent terminates on every input.
\<close>

theorem json_parse_exact:
  "json_parse document = Ok n \<longleftrightarrow>
     (\<exists>w t w'. document = w @ t @ w' \<and> json_blank w \<and> json_blank w' \<and> json_text n t) \<and>
     json_depth n \<le> MAX_MEDIA_JSON_DEPTH"
  by (rule json_parse_Ok_iff)

text \<open>
  Writing a parsed document compactly loses nothing: the compact text parses back to the
  very same tree, so the view is a fixed point of parsing and writing, and it is never longer than
  the document.
\<close>

theorem json_compact_round_trip:
  assumes "json_parse document = Ok n"
  shows "json_parse (write_compact n) = Ok n \<and> length (write_compact n) \<le> length document \<and>
    utf8_valid (write_compact n)"
proof -
  from assms obtain w t w' where d: "document = w @ t @ w'" "json_text n t" "json_depth n \<le> MAX_MEDIA_JSON_DEPTH"
    unfolding json_parse_Ok_iff by blast
  with json_parse_compact [OF d(2,3)] json_text_compact(1) [OF d(2)] show ?thesis
    by (auto intro: json_text_valid(1))
qed

theorem json_compact_round_trip_witness:
  "\<exists>n. json_parse '' [1.50 , {}] '' = Ok n \<and> write_compact n = ''[1.50,{}]'' \<and> json_parse ''[1.50,{}]'' = Ok n"
proof -
  let ?n = "Array [Scalar ''1.50'', Object []]"
  have p: "json_parse '' [1.50 , {}] '' = Ok ?n" by code_simp
  from json_compact_round_trip [OF p] p show ?thesis by (intro exI [of _ ?n]) simp
qed

end
