(* ===== verification/Elide.thy ===== *)
theory Elide
  imports Media_Json Media_Base
begin

text \<open>
  \<open>south-contracts/src/media/elide.rs\<close>: the deterministic rule that takes large strings out of a JSON
  document before it enters a sandbox. A tree is visited in source order with the path from the
  root; strings that are declared or too long become placeholder objects and their contents blobs.
\<close>

section \<open>Declared paths\<close>

datatype segment = Any | Exact string

record path_pattern =
  pp_text :: string
  pp_segments :: "segment list"

datatype invalid_path_pattern = InvalidPathPattern

fun unescape_token :: "string \<Rightarrow> (string, invalid_path_pattern) result" where
  "unescape_token [] = Ok []"
| "unescape_token (c # rest) =
     (if c = CHR ''~'' then
        (case rest of
           [] \<Rightarrow> Err InvalidPathPattern
         | e # rest' \<Rightarrow>
             if e = CHR ''0'' then and_then (unescape_token rest') (\<lambda>out. Ok (CHR ''~'' # out))
             else if e = CHR ''1'' then and_then (unescape_token rest') (\<lambda>out. Ok (CHR ''/'' # out))
             else Err InvalidPathPattern)
      else and_then (unescape_token rest) (\<lambda>out. Ok (c # out)))"

fun parse_segments :: "string list \<Rightarrow> (segment list, invalid_path_pattern) result" where
  "parse_segments [] = Ok []"
| "parse_segments (raw # raws) =
     and_then (if raw = ''*'' then Ok Any else and_then (unescape_token raw) (\<lambda>t. Ok (Exact t))) (\<lambda>s.
     and_then (parse_segments raws) (\<lambda>ss. Ok (s # ss)))"

definition path_pattern_parse :: "string \<Rightarrow> (path_pattern, invalid_path_pattern) result" where
  "path_pattern_parse t =
     (if t = [] \<or> ml_elision_path_bytes media_limits_v1 < length t \<or> \<not> starts_with ''/'' t
      then Err InvalidPathPattern
      else and_then (parse_segments (split_on (CHR ''/'') (tl t))) (\<lambda>segments.
        Ok \<lparr>pp_text = t, pp_segments = segments\<rparr>))"

datatype path_step = Key string | Index nat

fun step_matches :: "segment \<Rightarrow> path_step \<Rightarrow> bool" where
  "step_matches Any _ = True"
| "step_matches (Exact key) (Key actual) = (key = actual)"
| "step_matches (Exact index) (Index actual) = (index = decimal actual)"

definition pattern_matches :: "path_pattern \<Rightarrow> path_step list \<Rightarrow> bool" where
  "pattern_matches p path \<longleftrightarrow>
     length (pp_segments p) = length path \<and> list_all (\<lambda>(s, step). step_matches s step) (zip (pp_segments p) path)"

section \<open>Elision\<close>

datatype elision_error = InvalidJson | ElisionTooDeep | DuplicateKey | KeyTooLong | ReservedKey | TooManyPaths

fun elision_error_of :: "json_parse_error \<Rightarrow> elision_error" where
  "elision_error_of Syntax = InvalidJson"
| "elision_error_of TooDeep = ElisionTooDeep"

record elided_view =
  ev_json :: string

record elide_state =
  es_blobs :: "blob list"
  es_next_id :: "32 word"

definition placeholder_text :: "blob_id \<Rightarrow> string \<Rightarrow> string \<Rightarrow> string" where
  "placeholder_text i decoded head =
     [CHR ''{'', CHR 0x22] @ ''$south.blob'' @ [CHR 0x22, CHR '':'', CHR ''{'', CHR 0x22] @ ''id'' @
     [CHR 0x22, CHR '':'', CHR 0x22] @ bi_text i @
     [CHR 0x22, CHR '','', CHR 0x22] @ ''bytes'' @ [CHR 0x22, CHR '':''] @ decimal (length decoded) @
     [CHR '','', CHR 0x22] @ ''head'' @ [CHR 0x22, CHR '':''] @ write_string head @ ''}}''"

definition placeholder :: "media_limits \<Rightarrow> string \<Rightarrow> elide_state \<Rightarrow> json_node \<times> elide_state" where
  "placeholder limits decoded st =
     (let i = blob_id_from_index (es_next_id st);
          head = utf8_prefix decoded (ml_blob_head_bytes limits)
      in (Scalar (placeholder_text i decoded head),
          \<lparr>es_blobs = es_blobs st @ [\<lparr>bl_id = i, bl_bytes = decoded, bl_text = True\<rparr>],
           es_next_id = es_next_id st + 1\<rparr>))"

fun check_keys :: "media_limits \<Rightarrow> string set \<Rightarrow> json_member list \<Rightarrow> (unit, elision_error) result" where
  "check_keys limits seen [] = Ok ()"
| "check_keys limits seen (m # ms) =
     (let key = js_decoded (member_key m) in
      if starts_with RESERVED_KEY_PREFIX key then Err ReservedKey
      else if ml_inline_string_bytes limits < length key then Err KeyTooLong
      else if key \<in> seen then Err DuplicateKey
      else check_keys limits (insert key seen) ms)"

fun visit :: "path_pattern list \<Rightarrow> media_limits \<Rightarrow> path_step list \<Rightarrow> json_node \<Rightarrow> elide_state
    \<Rightarrow> (json_node \<times> elide_state, elision_error) result"
  and visit_items :: "path_pattern list \<Rightarrow> media_limits \<Rightarrow> path_step list \<Rightarrow> nat \<Rightarrow> json_node list \<Rightarrow> elide_state
    \<Rightarrow> (json_node list \<times> elide_state, elision_error) result"
  and visit_members :: "path_pattern list \<Rightarrow> media_limits \<Rightarrow> path_step list \<Rightarrow> json_member list \<Rightarrow> elide_state
    \<Rightarrow> (json_member list \<times> elide_state, elision_error) result" where
  "visit declared limits path (Scalar t) st = Ok (Scalar t, st)"
| "visit declared limits path (String v) st =
     (if list_ex (\<lambda>p. pattern_matches p path) declared \<or> ml_inline_string_bytes limits < length (js_decoded v)
      then Ok (placeholder limits (js_decoded v) st)
      else Ok (String v, st))"
| "visit declared limits path (Array items) st =
     and_then (visit_items declared limits path 0 items st) (\<lambda>(items', st'). Ok (Array items', st'))"
| "visit declared limits path (Object members) st =
     and_then (check_keys limits {} members) (\<lambda>_.
     and_then (visit_members declared limits path members st) (\<lambda>(members', st'). Ok (Object members', st')))"
| "visit_items declared limits path index [] st = Ok ([], st)"
| "visit_items declared limits path index (item # items) st =
     and_then (visit declared limits (path @ [Index index]) item st) (\<lambda>(item', st1).
     and_then (visit_items declared limits path (index + 1) items st1) (\<lambda>(items', st2).
       Ok (item' # items', st2)))"
| "visit_members declared limits path [] st = Ok ([], st)"
| "visit_members declared limits path (Member key v # members) st =
     and_then (visit declared limits (path @ [Key (js_decoded key)]) v st) (\<lambda>(v', st1).
     and_then (visit_members declared limits path members st1) (\<lambda>(members', st2).
       Ok (Member key v' # members', st2)))"

definition elide_from ::
  "bytes \<Rightarrow> path_pattern list \<Rightarrow> media_limits \<Rightarrow> 32 word \<Rightarrow> (elided_view \<times> blob list, elision_error) result" where
  "elide_from document declared limits first_id =
     (if ml_elision_paths limits < length declared then Err TooManyPaths
      else
        and_then (map_err elision_error_of (json_parse document)) (\<lambda>node.
        and_then (visit declared limits [] node \<lparr>es_blobs = [], es_next_id = first_id\<rparr>) (\<lambda>(node', st).
          Ok (\<lparr>ev_json = write_compact node'\<rparr>, es_blobs st))))"

definition elide_v1 ::
  "bytes \<Rightarrow> path_pattern list \<Rightarrow> media_limits \<Rightarrow> (elided_view \<times> blob list, elision_error) result" where
  "elide_v1 document declared limits = elide_from document declared limits 0"

section \<open>What a document means\<close>

text \<open>JSON data: decoded strings and members in order, without the source text of strings.\<close>

datatype json_data = Plain string | Text string | Items "json_data list" | Fields "(string \<times> json_data) list"

fun data_of :: "json_node \<Rightarrow> json_data" and member_data :: "json_member \<Rightarrow> string \<times> json_data" where
  "data_of (Scalar t) = Plain t"
| "data_of (String v) = Text (js_decoded v)"
| "data_of (Array items) = Items (map data_of items)"
| "data_of (Object members) = Fields (map member_data members)"
| "member_data (Member key v) = (js_decoded key, data_of v)"

text \<open>The host's side of a placeholder: put the blob's content back.\<close>

definition placeholder_of :: "json_data \<Rightarrow> string option" where
  "placeholder_of d =
     (case d of
        Fields [(k, Fields ((k', Text i) # _))] \<Rightarrow> if k = ''$south.blob'' \<and> k' = ''id'' then Some i else None
      | _ \<Rightarrow> None)"

lemma field_size: "(k, v) \<in> set fs \<Longrightarrow> size v < size_list (size_prod (\<lambda>_. 0) size) fs"
  by (induction fs) auto

lemma item_size: "v \<in> set ds \<Longrightarrow> size v < Suc (size_list size ds)"
  by (induction ds) auto

function restore :: "(string \<Rightarrow> string option) \<Rightarrow> json_data \<Rightarrow> json_data" where
  "restore blobs d =
     (case placeholder_of d of
        Some i \<Rightarrow> (case blobs i of Some t \<Rightarrow> Text t | None \<Rightarrow> d)
      | None \<Rightarrow>
          (case d of
             Items ds \<Rightarrow> Items (map (restore blobs) ds)
           | Fields fs \<Rightarrow> Fields (map (\<lambda>(k, v). (k, restore blobs v)) fs)
           | _ \<Rightarrow> d))"
  by pat_completeness auto
termination
  by (relation "measure (size \<circ> snd)") (auto simp: field_size item_size less_SucI)

declare restore.simps [simp del]

section \<open>Invariants of the visit\<close>

text \<open>The strings elision takes out, in document order.\<close>

fun elided_strings :: "path_pattern list \<Rightarrow> media_limits \<Rightarrow> path_step list \<Rightarrow> json_node \<Rightarrow> string list"
  and elided_in_items :: "path_pattern list \<Rightarrow> media_limits \<Rightarrow> path_step list \<Rightarrow> nat \<Rightarrow> json_node list \<Rightarrow> string list"
  and elided_in_members :: "path_pattern list \<Rightarrow> media_limits \<Rightarrow> path_step list \<Rightarrow> json_member list \<Rightarrow> string list" where
  "elided_strings declared limits path (Scalar t) = []"
| "elided_strings declared limits path (String v) =
     (if list_ex (\<lambda>p. pattern_matches p path) declared \<or> ml_inline_string_bytes limits < length (js_decoded v)
      then [js_decoded v] else [])"
| "elided_strings declared limits path (Array items) = elided_in_items declared limits path 0 items"
| "elided_strings declared limits path (Object members) = elided_in_members declared limits path members"
| "elided_in_items declared limits path index [] = []"
| "elided_in_items declared limits path index (item # items) =
     elided_strings declared limits (path @ [Index index]) item @ elided_in_items declared limits path (index + 1) items"
| "elided_in_members declared limits path [] = []"
| "elided_in_members declared limits path (Member key v # members) =
     elided_strings declared limits (path @ [Key (js_decoded key)]) v @ elided_in_members declared limits path members"

text \<open>The blobs that hold given strings, numbered from an id.\<close>

fun numbered :: "32 word \<Rightarrow> string list \<Rightarrow> blob list" where
  "numbered i [] = []"
| "numbered i (v # vs) = blob_text (blob_id_from_index i) v # numbered (i + 1) vs"

text \<open>A placeholder as the tree its text stands for.\<close>

definition placeholder_tree :: "blob_id \<Rightarrow> string \<Rightarrow> string \<Rightarrow> json_node" where
  "placeholder_tree i decoded head =
     Object [Member (written ''$south.blob'')
       (Object [Member (written ''id'') (String (written (bi_text i))),
                Member (written ''bytes'') (Scalar (decimal (length decoded))),
                Member (written ''head'') (String (written head))])]"

text \<open>
  What may enter the sandbox: keys and strings within the inline bound, except for placeholders,
  whose head is within its own bound.
\<close>

fun bounded_view :: "media_limits \<Rightarrow> json_data \<Rightarrow> bool" where
  "bounded_view limits (Plain t) = True"
| "bounded_view limits (Text v) = (length v \<le> ml_inline_string_bytes limits)"
| "bounded_view limits (Items ds) = (\<forall>d \<in> set ds. bounded_view limits d)"
| "bounded_view limits (Fields fs) =
     ((\<exists>i n head. fs = [(''$south.blob'', Fields [(''id'', Text (bi_text (blob_id_from_index i))),
         (''bytes'', Plain (decimal n)), (''head'', Text head)])] \<and> length head \<le> ml_blob_head_bytes limits) \<or>
      (\<forall>f \<in> set fs. \<not> starts_with RESERVED_KEY_PREFIX (fst f) \<and> length (fst f) \<le> ml_inline_string_bytes limits \<and>
         bounded_view limits (snd f)))"

lemma numbered_append: "numbered i (us @ vs) = numbered i us @ numbered (i + of_nat (length us)) vs"
  by (induction us arbitrary: i) (simp_all add: add.assoc add.commute add.left_commute)

lemma length_numbered [simp]: "length (numbered i vs) = length vs"
  by (induction vs arbitrary: i) auto

text \<open>\<open>v\<close> is the tree of the view that stands for \<open>n\<close>, with the strings of \<open>bs\<close> taken out.\<close>

definition stands_for :: "media_limits \<Rightarrow> json_node \<Rightarrow> json_node \<Rightarrow> blob list \<Rightarrow> bool" where
  "stands_for limits n v bs \<longleftrightarrow>
     json_wf v \<and> (\<forall>k. json_depth n \<le> k \<longrightarrow> json_depth v \<le> k + 2) \<and> bounded_view limits (data_of v) \<and>
     (\<forall>blobs. (\<forall>b \<in> set bs. blobs (bi_text (bl_id b)) = Some (bl_bytes b)) \<longrightarrow> restore blobs (data_of v) = data_of n)"

lemma blob_id_text_ascii: "list_all ascii (bi_text (blob_id_from_index i))"
  using decimal_digits [of "unat i"]
  by (auto simp: blob_id_from_index_def list_all_iff is_ascii_digit_def byte_in_def ascii_def)

lemma decimal_number_text: "json_number_text (decimal n)"
proof -
  have "decimal n = ''0'' \<or> json_digit_run (decimal n) \<and> hd (decimal n) \<noteq> CHR ''0''"
  proof (cases "n = 0")
    case True
    moreover have "digit_char 0 = CHR ''0''" using char_of_eq_iff [of 48 "CHR ''0''"] by (simp add: digit_char_def)
    ultimately show ?thesis by (simp add: decimal.simps)
  next
    case False
    then show ?thesis using decimal_digits [of n] by (simp add: json_digit_run_def decimal_leading)
  qed
  then show ?thesis
    unfolding json_number_text_def
    by (intro exI [of _ "[]"] exI [of _ "decimal n"]) simp
qed

lemma written_wf: "utf8_valid v \<Longrightarrow> json_chars (js_raw (written v)) (js_decoded (written v))"
  by (simp add: written_def json_chars_escaped)

lemma escape_char_digit:
  assumes "is_ascii_digit c"
  shows "escape_char c = [c]"
proof -
  have "list_all (\<lambda>c. \<not> is_ascii_digit c) escaped_short" by (simp add: is_ascii_digit_def byte_in_def)
  with assms have "c \<notin> set escaped_short" unfolding list_all_iff by blast
  with assms show ?thesis by (simp add: escape_char_long is_ascii_digit_def byte_in_def)
qed

lemma escaped_blob_id: "concat (map escape_char (bi_text (blob_id_from_index i))) = bi_text (blob_id_from_index i)"
proof -
  have "list_all is_ascii_digit ds \<Longrightarrow> concat (map escape_char ds) = ds" for ds
    by (induction ds) (auto simp: escape_char_digit)
  with decimal_digits [of "unat i"] show ?thesis by (simp add: blob_id_from_index_def escape_char_def)
qed

lemma placeholder_tree_text:
  "write_compact (placeholder_tree (blob_id_from_index i) decoded head) =
     placeholder_text (blob_id_from_index i) decoded head"
  by (simp add: placeholder_tree_def placeholder_text_def written_def write_string_def escaped_blob_id escape_char_def)

lemma placeholder_tree_data:
  "data_of (placeholder_tree i decoded head) =
     Fields [(''$south.blob'', Fields [(''id'', Text (bi_text i)), (''bytes'', Plain (decimal (length decoded))),
       (''head'', Text head)])]"
  by (simp add: placeholder_tree_def written_def)

lemma placeholder_tree_wf: "utf8_valid head \<Longrightarrow> json_wf (placeholder_tree (blob_id_from_index i) decoded head)"
proof -
  have "utf8_valid ''$south.blob''" "utf8_valid ''id''" "utf8_valid ''bytes''" "utf8_valid ''head''"
    by (simp_all add: ascii_def)
  then show "utf8_valid head \<Longrightarrow> json_wf (placeholder_tree (blob_id_from_index i) decoded head)"
    by (simp add: placeholder_tree_def written_wf decimal_number_text utf8_valid_ascii blob_id_text_ascii)
qed

lemma placeholder_stands_for:
  assumes "utf8_valid head" and "length head \<le> ml_blob_head_bytes limits"
  shows "stands_for limits (String v) (placeholder_tree (blob_id_from_index i) (js_decoded v) head)
    [blob_text (blob_id_from_index i) (js_decoded v)]"
proof -
  have "json_depth (placeholder_tree (blob_id_from_index i) (js_decoded v) head) = 2"
    by (simp add: placeholder_tree_def)
  moreover have "bounded_view limits (data_of (placeholder_tree (blob_id_from_index i) (js_decoded v) head))"
    unfolding placeholder_tree_data using assms(2) by auto
  moreover have "restore blobs (data_of (placeholder_tree (blob_id_from_index i) (js_decoded v) head)) = Text (js_decoded v)"
    if "blobs (bi_text (blob_id_from_index i)) = Some (js_decoded v)" for blobs
    unfolding placeholder_tree_data using that by (subst restore.simps) (simp add: placeholder_of_def)
  ultimately show ?thesis
    using placeholder_tree_wf [OF assms(1)] by (simp add: stands_for_def blob_text_def)
qed

text \<open>Trees are put together from what stands for their parts.\<close>

lemma stands_for_leaf:
  "json_wf (Scalar t) \<Longrightarrow> stands_for limits (Scalar t) (Scalar t) []"
  "json_wf (String v) \<Longrightarrow> length (js_decoded v) \<le> ml_inline_string_bytes limits \<Longrightarrow> stands_for limits (String v) (String v) []"
  by (simp_all add: stands_for_def restore.simps placeholder_of_def)

definition blobs_hold :: "(string \<Rightarrow> string option) \<Rightarrow> blob list \<Rightarrow> bool" where
  "blobs_hold blobs bs \<longleftrightarrow> (\<forall>b \<in> set bs. blobs (bi_text (bl_id b)) = Some (bl_bytes b))"

definition stand_for_items :: "media_limits \<Rightarrow> json_node list \<Rightarrow> json_node list \<Rightarrow> blob list \<Rightarrow> bool" where
  "stand_for_items limits ns vs bs \<longleftrightarrow>
     (\<forall>v \<in> set vs. json_wf v \<and> bounded_view limits (data_of v)) \<and>
     (\<forall>k. (\<forall>n \<in> set ns. json_depth n \<le> k) \<longrightarrow> (\<forall>v \<in> set vs. json_depth v \<le> k + 2)) \<and>
     (\<forall>blobs. blobs_hold blobs bs \<longrightarrow> map (restore blobs \<circ> data_of) vs = map data_of ns)"

definition stand_for_members :: "media_limits \<Rightarrow> json_member list \<Rightarrow> json_member list \<Rightarrow> blob list \<Rightarrow> bool" where
  "stand_for_members limits ms vs bs \<longleftrightarrow>
     map member_key vs = map member_key ms \<and>
     stand_for_items limits (map member_value ms) (map member_value vs) bs"

lemma stands_for_array:
  assumes "stand_for_items limits ns vs bs"
  shows "stands_for limits (Array ns) (Array vs) bs"
proof -
  have "json_depth (Array vs) \<le> k + 2" if k: "json_depth (Array ns) \<le> k" for k
  proof -
    obtain k' where k': "k = Suc k'" using k by (cases k) auto
    then show ?thesis using assms k json_depth_le(1) [of vs "k' + 2"] json_depth_le(1) [of ns k']
      by (simp add: stand_for_items_def del: json_depth.simps)
  qed
  with assms show ?thesis
    by (auto simp: stands_for_def stand_for_items_def blobs_hold_def restore.simps [of _ "Items _"] placeholder_of_def comp_def
        simp del: json_depth.simps)
qed

lemma member_data_alt: "member_data m = (js_decoded (member_key m), data_of (member_value m))"
  by (cases m) simp

lemma member_depth_alt: "json_member_depth m = json_depth (member_value m)"
  by (cases m) simp

lemma member_wf_alt: "json_member_wf m \<longleftrightarrow> json_chars (js_raw (member_key m)) (js_decoded (member_key m)) \<and> json_wf (member_value m)"
  by (cases m) simp

lemma check_keys_Ok:
  "check_keys limits seen ms = Ok u \<Longrightarrow>
    \<forall>m \<in> set ms. \<not> starts_with RESERVED_KEY_PREFIX (js_decoded (member_key m)) \<and>
      length (js_decoded (member_key m)) \<le> ml_inline_string_bytes limits"
  by (induction limits seen ms rule: check_keys.induct) (auto simp: Let_def split: if_splits)

lemma placeholder_reserved: "placeholder_of (Fields fs) \<noteq> None \<Longrightarrow> \<exists>f \<in> set fs. starts_with RESERVED_KEY_PREFIX (fst f)"
  by (auto simp: placeholder_of_def RESERVED_KEY_PREFIX_def starts_with_def
      split: list.splits json_data.splits prod.splits if_splits)

lemma map_pair_eq:
  "map f xs = map f' ys \<Longrightarrow> map g xs = map g' ys \<Longrightarrow> map (\<lambda>x. (f x, g x)) xs = map (\<lambda>y. (f' y, g' y)) ys"
proof (induction xs arbitrary: ys)
  case (Cons x xs)
  then show ?case by (cases ys) auto
qed simp

lemma stand_for_items_Cons:
  assumes "stands_for limits n v bs" and "stand_for_items limits ns vs bs'"
  shows "stand_for_items limits (n # ns) (v # vs) (bs @ bs')"
  using assms unfolding stands_for_def stand_for_items_def blobs_hold_def by (simp add: ball_Un)

lemma stand_for_members_Cons:
  assumes "stands_for limits n v bs" and "stand_for_members limits ms vs bs'"
  shows "stand_for_members limits (Member k n # ms) (Member k v # vs) (bs @ bs')"
  using assms stand_for_items_Cons [OF assms(1)] by (simp add: stand_for_members_def)

lemma stands_for_object:
  assumes "stand_for_members limits ms vs bs" and "json_wf (Object ms)" and "check_keys limits {} ms = Ok u"
  shows "stands_for limits (Object ms) (Object vs) bs"
proof -
  from assms(1) have keys: "map member_key vs = map member_key ms"
    and items: "stand_for_items limits (map member_value ms) (map member_value vs) bs"
    by (auto simp: stand_for_members_def)
  have key: "P (member_key v)" if "\<And>m. m \<in> set ms \<Longrightarrow> P (member_key m)" "v \<in> set vs" for P v
    using that keys by (metis (no_types, lifting) imageE image_eqI list.set_map)
  have "json_depth (Object vs) \<le> k + 2" if k: "json_depth (Object ms) \<le> k" for k
  proof -
    obtain k' where k': "k = Suc k'" using k by (cases k) auto
    then show ?thesis using items k json_depth_le(2) [of vs "k' + 2"] json_depth_le(2) [of ms k']
      by (simp add: stand_for_items_def member_depth_alt del: json_depth.simps)
  qed
  moreover have "json_wf (Object vs)"
    using items key [of "\<lambda>k. json_chars (js_raw k) (js_decoded k)"] assms(2)
    by (auto simp: member_wf_alt stand_for_items_def)
  moreover have ok: "\<not> starts_with RESERVED_KEY_PREFIX (js_decoded (member_key v)) \<and>
      length (js_decoded (member_key v)) \<le> ml_inline_string_bytes limits" if "v \<in> set vs" for v
    by (rule key [of "\<lambda>k. \<not> starts_with RESERVED_KEY_PREFIX (js_decoded k) \<and>
        length (js_decoded k) \<le> ml_inline_string_bytes limits", OF check_keys_Ok [OF assms(3), rule_format] that])
  then have "bounded_view limits (data_of (Object vs))"
    using items by (auto simp: member_data_alt stand_for_items_def)
  moreover have "restore blobs (data_of (Object vs)) = data_of (Object ms)" if hold: "blobs_hold blobs bs" for blobs
  proof -
    have "placeholder_of (data_of (Object vs)) = None"
      using placeholder_reserved [of "map member_data vs"] ok by (fastforce simp: member_data_alt)
    moreover have "map (\<lambda>v. restore blobs (data_of (member_value v))) vs = map (\<lambda>m. data_of (member_value m)) ms"
      using items hold by (simp add: stand_for_items_def comp_def)
    then have "map (\<lambda>v. (js_decoded (member_key v), restore blobs (data_of (member_value v)))) vs =
        map (\<lambda>m. (js_decoded (member_key m), data_of (member_value m))) ms"
      using arg_cong [OF keys, of "map js_decoded"] by (intro map_pair_eq) (simp_all add: comp_def)
    ultimately show ?thesis
      by (subst restore.simps) (simp add: member_data_alt comp_def)
  qed
  ultimately show ?thesis by (simp add: stands_for_def blobs_hold_def del: json_depth.simps)
qed

text \<open>A visit adds the blobs of the strings it takes out, and its tree is written as one that stands for the visited one.\<close>

abbreviation after_visit :: "elide_state \<Rightarrow> string list \<Rightarrow> elide_state" where
  "after_visit st vs \<equiv>
     \<lparr>es_blobs = es_blobs st @ numbered (es_next_id st) vs, es_next_id = es_next_id st + of_nat (length vs)\<rparr>"

lemma json_chars_decoded_valid: "json_chars raw dec \<Longrightarrow> utf8_valid dec"
  using json_chars_valid by blast

lemma visit_elides:
  "visit declared limits path n st = Ok (n', st') \<Longrightarrow> json_wf n \<Longrightarrow>
     st' = after_visit st (elided_strings declared limits path n) \<and>
     (\<exists>v. write_compact n' = write_compact v \<and>
        stands_for limits n v (numbered (es_next_id st) (elided_strings declared limits path n)))"
  "visit_items declared limits path index ns st = Ok (ns', st') \<Longrightarrow> \<forall>n \<in> set ns. json_wf n \<Longrightarrow>
     st' = after_visit st (elided_in_items declared limits path index ns) \<and>
     (\<exists>vs. map write_compact ns' = map write_compact vs \<and>
        stand_for_items limits ns vs (numbered (es_next_id st) (elided_in_items declared limits path index ns)))"
  "visit_members declared limits path ms st = Ok (ms', st') \<Longrightarrow> \<forall>m \<in> set ms. json_member_wf m \<Longrightarrow>
     st' = after_visit st (elided_in_members declared limits path ms) \<and>
     (\<exists>vs. map write_member ms' = map write_member vs \<and>
        stand_for_members limits ms vs (numbered (es_next_id st) (elided_in_members declared limits path ms)))"
proof (induction declared limits path n st and declared limits path index ns st and declared limits path ms st
    arbitrary: n' st' and ns' st' and ms' st' rule: visit_visit_items_visit_members.induct)
  case (1 declared limits path t st)
  then show ?case using stands_for_leaf(1) by auto
next
  case (2 declared limits path v st)
  show ?case
  proof (cases "list_ex (\<lambda>p. pattern_matches p path) declared \<or> ml_inline_string_bytes limits < length (js_decoded v)")
    case True
    let ?head = "utf8_prefix (js_decoded v) (ml_blob_head_bytes limits)"
    have "utf8_valid (js_decoded v)" using "2.prems"(2) json_chars_decoded_valid by simp
    from utf8_prefix_text(1,3) [OF this, of "ml_blob_head_bytes limits"] "2.prems"(1) True
      placeholder_stands_for [of ?head limits v "es_next_id st"]
    show ?thesis
      by (auto simp: placeholder_def Let_def blob_text_def simp flip: placeholder_tree_text)
  next
    case False
    then show ?thesis using "2.prems" stands_for_leaf(2) [of v limits] by auto
  qed
next
  case (3 declared limits path items st)
  from "3.prems"(1) obtain items' where items: "visit_items declared limits path 0 items st = Ok (items', st')"
    and n': "n' = Array items'" by (auto simp: and_then_Ok_iff)
  from "3.IH" [OF items] "3.prems"(2) obtain vs where "map write_compact items' = map write_compact vs"
    "stand_for_items limits items vs (numbered (es_next_id st) (elided_in_items declared limits path 0 items))"
    "st' = after_visit st (elided_in_items declared limits path 0 items)" by auto
  then show ?case using stands_for_array n' by (auto intro!: exI [of _ "Array vs"])
next
  case (4 declared limits path members st)
  from "4.prems"(1) obtain members' u where keys: "check_keys limits {} members = Ok u"
    and members: "visit_members declared limits path members st = Ok (members', st')"
    and n': "n' = Object members'" by (auto simp: and_then_Ok_iff)
  from "4.IH" [OF keys members] "4.prems"(2) obtain vs where "map write_member members' = map write_member vs"
    "stand_for_members limits members vs (numbered (es_next_id st) (elided_in_members declared limits path members))"
    "st' = after_visit st (elided_in_members declared limits path members)" by auto
  then show ?case using stands_for_object [OF _ "4.prems"(2) keys] n' by (auto intro!: exI [of _ "Object vs"])
next
  case (5 declared limits path index st)
  then show ?case by (auto simp: stand_for_items_def)
next
  case (6 declared limits path index item items st)
  from "6.prems"(1) obtain item' st1 items' where
    item: "visit declared limits (path @ [Index index]) item st = Ok (item', st1)"
    and items: "visit_items declared limits path (index + 1) items st1 = Ok (items', st')" and ns': "ns' = item' # items'"
    by (auto simp: and_then_Ok_iff)
  from "6.IH"(1) [OF item] "6.prems"(2) obtain v where st1: "st1 = after_visit st (elided_strings declared limits (path @ [Index index]) item)"
    and v: "write_compact item' = write_compact v"
      "stands_for limits item v (numbered (es_next_id st) (elided_strings declared limits (path @ [Index index]) item))"
    by auto
  from "6.IH"(2) [OF item refl items] "6.prems"(2) obtain vs where
    "st' = after_visit st1 (elided_in_items declared limits path (index + 1) items)"
    "map write_compact items' = map write_compact vs"
    "stand_for_items limits items vs (numbered (es_next_id st1) (elided_in_items declared limits path (index + 1) items))"
    by auto
  with stand_for_items_Cons [OF v(2)] v(1) st1 ns' show ?case
    by (auto simp: numbered_append add.assoc intro!: exI [of _ "v # vs"])
next
  case (7 declared limits path st)
  then show ?case by (auto simp: stand_for_members_def stand_for_items_def)
next
  case (8 declared limits path key n members st)
  from "8.prems"(1) obtain n1 st1 members' where
    n1: "visit declared limits (path @ [Key (js_decoded key)]) n st = Ok (n1, st1)"
    and members: "visit_members declared limits path members st1 = Ok (members', st')" and ms': "ms' = Member key n1 # members'"
    by (auto simp: and_then_Ok_iff)
  from "8.IH"(1) [OF n1] "8.prems"(2) obtain v where
    st1: "st1 = after_visit st (elided_strings declared limits (path @ [Key (js_decoded key)]) n)"
    and v: "write_compact n1 = write_compact v"
      "stands_for limits n v (numbered (es_next_id st) (elided_strings declared limits (path @ [Key (js_decoded key)]) n))"
    by auto
  from "8.IH"(2) [OF n1 refl members] "8.prems"(2) obtain vs where
    "st' = after_visit st1 (elided_in_members declared limits path members)"
    "map write_member members' = map write_member vs"
    "stand_for_members limits members vs (numbered (es_next_id st1) (elided_in_members declared limits path members))"
    by auto
  with stand_for_members_Cons [OF v(2)] v(1) st1 ms' show ?case
    by (auto simp: numbered_append add.assoc intro!: exI [of _ "Member key v # vs"])
qed

lemma numbered_ids: "map (bi_text \<circ> bl_id) (numbered i vs) = map (\<lambda>k. bi_text (blob_id_from_index (i + of_nat k))) [0..<length vs]"
proof (induction vs arbitrary: i)
  case (Cons v vs)
  have "[0..<Suc (length vs)] = 0 # map Suc [0..<length vs]" by (simp add: upt_conv_Cons map_Suc_upt del: upt_Suc)
  then show ?case using Cons.IH [of "i + 1"] by (simp add: blob_text_def comp_def add.assoc del: upt_Suc)
qed simp

lemma numbered_distinct:
  assumes "length vs \<le> 2 ^ 32"
  shows "distinct (map (bi_text \<circ> bl_id) (numbered i vs))"
proof -
  have "j = k" if "j < length vs" "k < length vs" "(of_nat j :: 32 word) = of_nat k" for j k
  proof -
    have "unat (of_nat j :: 32 word) = j" "unat (of_nat k :: 32 word) = k"
      using that(1,2) assms by (simp_all add: unat_of_nat)
    with that(3) show ?thesis by metis
  qed
  then have "inj_on (\<lambda>k. bi_text (blob_id_from_index (i + of_nat k))) {0..<length vs}"
    by (auto simp: inj_on_def blob_id_from_index_def decimal_inj word_unat_eq_iff [symmetric])
  then show ?thesis unfolding numbered_ids by (simp add: distinct_map)
qed

lemma blobs_hold_map_of:
  assumes "distinct (map (bi_text \<circ> bl_id) bs)"
  shows "blobs_hold (map_of (map (\<lambda>b. (bi_text (bl_id b), bl_bytes b)) bs)) bs"
proof -
  have "distinct (map fst (map (\<lambda>b. (bi_text (bl_id b), bl_bytes b)) bs))" using assms by (simp add: comp_def)
  then show ?thesis by (auto simp: blobs_hold_def intro!: map_of_is_SomeI)
qed

section \<open>Which documents are elided\<close>

text \<open>The keys of every object: distinct, short enough and outside the reserved namespace.\<close>

fun keys_admissible :: "media_limits \<Rightarrow> json_node \<Rightarrow> bool" and member_admissible :: "media_limits \<Rightarrow> json_member \<Rightarrow> bool" where
  "keys_admissible limits (Scalar t) = True"
| "keys_admissible limits (String v) = True"
| "keys_admissible limits (Array items) = (\<forall>n \<in> set items. keys_admissible limits n)"
| "keys_admissible limits (Object members) =
     (distinct (map (js_decoded \<circ> member_key) members) \<and> (\<forall>m \<in> set members. member_admissible limits m))"
| "member_admissible limits (Member key v) =
     (\<not> starts_with RESERVED_KEY_PREFIX (js_decoded key) \<and> length (js_decoded key) \<le> ml_inline_string_bytes limits \<and>
      keys_admissible limits v)"

lemma member_admissible_alt:
  "member_admissible limits m \<longleftrightarrow> \<not> starts_with RESERVED_KEY_PREFIX (js_decoded (member_key m)) \<and>
     length (js_decoded (member_key m)) \<le> ml_inline_string_bytes limits \<and> keys_admissible limits (member_value m)"
  by (cases m) simp

lemma check_keys_iff:
  "is_ok (check_keys limits seen ms) \<longleftrightarrow>
     distinct (map (js_decoded \<circ> member_key) ms) \<and> (js_decoded \<circ> member_key) ` set ms \<inter> seen = {} \<and>
     (\<forall>m \<in> set ms. \<not> starts_with RESERVED_KEY_PREFIX (js_decoded (member_key m)) \<and>
        length (js_decoded (member_key m)) \<le> ml_inline_string_bytes limits)"
  by (induction limits seen ms rule: check_keys.induct) (auto simp: Let_def)

lemma visit_accepts:
  "is_ok (visit declared limits path n st) \<longleftrightarrow> keys_admissible limits n"
  "is_ok (visit_items declared limits path index ns st) \<longleftrightarrow> (\<forall>n \<in> set ns. keys_admissible limits n)"
  "is_ok (visit_members declared limits path ms st) \<longleftrightarrow> (\<forall>m \<in> set ms. keys_admissible limits (member_value m))"
proof (induction declared limits path n st and declared limits path index ns st and declared limits path ms st
    rule: visit_visit_items_visit_members.induct)
  case (4 declared limits path members st)
  have "is_ok (visit declared limits path (Object members) st) \<longleftrightarrow>
      is_ok (check_keys limits {} members) \<and> is_ok (visit_members declared limits path members st)"
    by (cases "check_keys limits {} members"; cases "visit_members declared limits path members st")
      (auto split: prod.splits)
  also have "\<dots> \<longleftrightarrow> keys_admissible limits (Object members)"
    using "4.IH" by (cases "check_keys limits {} members")
      (use check_keys_iff [of limits "{}" members] in \<open>auto simp: member_admissible_alt\<close>)
  finally show ?case .
next
  case (3 declared limits path items st)
  then show ?case by (cases "visit_items declared limits path 0 items st") (auto split: prod.splits)
next
  case (6 declared limits path index item items st)
  show ?case
  proof (cases "visit declared limits (path @ [Index index]) item st")
    case (Ok r)
    with "6.IH"(2) [OF Ok, of "fst r" "snd r"] "6.IH"(1) show ?thesis
      by (cases "visit_items declared limits path (index + 1) items (snd r)") (auto split: prod.splits)
  qed (use "6.IH"(1) in auto)
next
  case (8 declared limits path key v members st)
  show ?case
  proof (cases "visit declared limits (path @ [Key (js_decoded key)]) v st")
    case (Ok r)
    with "8.IH"(2) [OF Ok, of "fst r" "snd r"] "8.IH"(1) show ?thesis
      by (cases "visit_members declared limits path members (snd r)") (auto split: prod.splits)
  qed (use "8.IH"(1) in auto)
qed auto

section \<open>Properties\<close>

lemma elide_restores:
  assumes "elide_from document declared limits first_id = Ok (view, blobs)" and "length blobs \<le> 2 ^ 32"
  shows "\<exists>n v. json_parse document = Ok n \<and> json_text v (ev_json view) \<and> json_depth v \<le> json_depth n + 2 \<and>
    bounded_view limits (data_of v) \<and>
    blobs = numbered first_id (elided_strings declared limits [] n) \<and>
    restore (map_of (map (\<lambda>b. (bi_text (bl_id b), bl_bytes b)) blobs)) (data_of v) = data_of n"
proof -
  from assms(1) obtain n n' st where n: "json_parse document = Ok n"
    and visit: "visit declared limits [] n \<lparr>es_blobs = [], es_next_id = first_id\<rparr> = Ok (n', st)"
    and out: "ev_json view = write_compact n'" "blobs = es_blobs st"
    by (auto simp: elide_from_def and_then_Ok_iff map_err_Ok)
  have wf: "json_wf n" using json_parse_wf [OF n] by simp
  from visit_elides(1) [OF visit wf] out obtain v where view: "ev_json view = write_compact v"
    and blobs: "blobs = numbered first_id (elided_strings declared limits [] n)"
    and v: "stands_for limits n v blobs" by auto
  have "length (elided_strings declared limits [] n) \<le> 2 ^ 32"
    using assms(2) blobs by simp
  then have "blobs_hold (map_of (map (\<lambda>b. (bi_text (bl_id b), bl_bytes b)) blobs)) blobs"
    unfolding blobs by (intro blobs_hold_map_of numbered_distinct)
  with v n view blobs show ?thesis
    by (intro exI [of _ n] exI [of _ v]) (auto simp: stands_for_def blobs_hold_def json_wf_compact)
qed

text \<open>
  Claim C10. Elision loses nothing and lets nothing large through. The view of an accepted document is
  a JSON text whose keys and strings are within the inline bound, except for the placeholders, whose
  head is within its own bound; the blobs hold exactly the declared and the over-long strings, in
  document order, numbered from the first id; and putting each blob back in the place of its
  placeholder gives the data of the document again.
\<close>

theorem elision_lossless_and_bounded:
  assumes "elide_from document declared limits first_id = Ok (view, blobs)" and "length blobs \<le> 2 ^ 32"
  shows "\<exists>n v. json_parse document = Ok n \<and> json_text v (ev_json view) \<and> json_depth v \<le> json_depth n + 2 \<and>
    bounded_view limits (data_of v) \<and>
    blobs = numbered first_id (elided_strings declared limits [] n) \<and>
    restore (map_of (map (\<lambda>b. (bi_text (bl_id b), bl_bytes b)) blobs)) (data_of v) = data_of n"
  by (rule elide_restores [OF assms])

text \<open>A document with one string over a small inline bound.\<close>

definition sample_limits :: media_limits where
  "sample_limits =
     \<lparr>ml_inline_string_bytes = 2, ml_elision_paths = 1, ml_elision_path_bytes = 4, ml_blob_head_bytes = 1, ml_repeat = 1,
      ml_artifact_url_bytes = 9, ml_parts = 2, ml_part_header_bytes = 9, ml_state_bytes = 9\<rparr>"

definition sample_document :: string where
  "sample_document = ''['' @ [CHR 0x22] @ ''ok'' @ [CHR 0x22] @ '', '' @ [CHR 0x22] @ ''long'' @ [CHR 0x22] @ '']''"

theorem elision_lossless_and_bounded_witness:
  "\<exists>view blobs v. elide_from sample_document [] sample_limits 7 = Ok (view, blobs) \<and> json_text v (ev_json view) \<and>
     map bl_bytes blobs = [''long''] \<and> map (bi_text \<circ> bl_id) blobs = [''b7''] \<and>
     restore (map_of [(''b7'', ''long'')]) (data_of v) = Items [Text ''ok'', Text ''long'']"
proof -
  let ?n = "Array [String \<lparr>js_raw = ''ok'', js_decoded = ''ok''\<rparr>, String \<lparr>js_raw = ''long'', js_decoded = ''long''\<rparr>]"
  let ?i = "\<lparr>bi_text = ''b7''\<rparr>"
  let ?bs = "[\<lparr>bl_id = ?i, bl_bytes = ''long'', bl_text = True\<rparr>]"
  let ?view = "\<lparr>ev_json = ''['' @ [CHR 0x22] @ ''ok'' @ [CHR 0x22] @ '','' @ placeholder_text ?i ''long'' ''l'' @ '']''\<rparr>"
  have n: "json_parse sample_document = Ok ?n" by code_simp
  have e: "elide_from sample_document [] sample_limits 7 = Ok (?view, ?bs)" by code_simp
  from elision_lossless_and_bounded [OF e] n obtain v where "json_text v (ev_json ?view)"
    "restore (map_of (map (\<lambda>b. (bi_text (bl_id b), bl_bytes b)) ?bs)) (data_of v) = data_of ?n" by auto
  with e show ?thesis by (intro exI [of _ ?view] exI [of _ ?bs] exI [of _ v]) simp
qed

text \<open>
  A document is elided exactly when there are not too many declared paths, it is one JSON
  value within the nesting bound, and in every object the keys are distinct, short enough and
  outside the reserved namespace, so no document can forge a placeholder.
\<close>

theorem elision_accepts_exactly:
  "is_ok (elide_from document declared limits first_id) \<longleftrightarrow>
     length declared \<le> ml_elision_paths limits \<and> (\<exists>n. json_parse document = Ok n \<and> keys_admissible limits n)"
proof (cases "json_parse document")
  case (Ok n)
  then show ?thesis
    using visit_accepts(1) [of declared limits "[]" n "\<lparr>es_blobs = [], es_next_id = first_id\<rparr>"]
    by (cases "visit declared limits [] n \<lparr>es_blobs = [], es_next_id = first_id\<rparr>")
      (auto simp: elide_from_def split: prod.splits)
qed (simp add: elide_from_def)

end
