(* ===== verification/Multipart.thy ===== *)
theory Multipart
  imports Transform Elide Bodies
begin

text \<open>
  \<open>south-contracts/src/media/multipart.rs\<close>: the multipart part parser and encoder. The parser's
  \<open>position\<close> in the body is the text that is left. A quoted parameter is read byte by byte: the
  character a backslash escapes is copied whole in either reading, since no byte of a longer
  character is a quote or a backslash.
\<close>

abbreviation CR_LF :: bytes where
  "CR_LF \<equiv> [CHR 0x0D, CHR 0x0A]"

abbreviation is_blank :: "byte \<Rightarrow> bool" where
  "is_blank c \<equiv> c = CHR '' '' \<or> c = CHR 0x09"

datatype multipart_error =
    Framing | InvalidHeader | MissingName | InvalidTextPart | TransferEncoding | TooManyParts | UnknownBlob
  | Transform transform_error | BoundaryCollision | InvalidMetadata | TooLarge

datatype media_part_view =
    ViewText (vt_name: string) (vt_value: "string option") (vt_blob: "blob_id option") (vt_bytes: "nat option")
      (vt_head: "string option")
  | ViewFile (vf_name: string) (vf_blob: blob_id) (vf_filename: "string option") (vf_media_type: "string option")
      (vf_bytes: nat)

record multipart_view =
  mv_parts :: "media_part_view list"

datatype media_part =
    PartFile string blob_id media_transform "string option" "string option"
  | PartText string string

section \<open>Searching and trimming\<close>

function find_from :: "bytes \<Rightarrow> byte \<Rightarrow> bytes \<Rightarrow> nat \<Rightarrow> nat option" where
  "find_from haystack first needle start =
     (if length haystack < start then None
      else
        (case iter_position (\<lambda>b. b = first) (drop start haystack) of
           None \<Rightarrow> None
         | Some offset \<Rightarrow>
             let at = start + offset in
             if at + length needle \<le> length haystack \<and> take (length needle) (drop at haystack) = needle then Some at
             else find_from haystack first needle (at + 1)))"
  by pat_completeness auto
termination
  by (relation "measure (\<lambda>(h, _, _, start). Suc (length h) - start)") auto

declare find_from.simps [simp del]

definition find_bytes :: "bytes \<Rightarrow> bytes \<Rightarrow> nat option" where
  "find_bytes haystack needle =
     (case needle of [] \<Rightarrow> None | first # _ \<Rightarrow> find_from haystack first needle 0)"

definition trim_start_blank :: "bytes \<Rightarrow> bytes" where
  "trim_start_blank s = dropWhile is_blank s"

definition trim_end_blank :: "bytes \<Rightarrow> bytes" where
  "trim_end_blank s = rev (dropWhile is_blank (rev s))"

definition trim_blank :: "bytes \<Rightarrow> bytes" where
  "trim_blank s = trim_end_blank (trim_start_blank s)"

text \<open>\<open>str::split\<close> at \<open>"\r\n"\<close>.\<close>

fun split_crlf :: "bytes \<Rightarrow> bytes list" where
  "split_crlf [] = [[]]"
| "split_crlf [c] = [[c]]"
| "split_crlf (c # d # s) =
     (if c = CHR 0x0D \<and> d = CHR 0x0A then [] # split_crlf s
      else (case split_crlf (d # s) of [] \<Rightarrow> [[c]] | l # ls \<Rightarrow> (c # l) # ls))"

section \<open>Part headers\<close>

record disposition =
  d_name :: string
  d_filename :: "string option"
  d_extended_filename :: bool

record part_headers =
  ph_name :: string
  ph_filename :: "string option"
  ph_media_type :: "string option"
  ph_is_file :: bool

fun quoted_value :: "bytes \<Rightarrow> bytes \<Rightarrow> (bytes \<times> bytes, multipart_error) result" where
  "quoted_value v [] = Err InvalidHeader"
| "quoted_value v (c # rest) =
     (if c = CHR 0x22 then Ok (v, rest)
      else if c = CHR 0x5C then (case rest of [] \<Rightarrow> Err InvalidHeader | e # rest' \<Rightarrow> quoted_value (v @ [e]) rest')
      else quoted_value (v @ [c]) rest)"

definition parameter_value :: "bytes \<Rightarrow> (bytes \<times> bytes, multipart_error) result" where
  "parameter_value input =
     (case strip_prefix [CHR 0x22] input of
        Some quoted \<Rightarrow> quoted_value [] quoted
      | None \<Rightarrow>
          let token = takeWhile (\<lambda>c. c \<noteq> CHR '';'' \<and> \<not> is_blank c) input in
          if token = [] then Err InvalidHeader else Ok (token, drop (length token) input))"

lemma quoted_value_length: "quoted_value v s = Ok (r, rest) \<Longrightarrow> length rest < length s"
  by (induction v s rule: quoted_value.induct) (fastforce split: if_splits list.splits)+

lemma parameter_value_length: "parameter_value s = Ok (r, rest) \<Longrightarrow> length rest \<le> length s"
  by (auto simp: parameter_value_def Let_def strip_prefix_Some_iff split: option.splits if_splits
      dest!: quoted_value_length)

text \<open>The loop of \<open>parse_disposition\<close>.\<close>

function disposition_loop ::
  "string option \<Rightarrow> string option \<Rightarrow> bool \<Rightarrow> bytes \<Rightarrow> (string option \<times> string option \<times> bool, multipart_error) result"
where
  "disposition_loop name filename extended_filename rest0 =
     (let rest = trim_start_blank rest0 in
      if rest = [] then Ok (name, filename, extended_filename)
      else
        and_then (ok_or (strip_prefix '';'' rest) InvalidHeader) (\<lambda>rest.
        and_then (ok_or (split_once (CHR ''='') (trim_start_blank rest)) InvalidHeader) (\<lambda>(before, after).
          let parameter = to_ascii_lowercase (trim_end_blank before) in
          and_then (parameter_value (trim_start_blank after)) (\<lambda>(parsed, rest).
            if parameter = ''name'' then
              if name \<noteq> None then Err InvalidHeader
              else disposition_loop (Some parsed) filename extended_filename rest
            else if parameter = ''filename'' then
              if filename \<noteq> None then Err InvalidHeader
              else disposition_loop name (Some parsed) extended_filename rest
            else if parameter = ''filename*'' then
              if extended_filename then Err InvalidHeader
              else disposition_loop name filename True rest
            else disposition_loop name filename extended_filename rest))))"
  by pat_completeness auto

lemma disposition_shrinks:
  assumes "strip_prefix '';'' (trim_start_blank r0) = Some r1"
    and "split_once (CHR ''='') (trim_start_blank r1) = Some (before, after)"
    and "parameter_value (trim_start_blank after) = Ok (parsed, rest)"
  shows "length rest < length r0"
proof -
  have t: "length (trim_start_blank s) \<le> length s" for s by (simp add: trim_start_blank_def length_dropWhile_le)
  have "length rest \<le> length after"
    using parameter_value_length [OF assms(3)] t [of after] by linarith
  moreover have "length after < length r1"
    using assms(2) t [of r1] by (auto simp: split_once_Some_iff)
  moreover have "length r1 < length r0"
    using assms(1) t [of r0] by (auto simp: strip_prefix_Some_iff)
  ultimately show ?thesis by linarith
qed

termination disposition_loop
  by (relation "measure (\<lambda>(_, _, _, rest). length rest)") (auto simp: ok_or_Ok_iff intro: disposition_shrinks)

declare disposition_loop.simps [simp del]

definition parse_disposition :: "bytes \<Rightarrow> (disposition, multipart_error) result" where
  "parse_disposition v =
     (let kind = takeWhile (\<lambda>c. c \<noteq> CHR '';'' \<and> c \<noteq> CHR '' '') v in
      if \<not> eq_ignore_ascii_case kind ''form-data'' then Err MissingName
      else
        and_then (disposition_loop None None False (drop (length kind) v)) (\<lambda>(name, filename, extended_filename).
          case name of
            None \<Rightarrow> Err MissingName
          | Some n \<Rightarrow>
              if n = [] then Err MissingName
              else Ok \<lparr>d_name = n, d_filename = filename, d_extended_filename = extended_filename\<rparr>))"

fun header_lines ::
  "disposition option \<Rightarrow> string option \<Rightarrow> bytes list \<Rightarrow> (disposition option \<times> string option, multipart_error) result"
where
  "header_lines disp media_type [] = Ok (disp, media_type)"
| "header_lines disp media_type (line # ls) =
     and_then (ok_or (split_once (CHR '':'') line) InvalidHeader) (\<lambda>(name, v).
       if name = [] \<or> list_ex (\<lambda>c. \<not> byte_in 0x21 0x7E c) name then Err InvalidHeader
       else
         let v = trim_blank v in
         if eq_ignore_ascii_case name ''content-disposition'' then
           and_then (parse_disposition v) (\<lambda>d.
             if disp \<noteq> None then Err InvalidHeader else header_lines (Some d) media_type ls)
         else if eq_ignore_ascii_case name ''content-type'' then
           let essence = trim_blank (hd (split_on (CHR '';'') v)) in
           if \<not> is_media_type essence \<or> media_type \<noteq> None then Err InvalidHeader
           else header_lines disp (Some essence) ls
         else if eq_ignore_ascii_case name ''content-transfer-encoding'' \<and>
           \<not> list_ex (\<lambda>word. eq_ignore_ascii_case v word) [''binary'', ''8bit'', ''7bit''] then Err TransferEncoding
         else header_lines disp media_type ls)"

definition parse_headers :: "bytes \<Rightarrow> (part_headers, multipart_error) result" where
  "parse_headers block =
     (if \<not> utf8_valid block then Err InvalidHeader
      else
        and_then (header_lines None None (split_crlf block)) (\<lambda>(disp, media_type).
        and_then (ok_or disp MissingName) (\<lambda>d.
          Ok \<lparr>ph_name = d_name d, ph_filename = d_filename d, ph_media_type = media_type,
              ph_is_file = (d_filename d \<noteq> None \<or> d_extended_filename d)\<rparr>)))"

section \<open>The parser\<close>

text \<open>One turn of the loop after the delimiter and its line break: the part, the blob it adds and
  what follows the next delimiter.\<close>

definition parse_part ::
  "media_limits \<Rightarrow> bytes \<Rightarrow> nat \<Rightarrow> bytes \<Rightarrow> (media_part_view \<times> blob list \<times> bytes, multipart_error) result" where
  "parse_part limits dash held rest =
     and_then (ok_or (case find_bytes rest (CR_LF @ CR_LF) of
         Some n \<Rightarrow> if n \<le> ml_part_header_bytes limits then Some n else None | None \<Rightarrow> None) InvalidHeader) (\<lambda>header_end.
     and_then (parse_headers (take header_end rest)) (\<lambda>headers.
       let rest = drop (header_end + 4) rest; delimiter = CR_LF @ dash in
       and_then (ok_or (find_bytes rest delimiter) Framing) (\<lambda>content_len.
         let content = take content_len rest; rest = drop (content_len + length delimiter) rest in
         if 2 ^ 32 \<le> held then Err TooManyParts
         else
           let i = blob_id_from_index (of_nat held) in
           if ph_is_file headers then
             Ok (ViewFile (ph_name headers) i (ph_filename headers) (ph_media_type headers) (length content),
                 [blob_file i content], rest)
           else if \<not> utf8_valid content then Err InvalidTextPart
           else if ml_inline_string_bytes limits < length content then
             Ok (ViewText (ph_name headers) None (Some i) (Some (length content))
                   (Some (utf8_prefix content (ml_blob_head_bytes limits))), [blob_text i content], rest)
           else Ok (ViewText (ph_name headers) (Some content) None None None, [], rest))))"

lemma parse_part_length: "parse_part limits dash held rest = Ok (p, bs, rest') \<Longrightarrow> length rest' \<le> length rest"
  by (auto simp: parse_part_def and_then_Ok_iff Let_def split: if_splits)

function parse_loop ::
  "media_limits \<Rightarrow> bytes \<Rightarrow> media_part_view list \<Rightarrow> blob list \<Rightarrow> bytes \<Rightarrow>
     (multipart_view \<times> blob list, multipart_error) result"
where
  "parse_loop limits dash parts blobs rest =
     (case strip_prefix ''--'' rest of
        Some epilogue \<Rightarrow>
          if epilogue \<in> {[], CR_LF, [CHR 0x0A]} then Ok (\<lparr>mv_parts = parts\<rparr>, blobs) else Err Framing
      | None \<Rightarrow>
          (case strip_prefix CR_LF rest of
             None \<Rightarrow> Err Framing
           | Some rest \<Rightarrow>
               if length parts = ml_parts limits then Err TooManyParts
               else
                 and_then (parse_part limits dash (length blobs) rest) (\<lambda>(part, bs, rest).
                   parse_loop limits dash (parts @ [part]) (blobs @ bs) rest)))"
  by pat_completeness auto
termination
  by (relation "measure (\<lambda>(_, _, _, _, rest). length rest)")
    (auto simp: strip_prefix_Some_iff dest!: parse_part_length)

declare parse_loop.simps [simp del]

definition parse_multipart_parts_v1 ::
  "bytes \<Rightarrow> multipart_boundary \<Rightarrow> media_limits \<Rightarrow> (multipart_view \<times> blob list, multipart_error) result" where
  "parse_multipart_parts_v1 body boundary limits =
     (let dash = ''--'' @ mb_value boundary in
      if \<not> starts_with dash body then Err Framing
      else parse_loop limits dash [] [] (drop (length dash) body))"

section \<open>The encoder\<close>

definition quote_byte :: "byte \<Rightarrow> bytes" where
  "quote_byte b =
     (if b = CHR 0x22 then ''%22'' else if b = CHR 0x0D then ''%0D'' else if b = CHR 0x0A then ''%0A'' else [b])"

definition push_quoted :: "bytes \<Rightarrow> string \<Rightarrow> (bytes, multipart_error) result" where
  "push_quoted body v = (if v = [] then Err InvalidMetadata else Ok (body @ concat (map quote_byte v)))"

definition push_content :: "bytes \<Rightarrow> bytes \<Rightarrow> bytes \<Rightarrow> (bytes, multipart_error) result" where
  "push_content body content dash =
     (if find_bytes content dash \<noteq> None then Err BoundaryCollision else Ok (body @ content))"

fun encode_part :: "blob_set \<Rightarrow> bytes \<Rightarrow> bytes \<Rightarrow> media_part \<Rightarrow> (bytes, multipart_error) result" where
  "encode_part blobs dash body (PartText name v) =
     and_then (push_quoted body name) (\<lambda>body. push_content (body @ [CHR 0x22] @ CR_LF @ CR_LF) v dash)"
| "encode_part blobs dash body (PartFile name blob w filename media_type) =
     and_then (push_quoted body name) (\<lambda>body.
     let body = body @ [CHR 0x22] in
     and_then (case filename of
         None \<Rightarrow> Ok body
       | Some f \<Rightarrow>
           and_then (push_quoted (body @ ''; filename='' @ [CHR 0x22]) f) (\<lambda>body. Ok (body @ [CHR 0x22]))) (\<lambda>body.
     let media_type = (case media_type of Some m \<Rightarrow> m | None \<Rightarrow> ''application/octet-stream'') in
     if \<not> is_media_type media_type then Err InvalidMetadata
     else
       let body = body @ CR_LF @ ''Content-Type: '' @ media_type @ CR_LF @ CR_LF in
       and_then (ok_or (blob_set_get blobs blob) UnknownBlob) (\<lambda>source.
       and_then (map_err Transform (transform_apply w (bl_bytes source) (Some media_type))) (\<lambda>content.
         push_content body content dash))))"

fun encode_parts :: "blob_set \<Rightarrow> bytes \<Rightarrow> bytes \<Rightarrow> media_part list \<Rightarrow> (bytes, multipart_error) result" where
  "encode_parts blobs dash body [] = Ok body"
| "encode_parts blobs dash body (part # parts) =
     and_then (encode_part blobs dash
         (body @ dash @ CR_LF @ ''Content-Disposition: form-data; name='' @ [CHR 0x22]) part) (\<lambda>body.
       let body = body @ CR_LF in
       if MAX_MULTIPART_REQUEST_BODY_BYTES < length body then Err TooLarge
       else encode_parts blobs dash body parts)"

definition encode_multipart_v1 ::
  "media_part list \<Rightarrow> blob_set \<Rightarrow> multipart_boundary \<Rightarrow> media_limits \<Rightarrow> (multipart_body, multipart_error) result" where
  "encode_multipart_v1 parts blobs boundary limits =
     (if ml_parts limits < length parts then Err TooManyParts
      else
        let dash = ''--'' @ mb_value boundary in
        and_then (encode_parts blobs dash [] parts) (\<lambda>body.
          map_err (\<lambda>e. if e = RequestBodyTooLarge then TooLarge else Framing)
            (multipart_body_parse (body @ dash @ ''--'' @ CR_LF) boundary)))"

section \<open>The view's JSON\<close>

fun part_json :: "media_part_view \<Rightarrow> string" where
  "part_json (ViewText name v blob n head) =
     ''{\"kind\":\"text\",\"name\":'' @ write_string name @
     (case v of Some v \<Rightarrow> '',\"value\":'' @ write_string v | None \<Rightarrow> []) @
     (case (blob, n, head) of
        (Some blob, Some n, Some head) \<Rightarrow>
          '',\"blob\":\"'' @ bi_text blob @ ''\",\"bytes\":'' @ decimal n @ '',\"head\":'' @ write_string head
      | _ \<Rightarrow> []) @ ''}''"
| "part_json (ViewFile name blob filename media_type n) =
     ''{\"kind\":\"file\",\"name\":'' @ write_string name @ '',\"blob\":\"'' @ bi_text blob @ ''\"'' @
     (case filename of Some f \<Rightarrow> '',\"filename\":'' @ write_string f | None \<Rightarrow> []) @
     (case media_type of Some m \<Rightarrow> '',\"media_type\":'' @ write_string m | None \<Rightarrow> []) @
     '',\"bytes\":'' @ decimal n @ ''}''"

definition view_json :: "multipart_view \<Rightarrow> string" where
  "view_json view = ''{\"parts\":['' @ comma_separated (map part_json (mv_parts view)) @ '']}''"


section \<open>Searching\<close>

lemma str_find_Nil_None: "p \<noteq> [] \<Longrightarrow> length xs < length p \<Longrightarrow> str_find p xs = None"
  by (induction xs) (auto simp: starts_with_iff_prefix dest: prefix_length_le)

lemma str_find_skip:
  assumes "\<forall>i < n. \<not> starts_with p (drop i xs)" and "n \<le> length xs"
  shows "str_find p xs = map_option ((+) n) (str_find p (drop n xs))"
  using assms
proof (induction n arbitrary: xs)
  case 0
  then show ?case by (simp add: option.map_ident_strong)
next
  case (Suc n)
  then obtain x ys where xs: "xs = x # ys" by (cases xs) auto
  have first: "\<not> starts_with p (x # ys)" using Suc.prems(1) [rule_format, of 0] xs by simp
  have "\<not> starts_with p (drop i ys)" if "i < n" for i using Suc.prems(1) [rule_format, of "Suc i"] xs that by simp
  with Suc xs have "str_find p ys = map_option ((+) n) (str_find p (drop n ys))" by simp
  with first xs show ?case by (simp add: option.map_comp comp_def)
qed

lemma starts_with_take: "starts_with p xs \<longleftrightarrow> take (length p) xs = p"
  by (metis append_eq_conv_conj append_take_drop_id prefix_def starts_with_iff_prefix)

lemma str_find_absent: "c \<notin> set xs \<Longrightarrow> str_find (c # p) xs = None"
  by (induction xs) (auto simp: starts_with_iff_prefix)

lemma find_from_str_find:
  assumes "start \<le> length h"
  shows "find_from h first (first # p) start = map_option ((+) start) (str_find (first # p) (drop start h))"
  using assms
proof (induction start rule: measure_induct_rule [of "\<lambda>s. Suc (length h) - s"])
  case (less start)
  show ?case
  proof (cases "iter_position (\<lambda>b. b = first) (drop start h)")
    case None
    then have "first \<notin> set (drop start h)" by (auto simp: iter_position_None_iff)
    with None less.prems show ?thesis by (simp add: find_from.simps [of h] str_find_absent)
  next
    case (Some offset)
    let ?n = "first # p" and ?at = "start + offset"
    from Some have off: "offset < length (drop start h)" "drop start h ! offset = first"
      "\<forall>i < offset. drop start h ! i \<noteq> first" by (auto simp: iter_position_Some_iff)
    have "\<not> starts_with ?n (drop i (drop start h))" if "i < offset" for i
    proof -
      have "drop i (drop start h) = drop start h ! i # drop (Suc i) (drop start h)"
        using that off(1) by (intro Cons_nth_drop_Suc [symmetric]) simp
      then show ?thesis using off(3) that by (auto simp: starts_with_iff_prefix)
    qed
    then have skip: "str_find ?n (drop start h) = map_option ((+) offset) (str_find ?n (drop ?at h))"
      using str_find_skip [of offset ?n "drop start h"] off(1) by (simp add: add.commute)
    obtain r where r: "drop ?at h = first # r" "drop (Suc ?at) h = r"
      using off(1,2) Cons_nth_drop_Suc [of ?at h] by (metis add.commute add_less_cancel_left drop_drop length_drop less_diff_conv nth_drop less.prems)
    have "find_from h first ?n start =
        (if ?at + length ?n \<le> length h \<and> take (length ?n) (drop ?at h) = ?n then Some ?at else find_from h first ?n (?at + 1))"
      using Some less.prems by (simp add: find_from.simps [of h] Let_def)
    also have "?at + length ?n \<le> length h \<and> take (length ?n) (drop ?at h) = ?n \<longleftrightarrow> starts_with ?n (drop ?at h)"
      unfolding starts_with_take using off(1) by (auto dest: arg_cong [of _ _ length])
    finally have step: "find_from h first ?n start =
        (if starts_with ?n (drop ?at h) then Some ?at else find_from h first ?n (?at + 1))" .
    show ?thesis
    proof (cases "starts_with ?n (drop ?at h)")
      case True
      with step skip r show ?thesis by simp
    next
      case False
      then have "find_from h first ?n (?at + 1) = map_option ((+) (?at + 1)) (str_find ?n r)"
        using off(1) r(2) less.IH [of "?at + 1"] by (cases "str_find ?n r") simp_all
      with False step skip r show ?thesis by (cases "str_find ?n r") simp_all
    qed
  qed
qed

lemma find_bytes_str_find: "needle \<noteq> [] \<Longrightarrow> find_bytes h needle = str_find needle h"
  by (cases needle) (simp_all add: find_bytes_def find_from_str_find option.map_ident_strong)

text \<open>A needle whose first byte does not recur in it is found where it was put, when the text
  before it does not hold it.\<close>

lemma str_find_put:
  assumes "c \<notin> set p"
  shows "str_find (c # p) xs = None \<Longrightarrow> str_find (c # p) (xs @ (c # p) @ ys) = Some (length xs)"
proof (induction xs)
  case Nil
  then show ?case by (simp add: starts_with_iff_prefix)
next
  case (Cons x xs)
  then have none: "\<not> starts_with (c # p) (x # xs)" "str_find (c # p) xs = None" by (auto split: if_splits)
  have "\<not> starts_with (c # p) ((x # xs) @ (c # p) @ ys)"
  proof
    assume "starts_with (c # p) ((x # xs) @ (c # p) @ ys)"
    then have x: "x = c" and pre: "prefix p (xs @ c # p @ ys)" by (auto simp: starts_with_iff_prefix)
    from pre [unfolded prefix_append] consider "prefix p xs" | zs where "p = xs @ zs" "prefix zs (c # p @ ys)"
      by blast
    then show False
    proof cases
      case 1
      with none(1) x show ?thesis by (simp add: starts_with_iff_prefix)
    next
      case 2
      with assms none(1) x show ?thesis by (cases zs) (auto simp: starts_with_iff_prefix)
    qed
  qed
  with Cons.IH [OF none(2)] show ?case by simp
qed

lemma str_find_before:
  assumes "c \<notin> set l"
  shows "str_find (c # p) (l @ r) = map_option ((+) (length l)) (str_find (c # p) r)"
  using assms
proof (induction l)
  case (Cons a l)
  then show ?case by (cases "str_find (c # p) r") (auto simp: starts_with_iff_prefix)
qed (simp add: option.map_ident_strong)

section \<open>Reading back what the encoder writes\<close>

definition quoted :: "string \<Rightarrow> string" where
  "quoted v = concat (map quote_byte v)"

definition disposition_line :: "string \<Rightarrow> string option \<Rightarrow> string" where
  "disposition_line name filename =
     ''Content-Disposition: form-data; name='' @ [CHR 0x22] @ quoted name @ [CHR 0x22] @
     (case filename of None \<Rightarrow> [] | Some f \<Rightarrow> ''; filename='' @ [CHR 0x22] @ quoted f @ [CHR 0x22])"

definition header_block :: "string \<Rightarrow> string option \<Rightarrow> string option \<Rightarrow> bytes" where
  "header_block name filename media_type =
     disposition_line name filename @ (case media_type of None \<Rightarrow> [] | Some m \<Rightarrow> CR_LF @ ''Content-Type: '' @ m)"

text \<open>A name the parser reads back: it is text and holds no backslash, which the encoder writes as it
  is and the parser takes for an escape.\<close>

definition plain_name :: "string \<Rightarrow> bool" where
  "plain_name v \<longleftrightarrow> utf8_valid v \<and> CHR 0x5C \<notin> set v"

lemma quoted_chars: "CHR 0x5C \<notin> set v \<Longrightarrow> set (quoted v) \<inter> {CHR 0x22, CHR 0x5C, CHR 0x0D, CHR 0x0A} = {}"
  by (auto simp: quoted_def quote_byte_def split: if_splits)

lemma quoted_Nil_iff [simp]: "quoted v = [] \<longleftrightarrow> v = []"
  by (cases v) (auto simp: quoted_def quote_byte_def)

lemma quoted_value_plain:
  "set q \<inter> {CHR 0x22, CHR 0x5C} = {} \<Longrightarrow> quoted_value v (q @ CHR 0x22 # rest) = Ok (v @ q, rest)"
  by (induction q arbitrary: v) auto


lemma trim_blank_simps [simp]:
  "trim_start_blank [] = []"
  "trim_start_blank (c # s) = (if is_blank c then trim_start_blank s else c # s)"
  "trim_end_blank [] = []"
  "trim_end_blank (s @ [c]) = (if is_blank c then trim_end_blank s else s @ [c])"
  by (simp_all add: trim_start_blank_def trim_end_blank_def)

lemma trim_end_plain: "s \<noteq> [] \<Longrightarrow> \<not> is_blank (last s) \<Longrightarrow> trim_end_blank s = s"
  by (cases s rule: rev_cases) auto

lemma split_crlf_plain: "CHR 0x0D \<notin> set l \<Longrightarrow> split_crlf l = [l]"
  by (induction l rule: split_crlf.induct) auto

lemma split_crlf_line:
  "CHR 0x0D \<notin> set l \<Longrightarrow> split_crlf (l @ CHR 0x0D # CHR 0x0A # s) = l # split_crlf s"
proof (induction l)
  case (Cons c l)
  then show ?case by (cases l) auto
qed simp

text \<open>One parameter of a disposition, written with a quoted value.\<close>

lemma disposition_parameter:
  assumes "set q \<inter> {CHR 0x22, CHR 0x5C} = {}" and "key \<in> {''name'', ''filename''}"
  shows "disposition_loop name filename ext (''; '' @ key @ ''='' @ [CHR 0x22] @ q @ CHR 0x22 # rest) =
    (if key = ''name'' then
       if name \<noteq> None then Err InvalidHeader else disposition_loop (Some q) filename ext rest
     else if filename \<noteq> None then Err InvalidHeader else disposition_loop name (Some q) ext rest)"
proof -
  have "parameter_value ([CHR 0x22] @ q @ CHR 0x22 # rest) = Ok (q, rest)"
    using quoted_value_plain [OF assms(1), of "[]"] by (simp add: parameter_value_def)
  moreover have "split_once (CHR ''='') (key @ ''='' @ [CHR 0x22] @ q @ CHR 0x22 # rest) = Some (key, [CHR 0x22] @ q @ CHR 0x22 # rest)"
    using assms(2) by auto
  moreover have "to_ascii_lowercase (trim_end_blank key) = key"
    using assms(2) by (auto simp: trim_end_blank_def to_ascii_lowercase_def byte_lower_def is_ascii_uppercase_def byte_in_def)
  ultimately show ?thesis
    using assms(2) by (subst disposition_loop.simps) (auto simp: Let_def)
qed

lemma disposition_loop_Nil [simp]: "disposition_loop name filename ext [] = Ok (name, filename, ext)"
  by (simp add: disposition_loop.simps)

lemma parse_disposition_written:
  assumes "plain_name name" and "name \<noteq> []" and "\<And>f. filename = Some f \<Longrightarrow> plain_name f"
  shows "parse_disposition (''form-data; name='' @ [CHR 0x22] @ quoted name @ [CHR 0x22] @
      (case filename of None \<Rightarrow> [] | Some f \<Rightarrow> ''; filename='' @ [CHR 0x22] @ quoted f @ [CHR 0x22])) =
    Ok \<lparr>d_name = quoted name, d_filename = map_option quoted filename, d_extended_filename = False\<rparr>"
proof -
  let ?tail = "case filename of None \<Rightarrow> [] | Some f \<Rightarrow> ''; filename='' @ [CHR 0x22] @ quoted f @ [CHR 0x22]"
  have q: "set (quoted v) \<inter> {CHR 0x22, CHR 0x5C} = {}" if "plain_name v" for v
    using that quoted_chars [of v] by (auto simp: plain_name_def)
  have "disposition_loop (Some (quoted name)) None False ?tail = Ok (Some (quoted name), map_option quoted filename, False)"
  proof (cases filename)
    case (Some f)
    with disposition_parameter [OF q [OF assms(3) [OF Some]], of "''filename''" "Some (quoted name)" None False "[]"]
    show ?thesis by simp
  qed simp
  with disposition_parameter [OF q [OF assms(1)], of "''name''" None None False ?tail]
  have "disposition_loop None None False (''; name='' @ [CHR 0x22] @ quoted name @ [CHR 0x22] @ ?tail) =
      Ok (Some (quoted name), map_option quoted filename, False)" by simp
  moreover have "eq_ignore_ascii_case ''form-data'' ''form-data''" by simp
  ultimately show ?thesis using assms(2) by (simp add: parse_disposition_def Let_def)
qed


lemma quoted_valid: "utf8_valid v \<Longrightarrow> utf8_valid (quoted v)"
proof (induction rule: utf8_chars_induct)
  case (Char ch r)
  from Char.hyps(1) show ?case
  proof (cases rule: utf8_char_cases)
    case (1 c)
    then have "list_all ascii (quote_byte c)" by (simp add: quote_byte_def ascii_def)
    with 1 Char.IH show ?thesis by (simp add: quoted_def utf8_valid_append utf8_valid_ascii)
  next
    case 2
    then have "concat (map quote_byte ch) = ch" by (induction ch) (auto simp: quote_byte_def ascii_def)
    with Char show ?thesis by (simp add: quoted_def utf8_valid_append utf8_char_valid)
  qed
qed (simp add: quoted_def)

lemma header_block_valid:
  assumes "plain_name name" and "\<And>f. filename = Some f \<Longrightarrow> plain_name f" and "\<And>m. media_type = Some m \<Longrightarrow> is_media_type m"
  shows "utf8_valid (header_block name filename media_type)"
proof -
  have ct: "utf8_valid (CR_LF @ ''Content-Type: '' @ m)" if "media_type = Some m" for m
    using media_type_chars(2) [OF assms(3) [OF that]] by (simp add: ascii_def utf8_valid_ascii)
  have fn: "utf8_valid (''; filename='' @ [CHR 0x22] @ quoted f @ [CHR 0x22])" if "filename = Some f" for f
    using quoted_valid [of f] assms(2) [OF that] by (simp add: plain_name_def ascii_def utf8_valid_append)
  have "utf8_valid (''Content-Disposition: form-data; name='' @ [CHR 0x22] @ quoted name @ [CHR 0x22] @ r) = utf8_valid r" for r
    using quoted_valid [of name] assms(1) by (simp add: plain_name_def ascii_def utf8_valid_append)
  then have "utf8_valid (disposition_line name filename)"
    unfolding disposition_line_def using fn by (auto split: option.splits)
  then show ?thesis unfolding header_block_def using ct by (auto simp: utf8_valid_append split: option.splits)
qed

lemma header_names:
  "eq_ignore_ascii_case ''Content-Disposition'' ''content-disposition''"
  "\<not> eq_ignore_ascii_case ''Content-Type'' ''content-disposition''"
  "eq_ignore_ascii_case ''Content-Type'' ''content-type''"
  by code_simp+

lemma header_lines_disposition:
  assumes "plain_name name" and "name \<noteq> []" and "\<And>f. filename = Some f \<Longrightarrow> plain_name f"
  shows "header_lines None None (disposition_line name filename # ls) =
    header_lines (Some \<lparr>d_name = quoted name, d_filename = map_option quoted filename, d_extended_filename = False\<rparr>) None ls"
proof -
  let ?v = "''form-data; name='' @ [CHR 0x22] @ quoted name @ [CHR 0x22] @
    (case filename of None \<Rightarrow> [] | Some f \<Rightarrow> ''; filename='' @ [CHR 0x22] @ quoted f @ [CHR 0x22])"
  have line: "disposition_line name filename = ''Content-Disposition'' @ CHR '':'' # ('' '' @ ?v)"
    by (simp add: disposition_line_def)
  have "split_once (CHR '':'') (disposition_line name filename) = Some (''Content-Disposition'', '' '' @ ?v)"
    unfolding line by (rule split_once_append) simp
  moreover have "last ?v = CHR 0x22" by (cases filename) simp_all
  then have "trim_blank ('' '' @ ?v) = ?v" unfolding trim_blank_def by (simp add: trim_end_plain)
  moreover have "\<not> list_ex (\<lambda>c. \<not> byte_in 0x21 0x7E c) ''Content-Disposition''" by (simp add: byte_in_def)
  ultimately show ?thesis
    using parse_disposition_written [OF assms] header_names(1) by (simp only: header_lines.simps ok_or.simps and_then.simps Let_def)
      simp
qed

lemma media_type_not_blank: "is_media_type m \<Longrightarrow> \<not> is_blank (hd m) \<and> \<not> is_blank (last m)"
proof -
  have b: "\<not> is_tchar (CHR '' '')" "\<not> is_tchar (CHR 0x09)" by code_simp+
  assume "is_media_type m"
  then obtain k s where m: "m = k @ CHR ''/'' # s" "k \<noteq> []" "s \<noteq> []" "list_all is_tchar k" "list_all is_tchar s"
    by (auto simp: is_media_type_def split_once_Some_iff split: if_splits option.splits)
  then have "is_tchar (hd m)" "is_tchar (last m)" by (auto simp: list_all_iff hd_append)
  with b show ?thesis by metis
qed

lemma header_lines_media_type:
  assumes "is_media_type m"
  shows "header_lines d None [''Content-Type: '' @ m] = Ok (d, Some m)"
proof -
  note mt = media_type_chars [OF assms] media_type_not_blank [OF assms]
  have line: "''Content-Type: '' @ m = ''Content-Type'' @ CHR '':'' # ('' '' @ m)" by simp
  have "split_once (CHR '':'') (''Content-Type: '' @ m) = Some (''Content-Type'', '' '' @ m)"
    unfolding line by (rule split_once_append) simp
  moreover have "trim_start_blank m = m" using mt(1,5) by (cases m) auto
  then have tm: "trim_blank m = m" "trim_blank ('' '' @ m) = m" using mt(1,5) by (simp_all add: trim_blank_def trim_end_plain)
  moreover have "hd (split_on (CHR '';'') m) = m" using mt(4) by (simp add: split_on_plain)
  moreover have "\<not> list_ex (\<lambda>c. \<not> byte_in 0x21 0x7E c) ''Content-Type''" by (simp add: byte_in_def)
  ultimately show ?thesis
    using assms header_names(2,3) by (simp only: header_lines.simps ok_or.simps and_then.simps Let_def) simp
qed

lemma media_type_not_cr: "is_media_type m \<Longrightarrow> CHR 0x0D \<notin> set m"
proof -
  have b: "\<not> is_tchar (CHR 0x0D)" by code_simp
  assume "is_media_type m"
  then obtain k s where m: "m = k @ CHR ''/'' # s" "list_all is_tchar k" "list_all is_tchar s"
    by (auto simp: is_media_type_def split_once_Some_iff split: if_splits option.splits)
  then show ?thesis using b by (auto simp: list_all_iff)
qed

lemma disposition_line_no_cr:
  assumes "plain_name name" and "\<And>f. filename = Some f \<Longrightarrow> plain_name f"
  shows "CHR 0x0D \<notin> set (disposition_line name filename)"
proof -
  have q: "CHR 0x0D \<notin> set (quoted v)" if "plain_name v" for v using that quoted_chars [of v] by (auto simp: plain_name_def)
  show ?thesis using q [OF assms(1)] q assms(2) by (cases filename) (auto simp: disposition_line_def)
qed

lemma parse_headers_written:
  assumes "plain_name name" and "name \<noteq> []" and "\<And>f. filename = Some f \<Longrightarrow> plain_name f" and "\<And>m. media_type = Some m \<Longrightarrow> is_media_type m"
  shows "parse_headers (header_block name filename media_type) =
    Ok \<lparr>ph_name = quoted name, ph_filename = map_option quoted filename, ph_media_type = media_type,
        ph_is_file = (filename \<noteq> None)\<rparr>"
proof -
  have no_cr: "CHR 0x0D \<notin> set (disposition_line name filename)" using assms(1,3) by (rule disposition_line_no_cr)
  have "header_lines None None (split_crlf (header_block name filename media_type)) =
      Ok (Some \<lparr>d_name = quoted name, d_filename = map_option quoted filename, d_extended_filename = False\<rparr>, media_type)"
  proof (cases media_type)
    case None
    then show ?thesis
      using header_lines_disposition [OF assms(1-3), where ls = "[]"] no_cr by (simp add: header_block_def split_crlf_plain)
  next
    case (Some m)
    have "CHR 0x0D \<notin> set (''Content-Type: '' @ m)" using assms(4) [OF Some] media_type_not_cr by simp
    then have "split_crlf (header_block name filename media_type) = [disposition_line name filename, ''Content-Type: '' @ m]"
      using Some split_crlf_line [OF no_cr] split_crlf_plain by (simp add: header_block_def)
    with Some header_lines_disposition [OF assms(1-3)] header_lines_media_type [OF assms(4) [OF Some]] show ?thesis by simp
  qed
  with header_block_valid [OF assms(1,3,4)] show ?thesis by (simp add: parse_headers_def)
qed

lemma header_found:
  assumes "plain_name name" and "\<And>f. filename = Some f \<Longrightarrow> plain_name f" and "\<And>m. media_type = Some m \<Longrightarrow> is_media_type m"
  shows "find_bytes (header_block name filename media_type @ CR_LF @ CR_LF @ rest) (CR_LF @ CR_LF) =
    Some (length (header_block name filename media_type))"
proof -
  let ?n = "CR_LF @ CR_LF"
  have no_cr: "CHR 0x0D \<notin> set (disposition_line name filename)" using assms(1,2) by (rule disposition_line_no_cr)
  have hit: "str_find ?n (CR_LF @ CR_LF @ r) = Some 0" for r by (simp add: starts_with_iff_prefix)
  have "str_find ?n (header_block name filename media_type @ CR_LF @ CR_LF @ rest) =
      Some (length (header_block name filename media_type))"
  proof (cases media_type)
    case None
    then show ?thesis using str_find_before [OF no_cr, of "[CHR 0x0A, CHR 0x0D, CHR 0x0A]"] hit [of rest]
      by (simp add: header_block_def)
  next
    case (Some m)
    let ?l = "''Content-Type: '' @ m"
    have l: "CHR 0x0D \<notin> set (CHR 0x0A # ?l)" using assms(3) [OF Some] media_type_not_cr by simp
    have "str_find ?n (?l @ CR_LF @ CR_LF @ rest) = Some (length ?l)"
      using str_find_before [of "CHR 0x0D" ?l "[CHR 0x0A, CHR 0x0D, CHR 0x0A]"] l hit [of rest] by simp
    then have "str_find ?n (CR_LF @ ?l @ CR_LF @ CR_LF @ rest) = Some (length (CR_LF @ ?l))"
      by (simp add: starts_with_iff_prefix)
    then show ?thesis using Some str_find_before [OF no_cr, of "[CHR 0x0A, CHR 0x0D, CHR 0x0A]"]
      by (simp add: header_block_def)
  qed
  then show ?thesis by (simp add: find_bytes_str_find)
qed


section \<open>The round trip\<close>

fun part_name :: "media_part \<Rightarrow> string" where
  "part_name (PartText name v) = name"
| "part_name (PartFile name b w filename media_type) = name"

fun part_filename :: "media_part \<Rightarrow> string option" where
  "part_filename (PartText name v) = None"
| "part_filename (PartFile name b w filename media_type) = filename"

fun part_type :: "media_part \<Rightarrow> string option" where
  "part_type (PartText name v) = None"
| "part_type (PartFile name b w filename media_type) =
     Some (case media_type of Some m \<Rightarrow> m | None \<Rightarrow> ''application/octet-stream'')"

fun part_content :: "blob_set \<Rightarrow> media_part \<Rightarrow> (bytes, multipart_error) result" where
  "part_content blobs (PartText name v) = Ok v"
| "part_content blobs (PartFile name b w filename media_type) =
     and_then (ok_or (blob_set_get blobs b) UnknownBlob) (\<lambda>source.
       map_err Transform (transform_apply w (bl_bytes source) (part_type (PartFile name b w filename media_type))))"

definition part_header :: "media_part \<Rightarrow> bytes" where
  "part_header p = header_block (part_name p) (part_filename p) (part_type p)"

text \<open>A part the encoder can write, with its content.\<close>

definition encodable :: "blob_set \<Rightarrow> bytes \<Rightarrow> media_part \<Rightarrow> bytes \<Rightarrow> bool" where
  "encodable blobs dash p content \<longleftrightarrow>
     part_name p \<noteq> [] \<and> part_filename p \<noteq> Some [] \<and> (\<forall>m. part_type p = Some m \<longrightarrow> is_media_type m) \<and>
     part_content blobs p = Ok content \<and> find_bytes content dash = None"

lemma encode_part_iff:
  "encode_part blobs dash (body @ ''Content-Disposition: form-data; name='' @ [CHR 0x22]) p = Ok b \<longleftrightarrow>
     (\<exists>content. encodable blobs dash p content \<and> b = body @ part_header p @ CR_LF @ CR_LF @ content)"
proof (cases p)
  case (PartText name v)
  then show ?thesis
    by (auto simp: encodable_def push_quoted_def push_content_def part_header_def header_block_def disposition_line_def quoted_def)
next
  case (PartFile name blb w filename media_type)
  then show ?thesis
    by (cases filename)
      (auto simp: encodable_def push_quoted_def push_content_def part_header_def header_block_def disposition_line_def
        quoted_def Let_def and_then_Ok_iff ok_or_Ok_iff map_err_Ok split: if_splits)
qed

fun encoded_parts :: "bytes \<Rightarrow> (media_part \<times> bytes) list \<Rightarrow> bytes" where
  "encoded_parts dash [] = []"
| "encoded_parts dash ((p, content) # ps) =
     dash @ CR_LF @ part_header p @ CR_LF @ CR_LF @ content @ CR_LF @ encoded_parts dash ps"

lemma encode_parts_Ok:
  assumes "encode_parts blobs dash body parts = Ok b"
  shows "\<exists>contents. list_all2 (encodable blobs dash) parts contents \<and> b = body @ encoded_parts dash (zip parts contents)"
  using assms
proof (induction parts arbitrary: body)
  case (Cons p parts)
  let ?d = "''Content-Disposition: form-data; name='' @ [CHR 0x22]"
  from Cons.prems obtain b' where b': "encode_part blobs dash ((body @ dash @ CR_LF) @ ?d) p = Ok b'"
    and rest: "encode_parts blobs dash (b' @ CR_LF) parts = Ok b"
    by (auto simp: and_then_Ok_iff Let_def split: if_splits)
  from b' [unfolded encode_part_iff] obtain content where c: "encodable blobs dash p content"
    "b' = (body @ dash @ CR_LF) @ part_header p @ CR_LF @ CR_LF @ content" by blast
  from Cons.IH [OF rest] obtain contents where "list_all2 (encodable blobs dash) parts contents"
    "b = (b' @ CR_LF) @ encoded_parts dash (zip parts contents)" by blast
  with c show ?case by (intro exI [of _ "content # contents"]) simp
qed auto

text \<open>What the parser makes of a part that was written with some content, and of a list of them.\<close>

definition received_part :: "media_limits \<Rightarrow> nat \<Rightarrow> media_part \<Rightarrow> bytes \<Rightarrow> media_part_view \<times> blob list" where
  "received_part limits held p content =
     (let i = blob_id_from_index (of_nat held); name = quoted (part_name p) in
      case part_filename p of
        Some f \<Rightarrow> (ViewFile name i (Some (quoted f)) (part_type p) (length content), [blob_file i content])
      | None \<Rightarrow>
          if ml_inline_string_bytes limits < length content then
            (ViewText name None (Some i) (Some (length content)) (Some (utf8_prefix content (ml_blob_head_bytes limits))),
             [blob_text i content])
          else (ViewText name (Some content) None None None, []))"

fun received :: "media_limits \<Rightarrow> nat \<Rightarrow> (media_part \<times> bytes) list \<Rightarrow> media_part_view list \<times> blob list" where
  "received limits held [] = ([], [])"
| "received limits held ((p, content) # ps) =
     (let (v, bs) = received_part limits held p content; (vs, bs') = received limits (held + length bs) ps
      in (v # vs, bs @ bs'))"

definition readable :: "media_limits \<Rightarrow> media_part \<Rightarrow> bytes \<Rightarrow> bool" where
  "readable limits p content \<longleftrightarrow>
     plain_name (part_name p) \<and> length (part_header p) \<le> ml_part_header_bytes limits \<and>
     (case part_filename p of Some f \<Rightarrow> plain_name f | None \<Rightarrow> utf8_valid content)"

lemma str_find_None_iff: "p \<noteq> [] \<Longrightarrow> str_find p xs = None \<longleftrightarrow> (\<forall>i. \<not> starts_with p (drop i xs))"
proof (induction xs)
  case (Cons x xs)
  have "(\<forall>i. \<not> starts_with p (drop i (x # xs))) \<longleftrightarrow> \<not> starts_with p (x # xs) \<and> (\<forall>i. \<not> starts_with p (drop i xs))"
    by (metis (no_types, lifting) drop0 drop_Suc_Cons not0_implies_Suc)
  with Cons show ?case by auto
qed (simp add: starts_with_iff_prefix)

lemma delimiter_found:
  assumes "find_bytes content dash = None" and "dash \<noteq> []" and "CHR 0x0D \<notin> set dash"
  shows "find_bytes (content @ CR_LF @ dash @ rest) (CR_LF @ dash) = Some (length content)"
proof -
  have none: "\<not> starts_with dash (drop i content)" for i
    using assms(1,2) by (simp add: find_bytes_str_find str_find_None_iff)
  have "str_find (CR_LF @ dash) content = None"
  proof (subst str_find_None_iff)
    show "\<forall>i. \<not> starts_with (CR_LF @ dash) (drop i content)"
    proof (intro allI notI)
      fix i assume "starts_with (CR_LF @ dash) (drop i content)"
      then obtain r where "drop i content = CR_LF @ dash @ r" by (auto simp: starts_with_iff_prefix prefix_def)
      then have "drop (i + 2) content = dash @ r"
        by (metis add.commute append_eq_conv_conj drop_drop length_Cons list.size(3) numeral_2_eq_2)
      with none [of "i + 2"] show False by (simp add: starts_with_iff_prefix)
    qed
  qed simp
  from str_find_put [of "CHR 0x0D" "CHR 0x0A # dash" content rest] this assms(3)
  show ?thesis by (simp add: find_bytes_str_find)
qed

lemma parse_part_written:
  assumes "encodable blobs dash p content" and "readable limits p content" and "held < 2 ^ 32"
    and dash: "dash \<noteq> []" "CHR 0x0D \<notin> set dash"
  shows "parse_part limits dash held (part_header p @ CR_LF @ CR_LF @ content @ CR_LF @ dash @ rest) =
    (let (v, bs) = received_part limits held p content in Ok (v, bs, rest))"
proof -
  have e: "part_name p \<noteq> []" "\<And>m. part_type p = Some m \<Longrightarrow> is_media_type m" "find_bytes content dash = None"
    using assms(1) by (simp_all add: encodable_def)
  have n: "plain_name (part_name p)" "\<And>f. part_filename p = Some f \<Longrightarrow> plain_name f"
    "length (part_header p) \<le> ml_part_header_bytes limits" "part_filename p = None \<Longrightarrow> utf8_valid content"
    using assms(2) by (auto simp: readable_def)
  have hd: "find_bytes (part_header p @ CR_LF @ CR_LF @ r) (CR_LF @ CR_LF) = Some (length (part_header p))" for r
    unfolding part_header_def by (rule header_found [OF n(1,2) e(2)])
  have headers: "parse_headers (part_header p) =
      Ok \<lparr>ph_name = quoted (part_name p), ph_filename = map_option quoted (part_filename p), ph_media_type = part_type p,
          ph_is_file = (part_filename p \<noteq> None)\<rparr>"
    unfolding part_header_def by (rule parse_headers_written [OF n(1) e(1) n(2) e(2)])
  have body: "find_bytes (content @ CR_LF @ dash @ rest) (CR_LF @ dash) = Some (length content)"
    by (rule delimiter_found [OF e(3) dash])
  show ?thesis
    unfolding parse_part_def hd option.case if_P [OF n(3)] ok_or.simps and_then.simps append_eq_conv_conj
    using assms(3) by (simp add: headers body [simplified] Let_def received_part_def n(4) split: option.splits)
qed


text \<open>What follows a delimiter: the remaining parts, or the close.\<close>

fun after_delimiter :: "bytes \<Rightarrow> (media_part \<times> bytes) list \<Rightarrow> bytes" where
  "after_delimiter dash [] = ''--'' @ CR_LF"
| "after_delimiter dash ((p, content) # ps) =
     CR_LF @ part_header p @ CR_LF @ CR_LF @ content @ CR_LF @ dash @ after_delimiter dash ps"

lemma encoded_after_delimiter: "encoded_parts dash ps @ dash @ ''--'' @ CR_LF = dash @ after_delimiter dash ps"
  by (induction dash ps rule: after_delimiter.induct) auto

lemma parse_loop_written:
  assumes "\<forall>(p, content) \<in> set ps. encodable blobs dash p content \<and> readable limits p content"
    and "length vs + length ps \<le> ml_parts limits" and "length bs + length ps \<le> 2 ^ 32"
    and dash: "dash \<noteq> []" "CHR 0x0D \<notin> set dash"
  shows "parse_loop limits dash vs bs (after_delimiter dash ps) =
    (let (vs', bs') = received limits (length bs) ps in Ok (\<lparr>mv_parts = vs @ vs'\<rparr>, bs @ bs'))"
  using assms(1-3)
proof (induction ps arbitrary: vs bs)
  case Nil
  then show ?case by (simp add: parse_loop.simps)
next
  case (Cons pc ps)
  obtain p content where pc: "pc = (p, content)" by (cases pc)
  obtain v b where vb: "received_part limits (length bs) p content = (v, b)" by (cases "received_part limits (length bs) p content")
  have part: "parse_part limits dash (length bs) (part_header p @ CR_LF @ CR_LF @ content @ CR_LF @ dash @ after_delimiter dash ps) =
      Ok (v, b, after_delimiter dash ps)"
    using parse_part_written [of blobs dash p content limits "length bs"] Cons.prems pc dash vb by simp
  have b: "length b \<le> 1" using vb by (auto simp: received_part_def Let_def split: option.splits if_splits)
  have "parse_loop limits dash vs bs (after_delimiter dash (pc # ps)) =
      parse_loop limits dash (vs @ [v]) (bs @ b) (after_delimiter dash ps)"
    using Cons.prems(2) part by (subst parse_loop.simps) (simp add: pc)
  also have "\<dots> = (let (vs', bs') = received limits (length (bs @ b)) ps in Ok (\<lparr>mv_parts = (vs @ [v]) @ vs'\<rparr>, (bs @ b) @ bs'))"
    using Cons.prems b by (intro Cons.IH) auto
  finally show ?case by (simp add: pc vb Let_def split: prod.splits)
qed



definition sample_boundary :: multipart_boundary where
  "sample_boundary = \<lparr>mb_value = ''XyZ''\<rparr>"

definition sample_part_limits :: media_limits where
  "sample_part_limits =
     \<lparr>ml_inline_string_bytes = 4, ml_elision_paths = 1, ml_elision_path_bytes = 9, ml_blob_head_bytes = 2, ml_repeat = 1,
      ml_artifact_url_bytes = 9, ml_parts = 3, ml_part_header_bytes = 200, ml_state_bytes = 9\<rparr>"

definition sample_parts :: "media_part list" where
  "sample_parts = [PartText ''n'' ''10'', PartFile ''image'' \<lparr>bi_text = ''b0''\<rparr> ToBase64 (Some ''a.png'') None]"

definition sample_blobs :: blob_set where
  "sample_blobs = \<lparr>bs_blobs = [(''b0'', blob_file \<lparr>bi_text = ''b0''\<rparr> ''hi'')]\<rparr>"

lemma sample_boundary_parse: "boundary_parse ''XyZ'' = Ok sample_boundary"
  by (simp add: boundary_parse_def sample_boundary_def MAX_MULTIPART_BOUNDARY_BYTES_def ends_with_def starts_with_def is_boundary_character_def
      is_ascii_alphanumeric_def is_ascii_alphabetic_def is_ascii_uppercase_def is_ascii_lowercase_def byte_in_def)

lemma sample_contents:
  "part_content sample_blobs (PartText ''n'' ''10'') = Ok ''10''"
  "part_content sample_blobs (PartFile ''image'' \<lparr>bi_text = ''b0''\<rparr> ToBase64 (Some ''a.png'') None) = Ok ''aGk=''"
  by (simp_all add: sample_blobs_def blob_set_get_def blob_file_def encode_base64.simps base64_chunk_def
      BASE64_SYMBOLS_def upt_rec)


lemma sample_encoded: "\<exists>body. encode_multipart_v1 sample_parts sample_blobs sample_boundary sample_part_limits = Ok body"
proof -
  have mt: "is_media_type ''application/octet-stream''" by code_simp
  have "bt_get (bs_blobs sample_blobs) ''b0'' = Some (blob_file \<lparr>bi_text = ''b0''\<rparr> ''hi'')" by (simp add: sample_blobs_def)
  moreover have "encode_base64 ''hi'' = ''aGk=''" by (simp add: encode_base64.simps base64_chunk_def BASE64_SYMBOLS_def upt_rec)
  ultimately show ?thesis
    using mt
    by (simp add: encode_multipart_v1_def sample_parts_def sample_boundary_def sample_part_limits_def push_quoted_def quote_byte_def
        push_content_def find_bytes_str_find starts_with_def ends_with_def blob_set_get_def blob_file_def
        MAX_MULTIPART_REQUEST_BODY_BYTES_def multipart_body_parse_def Let_def)
qed

lemma decimal_zero: "decimal 0 = ''0''"
  by code_simp


text \<open>The name of a part may hold a backslash, which the encoder writes as it is. The parser takes it
  for an escape and drops it, so such a name is not read back as it was written.\<close>

lemma multipart_backslash_dropped:
  assumes "set q \<inter> {CHR 0x22, CHR 0x5C} = {}" and "set r \<inter> {CHR 0x22, CHR 0x5C} = {}" and "r \<noteq> []"
  shows "quoted_value v (q @ CHR 0x5C # r @ CHR 0x22 # rest) = Ok (v @ q @ r, rest)" and "quote_byte (CHR 0x5C) = [CHR 0x5C]"
proof -
  have "quoted_value v (q @ CHR 0x5C # s) = quoted_value (v @ q) (CHR 0x5C # s)" for s
    using assms(1) by (induction q arbitrary: v) (auto split: list.splits)
  then show "quoted_value v (q @ CHR 0x5C # r @ CHR 0x22 # rest) = Ok (v @ q @ r, rest)"
    using assms(2,3) quoted_value_plain [of "tl r" "v @ q @ [hd r]" rest] by (cases r) auto
qed (simp add: quote_byte_def)

end
