(* ===== verification/Descriptor.thy ===== *)
theory Descriptor
  imports Multipart Query Paths Safe_Headers
begin

text \<open>
  \<open>south-contracts/src/media/descriptor.rs\<close>: the request a media component describes by reference, its
  validation and the expansion of its JSON template. \<open>serde_json\<close> is a parameter: \<open>wire\<close> reads the
  descriptor's wire shape (or says why not), \<open>rf\<close> reads one reference, \<open>rd\<close> and \<open>fin\<close> check the expanded
  body, and the derived serializers of the auth arm, the part list and the text body are functions to
  text. A \<open>visit\<close> closure is a function on the state it captures.
\<close>

definition MEDIA_TEXT_BODY_MEDIA_TYPES :: "string list" where
  "MEDIA_TEXT_BODY_MEDIA_TYPES = [''application/ssml+xml'']"

definition MAX_MEDIA_TEXT_BODY_BYTES :: nat where
  "MAX_MEDIA_TEXT_BODY_BYTES = 1024 * 1024"

definition REFERENCE_KEY :: string where
  "REFERENCE_KEY = ''$south.ref''"

datatype media_descriptor_error =
    Malformed string | Method | Contract contract_error | Headers "header_policy_error option" | UnsanctionedQuery
  | AuthHeader | TextBody | PartCount | Reference | UnknownBlob | Transform transform_error

datatype media_auth = Bearer (ma_slot: string) | HeaderSecret (ma_header: string) (ma_slot: string)

definition media_auth_validate :: "media_auth \<Rightarrow> (unit, media_descriptor_error) result" where
  "media_auth_validate auth =
     and_then (map_err Contract (credential_slot_parse (ma_slot auth))) (\<lambda>_.
       case auth of
         HeaderSecret header _ \<Rightarrow>
           if header \<noteq> [] \<and> length header \<le> MAX_PROVIDER_HEADER_NAME_BYTES \<and>
              list_all (\<lambda>b. is_ascii_lowercase b \<or> is_ascii_digit b \<or> b = CHR ''-'') header
           then Ok () else Err AuthHeader
       | Bearer _ \<Rightarrow> Ok ())"

record media_text_body =
  tb_media_type :: string
  tb_text :: string

datatype media_body = JsonTemplate string | MultipartParts "media_part list" | TextBodyOf media_text_body | EmptyBody

record media_reference =
  mr_blob :: blob_id
  mr_transform :: media_transform
  mr_media_type :: "string option"

record media_request_descriptor =
  md_path :: relative_path
  md_query :: "query_string option"
  md_headers :: safe_headers
  md_auth :: "media_auth option"
  md_body :: media_body

datatype body_wire = WireJson | WireMultipart "media_part list" | WireText media_text_body | WireEmpty

record descriptor_wire =
  dw_method :: string
  dw_path :: string
  dw_query :: "(string \<times> string) list"
  dw_headers :: "(string \<times> string) list"
  dw_auth :: "media_auth option"
  dw_body :: body_wire

section \<open>References\<close>

definition reference_of ::
  "(string \<Rightarrow> media_reference option) \<Rightarrow> json_member list \<Rightarrow> (media_reference option, media_descriptor_error) result" where
  "reference_of rf members =
     (case members of
        [] \<Rightarrow> Ok None
      | Member key v # rest \<Rightarrow>
          if js_decoded key \<noteq> REFERENCE_KEY then Ok None
          else if rest \<noteq> [] then Err Reference
          else
            and_then (ok_or (rf (write_compact v)) Reference) (\<lambda>reference.
              if mr_transform reference = Concat then Err Reference else Ok (Some reference)))"

fun walk_references :: "(string \<Rightarrow> media_reference option) \<Rightarrow>
      (media_reference \<Rightarrow> 's \<Rightarrow> 's \<times> (unit, media_descriptor_error) result) \<Rightarrow> json_node \<Rightarrow> 's \<Rightarrow>
      's \<times> (unit, media_descriptor_error) result"
  and walk_items :: "(string \<Rightarrow> media_reference option) \<Rightarrow>
      (media_reference \<Rightarrow> 's \<Rightarrow> 's \<times> (unit, media_descriptor_error) result) \<Rightarrow> json_node list \<Rightarrow> 's \<Rightarrow>
      's \<times> (unit, media_descriptor_error) result"
  and walk_members :: "(string \<Rightarrow> media_reference option) \<Rightarrow>
      (media_reference \<Rightarrow> 's \<Rightarrow> 's \<times> (unit, media_descriptor_error) result) \<Rightarrow> json_member list \<Rightarrow> 's \<Rightarrow>
      's \<times> (unit, media_descriptor_error) result" where
  "walk_references rf visitor (Scalar t) st = (st, Ok ())"
| "walk_references rf visitor (String v) st = (st, Ok ())"
| "walk_references rf visitor (Array items) st = walk_items rf visitor items st"
| "walk_references rf visitor (Object members) st =
     (case reference_of rf members of
        Err e \<Rightarrow> (st, Err e)
      | Ok (Some reference) \<Rightarrow> visitor reference st
      | Ok None \<Rightarrow> walk_members rf visitor members st)"
| "walk_items rf visitor [] st = (st, Ok ())"
| "walk_items rf visitor (item # items) st =
     (case walk_references rf visitor item st of
        (st, Err e) \<Rightarrow> (st, Err e)
      | (st, Ok _) \<Rightarrow> walk_items rf visitor items st)"
| "walk_members rf visitor [] st = (st, Ok ())"
| "walk_members rf visitor (Member key v # members) st =
     (if starts_with RESERVED_KEY_PREFIX (js_decoded key) then (st, Err Reference)
      else
        (case walk_references rf visitor v st of
           (st, Err e) \<Rightarrow> (st, Err e)
         | (st, Ok _) \<Rightarrow> walk_members rf visitor members st))"

section \<open>Expansion\<close>

text \<open>The string a reference stands for.\<close>

definition reference_text :: "blob_set \<Rightarrow> media_reference \<Rightarrow> (string, media_descriptor_error) result" where
  "reference_text blobs reference =
     and_then (ok_or (blob_set_get blobs (mr_blob reference)) UnknownBlob) (\<lambda>blob.
     and_then (map_err Transform (transform_apply (mr_transform reference) (bl_bytes blob) (mr_media_type reference))) (\<lambda>bs.
       if utf8_valid bs then Ok bs else Err (Transform NotText)))"

fun expand :: "(string \<Rightarrow> media_reference option) \<Rightarrow> blob_set \<Rightarrow> json_node \<Rightarrow> (json_node, media_descriptor_error) result"
  and expand_items :: "(string \<Rightarrow> media_reference option) \<Rightarrow> blob_set \<Rightarrow> json_node list \<Rightarrow>
      (json_node list, media_descriptor_error) result"
  and expand_members :: "(string \<Rightarrow> media_reference option) \<Rightarrow> blob_set \<Rightarrow> json_member list \<Rightarrow>
      (json_member list, media_descriptor_error) result" where
  "expand rf blobs (Scalar t) = Ok (Scalar t)"
| "expand rf blobs (String v) = Ok (String v)"
| "expand rf blobs (Array items) = and_then (expand_items rf blobs items) (\<lambda>items. Ok (Array items))"
| "expand rf blobs (Object members) =
     (case reference_of rf members of
        Err e \<Rightarrow> Err e
      | Ok (Some reference) \<Rightarrow> and_then (reference_text blobs reference) (\<lambda>t. Ok (Scalar (write_string t)))
      | Ok None \<Rightarrow> and_then (expand_members rf blobs members) (\<lambda>members. Ok (Object members)))"
| "expand_items rf blobs [] = Ok []"
| "expand_items rf blobs (item # items) =
     and_then (expand rf blobs item) (\<lambda>item. and_then (expand_items rf blobs items) (\<lambda>items. Ok (item # items)))"
| "expand_members rf blobs [] = Ok []"
| "expand_members rf blobs (Member key v # members) =
     (if starts_with RESERVED_KEY_PREFIX (js_decoded key) then Err Reference
      else
        and_then (expand rf blobs v) (\<lambda>v.
        and_then (expand_members rf blobs members) (\<lambda>members. Ok (Member key v # members))))"

definition expand_json_template_v1 ::
  "(string \<Rightarrow> media_reference option) \<Rightarrow> (string \<Rightarrow> 'd option) \<Rightarrow> ('d \<Rightarrow> bool) \<Rightarrow> string \<Rightarrow> blob_set \<Rightarrow>
     (json_body, media_descriptor_error) result" where
  "expand_json_template_v1 rf rd fin t blobs =
     and_then (map_err (\<lambda>_. Malformed ''template is not JSON'') (json_parse t)) (\<lambda>node.
     and_then (expand rf blobs node) (\<lambda>node.
       map_err Contract (json_body_parse rd fin (write_compact node))))"

section \<open>Parsing a descriptor\<close>

definition node_member :: "json_node \<Rightarrow> string \<Rightarrow> json_node option" where
  "node_member node k =
     (case node of
        Object members \<Rightarrow>
          map_option (\<lambda>m. case m of Member _ v \<Rightarrow> v) (find (\<lambda>m. case m of Member key _ \<Rightarrow> js_decoded key = k) members)
      | _ \<Rightarrow> None)"

definition template_text :: "string \<Rightarrow> (string, media_descriptor_error) result" where
  "template_text descriptor =
     (let malformed = Malformed ''template not found'' in
      and_then (map_err (\<lambda>_. malformed) (json_parse descriptor)) (\<lambda>node.
      and_then (ok_or
          (Option.bind (node_member node ''body'') (\<lambda>body.
           Option.bind (node_member body ''json'') (\<lambda>json. node_member json ''template''))) malformed) (\<lambda>template.
        Ok (write_compact template))))"

definition check_template :: "(string \<Rightarrow> media_reference option) \<Rightarrow> string \<Rightarrow> (unit, media_descriptor_error) result" where
  "check_template rf t =
     and_then (map_err (\<lambda>_. Malformed ''template is not JSON'') (json_parse t)) (\<lambda>node.
       snd (walk_references rf (\<lambda>_ st. (st, Ok ())) node ()))"

fun query_parameters_of ::
  "declared_query_parameter list \<Rightarrow> (string \<times> string) list \<Rightarrow> ((query_parameter \<times> string) list, media_descriptor_error) result"
where
  "query_parameters_of declared [] = Ok []"
| "query_parameters_of declared ((name, v) # entries) =
     (let parameter =
        (case find (\<lambda>candidate. wire_name candidate = name) query_parameter_ALL of
           Some p \<Rightarrow> Some p
         | None \<Rightarrow> map_option Declared (find (\<lambda>candidate. dqp_name candidate = name) declared))
      in and_then (ok_or parameter UnsanctionedQuery) (\<lambda>p.
         and_then (query_parameters_of declared entries) (\<lambda>ps. Ok ((p, v) # ps))))"

definition descriptor_body ::
  "(string \<Rightarrow> media_reference option) \<Rightarrow> string \<Rightarrow> media_limits \<Rightarrow> body_wire \<Rightarrow> (media_body, media_descriptor_error) result" where
  "descriptor_body rf source limits body =
     (case body of
        WireJson \<Rightarrow>
          and_then (template_text source) (\<lambda>t. and_then (check_template rf t) (\<lambda>_. Ok (JsonTemplate t)))
      | WireMultipart parts \<Rightarrow>
          if parts = [] \<or> ml_parts limits < length parts then Err PartCount
          else if list_ex (\<lambda>p. case p of PartFile _ _ w _ _ \<Rightarrow> w = Concat | _ \<Rightarrow> False) parts
          then Err (Transform ConcatNeedsList)
          else Ok (MultipartParts parts)
      | WireText t \<Rightarrow>
          if tb_media_type t \<notin> set MEDIA_TEXT_BODY_MEDIA_TYPES \<or> MAX_MEDIA_TEXT_BODY_BYTES < length (tb_text t)
          then Err TextBody else Ok (TextBodyOf t)
      | WireEmpty \<Rightarrow> Ok EmptyBody)"

definition parse_with_declared ::
  "(string \<Rightarrow> (descriptor_wire, string) result) \<Rightarrow> (string \<Rightarrow> media_reference option) \<Rightarrow> (bytes \<Rightarrow> string option) \<Rightarrow>
   (string \<Rightarrow> bool) \<Rightarrow> string \<Rightarrow> media_limits \<Rightarrow> declared_query_parameter list \<Rightarrow>
   (media_request_descriptor, media_descriptor_error) result" where
  "parse_with_declared wire rf hn hv source limits declared =
     and_then (map_err Malformed (wire source)) (\<lambda>w.
     if dw_method w \<noteq> ''POST'' then Err Method
     else
       and_then (map_err Contract (relative_path_parse (dw_path w))) (\<lambda>path.
       and_then (if dw_query w = [] then Ok None
                 else
                   and_then (query_parameters_of declared (dw_query w)) (\<lambda>parameters.
                   and_then (map_err Contract (query_try_from_iter parameters)) (\<lambda>q. Ok (Some q)))) (\<lambda>query.
       and_then (map_err (\<lambda>e. Headers (Some e)) (sh_try_from_iter hn hv (dw_headers w))) (\<lambda>headers.
       and_then (case dw_auth w of Some auth \<Rightarrow> media_auth_validate auth | None \<Rightarrow> Ok ()) (\<lambda>_.
       and_then (descriptor_body rf source limits (dw_body w)) (\<lambda>body.
         if (case body of MultipartParts _ \<Rightarrow> True | TextBodyOf _ \<Rightarrow> True | _ \<Rightarrow> False) \<and>
            sh_get hn headers ''content-type'' \<noteq> None
         then Err (Headers None)
         else Ok \<lparr>md_path = path, md_query = query, md_headers = headers, md_auth = dw_auth w, md_body = body\<rparr>))))))"

definition descriptor_parse ::
  "(string \<Rightarrow> (descriptor_wire, string) result) \<Rightarrow> (string \<Rightarrow> media_reference option) \<Rightarrow> (bytes \<Rightarrow> string option) \<Rightarrow>
   (string \<Rightarrow> bool) \<Rightarrow> string \<Rightarrow> media_limits \<Rightarrow> (media_request_descriptor, media_descriptor_error) result" where
  "descriptor_parse wire rf hn hv source limits = parse_with_declared wire rf hn hv source limits []"

section \<open>Reading a descriptor\<close>

definition name_value_json :: "string \<times> string \<Rightarrow> string" where
  "name_value_json p = ''{\"name\":'' @ write_string (fst p) @ '',\"value\":'' @ write_string (snd p) @ ''}''"

definition query_pair :: "string \<Rightarrow> string \<times> string" where
  "query_pair pair = (case split_once (CHR ''='') pair of Some p \<Rightarrow> p | None \<Rightarrow> (pair, []))"

definition descriptor_to_json ::
  "(media_auth \<Rightarrow> string) \<Rightarrow> (media_part list \<Rightarrow> string) \<Rightarrow> (media_text_body \<Rightarrow> string) \<Rightarrow> media_request_descriptor \<Rightarrow> string" where
  "descriptor_to_json auth_json parts_json text_json d =
     ''{\"method\":\"POST\",\"path\":'' @ write_string (rp_value (md_path d)) @
     (case md_query d of
        None \<Rightarrow> []
      | Some q \<Rightarrow>
          '',\"query\":['' @
          comma_separated (map (\<lambda>pair. name_value_json (query_pair pair)) (split_on (CHR ''&'') (qs_serialized q))) @ '']'') @
     (if sh_is_empty (md_headers d) then []
      else '',\"headers\":['' @ comma_separated (map name_value_json (sh_iter (md_headers d))) @ '']'') @
     (case md_auth d of None \<Rightarrow> [] | Some auth \<Rightarrow> '',\"auth\":'' @ auth_json auth) @
     '',\"body\":'' @
     (case md_body d of
        JsonTemplate t \<Rightarrow> ''{\"json\":{\"template\":'' @ t @ ''}}''
      | MultipartParts parts \<Rightarrow> ''{\"multipart\":{\"parts\":'' @ parts_json parts @ ''}}''
      | TextBodyOf t \<Rightarrow> ''{\"text\":'' @ text_json t @ ''}''
      | EmptyBody \<Rightarrow> ''\"empty\"'') @ ''}''"

definition referenced_blobs :: "(string \<Rightarrow> media_reference option) \<Rightarrow> media_request_descriptor \<Rightarrow> blob_id list" where
  "referenced_blobs rf d =
     (case md_body d of
        JsonTemplate t \<Rightarrow>
          (case json_parse t of
             Ok node \<Rightarrow> fst (walk_references rf (\<lambda>r ids. (ids @ [mr_blob r], Ok ())) node [])
           | Err _ \<Rightarrow> [])
      | MultipartParts parts \<Rightarrow> List.map_filter (\<lambda>p. case p of PartFile _ b _ _ _ \<Rightarrow> Some b | PartText _ _ \<Rightarrow> None) parts
      | _ \<Rightarrow> [])"

definition descriptor_minimum_contract_version ::
  "(string \<Rightarrow> media_reference option) \<Rightarrow> media_request_descriptor \<Rightarrow> nat" where
  "descriptor_minimum_contract_version rf d =
     (let declared_query =
        (case md_query d of
           None \<Rightarrow> False
         | Some q \<Rightarrow>
             list_ex (\<lambda>pair.
               let name = (case split_once (CHR ''='') pair of Some (name, _) \<Rightarrow> name | None \<Rightarrow> pair) in
               \<not> list_ex (\<lambda>sanctioned. wire_name sanctioned = name) query_parameter_ALL)
               (split_on (CHR ''&'') (qs_serialized q)))
      in if declared_query then 3
         else
           (case md_body d of
              JsonTemplate t \<Rightarrow>
                (case json_parse t of
                   Ok node \<Rightarrow>
                     fst (walk_references rf
                       (\<lambda>r version. (max version (transform_minimum_contract_version (mr_transform r)), Ok ())) node 1)
                 | Err _ \<Rightarrow> 1)
            | MultipartParts parts \<Rightarrow>
                fold (\<lambda>p version. case p of
                    PartFile _ _ w _ _ \<Rightarrow> max version (transform_minimum_contract_version w)
                  | PartText _ _ \<Rightarrow> version) parts 1
            | _ \<Rightarrow> 1))"


section \<open>What a template means\<close>

text \<open>The references of a template in order, and when it is admissible.\<close>

fun node_refs :: "(string \<Rightarrow> media_reference option) \<Rightarrow> json_node \<Rightarrow> media_reference list"
  and member_refs :: "(string \<Rightarrow> media_reference option) \<Rightarrow> json_member \<Rightarrow> media_reference list" where
  "node_refs rf (Scalar t) = []"
| "node_refs rf (String v) = []"
| "node_refs rf (Array items) = concat (map (node_refs rf) items)"
| "node_refs rf (Object members) =
     (case reference_of rf members of
        Err e \<Rightarrow> []
      | Ok (Some r) \<Rightarrow> [r]
      | Ok None \<Rightarrow> concat (map (member_refs rf) members))"
| "member_refs rf (Member key v) = node_refs rf v"

fun template_ok :: "(string \<Rightarrow> media_reference option) \<Rightarrow> json_node \<Rightarrow> bool"
  and member_ok :: "(string \<Rightarrow> media_reference option) \<Rightarrow> json_member \<Rightarrow> bool" where
  "template_ok rf (Scalar t) = True"
| "template_ok rf (String v) = True"
| "template_ok rf (Array items) = list_all (template_ok rf) items"
| "template_ok rf (Object members) =
     (case reference_of rf members of
        Err e \<Rightarrow> False
      | Ok (Some r) \<Rightarrow> True
      | Ok None \<Rightarrow> list_all (member_ok rf) members)"
| "member_ok rf (Member key v) = (\<not> starts_with RESERVED_KEY_PREFIX (js_decoded key) \<and> template_ok rf v)"

text \<open>A template with every reference replaced by its string.\<close>

fun fill :: "(string \<Rightarrow> media_reference option) \<Rightarrow> (media_reference \<Rightarrow> string) \<Rightarrow> json_node \<Rightarrow> json_node"
  and fill_member :: "(string \<Rightarrow> media_reference option) \<Rightarrow> (media_reference \<Rightarrow> string) \<Rightarrow> json_member \<Rightarrow> json_member" where
  "fill rf txt_of (Scalar t) = Scalar t"
| "fill rf txt_of (String v) = String v"
| "fill rf txt_of (Array items) = Array (map (fill rf txt_of) items)"
| "fill rf txt_of (Object members) =
     (case reference_of rf members of
        Ok (Some r) \<Rightarrow> String (written (txt_of r))
      | _ \<Rightarrow> Object (map (fill_member rf txt_of) members))"
| "fill_member rf txt_of (Member key v) = Member key (fill rf txt_of v)"

fun reserved_free :: "json_node \<Rightarrow> bool" and member_reserved_free :: "json_member \<Rightarrow> bool" where
  "reserved_free (Scalar t) = True"
| "reserved_free (String v) = True"
| "reserved_free (Array items) = list_all reserved_free items"
| "reserved_free (Object members) = list_all member_reserved_free members"
| "member_reserved_free (Member key v) = (\<not> starts_with RESERVED_KEY_PREFIX (js_decoded key) \<and> reserved_free v)"

fun first_err :: "('a, 'e) result list \<Rightarrow> 'e option" where
  "first_err [] = None"
| "first_err (Ok a # rs) = first_err rs"
| "first_err (Err e # rs) = Some e"

lemma first_err_append: "first_err (xs @ ys) = (case first_err xs of None \<Rightarrow> first_err ys | Some e \<Rightarrow> Some e)"
  by (induction xs rule: first_err.induct) auto

lemma first_err_None_iff: "first_err rs = None \<longleftrightarrow> (\<forall>r \<in> set rs. \<exists>a. r = Ok a)"
  by (induction rs rule: first_err.induct) auto

definition text_of :: "blob_set \<Rightarrow> media_reference \<Rightarrow> string" where
  "text_of blobs r = (case reference_text blobs r of Ok t \<Rightarrow> t | Err _ \<Rightarrow> [])"

lemma map_err_Err_iff: "map_err f r = Err e \<longleftrightarrow> (\<exists>e'. r = Err e' \<and> e = f e')"
  by (cases r) auto

lemma walk_admissible:
  shows "\<forall>r st. visitor r st = (f r st, Ok ()) \<Longrightarrow> template_ok rf n \<Longrightarrow> walk_references rf visitor n st = (fold f (node_refs rf n) st, Ok ())"
    and "\<forall>r st. visitor r st = (f r st, Ok ()) \<Longrightarrow> list_all (template_ok rf) ns \<Longrightarrow>
      walk_items rf visitor ns st = (fold f (concat (map (node_refs rf) ns)) st, Ok ())"
    and "\<forall>r st. visitor r st = (f r st, Ok ()) \<Longrightarrow> list_all (member_ok rf) ms \<Longrightarrow>
      walk_members rf visitor ms st = (fold f (concat (map (member_refs rf) ms)) st, Ok ())"
  by (induction rf visitor n st and rf visitor ns st and rf visitor ms st
      rule: walk_references_walk_items_walk_members.induct)
    (auto split: result.splits option.splits)

lemma walk_refuses:
  shows "\<forall>r st. visitor r st = (f r st, Ok ()) \<Longrightarrow> snd (walk_references rf visitor n st) = Ok () \<Longrightarrow> template_ok rf n"
    and "\<forall>r st. visitor r st = (f r st, Ok ()) \<Longrightarrow> snd (walk_items rf visitor ns st) = Ok () \<Longrightarrow> list_all (template_ok rf) ns"
    and "\<forall>r st. visitor r st = (f r st, Ok ()) \<Longrightarrow> snd (walk_members rf visitor ms st) = Ok () \<Longrightarrow> list_all (member_ok rf) ms"
  by (induction rf visitor n st and rf visitor ns st and rf visitor ms st
      rule: walk_references_walk_items_walk_members.induct)
    (auto split: result.splits option.splits prod.splits if_splits)

lemma expand_admissible:
  "template_ok rf n \<Longrightarrow>
     (case first_err (map (reference_text blobs) (node_refs rf n)) of
        Some e \<Rightarrow> expand rf blobs n = Err e
      | None \<Rightarrow> \<exists>n'. expand rf blobs n = Ok n' \<and> write_compact n' = write_compact (fill rf (text_of blobs) n))"
  "list_all (template_ok rf) ns \<Longrightarrow>
     (case first_err (map (reference_text blobs) (concat (map (node_refs rf) ns))) of
        Some e \<Rightarrow> expand_items rf blobs ns = Err e
      | None \<Rightarrow> \<exists>ns'. expand_items rf blobs ns = Ok ns' \<and>
          map write_compact ns' = map (\<lambda>n. write_compact (fill rf (text_of blobs) n)) ns)"
  "list_all (member_ok rf) ms \<Longrightarrow>
     (case first_err (map (reference_text blobs) (concat (map (member_refs rf) ms))) of
        Some e \<Rightarrow> expand_members rf blobs ms = Err e
      | None \<Rightarrow> \<exists>ms'. expand_members rf blobs ms = Ok ms' \<and>
          map write_member ms' = map (\<lambda>m. write_member (fill_member rf (text_of blobs) m)) ms)"
proof (induction rf blobs n and rf blobs ns and rf blobs ms rule: expand_expand_items_expand_members.induct)
  case (4 rf blobs members)
  show ?case
  proof (cases "reference_of rf members")
    case (Ok o')
    then show ?thesis
      using 4 by (cases o'; cases "reference_text blobs (the o')")
        (auto simp: comp_def text_of_def write_string_compact [symmetric] split: option.splits)
  qed (use 4 in auto)
qed (auto simp: comp_def first_err_append split: option.splits)

lemma fill_reserved_free:
  "template_ok rf n \<Longrightarrow> reserved_free (fill rf g n)"
  "member_ok rf m \<Longrightarrow> member_reserved_free (fill_member rf g m)"
  by (induction rf g n and rf g m rule: fill_fill_member.induct)
    (auto simp: list_all_iff split: result.splits option.splits)

lemma fill_wf:
  "json_wf n \<Longrightarrow> template_ok rf n \<Longrightarrow> \<forall>r \<in> set (node_refs rf n). utf8_valid (g r) \<Longrightarrow> json_wf (fill rf g n)"
  "json_member_wf m \<Longrightarrow> member_ok rf m \<Longrightarrow> \<forall>r \<in> set (member_refs rf m). utf8_valid (g r) \<Longrightarrow>
     json_member_wf (fill_member rf g m)"
proof (induction rf g n and rf g m rule: fill_fill_member.induct)
  case (4 rf g members)
  show ?case
  proof (cases "reference_of rf members")
    case (Ok ref)
    show ?thesis
    proof (cases ref)
      case None
      have "json_member_wf (fill_member rf g m)" if "m \<in> set members" for m
        using that 4 Ok None by (intro "4.IH") (auto simp: list_all_iff)
      with Ok None show ?thesis by simp
    qed (use 4 Ok in \<open>simp add: written_wf\<close>)
  qed (use 4 in simp)
qed (auto simp: list_all_iff)

lemma fold_max_le: "fold max (map d xs) a \<le> b \<longleftrightarrow> a \<le> b \<and> (\<forall>x \<in> set xs. d x \<le> (b :: nat))"
  by (induction xs arbitrary: a) auto

lemma fill_depth:
  "json_depth (fill rf g n) \<le> json_depth n"
  "json_member_depth (fill_member rf g m) \<le> json_member_depth m"
proof (induction rf g n and rf g m rule: fill_fill_member.induct)
  case (3 rf g items)
  have "json_depth i \<le> fold max (map json_depth items) 0" if "i \<in> set items" for i
    using that fold_max_le [of json_depth items 0] by blast
  with 3 show ?case by (fastforce simp: fold_max_le comp_def)
next
  case (4 rf g members)
  have "json_member_depth i \<le> fold max (map json_member_depth members) 0" if "i \<in> set members" for i
    using that fold_max_le [of json_member_depth members 0] by blast
  with 4 show ?case by (fastforce simp: fold_max_le comp_def split: result.splits option.splits)
qed auto

lemma check_template_Ok: "check_template rf t = Ok u \<longleftrightarrow> (\<exists>node. json_parse t = Ok node \<and> template_ok rf node)"
proof -
  have "snd (walk_references rf (\<lambda>_ st. (st, Ok ())) node ()) = Ok () \<longleftrightarrow> template_ok rf node" for node
    using walk_admissible(1) [of "\<lambda>_ st. (st, Ok ())" "\<lambda>_ st. st" rf node "()"]
      walk_refuses(1) [of "\<lambda>_ st. (st, Ok ())" "\<lambda>_ st. st" rf node "()"] by auto
  then show ?thesis by (simp add: check_template_def and_then_Ok_iff map_err_Ok)
qed

lemma fold_snoc: "fold (\<lambda>r ids. ids @ [h r]) rs ids = ids @ map h rs"
  by (induction rs arbitrary: ids) auto

lemma template_expands:
  assumes "json_parse t = Ok node" and "template_ok rf node"
  shows "case first_err (map (reference_text blobs) (node_refs rf node)) of
      Some e \<Rightarrow> expand_json_template_v1 rf rd fin t blobs = Err e
    | None \<Rightarrow>
        let tree = fill rf (text_of blobs) node in
        json_parse (write_compact tree) = Ok tree \<and> reserved_free tree \<and>
        expand_json_template_v1 rf rd fin t blobs = map_err Contract (json_body_parse rd fin (write_compact tree))"
proof -
  note expanded = expand_admissible(1) [OF assms(2), of blobs]
  show ?thesis
  proof (cases "first_err (map (reference_text blobs) (node_refs rf node))")
    case (Some e)
    with expanded assms(1) show ?thesis by (simp add: expand_json_template_v1_def)
  next
    case None
    have wf: "json_wf node" "json_depth node \<le> MAX_MEDIA_JSON_DEPTH" using json_parse_wf [OF assms(1)] by auto
    have "utf8_valid (text_of blobs r)" if "r \<in> set (node_refs rf node)" for r
    proof -
      from None that obtain x where "reference_text blobs r = Ok x" by (auto simp: first_err_None_iff)
      then show ?thesis by (auto simp: text_of_def reference_text_def and_then_Ok_iff split: if_splits)
    qed
    then have "json_wf (fill rf (text_of blobs) node)" using fill_wf(1) [OF wf(1) assms(2)] by blast
    moreover have "json_depth (fill rf (text_of blobs) node) \<le> MAX_MEDIA_JSON_DEPTH"
      using fill_depth(1) [of rf "text_of blobs" node] wf(2) by linarith
    ultimately have "json_parse (write_compact (fill rf (text_of blobs) node)) = Ok (fill rf (text_of blobs) node)"
      by (rule json_parse_write)
    with None expanded assms(1) fill_reserved_free(1) [OF assms(2), of "text_of blobs"] show ?thesis
      by (auto simp: expand_json_template_v1_def Let_def)
  qed
qed


section \<open>Properties\<close>

lemma query_parameters_of_Ok:
  "query_parameters_of declared entries = Ok ps \<Longrightarrow> map (\<lambda>(p, v). (wire_name p, v)) ps = entries \<and>
     (\<forall>pv \<in> set ps. fst pv \<in> set query_parameter_ALL \<or> fst pv \<in> Declared ` set declared)"
proof (induction entries arbitrary: ps)
  case (Cons entry entries)
  obtain name v where entry: "entry = (name, v)" by (cases entry)
  let ?found = "case find (\<lambda>candidate. wire_name candidate = name) query_parameter_ALL of
    Some p \<Rightarrow> Some p | None \<Rightarrow> map_option Declared (find (\<lambda>candidate. dqp_name candidate = name) declared)"
  from Cons.prems obtain p rest where p: "?found = Some p" and rest: "query_parameters_of declared entries = Ok rest"
    "ps = (p, v) # rest" by (auto simp: entry Let_def and_then_Ok_iff ok_or_Ok_iff)
  have "wire_name p = name \<and> (p \<in> set query_parameter_ALL \<or> p \<in> Declared ` set declared)"
    using p by (auto simp: find_Some_iff split: option.splits)
  with Cons.IH [OF rest(1)] rest(2) entry show ?case by simp
qed simp

lemma descriptor_body_Ok:
  assumes "descriptor_body rf source limits body = Ok b"
  shows "case b of
      JsonTemplate t \<Rightarrow> check_template rf t = Ok ()
    | MultipartParts parts \<Rightarrow> parts \<noteq> [] \<and> length parts \<le> ml_parts limits \<and>
        (\<forall>p \<in> set parts. case p of PartFile _ _ w _ _ \<Rightarrow> w \<noteq> Concat | PartText _ _ \<Rightarrow> True)
    | TextBodyOf t \<Rightarrow> tb_media_type t \<in> set MEDIA_TEXT_BODY_MEDIA_TYPES \<and> length (tb_text t) \<le> MAX_MEDIA_TEXT_BODY_BYTES
    | EmptyBody \<Rightarrow> True"
  using assms
  by (auto simp: descriptor_body_def and_then_Ok_iff list_ex_iff split: body_wire.splits if_splits media_part.splits)
    blast

lemma fold_at_most: "(\<And>r v. v \<le> b \<Longrightarrow> f r v \<le> b) \<Longrightarrow> a \<le> b \<Longrightarrow> fold f rs a \<le> (b :: nat)"
  by (induction rs arbitrary: a) auto

lemma transform_version: "transform_minimum_contract_version w \<le> 2"
  by (simp add: transform_minimum_contract_version_def)

text \<open>The words of an admitted body need at most contract 2; only a declared query needs contract 3.\<close>

lemma descriptor_version:
  assumes "case md_body d of JsonTemplate t \<Rightarrow> check_template rf t = Ok () | _ \<Rightarrow> True"
  shows "3 \<le> descriptor_minimum_contract_version rf d \<longleftrightarrow>
    (\<exists>q. md_query d = Some q \<and>
       (\<exists>pair \<in> set (split_on (CHR ''&'') (qs_serialized q)). fst (query_pair pair) \<notin> wire_name ` set query_parameter_ALL))"
proof -
  have json: "fst (walk_references rf (\<lambda>r version. (max version (transform_minimum_contract_version (mr_transform r)), Ok ())) node 1) \<le> 2"
    if "template_ok rf node" for node
    using walk_admissible(1) [of "\<lambda>r version. (max version (transform_minimum_contract_version (mr_transform r)), Ok ())"
        "\<lambda>r version. max version (transform_minimum_contract_version (mr_transform r))" rf node 1] that
    by (auto intro!: fold_at_most simp: transform_version)
  have multipart: "fold (\<lambda>p version. case p of PartFile _ _ w _ _ \<Rightarrow> max version (transform_minimum_contract_version w)
      | PartText _ _ \<Rightarrow> version) parts 1 \<le> 2" for parts
    by (rule fold_at_most) (auto simp: transform_version split: media_part.splits)
  have words: "(case md_body d of
      JsonTemplate t \<Rightarrow>
        (case json_parse t of
           Ok node \<Rightarrow> fst (walk_references rf (\<lambda>r version. (max version (transform_minimum_contract_version (mr_transform r)), Ok ())) node 1)
         | Err _ \<Rightarrow> 1)
    | MultipartParts parts \<Rightarrow>
        fold (\<lambda>p version. case p of PartFile _ _ w _ _ \<Rightarrow> max version (transform_minimum_contract_version w)
          | PartText _ _ \<Rightarrow> version) parts 1
    | _ \<Rightarrow> 1) \<le> (2 :: nat)"
    using assms json multipart by (auto simp: check_template_Ok split: media_body.splits result.splits)
  have name: "(case split_once (CHR ''='') pair of Some (name, _) \<Rightarrow> name | None \<Rightarrow> pair) = fst (query_pair pair)" for pair
    by (auto simp: query_pair_def split: option.splits)
  show ?thesis
    unfolding descriptor_minimum_contract_version_def name Let_def using words
    by (cases "md_query d") (simp, simp add: list_ex_iff image_iff eq_commute [of "wire_name _"])
qed

lemma declared_not_sanctioned:
  assumes "parameter_wf (Declared p)"
  shows "dqp_name p \<notin> wire_name ` set query_parameter_ALL"
  using declared_wf [OF assms] by (auto simp: is_declared_query_name_def Let_def list_ex_iff split: if_splits)

text \<open>
  Claim C12. What a descriptor that parses is. It posts, to a path that passed the path grammar; its
  query is the canonical one of the entries as written, each of a sanctioned name or of one the
  package declared; its headers passed the header policy, and a body whose media type South renders
  comes without one of its own; an auth arm names a valid slot; a multipart body has an admissible
  number of parts and a text body an admitted type and length, and a template has passed its check.
  It needs contract 3 exactly when a declared parameter is in its query.
\<close>

theorem descriptor_admitted:
  assumes declared: "\<forall>p \<in> set declared. parameter_wf (Declared p)"
    and parsed: "parse_with_declared wire rf hn hv source limits declared = Ok d"
  shows "\<exists>w ps. wire source = Ok w \<and> dw_method w = ''POST'' \<and> relative_path_parse (dw_path w) = Ok (md_path d) \<and>
    map (\<lambda>(p, v). (wire_name p, v)) ps = dw_query w \<and>
    (\<forall>pv \<in> set ps. fst pv \<in> set query_parameter_ALL \<or> fst pv \<in> Declared ` set declared) \<and>
    (case md_query d of None \<Rightarrow> ps = [] | Some q \<Rightarrow> query_try_from_iter ps = Ok q) \<and>
    sh_try_from_iter hn hv (dw_headers w) = Ok (md_headers d) \<and>
    md_auth d = dw_auth w \<and> (\<forall>auth. md_auth d = Some auth \<longrightarrow> (\<exists>slot. credential_slot_parse (ma_slot auth) = Ok slot)) \<and>
    (case md_body d of
       JsonTemplate t \<Rightarrow> check_template rf t = Ok ()
     | MultipartParts parts \<Rightarrow> parts \<noteq> [] \<and> length parts \<le> ml_parts limits \<and> sh_get hn (md_headers d) ''content-type'' = None
     | TextBodyOf t \<Rightarrow> tb_media_type t \<in> set MEDIA_TEXT_BODY_MEDIA_TYPES \<and>
         length (tb_text t) \<le> MAX_MEDIA_TEXT_BODY_BYTES \<and> sh_get hn (md_headers d) ''content-type'' = None
     | EmptyBody \<Rightarrow> True) \<and>
    (3 \<le> descriptor_minimum_contract_version rf d \<longleftrightarrow> (\<exists>pv \<in> set ps. fst pv \<in> Declared ` set declared))"
proof -
  from parsed obtain w where w: "wire source = Ok w" "dw_method w = ''POST''"
    "relative_path_parse (dw_path w) = Ok (md_path d)" "sh_try_from_iter hn hv (dw_headers w) = Ok (md_headers d)"
    "md_auth d = dw_auth w" "\<forall>auth. dw_auth w = Some auth \<longrightarrow> media_auth_validate auth = Ok ()"
    and body: "descriptor_body rf source limits (dw_body w) = Ok (md_body d)"
    and typed: "\<not> ((case md_body d of MultipartParts _ \<Rightarrow> True | TextBodyOf _ \<Rightarrow> True | _ \<Rightarrow> False) \<and>
      sh_get hn (md_headers d) ''content-type'' \<noteq> None)"
    and query: "if dw_query w = [] then md_query d = None
      else \<exists>ps q. query_parameters_of declared (dw_query w) = Ok ps \<and> query_try_from_iter ps = Ok q \<and> md_query d = Some q"
    by (auto simp: parse_with_declared_def and_then_Ok_iff map_err_Ok split: if_splits option.splits)
  obtain ps where ps: "map (\<lambda>(p, v). (wire_name p, v)) ps = dw_query w"
    "\<forall>pv \<in> set ps. fst pv \<in> set query_parameter_ALL \<or> fst pv \<in> Declared ` set declared"
    and q: "case md_query d of None \<Rightarrow> ps = [] | Some q \<Rightarrow> query_try_from_iter ps = Ok q"
  proof (cases "dw_query w = []")
    case True
    with query that [of "[]"] show ?thesis by simp
  next
    case False
    with query obtain ps q where ps: "query_parameters_of declared (dw_query w) = Ok ps" "query_try_from_iter ps = Ok q" "md_query d = Some q"
      by auto
    with query_parameters_of_Ok [OF ps(1)] that [of ps] show ?thesis by simp
  qed
  have slots: "\<exists>slot. credential_slot_parse (ma_slot auth) = Ok slot" if "md_auth d = Some auth" for auth
    using that w(5,6) by (auto simp: media_auth_validate_def and_then_Ok_iff map_err_Ok)
  have wf: "list_all (\<lambda>pv. parameter_wf (fst pv)) ps"
    using ps(2) declared by (fastforce simp: list_all_iff query_parameter_ALL_def)
  have "3 \<le> descriptor_minimum_contract_version rf d \<longleftrightarrow> (\<exists>pv \<in> set ps. fst pv \<in> Declared ` set declared)"
  proof (cases "md_query d")
    case None
    with q show ?thesis using descriptor_body_Ok [OF body] by (subst descriptor_version) (auto split: media_body.splits)
  next
    case (Some qs)
    with q have ok: "query_try_from_iter ps = Ok qs" by simp
    have "fst (query_pair (query_item pv)) = wire_name (fst pv)" if "pv \<in> set ps" for pv
      using query_split(2) [OF wf ok that] by (simp add: query_pair_def)
    moreover have "wire_name (fst pv) \<notin> wire_name ` set query_parameter_ALL \<longleftrightarrow> fst pv \<in> Declared ` set declared"
      if "pv \<in> set ps" for pv
      using ps(2) that declared declared_not_sanctioned by (fastforce simp: query_parameter_ALL_def)
    ultimately show ?thesis
      using descriptor_body_Ok [OF body] Some query_split(1) [OF wf ok]
      by (subst descriptor_version) (auto split: media_body.splits)
  qed
  with w ps q slots typed descriptor_body_Ok [OF body] show ?thesis
    by (intro exI [of _ w] exI [of _ ps]) (auto split: media_body.splits)
qed


text \<open>
  Claim C7. An admitted template expands as checked. The blobs it says it references are those of its
  references in order. If one of them cannot be resolved, the first such is what expansion reports,
  and it is never a malformed template or reference: those were refused when the descriptor was
  parsed. Otherwise the body is the template with each reference replaced by the JSON string of its
  text: it reads back as exactly that document, which has no reserved key, and the only refusal left
  is the request body's own check.
\<close>

theorem descriptor_template_expands:
  assumes "parse_with_declared wire rf hn hv source limits declared = Ok d" and "md_body d = JsonTemplate t"
  shows "\<exists>node. json_parse t = Ok node \<and> referenced_blobs rf d = map mr_blob (node_refs rf node) \<and>
    (case first_err (map (reference_text blobs) (node_refs rf node)) of
       Some e \<Rightarrow> expand_json_template_v1 rf rd fin t blobs = Err e \<and> (e = UnknownBlob \<or> (\<exists>f. e = Transform f))
     | None \<Rightarrow>
         let tree = fill rf (text_of blobs) node in
         json_parse (write_compact tree) = Ok tree \<and> reserved_free tree \<and>
         expand_json_template_v1 rf rd fin t blobs = map_err Contract (json_body_parse rd fin (write_compact tree)))"
proof -
  from assms obtain body where "descriptor_body rf source limits body = Ok (JsonTemplate t)"
    by (auto simp: parse_with_declared_def and_then_Ok_iff map_err_Ok split: if_splits option.splits)
  from descriptor_body_Ok [OF this] obtain node where node: "json_parse t = Ok node" "template_ok rf node"
    by (auto simp: check_template_Ok)
  have "referenced_blobs rf d = map mr_blob (node_refs rf node)"
    using walk_admissible(1) [of "\<lambda>r ids. (ids @ [mr_blob r], Ok ())" "\<lambda>r ids. ids @ [mr_blob r]" rf node "[]"]
      node assms(2) by (simp add: referenced_blobs_def fold_snoc)
  moreover have "e = UnknownBlob \<or> (\<exists>f. e = Transform f)"
    if "first_err (map (reference_text blobs) rs) = Some e" for e rs
    using that
  proof (induction rs)
    case (Cons r rs)
    then show ?case
      by (cases "reference_text blobs r")
        (auto simp: reference_text_def and_then_Err_iff ok_or_Err_iff map_err_Err_iff split: if_splits)
  qed simp
  ultimately show ?thesis
    using node template_expands [OF node, of blobs rd fin] by (intro exI [of _ node]) (auto split: option.splits)
qed

definition sample_source :: string where
  "sample_source = ''{\"body\":{\"json\":{\"template\":{\"a\":{\"$south.ref\":0}}}}}''"

definition sample_wire :: "body_wire \<Rightarrow> string \<Rightarrow> (descriptor_wire, string) result" where
  "sample_wire body source =
     Ok \<lparr>dw_method = ''POST'', dw_path = ''chat'', dw_query = [(''region'', ''eu'')], dw_headers = [], dw_auth = None,
         dw_body = body\<rparr>"

definition sample_reference :: "string \<Rightarrow> media_reference option" where
  "sample_reference s =
     (if s = ''0'' then Some \<lparr>mr_blob = \<lparr>bi_text = ''b0''\<rparr>, mr_transform = ToBase64, mr_media_type = None\<rparr> else None)"

definition sample_template :: json_node where
  "sample_template = Object [Member \<lparr>js_raw = ''a'', js_decoded = ''a''\<rparr>
     (Object [Member \<lparr>js_raw = ''$south.ref'', js_decoded = ''$south.ref''\<rparr> (Scalar ''0'')])]"

lemma sample_source_template:
  "json_parse sample_source = Ok (Object [Member \<lparr>js_raw = ''body'', js_decoded = ''body''\<rparr>
     (Object [Member \<lparr>js_raw = ''json'', js_decoded = ''json''\<rparr>
       (Object [Member \<lparr>js_raw = ''template'', js_decoded = ''template''\<rparr> sample_template])])])"
  by code_simp

lemma sample_template_text:
  "template_text sample_source = Ok ''{\"a\":{\"$south.ref\":0}}''"
  "json_parse ''{\"a\":{\"$south.ref\":0}}'' = Ok sample_template"
  "template_ok sample_reference sample_template"
  "node_refs sample_reference sample_template = [\<lparr>mr_blob = \<lparr>bi_text = ''b0''\<rparr>, mr_transform = ToBase64, mr_media_type = None\<rparr>]"
proof -
  show "template_text sample_source = Ok ''{\"a\":{\"$south.ref\":0}}''"
    unfolding template_text_def sample_source_template by (simp add: node_member_def sample_template_def Let_def)
  show "json_parse ''{\"a\":{\"$south.ref\":0}}'' = Ok sample_template" by code_simp
  show "template_ok sample_reference sample_template"
    "node_refs sample_reference sample_template = [\<lparr>mr_blob = \<lparr>bi_text = ''b0''\<rparr>, mr_transform = ToBase64, mr_media_type = None\<rparr>]"
    by code_simp+
qed

lemma sample_descriptor_parses:
  assumes "descriptor_body sample_reference source limits body = Ok b" and "case b of MultipartParts _ \<Rightarrow> False | TextBodyOf _ \<Rightarrow> False | _ \<Rightarrow> True"
  shows "parse_with_declared (sample_wire body) sample_reference hn hv source limits [sample_parameter] =
    Ok \<lparr>md_path = \<lparr>rp_value = ''chat''\<rparr>, md_query = Some \<lparr>qs_serialized = ''region=eu''\<rparr>,
        md_headers = \<lparr>sh_values = [], sh_secret_headers = dshs_none\<rparr>, md_auth = None, md_body = b\<rparr>"
proof -
  have checks: "\<not> starts_with ''/'' ''chat''" "\<not> has_invalid_or_forbidden_percent_encoding ''chat'' AdmitInSegment"
      "has_safe_segments ''chat''" "\<not> has_scheme_like_first_segment ''chat''" "list_all ascii ''chat''"
      "\<not> list_ex (\<lambda>c. c \<in> set ''?#'') ''chat''" "\<not> list_ex is_forbidden_path_byte ''chat''"
    by code_simp+
  have path: "relative_path_parse ''chat'' = Ok \<lparr>rp_value = ''chat''\<rparr>"
    using checks by (simp add: relative_path_parse_def MAX_RELATIVE_PATH_BYTES_def)
  have headers: "sh_try_from_iter hn hv [] = Ok \<lparr>sh_values = [], sh_secret_headers = dshs_none\<rparr>"
    by (simp add: sh_try_from_iter_def sh_try_from_iter_with_secret_headers_def)
  have "query_parameters_of [sample_parameter] [(''region'', ''eu'')] = Ok [(Declared sample_parameter, ''eu'')]" by code_simp
  moreover have "query_try_from_iter [(Declared sample_parameter, ''eu'')] = Ok \<lparr>qs_serialized = ''region=eu''\<rparr>"
    by (simp add: query_try_from_iter_def sample_parameter_def MAX_QUERY_TOTAL_BYTES_def Let_def)
  ultimately show ?thesis
    using path headers assms by (auto simp: parse_with_declared_def sample_wire_def split: media_body.splits)
qed

theorem descriptor_admitted_witness:
  "3 \<le> descriptor_minimum_contract_version sample_reference
     \<lparr>md_path = \<lparr>rp_value = ''chat''\<rparr>, md_query = Some \<lparr>qs_serialized = ''region=eu''\<rparr>,
        md_headers = \<lparr>sh_values = [], sh_secret_headers = dshs_none\<rparr>, md_auth = None, md_body = EmptyBody\<rparr>"
proof -
  have wf: "\<forall>p \<in> set [sample_parameter]. parameter_wf (Declared p)" by (simp add: sample_parameter_wf [simplified])
  have "descriptor_body sample_reference [] sample_part_limits WireEmpty = Ok EmptyBody" by (simp add: descriptor_body_def)
  from sample_descriptor_parses [OF this, of Some "\<lambda>_. True"] have
    "parse_with_declared (sample_wire WireEmpty) sample_reference Some (\<lambda>_. True) [] sample_part_limits [sample_parameter] =
     Ok \<lparr>md_path = \<lparr>rp_value = ''chat''\<rparr>, md_query = Some \<lparr>qs_serialized = ''region=eu''\<rparr>,
        md_headers = \<lparr>sh_values = [], sh_secret_headers = dshs_none\<rparr>, md_auth = None, md_body = EmptyBody\<rparr>" by simp
  from descriptor_admitted [OF wf this] show ?thesis by (auto simp: sample_wire_def query_parameter_ALL_def)
qed

theorem descriptor_template_expands_witness:
  "expand_json_template_v1 sample_reference Some (\<lambda>_. True) ''{\"a\":{\"$south.ref\":0}}'' sample_blobs =
     Ok \<lparr>jb_value = ''{\"a\":\"aGk=\"}''\<rparr>"
proof -
  have "check_template sample_reference ''{\"a\":{\"$south.ref\":0}}'' = Ok ()"
    using sample_template_text by (auto simp: check_template_Ok)
  then have "descriptor_body sample_reference sample_source sample_part_limits WireJson = Ok (JsonTemplate ''{\"a\":{\"$south.ref\":0}}'')"
    using sample_template_text(1) by (simp add: descriptor_body_def)
  from sample_descriptor_parses [OF this, of Some "\<lambda>_. True"]
  have parsed: "parse_with_declared (sample_wire WireJson) sample_reference Some (\<lambda>_. True) sample_source sample_part_limits [sample_parameter] =
    Ok \<lparr>md_path = \<lparr>rp_value = ''chat''\<rparr>, md_query = Some \<lparr>qs_serialized = ''region=eu''\<rparr>,
        md_headers = \<lparr>sh_values = [], sh_secret_headers = dshs_none\<rparr>, md_auth = None,
        md_body = JsonTemplate ''{\"a\":{\"$south.ref\":0}}''\<rparr>" by simp
  let ?r = "\<lparr>mr_blob = \<lparr>bi_text = ''b0''\<rparr>, mr_transform = ToBase64, mr_media_type = None\<rparr>"
  have r: "reference_text sample_blobs ?r = Ok ''aGk=''"
    using sample_contents(2)
    by (auto simp: reference_text_def and_then_Ok_iff ok_or_Ok_iff ascii_def)
  have tree: "write_compact (fill sample_reference (text_of sample_blobs) sample_template) = ''{\"a\":\"aGk=\"}''"
    using r by (simp add: sample_template_def text_of_def reference_of_def REFERENCE_KEY_def sample_reference_def written_def escape_char_def)
  from descriptor_template_expands [OF parsed, of "''{\"a\":{\"$south.ref\":0}}''" sample_blobs Some "\<lambda>_. True"] sample_template_text(2,4) r tree
  show ?thesis
    by (auto simp: Let_def json_body_parse_def MAX_JSON_REQUEST_BODY_BYTES_def)
qed

end
