(* ===== verification/Media_Views.thy ===== *)
theory Media_Views
  imports Multipart Header_Names
begin

text \<open>
  \<open>south-contracts/src/media/response.rs\<close>: the views of a request and of an upstream round that a host
  hands a media component.
\<close>

datatype response_body_form = FormJson | FormBinary | FormText | FormSse

datatype media_request_view = RequestJson elided_view | RequestMultipart multipart_view

fun request_view_to_json :: "media_request_view \<Rightarrow> string" where
  "request_view_to_json (RequestJson view) = ''{\"json\":'' @ ev_json view @ ''}''"
| "request_view_to_json (RequestMultipart view) = ''{\"multipart\":'' @ view_json view @ ''}''"

datatype media_response_body =
    BodyJson elided_view | BodyText string | BodySse elided_view | BodyOpaque blob_id nat "string option"

record media_response_view =
  rv_status :: nat
  rv_headers :: "(string \<times> string) list"
  rv_body :: media_response_body

datatype media_response_error = Elision elision_error | ResponseNotText | SseUnavailable

record sse_event_fields =
  sf_event :: string
  sf_data :: string

record upstream_round =
  ur_status :: nat
  ur_headers :: "(string \<times> string) list"
  ur_body :: bytes
  ur_content_type :: "string option"

text \<open>\<open>str::trim\<close>: the characters of Unicode's \<open>White_Space\<close>, encoded.\<close>

definition WHITE_SPACE :: "bytes list" where
  "WHITE_SPACE = map encode_utf8
     ([0x09, 0x0A, 0x0B, 0x0C, 0x0D, 0x20, 0x85, 0xA0, 0x1680] @ [0x2000..<0x200B] @ [0x2028, 0x2029, 0x202F, 0x205F, 0x3000])"

lemma stripped_shorter: "find (\<lambda>w. w \<noteq> [] \<and> starts_with w s) spaces = Some w \<Longrightarrow> length (drop (length w) s) < length s"
  by (auto simp: find_Some_iff starts_with_iff_prefix prefix_def)

function trim_start_from :: "bytes list \<Rightarrow> bytes \<Rightarrow> bytes" where
  "trim_start_from spaces s =
     (case find (\<lambda>w. w \<noteq> [] \<and> starts_with w s) spaces of
        None \<Rightarrow> s
      | Some w \<Rightarrow> trim_start_from spaces (drop (length w) s))"
  by pat_completeness auto
termination
  by (relation "measure (\<lambda>(_, s). length s)") (simp_all add: stripped_shorter del: length_drop)

declare trim_start_from.simps [simp del]

definition str_trim :: "bytes \<Rightarrow> bytes" where
  "str_trim s = rev (trim_start_from (map rev WHITE_SPACE) (rev (trim_start_from WHITE_SPACE s)))"

section \<open>The event list\<close>

definition event_data :: "string \<Rightarrow> (string, media_response_error) result" where
  "event_data data =
     (case json_parse data of
        Ok _ \<Rightarrow> Ok data
      | Err Syntax \<Rightarrow> Ok (write_string data)
      | Err TooDeep \<Rightarrow> Err (Elision ElisionTooDeep))"

fun sse_items :: "sse_event_fields list \<Rightarrow> (string list, media_response_error) result" where
  "sse_items [] = Ok []"
| "sse_items (e # events) =
     and_then (event_data (sf_data e)) (\<lambda>data.
     and_then (sse_items events) (\<lambda>items.
       Ok ((''{\"event\":'' @ write_string (sf_event e) @ '',\"data\":'' @ data @ ''}'') # items)))"

definition sse_document :: "sse_event_fields list \<Rightarrow> (string, media_response_error) result" where
  "sse_document events = and_then (sse_items events) (\<lambda>items. Ok (''['' @ comma_separated items @ '']''))"

section \<open>Response views\<close>

definition view_headers :: "string list \<Rightarrow> (string \<times> string) list \<Rightarrow> (string \<times> string) list" where
  "view_headers declared_secret_headers headers =
     filter (\<lambda>(name, _).
         name \<notin> set RESPONSE_TRANSCRIPT_DENIED_HEADERS \<and>
         \<not> list_ex (\<lambda>secret. eq_ignore_ascii_case secret name) declared_secret_headers)
       (map (\<lambda>(name, v). (to_ascii_lowercase name, v)) headers)"

definition view_media_type :: "string option \<Rightarrow> string option" where
  "view_media_type content_type =
     (case content_type of
        None \<Rightarrow> None
      | Some v \<Rightarrow>
          let essence = str_trim (hd (split_on (CHR '';'') v)) in
          if is_media_type essence then Some essence else None)"

definition opaque_body :: "bytes \<Rightarrow> string option \<Rightarrow> media_response_body \<times> blob list" where
  "opaque_body body media_type =
     (let i = blob_id_from_index 0 in (BodyOpaque i (length body) media_type, [blob_file i body]))"

definition success_body ::
  "bytes \<Rightarrow> string option \<Rightarrow> response_body_form \<Rightarrow> sse_event_fields list option \<Rightarrow> path_pattern list \<Rightarrow> media_limits \<Rightarrow>
     (media_response_body \<times> blob list, media_response_error) result" where
  "success_body body media_type form events declared limits =
     (case form of
        FormJson \<Rightarrow>
          and_then (map_err Elision (elide_v1 body declared limits)) (\<lambda>(view, elided). Ok (BodyJson view, elided))
      | FormBinary \<Rightarrow> Ok (opaque_body body media_type)
      | FormText \<Rightarrow>
          if \<not> utf8_valid body then Err ResponseNotText
          else if ml_inline_string_bytes limits < length body then Ok (opaque_body body media_type)
          else Ok (BodyText body, [])
      | FormSse \<Rightarrow>
          and_then (ok_or events SseUnavailable) (\<lambda>events.
          and_then (sse_document events) (\<lambda>document.
          and_then (map_err Elision (elide_v1 document declared limits)) (\<lambda>(view, elided). Ok (BodySse view, elided)))))"

definition failure_body ::
  "bytes \<Rightarrow> string option \<Rightarrow> media_limits \<Rightarrow> (media_response_body \<times> blob list, media_response_error) result" where
  "failure_body body media_type limits =
     (case elide_v1 body [] limits of
        Ok (view, elided) \<Rightarrow> Ok (BodyJson view, elided)
      | Err ReservedKey \<Rightarrow> Err (Elision ReservedKey)
      | Err _ \<Rightarrow>
          if utf8_valid body \<and> length body \<le> ml_inline_string_bytes limits then Ok (BodyText body, [])
          else Ok (opaque_body body media_type))"

definition build_view ::
  "upstream_round \<Rightarrow> string list \<Rightarrow> response_body_form \<Rightarrow> sse_event_fields list option \<Rightarrow> path_pattern list \<Rightarrow>
     media_limits \<Rightarrow> (media_response_view \<times> blob list, media_response_error) result" where
  "build_view round declared_secret_headers form events declared limits =
     (let headers = view_headers declared_secret_headers (ur_headers round);
          media_type = view_media_type (ur_content_type round) in
      and_then
        (if 200 \<le> ur_status round \<and> ur_status round < 300
         then success_body (ur_body round) media_type form events declared limits
         else failure_body (ur_body round) media_type limits) (\<lambda>(body, blobs).
        Ok (\<lparr>rv_status = ur_status round, rv_headers = headers, rv_body = body\<rparr>, blobs)))"

definition build_media_response_view_v1 ::
  "upstream_round \<Rightarrow> string list \<Rightarrow> response_body_form \<Rightarrow> path_pattern list \<Rightarrow> media_limits \<Rightarrow>
     (media_response_view \<times> blob list, media_response_error) result" where
  "build_media_response_view_v1 round declared_secret_headers form declared limits =
     build_view round declared_secret_headers form None declared limits"

definition build_media_sse_response_view_v1 ::
  "upstream_round \<Rightarrow> sse_event_fields list \<Rightarrow> string list \<Rightarrow> path_pattern list \<Rightarrow> media_limits \<Rightarrow>
     (media_response_view \<times> blob list, media_response_error) result" where
  "build_media_sse_response_view_v1 round events declared_secret_headers declared limits =
     build_view round declared_secret_headers FormSse (Some events) declared limits"

fun response_body_json :: "media_response_body \<Rightarrow> string" where
  "response_body_json (BodyJson view) = ''{\"json\":'' @ ev_json view @ ''}''"
| "response_body_json (BodySse view) = ''{\"sse\":'' @ ev_json view @ ''}''"
| "response_body_json (BodyText t) = ''{\"text\":'' @ write_string t @ ''}''"
| "response_body_json (BodyOpaque i n media_type) =
     ''{\"opaque\":{\"blob\":\"'' @ bi_text i @ ''\",\"bytes\":'' @ decimal n @
     (case media_type of Some m \<Rightarrow> '',\"media_type\":'' @ write_string m | None \<Rightarrow> []) @ ''}}''"

definition response_view_to_json :: "media_response_view \<Rightarrow> string" where
  "response_view_to_json view =
     ''{\"status\":'' @ decimal (rv_status view) @ '',\"headers\":['' @
     comma_separated (map (\<lambda>(name, v). ''['' @ write_string name @ '','' @ write_string v @ '']'') (rv_headers view)) @
     ''],\"body\":'' @ response_body_json (rv_body view) @ ''}''"

section \<open>The event list is one document\<close>

definition event_node :: "sse_event_fields \<Rightarrow> json_node" where
  "event_node e =
     Object [Member (written ''event'') (String (written (sf_event e))),
       Member (written ''data'') (case json_parse (sf_data e) of Ok n \<Rightarrow> n | Err _ \<Rightarrow> String (written (sf_data e)))]"

definition event_fields :: "sse_event_fields \<Rightarrow> json_data" where
  "event_fields e =
     Fields [(''event'', Text (sf_event e)),
       (''data'', case json_parse (sf_data e) of Ok n \<Rightarrow> data_of n | Err _ \<Rightarrow> Text (sf_data e))]"

lemma event_node_data: "data_of (event_node e) = event_fields e"
  by (simp add: event_node_def event_fields_def written_def split: result.splits)

lemma key_text:
  "js_raw (written ''event'') = ''event''" "json_chars (js_raw (written ''event'')) (js_decoded (written ''event''))"
  "js_raw (written ''data'') = ''data''" "json_chars (js_raw (written ''data'')) (js_decoded (written ''data''))"
proof -
  show "js_raw (written ''event'') = ''event''" "js_raw (written ''data'') = ''data''" by code_simp+
  show "json_chars (js_raw (written ''event'')) (js_decoded (written ''event''))"
    "json_chars (js_raw (written ''data'')) (js_decoded (written ''data''))"
    by (intro written_wf, simp add: ascii_def)+
qed

lemma event_node_text:
  assumes "event_data (sf_data e) = Ok data" and "utf8_valid (sf_event e)" and "utf8_valid (sf_data e)"
  shows "json_text (event_node e) (''{\"event\":'' @ write_string (sf_event e) @ '',\"data\":'' @ data @ ''}'')"
proof -
  note k = key_text
  have "json_member_text (Member (written ''event'') (String (written (sf_event e))))
      (json_quoted (js_raw (written ''event'')) @ [] @ CHR '':'' # [] @ write_string (sf_event e))"
    using k(2) write_string_text [OF assms(2)] by (intro json_text_intros(12)) simp_all
  then have ev: "json_member_text (Member (written ''event'') (String (written (sf_event e)))) (''\"event\":'' @ write_string (sf_event e))"
    by (simp add: k(1))
  let ?n = "case json_parse (sf_data e) of Ok n \<Rightarrow> n | Err _ \<Rightarrow> String (written (sf_data e))"
  obtain w t w' where t: "data = w @ t @ w'" "json_blank w" "json_blank w'" "json_text ?n t"
  proof (cases "json_parse (sf_data e)")
    case (Ok n)
    with assms(1) json_parse_Ok_iff [of "sf_data e" n] that show ?thesis by (auto simp: event_data_def)
  next
    case (Err err)
    with assms(1) have "data = write_string (sf_data e)" by (cases err) (auto simp: event_data_def)
    with Err that [of "[]" data "[]"] write_string_text [OF assms(3)] show ?thesis by simp
  qed
  have "json_member_text (Member (written ''data'') ?n) (json_quoted (js_raw (written ''data'')) @ [] @ CHR '':'' # w @ t)"
    using k(4) t by (intro json_text_intros(12)) simp_all
  then have "json_member_list [Member (written ''data'') ?n] ([] @ (''\"data\":'' @ w @ t) @ w')"
    using t(3) by (intro json_text_intros(10)) (simp_all add: k(3))
  from json_text_intros(11) [OF _ ev _ this, of "[]" "[]"]
  have "json_member_list [Member (written ''event'') (String (written (sf_event e))), Member (written ''data'') ?n]
      (''\"event\":'' @ write_string (sf_event e) @ '',\"data\":'' @ data)" by (simp add: t(1))
  from json_text_intros(7) [OF this] show ?thesis by (simp add: event_node_def)
qed


lemma json_item_list_texts:
  assumes "list_all2 json_text ns ts" and "ns \<noteq> []"
  shows "json_item_list ns (comma_separated ts)"
  using assms
proof (induction rule: list_all2_induct)
  case (Cons n ns t ts)
  show ?case
  proof (cases "ns = []")
    case True
    with Cons json_text_intros(8) [of "[]" n t "[]"] show ?thesis by simp
  next
    case False
    then have "ts \<noteq> []" using Cons(2) by (auto simp: list_all2_conv_all_nth)
    with False Cons json_text_intros(9) [of "[]" n t "[]" ns "comma_separated ts"] show ?thesis
      by (simp add: comma_separated_Cons)
  qed
qed simp

lemma sse_items_texts:
  assumes "sse_items events = Ok items" and "\<forall>e \<in> set events. utf8_valid (sf_event e) \<and> utf8_valid (sf_data e)"
  shows "list_all2 json_text (map event_node events) items"
  using assms
  by (induction events arbitrary: items) (auto simp: and_then_Ok_iff intro: event_node_text [simplified])

lemma sse_document_text:
  assumes "sse_document events = Ok document" and "\<forall>e \<in> set events. utf8_valid (sf_event e) \<and> utf8_valid (sf_data e)"
  shows "json_text (Array (map event_node events)) document"
proof -
  from assms(1) obtain items where items: "sse_items events = Ok items" "document = ''['' @ comma_separated items @ '']''"
    by (auto simp: sse_document_def and_then_Ok_iff)
  note texts = sse_items_texts [OF items(1) assms(2)]
  show ?thesis
  proof (cases "events = []")
    case True
    with items json_text_intros(4) [of "[]"] show ?thesis by simp
  next
    case False
    with json_item_list_texts [OF texts] have "json_item_list (map event_node events) (comma_separated items)" by simp
    from json_text_intros(5) [OF this] show ?thesis by (simp add: items(2))
  qed
qed

text \<open>A document the list makes parses to the list, when no event's data is nested too deep for it.\<close>

lemma sse_document_parses:
  assumes "sse_document events = Ok document" and "\<forall>e \<in> set events. utf8_valid (sf_event e) \<and> utf8_valid (sf_data e)"
    and "\<forall>e \<in> set events. \<forall>n. json_parse (sf_data e) = Ok n \<longrightarrow> json_depth n + 2 \<le> MAX_MEDIA_JSON_DEPTH"
  shows "json_parse document = Ok (Array (map event_node events))"
proof -
  have small: "(2 :: nat) \<le> MAX_MEDIA_JSON_DEPTH" by (simp add: MAX_MEDIA_JSON_DEPTH_def)
  have node: "Suc (json_depth (event_node e)) \<le> MAX_MEDIA_JSON_DEPTH" if "e \<in> set events" for e
    using assms(3) that small by (auto simp: event_node_def split: result.splits)
  have "json_depth (Array (map event_node events)) \<le> MAX_MEDIA_JSON_DEPTH"
    using node json_depth_le(1) [of "map event_node events" "MAX_MEDIA_JSON_DEPTH - 1"] small by fastforce
  with sse_document_text [OF assms(1,2)] show ?thesis
    unfolding json_parse_Ok_iff by (intro conjI exI [of _ "[]"] exI [of _ document]) simp_all
qed

section \<open>Properties\<close>

text \<open>
  Claim C8. What a response view shows. Its headers are the received ones in order, under lower-case
  names, less every name a transcript denies and every declared secret header. Its body is the
  upstream's: text within the inline bound is the whole body; an opaque body is the one blob; a JSON
  body is a bounded JSON text that gives the upstream's document back once the blobs are put in place;
  and under the \<open>sse\<close> form it gives back the list of the decoded events, each with its own type and
  data: no event can reach outside its place in the list.
\<close>

theorem response_view_faithful:
  assumes built: "build_view round secrets form events declared limits = Ok (view, blobs)"
    and count: "length blobs \<le> 2 ^ 32"
    and decoded: "\<forall>es. events = Some es \<longrightarrow> (\<forall>e \<in> set es. utf8_valid (sf_event e) \<and> utf8_valid (sf_data e) \<and>
      (\<forall>n. json_parse (sf_data e) = Ok n \<longrightarrow> json_depth n + 2 \<le> MAX_MEDIA_JSON_DEPTH))"
  shows "rv_status view = ur_status round \<and>
    (\<forall>(name, v) \<in> set (rv_headers view). name \<notin> set RESPONSE_TRANSCRIPT_DENIED_HEADERS \<and>
       (\<forall>secret \<in> set secrets. \<not> eq_ignore_ascii_case secret name) \<and>
       (\<exists>received. (received, v) \<in> set (ur_headers round) \<and> name = to_ascii_lowercase received)) \<and>
    (case rv_body view of
       BodyText t \<Rightarrow> t = ur_body round \<and> utf8_valid t \<and> length t \<le> ml_inline_string_bytes limits \<and> blobs = []
     | BodyOpaque i n media_type \<Rightarrow> n = length (ur_body round) \<and> blobs = [blob_file i (ur_body round)]
     | BodyJson shown \<Rightarrow> \<exists>n v. json_parse (ur_body round) = Ok n \<and> json_text v (ev_json shown) \<and>
         bounded_view limits (data_of v) \<and>
         restore (map_of (map (\<lambda>b. (bi_text (bl_id b), bl_bytes b)) blobs)) (data_of v) = data_of n
     | BodySse shown \<Rightarrow> \<exists>es v. events = Some es \<and> json_text v (ev_json shown) \<and> bounded_view limits (data_of v) \<and>
         restore (map_of (map (\<lambda>b. (bi_text (bl_id b), bl_bytes b)) blobs)) (data_of v) = Items (map event_fields es))"
proof -
  obtain body where body: "rv_body view = body" "rv_status view = ur_status round"
    "rv_headers view = view_headers secrets (ur_headers round)"
    and made: "success_body (ur_body round) (view_media_type (ur_content_type round)) form events declared limits = Ok (body, blobs) \<or>
      failure_body (ur_body round) (view_media_type (ur_content_type round)) limits = Ok (body, blobs)"
    using built by (auto simp: build_view_def Let_def and_then_Ok_iff split: if_splits)
  have json: "\<exists>n v. json_parse document = Ok n \<and> json_text v (ev_json shown) \<and> bounded_view limits (data_of v) \<and>
      restore (map_of (map (\<lambda>b. (bi_text (bl_id b), bl_bytes b)) blobs)) (data_of v) = data_of n"
    if "elide_v1 document paths limits = Ok (shown, blobs)" for document paths shown
    using elide_restores [OF that [unfolded elide_v1_def] count] by blast
  have sse: "\<exists>v. json_text v (ev_json shown) \<and> bounded_view limits (data_of v) \<and>
      restore (map_of (map (\<lambda>b. (bi_text (bl_id b), bl_bytes b)) blobs)) (data_of v) = Items (map event_fields es)"
    if "sse_document es = Ok document" "elide_v1 document declared limits = Ok (shown, blobs)" "events = Some es" for es document shown
  proof -
    have "json_parse document = Ok (Array (map event_node es))" using that(1,3) decoded by (intro sse_document_parses) auto
    with json [OF that(2)] show ?thesis by (auto simp: comp_def event_node_data)
  qed
  have "case body of
       BodyText t \<Rightarrow> t = ur_body round \<and> utf8_valid t \<and> length t \<le> ml_inline_string_bytes limits \<and> blobs = []
     | BodyOpaque i n media_type \<Rightarrow> n = length (ur_body round) \<and> blobs = [blob_file i (ur_body round)]
     | BodyJson shown \<Rightarrow> \<exists>n v. json_parse (ur_body round) = Ok n \<and> json_text v (ev_json shown) \<and>
         bounded_view limits (data_of v) \<and>
         restore (map_of (map (\<lambda>b. (bi_text (bl_id b), bl_bytes b)) blobs)) (data_of v) = data_of n
     | BodySse shown \<Rightarrow> \<exists>es v. events = Some es \<and> json_text v (ev_json shown) \<and> bounded_view limits (data_of v) \<and>
         restore (map_of (map (\<lambda>b. (bi_text (bl_id b), bl_bytes b)) blobs)) (data_of v) = Items (map event_fields es)"
    using made
  proof
    assume "success_body (ur_body round) (view_media_type (ur_content_type round)) form events declared limits = Ok (body, blobs)"
    then show ?thesis
      using json sse by (cases form) (auto simp: success_body_def opaque_body_def Let_def and_then_Ok_iff map_err_Ok ok_or_Ok_iff split: if_splits)
  next
    assume "failure_body (ur_body round) (view_media_type (ur_content_type round)) limits = Ok (body, blobs)"
    then show ?thesis
      using json by (auto simp: failure_body_def opaque_body_def Let_def split: result.splits elision_error.splits if_splits)
  qed
  moreover have "\<forall>(name, v) \<in> set (rv_headers view). name \<notin> set RESPONSE_TRANSCRIPT_DENIED_HEADERS \<and>
       (\<forall>secret \<in> set secrets. \<not> eq_ignore_ascii_case secret name) \<and>
       (\<exists>received. (received, v) \<in> set (ur_headers round) \<and> name = to_ascii_lowercase received)"
    by (auto simp: body(3) view_headers_def list_ex_iff)
  ultimately show ?thesis using body(1,2) by simp
qed

definition sample_round :: upstream_round where
  "sample_round = \<lparr>ur_status = 200, ur_headers = [(''X-Api-Key'', ''k''), (''X-Id'', ''7'')], ur_body = [], ur_content_type = None\<rparr>"

definition sample_view_limits :: media_limits where
  "sample_view_limits = sample_part_limits\<lparr>ml_inline_string_bytes := 9\<rparr>"

definition sample_events :: "sse_event_fields list" where
  "sample_events = [\<lparr>sf_event = ''a'', sf_data = ''1''\<rparr>, \<lparr>sf_event = ''b'', sf_data = ''x''\<rparr>]"

theorem response_view_faithful_witness:
  "\<exists>shown v. build_view sample_round [] FormSse (Some sample_events) [] sample_view_limits =
       Ok (\<lparr>rv_status = 200, rv_headers = [(''x-id'', ''7'')], rv_body = BodySse shown\<rparr>, []) \<and>
     json_text v (ev_json shown) \<and>
     restore Map.empty (data_of v) =
       Items [Fields [(''event'', Text ''a''), (''data'', Plain ''1'')], Fields [(''event'', Text ''b''), (''data'', Text ''x'')]]"
proof -
  have parses: "json_parse ''1'' = Ok (Scalar ''1'')" "json_parse ''x'' = Err Syntax" by code_simp+
  obtain document where document: "sse_document sample_events = Ok document"
    by (simp add: sse_document_def sample_events_def event_data_def parses)
  let ?shown = "\<lparr>ev_json = document\<rparr>"
  have doc: "document = ''[{\"event\":\"a\",\"data\":1},{\"event\":\"b\",\"data\":\"x\"}]''"
    using document by (simp add: sse_document_def sample_events_def event_data_def parses write_string_def escape_char_def byte_in_def)
  have elided: "elide_v1 document [] sample_view_limits = Ok (?shown, [])" unfolding doc by code_simp
  have headers: "view_headers [] (ur_headers sample_round) = [(''x-id'', ''7'')]" by code_simp
  have built: "build_view sample_round [] FormSse (Some sample_events) [] sample_view_limits =
      Ok (\<lparr>rv_status = 200, rv_headers = [(''x-id'', ''7'')], rv_body = BodySse ?shown\<rparr>, [])"
    by (simp add: build_view_def headers success_body_def document elided Let_def) (simp add: sample_round_def)
  have "\<forall>es. Some sample_events = Some es \<longrightarrow> (\<forall>e \<in> set es. utf8_valid (sf_event e) \<and> utf8_valid (sf_data e) \<and>
      (\<forall>n. json_parse (sf_data e) = Ok n \<longrightarrow> json_depth n + 2 \<le> MAX_MEDIA_JSON_DEPTH))"
    by (auto simp: sample_events_def parses ascii_def MAX_MEDIA_JSON_DEPTH_def)
  from response_view_faithful [OF built _ this] obtain v where "json_text v (ev_json ?shown)"
    "restore Map.empty (data_of v) = Items (map event_fields sample_events)" by auto
  moreover have "map event_fields sample_events =
      [Fields [(''event'', Text ''a''), (''data'', Plain ''1'')], Fields [(''event'', Text ''b''), (''data'', Text ''x'')]]"
    by (simp add: sample_events_def event_fields_def parses)
  ultimately show ?thesis using built by (intro exI [of _ ?shown] exI [of _ v]) simp
qed

end
