(* ===== verification/Float64.thy ===== *)
theory Float64
  imports Prelude "HOL-Library.Log_Nat"
begin

text \<open>
  The arithmetic of \<open>f64\<close> the sources use: conversion from \<open>i64\<close>, multiplication, \<open>ceil\<close>, comparison
  with an integer and the saturating cast back. A finite double is an integer mantissa times a power
  of two; results are rounded to nearest, ties to even, as IEEE 754 and the language prescribe. The
  two zeros are one value: no operation here tells them apart.
\<close>

section \<open>Doubles\<close>

datatype f64 = NaN | Infinite bool | Finite int int

fun is_finite :: "f64 \<Rightarrow> bool" where
  "is_finite (Finite m e) = True"
| "is_finite _ = False"

text \<open>The comparison \<open>x < 0.0\<close>.\<close>

fun f64_negative :: "f64 \<Rightarrow> bool" where
  "f64_negative (Finite m e) = (m < 0)"
| "f64_negative (Infinite below) = below"
| "f64_negative NaN = False"

definition half_even :: "int \<Rightarrow> nat \<Rightarrow> int" where
  "half_even m k =
     (let q = m div 2 ^ k; r = 2 * (m mod 2 ^ k)
      in if r < 2 ^ k \<or> r = 2 ^ k \<and> even q then q else q + 1)"

text \<open>The double nearest to \<open>m * 2 ^ e\<close>, computed on magnitudes: 53 bits, no unit below \<open>2 ^ -1074\<close>, infinite from \<open>2 ^ 1024\<close>.\<close>

definition f64_nearest :: "int \<Rightarrow> int \<Rightarrow> int \<times> int" where
  "f64_nearest m e =
     (let k = max (bitlen m - 53) (- 1074 - e)
      in if k \<le> 0 then (m, e) else (half_even m (nat k), e + k))"

definition f64_round :: "int \<Rightarrow> int \<Rightarrow> f64" where
  "f64_round m e =
     (case f64_nearest \<bar>m\<bar> e of
        (q, e') \<Rightarrow> if q \<noteq> 0 \<and> 1024 < bitlen q + e' then Infinite (m < 0) else Finite (sgn m * q) e')"

fun f64_mul :: "f64 \<Rightarrow> f64 \<Rightarrow> f64" where
  "f64_mul (Finite m e) (Finite m' e') = f64_round (m * m') (e + e')"
| "f64_mul (Infinite a) (Finite m e) = (if m = 0 then NaN else Infinite (a \<noteq> (m < 0)))"
| "f64_mul (Finite m e) (Infinite a) = (if m = 0 then NaN else Infinite (a \<noteq> (m < 0)))"
| "f64_mul (Infinite a) (Infinite b) = Infinite (a \<noteq> b)"
| "f64_mul _ _ = NaN"

definition i64_as_f64 :: "int \<Rightarrow> f64" where
  "i64_as_f64 n = f64_round n 0"

fun f64_ceil :: "f64 \<Rightarrow> f64" where
  "f64_ceil (Finite m e) = (if 0 \<le> e then Finite m e else Finite (- (- m div 2 ^ nat (- e))) 0)"
| "f64_ceil x = x"

text \<open>The comparison \<open>x >= n\<close> with an integer that is a double.\<close>

fun f64_at_least :: "f64 \<Rightarrow> int \<Rightarrow> bool" where
  "f64_at_least (Finite m e) n = (if 0 \<le> e then n \<le> m * 2 ^ nat e else n * 2 ^ nat (- e) \<le> m)"
| "f64_at_least (Infinite below) n = (\<not> below)"
| "f64_at_least NaN n = False"

definition i64_saturate :: "int \<Rightarrow> int" where
  "i64_saturate v = max (- (2 ^ 63)) (min (2 ^ 63 - 1) v)"

fun f64_as_i64 :: "f64 \<Rightarrow> int" where
  "f64_as_i64 (Finite m e) =
     i64_saturate (if 0 \<le> e then m * 2 ^ nat e else sgn m * (\<bar>m\<bar> div 2 ^ nat (- e)))"
| "f64_as_i64 (Infinite below) = i64_saturate (if below then - (2 ^ 63) else 2 ^ 63)"
| "f64_as_i64 NaN = 0"

section \<open>Rounding error\<close>

definition scaled :: "int \<Rightarrow> int \<Rightarrow> real" where
  "scaled m e = of_int m * 2 powi e"

text \<open>Half the smallest positive double.\<close>

definition half_unit :: real where
  "half_unit = 2 powi (- 1075)"

lemma half_unit_pos: "0 < half_unit"
  unfolding half_unit_def by (rule zero_less_power_int) simp

lemma half_unit_le: "half_unit \<le> 1"
  unfolding half_unit_def using power_int_increasing [of "- 1075" 0 "2 :: real"] by simp

lemma scaled_nonneg: "0 \<le> m \<Longrightarrow> 0 \<le> scaled m e"
  by (simp add: scaled_def)

lemma scaled_mult: "scaled (m * m') (e + e') = scaled m e * scaled m' e'"
  by (simp add: scaled_def power_int_add)

lemma scaled_exponent: "scaled (m * 2 ^ k) e = scaled m (e + int k)"
  by (simp add: scaled_def power_int_add)

lemma scaled_int: "0 \<le> e \<Longrightarrow> scaled m e = of_int (m * 2 ^ nat e)"
  by (simp add: scaled_def power_int_def)

lemma scaled_fraction: "e < 0 \<Longrightarrow> scaled m e = of_int m / of_int (2 ^ nat (- e))"
  by (simp add: scaled_def power_int_def field_simps)

lemma half_even_nonneg: "0 \<le> m \<Longrightarrow> 0 \<le> half_even m k"
  by (simp add: half_even_def Let_def pos_imp_zdiv_nonneg_iff)

lemma half_even_error: "2 * \<bar>half_even m k * 2 ^ k - m\<bar> \<le> 2 ^ k"
proof -
  define r where "r = m mod 2 ^ k"
  have "m div 2 ^ k * 2 ^ k = m - r"
    unfolding r_def by (rule minus_mod_eq_div_mult [symmetric])
  then have "half_even m k * 2 ^ k - m = (if 2 * r < 2 ^ k \<or> 2 * r = 2 ^ k \<and> even (m div 2 ^ k) then - r else 2 ^ k - r)"
    by (simp add: half_even_def Let_def distrib_right r_def)
  moreover have "0 \<le> r" "r < 2 ^ k" by (simp_all add: r_def)
  ultimately show ?thesis by auto
qed

lemma half_even_scaled:
  "\<bar>scaled (half_even m k) (e + int k) - scaled m e\<bar> \<le> 2 powi (e + int k - 1)"
proof -
  have "scaled (half_even m k) (e + int k) - scaled m e = scaled (half_even m k * 2 ^ k - m) e"
    by (simp add: scaled_exponent [symmetric]) (simp add: scaled_def algebra_simps)
  also have "\<bar>\<dots>\<bar> = of_int \<bar>half_even m k * 2 ^ k - m\<bar> * 2 powi e"
    by (simp add: scaled_def abs_mult)
  also have "\<dots> \<le> 2 ^ k / 2 * 2 powi e"
  proof (rule mult_right_mono)
    have "real_of_int (2 * \<bar>half_even m k * 2 ^ k - m\<bar>) \<le> of_int (2 ^ k)"
      using half_even_error by (simp only: of_int_le_iff)
    then show "real_of_int \<bar>half_even m k * 2 ^ k - m\<bar> \<le> 2 ^ k / 2" by simp
  qed simp
  also have "\<dots> = 2 powi (e + int k - 1)"
    by (simp add: power_int_add power_int_diff)
  finally show ?thesis .
qed

text \<open>
  Rounding changes a value by at most one part in \<open>2 ^ 53\<close>, or by half the smallest unit when the value
  has bits below that unit.
\<close>

lemma f64_nearest_error:
  assumes m: "0 \<le> m" and near: "f64_nearest m e = (q, e')"
  shows "0 \<le> q"
    "\<bar>scaled q e' - scaled m e\<bar> \<le> scaled m e / 2 ^ 53 \<or> e < - 1074 \<and> \<bar>scaled q e' - scaled m e\<bar> \<le> half_unit"
proof -
  define k where "k = max (bitlen m - 53) (- 1074 - e)"
  have parts: "q = (if k \<le> 0 then m else half_even m (nat k))" "e' = (if k \<le> 0 then e else e + k)"
    using near by (auto simp: f64_nearest_def Let_def k_def split: if_splits)
  show "0 \<le> q" using m by (simp add: parts half_even_nonneg)
  show "\<bar>scaled q e' - scaled m e\<bar> \<le> scaled m e / 2 ^ 53 \<or> e < - 1074 \<and> \<bar>scaled q e' - scaled m e\<bar> \<le> half_unit"
  proof (cases "k \<le> 0 \<or> m = 0")
    case True
    then have "q = m \<and> e' = e \<or> q = 0 \<and> m = 0" by (auto simp: parts half_even_def)
    then show ?thesis using scaled_nonneg [OF m, of e] by (auto simp: scaled_def)
  next
    case False
    then have "0 < m" "0 < k" using m by auto
    then have q: "q = half_even m (nat k)" "e' = e + int (nat k)" by (auto simp: parts)
    have half: "\<bar>scaled q e' - scaled m e\<bar> \<le> 2 powi (e + k - 1)"
      using half_even_scaled [of m "nat k" e] \<open>0 < k\<close> by (simp add: q)
    show ?thesis
    proof (cases "bitlen m - 53 \<le> - 1074 - e")
      case True
      then have "e + k - 1 = - 1075" by (simp add: k_def)
      moreover have "e < - 1074" using True \<open>0 < k\<close> by (simp add: k_def)
      ultimately show ?thesis using half by (simp only: half_unit_def) simp
    next
      case False
      then have k: "k = bitlen m - 53" by (simp add: k_def)
      have "real_of_int (2 ^ nat (bitlen m - 1)) \<le> of_int m"
        using bitlen_bounds [OF \<open>0 < m\<close>] by (simp only: of_int_le_iff)
      then have "2 powi (bitlen m - 1) \<le> real_of_int m"
        using \<open>0 < k\<close> k by (simp add: power_int_def)
      then have "2 powi (bitlen m - 1) * 2 powi e \<le> scaled m e"
        unfolding scaled_def by (rule mult_right_mono) simp
      then have "2 powi (e + k - 1) * 2 ^ 53 \<le> scaled m e"
        by (simp add: k power_int_add power_int_diff power_int_numeral ac_simps)
      then show ?thesis using half by (simp add: field_simps)
    qed
  qed
qed

lemma f64_round_error:
  assumes "0 \<le> m" "f64_round m e = Finite q e'"
  shows "0 \<le> q"
    "\<bar>scaled q e' - scaled m e\<bar> \<le> scaled m e / 2 ^ 53 \<or> e < - 1074 \<and> \<bar>scaled q e' - scaled m e\<bar> \<le> half_unit"
proof -
  obtain q0 where near: "f64_nearest m e = (q0, e')" "q = sgn m * q0"
    using assms by (auto simp: f64_round_def split: prod.splits if_splits)
  note error = f64_nearest_error [OF assms(1) near(1)]
  show "0 \<le> q" using error(1) assms(1) by (cases "m = 0") (simp_all add: near(2))
  show "\<bar>scaled q e' - scaled m e\<bar> \<le> scaled m e / 2 ^ 53 \<or> e < - 1074 \<and> \<bar>scaled q e' - scaled m e\<bar> \<le> half_unit"
    using error(2) assms(1) by (cases "m = 0") (simp_all add: near(2) scaled_def)
qed

text \<open>A value well below the range is not rounded to an infinity, and 53 bits are kept.\<close>

lemma f64_round_finite:
  assumes m: "0 \<le> m" and small: "scaled m e \<le> 2 ^ 200"
  obtains q e' where "f64_round m e = Finite q e'"
proof -
  obtain q e' where near: "f64_nearest m e = (q, e')" by (cases "f64_nearest m e") auto
  note error = f64_nearest_error [OF m near]
  have "q = 0 \<or> bitlen q + e' \<le> 1024"
  proof (cases "q = 0")
    case False
    then have "0 < q" using error(1) by simp
    have "scaled q e' \<le> 2 ^ 201"
      using error(2) small half_unit_le by (elim disjE conjE) (drule abs_le_D1, simp)+
    moreover have "2 powi (bitlen q - 1) \<le> real_of_int q"
      using bitlen_bounds [OF \<open>0 < q\<close>] \<open>0 < q\<close> bitlen_eq_zero_iff [of q] bitlen_nonneg [of q]
      by (simp add: power_int_def of_int_power_le_of_int_cancel_iff)
    then have "2 powi (bitlen q - 1) * 2 powi e' \<le> scaled q e'"
      unfolding scaled_def by (rule mult_right_mono) simp
    ultimately have "(2 :: real) powi (bitlen q - 1 + e') \<le> 2 powi 201"
      by (simp add: power_int_add)
    then show ?thesis
      using power_int_strict_increasing [of 201 "bitlen q - 1 + e'" "2 :: real"] by fastforce
  qed simp
  then show thesis using that m near by (auto simp: f64_round_def)
qed

lemma f64_round_exact:
  assumes "0 \<le> m" "m < 2 ^ 53" "- 1074 \<le> e" "f64_round m e = Finite q e'"
  shows "q = m" "e' = e"
proof -
  have "bitlen m \<le> 53" using assms(2) by (simp add: bitlen_le_iff_power)
  then have "f64_nearest m e = (m, e)" using assms(3) by (simp add: f64_nearest_def)
  then show "q = m" "e' = e"
    using assms(1,4) by (cases "m = 0"; auto simp: f64_round_def split: if_splits)+
qed

section \<open>Integers again\<close>

lemma f64_ceil_int:
  obtains c f where "f64_ceil (Finite m e) = Finite c f" "0 \<le> f" "c * 2 ^ nat f = \<lceil>scaled m e\<rceil>"
proof (cases "0 \<le> e")
  case True
  then have "m * 2 ^ nat e = \<lceil>scaled m e\<rceil>" by (simp only: scaled_int ceiling_of_int)
  then show thesis using that [of m e] True by simp
next
  case False
  have "\<lceil>scaled m e\<rceil> = - (- m div 2 ^ nat (- e))"
    unfolding scaled_fraction [OF not_le_imp_less [OF False]] by (rule ceiling_divide_eq_div)
  then show thesis using that [of "- (- m div 2 ^ nat (- e))" 0] False by simp
qed

end
