(* ===== verification/Task_Facts.thy ===== *)
theory Task_Facts
  imports Float64 Transform Paths
begin

text \<open>
  \<open>south-contracts/src/task.rs\<close> and \<open>task_v2.rs\<close>: the values a task component and its host exchange.
  \<open>i64\<close> values are integers, \<open>u64\<close>, \<open>u32\<close> and \<open>usize\<close> values natural numbers, with every checked
  conversion written out. \<open>serde_json::Value\<close> is a datatype with the constructors of that enum; its
  parser, its number type and \<open>Value::pointer\<close> are parameters.
\<close>

section \<open>Version 1\<close>

definition TASK_CONTRACT_VERSION :: nat where
  "TASK_CONTRACT_VERSION = 9"

definition TASK_CONTRACT_VERSION_V8 :: nat where
  "TASK_CONTRACT_VERSION_V8 = 8"

definition TASK_CONTRACT_VERSION_V7 :: nat where
  "TASK_CONTRACT_VERSION_V7 = 7"

definition TASK_CONTRACT_VERSIONS :: "nat list" where
  "TASK_CONTRACT_VERSIONS = [TASK_CONTRACT_VERSION_V7, TASK_CONTRACT_VERSION_V8, TASK_CONTRACT_VERSION]"

definition MAX_TASK_ID_BYTES :: nat where
  "MAX_TASK_ID_BYTES = 128"

definition MAX_CALLBACK_URL_BYTES :: nat where
  "MAX_CALLBACK_URL_BYTES = 8 * 1024"

definition MAX_ARTIFACT_URLS :: nat where
  "MAX_ARTIFACT_URLS = 16"

definition MAX_ARTIFACT_REF_BYTES :: nat where
  "MAX_ARTIFACT_REF_BYTES = 8 * 1024"

datatype task_contract_error_v1 =
    EmptyTaskId | TaskIdTooLarge | TaskIdNotPrintableAscii | EmptyArtifactRef | ArtifactRefTooLarge
  | EmptyCallbackUrl | CallbackUrlTooLarge | CallbackUrlNotUrlSafe

definition is_ascii_graphic :: "byte \<Rightarrow> bool" where
  "is_ascii_graphic c \<longleftrightarrow> byte_in 33 126 c"

record host_minted_values =
  hm_task_id :: string
  hm_callback_url :: "string option"

definition host_minted_values_new ::
    "string \<Rightarrow> string option \<Rightarrow> (host_minted_values, task_contract_error_v1) result" where
  "host_minted_values_new task_id callback_url =
     (if task_id = [] then Err EmptyTaskId
      else if MAX_TASK_ID_BYTES < length task_id then Err TaskIdTooLarge
      else if \<not> list_all is_ascii_graphic task_id then Err TaskIdNotPrintableAscii
      else
        and_then
          (case callback_url of
             None \<Rightarrow> Ok ()
           | Some url \<Rightarrow>
               if url = [] then Err EmptyCallbackUrl
               else if MAX_CALLBACK_URL_BYTES < length url then Err CallbackUrlTooLarge
               else if \<not> list_all is_ascii_graphic url then Err CallbackUrlNotUrlSafe
               else Ok ()) (\<lambda>_.
        Ok \<lparr>hm_task_id = task_id, hm_callback_url = callback_url\<rparr>))"

datatype task_artifact_ref_v1 = UrlsV1 "string list" | FileIdV1 string | NoArtifactV1

fun artifact_urls_check :: "string list \<Rightarrow> (unit, task_contract_error_v1) result" where
  "artifact_urls_check [] = Ok ()"
| "artifact_urls_check (url # urls) =
     (if url = [] then Err EmptyArtifactRef
      else if MAX_ARTIFACT_REF_BYTES < length url then Err ArtifactRefTooLarge
      else artifact_urls_check urls)"

definition artifact_ref_v1_urls :: "string list \<Rightarrow> (task_artifact_ref_v1, task_contract_error_v1) result" where
  "artifact_ref_v1_urls urls =
     (if urls = [] then Err EmptyArtifactRef
      else if MAX_ARTIFACT_URLS < length urls then Err ArtifactRefTooLarge
      else and_then (artifact_urls_check urls) (\<lambda>_. Ok (UrlsV1 urls)))"

definition artifact_ref_v1_file_id :: "string \<Rightarrow> (task_artifact_ref_v1, task_contract_error_v1) result" where
  "artifact_ref_v1_file_id i =
     (if i = [] then Err EmptyArtifactRef
      else if MAX_ARTIFACT_REF_BYTES < length i then Err ArtifactRefTooLarge
      else Ok (FileIdV1 i))"

datatype task_meter = Seconds f64 | Tokens int | Milliunits int

datatype task_failure_kind = TaskFailed | TaskCancelled | ProviderExpired

definition TASK_FAILURE_KINDS :: "task_failure_kind list" where
  "TASK_FAILURE_KINDS = [TaskFailed, TaskCancelled, ProviderExpired]"

fun failure_kind_word :: "task_failure_kind \<Rightarrow> string" where
  "failure_kind_word TaskFailed = ''failed''"
| "failure_kind_word TaskCancelled = ''cancelled''"
| "failure_kind_word ProviderExpired = ''provider-expired''"

datatype task_observation_v1 =
    RunningV1 string | SucceededV1 task_artifact_ref_v1 "task_meter option"
  | FailedV1 task_failure_kind "string option" "string option" | UnknownV1 string

fun observation_is_terminal :: "task_observation_v1 \<Rightarrow> bool" where
  "observation_is_terminal (SucceededV1 _ _) = True"
| "observation_is_terminal (FailedV1 _ _ _) = True"
| "observation_is_terminal _ = False"

fun observation_state_word :: "task_observation_v1 \<Rightarrow> string" where
  "observation_state_word (RunningV1 _) = ''running''"
| "observation_state_word (SucceededV1 _ _) = ''succeeded''"
| "observation_state_word (FailedV1 _ _ _) = ''failed''"
| "observation_state_word (UnknownV1 _) = ''unknown''"

section \<open>Version 2: locators and immutable paths\<close>

datatype task_contract_error_v2 =
    UnsupportedLocatorSchema | InvalidLocator | InvalidUsage | InvalidScalar | InvalidArtifact
  | InvalidRenderContext | InvalidRequestEstimate | InvalidObservation | InvalidImmutableBodyPaths
  | InvalidArtifactRole | InlineArtifactUnresolved | ReferenceIntegrity

definition TASK_LOCATOR_SCHEMA_VERSION :: nat where
  "TASK_LOCATOR_SCHEMA_VERSION = 1"

definition MAX_IMMUTABLE_BODY_PATHS :: nat where
  "MAX_IMMUTABLE_BODY_PATHS = 64"

definition MAX_IMMUTABLE_BODY_PATH_BYTES :: nat where
  "MAX_IMMUTABLE_BODY_PATH_BYTES = 256"

definition body_path_segment :: "string \<Rightarrow> bool" where
  "body_path_segment segment \<longleftrightarrow>
     segment \<noteq> [] \<and> list_all (\<lambda>b. is_ascii_alphanumeric b \<or> b = CHR ''_'' \<or> b = CHR ''-'') segment"

definition validate_immutable_body_paths :: "string list \<Rightarrow> (unit, task_contract_error_v2) result" where
  "validate_immutable_body_paths paths =
     (if length paths \<le> MAX_IMMUTABLE_BODY_PATHS \<and>
         list_all (\<lambda>(index, path). length path \<le> MAX_IMMUTABLE_BODY_PATH_BYTES \<and>
           list_all body_path_segment (split_on (CHR ''.'') path) \<and> path \<notin> set (take index paths))
           (enumerate 0 paths)
      then Ok () else Err InvalidImmutableBodyPaths)"

record task_locator =
  tl_route :: relative_path

definition task_locator_new :: "nat \<Rightarrow> string \<Rightarrow> (task_locator, task_contract_error_v2) result" where
  "task_locator_new schema_version route =
     (if schema_version \<noteq> TASK_LOCATOR_SCHEMA_VERSION then Err UnsupportedLocatorSchema
      else and_then (map_err (\<lambda>_. InvalidLocator) (relative_path_parse route)) (\<lambda>route.
        Ok \<lparr>tl_route = route\<rparr>))"

section \<open>Token buckets\<close>

datatype task_token_bucket =
    TextInput | ImageInput | AudioInput | VideoInput | CachedTextInput | CachedImageInput | CachedInput
  | TextOutput | ImageOutput | AudioOutput | VideoOutput | ReasoningOutput | TotalInput | TotalOutput

definition TOKEN_BUCKETS :: "task_token_bucket list" where
  "TOKEN_BUCKETS =
     [TextInput, ImageInput, AudioInput, VideoInput, CachedTextInput, CachedImageInput, CachedInput,
      TextOutput, ImageOutput, AudioOutput, VideoOutput, ReasoningOutput, TotalInput, TotalOutput]"

fun bucket_word :: "task_token_bucket \<Rightarrow> string" where
  "bucket_word TextInput = ''text_input''"
| "bucket_word ImageInput = ''image_input''"
| "bucket_word AudioInput = ''audio_input''"
| "bucket_word VideoInput = ''video_input''"
| "bucket_word CachedTextInput = ''cached_text_input''"
| "bucket_word CachedImageInput = ''cached_image_input''"
| "bucket_word CachedInput = ''cached_input''"
| "bucket_word TextOutput = ''text_output''"
| "bucket_word ImageOutput = ''image_output''"
| "bucket_word AudioOutput = ''audio_output''"
| "bucket_word VideoOutput = ''video_output''"
| "bucket_word ReasoningOutput = ''reasoning_output''"
| "bucket_word TotalInput = ''total_input''"
| "bucket_word TotalOutput = ''total_output''"

definition bucket_from_word :: "string \<Rightarrow> task_token_bucket option" where
  "bucket_from_word word = find (\<lambda>bucket. bucket_word bucket = word) TOKEN_BUCKETS"

text \<open>The cast of a variant to its discriminant.\<close>

fun bucket_slot :: "task_token_bucket \<Rightarrow> nat" where
  "bucket_slot TextInput = 0"
| "bucket_slot ImageInput = 1"
| "bucket_slot AudioInput = 2"
| "bucket_slot VideoInput = 3"
| "bucket_slot CachedTextInput = 4"
| "bucket_slot CachedImageInput = 5"
| "bucket_slot CachedInput = 6"
| "bucket_slot TextOutput = 7"
| "bucket_slot ImageOutput = 8"
| "bucket_slot AudioOutput = 9"
| "bucket_slot VideoOutput = 10"
| "bucket_slot ReasoningOutput = 11"
| "bucket_slot TotalInput = 12"
| "bucket_slot TotalOutput = 13"

record task_token_buckets =
  tb_counts :: "nat option list"

definition i64_max :: nat where
  "i64_max = 2 ^ 63 - 1"

fun buckets_collect ::
    "nat option list \<Rightarrow> (task_token_bucket \<times> nat) list \<Rightarrow> (nat option list, task_contract_error_v2) result" where
  "buckets_collect counts [] = Ok counts"
| "buckets_collect counts ((bucket, n) # entries) =
     (if counts ! bucket_slot bucket \<noteq> None \<or> i64_max < n then Err InvalidUsage
      else buckets_collect (counts[bucket_slot bucket := Some n]) entries)"

definition token_buckets_new ::
    "(task_token_bucket \<times> nat) list \<Rightarrow> (task_token_buckets, task_contract_error_v2) result" where
  "token_buckets_new entries =
     and_then (buckets_collect (replicate 14 None) entries) (\<lambda>counts.
       if list_all (\<lambda>c. c = None) counts then Err InvalidUsage else Ok \<lparr>tb_counts = counts\<rparr>)"

definition token_buckets_get :: "task_token_buckets \<Rightarrow> task_token_bucket \<Rightarrow> nat option" where
  "token_buckets_get buckets bucket = tb_counts buckets ! bucket_slot bucket"

definition token_buckets_iter :: "task_token_buckets \<Rightarrow> (task_token_bucket \<times> nat) list" where
  "token_buckets_iter buckets =
     List.map_filter (\<lambda>bucket. map_option (Pair bucket) (token_buckets_get buckets bucket)) TOKEN_BUCKETS"

section \<open>Usage\<close>

record task_usage_facts =
  tu_seconds :: "f64 option"
  tu_milliunits :: "int option"
  tu_tokens :: "int option"
  tu_outputs :: "nat option"
  tu_token_buckets :: "task_token_buckets option"

abbreviation is_some_and :: "'a option \<Rightarrow> ('a \<Rightarrow> bool) \<Rightarrow> bool" where
  "is_some_and x P \<equiv> (case x of None \<Rightarrow> False | Some v \<Rightarrow> P v)"

definition usage_facts_new ::
    "f64 option \<Rightarrow> int option \<Rightarrow> int option \<Rightarrow> (task_usage_facts, task_contract_error_v2) result" where
  "usage_facts_new seconds milliunits tokens =
     (if is_some_and seconds (\<lambda>v. \<not> is_finite v \<or> f64_negative v) \<or> is_some_and milliunits (\<lambda>v. v < 0) \<or>
         is_some_and tokens (\<lambda>v. v < 0)
      then Err InvalidUsage
      else Ok \<lparr>tu_seconds = seconds, tu_milliunits = milliunits, tu_tokens = tokens, tu_outputs = None,
               tu_token_buckets = None\<rparr>)"

definition usage_with_token_buckets ::
    "task_usage_facts \<Rightarrow> task_token_buckets option \<Rightarrow> (task_usage_facts, task_contract_error_v2) result" where
  "usage_with_token_buckets usage buckets =
     (if buckets \<noteq> None \<and> tu_tokens usage \<noteq> None then Err InvalidUsage
      else Ok (usage\<lparr>tu_token_buckets := buckets\<rparr>))"

text \<open>\<open>u32::try_from\<close> of an \<open>i64\<close>, and an optional value whose conversion may be refused.\<close>

definition u32_try_from :: "int \<Rightarrow> nat option" where
  "u32_try_from n = (if 0 \<le> n \<and> n < 2 ^ 32 then Some (nat n) else None)"

fun transposed :: "('a \<Rightarrow> ('b, 'e) result) \<Rightarrow> 'a option \<Rightarrow> ('b option, 'e) result" where
  "transposed f None = Ok None"
| "transposed f (Some a) = and_then (f a) (\<lambda>b. Ok (Some b))"

definition usage_with_outputs ::
    "task_usage_facts \<Rightarrow> int option \<Rightarrow> (task_usage_facts, task_contract_error_v2) result" where
  "usage_with_outputs usage outputs =
     and_then (transposed (\<lambda>n. ok_or (u32_try_from n) InvalidUsage) outputs) (\<lambda>outputs.
       Ok (usage\<lparr>tu_outputs := outputs\<rparr>))"

section \<open>Artifacts\<close>

datatype task_scalar = ScalarNull | ScalarString string | ScalarSigned int | ScalarUnsigned nat | ScalarFloat f64

fun task_scalar_validate :: "task_scalar \<Rightarrow> (unit, task_contract_error_v2) result" where
  "task_scalar_validate (ScalarString v) =
     (if MAX_ARTIFACT_REF_BYTES < length v then Err InvalidScalar else Ok ())"
| "task_scalar_validate (ScalarFloat v) = (if \<not> is_finite v then Err InvalidScalar else Ok ())"
| "task_scalar_validate _ = Ok ()"

datatype task_artifact_role = Primary | LastFrame

definition ARTIFACT_ROLES :: "task_artifact_role list" where
  "ARTIFACT_ROLES = [Primary, LastFrame]"

fun role_word :: "task_artifact_role \<Rightarrow> string option" where
  "role_word Primary = None"
| "role_word LastFrame = Some ''last_frame''"

definition role_from_word :: "string option \<Rightarrow> (task_artifact_role, task_contract_error_v2) result" where
  "role_from_word word = ok_or (find (\<lambda>role. role_word role = word) ARTIFACT_ROLES) InvalidArtifactRole"

definition role_is_primary :: "task_artifact_role \<Rightarrow> bool" where
  "role_is_primary role \<longleftrightarrow> role = Primary"

record task_artifact =
  ta_url :: string
  ta_id :: task_scalar
  ta_duration :: task_scalar
  ta_fetch_with_credential :: bool
  ta_role :: task_artifact_role

definition task_artifact_new ::
    "string \<Rightarrow> task_scalar \<Rightarrow> task_scalar \<Rightarrow> (task_artifact, task_contract_error_v2) result" where
  "task_artifact_new url i duration =
     (if url = [] \<or> MAX_ARTIFACT_REF_BYTES < length url then Err InvalidArtifact
      else
        and_then (task_scalar_validate i) (\<lambda>_.
        and_then (task_scalar_validate duration) (\<lambda>_.
          Ok \<lparr>ta_url = url, ta_id = i, ta_duration = duration, ta_fetch_with_credential = False, ta_role = Primary\<rparr>)))"

definition artifact_with_role :: "task_artifact \<Rightarrow> task_artifact_role \<Rightarrow> task_artifact" where
  "artifact_with_role artifact role = artifact\<lparr>ta_role := role\<rparr>"

definition artifact_with_bound_credential :: "task_artifact \<Rightarrow> task_artifact" where
  "artifact_with_bound_credential artifact = artifact\<lparr>ta_fetch_with_credential := True\<rparr>"

definition MAX_VECTOR_POINTER_BYTES :: nat where
  "MAX_VECTOR_POINTER_BYTES = 256"

record json_pointer =
  jp_text :: string

text \<open>Of the errors of \<open>embeddings.rs\<close>, the one the pointer grammar raises.\<close>

datatype embeddings_contract_error = InvalidPointer

definition json_pointer_parse :: "string \<Rightarrow> (json_pointer, embeddings_contract_error) result" where
  "json_pointer_parse pointer =
     (if MAX_VECTOR_POINTER_BYTES < length pointer \<or> \<not> (pointer = [] \<or> starts_with ''/'' pointer) \<or>
         \<not> list_all (\<lambda>rest. starts_with ''0'' rest \<or> starts_with ''1'' rest) (drop 1 (split_on (CHR ''~'') pointer))
      then Err InvalidPointer else Ok \<lparr>jp_text = pointer\<rparr>)"

datatype artifact_encoding = EncodingBase64 | EncodingDataUrl

record task_inline_artifact =
  ti_pointer :: json_pointer
  ti_encoding :: artifact_encoding
  ti_media_type :: string
  ti_role :: task_artifact_role

definition inline_artifact_new ::
    "string \<Rightarrow> artifact_encoding \<Rightarrow> string \<Rightarrow> (task_inline_artifact, task_contract_error_v2) result" where
  "inline_artifact_new pointer encoding media_type =
     (case json_pointer_parse pointer of
        Err _ \<Rightarrow> Err InvalidArtifact
      | Ok parsed \<Rightarrow>
          if jp_text parsed = [] then Err InvalidArtifact
          else if \<not> is_media_type media_type then Err InvalidArtifact
          else Ok \<lparr>ti_pointer = parsed, ti_encoding = encoding, ti_media_type = media_type, ti_role = Primary\<rparr>)"

definition inline_with_role :: "task_inline_artifact \<Rightarrow> task_artifact_role \<Rightarrow> task_inline_artifact" where
  "inline_with_role artifact role = artifact\<lparr>ti_role := role\<rparr>"

datatype task_artifact_ref =
    ArtifactUrls "task_artifact list" | ArtifactFileId string | NoArtifact
  | ArtifactInline "task_inline_artifact list"

fun primary_count :: "task_artifact_ref \<Rightarrow> nat" where
  "primary_count (ArtifactUrls items) = length (filter (\<lambda>item. role_is_primary (ta_role item)) items)"
| "primary_count (ArtifactInline items) = length (filter (\<lambda>item. role_is_primary (ti_role item)) items)"
| "primary_count (ArtifactFileId _) = 1"
| "primary_count NoArtifact = 0"

fun artifact_ref_validate :: "task_artifact_ref \<Rightarrow> (unit, task_contract_error_v2) result" where
  "artifact_ref_validate (ArtifactUrls items) =
     (if items = [] \<or> MAX_ARTIFACT_URLS < length items \<or> \<not> list_ex (\<lambda>item. role_is_primary (ta_role item)) items
      then Err InvalidArtifact else Ok ())"
| "artifact_ref_validate (ArtifactFileId i) =
     (if i = [] \<or> MAX_ARTIFACT_REF_BYTES < length i then Err InvalidArtifact else Ok ())"
| "artifact_ref_validate (ArtifactInline items) =
     (if items = [] \<or> MAX_ARTIFACT_URLS < length items \<or> \<not> list_ex (\<lambda>item. role_is_primary (ti_role item)) items \<or>
         list_ex (\<lambda>(index, item). list_ex (\<lambda>earlier. ti_pointer earlier = ti_pointer item) (take index items))
           (enumerate 0 items)
      then Err InvalidArtifact else Ok ())"
| "artifact_ref_validate NoArtifact = Ok ()"

definition artifact_ref_urls :: "task_artifact list \<Rightarrow> (task_artifact_ref, task_contract_error_v2) result" where
  "artifact_ref_urls items = and_then (artifact_ref_validate (ArtifactUrls items)) (\<lambda>_. Ok (ArtifactUrls items))"

definition artifact_ref_inline :: "task_inline_artifact list \<Rightarrow> (task_artifact_ref, task_contract_error_v2) result" where
  "artifact_ref_inline items = and_then (artifact_ref_validate (ArtifactInline items)) (\<lambda>_. Ok (ArtifactInline items))"

definition artifact_ref_file_id :: "string \<Rightarrow> (task_artifact_ref, task_contract_error_v2) result" where
  "artifact_ref_file_id i = and_then (artifact_ref_validate (ArtifactFileId i)) (\<lambda>_. Ok (ArtifactFileId i))"

section \<open>Observations and render contexts\<close>

datatype task_failure_category = ContentPolicy | UpstreamTimeout

definition FAILURE_CATEGORIES :: "task_failure_category list" where
  "FAILURE_CATEGORIES = [ContentPolicy, UpstreamTimeout]"

fun failure_category_word :: "task_failure_category \<Rightarrow> string" where
  "failure_category_word ContentPolicy = ''content_policy''"
| "failure_category_word UpstreamTimeout = ''upstream_timeout''"

datatype task_observation_v2 =
    ObservedProgress bool string | ObservedSuccess task_artifact_ref task_usage_facts
  | ObservedFailure task_failure_kind "string option" "string option" "task_failure_category option"
  | ObservedUnknown string

abbreviation is_none_or :: "'a option \<Rightarrow> ('a \<Rightarrow> bool) \<Rightarrow> bool" where
  "is_none_or x P \<equiv> (case x of None \<Rightarrow> True | Some v \<Rightarrow> P v)"

definition bounded_text :: "string \<Rightarrow> bool" where
  "bounded_text s \<longleftrightarrow> length s \<le> MAX_ARTIFACT_REF_BYTES"

fun observation_validate :: "task_observation_v2 \<Rightarrow> (unit, task_contract_error_v2) result" where
  "observation_validate (ObservedProgress running status_word) =
     (if bounded_text status_word then Ok () else Err InvalidObservation)"
| "observation_validate (ObservedSuccess artifacts usage) = artifact_ref_validate artifacts"
| "observation_validate (ObservedFailure kind code message category) =
     (if is_none_or code bounded_text \<and> is_none_or message bounded_text then Ok () else Err InvalidObservation)"
| "observation_validate (ObservedUnknown reason) =
     (if bounded_text reason then Ok () else Err InvalidObservation)"

text \<open>\<open>s.chars().any(char::is_control)\<close> on UTF-8: the code points below 32 and from 127 to 159.\<close>

definition control_byte :: "byte \<Rightarrow> bool" where
  "control_byte c \<longleftrightarrow> byte_in 0 31 c \<or> c = CHR 0x7F"

fun has_control :: "string \<Rightarrow> bool" where
  "has_control [] = False"
| "has_control [c] = control_byte c"
| "has_control (c # d # s) =
     (control_byte c \<or> c = CHR 0xC2 \<and> byte_in 0x80 0x9F d \<or> has_control (d # s))"

record task_render_context =
  tr_task_id :: string
  tr_created :: int
  tr_model :: string
  tr_provider :: string
  tr_upstream_task_id :: "string option"

definition render_text :: "string \<Rightarrow> bool" where
  "render_text s \<longleftrightarrow> s \<noteq> [] \<and> length s \<le> MAX_ARTIFACT_REF_BYTES \<and> \<not> has_control s"

definition render_context_new ::
    "string \<Rightarrow> int \<Rightarrow> string \<Rightarrow> string \<Rightarrow> string option \<Rightarrow> (task_render_context, task_contract_error_v2) result" where
  "render_context_new task_id created model provider upstream_task_id =
     and_then (map_err (\<lambda>_. InvalidRenderContext) (host_minted_values_new task_id None)) (\<lambda>_.
       if \<not> render_text model \<or> \<not> render_text provider \<or> is_some_and upstream_task_id (\<lambda>i. \<not> render_text i)
       then Err InvalidRenderContext
       else Ok \<lparr>tr_task_id = task_id, tr_created = created, tr_model = model, tr_provider = provider,
                tr_upstream_task_id = upstream_task_id\<rparr>)"

section \<open>Request estimates\<close>

record task_request_estimate =
  te_requested_seconds :: "f64 option"
  te_milliunits_per_second :: "int option"
  te_resolution :: "string option"
  te_input_image_count :: "nat option"
  te_tokens_per_second :: "int option"
  te_requested_outputs :: "nat option"
  te_bucket_ceilings :: "task_token_buckets option"

definition request_estimate_new ::
    "f64 option \<Rightarrow> int option \<Rightarrow> (task_request_estimate, task_contract_error_v2) result" where
  "request_estimate_new requested_seconds milliunits_per_second =
     (if is_some_and requested_seconds (\<lambda>v. \<not> is_finite v \<or> f64_negative v) \<or>
         is_some_and milliunits_per_second (\<lambda>rate. rate < 0)
      then Err InvalidRequestEstimate
      else Ok \<lparr>te_requested_seconds = requested_seconds, te_milliunits_per_second = milliunits_per_second,
               te_resolution = None, te_input_image_count = None, te_tokens_per_second = None,
               te_requested_outputs = None, te_bucket_ceilings = None\<rparr>)"

definition estimate_with_bucket_ceilings ::
    "task_request_estimate \<Rightarrow> task_token_buckets option \<Rightarrow> task_request_estimate" where
  "estimate_with_bucket_ceilings estimate ceilings = estimate\<lparr>te_bucket_ceilings := ceilings\<rparr>"

definition estimate_with_output_facts ::
    "task_request_estimate \<Rightarrow> int option \<Rightarrow> int option \<Rightarrow> (task_request_estimate, task_contract_error_v2) result" where
  "estimate_with_output_facts estimate tokens_per_second requested_outputs =
     (if is_some_and tokens_per_second (\<lambda>rate. rate < 0) then Err InvalidRequestEstimate
      else
        and_then
          (transposed (\<lambda>n. case u32_try_from n of
               None \<Rightarrow> Err InvalidRequestEstimate
             | Some c \<Rightarrow> if 1 \<le> c then Ok c else Err InvalidRequestEstimate) requested_outputs) (\<lambda>outputs.
        Ok (estimate\<lparr>te_requested_outputs := outputs, te_tokens_per_second := tokens_per_second\<rparr>)))"

definition estimate_with_input_facts ::
    "task_request_estimate \<Rightarrow> string option \<Rightarrow> nat option \<Rightarrow> (task_request_estimate, task_contract_error_v2) result" where
  "estimate_with_input_facts estimate resolution input_image_count =
     (if is_some_and resolution (\<lambda>v. v = [] \<or> 32 < length v \<or> \<not> list_all is_ascii_alphanumeric v)
      then Err InvalidRequestEstimate
      else Ok (estimate\<lparr>te_resolution := resolution, te_input_image_count := input_image_count\<rparr>))"

definition estimate_at_rate :: "int option \<Rightarrow> f64 \<Rightarrow> (int option, task_contract_error_v2) result" where
  "estimate_at_rate rate host_seconds =
     (if \<not> is_finite host_seconds \<or> f64_negative host_seconds then Err InvalidRequestEstimate
      else
        (case rate of
           None \<Rightarrow> Ok None
         | Some rate \<Rightarrow>
             let estimate = f64_ceil (f64_mul (i64_as_f64 rate) host_seconds)
             in if \<not> is_finite estimate \<or> f64_at_least estimate 9223372036854775808
                then Err InvalidRequestEstimate
                else Ok (Some (f64_as_i64 estimate))))"

definition estimate_tokens :: "task_request_estimate \<Rightarrow> f64 \<Rightarrow> (int option, task_contract_error_v2) result" where
  "estimate_tokens estimate host_seconds = estimate_at_rate (te_tokens_per_second estimate) host_seconds"

definition estimate_milliunits :: "task_request_estimate \<Rightarrow> f64 \<Rightarrow> (int option, task_contract_error_v2) result" where
  "estimate_milliunits estimate host_seconds = estimate_at_rate (te_milliunits_per_second estimate) host_seconds"

section \<open>Inline artifacts and markers\<close>

datatype 'n serde_value =
    ValueNull | ValueBool bool | ValueNumber 'n | ValueString string | ValueArray "'n serde_value list"
  | ValueObject "(string \<times> 'n serde_value) list"

definition BLOB_KEY :: string where
  "BLOB_KEY = ''$south.blob''"

definition ARTIFACT_KEY :: string where
  "ARTIFACT_KEY = ''$south.artifact''"

fun value_as_object :: "'n serde_value \<Rightarrow> (string \<times> 'n serde_value) list option" where
  "value_as_object (ValueObject members) = Some members"
| "value_as_object _ = None"

fun value_as_str :: "'n serde_value \<Rightarrow> string option" where
  "value_as_str (ValueString s) = Some s"
| "value_as_str _ = None"

fun value_get :: "'n serde_value \<Rightarrow> string \<Rightarrow> 'n serde_value option" where
  "value_get (ValueObject members) key = map_of members key"
| "value_get _ key = None"

text \<open>\<open>rd\<close> is \<open>serde_json::from_str\<close> and \<open>pointer\<close> is \<open>Value::pointer\<close>.\<close>

definition resolve_task_inline_artifact_v1 ::
    "(string \<Rightarrow> 'n serde_value option) \<Rightarrow> ('n serde_value \<Rightarrow> string \<Rightarrow> 'n serde_value option)
      \<Rightarrow> string \<Rightarrow> blob_set \<Rightarrow> task_inline_artifact \<Rightarrow> nat \<Rightarrow> (bytes, task_contract_error_v2) result" where
  "resolve_task_inline_artifact_v1 rd pointer view blobs artifact max_bytes =
     and_then (ok_or (rd view) InlineArtifactUnresolved) (\<lambda>view.
     and_then (ok_or (Option.bind (pointer view (jp_text (ti_pointer artifact))) value_as_object)
       InlineArtifactUnresolved) (\<lambda>node.
     and_then
       (case node of
          [(key, placeholder)] \<Rightarrow> if key = BLOB_KEY then Ok placeholder else Err InlineArtifactUnresolved
        | _ \<Rightarrow> Err InlineArtifactUnresolved) (\<lambda>blob.
     and_then
       (case Option.bind (value_get blob ''id'') value_as_str of
          None \<Rightarrow> Err InlineArtifactUnresolved
        | Some i \<Rightarrow> map_err (\<lambda>_. InlineArtifactUnresolved) (blob_id_parse i)) (\<lambda>i.
     and_then
       (case blob_set_get blobs i of
          None \<Rightarrow> Err InlineArtifactUnresolved
        | Some found \<Rightarrow> if bl_text found then Ok found else Err InlineArtifactUnresolved) (\<lambda>found.
     and_then
       (if utf8_valid (bl_bytes found) then Ok (bl_bytes found) else Err InlineArtifactUnresolved) (\<lambda>encoded.
     and_then
       (case ti_encoding artifact of
          EncodingBase64 \<Rightarrow> map_err (\<lambda>_. InlineArtifactUnresolved) (decode_base64 encoded)
        | EncodingDataUrl \<Rightarrow>
            map_err (\<lambda>_. InlineArtifactUnresolved) (and_then (parse_data_url_v1 encoded) (\<lambda>(_, b). Ok b))) (\<lambda>decoded.
       if decoded = [] \<or> max_bytes < length decoded then Err InlineArtifactUnresolved else Ok decoded)))))))"

text \<open>\<open>as_u64\<close> is \<open>Number::as_u64\<close>; the bound is \<open>usize::try_from\<close>.\<close>

definition marker_index ::
    "('n \<Rightarrow> nat option) \<Rightarrow> (string \<times> 'n serde_value) list \<Rightarrow> nat \<Rightarrow> nat option" where
  "marker_index as_u64 node primaries =
     Option.bind (map_of node ARTIFACT_KEY) (\<lambda>marker.
     Option.bind (value_as_object marker) (\<lambda>marker.
     Option.bind (map_of marker ''index'') (\<lambda>number.
     Option.bind (case number of ValueNumber n \<Rightarrow> as_u64 n | _ \<Rightarrow> None) (\<lambda>index.
       if index \<le> usize_max \<and> length node = 1 \<and> length marker = 1 \<and> index < primaries then Some index else None))))"

text \<open>\<open>visit\<close>: the node as it is left, the count, and whether it was refused.\<close>

fun fill_visit :: "('n \<Rightarrow> nat option) \<Rightarrow> nat \<Rightarrow> (nat \<Rightarrow> string) \<Rightarrow> 'n serde_value \<Rightarrow> nat
      \<Rightarrow> 'n serde_value \<times> nat \<times> (unit, task_contract_error_v2) result"
  and fill_items :: "('n \<Rightarrow> nat option) \<Rightarrow> nat \<Rightarrow> (nat \<Rightarrow> string) \<Rightarrow> 'n serde_value list \<Rightarrow> nat
      \<Rightarrow> 'n serde_value list \<times> nat \<times> (unit, task_contract_error_v2) result"
  and fill_members :: "('n \<Rightarrow> nat option) \<Rightarrow> nat \<Rightarrow> (nat \<Rightarrow> string) \<Rightarrow> (string \<times> 'n serde_value) list \<Rightarrow> nat
      \<Rightarrow> (string \<times> 'n serde_value) list \<times> nat \<times> (unit, task_contract_error_v2) result" where
  "fill_visit as_u64 primaries path_of (ValueArray items) filled =
     (case fill_items as_u64 primaries path_of items filled of (items, filled, r) \<Rightarrow> (ValueArray items, filled, r))"
| "fill_visit as_u64 primaries path_of (ValueObject members) filled =
     (if ARTIFACT_KEY \<in> fst ` set members then
        (case marker_index as_u64 members primaries of
           None \<Rightarrow> (ValueObject members, filled, Err ReferenceIntegrity)
         | Some index \<Rightarrow> (ValueString (path_of index), filled + 1, Ok ()))
      else if list_ex (\<lambda>(key, _). starts_with RESERVED_KEY_PREFIX key) members
        then (ValueObject members, filled, Err ReferenceIntegrity)
      else
        (case fill_members as_u64 primaries path_of members filled of
           (members, filled, r) \<Rightarrow> (ValueObject members, filled, r)))"
| "fill_visit as_u64 primaries path_of node filled = (node, filled, Ok ())"
| "fill_items as_u64 primaries path_of [] filled = ([], filled, Ok ())"
| "fill_items as_u64 primaries path_of (item # items) filled =
     (case fill_visit as_u64 primaries path_of item filled of
        (item, filled, Err e) \<Rightarrow> (item # items, filled, Err e)
      | (item, filled, Ok _) \<Rightarrow>
          (case fill_items as_u64 primaries path_of items filled of (items, filled, r) \<Rightarrow> (item # items, filled, r)))"
| "fill_members as_u64 primaries path_of [] filled = ([], filled, Ok ())"
| "fill_members as_u64 primaries path_of ((key, v) # members) filled =
     (case fill_visit as_u64 primaries path_of v filled of
        (v, filled, Err e) \<Rightarrow> ((key, v) # members, filled, Err e)
      | (v, filled, Ok _) \<Rightarrow>
          (case fill_members as_u64 primaries path_of members filled of
             (members, filled, r) \<Rightarrow> ((key, v) # members, filled, r)))"

definition fill_task_artifact_markers_v1 ::
    "('n \<Rightarrow> nat option) \<Rightarrow> 'n serde_value \<Rightarrow> task_artifact_ref \<Rightarrow> (nat \<Rightarrow> string)
      \<Rightarrow> 'n serde_value \<times> (nat, task_contract_error_v2) result" where
  "fill_task_artifact_markers_v1 as_u64 render artifacts path_of =
     (case artifact_ref_validate artifacts of
        Err e \<Rightarrow> (render, Err e)
      | Ok _ \<Rightarrow>
          (case fill_visit as_u64 (primary_count artifacts) path_of render 0 of
             (render, filled, r) \<Rightarrow> (render, and_then r (\<lambda>_. Ok filled))))"

section \<open>Token buckets hold what was reported\<close>

lemma bucket_slot_less [simp]: "bucket_slot b < 14"
  by (cases b) simp_all

lemma bucket_slot_nth: "TOKEN_BUCKETS ! bucket_slot b = b"
  by (cases b) (simp_all add: TOKEN_BUCKETS_def)

lemma bucket_slot_inj [simp]: "bucket_slot a = bucket_slot b \<longleftrightarrow> a = b"
  using bucket_slot_nth by metis

lemma TOKEN_BUCKETS_slots: "map bucket_slot TOKEN_BUCKETS = [0..<14]"
  by (simp add: TOKEN_BUCKETS_def upt_rec)

lemma set_TOKEN_BUCKETS [simp]: "set TOKEN_BUCKETS = UNIV"
proof -
  have "b \<in> set TOKEN_BUCKETS" for b by (cases b) (simp_all add: TOKEN_BUCKETS_def)
  then show ?thesis by auto
qed

lemma buckets_collect_Ok:
  assumes "buckets_collect counts entries = Ok counts'" "length counts = 14"
  shows "length counts' = 14"
    "counts' ! bucket_slot b = (case map_of entries b of None \<Rightarrow> counts ! bucket_slot b | Some n \<Rightarrow> Some n)"
proof -
  have "length counts' = 14 \<and>
      counts' ! bucket_slot b = (case map_of entries b of None \<Rightarrow> counts ! bucket_slot b | Some n \<Rightarrow> Some n) \<and>
      (counts ! bucket_slot b \<noteq> None \<longrightarrow> map_of entries b = None)"
    using assms
  proof (induction counts entries rule: buckets_collect.induct)
    case (2 counts bucket n entries)
    then show ?case
      by (cases "b = bucket") (auto simp: nth_list_update split: option.splits if_splits)
  qed auto
  then show "length counts' = 14"
    "counts' ! bucket_slot b = (case map_of entries b of None \<Rightarrow> counts ! bucket_slot b | Some n \<Rightarrow> Some n)"
    by simp_all
qed

lemma buckets_collect_accepts:
  assumes "length counts = 14"
  shows "(\<exists>counts'. buckets_collect counts entries = Ok counts') \<longleftrightarrow>
    distinct (map fst entries) \<and> list_all (\<lambda>(b, n). counts ! bucket_slot b = None \<and> n \<le> i64_max) entries"
  using assms
proof (induction counts entries rule: buckets_collect.induct)
  case (2 counts bucket n entries)
  have fresh: "list_all (\<lambda>(b, n). counts[bucket_slot bucket := Some n0] ! bucket_slot b = None \<and> n \<le> i64_max) entries \<longleftrightarrow>
      bucket \<notin> fst ` set entries \<and> list_all (\<lambda>(b, n). counts ! bucket_slot b = None \<and> n \<le> i64_max) entries" for n0
    using "2.prems" by (force simp: list_all_iff nth_list_update split_beta image_iff)
  show ?case
    using 2 by (auto simp: fresh not_less)
qed simp

lemma all_slots_None:
  assumes "length counts = 14"
  shows "list_all (\<lambda>c. c = None) counts \<longleftrightarrow> (\<forall>b. counts ! bucket_slot b = None)"
proof
  assume none: "\<forall>b. counts ! bucket_slot b = None"
  have "counts ! i = None" if "i < 14" for i
  proof -
    have "i \<in> bucket_slot ` set TOKEN_BUCKETS"
      using that by (simp only: set_map [symmetric] TOKEN_BUCKETS_slots) simp
    with none show ?thesis by auto
  qed
  with assms show "list_all (\<lambda>c. c = None) counts" by (simp add: list_all_length)
qed (simp add: list_all_length assms)

lemma token_buckets_new_get:
  assumes "token_buckets_new entries = Ok buckets"
  shows "length (tb_counts buckets) = 14" "token_buckets_get buckets b = map_of entries b"
proof -
  have collected: "buckets_collect (replicate 14 None) entries = Ok (tb_counts buckets)"
    using assms by (auto simp: token_buckets_new_def and_then_Ok_iff split: if_splits)
  show "length (tb_counts buckets) = 14"
    using buckets_collect_Ok(1) [OF collected] by simp
  show "token_buckets_get buckets b = map_of entries b"
    using buckets_collect_Ok(2) [OF collected, of b] by (simp add: token_buckets_get_def split: option.splits)
qed

lemma token_buckets_iter_set:
  "(b, n) \<in> set (token_buckets_iter buckets) \<longleftrightarrow> token_buckets_get buckets b = Some n"
  by (auto simp: token_buckets_iter_def List.map_filter_def image_iff)

lemma map_filter_slots:
  "sorted_wrt (<) (map bucket_slot bs) \<Longrightarrow>
    sorted_wrt (<) (map (bucket_slot \<circ> fst) (List.map_filter (\<lambda>b. map_option (Pair b) (f b)) bs))"
  by (induction bs) (auto simp: List.map_filter_simps List.map_filter_def split: option.splits)

lemma token_buckets_iter_sorted: "sorted_wrt (<) (map (bucket_slot \<circ> fst) (token_buckets_iter buckets))"
  unfolding token_buckets_iter_def by (rule map_filter_slots) (simp only: TOKEN_BUCKETS_slots sorted_wrt_upt)

text \<open>
  Claim C19. Token buckets keep exactly what was reported. A report is accepted exactly when it is not
  empty, names no bucket twice and states no count above the range of \<open>i64\<close>. The accepted value
  answers every bucket with the reported count, or with nothing when the bucket was not reported,
  which is not a zero; and its iteration lists the reported pairs, each once, in wire order, whatever
  order they were reported in.
\<close>

theorem token_buckets_exact:
  "((\<exists>buckets. token_buckets_new entries = Ok buckets) \<longleftrightarrow>
      entries \<noteq> [] \<and> distinct (map fst entries) \<and> list_all (\<lambda>(_, n). n \<le> i64_max) entries) \<and>
   (\<forall>buckets. token_buckets_new entries = Ok buckets \<longrightarrow>
      (\<forall>b. token_buckets_get buckets b = map_of entries b) \<and>
      set (token_buckets_iter buckets) = set entries \<and>
      sorted_wrt (<) (map (bucket_slot \<circ> fst) (token_buckets_iter buckets)))"
proof (intro conjI allI impI)
  have none: "(\<forall>b. counts ! bucket_slot b = None) \<longleftrightarrow> entries = []"
    if "buckets_collect (replicate 14 None) entries = Ok counts" for counts
  proof
    assume none: "\<forall>b. counts ! bucket_slot b = None"
    have "map_of entries b = None" for b
      using buckets_collect_Ok(2) [OF that, of b] none by (simp split: option.splits)
    then have "map_of entries = Map.empty" by (rule ext)
    then show "entries = []" by simp
  qed (use buckets_collect_Ok(2) [OF that] in simp)
  have "(\<exists>buckets. token_buckets_new entries = Ok buckets) \<longleftrightarrow>
      (\<exists>counts. buckets_collect (replicate 14 None) entries = Ok counts) \<and> entries \<noteq> []"
    using none by (auto simp: token_buckets_new_def and_then_Ok_iff all_slots_None
        buckets_collect_Ok(1) split: if_splits)
  then show "(\<exists>buckets. token_buckets_new entries = Ok buckets) \<longleftrightarrow>
      entries \<noteq> [] \<and> distinct (map fst entries) \<and> list_all (\<lambda>(_, n). n \<le> i64_max) entries"
    by (simp add: buckets_collect_accepts) (auto simp: list_all_iff)
  fix buckets
  assume new: "token_buckets_new entries = Ok buckets"
  then have "distinct (map fst entries)"
    using buckets_collect_accepts [of "replicate 14 None" entries]
    by (auto simp: token_buckets_new_def and_then_Ok_iff)
  then have "(b, n) \<in> set (token_buckets_iter buckets) \<longleftrightarrow> (b, n) \<in> set entries" for b n
    by (simp add: token_buckets_iter_set token_buckets_new_get [OF new])
  then show "set (token_buckets_iter buckets) = set entries" by auto
qed (simp_all add: token_buckets_new_get token_buckets_iter_sorted)

theorem token_buckets_exact_witness:
  "\<exists>buckets. token_buckets_new [(TotalOutput, 7), (TextInput, 3)] = Ok buckets \<and> token_buckets_get buckets TextInput = Some 3 \<and>
    token_buckets_get buckets ImageInput = None \<and> set (token_buckets_iter buckets) = {(TextInput, 3), (TotalOutput, 7)}"
proof -
  note exact = token_buckets_exact [of "[(TotalOutput, 7), (TextInput, 3)]"]
  have "\<exists>buckets. token_buckets_new [(TotalOutput, 7), (TextInput, 3)] = Ok buckets"
    using exact by (simp add: i64_max_def)
  then obtain buckets where new: "token_buckets_new [(TotalOutput, 7), (TextInput, 3)] = Ok buckets" by blast
  with exact have "\<forall>b. token_buckets_get buckets b = map_of [(TotalOutput, 7), (TextInput, 3)] b"
      "set (token_buckets_iter buckets) = set [(TotalOutput, 7), (TextInput, 3)]" by blast+
  with new show ?thesis by auto
qed

lemma bucket_word_round_trip: "bucket_from_word w = Some b \<longleftrightarrow> bucket_word b = w"
proof
  show "bucket_from_word w = Some b \<Longrightarrow> bucket_word b = w"
    by (auto simp: bucket_from_word_def find_Some_iff)
  have "list_all (\<lambda>b. bucket_from_word (bucket_word b) = Some b) TOKEN_BUCKETS" by code_simp
  then have "bucket_from_word (bucket_word b) = Some b" by (simp add: list_all_iff)
  then show "bucket_word b = w \<Longrightarrow> bucket_from_word w = Some b" by blast
qed

lemma role_word_round_trip: "role_from_word w = Ok role \<longleftrightarrow> role_word role = w"
  by (cases role) (auto simp: role_from_word_def ARTIFACT_ROLES_def split: if_splits)

lemma immutable_paths_distinct:
  "validate_immutable_body_paths paths = Ok () \<Longrightarrow> distinct paths"
  by (auto simp: validate_immutable_body_paths_def list_all_length distinct_conv_nth nth_enumerate_eq in_set_conv_nth
      split: if_splits) (metis linorder_neqE_nat nth_take length_take min_less_iff_conj)

section \<open>Estimates\<close>

lemma estimate_of_product:
  assumes product: "f64_mul (i64_as_f64 rate) (Finite m e) = Finite b f" "0 \<le> b" and m: "0 \<le> m"
  shows "estimate_at_rate (Some rate) (Finite m e) =
    (if 2 ^ 63 \<le> \<lceil>scaled b f\<rceil> then Err InvalidRequestEstimate else Ok (Some \<lceil>scaled b f\<rceil>))"
proof -
  obtain c g where ceil: "f64_ceil (Finite b f) = Finite c g" "0 \<le> g" "c * 2 ^ nat g = \<lceil>scaled b f\<rceil>"
    by (rule f64_ceil_int)
  have "0 \<le> \<lceil>scaled b f\<rceil>" using scaled_nonneg [OF product(2), of f] by linarith
  then show ?thesis
    using ceil m by (simp add: estimate_at_rate_def product Let_def i64_saturate_def)
qed

lemma estimate_product_error:
  assumes rate: "0 \<le> rate" "i64_as_f64 rate = Finite a g" and m: "0 \<le> m"
    and product: "f64_round (a * m) (g + e) = Finite b f"
  shows "0 \<le> b" "\<bar>scaled b f - of_int rate * scaled m e\<bar> \<le> of_int rate * scaled m e / 2 ^ 51 + half_unit"
proof -
  note factor = f64_round_error [OF rate(1) rate(2) [unfolded i64_as_f64_def]]
  have rounded: "\<bar>scaled a g - of_int rate\<bar> \<le> of_int rate / 2 ^ 53"
    using factor(2) by (simp add: scaled_def)
  have "0 \<le> a * m" using factor(1) m by simp
  note error = f64_round_error [OF this product]
  show "0 \<le> b" by (rule error(1))
  define x where "x = of_int rate * scaled m e"
  define y where "y = scaled a g * scaled m e"
  have s: "0 \<le> scaled m e" by (rule scaled_nonneg [OF m])
  have "y - x = (scaled a g - of_int rate) * scaled m e" by (simp add: x_def y_def algebra_simps)
  then have "\<bar>y - x\<bar> = \<bar>scaled a g - of_int rate\<bar> * scaled m e" using s by (simp add: abs_mult)
  also have "\<dots> \<le> of_int rate / 2 ^ 53 * scaled m e" by (rule mult_right_mono [OF rounded s])
  finally have near: "\<bar>y - x\<bar> \<le> x / 2 ^ 53" by (simp add: x_def)
  have "\<bar>scaled b f - y\<bar> \<le> y / 2 ^ 53 \<or> \<bar>scaled b f - y\<bar> \<le> half_unit"
    using error(2) by (auto simp: scaled_mult y_def)
  moreover have "0 \<le> x" "0 \<le> y"
    using rate(1) s scaled_nonneg [OF factor(1), of g] by (simp_all add: x_def y_def)
  ultimately have "\<bar>scaled b f - y\<bar> \<le> y / 2 ^ 53 + half_unit"
    using half_unit_pos by (elim disjE) simp_all
  note far = abs_le_D1 [OF this] abs_le_D2 [OF this] abs_le_D1 [OF near] abs_le_D2 [OF near]
  have "\<bar>scaled b f - x\<bar> \<le> x / 2 ^ 51 + half_unit"
    by (rule abs_leI) (use far \<open>0 \<le> x\<close> in simp_all)
  then show "\<bar>scaled b f - of_int rate * scaled m e\<bar> \<le> of_int rate * scaled m e / 2 ^ 51 + half_unit"
    by (simp add: x_def)
qed

lemma i64_as_f64_finite:
  assumes "0 \<le> rate" "rate < 2 ^ 63"
  obtains a g where "i64_as_f64 rate = Finite a g" "0 \<le> a" "scaled a g \<le> 2 * of_int rate"
proof -
  have "real_of_int rate < of_int (2 ^ 63)" using assms(2) by (simp only: of_int_less_iff)
  then have "scaled rate 0 \<le> 2 ^ 200" by (simp add: scaled_def)
  then obtain a g where a: "f64_round rate 0 = Finite a g" using f64_round_finite [OF assms(1)] by blast
  note error = f64_round_error [OF assms(1) a]
  have "\<bar>scaled a g - of_int rate\<bar> \<le> of_int rate / 2 ^ 53" using error(2) by (simp add: scaled_def)
  from abs_le_D1 [OF this] have "scaled a g \<le> 2 * of_int rate" using assms(1) by simp
  then show thesis using that a error(1) by (simp add: i64_as_f64_def)
qed

lemma estimate_exact:
  assumes rate: "0 \<le> rate" and m: "0 \<le> m" and a: "i64_as_f64 rate = Finite a g"
    and product: "f64_round (a * m) (g + e) = Finite b f"
    and small: "rate < 2 ^ 53" "rate * m < 2 ^ 53" "- 1074 \<le> e" "of_int rate * scaled m e \<le> 2 ^ 62"
  shows "estimate_at_rate (Some rate) (Finite m e) = Ok (Some \<lceil>of_int rate * scaled m e\<rceil>)"
proof -
  have factor: "a = rate" "g = 0"
    using f64_round_exact [OF rate _ _ a [unfolded i64_as_f64_def]] small by simp_all
  have exact: "b = rate * m" "f = e"
    using f64_round_exact [OF _ _ _ product [unfolded factor]] rate m small by simp_all
  have "scaled b f = of_int rate * scaled m e" by (simp add: exact scaled_def)
  moreover have "\<lceil>of_int rate * scaled m e\<rceil> < 2 ^ 63" using small(4) by (simp add: ceiling_less_iff)
  moreover have "f64_mul (i64_as_f64 rate) (Finite m e) = Finite b f" by (simp add: a product)
  moreover have "0 \<le> b" using rate m by (simp add: exact)
  ultimately show ?thesis using estimate_of_product m by simp
qed

text \<open>
  Claim C18. The estimate of a rate over a time is the rounded-up product, up to the rounding of doubles.
  For a rate in the range of \<open>i64\<close> and a finite time that is not negative: an estimate is a
  non-negative \<open>i64\<close> and differs from the exact product, rounded up, by at most two parts in \<open>2 ^ 52\<close>
  and half the smallest double; when the rate and the product fit 53 bits it is the exact product
  rounded up; and an estimate is only refused when the product is above \<open>2 ^ 62\<close>.
\<close>

theorem estimate_close_to_product:
  assumes rate: "0 \<le> rate" "rate < 2 ^ 63" and m: "0 \<le> m" and x: "x = of_int rate * scaled m e"
  shows "(\<forall>n. estimate_at_rate (Some rate) (Finite m e) = Ok (Some n) \<longrightarrow>
        0 \<le> n \<and> n < 2 ^ 63 \<and> x - x / 2 ^ 51 - half_unit \<le> of_int n \<and> of_int n < x + x / 2 ^ 51 + half_unit + 1) \<and>
    (\<forall>err. estimate_at_rate (Some rate) (Finite m e) = Err err \<longrightarrow> 2 ^ 62 < x) \<and>
    (rate < 2 ^ 53 \<and> rate * m < 2 ^ 53 \<and> - 1074 \<le> e \<and> x \<le> 2 ^ 62 \<longrightarrow>
      estimate_at_rate (Some rate) (Finite m e) = Ok (Some \<lceil>x\<rceil>))"
proof (intro conjI allI impI)
  obtain a g where a: "i64_as_f64 rate = Finite a g" "0 \<le> a" "scaled a g \<le> 2 * of_int rate"
    using i64_as_f64_finite [OF rate] .
  have mul: "f64_mul (i64_as_f64 rate) (Finite m e) = f64_round (a * m) (g + e)" by (simp add: a)
  note product = estimate_product_error [OF rate(1) a(1) m, where e = e, folded x]
  have finite: "\<exists>b f. f64_round (a * m) (g + e) = Finite b f" if "x \<le> 2 ^ 62"
  proof -
    have "scaled (a * m) (g + e) \<le> 2 * x"
      using mult_right_mono [OF a(3) scaled_nonneg [OF m, of e]] by (simp add: scaled_mult x)
    then have "scaled (a * m) (g + e) \<le> 2 ^ 200" using that by simp
    then show ?thesis using f64_round_finite [of "a * m" "g + e"] a(2) m by fastforce
  qed
  show "2 ^ 62 < x" if err: "estimate_at_rate (Some rate) (Finite m e) = Err err" for err
  proof (rule ccontr)
    assume "\<not> 2 ^ 62 < x"
    then obtain b f where b: "f64_round (a * m) (g + e) = Finite b f" using finite by fastforce
    have "\<lceil>scaled b f\<rceil> < 2 ^ 63"
      using abs_le_D1 [OF product(2) [OF b]] \<open>\<not> 2 ^ 62 < x\<close> half_unit_le by (simp add: ceiling_less_iff)
    then show False
      using err estimate_of_product [OF mul [unfolded b] product(1) [OF b] m] by simp
  qed
  show "estimate_at_rate (Some rate) (Finite m e) = Ok (Some \<lceil>x\<rceil>)"
    if "rate < 2 ^ 53 \<and> rate * m < 2 ^ 53 \<and> - 1074 \<le> e \<and> x \<le> 2 ^ 62"
    using that finite estimate_exact [OF rate(1) m a(1)] x by blast
  fix n
  assume n: "estimate_at_rate (Some rate) (Finite m e) = Ok (Some n)"
  then obtain b f where b: "f64_round (a * m) (g + e) = Finite b f"
    by (cases "f64_round (a * m) (g + e)") (simp_all add: estimate_at_rate_def a Let_def)
  have ceil: "n = \<lceil>scaled b f\<rceil>" "\<lceil>scaled b f\<rceil> < 2 ^ 63"
    using n estimate_of_product [OF mul [unfolded b] product(1) [OF b] m] by (auto split: if_splits)
  note close = abs_le_D1 [OF product(2) [OF b]] abs_le_D2 [OF product(2) [OF b]] ceiling_correct [of "scaled b f"]
  show "0 \<le> n" using scaled_nonneg [OF product(1) [OF b], of f] unfolding ceil(1) by linarith
  show "n < 2 ^ 63" using ceil by simp
  show "x - x / 2 ^ 51 - half_unit \<le> of_int n" "of_int n < x + x / 2 ^ 51 + half_unit + 1"
    using close unfolding ceil(1) by linarith+
qed

theorem estimate_close_to_product_witness:
  "estimate_at_rate (Some 24000) (Finite 11 (- 1)) = Ok (Some 132000) \<and> real_of_int 24000 * scaled 11 (- 1) = 132000"
  using estimate_close_to_product [of 24000 11 132000 "- 1"] by (simp add: scaled_def)

section \<open>Inline artifacts\<close>

lemma blob_node_Ok:
  "(case node of [(key, placeholder)] \<Rightarrow> if key = BLOB_KEY then Ok placeholder else Err InlineArtifactUnresolved
     | _ \<Rightarrow> Err InlineArtifactUnresolved) = Ok p \<longleftrightarrow> node = [(BLOB_KEY, p)]"
  by (auto split: list.splits)

lemma value_as_object_Some [simp]: "value_as_object v = Some members \<longleftrightarrow> v = ValueObject members"
  by (cases v) auto

lemma value_as_str_Some [simp]: "value_as_str v = Some s \<longleftrightarrow> v = ValueString s"
  by (cases v) auto

lemma value_get_Some: "value_get v key = Some w \<longleftrightarrow> (\<exists>members. v = ValueObject members \<and> map_of members key = Some w)"
  by (cases v) auto

lemma blob_id_parse_same: "blob_id_parse t = Ok i \<Longrightarrow> i = \<lparr>bi_text = t\<rparr>"
  by (auto simp: blob_id_parse_def and_then_Ok_iff split: if_splits)

lemma blob_field_Ok:
  "(case Option.bind (value_get p ''id'') value_as_str of None \<Rightarrow> Err InlineArtifactUnresolved
      | Some i \<Rightarrow> map_err (\<lambda>_. InlineArtifactUnresolved) (blob_id_parse i)) = Ok parsed \<longleftrightarrow>
   (\<exists>fields i. p = ValueObject fields \<and> map_of fields ''id'' = Some (ValueString i) \<and>
      blob_id_parse i = Ok \<lparr>bi_text = i\<rparr> \<and> parsed = \<lparr>bi_text = i\<rparr>)"
  by (auto simp: map_err_Ok value_get_Some bind_eq_Some_conv split: option.splits dest: blob_id_parse_same)

lemma artifact_bytes_Ok:
  "(case encoding of
      EncodingBase64 \<Rightarrow> map_err (\<lambda>_. InlineArtifactUnresolved) (decode_base64 encoded)
    | EncodingDataUrl \<Rightarrow>
        map_err (\<lambda>_. InlineArtifactUnresolved) (and_then (parse_data_url_v1 encoded) (\<lambda>(_, b). Ok b))) = Ok decoded \<longleftrightarrow>
   (case encoding of
      EncodingBase64 \<Rightarrow> encoded = encode_base64 decoded
    | EncodingDataUrl \<Rightarrow> \<exists>media_type. parse_data_url_v1 encoded = Ok (media_type, decoded))"
  by (cases encoding) (auto simp: map_err_Ok and_then_Ok_iff decode_base64_exact)

lemma found_if_Ok: "(case x of None \<Rightarrow> Err e | Some v \<Rightarrow> if P v then Ok v else Err e) = Ok w \<longleftrightarrow> x = Some w \<and> P w"
  by (auto split: option.splits)

lemma admit_Ok: "(if c then Ok a else Err e) = Ok b \<longleftrightarrow> c \<and> a = b"
  by auto

lemmas resolve_Ok = and_then_Ok_iff ok_or_Ok_iff blob_node_Ok blob_field_Ok artifact_bytes_Ok found_if_Ok admit_Ok
  refuse_Ok bind_eq_Some_conv value_as_object_Some not_less

definition fails_as :: "'e \<Rightarrow> ('a, 'e) result \<Rightarrow> bool" where
  "fails_as e r \<longleftrightarrow> (\<forall>x. r = Err x \<longrightarrow> x = e)"

lemma fails_as_results [simp]:
  "fails_as e (Ok a)" "fails_as e (Err x) \<longleftrightarrow> x = e" "fails_as e (ok_or v e)" "fails_as e (map_err (\<lambda>_. e) r)"
  by (auto simp: fails_as_def ok_or_Err_iff) (cases r, auto)

lemma fails_as_and_then [intro]: "fails_as e r \<Longrightarrow> (\<And>a. fails_as e (f a)) \<Longrightarrow> fails_as e (and_then r f)"
  by (auto simp: fails_as_def and_then_Err_iff)

lemma resolve_fails_as: "fails_as InlineArtifactUnresolved (resolve_task_inline_artifact_v1 rd pointer view blobs artifact max_bytes)"
  unfolding resolve_task_inline_artifact_v1_def
  by (intro fails_as_and_then) (simp_all split: option.split list.split artifact_encoding.split)

text \<open>
  Claim C17. An inline artifact is the upstream's string. Bytes are resolved exactly when the view parses,
  the artifact's pointer lands on an object whose only key is the blob key, the identifier it gives
  is one of the call's blobs, that blob is text, and decoding it under the declared encoding gives
  these bytes, at least one and at most the limit; for base64 that means the blob is the canonical
  encoding of the bytes. Everything else is the one error that makes the host observe again.
\<close>

theorem inline_artifact_resolved_exactly:
  "(resolve_task_inline_artifact_v1 rd pointer view blobs artifact max_bytes = Ok decoded \<longleftrightarrow>
     (\<exists>v fields i held. rd view = Some v \<and>
       pointer v (jp_text (ti_pointer artifact)) = Some (ValueObject [(BLOB_KEY, ValueObject fields)]) \<and>
       map_of fields ''id'' = Some (ValueString i) \<and> blob_id_parse i = Ok \<lparr>bi_text = i\<rparr> \<and>
       blob_set_get blobs \<lparr>bi_text = i\<rparr> = Some held \<and> bl_text held \<and> utf8_valid (bl_bytes held) \<and>
       (case ti_encoding artifact of
          EncodingBase64 \<Rightarrow> bl_bytes held = encode_base64 decoded
        | EncodingDataUrl \<Rightarrow> \<exists>media_type. parse_data_url_v1 (bl_bytes held) = Ok (media_type, decoded)) \<and>
       decoded \<noteq> [] \<and> length decoded \<le> max_bytes)) \<and>
   resolve_task_inline_artifact_v1 rd pointer view blobs artifact max_bytes \<in> range Ok \<union> {Err InlineArtifactUnresolved}"
proof (intro conjI)
  show "resolve_task_inline_artifact_v1 rd pointer view blobs artifact max_bytes \<in> range Ok \<union> {Err InlineArtifactUnresolved}"
    using resolve_fails_as [of rd pointer view blobs artifact max_bytes]
    by (cases "resolve_task_inline_artifact_v1 rd pointer view blobs artifact max_bytes") (auto simp: fails_as_def)
qed (simp only: resolve_task_inline_artifact_v1_def resolve_Ok, auto)

section \<open>Rendered bodies\<close>

text \<open>What a rendered body is supposed to become: markers of the exact shape, replaced by paths.\<close>

fun marker_of :: "('n \<Rightarrow> nat option) \<Rightarrow> 'n serde_value \<Rightarrow> nat option" where
  "marker_of as_u64 (ValueObject [(k, ValueObject [(k', ValueNumber n)])]) =
     (if k = ARTIFACT_KEY \<and> k' = ''index'' then as_u64 n else None)"
| "marker_of as_u64 _ = None"

fun with_paths :: "('n \<Rightarrow> nat option) \<Rightarrow> (nat \<Rightarrow> string) \<Rightarrow> 'n serde_value \<Rightarrow> 'n serde_value"
  and items_with_paths :: "('n \<Rightarrow> nat option) \<Rightarrow> (nat \<Rightarrow> string) \<Rightarrow> 'n serde_value list \<Rightarrow> 'n serde_value list"
  and members_with_paths ::
    "('n \<Rightarrow> nat option) \<Rightarrow> (nat \<Rightarrow> string) \<Rightarrow> (string \<times> 'n serde_value) list \<Rightarrow> (string \<times> 'n serde_value) list" where
  "with_paths as_u64 path_of (ValueArray items) = ValueArray (items_with_paths as_u64 path_of items)"
| "with_paths as_u64 path_of (ValueObject members) =
     (case marker_of as_u64 (ValueObject members) of
        Some index \<Rightarrow> ValueString (path_of index)
      | None \<Rightarrow> ValueObject (members_with_paths as_u64 path_of members))"
| "with_paths as_u64 path_of v = v"
| "items_with_paths as_u64 path_of [] = []"
| "items_with_paths as_u64 path_of (v # items) = with_paths as_u64 path_of v # items_with_paths as_u64 path_of items"
| "members_with_paths as_u64 path_of [] = []"
| "members_with_paths as_u64 path_of ((key, v) # members) =
     (key, with_paths as_u64 path_of v) # members_with_paths as_u64 path_of members"

fun marker_indices :: "('n \<Rightarrow> nat option) \<Rightarrow> 'n serde_value \<Rightarrow> nat list"
  and item_markers :: "('n \<Rightarrow> nat option) \<Rightarrow> 'n serde_value list \<Rightarrow> nat list"
  and member_markers :: "('n \<Rightarrow> nat option) \<Rightarrow> (string \<times> 'n serde_value) list \<Rightarrow> nat list" where
  "marker_indices as_u64 (ValueArray items) = item_markers as_u64 items"
| "marker_indices as_u64 (ValueObject members) =
     (case marker_of as_u64 (ValueObject members) of Some index \<Rightarrow> [index] | None \<Rightarrow> member_markers as_u64 members)"
| "marker_indices as_u64 _ = []"
| "item_markers as_u64 [] = []"
| "item_markers as_u64 (v # items) = marker_indices as_u64 v @ item_markers as_u64 items"
| "member_markers as_u64 [] = []"
| "member_markers as_u64 ((key, v) # members) = marker_indices as_u64 v @ member_markers as_u64 members"

text \<open>No reserved key outside a marker.\<close>

fun unreserved :: "('n \<Rightarrow> nat option) \<Rightarrow> 'n serde_value \<Rightarrow> bool"
  and items_unreserved :: "('n \<Rightarrow> nat option) \<Rightarrow> 'n serde_value list \<Rightarrow> bool"
  and members_unreserved :: "('n \<Rightarrow> nat option) \<Rightarrow> (string \<times> 'n serde_value) list \<Rightarrow> bool" where
  "unreserved as_u64 (ValueArray items) = items_unreserved as_u64 items"
| "unreserved as_u64 (ValueObject members) =
     (marker_of as_u64 (ValueObject members) \<noteq> None \<or>
      \<not> list_ex (\<lambda>(key, _). starts_with RESERVED_KEY_PREFIX key) members \<and> members_unreserved as_u64 members)"
| "unreserved as_u64 _ = True"
| "items_unreserved as_u64 [] = True"
| "items_unreserved as_u64 (v # items) = (unreserved as_u64 v \<and> items_unreserved as_u64 items)"
| "members_unreserved as_u64 [] = True"
| "members_unreserved as_u64 ((key, v) # members) =
     (unreserved as_u64 v \<and> members_unreserved as_u64 members)"

lemma marker_index_iff:
  assumes "primaries \<le> usize_max"
  shows "marker_index as_u64 members primaries = Some i \<longleftrightarrow>
    marker_of as_u64 (ValueObject members) = Some i \<and> i < primaries"
proof
  assume "marker_index as_u64 members primaries = Some i"
  then show "marker_of as_u64 (ValueObject members) = Some i \<and> i < primaries"
    by (auto simp: marker_index_def bind_eq_Some_conv length_Suc_conv split: if_splits serde_value.splits)
next
  assume marker: "marker_of as_u64 (ValueObject members) = Some i \<and> i < primaries"
  then obtain n where "members = [(ARTIFACT_KEY, ValueObject [(''index'', ValueNumber n)])]" "as_u64 n = Some i"
    by (cases "(as_u64, ValueObject members)" rule: marker_of.cases) (auto split: if_splits)
  then show "marker_index as_u64 members primaries = Some i"
    using marker assms by (simp add: marker_index_def)
qed

lemma marker_index_eq:
  assumes "primaries \<le> usize_max"
  shows "marker_index as_u64 members primaries =
    (case marker_of as_u64 (ValueObject members) of None \<Rightarrow> None | Some i \<Rightarrow> if i < primaries then Some i else None)"
proof (cases "marker_index as_u64 members primaries")
  case None
  then have "marker_of as_u64 (ValueObject members) \<noteq> Some i \<or> \<not> i < primaries" for i
    using marker_index_iff [OF assms, of as_u64 members i] by simp
  with None show ?thesis by (cases "marker_of as_u64 (ValueObject members)") simp_all
next
  case (Some i)
  then have "marker_of as_u64 (ValueObject members) = Some i \<and> i < primaries"
    using marker_index_iff [OF assms] by metis
  with Some show ?thesis by simp
qed

lemma artifact_key_reserved:
  assumes "ARTIFACT_KEY \<in> fst ` set members"
  shows "list_ex (\<lambda>(key, _). starts_with RESERVED_KEY_PREFIX key) members"
proof -
  have "starts_with RESERVED_KEY_PREFIX ARTIFACT_KEY" by code_simp
  with assms show ?thesis by (auto simp: list_ex_iff)
qed

lemma marker_of_key: "marker_of as_u64 (ValueObject members) = Some i \<Longrightarrow> ARTIFACT_KEY \<in> fst ` set members"
  by (cases "(as_u64, ValueObject members)" rule: marker_of.cases) (auto split: if_splits)

definition fills :: "nat \<Rightarrow> 'v \<times> nat \<times> (unit, task_contract_error_v2) result \<Rightarrow> bool \<Rightarrow> nat list \<Rightarrow> 'v \<Rightarrow> bool" where
  "fills before out ok indices new \<longleftrightarrow>
     (case out of (v, after, r) \<Rightarrow>
        if ok then v = new \<and> after = before + length indices \<and> r = Ok () else r = Err ReferenceIntegrity)"

lemma fill_visit_exact:
  "primaries \<le> usize_max \<Longrightarrow> fills n (fill_visit as_u64 primaries path_of v n)
    (unreserved as_u64 v \<and> list_all (\<lambda>i. i < primaries) (marker_indices as_u64 v))
    (marker_indices as_u64 v) (with_paths as_u64 path_of v)"
  "primaries \<le> usize_max \<Longrightarrow> fills n (fill_items as_u64 primaries path_of vs n)
    (items_unreserved as_u64 vs \<and> list_all (\<lambda>i. i < primaries) (item_markers as_u64 vs))
    (item_markers as_u64 vs) (items_with_paths as_u64 path_of vs)"
  "primaries \<le> usize_max \<Longrightarrow> fills n (fill_members as_u64 primaries path_of ms n)
    (members_unreserved as_u64 ms \<and> list_all (\<lambda>i. i < primaries) (member_markers as_u64 ms))
    (member_markers as_u64 ms) (members_with_paths as_u64 path_of ms)"
proof (induction as_u64 primaries path_of v n and as_u64 primaries path_of vs n and as_u64 primaries path_of ms n
    rule: fill_visit_fill_items_fill_members.induct)
  case (2 as_u64 primaries path_of members n)
  show ?case
  proof (cases "ARTIFACT_KEY \<in> fst ` set members")
    case True
    note artifact_key_reserved [OF True]
    then show ?thesis
      using True
      by (cases "marker_of as_u64 (ValueObject members)") (simp_all add: fills_def marker_index_eq [OF 2(2)] del: marker_of.simps)
  next
    case False
    then have none: "marker_of as_u64 (ValueObject members) = None"
      using marker_of_key by (metis not_None_eq)
    show ?thesis
    proof (cases "list_ex (\<lambda>(key, _). starts_with RESERVED_KEY_PREFIX key) members")
      case True
      then show ?thesis using False none by (simp add: fills_def)
    next
      case plain: False
      then show ?thesis using 2(1) [OF False plain 2(2)] False none by (auto simp: fills_def split: prod.splits)
    qed
  qed
qed (auto simp: fills_def split: prod.splits result.splits if_splits)

text \<open>A filled body has no reserved key, at any depth.\<close>

fun reserved_keys :: "'n serde_value \<Rightarrow> string list"
  and item_reserved_keys :: "'n serde_value list \<Rightarrow> string list"
  and member_reserved_keys :: "(string \<times> 'n serde_value) list \<Rightarrow> string list" where
  "reserved_keys (ValueArray items) = item_reserved_keys items"
| "reserved_keys (ValueObject members) = member_reserved_keys members"
| "reserved_keys _ = []"
| "item_reserved_keys [] = []"
| "item_reserved_keys (v # items) = reserved_keys v @ item_reserved_keys items"
| "member_reserved_keys [] = []"
| "member_reserved_keys ((key, v) # members) =
     filter (starts_with RESERVED_KEY_PREFIX) [key] @ reserved_keys v @ member_reserved_keys members"

lemma filled_unreserved:
  "unreserved as_u64 v \<Longrightarrow> reserved_keys (with_paths as_u64 path_of v) = []"
  "items_unreserved as_u64 vs \<Longrightarrow> item_reserved_keys (items_with_paths as_u64 path_of vs) = []"
  "members_unreserved as_u64 ms \<Longrightarrow> \<not> list_ex (\<lambda>(key, _). starts_with RESERVED_KEY_PREFIX key) ms \<Longrightarrow>
    member_reserved_keys (members_with_paths as_u64 path_of ms) = []"
proof (induction as_u64 path_of v and as_u64 path_of vs and as_u64 path_of ms
    rule: with_paths_items_with_paths_members_with_paths.induct)
  case (2 as_u64 path_of members)
  then show ?case
    by (cases "marker_of as_u64 (ValueObject members)") (simp_all del: marker_of.simps)
qed auto

lemma primary_count_bounded: "artifact_ref_validate artifacts = Ok () \<Longrightarrow> primary_count artifacts \<le> MAX_ARTIFACT_URLS"
  by (cases artifacts) (auto simp: MAX_ARTIFACT_URLS_def not_less intro: le_trans [OF length_filter_le] split: if_splits)

text \<open>
  Claim C16. Filling the artifact markers of a rendered body does all of it or refuses. A body is accepted
  exactly when the artifacts are valid, every marker has the exact shape and names a primary artifact,
  and no other object has a reserved key. Then the number returned is the number of markers, the body
  is the given one with each marker replaced by the path of its artifact, nothing else changed, and no
  reserved key is left at any depth. Every other body is refused as a break of reference integrity,
  unless the artifacts themselves were invalid.
\<close>

theorem artifact_markers_filled:
  assumes run: "fill_task_artifact_markers_v1 as_u64 render artifacts path_of = (render', r)"
  shows "((\<exists>n. r = Ok n) \<longleftrightarrow> artifact_ref_validate artifacts = Ok () \<and> unreserved as_u64 render \<and>
        list_all (\<lambda>i. i < primary_count artifacts) (marker_indices as_u64 render)) \<and>
    (\<forall>n. r = Ok n \<longrightarrow> n = length (marker_indices as_u64 render) \<and> render' = with_paths as_u64 path_of render \<and>
        reserved_keys render' = []) \<and>
    (\<forall>e. r = Err e \<longrightarrow> artifact_ref_validate artifacts = Err e \<or> e = ReferenceIntegrity)"
proof (cases "artifact_ref_validate artifacts")
  case (Ok u)
  then have "primary_count artifacts \<le> usize_max"
    using primary_count_bounded [of artifacts] by (simp add: MAX_ARTIFACT_URLS_def usize_max_def)
  then have fills: "fills 0 (fill_visit as_u64 (primary_count artifacts) path_of render 0)
      (unreserved as_u64 render \<and> list_all (\<lambda>i. i < primary_count artifacts) (marker_indices as_u64 render))
      (marker_indices as_u64 render) (with_paths as_u64 path_of render)"
    by (rule fill_visit_exact)
  show ?thesis
    using fills run Ok filled_unreserved(1) [of as_u64 render path_of]
    by (auto simp: fills_def fill_task_artifact_markers_v1_def and_then_Ok_iff split: prod.splits if_splits)
qed (use run in \<open>auto simp: fill_task_artifact_markers_v1_def\<close>)

definition sample_render :: "nat serde_value" where
  "sample_render = ValueObject [(''data'', ValueArray
     [ValueObject [(''url'', ValueObject [(ARTIFACT_KEY, ValueObject [(''index'', ValueNumber 0)])])]])]"

theorem artifact_markers_filled_witness:
  "fill_task_artifact_markers_v1 Some sample_render (ArtifactFileId ''f'') (\<lambda>_. ''/files/f'') =
     (ValueObject [(''data'', ValueArray [ValueObject [(''url'', ValueString ''/files/f'')]])], Ok 1) \<and>
   reserved_keys (ValueObject [(''data'', ValueArray [ValueObject [(''url'', ValueString ''/files/f'')]])] :: nat serde_value) = []"
proof -
  have run: "fill_task_artifact_markers_v1 Some sample_render (ArtifactFileId ''f'') (\<lambda>_. ''/files/f'') =
      (ValueObject [(''data'', ValueArray [ValueObject [(''url'', ValueString ''/files/f'')]])], Ok 1)"
    by (simp add: fill_task_artifact_markers_v1_def sample_render_def marker_index_def ARTIFACT_KEY_def
        RESERVED_KEY_PREFIX_def starts_with_def MAX_ARTIFACT_REF_BYTES_def usize_max_def)
  from artifact_markers_filled [OF run] run show ?thesis by blast
qed

text \<open>The documented reason of \<open>CallbackUrlNotUrlSafe\<close> is a control byte or a space; other bytes are refused too.\<close>

lemma callback_non_ascii_refused:
  "host_minted_values_new ''t'' (Some [CHR 0xC3, CHR 0xA9]) = Err CallbackUrlNotUrlSafe"
  by (simp add: host_minted_values_new_def MAX_TASK_ID_BYTES_def MAX_CALLBACK_URL_BYTES_def is_ascii_graphic_def
      byte_in_def)

lemma host_minted_values_safe:
  assumes "host_minted_values_new task_id callback_url = Ok minted"
  shows "hm_task_id minted = task_id" "hm_callback_url minted = callback_url"
    "c \<in> set task_id \<Longrightarrow> is_ascii_graphic c" "callback_url = Some url \<Longrightarrow> c \<in> set url \<Longrightarrow> is_ascii_graphic c"
  using assms by (auto simp: host_minted_values_new_def and_then_Ok_iff list_all_iff split: if_splits option.splits)

lemma render_context_has_no_control:
  assumes "render_context_new task_id created model provider upstream = Ok context"
  shows "\<not> has_control (tr_model context)" "\<not> has_control (tr_provider context)"
    "tr_upstream_task_id context = Some i \<Longrightarrow> \<not> has_control i"
  using assms by (auto simp: render_context_new_def and_then_Ok_iff render_text_def split: if_splits option.splits)

end
