(* ===== verification/Value_Syntax.thy ===== *)
theory Value_Syntax
  imports Media_Base
begin

text \<open>
  \<open>south-provider-api/src/config.rs\<close>: value syntaxes, endpoint templates and the search that reads a
  filled template back. The messages of refused templates are values; their texts carry no decision.
\<close>

section \<open>Value syntaxes\<close>

definition MAX_TEMPLATE_BYTES :: nat where
  "MAX_TEMPLATE_BYTES = 512"

definition MAX_PRINTABLE_ASCII :: nat where
  "MAX_PRINTABLE_ASCII = 4096"

definition MAX_BASE_URL_BYTES :: nat where
  "MAX_BASE_URL_BYTES = 2048"

datatype value_syntax =
    AwsRegion | AwsArn | GcpProjectId | ApiVersionDate | DigitsSyntax | TokenSyntax
  | PrintableAscii nat | EnumSyntax "string list"

abbreviation lower_or_digit :: "byte \<Rightarrow> bool" where
  "lower_or_digit b \<equiv> is_ascii_lowercase b \<or> is_ascii_digit b"

definition is_dns_label :: "string \<Rightarrow> bool" where
  "is_dns_label v \<longleftrightarrow>
     1 \<le> length v \<and> length v \<le> 63 \<and> list_all (\<lambda>b. lower_or_digit b \<or> b = CHR ''-'') v \<and>
     \<not> starts_with ''-'' v \<and> \<not> ends_with ''-'' v"

definition is_token_byte :: "byte \<Rightarrow> bool" where
  "is_token_byte b \<longleftrightarrow> is_ascii_alphanumeric b \<or> b \<in> set ''!#$%&*+-.^_|~'' \<or> b = CHR 0x27 \<or> b = CHR 0x60"

fun value_admits :: "value_syntax \<Rightarrow> string \<Rightarrow> bool" where
  "value_admits AwsRegion v = (length v \<le> 32 \<and> is_dns_label v)"
| "value_admits AwsArn v =
     (length v \<le> 2048 \<and> starts_with ''arn:'' v \<and> 5 \<le> length (filter (\<lambda>c. c = CHR '':'') v) \<and>
      list_all (\<lambda>b. is_ascii_alphanumeric b \<or> b \<in> set '':/._+=,@*-'') v)"
| "value_admits GcpProjectId v =
     (6 \<le> length v \<and> length v \<le> 30 \<and> (v \<noteq> [] \<and> is_ascii_lowercase (hd v)) \<and> is_dns_label v)"
| "value_admits ApiVersionDate v =
     (let date = (case strip_suffix ''-preview'' v of Some d \<Rightarrow> d | None \<Rightarrow> v)
      in length date = 10 \<and>
         list_all (\<lambda>(index, b). if index = 4 \<or> index = 7 then b = CHR ''-'' else is_ascii_digit b) (enumerate 0 date))"
| "value_admits DigitsSyntax v = (1 \<le> length v \<and> length v \<le> 32 \<and> list_all is_ascii_digit v)"
| "value_admits TokenSyntax v = (1 \<le> length v \<and> length v \<le> 256 \<and> list_all is_token_byte v)"
| "value_admits (PrintableAscii bound) v = (v \<noteq> [] \<and> length v \<le> bound \<and> list_all (byte_in 0x20 0x7E) v)"
| "value_admits (EnumSyntax allowed) v = list_ex (\<lambda>a. a = v) allowed"

fun is_label_safe :: "value_syntax \<Rightarrow> bool" where
  "is_label_safe AwsRegion = True"
| "is_label_safe GcpProjectId = True"
| "is_label_safe DigitsSyntax = True"
| "is_label_safe (EnumSyntax allowed) = list_all is_dns_label allowed"
| "is_label_safe _ = False"

fun syntax_well_formed :: "value_syntax \<Rightarrow> bool" where
  "syntax_well_formed (PrintableAscii bound) = (1 \<le> bound \<and> bound \<le> MAX_PRINTABLE_ASCII)"
| "syntax_well_formed (EnumSyntax allowed) =
     (allowed \<noteq> [] \<and>
      list_all (\<lambda>(index, v). 1 \<le> length v \<and> length v \<le> 64 \<and> list_all (byte_in 0x21 0x7E) v \<and>
        v \<notin> set (take index allowed)) (enumerate 0 allowed))"
| "syntax_well_formed _ = True"

record config_key =
  ck_syntax :: value_syntax
  ck_required :: bool
  ck_description :: string
  ck_default :: "string option"

datatype config_error = UnknownKey string | MissingKey string | InvalidValue string

datatype endpoint_values_error = NoEndpoint | NotThisEndpoint | Ambiguous

section \<open>Templates\<close>

datatype template_part = Literal string | Param string

definition is_param_name :: "string \<Rightarrow> bool" where
  "is_param_name name \<longleftrightarrow> name \<noteq> [] \<and> list_all (\<lambda>b. lower_or_digit b \<or> b = CHR ''_'') name"

function template_parts :: "string \<Rightarrow> template_part list option" where
  "template_parts rest =
     (case split_once (CHR ''{'') rest of
        None \<Rightarrow>
          if CHR ''}'' \<in> set rest then None
          else Some (if rest \<noteq> [] then [Literal rest] else [])
      | Some (before, opened) \<Rightarrow>
          if CHR ''}'' \<in> set before then None
          else
            (case split_once (CHR ''}'') opened of
               None \<Rightarrow> None
             | Some (name, rest') \<Rightarrow>
                 if \<not> is_param_name name then None
                 else
                   map_option (\<lambda>ps. (if before \<noteq> [] then [Literal before] else []) @ Param name # ps)
                     (template_parts rest')))"
  by pat_completeness auto
termination template_parts
  by (relation "measure length") (auto simp: split_once_Some_iff)

declare template_parts.simps [simp del]

definition hex_upper :: "nat \<Rightarrow> byte" where
  "hex_upper d = (if d < 10 then char_of (48 + d) else char_of (55 + d))"

definition is_pchar :: "byte \<Rightarrow> bool" where
  "is_pchar b \<longleftrightarrow> is_ascii_alphanumeric b \<or> b \<in> set ''-._~!$&()*+,;=:@'' \<or> b = CHR 0x27"

definition encode_segment :: "string \<Rightarrow> string" where
  "encode_segment v =
     concat (map (\<lambda>b. if is_pchar b then [b]
       else [CHR ''%'', hex_upper (of_char b div 16), hex_upper (of_char b mod 16)]) v)"

datatype template_error = NotAnHttpsTemplate | MalformedBraces | DomainNotFixed

definition is_template_byte :: "byte \<Rightarrow> bool" where
  "is_template_byte b \<longleftrightarrow> byte_in 33 126 b \<and> b \<notin> set ''?#@%'' \<and> b \<noteq> CHR 0x5C"

definition fixed_domain :: "template_part list \<Rightarrow> bool" where
  "fixed_domain authority_parts =
     (case rev authority_parts of
        Literal tail # _ \<Rightarrow>
          CHR ''.'' \<in> set (dropWhile (\<lambda>c. c = CHR ''.'') tail) \<and>
          list_all (\<lambda>b. lower_or_digit b \<or> b \<in> set ''.-'') tail
      | _ \<Rightarrow> False)"

fun part_param :: "bool \<Rightarrow> template_part \<Rightarrow> (string \<times> bool) option" where
  "part_param in_host (Param name) = Some (name, in_host)"
| "part_param in_host (Literal _) = None"

definition template_params :: "string \<Rightarrow> ((string \<times> bool) list, template_error) result" where
  "template_params template =
     and_then
       (case strip_prefix ''https://'' template of
          None \<Rightarrow> Err NotAnHttpsTemplate
        | Some rest \<Rightarrow>
            if length template \<le> MAX_TEMPLATE_BYTES \<and> list_all is_template_byte rest then Ok rest
            else Err NotAnHttpsTemplate) (\<lambda>rest.
     let authority = takeWhile (\<lambda>c. c \<noteq> CHR ''/'') rest; path = dropWhile (\<lambda>c. c \<noteq> CHR ''/'') rest in
     and_then (ok_or (template_parts authority) MalformedBraces) (\<lambda>authority_parts.
     and_then (ok_or (template_parts path) MalformedBraces) (\<lambda>path_parts.
       if \<not> fixed_domain authority_parts then Err DomainNotFixed
       else Ok (List.map_filter (part_param True) authority_parts @ List.map_filter (part_param False) path_parts))))"

section \<open>Filling and reading back\<close>

type_synonym config_keys = "(string, config_key) btree"
type_synonym config_values = "(string, string) btree"

text \<open>\<open>validate_config_values\<close> for the keys of one family; no keys when the family declares none.\<close>

fun config_keys_check :: "config_keys \<Rightarrow> config_values \<Rightarrow> (unit, config_error) result" where
  "config_keys_check [] vals = Ok ()"
| "config_keys_check ((key, declaration) # keys) vals =
     (case bt_get vals key of
        None \<Rightarrow> if ck_required declaration then Err (MissingKey key) else config_keys_check keys vals
      | Some v \<Rightarrow>
          if \<not> value_admits (ck_syntax declaration) v then Err (InvalidValue key)
          else config_keys_check keys vals)"

definition family_config_check :: "config_keys option \<Rightarrow> config_values \<Rightarrow> (unit, config_error) result" where
  "family_config_check declared vals =
     (let keys = (case declared of None \<Rightarrow> [] | Some keys \<Rightarrow> keys) in
      case find (\<lambda>key. bt_get keys key = None) (map fst vals) of
        Some unknown \<Rightarrow> Err (UnknownKey unknown)
      | None \<Rightarrow> config_keys_check keys vals)"

definition param_value :: "config_keys option \<Rightarrow> config_values \<Rightarrow> string \<Rightarrow> string option" where
  "param_value declared vals name =
     (case bt_get vals name of
        Some v \<Rightarrow> Some v
      | None \<Rightarrow> Option.bind (Option.bind declared (\<lambda>keys. bt_get keys name)) ck_default)"

fun fill_parts :: "config_keys option \<Rightarrow> config_values \<Rightarrow> nat \<Rightarrow> nat \<Rightarrow> template_part list
    \<Rightarrow> (string, config_error) result" where
  "fill_parts declared vals authority_end offset [] = Ok []"
| "fill_parts declared vals authority_end offset (Literal literal # ps) =
     and_then (fill_parts declared vals authority_end (offset + length literal) ps) (\<lambda>filled.
       Ok (literal @ filled))"
| "fill_parts declared vals authority_end offset (Param name # ps) =
     (case param_value declared vals name of
        None \<Rightarrow> Err (MissingKey name)
      | Some v \<Rightarrow>
          and_then (fill_parts declared vals authority_end (offset + (length name + 2)) ps) (\<lambda>filled.
            Ok ((if offset < authority_end then v else encode_segment v) @ filled)))"

text \<open>
  \<open>fill_endpoint\<close> for one family's template. \<open>None\<close> is the panic of slicing a template that has no
  character boundary after its first eight bytes.
\<close>

definition fill_template ::
    "string option \<Rightarrow> config_keys option \<Rightarrow> config_values \<Rightarrow> (string option, config_error) result option" where
  "fill_template template declared vals =
     (case template of
        None \<Rightarrow> Some (Ok None)
      | Some template \<Rightarrow>
          (case family_config_check declared vals of
             Err e \<Rightarrow> Some (Err e)
           | Ok _ \<Rightarrow>
               if \<not> is_char_boundary template 8 then None
               else
                 let authority_end =
                       (case iter_position (\<lambda>c. c = CHR ''/'') (drop 8 template) of
                          None \<Rightarrow> length template
                        | Some slash \<Rightarrow> slash + 8);
                     ps = (case template_parts template of None \<Rightarrow> [] | Some ps \<Rightarrow> ps)
                 in Some (and_then (fill_parts declared vals authority_end 0 ps) (\<lambda>filled. Ok (Some filled)))))"

definition trim_slashes :: "string \<Rightarrow> string" where
  "trim_slashes s = rev (dropWhile (\<lambda>c. c = CHR ''/'') (rev s))"

definition param_ends :: "string \<Rightarrow> nat list" where
  "param_ends s = filter (is_char_boundary s) [1..<Suc (length s)]"

definition spans_boundary :: "string \<Rightarrow> bool" where
  "spans_boundary candidate \<longleftrightarrow> list_ex (\<lambda>c. c = CHR ''/'' \<or> c = CHR ''.'') candidate"

fun matches_parts :: "template_part list \<Rightarrow> string \<Rightarrow> (string \<Rightarrow> value_syntax option) \<Rightarrow> bool" where
  "matches_parts [] s syntax_of = (s = [])"
| "matches_parts (Literal literal # rest) s syntax_of =
     (case strip_prefix literal s of None \<Rightarrow> False | Some s \<Rightarrow> matches_parts rest s syntax_of)"
| "matches_parts (Param name # rest) s syntax_of =
     (case syntax_of name of
        None \<Rightarrow> False
      | Some declared \<Rightarrow>
          list_ex (\<lambda>end. \<not> spans_boundary (take end s) \<and> value_admits declared (take end s) \<and>
            matches_parts rest (drop end s) syntax_of) (param_ends s))"

function fills :: "template_part list \<Rightarrow> string \<Rightarrow> (string \<Rightarrow> value_syntax option) \<Rightarrow> config_values
    \<Rightarrow> config_values list \<Rightarrow> nat \<Rightarrow> config_values list"
  and fills_from :: "nat list \<Rightarrow> string \<Rightarrow> value_syntax \<Rightarrow> template_part list \<Rightarrow> string
    \<Rightarrow> (string \<Rightarrow> value_syntax option) \<Rightarrow> config_values \<Rightarrow> config_values list \<Rightarrow> nat \<Rightarrow> config_values list" where
  "fills [] s syntax_of taken found limit =
     (if limit \<le> length found then found else if s = [] then found @ [taken] else found)"
| "fills (Literal literal # rest) s syntax_of taken found limit =
     (if limit \<le> length found then found
      else
        (case strip_prefix literal s of
           None \<Rightarrow> found
         | Some s \<Rightarrow> fills rest s syntax_of taken found limit))"
| "fills (Param name # rest) s syntax_of taken found limit =
     (if limit \<le> length found then found
      else
        (case syntax_of name of
           None \<Rightarrow> found
         | Some declared \<Rightarrow> fills_from (param_ends s) name declared rest s syntax_of taken found limit))"
| "fills_from [] name declared rest s syntax_of taken found limit = found"
| "fills_from (end # ends) name declared rest s syntax_of taken found limit =
     (if spans_boundary (take end s) \<or> \<not> value_admits declared (take end s) \<or>
         (bt_get taken name \<noteq> None \<and> bt_get taken name \<noteq> Some (take end s))
      then fills_from ends name declared rest s syntax_of taken found limit
      else
        let found = fills rest (drop end s) syntax_of (bt_insert name (take end s) taken) found limit
        in if limit \<le> length found then found
           else fills_from ends name declared rest s syntax_of taken found limit)"
  by pat_completeness auto
termination fills
  by (relation "inv_image (less_than <*lex*> less_than)
        (\<lambda>c. case c of Inl (ps, _) \<Rightarrow> (length ps, 0) | Inr (ends, _, _, rest, _) \<Rightarrow> (length rest, Suc (length ends)))")
    auto

definition declared_syntax :: "config_keys option \<Rightarrow> string \<Rightarrow> value_syntax option" where
  "declared_syntax declared name = map_option ck_syntax (Option.bind declared (\<lambda>keys. bt_get keys name))"

definition template_admits :: "string option \<Rightarrow> config_keys option \<Rightarrow> string \<Rightarrow> bool" where
  "template_admits template declared base_url =
     (case template of
        None \<Rightarrow> True
      | Some template \<Rightarrow>
          (case template_parts template of
             None \<Rightarrow> False
           | Some ps \<Rightarrow> matches_parts ps (trim_slashes base_url) (declared_syntax declared)))"

definition template_values ::
    "string option \<Rightarrow> config_keys option \<Rightarrow> string \<Rightarrow> (config_values, endpoint_values_error) result option" where
  "template_values template declared base_url =
     (case template of
        None \<Rightarrow> Some (Err NoEndpoint)
      | Some t \<Rightarrow>
          let s = trim_slashes base_url in
          (case template_parts t of
             None \<Rightarrow> Some (Err NotThisEndpoint)
           | Some ps \<Rightarrow>
               if MAX_BASE_URL_BYTES < length s then Some (Err NotThisEndpoint)
               else
                 (case fills ps s (declared_syntax declared) [] [] 2 of
                    [] \<Rightarrow> Some (Err NotThisEndpoint)
                  | [vals] \<Rightarrow>
                      (case fill_template template declared vals of
                         None \<Rightarrow> None
                       | Some r \<Rightarrow> Some (if r = Ok (Some s) then Ok vals else Err NotThisEndpoint))
                  | _ \<Rightarrow> Some (Err Ambiguous))))"

section \<open>What gate 1 checks of one family\<close>

datatype endpoint_detail =
    ConfigFamilyUndeclared | BadConfigKeyName | BadConfigSyntax | RequiredKeyHasDefault | DefaultLacksSyntax
  | EndpointFamilyUndeclared | BadTemplate template_error | ParamIsNoConfigKey | ParamMayBeAbsent | HostParamNotLabelSafe

fun config_keys_detail :: "config_keys \<Rightarrow> (unit, endpoint_detail) result" where
  "config_keys_detail [] = Ok ()"
| "config_keys_detail ((key, declaration) # keys) =
     (if key = [] \<or> 64 < length key \<or> \<not> list_all (\<lambda>b. lower_or_digit b \<or> b = CHR ''_'') key then Err BadConfigKeyName
      else if \<not> syntax_well_formed (ck_syntax declaration) then Err BadConfigSyntax
      else
        and_then
          (case ck_default declaration of
             None \<Rightarrow> Ok ()
           | Some standing \<Rightarrow>
               if ck_required declaration then Err RequiredKeyHasDefault
               else if \<not> value_admits (ck_syntax declaration) standing then Err DefaultLacksSyntax
               else Ok ()) (\<lambda>_.
        config_keys_detail keys))"

fun params_detail :: "config_keys option \<Rightarrow> (string \<times> bool) list \<Rightarrow> (unit, endpoint_detail) result" where
  "params_detail declared [] = Ok ()"
| "params_detail declared ((name, in_host) # params) =
     (case Option.bind declared (\<lambda>keys. bt_get keys name) of
        None \<Rightarrow> Err ParamIsNoConfigKey
      | Some declaration \<Rightarrow>
          if \<not> ck_required declaration \<and> ck_default declaration = None then Err ParamMayBeAbsent
          else if in_host \<and> \<not> is_label_safe (ck_syntax declaration) then Err HostParamNotLabelSafe
          else params_detail declared params)"

definition template_detail :: "config_keys option \<Rightarrow> string \<Rightarrow> (unit, endpoint_detail) result" where
  "template_detail declared template =
     and_then (map_err BadTemplate (template_params template)) (params_detail declared)"

section \<open>Templates are concatenations\<close>

fun part_width :: "template_part \<Rightarrow> nat" where
  "part_width (Literal l) = length l"
| "part_width (Param n) = length n + 2"

abbreviation width :: "template_part list \<Rightarrow> nat" where
  "width ps \<equiv> sum_list (map part_width ps)"

text \<open>Two neighbouring literals are one.\<close>

fun join_parts :: "template_part list \<Rightarrow> template_part list \<Rightarrow> template_part list" where
  "join_parts [] qs = qs"
| "join_parts [Literal a] (Literal b # qs) = Literal (a @ b) # qs"
| "join_parts (p # ps) qs = p # join_parts ps qs"

lemma param_name_chars: "is_param_name n \<Longrightarrow> c \<in> set n \<Longrightarrow> c \<notin> {CHR ''{'', CHR ''}'', CHR ''/''}"
  by (auto simp: is_param_name_def list_all_iff is_ascii_lowercase_def is_ascii_digit_def byte_in_def)

lemma template_parts_Plain:
  "CHR ''{'' \<notin> set s \<Longrightarrow> CHR ''}'' \<notin> set s \<Longrightarrow> template_parts s = Some (if s \<noteq> [] then [Literal s] else [])"
  using split_once_None_iff [of "CHR ''{''" s] by (subst template_parts.simps) simp

lemma template_parts_Param:
  assumes "CHR ''{'' \<notin> set b" "CHR ''}'' \<notin> set b" "is_param_name n"
  shows "template_parts (b @ CHR ''{'' # n @ CHR ''}'' # rest) =
    map_option (\<lambda>ps. (if b \<noteq> [] then [Literal b] else []) @ Param n # ps) (template_parts rest)"
proof -
  have "CHR ''}'' \<notin> set n" using param_name_chars [OF assms(3)] by blast
  then show ?thesis
    using assms by (subst template_parts.simps) (simp add: split_once_append)
qed

lemma template_parts_induct [consumes 1, case_names Plain Param]:
  assumes "template_parts s = Some ps"
    and plain: "\<And>s. CHR ''{'' \<notin> set s \<Longrightarrow> CHR ''}'' \<notin> set s \<Longrightarrow> P s (if s \<noteq> [] then [Literal s] else [])"
    and param: "\<And>b n rest ps. CHR ''{'' \<notin> set b \<Longrightarrow> CHR ''}'' \<notin> set b \<Longrightarrow> is_param_name n \<Longrightarrow>
      template_parts rest = Some ps \<Longrightarrow> P rest ps \<Longrightarrow>
      P (b @ CHR ''{'' # n @ CHR ''}'' # rest) ((if b \<noteq> [] then [Literal b] else []) @ Param n # ps)"
  shows "P s ps"
  using assms(1)
proof (induction s arbitrary: ps rule: template_parts.induct)
  case (1 s)
  show ?case
  proof (cases "split_once (CHR ''{'') s")
    case None
    then have "CHR ''{'' \<notin> set s" by (simp add: split_once_None_iff)
    moreover have "CHR ''}'' \<notin> set s" "ps = (if s \<noteq> [] then [Literal s] else [])"
      using "1.prems" unfolding template_parts.simps [of s] None by (simp_all split: if_splits)
    ultimately show ?thesis using plain by simp
  next
    case (Some bo)
    obtain b opened where bo: "bo = (b, opened)" by (cases bo)
    from "1.prems" obtain n rest ps' where split: "CHR ''}'' \<notin> set b" "split_once (CHR ''}'') opened = Some (n, rest)"
        "is_param_name n" "template_parts rest = Some ps'"
        "ps = (if b \<noteq> [] then [Literal b] else []) @ Param n # ps'"
      unfolding template_parts.simps [of s] Some bo by (auto split: if_splits option.splits)
    have "P rest ps'"
      using "1.IH" [OF Some bo [symmetric] split(1,2) refl] split(3,4) by simp
    moreover have "s = b @ CHR ''{'' # n @ CHR ''}'' # rest" "CHR ''{'' \<notin> set b"
      using Some split(2) by (auto simp: bo split_once_Some_iff)
    ultimately show ?thesis using param [of b n rest ps'] split by simp
  qed
qed

lemma join_parts_Literal: "join_parts ((if b \<noteq> [] then [Literal b] else []) @ Param n # ps) qs =
    (if b \<noteq> [] then [Literal b] else []) @ Param n # join_parts ps qs"
  by simp

lemma template_parts_append:
  assumes "template_parts u = Some ps" "template_parts w = Some qs"
  shows "template_parts (u @ w) = Some (join_parts ps qs)"
  using assms(1)
proof (induction rule: template_parts_induct)
  case (Plain l)
  from assms(2) show ?case
  proof (induction rule: template_parts_induct)
    case (Plain s)
    with \<open>CHR ''{'' \<notin> set l\<close> \<open>CHR ''}'' \<notin> set l\<close> show ?case
      using template_parts_Plain [of "l @ s"] by auto
  next
    case (Param b n rest ps)
    with \<open>CHR ''{'' \<notin> set l\<close> \<open>CHR ''}'' \<notin> set l\<close> show ?case
      using template_parts_Param [of "l @ b" n rest] by auto
  qed
next
  case (Param b n rest ps)
  then show ?case
    using template_parts_Param [of b n "rest @ w"] by (simp add: join_parts_Literal)
qed

lemma width_template_parts: "template_parts s = Some ps \<Longrightarrow> width ps = length s"
  by (induction rule: template_parts_induct) auto

section \<open>A filled endpoint keeps its domain\<close>

lemma width_join [simp]: "width (join_parts ps qs) = width ps + width qs"
  by (induction ps qs rule: join_parts.induct) auto

fun part_params :: "template_part list \<Rightarrow> string set" where
  "part_params [] = {}"
| "part_params (Param n # ps) = insert n (part_params ps)"
| "part_params (Literal l # ps) = part_params ps"

lemma part_params_iff: "n \<in> part_params ps \<longleftrightarrow> Param n \<in> set ps"
  by (induction ps rule: part_params.induct) auto

lemma fill_parts_append:
  "fill_parts d v E off (ps @ qs) =
     and_then (fill_parts d v E off ps) (\<lambda>a. and_then (fill_parts d v E (off + width ps) qs) (\<lambda>b. Ok (a @ b)))"
  by (induction d v E off ps rule: fill_parts.induct) (auto simp: and_then_assoc add.assoc split: option.splits)

lemma fill_parts_Cons: "fill_parts d v E off (p # ps) =
    and_then (fill_parts d v E off [p]) (\<lambda>a. and_then (fill_parts d v E (off + part_width p) ps) (\<lambda>b. Ok (a @ b)))"
  using fill_parts_append [of d v E off "[p]" ps] by simp

lemma fill_parts_join: "fill_parts d v E off (join_parts ps qs) = fill_parts d v E off (ps @ qs)"
proof (induction ps arbitrary: off)
  case (Cons p ps)
  have step: "fill_parts d v E off (p # join_parts ps qs) = fill_parts d v E off (p # ps @ qs)"
    unfolding fill_parts_Cons [of d v E off p "join_parts ps qs"] fill_parts_Cons [of d v E off p "ps @ qs"] Cons.IH ..
  show ?case
  proof (cases "\<exists>a b qs'. p = Literal a \<and> ps = [] \<and> qs = Literal b # qs'")
    case True
    then obtain a b qs' where "p = Literal a" "ps = []" "qs = Literal b # qs'" by blast
    then show ?thesis by (simp add: and_then_assoc add.assoc)
  next
    case False
    then have "join_parts (p # ps) qs = p # join_parts ps qs"
      by (cases "(p # ps, qs)" rule: join_parts.cases) simp_all
    then show ?thesis using step by simp
  qed
qed simp

fun render_part :: "(string \<Rightarrow> string) \<Rightarrow> template_part \<Rightarrow> string" where
  "render_part g (Literal l) = l"
| "render_part g (Param n) = g n"

abbreviation render :: "(string \<Rightarrow> string) \<Rightarrow> template_part list \<Rightarrow> string" where
  "render g ps \<equiv> concat (map (render_part g) ps)"

lemma fill_parts_host:
  "off + width ps \<le> E \<Longrightarrow> (\<And>n. n \<in> part_params ps \<Longrightarrow> param_value d v n = Some (g n)) \<Longrightarrow>
    fill_parts d v E off ps = Ok (render g ps)"
  by (induction d v E off ps rule: fill_parts.induct) auto

lemma fill_parts_path:
  "E \<le> off \<Longrightarrow> (\<And>n. n \<in> part_params ps \<Longrightarrow> param_value d v n = Some (g n)) \<Longrightarrow>
    fill_parts d v E off ps = Ok (render (encode_segment \<circ> g) ps)"
  by (induction d v E off ps rule: fill_parts.induct) auto

lemma map_filter_part_params:
  "set (List.map_filter (part_param in_host) ps) = {(n, in_host) |n. n \<in> part_params ps}"
  by (induction ps rule: part_params.induct) (auto simp: List.map_filter_simps)

lemma template_params_Ok:
  assumes "template_params template = Ok params"
  obtains authority path authority_parts path_parts where
    "template = ''https://'' @ authority @ path" "CHR ''/'' \<notin> set authority" "path = [] \<or> hd path = CHR ''/''"
    "list_all is_template_byte (authority @ path)"
    "template_parts authority = Some authority_parts" "template_parts path = Some path_parts"
    "fixed_domain authority_parts"
    "set params = {(n, True) |n. n \<in> part_params authority_parts} \<union> {(n, False) |n. n \<in> part_params path_parts}"
proof -
  let ?host = "\<lambda>c. c \<noteq> CHR ''/''"
  obtain rest authority_parts path_parts where
    rest: "strip_prefix ''https://'' template = Some rest" "list_all is_template_byte rest"
    and parts: "template_parts (takeWhile ?host rest) = Some authority_parts" "template_parts (dropWhile ?host rest) = Some path_parts"
      "fixed_domain authority_parts"
      "params = List.map_filter (part_param True) authority_parts @ List.map_filter (part_param False) path_parts"
    using assms by (auto simp: template_params_def Let_def and_then_Ok_iff ok_or_Ok_iff split: option.splits if_splits)
  show thesis
  proof (rule that [OF _ _ _ _ parts(1,2,3)])
    show "template = ''https://'' @ takeWhile ?host rest @ dropWhile ?host rest"
      using rest(1) by (simp add: strip_prefix_Some_iff)
    show "CHR ''/'' \<notin> set (takeWhile ?host rest)" by (auto dest: set_takeWhileD)
    show "dropWhile ?host rest = [] \<or> hd (dropWhile ?host rest) = CHR ''/''"
      using hd_dropWhile [of ?host rest] by auto
  qed (use rest in \<open>simp_all add: parts map_filter_part_params\<close>)
qed

lemma slash_position:
  assumes "CHR ''/'' \<notin> set a" "p = [] \<or> hd p = CHR ''/''" "n = 8 + length (a @ p)"
  shows "(case iter_position (\<lambda>c. c = CHR ''/'') (a @ p) of None \<Rightarrow> n | Some i \<Rightarrow> i + 8) = 8 + length a"
proof (cases p)
  case Nil
  moreover have "iter_position (\<lambda>c. c = CHR ''/'') a = None"
    using assms(1) by (auto simp: iter_position_None_iff)
  ultimately show ?thesis using assms(3) by simp
next
  case (Cons c q)
  have inside: "a ! j \<noteq> CHR ''/''" if "j < length a" for j
    using nth_mem [OF that] assms(1) by auto
  from Cons have "iter_position (\<lambda>c. c = CHR ''/'') (a @ p) = Some (length a)"
    using assms inside by (auto simp: iter_position_Some_iff nth_append)
  then show ?thesis by simp
qed

lemma template_boundary:
  assumes "list_all is_template_byte rest"
  shows "is_char_boundary (''https://'' @ rest) 8"
proof (cases rest)
  case (Cons b r)
  with assms have "ascii b" by (simp add: is_template_byte_def byte_in_def ascii_def)
  then have "\<not> utf8_cont b" by (simp add: ascii_def byte_in_def)
  with Cons show ?thesis by (simp add: is_char_boundary_def)
qed (simp add: is_char_boundary_def)

lemma fill_template_render:
  assumes template: "template = ''https://'' @ authority @ path" "CHR ''/'' \<notin> set authority" "path = [] \<or> hd path = CHR ''/''"
    and bytes: "list_all is_template_byte (authority @ path)"
    and parts: "template_parts authority = Some hs" "template_parts path = Some ps"
    and vals: "family_config_check declared vals = Ok ()"
    and held: "\<And>n. n \<in> part_params hs \<union> part_params ps \<Longrightarrow> param_value declared vals n = Some (g n)"
  shows "fill_template (Some template) declared vals =
    Some (Ok (Some (''https://'' @ render g hs @ render (encode_segment \<circ> g) ps)))"
proof -
  define scheme where "scheme = ''https://''"
  have scheme: "template_parts scheme = Some [Literal scheme]" "length scheme = 8"
    unfolding scheme_def by (subst template_parts_Plain) auto
  then have whole: "template_parts template = Some (join_parts [Literal scheme] (join_parts hs ps))"
    unfolding template scheme_def [symmetric] by (intro template_parts_append parts)
  have widths: "width hs = length authority"
    by (rule width_template_parts [OF parts(1)])
  have "fill_parts declared vals (8 + length authority) 0 (join_parts [Literal scheme] (join_parts hs ps)) =
      Ok (scheme @ render g hs @ render (encode_segment \<circ> g) ps)"
    using fill_parts_host [of 8 hs "8 + length authority" declared vals g]
      fill_parts_path [of "8 + length authority" "8 + length authority" ps declared vals g] held
    by (simp add: fill_parts_join fill_parts_append scheme(2) widths)
  moreover have "length template = 8 + length (authority @ path)" "drop 8 template = authority @ path"
    by (simp_all add: template(1))
  moreover have "is_char_boundary template 8"
    using template_boundary [OF bytes] by (simp only: template(1))
  ultimately show ?thesis
    using vals whole slash_position [OF template(2,3), of "length template"]
    by (simp add: fill_template_def Let_def scheme_def del: append_Cons length_append)
qed

text \<open>The values a checked template is filled with.\<close>

lemma bt_get_in_set: "bt_get m k = Some v \<Longrightarrow> (k, v) \<in> set m"
  by (induction m k rule: bt_get.induct) (auto split: if_splits)

lemma config_keys_detail_Ok:
  assumes "config_keys_detail keys = Ok ()" "(key, declaration) \<in> set keys"
  shows "key \<noteq> []" "length key \<le> 64" "list_all (\<lambda>b. lower_or_digit b \<or> b = CHR ''_'') key"
    "syntax_well_formed (ck_syntax declaration)"
    "ck_default declaration = Some v \<Longrightarrow> value_admits (ck_syntax declaration) v"
  using assms by (induction keys rule: config_keys_detail.induct)
    (auto simp: and_then_Ok_iff not_less split: if_splits option.splits)

lemma config_keys_check_Ok:
  assumes "config_keys_check keys vals = Ok ()" "(key, declaration) \<in> set keys"
  shows "bt_get vals key = Some v \<Longrightarrow> value_admits (ck_syntax declaration) v"
    "ck_required declaration \<Longrightarrow> bt_get vals key \<noteq> None"
  using assms by (induction keys vals rule: config_keys_check.induct) (auto split: if_splits option.splits)

lemma params_detail_Ok:
  assumes "params_detail (Some keys) params = Ok ()" "(name, in_host) \<in> set params"
  obtains decl where "bt_get keys name = Some decl"
    "ck_required decl \<or> ck_default decl \<noteq> None" "in_host \<Longrightarrow> is_label_safe (ck_syntax decl)"
  using assms by (induction "Some keys" params rule: params_detail.induct) (auto split: option.splits if_splits)

lemma checked_param_value:
  assumes keys: "config_keys_detail keys = Ok ()" and vals: "family_config_check (Some keys) vals = Ok ()"
    and decl: "bt_get keys name = Some decl" "ck_required decl \<or> ck_default decl \<noteq> None"
  obtains v where "param_value (Some keys) vals name = Some v" "value_admits (ck_syntax decl) v"
proof -
  have member: "(name, decl) \<in> set keys" using decl(1) by (rule bt_get_in_set)
  have check: "config_keys_check keys vals = Ok ()"
    using vals by (auto simp: family_config_check_def Let_def split: option.splits)
  show thesis
    using that decl config_keys_check_Ok [OF check member] config_keys_detail_Ok(5) [OF keys member]
    by (cases "bt_get vals name") (auto simp: param_value_def)
qed

definition label_byte :: "byte \<Rightarrow> bool" where
  "label_byte b \<longleftrightarrow> lower_or_digit b \<or> b = CHR ''-''"

lemma label_safe_bytes:
  assumes "is_label_safe syntx" "value_admits syntx v"
  shows "list_all label_byte v"
  using assms by (cases syntx) (auto simp: is_dns_label_def label_byte_def list_all_iff list_ex_iff)

definition host_byte :: "byte \<Rightarrow> bool" where
  "host_byte b \<longleftrightarrow> byte_in 33 126 b \<and> b \<notin> set ''/?#@%'' \<and> b \<noteq> CHR 0x5C"

definition path_byte :: "byte \<Rightarrow> bool" where
  "path_byte b \<longleftrightarrow> byte_in 33 126 b \<and> b \<notin> set ''?#'' \<and> b \<noteq> CHR 0x5C"

lemma label_byte_host: "label_byte b \<Longrightarrow> host_byte b"
  by (auto simp: label_byte_def host_byte_def is_ascii_lowercase_def is_ascii_digit_def byte_in_def)

lemma ascii_bytes: "host_byte b \<Longrightarrow> ascii b" "path_byte b \<Longrightarrow> ascii b" "label_byte b \<Longrightarrow> ascii b" "ascii (CHR ''.'')"
  by (auto simp: label_byte_def host_byte_def path_byte_def is_ascii_lowercase_def is_ascii_digit_def byte_in_def ascii_def)

lemma host_byte_dot: "host_byte (CHR ''.'')"
  by code_simp

lemma template_byte_path: "is_template_byte b \<Longrightarrow> path_byte b" "is_template_byte b \<Longrightarrow> b \<noteq> CHR ''/'' \<Longrightarrow> host_byte b"
  by (auto simp: is_template_byte_def path_byte_def host_byte_def)

lemma alphanumeric_graphic: "is_ascii_alphanumeric b \<Longrightarrow> byte_in 33 126 b"
  by (auto simp: is_ascii_alphanumeric_def is_ascii_alphabetic_def is_ascii_lowercase_def is_ascii_uppercase_def
      is_ascii_digit_def byte_in_def)

lemma pchar_path:
  assumes "is_pchar b"
  shows "path_byte b"
proof -
  have "list_all (byte_in 33 126) ''-._~!$&()*+,;=:@''" "byte_in 33 126 (CHR 0x27)" by code_simp+
  then have "byte_in 33 126 b"
    using assms alphanumeric_graphic unfolding is_pchar_def list_all_iff by blast
  moreover have "\<not> is_pchar (CHR ''?'')" "\<not> is_pchar (CHR ''#'')" "\<not> is_pchar (CHR 0x5C)" by code_simp+
  then have "b \<noteq> CHR ''?''" "b \<noteq> CHR ''#''" "b \<noteq> CHR 0x5C" using assms by blast+
  ultimately show ?thesis by (simp add: path_byte_def)
qed

lemma hex_upper_path: "d < 16 \<Longrightarrow> path_byte (hex_upper d)"
  by (auto simp: path_byte_def hex_upper_def byte_in_def of_char_of char_of_eq_iff)

lemma encode_segment_path: "list_all path_byte (encode_segment v)"
proof -
  have "path_byte (CHR ''%'')" by code_simp
  moreover have "(of_char b :: nat) div 16 < 16" for b
    using nat_of_char_less_256 [of b] by (simp add: less_mult_imp_div_less)
  ultimately show ?thesis
    by (auto simp: encode_segment_def list_all_iff pchar_path hex_upper_path split: if_splits)
qed

lemma template_parts_bytes:
  "template_parts s = Some ps \<Longrightarrow> Literal l \<in> set ps \<Longrightarrow> set l \<subseteq> set s"
  by (induction rule: template_parts_induct) (auto split: if_splits)

lemma render_bytes:
  assumes "\<And>l. Literal l \<in> set ps \<Longrightarrow> list_all P l" "\<And>n. n \<in> part_params ps \<Longrightarrow> list_all P (g n)"
  shows "list_all P (render g ps)"
  using assms by (induction ps rule: part_params.induct) auto

lemma render_hd:
  "template_parts s = Some ps \<Longrightarrow> s = [] \<or> hd s = CHR ''/'' \<Longrightarrow> render g ps = [] \<or> hd (render g ps) = CHR ''/''"
proof (induction rule: template_parts_induct)
  case (Param b n rest ps)
  then show ?case by (cases b) auto
qed auto

text \<open>
  The last literal of the authority, which no value changes.
\<close>

lemma filled_template_keeps_domain:
  assumes keys: "config_keys_detail keys = Ok ()" and checked: "template_detail (Some keys) template = Ok ()"
  shows "\<exists>domain. CHR ''.'' \<in> set domain \<and> list_all (\<lambda>b. label_byte b \<or> b = CHR ''.'') domain \<and>
    (\<forall>vals. family_config_check (Some keys) vals = Ok () \<longrightarrow>
      (\<exists>labels path. fill_template (Some template) (Some keys) vals = Some (Ok (Some (''https://'' @ labels @ domain @ path))) \<and>
        list_all host_byte labels \<and> list_all path_byte path \<and> (path = [] \<or> hd path = CHR ''/'')))"
proof -
  obtain params where params: "template_params template = Ok params" "params_detail (Some keys) params = Ok ()"
    using checked by (auto simp: template_detail_def and_then_Ok_iff map_err_Ok)
  obtain authority path hs ps where template: "template = ''https://'' @ authority @ path" "CHR ''/'' \<notin> set authority"
      "path = [] \<or> hd path = CHR ''/''" "list_all is_template_byte (authority @ path)"
    and parts: "template_parts authority = Some hs" "template_parts path = Some ps" and fixed: "fixed_domain hs"
    and names: "set params = {(n, True) |n. n \<in> part_params hs} \<union> {(n, False) |n. n \<in> part_params ps}"
    by (rule template_params_Ok [OF params(1)])
  obtain hs' domain where domain: "hs = hs' @ [Literal domain]" "CHR ''.'' \<in> set domain"
      "list_all (\<lambda>b. label_byte b \<or> b = CHR ''.'') domain"
  proof (cases "rev hs")
    case (Cons p rhs)
    then have "hs = rev rhs @ [p]" using rev_rev_ident [of hs] by simp
    then show thesis using that fixed Cons
      by (cases p) (auto simp: fixed_domain_def label_byte_def list_all_iff dest: set_dropWhileD)
  qed (use fixed in \<open>simp add: fixed_domain_def\<close>)
  show ?thesis
  proof (intro exI conjI allI impI)
    fix vals
    assume vals: "family_config_check (Some keys) vals = Ok ()"
    define g where "g n = the (param_value (Some keys) vals n)" for n
    have held: "param_value (Some keys) vals n = Some (g n)" if "n \<in> part_params hs \<union> part_params ps" for n
    proof -
      from that names have "(n, True) \<in> set params \<or> (n, False) \<in> set params" by auto
      then show ?thesis
        using params_detail_Ok [OF params(2)] checked_param_value [OF keys vals] unfolding g_def by (metis option.sel)
    qed
    have label: "list_all label_byte (g n)" if n: "n \<in> part_params hs" for n
    proof -
      from n names have "(n, True) \<in> set params" by auto
      then obtain decl where decl: "bt_get keys n = Some decl" "ck_required decl \<or> ck_default decl \<noteq> None"
          "is_label_safe (ck_syntax decl)"
        using params_detail_Ok [OF params(2)] by blast
      from checked_param_value [OF keys vals decl(1,2)] label_safe_bytes [OF decl(3)] show ?thesis
        unfolding g_def by (metis option.sel)
    qed
    have literal: "list_all host_byte l" if "Literal l \<in> set hs" for l
      using template_parts_bytes [OF parts(1) that] template(2,4) template_byte_path(2)
      by (fastforce simp: list_all_iff)
    show "fill_template (Some template) (Some keys) vals =
        Some (Ok (Some (''https://'' @ render g hs' @ domain @ render (encode_segment \<circ> g) ps)))"
      using fill_template_render [OF template(1-4) parts vals held] by (simp add: domain(1))
    show "list_all host_byte (render g hs')"
    proof (rule render_bytes)
      show "list_all host_byte l" if "Literal l \<in> set hs'" for l using literal that by (simp add: domain(1))
      have "part_params hs' \<subseteq> part_params hs" unfolding domain(1) by (induction hs' rule: part_params.induct) auto
      then show "list_all host_byte (g n)" if "n \<in> part_params hs'" for n
        using label that label_byte_host by (fastforce simp: list_all_iff)
    qed
    show "list_all path_byte (render (encode_segment \<circ> g) ps)"
    proof (rule render_bytes)
      show "list_all path_byte l" if "Literal l \<in> set ps" for l
        using template_parts_bytes [OF parts(2) that] template(4) template_byte_path(1)
        by (fastforce simp: list_all_iff)
    qed (simp add: encode_segment_path)
    show "render (encode_segment \<circ> g) ps = [] \<or> hd (render (encode_segment \<circ> g) ps) = CHR ''/''"
      using render_hd [OF parts(2) template(3)] by simp
  qed (use domain in auto)
qed


section \<open>Reading a filled template back\<close>

text \<open>The search without its bound on the number of answers.\<close>

definition candidate_fits :: "string \<Rightarrow> value_syntax \<Rightarrow> config_values \<Rightarrow> string \<Rightarrow> bool" where
  "candidate_fits name declared taken c \<longleftrightarrow> \<not> spans_boundary c \<and> value_admits declared c \<and> bt_get taken name \<in> {None, Some c}"

fun all_fills :: "template_part list \<Rightarrow> string \<Rightarrow> (string \<Rightarrow> value_syntax option) \<Rightarrow> config_values \<Rightarrow> config_values list" where
  "all_fills [] s syntax_of taken = (if s = [] then [taken] else [])"
| "all_fills (Literal literal # rest) s syntax_of taken =
     (case strip_prefix literal s of None \<Rightarrow> [] | Some s \<Rightarrow> all_fills rest s syntax_of taken)"
| "all_fills (Param name # rest) s syntax_of taken =
     (case syntax_of name of
        None \<Rightarrow> []
      | Some declared \<Rightarrow>
          concat (map (\<lambda>end. all_fills rest (drop end s) syntax_of (bt_insert name (take end s) taken))
            (filter (\<lambda>end. candidate_fits name declared taken (take end s)) (param_ends s))))"

lemma fills_take:
  shows "length found \<le> limit \<Longrightarrow> fills ps s syntax_of taken found limit = take limit (found @ all_fills ps s syntax_of taken)"
    and "length found \<le> limit \<Longrightarrow> fills_from ends name declared rest s syntax_of taken found limit =
      take limit (found @ concat (map (\<lambda>end. all_fills rest (drop end s) syntax_of (bt_insert name (take end s) taken))
        (filter (\<lambda>end. candidate_fits name declared taken (take end s)) ends)))"
proof (induction ps s syntax_of taken found limit and ends name declared rest s syntax_of taken found limit
    rule: fills_fills_from.induct)
  case (5 "end" ends name declared rest s syntax_of taken found limit)
  let ?refused = "spans_boundary (take end s) \<or> \<not> value_admits declared (take end s) \<or>
      (bt_get taken name \<noteq> None \<and> bt_get taken name \<noteq> Some (take end s))"
  have fits: "candidate_fits name declared taken (take end s) \<longleftrightarrow> \<not> ?refused" by (auto simp: candidate_fits_def)
  show ?case
  proof (cases ?refused)
    case True
    with "5.IH"(1) [OF True "5.prems"] show ?thesis by (simp only: fills_from.simps fits filter.simps if_True not_True_eq_False if_False simp_thms)
  next
    case False
    define A where "A = all_fills rest (drop end s) syntax_of (bt_insert name (take end s) taken)"
    define G where "G = concat (map (\<lambda>end. all_fills rest (drop end s) syntax_of (bt_insert name (take end s) taken))
        (filter (\<lambda>end. candidate_fits name declared taken (take end s)) ends))"
    have inner: "fills rest (drop end s) syntax_of (bt_insert name (take end s) taken) found limit = take limit (found @ A)"
      using "5.IH"(2) [OF False "5.prems"] unfolding A_def .
    have unfolded: "fills_from (end # ends) name declared rest s syntax_of taken found limit =
        (if limit \<le> length (take limit (found @ A)) then take limit (found @ A)
         else fills_from ends name declared rest s syntax_of taken (take limit (found @ A)) limit)"
      unfolding fills_from.simps(2) if_not_P [OF False] Let_def inner ..
    have goal: "concat (map (\<lambda>end. all_fills rest (drop end s) syntax_of (bt_insert name (take end s) taken))
        (filter (\<lambda>end. candidate_fits name declared taken (take end s)) (end # ends))) = A @ G"
      using False fits by (simp add: A_def G_def)
    show ?thesis
    proof (cases "limit \<le> length (take limit (found @ A))")
      case True
      then have "limit \<le> length (found @ A)" by simp
      then have "take limit (found @ A @ G) = take limit (found @ A)" by (simp flip: append_assoc)
      then show ?thesis unfolding unfolded if_P [OF True] goal by simp
    next
      case less: False
      have "fills_from ends name declared rest s syntax_of taken (take limit (found @ A)) limit = take limit (take limit (found @ A) @ G)"
        using "5.IH"(3) [OF False refl, unfolded inner, OF less] unfolding G_def by simp
      with less show ?thesis unfolding unfolded goal by simp
    qed
  qed
qed (auto split: option.splits)

lemma bt_wf_eq:
  assumes "bt_wf m" "bt_wf m'" "\<And>k. bt_get m k = bt_get m' k"
  shows "m = m'"
proof -
  have "set m = set m'"
    using assms bt.entries_iff [OF assms(1)] bt.entries_iff [OF assms(2)] by auto
  moreover have "sorted (map fst m)" "sorted (map fst m')" "distinct (map fst m)" "distinct (map fst m')"
    using assms(1,2) by (simp_all add: bt_wf_def strict_sorted_iff)
  ultimately show ?thesis by (intro map_sorted_distinct_set_unique [of fst]) (simp_all add: distinct_map)
qed

text \<open>What reading back looks for: a value for exactly the parameters, each of its syntax and inside one label or segment.\<close>

definition reads_as :: "(string \<Rightarrow> value_syntax option) \<Rightarrow> template_part list \<Rightarrow> string \<Rightarrow> config_values \<Rightarrow> bool" where
  "reads_as syntax_of ps s vals \<longleftrightarrow>
     bt_wf vals \<and> fst ` set vals = part_params ps \<and> render (\<lambda>n. the (bt_get vals n)) ps = s \<and>
     (\<forall>(n, v) \<in> set vals. v \<noteq> [] \<and> \<not> spans_boundary v \<and> (\<exists>declared. syntax_of n = Some declared \<and> value_admits declared v))"

definition extends :: "config_values \<Rightarrow> config_values \<Rightarrow> bool" where
  "extends m taken \<longleftrightarrow> (\<forall>k v. bt_get taken k = Some v \<longrightarrow> bt_get m k = Some v)"

definition good_value :: "(string \<Rightarrow> value_syntax option) \<Rightarrow> config_values \<Rightarrow> string \<Rightarrow> bool" where
  "good_value syntax_of m n \<longleftrightarrow> (\<exists>v declared. bt_get m n = Some v \<and> v \<noteq> [] \<and> \<not> spans_boundary v \<and>
     syntax_of n = Some declared \<and> value_admits declared v)"

lemma param_ends_ascii: "list_all ascii s \<Longrightarrow> param_ends s = [1..<Suc (length s)]"
  unfolding param_ends_def
  by (rule filter_True) (auto simp: is_char_boundary_def list_all_length ascii_def byte_in_def)

lemma param_end_cases:
  "list_all ascii s \<Longrightarrow> (\<exists>end \<in> set (param_ends s). P (take end s) (drop end s)) \<longleftrightarrow> (\<exists>v r. s = v @ r \<and> v \<noteq> [] \<and> P v r)"
proof
  assume s: "list_all ascii s" and "\<exists>v r. s = v @ r \<and> v \<noteq> [] \<and> P v r"
  then obtain v r where "s = v @ r" "v \<noteq> []" "P v r" by blast
  with s show "\<exists>end \<in> set (param_ends s). P (take end s) (drop end s)"
    by (intro bexI [of _ "length v"]) (auto simp: param_ends_ascii Suc_le_eq)
next
  assume s: "list_all ascii s" and "\<exists>end \<in> set (param_ends s). P (take end s) (drop end s)"
  then obtain "end" where "1 \<le> end" "end \<le> length s" "P (take end s) (drop end s)" by (auto simp: param_ends_ascii)
  then show "\<exists>v r. s = v @ r \<and> v \<noteq> [] \<and> P v r"
    by (intro exI [of _ "take end s"] exI [of _ "drop end s"]) auto
qed

lemma extends_insert:
  "bt_wf taken \<Longrightarrow> bt_get taken name \<in> {None, Some v} \<and> extends m (bt_insert name v taken) \<longleftrightarrow> bt_get m name = Some v \<and> extends m taken"
  unfolding extends_def by (cases "bt_get taken name") (auto simp: bt_get_insert)

lemma all_fills_iff:
  "list_all ascii s \<Longrightarrow> bt_wf taken \<Longrightarrow>
    m \<in> set (all_fills ps s syntax_of taken) \<longleftrightarrow>
      bt_wf m \<and> extends m taken \<and> fst ` set m = fst ` set taken \<union> part_params ps \<and>
      (\<forall>n \<in> part_params ps. good_value syntax_of m n) \<and> render (\<lambda>n. the (bt_get m n)) ps = s"
proof (induction ps s syntax_of taken rule: all_fills.induct)
  case (1 s syntax_of taken)
  have "m = taken" if m: "bt_wf m" "extends m taken" "fst ` set m = fst ` set taken"
  proof (rule bt_wf_eq [OF m(1) "1.prems"(2)])
    show "bt_get m k = bt_get taken k" for k
    proof (cases "bt_get taken k")
      case None
      then have "k \<notin> fst ` set taken" by (simp add: bt_get_map_of map_of_eq_None_iff)
      with m(3) have "k \<notin> fst ` set m" by simp
      with None show ?thesis by (simp add: bt_get_map_of flip: map_of_eq_None_iff)
    qed (use m(2) in \<open>simp add: extends_def\<close>)
  qed
  with 1 show ?case by (auto simp: extends_def)
next
  case (2 literal rest s syntax_of taken)
  show ?case
  proof (cases "strip_prefix literal s")
    case None
    then have "\<nexists>r. s = literal @ r" by (metis strip_prefix_append option.distinct(1))
    with None show ?thesis by auto
  next
    case (Some r)
    then have "s = literal @ r" by (simp add: strip_prefix_Some_iff)
    with 2 Some show ?thesis by auto
  qed
next
  case (3 name rest s syntax_of taken)
  show ?case
  proof (cases "syntax_of name")
    case (Some declared)
    let ?sub = "\<lambda>v r. bt_wf m \<and> extends m (bt_insert name v taken) \<and> fst ` set m = insert name (fst ` set taken) \<union> part_params rest \<and>
      (\<forall>n \<in> part_params rest. good_value syntax_of m n) \<and> render (\<lambda>n. the (bt_get m n)) rest = r"
    have ih: "m \<in> set (all_fills rest (drop end s) syntax_of (bt_insert name (take end s) taken)) \<longleftrightarrow> ?sub (take end s) (drop end s)"
      if "end \<in> set (param_ends s)" "candidate_fits name declared taken (take end s)" for "end"
      using "3.IH" [OF Some, of "end"] that "3.prems" bt_insert_keys [of name "take end s" taken]
      by (simp add: bt_insert_wf list_all_iff) (meson in_set_dropD)
    have "m \<in> set (all_fills (Param name # rest) s syntax_of taken) \<longleftrightarrow>
        (\<exists>end \<in> set (param_ends s). candidate_fits name declared taken (take end s) \<and> ?sub (take end s) (drop end s))"
      using ih by (auto simp: Some)
    also have "\<dots> \<longleftrightarrow> (\<exists>v r. s = v @ r \<and> v \<noteq> [] \<and> candidate_fits name declared taken v \<and> ?sub v r)"
      by (rule param_end_cases [OF "3.prems"(1)])
    also have "\<dots> \<longleftrightarrow> (\<exists>v r. s = v @ r \<and> v \<noteq> [] \<and> \<not> spans_boundary v \<and> value_admits declared v \<and> bt_get m name = Some v \<and>
        bt_wf m \<and> extends m taken \<and> fst ` set m = insert name (fst ` set taken) \<union> part_params rest \<and>
        (\<forall>n \<in> part_params rest. good_value syntax_of m n) \<and> render (\<lambda>n. the (bt_get m n)) rest = r)"
      using extends_insert [OF "3.prems"(2), of name _ m] unfolding candidate_fits_def by blast
    also have "\<dots> \<longleftrightarrow> bt_wf m \<and> extends m taken \<and> fst ` set m = insert name (fst ` set taken) \<union> part_params rest \<and>
        (\<forall>n \<in> insert name (part_params rest). good_value syntax_of m n) \<and> the (bt_get m name) @ render (\<lambda>n. the (bt_get m n)) rest = s"
      by (auto simp: good_value_def Some)
    finally show ?thesis by simp
  qed (simp add: good_value_def)
qed

lemma all_fills_reads: "list_all ascii s \<Longrightarrow> m \<in> set (all_fills ps s syntax_of []) \<longleftrightarrow> reads_as syntax_of ps s m"
proof -
  assume s: "list_all ascii s"
  have "(\<forall>n \<in> part_params ps. good_value syntax_of m n) \<longleftrightarrow>
      (\<forall>(n, v) \<in> set m. v \<noteq> [] \<and> \<not> spans_boundary v \<and> (\<exists>declared. syntax_of n = Some declared \<and> value_admits declared v))"
    if "bt_wf m" "fst ` set m = part_params ps"
  proof -
    have "good_value syntax_of m n \<longleftrightarrow> v \<noteq> [] \<and> \<not> spans_boundary v \<and> (\<exists>declared. syntax_of n = Some declared \<and> value_admits declared v)"
      if "(n, v) \<in> set m" for n v
      using bt.entries_iff [OF \<open>bt_wf m\<close>, of n v] that by (auto simp: good_value_def)
    then show ?thesis unfolding that(2) [symmetric] by fastforce
  qed
  then show ?thesis
    unfolding reads_as_def using all_fills_iff [OF s, of "[]" m ps syntax_of] by (auto simp: extends_def bt_wf_def)
qed

lemma distinct_concat_keyed:
  assumes "distinct es" "\<And>e. e \<in> set es \<Longrightarrow> distinct (f e)" "\<And>e m. e \<in> set es \<Longrightarrow> m \<in> set (f e) \<Longrightarrow> key m = k e" "inj_on k (set es)"
  shows "distinct (concat (map f es))"
  using assms
proof (induction es)
  case (Cons e es)
  have "set (f e) \<inter> set (f e') = {}" if "e' \<in> set es" for e'
  proof -
    have "k e \<noteq> k e'" using Cons.prems(1,4) that by (auto simp: inj_on_def)
    with Cons.prems(3) [of e] Cons.prems(3) [of e'] that show ?thesis by (simp add: disjoint_iff) metis
  qed
  moreover have "distinct (concat (map f es))"
    using Cons.prems by (intro Cons.IH) (simp_all add: inj_on_def)
  ultimately show ?case using Cons.prems(2) [of e] by auto
qed simp

lemma all_fills_distinct: "list_all ascii s \<Longrightarrow> bt_wf taken \<Longrightarrow> distinct (all_fills ps s syntax_of taken)"
proof (induction ps s syntax_of taken rule: all_fills.induct)
  case (2 literal rest s syntax_of taken)
  then show ?case by (auto simp: strip_prefix_Some_iff split: option.split)
next
  case (3 name rest s syntax_of taken)
  show ?case
  proof (cases "syntax_of name")
    case (Some declared)
    define ends where "ends = filter (\<lambda>end. candidate_fits name declared taken (take end s)) (param_ends s)"
    let ?from = "\<lambda>end. all_fills rest (drop end s) syntax_of (bt_insert name (take end s) taken)"
    have asc: "list_all ascii (drop end s)" for "end" using "3.prems"(1) by (auto simp: list_all_iff dest: in_set_dropD)
    have wf: "bt_wf (bt_insert name (take end s) taken)" for "end" using "3.prems"(2) by (rule bt_insert_wf)
    have one: "distinct (?from end)" if "end \<in> set ends" for "end"
      using "3.IH" [OF Some, of "end"] that asc wf unfolding ends_def by simp
    have valued: "bt_get m name = Some (take end s)" if "m \<in> set (?from end)" for m "end"
      using that all_fills_iff [OF asc wf] "3.prems"(2) by (simp add: extends_def bt_get_insert)
    have range: "end \<le> length s" "0 < end" if "end \<in> set ends" for "end"
      using that "3.prems"(1) by (auto simp: ends_def param_ends_ascii)
    have "distinct ends" by (simp add: ends_def param_ends_def)
    moreover have "inj_on (\<lambda>end. Some (take end s)) (set ends)"
      using range by (auto simp: inj_on_def dest!: arg_cong [where f = length])
    ultimately have "distinct (concat (map ?from ends))"
      using one valued by (intro distinct_concat_keyed [where key = "\<lambda>m. bt_get m name" and k = "\<lambda>end. Some (take end s)"]) auto
    then show ?thesis unfolding ends_def by (simp add: Some)
  qed simp
qed simp

text \<open>
  Values are returned exactly when they are the only way to read the URL and filling with them gives
  it back; ambiguity is reported exactly when there are two ways.
\<close>

lemma template_values_exact:
  assumes parts: "template_parts t = Some ps" and s: "list_all ascii (trim_slashes base_url)" "length (trim_slashes base_url) \<le> MAX_BASE_URL_BYTES"
  shows "template_values (Some t) declared base_url = Some (Ok vals) \<longleftrightarrow>
      {m. reads_as (declared_syntax declared) ps (trim_slashes base_url) m} = {vals} \<and>
      fill_template (Some t) declared vals = Some (Ok (Some (trim_slashes base_url)))"
    and "template_values (Some t) declared base_url = Some (Err Ambiguous) \<longleftrightarrow>
      (\<exists>m m'. m \<noteq> m' \<and> reads_as (declared_syntax declared) ps (trim_slashes base_url) m \<and>
        reads_as (declared_syntax declared) ps (trim_slashes base_url) m')"
proof -
  define A where "A = all_fills ps (trim_slashes base_url) (declared_syntax declared) []"
  have fills: "fills ps (trim_slashes base_url) (declared_syntax declared) [] [] 2 = take 2 A"
    using fills_take(1) [of "[]" 2] by (simp add: A_def)
  have reads: "{m. reads_as (declared_syntax declared) ps (trim_slashes base_url) m} = set A"
    using all_fills_reads [OF s(1)] by (auto simp: A_def)
  have "distinct A" unfolding A_def by (rule all_fills_distinct [OF s(1)]) (simp add: bt_wf_def)
  then have shape: "A = [] \<or> (\<exists>v. A = [v]) \<or> (\<exists>v w B. A = v # w # B \<and> v \<noteq> w)"
    by (metis distinct_length_2_or_more list.exhaust)
  have result: "template_values (Some t) declared base_url =
      (case take 2 A of [] \<Rightarrow> Some (Err NotThisEndpoint)
       | [vals] \<Rightarrow> (case fill_template (Some t) declared vals of None \<Rightarrow> None
           | Some r \<Rightarrow> Some (if r = Ok (Some (trim_slashes base_url)) then Ok vals else Err NotThisEndpoint))
       | _ \<Rightarrow> Some (Err Ambiguous))"
    unfolding template_values_def using parts s(2) by (simp add: Let_def fills)
  show "template_values (Some t) declared base_url = Some (Ok vals) \<longleftrightarrow>
      {m. reads_as (declared_syntax declared) ps (trim_slashes base_url) m} = {vals} \<and>
      fill_template (Some t) declared vals = Some (Ok (Some (trim_slashes base_url)))"
    unfolding result reads using shape
  proof (elim disjE exE conjE)
    fix v w B assume "A = v # w # B" "v \<noteq> w"
    then have "set A \<noteq> {vals}" by (metis insert_iff list.simps(15) singletonD)
    then show "(case take 2 A of [] \<Rightarrow> Some (Err NotThisEndpoint)
       | [vals] \<Rightarrow> (case fill_template (Some t) declared vals of None \<Rightarrow> None
           | Some r \<Rightarrow> Some (if r = Ok (Some (trim_slashes base_url)) then Ok vals else Err NotThisEndpoint))
       | _ \<Rightarrow> Some (Err Ambiguous)) = Some (Ok vals) \<longleftrightarrow>
       set A = {vals} \<and> fill_template (Some t) declared vals = Some (Ok (Some (trim_slashes base_url)))"
      using \<open>A = v # w # B\<close> by simp blast
  qed (auto split: option.splits)
  have "template_values (Some t) declared base_url = Some (Err Ambiguous) \<longleftrightarrow> (\<exists>m m'. m \<noteq> m' \<and> m \<in> set A \<and> m' \<in> set A)"
    unfolding result using shape
  proof (elim disjE exE conjE)
    fix v w B assume "A = v # w # B" "v \<noteq> w"
    then have "\<exists>m m'. m \<noteq> m' \<and> m \<in> set A \<and> m' \<in> set A" by (metis list.set_intros)
    then show "(case take 2 A of [] \<Rightarrow> Some (Err NotThisEndpoint)
       | [vals] \<Rightarrow> (case fill_template (Some t) declared vals of None \<Rightarrow> None
           | Some r \<Rightarrow> Some (if r = Ok (Some (trim_slashes base_url)) then Ok vals else Err NotThisEndpoint))
       | _ \<Rightarrow> Some (Err Ambiguous)) = Some (Err Ambiguous) \<longleftrightarrow> (\<exists>m m'. m \<noteq> m' \<and> m \<in> set A \<and> m' \<in> set A)"
      using \<open>A = v # w # B\<close> by simp
  qed (auto split: option.splits)
  then show "template_values (Some t) declared base_url = Some (Err Ambiguous) \<longleftrightarrow>
      (\<exists>m m'. m \<noteq> m' \<and> reads_as (declared_syntax declared) ps (trim_slashes base_url) m \<and>
        reads_as (declared_syntax declared) ps (trim_slashes base_url) m')"
    unfolding reads [symmetric] by simp
qed

text \<open>The URL that checked values fill reads as those values, unless a value was written encoded.\<close>

lemma trim_slashes_id: "s = [] \<or> last s \<noteq> CHR ''/'' \<Longrightarrow> trim_slashes s = s"
  by (cases s rule: rev_cases) (auto simp: trim_slashes_def)

lemma admitted_nonempty:
  assumes "syntax_well_formed syn" "value_admits syn v"
  shows "v \<noteq> []"
proof
  assume "v = []"
  with assms show False
  proof (cases syn)
    case (EnumSyntax allowed)
    with assms(2) \<open>v = []\<close> obtain i where i: "i < length allowed" "allowed ! i = []"
      by (auto simp: list_ex_iff in_set_conv_nth)
    then have "(i, []) \<in> set (enumerate 0 allowed)" by (force simp: in_set_enumerate_eq)
    with assms(1) EnumSyntax show False by (fastforce simp: list_all_iff)
  qed (auto simp: is_dns_label_def starts_with_def strip_suffix_def split: if_splits)
qed

lemma render_join: "render g (join_parts ps qs) = render g ps @ render g qs"
  by (induction ps qs rule: join_parts.induct) auto

lemma part_params_join: "part_params (join_parts ps qs) = part_params ps \<union> part_params qs"
  by (induction ps qs rule: join_parts.induct) (auto simp: part_params_iff)


definition region_keys :: config_keys where
  "region_keys = [(''r'', \<lparr>ck_syntax = AwsRegion, ck_required = True, ck_description = [], ck_default = None\<rparr>)]"

lemma region_keys_ok:
  "config_keys_detail region_keys = Ok ()" "template_detail (Some region_keys) ''https://b.{r}.aws.com/v1'' = Ok ()"
  "family_config_check (Some region_keys) [(''r'', ''us-east-1'')] = Ok ()"
  "fill_template (Some ''https://b.{r}.aws.com/v1'') (Some region_keys) [(''r'', ''us-east-1'')] = Some (Ok (Some ''https://b.us-east-1.aws.com/v1''))"
  by code_simp+




section \<open>A parameter that chooses the domain\<close>

text \<open>
  The last literal of the host must hold a dot that is not at its front, which is meant to keep two
  labels fixed. A parameter that joins its first label, or a trailing dot, leaves only one.
\<close>

lemma parameter_may_choose_domain:
  "template_detail (Some region_keys) ''https://{r}x.com/v1'' = Ok ()"
  "template_detail (Some region_keys) ''https://{r}.com./v1'' = Ok ()"
  "fill_template (Some ''https://{r}x.com/v1'') (Some region_keys) [(''r'', ''evil'')] = Some (Ok (Some ''https://evilx.com/v1''))"
  "fill_template (Some ''https://{r}.com./v1'') (Some region_keys) [(''r'', ''evil'')] = Some (Ok (Some ''https://evil.com./v1''))"
  by code_simp+

end
