(* ===== verification/Credentials.thy ===== *)
theory Credentials
  imports Value_Syntax
begin

text \<open>
  \<open>south-provider-api/src/credentials.rs\<close>: credential sections of a manifest, their recipes, and what
  gate 1 checks of them. Seconds are \<open>u32\<close> values that are only compared, so they are natural
  numbers; \<open>now_plus\<close> is an \<open>i64\<close>. The texts of refusals are values of \<open>credential_detail\<close> and the types below it, one
  constructor per message, grouped by the function that writes them; constructors such as \<open>InStep\<close> stand for
  the text the code prints around an inner message.
\<close>

section \<open>Rust idioms\<close>

text \<open>A loop whose body may return early with an error.\<close>

fun try_each :: "('a \<Rightarrow> (unit, 'e) result) \<Rightarrow> 'a list \<Rightarrow> (unit, 'e) result" where
  "try_each f [] = Ok ()"
| "try_each f (x # xs) = and_then (f x) (\<lambda>_. try_each f xs)"

text \<open>\<open>if bad { return Err(e) }\<close>.\<close>

definition refuse_if :: "bool \<Rightarrow> 'e \<Rightarrow> (unit, 'e) result" where
  "refuse_if bad e = (if bad then Err e else Ok ())"

definition bt_contains :: "('k :: linorder, 'v) btree \<Rightarrow> 'k \<Rightarrow> bool" where
  "bt_contains m k \<longleftrightarrow> bt_get m k \<noteq> None"

text \<open>\<open>str::parse\<close> for an unsigned integer type with the given maximum.\<close>

definition parse_unsigned :: "nat \<Rightarrow> string \<Rightarrow> nat option" where
  "parse_unsigned bound s =
     (let digits = (if starts_with ''+'' s then drop 1 s else s) in
      if digits \<noteq> [] \<and> list_all is_ascii_digit digits \<and> decimal_value digits \<le> bound
      then Some (decimal_value digits) else None)"

text \<open>A \<open>BTreeSet\<close> collected from an iterator, as its elements in order.\<close>

definition collect_set :: "('a :: linorder) list \<Rightarrow> 'a list" where
  "collect_set xs = remdups (sort xs)"

section \<open>The section\<close>

definition CREDENTIAL_RECIPE_SCHEMA :: string where
  "CREDENTIAL_RECIPE_SCHEMA = ''south.credential-recipe.v1''"

definition MAX_RECIPE_STEPS :: nat where
  "MAX_RECIPE_STEPS = 4"

definition MAX_PRESENT_CANDIDATES :: nat where
  "MAX_PRESENT_CANDIDATES = 4"

definition HOST_MIN_TTL_SECONDS :: nat where
  "HOST_MIN_TTL_SECONDS = 60"

definition HOST_MAX_TTL_SECONDS :: nat where
  "HOST_MAX_TTL_SECONDS = 24 * 60 * 60"

record credential_field =
  cf_secret :: bool
  cf_required :: bool
  cf_syntax :: "value_syntax option"
  cf_media :: "string option"
  cf_default :: "string option"
  cf_description :: "string option"

record import_rule =
  ir_file :: string
  ir_pointers :: "string list"

datatype seed_clock =
    EpochSeconds string | EpochMillis string | JwtExp string | RelativeSeconds string | Rfc3339OrEpochSeconds string

record credential_seed =
  sd_file :: string
  sd_slot :: string
  sd_present :: string
  sd_expires_at :: seed_clock

datatype secret_slot = StaticSlot | Minted string | FieldSlot string

record present_field =
  pf_field :: string
  pf_validity_seconds :: nat

datatype present_candidate = CandidateOutput string | CandidateField present_field

type_synonym present = "present_candidate list"

datatype present_wire = WireOne string | WireCandidates "present_candidate list"

fun present_of_wire :: "present_wire \<Rightarrow> present" where
  "present_of_wire (WireOne out) = [CandidateOutput out]"
| "present_of_wire (WireCandidates candidates) = candidates"

fun wire_of_present :: "present \<Rightarrow> present_wire" where
  "wire_of_present [CandidateOutput out] = WireOne out"
| "wire_of_present candidates = WireCandidates candidates"

datatype without_refresh_material = UseStored | FailWithout

datatype select_predicate = FieldPresent string | AllPresent "string list" | FieldIn string "string list"

record select_rule =
  sr_when :: "select_predicate option"
  sr_recipe :: string

record attribute =
  at_field :: "string option"
  at_selected_recipe :: bool
  at_export :: bool
  at_persist :: bool

datatype step_kind = Oauth2Token | JwtSign | HttpExchange | HttpProbe
datatype step_method = GetMethod | PostMethod
datatype step_encoding = FormEncoding | JsonEncoding
datatype jwt_algorithm = HS256 | RS256 | ES256

record field_ref =
  fr_field :: string
  fr_pointer :: "string option"

datatype constant_value = ConstText string | ConstInteger int | ConstBoolean bool

record value_source =
  vs_constant :: "constant_value option"
  vs_field :: "string option"
  vs_pointer :: "string option"
  vs_output :: "string option"
  vs_now_plus :: "int option"
  vs_endpoint_of :: "string option"

record step_auth =
  sa_scheme :: string
  sa_value :: value_source

datatype status_action = ReauthRequired | TransientStatus | Goto string

record jwt_claim =
  jc_token :: string
  jc_pointer :: string

record step_extract =
  ex_pointer :: "string option"
  ex_relative_seconds :: "string option"
  ex_epoch_seconds :: "string option"
  ex_epoch_millis :: "string option"
  ex_jwt_exp :: "string option"
  ex_fixed_window :: "bool option"
  ex_jwt_claim :: "jwt_claim option"
  ex_secret :: bool
  ex_optional :: bool
  ex_must_equal_field :: "string option"

record recipe_step =
  sp_id :: string
  sp_kind :: step_kind
  sp_method :: "step_method option"
  sp_endpoint :: "string option"
  sp_endpoint_params :: "(string, field_ref) btree"
  sp_encoding :: "step_encoding option"
  sp_params :: "(string, value_source) btree"
  sp_headers :: "(string, value_source) btree"
  sp_auth :: "step_auth option"
  sp_requires :: "string list"
  sp_on_status :: "(string, status_action) btree"
  sp_extract :: "(string, step_extract) btree"
  sp_alg :: "jwt_algorithm option"
  sp_key :: "value_source option"
  sp_claims :: "(string, value_source) btree"

record recipe =
  rc_steps :: "recipe_step list"
  rc_present :: "present option"
  rc_rotates_refresh_material :: "bool option"
  rc_write_back :: "(string, string) btree"
  rc_refresh_margin_seconds :: "nat option"
  rc_without_refresh_material :: "without_refresh_material option"
  rc_default_seconds :: "nat option"
  rc_fixed_validity_seconds :: "nat option"
  rc_min_ttl_seconds :: "nat option"
  rc_max_ttl_seconds :: "nat option"
  rc_select :: "select_rule list"
  rc_attributes :: "(string, attribute) btree"

definition recipe_default :: recipe where
  "recipe_default = \<lparr>rc_steps = [], rc_present = None, rc_rotates_refresh_material = None, rc_write_back = [],
     rc_refresh_margin_seconds = None, rc_without_refresh_material = None, rc_default_seconds = None,
     rc_fixed_validity_seconds = None, rc_min_ttl_seconds = None, rc_max_ttl_seconds = None, rc_select = [],
     rc_attributes = []\<rparr>"

record credentials =
  cr_schema :: string
  cr_families :: "string list option"
  cr_fields :: "(string, credential_field) btree"
  cr_require_one_of :: "string list list"
  cr_import :: "(string, import_rule) btree"
  cr_seed :: "credential_seed option"
  cr_slots :: "(string, secret_slot) btree"
  cr_recipes :: "(string, recipe) btree"
  cr_attributes :: "(string, attribute) btree"

section \<open>Grammars\<close>

definition is_name :: "string \<Rightarrow> bool" where
  "is_name v \<longleftrightarrow> 1 \<le> length v \<and> length v \<le> 64 \<and> list_all (\<lambda>b. lower_or_digit b \<or> b = CHR ''_'') v"

text \<open>Every piece after a \<open>~\<close> begins with \<open>0\<close> or \<open>1\<close>.\<close>

definition escapes_valid :: "string \<Rightarrow> bool" where
  "escapes_valid s \<longleftrightarrow> list_all (\<lambda>rest. starts_with ''0'' rest \<or> starts_with ''1'' rest) (drop 1 (split_on (CHR ''~'') s))"

definition is_pointer :: "string \<Rightarrow> bool \<Rightarrow> bool" where
  "is_pointer pointer root_allowed =
     (if pointer = [] then root_allowed
      else length pointer \<le> 256 \<and> starts_with ''/'' pointer \<and> escapes_valid (drop 1 pointer))"

definition RESERVED_STEP_HEADERS :: "string list" where
  "RESERVED_STEP_HEADERS =
     [''authorization'', ''proxy-authorization'', ''cookie'', ''host'', ''content-length'', ''content-type'',
      ''transfer-encoding'', ''connection'']"

definition is_header_name :: "string \<Rightarrow> bool" where
  "is_header_name name \<longleftrightarrow>
     1 \<le> length name \<and> length name \<le> 64 \<and> list_all (\<lambda>b. lower_or_digit b \<or> b = CHR ''-'') name \<and>
     name \<notin> set RESERVED_STEP_HEADERS"

definition is_name_like_file :: "string \<Rightarrow> bool" where
  "is_name_like_file kind \<longleftrightarrow>
     1 \<le> length kind \<and> length kind \<le> 64 \<and> list_all (\<lambda>b. lower_or_digit b \<or> b = CHR ''-'') kind"

section \<open>What a section offers\<close>

definition applies_to :: "credentials \<Rightarrow> string \<Rightarrow> bool" where
  "applies_to self family =
     (case cr_families self of None \<Rightarrow> True | Some families \<Rightarrow> list_ex (\<lambda>f. f = family) families)"

definition credential_endpoints :: "credentials \<Rightarrow> string list" where
  "credential_endpoints self =
     collect_set (List.map_filter sp_endpoint (concat (map (\<lambda>(_, recipe). rc_steps recipe) (cr_recipes self))))"

definition attribute_names :: "credentials \<Rightarrow> string list" where
  "attribute_names self =
     collect_set (map fst (cr_attributes self) @ concat (map (\<lambda>(_, recipe). map fst (rc_attributes recipe)) (cr_recipes self)))"

definition field_admits :: "credentials \<Rightarrow> attribute \<Rightarrow> string \<Rightarrow> bool" where
  "field_admits self attr v =
     (case Option.bind (Option.bind (at_field attr) (bt_get (cr_fields self))) cf_syntax of
        None \<Rightarrow> False
      | Some syn \<Rightarrow> value_admits syn v)"

definition recipe_attribute_admits :: "credentials \<Rightarrow> string \<Rightarrow> recipe \<times> attribute \<Rightarrow> bool" where
  "recipe_attribute_admits self v =
     (\<lambda>(recipe, attr).
        if at_selected_recipe attr then list_ex (\<lambda>rule. sr_recipe rule = v) (rc_select recipe)
        else (case at_field attr of None \<Rightarrow> False | Some _ \<Rightarrow> field_admits self attr v))"

definition admits_attribute :: "credentials \<Rightarrow> string \<Rightarrow> string \<Rightarrow> bool option" where
  "admits_attribute self name v =
     (case bt_get (cr_attributes self) name of
        Some attr \<Rightarrow> Some (field_admits self attr v)
      | None \<Rightarrow>
          let declared = List.map_filter (\<lambda>(_, recipe). map_option (Pair recipe) (bt_get (rc_attributes recipe) name)) (cr_recipes self)
          in if declared = [] then None else Some (list_ex (recipe_attribute_admits self v) declared))"

definition cr_is_secret :: "credentials \<Rightarrow> string \<Rightarrow> bool option" where
  "cr_is_secret self field = map_option cf_secret (bt_get (cr_fields self) field)"

section \<open>Gate 1\<close>

datatype source_detail =
    NotOneSource | PointerWithoutField | SourceFieldUndeclared string | SourcePointerMalformed | OutputNotEarlier string

datatype attribute_detail =
    AttributeMalformed string | AttributeNotFromOneField string | AttributeFromSecret string | AttributeWithoutSyntax string

datatype field_detail =
    FieldNameMalformed string | FieldSyntaxMalformed string | SecretFieldHasDefault string | FieldDefaultLacksSyntax string
  | FieldMediaMalformed string | RequireOneOfMalformed | ImportOfUndeclaredField string | ImportMalformed string

datatype present_detail =
    PresentCount | PresentRepeated | PresentOutputUnknown string | PresentFieldNotSecret string | PresentValidityOutsideClamp string

datatype selector_detail =
    SelectorNotOnlySelect | SelectorAttributeMalformed string | SelectEmpty | SelectTestsMisplaced | SelectNamesNoRecipe string
  | SelectNamesNoCompleteRecipe | SelectorAttributeShared string string | SelectTestsUndeclaredField string
  | AllPresentMalformed | FieldInNotNonSecret string

datatype http_detail =
    HttpStepWithoutEndpoint | BadStepTemplate template_error | EndpointParamsMismatch | EndpointParamUndeclaredField string
  | EndpointParamNotPlainField string | EndpointHostParamNotLabelSafe string
  | OauthIsPost | MethodUndeclared | EncodingUndeclared | JwtPartsOnHttpStep

datatype jwt_detail =
    HttpPartsOnJwtStep | JwtWithoutAlg | JwtWithoutKey | JwtKeyNotSecret | JwtWithoutClaims
  | InClaim string source_detail | ConstantSubject | EndpointOfNotAud

datatype extraction_detail =
    ExtractionNameMalformed string | ExtractionNotOneSource string | ExtractionPointerMalformed string
  | ExtractionClaimMalformed string | ExtractionMustEqualUndeclared string

datatype step_detail =
    RequiresUndeclaredField string | InHttpStep http_detail | InJwtStep jwt_detail | InValue string source_detail
  | EndpointOfNotAClaim | StepHeaderMalformed string | AuthSchemeMalformed | InAuth source_detail
  | StatusKeyMalformed string | GotoNotLater string | InExtraction extraction_detail

datatype assertion_detail =
    EndpointOfNamesNoHttpStep string | AssertionAudMismatch string string | AssertionSentTwice string

datatype recipe_detail =
    InSelector selector_detail | StepCount | RotationUndeclared | RotatesWithoutWriteBack | WriteBackWithoutRotation
  | TtlBoundsCrossed | MarginTooLong | TtlOutsideClamp | InAttributes attribute_detail | StepIdMalformedOrRepeated string
  | InStep string step_detail | FixedWindowWithoutValidity | PresentRequired | InPresent present_detail
  | PresentedJwtOutlivesExp | WriteBackTargetNotSecret string | WriteBackSourceUnknown string | InAssertion assertion_detail

datatype credential_detail =
    BadSchema | FamiliesNotDistinct | FamilyUndeclared string | InFields field_detail
  | SlotUndeclared string | SlotNamesNoRecipe string string | SlotNamesNoSecretField string | SlotWithoutSource string
  | SeedSlotNotMinted | SeedMalformed | InSectionAttributes attribute_detail | AttributeInSectionAndRecipe string string
  | RecipeNameMalformed string | InRecipe string recipe_detail

definition check_field :: "string \<times> credential_field \<Rightarrow> (unit, field_detail) result" where
  "check_field = (\<lambda>(name, field).
     and_then (refuse_if (\<not> is_name name) (FieldNameMalformed name)) (\<lambda>_.
     and_then (refuse_if (case cf_syntax field of None \<Rightarrow> False | Some syn \<Rightarrow> \<not> syntax_well_formed syn) (FieldSyntaxMalformed name)) (\<lambda>_.
     and_then
       (case cf_default field of
          None \<Rightarrow> Ok ()
        | Some standing \<Rightarrow>
            and_then (refuse_if (cf_secret field) (SecretFieldHasDefault name)) (\<lambda>_.
              refuse_if (case cf_syntax field of None \<Rightarrow> False | Some syn \<Rightarrow> \<not> value_admits syn standing)
                (FieldDefaultLacksSyntax name))) (\<lambda>_.
       refuse_if (case cf_media field of None \<Rightarrow> False
           | Some media \<Rightarrow> CHR ''/'' \<notin> set media \<or> \<not> list_all (byte_in 33 126) media) (FieldMediaMalformed name)))))"

definition check_fields :: "credentials \<Rightarrow> (unit, field_detail) result" where
  "check_fields self =
     and_then (try_each check_field (cr_fields self)) (\<lambda>_.
     and_then (try_each (\<lambda>group.
         refuse_if (group = [] \<or> list_ex (\<lambda>field. \<not> bt_contains (cr_fields self) field) group) RequireOneOfMalformed)
       (cr_require_one_of self)) (\<lambda>_.
     try_each (\<lambda>(field, rule).
         and_then (refuse_if (\<not> bt_contains (cr_fields self) field) (ImportOfUndeclaredField field)) (\<lambda>_.
           refuse_if (\<not> is_name_like_file (ir_file rule) \<or> ir_pointers rule = [] \<or>
             list_ex (\<lambda>pointer. \<not> is_pointer pointer True) (ir_pointers rule)) (ImportMalformed field)))
       (cr_import self)))"

definition check_attributes :: "credentials \<Rightarrow> (string, attribute) btree \<Rightarrow> (unit, attribute_detail) result" where
  "check_attributes self =
     try_each (\<lambda>(name, declared).
       and_then (refuse_if (\<not> is_name name \<or> \<not> at_export declared) (AttributeMalformed name)) (\<lambda>_.
         (case (if at_selected_recipe declared then None else at_field declared) of
            None \<Rightarrow> Err (AttributeNotFromOneField name)
          | Some field \<Rightarrow>
              and_then (refuse_if (cr_is_secret self field \<noteq> Some False) (AttributeFromSecret name)) (\<lambda>_.
                refuse_if (case bt_get (cr_fields self) field of None \<Rightarrow> True | Some declared \<Rightarrow> cf_syntax declared = None)
                  (AttributeWithoutSyntax name)))))"

definition within_host_clamp :: "nat \<Rightarrow> bool" where
  "within_host_clamp seconds \<longleftrightarrow> HOST_MIN_TTL_SECONDS \<le> seconds \<and> seconds \<le> HOST_MAX_TTL_SECONDS"

definition check_present :: "credentials \<Rightarrow> present \<Rightarrow> string list \<Rightarrow> (unit, present_detail) result" where
  "check_present self candidates outputs =
     and_then (refuse_if (candidates = [] \<or> MAX_PRESENT_CANDIDATES < length candidates) PresentCount) (\<lambda>_.
     try_each (\<lambda>(index, candidate).
       and_then (refuse_if (candidate \<in> set (take index candidates)) PresentRepeated) (\<lambda>_.
         (case candidate of
            CandidateOutput out \<Rightarrow> refuse_if (out \<notin> set outputs) (PresentOutputUnknown out)
          | CandidateField pf \<Rightarrow>
              and_then (refuse_if (cr_is_secret self (pf_field pf) \<noteq> Some True) (PresentFieldNotSecret (pf_field pf))) (\<lambda>_.
                refuse_if (\<not> within_host_clamp (pf_validity_seconds pf)) (PresentValidityOutsideClamp (pf_field pf))))))
       (enumerate 0 candidates))"

definition check_predicate :: "credentials \<Rightarrow> select_predicate option \<Rightarrow> (unit, selector_detail) result" where
  "check_predicate self test =
     (case test of
        Some (FieldPresent field) \<Rightarrow> refuse_if (cr_is_secret self field = None) (SelectTestsUndeclaredField field)
      | Some (AllPresent tested) \<Rightarrow>
          refuse_if (tested = [] \<or> list_ex (\<lambda>field. cr_is_secret self field = None) tested) AllPresentMalformed
      | Some (FieldIn field vals) \<Rightarrow>
          refuse_if (cr_is_secret self field \<noteq> Some False \<or> vals = []) (FieldInNotNonSecret field)
      | None \<Rightarrow> Ok ())"

definition check_selector :: "credentials \<Rightarrow> string \<Rightarrow> recipe \<Rightarrow> (unit, selector_detail) result" where
  "check_selector self name recipe =
     (let only_select = recipe_default\<lparr>rc_select := rc_select recipe, rc_attributes := rc_attributes recipe\<rparr> in
      and_then (refuse_if (recipe \<noteq> only_select) SelectorNotOnlySelect) (\<lambda>_.
      and_then (try_each (\<lambda>(attr, declared).
          refuse_if (\<not> is_name attr \<or> \<not> at_export declared \<or> \<not> at_selected_recipe declared \<or> at_field declared \<noteq> None \<or>
            at_persist declared) (SelectorAttributeMalformed attr)) (rc_attributes recipe)) (\<lambda>_.
      and_then
        (if rc_select recipe = [] then Err SelectEmpty
         else refuse_if (sr_when (last (rc_select recipe)) \<noteq> None \<or>
           list_ex (\<lambda>rule. sr_when rule = None) (butlast (rc_select recipe))) SelectTestsMisplaced) (\<lambda>_.
      try_each (\<lambda>rule.
          (case bt_get (cr_recipes self) (sr_recipe rule) of
             None \<Rightarrow> Err (SelectNamesNoRecipe (sr_recipe rule))
           | Some target \<Rightarrow>
               and_then (refuse_if (sr_recipe rule = name \<or> rc_select target \<noteq> []) SelectNamesNoCompleteRecipe) (\<lambda>_.
               and_then
                 (case find (bt_contains (rc_attributes target)) (map fst (rc_attributes recipe)) of
                    None \<Rightarrow> Ok ()
                  | Some shared \<Rightarrow> Err (SelectorAttributeShared shared (sr_recipe rule))) (\<lambda>_.
               check_predicate self (sr_when rule)))))
        (rc_select recipe)))))"

definition check_source :: "credentials \<Rightarrow> value_source \<Rightarrow> string list \<Rightarrow> (unit, source_detail) result" where
  "check_source self source outputs =
     (let present = [vs_constant source \<noteq> None, vs_field source \<noteq> None, vs_output source \<noteq> None,
        vs_now_plus source \<noteq> None, vs_endpoint_of source \<noteq> None] in
      and_then (refuse_if (length (filter (\<lambda>p. p) present) \<noteq> 1) NotOneSource) (\<lambda>_.
      and_then (refuse_if (vs_pointer source \<noteq> None \<and> vs_field source = None) PointerWithoutField) (\<lambda>_.
      and_then
        (case vs_field source of
           None \<Rightarrow> Ok ()
         | Some field \<Rightarrow>
             and_then (refuse_if (\<not> bt_contains (cr_fields self) field) (SourceFieldUndeclared field)) (\<lambda>_.
               refuse_if (case vs_pointer source of None \<Rightarrow> False | Some pointer \<Rightarrow> \<not> is_pointer pointer False)
                 SourcePointerMalformed)) (\<lambda>_.
        (case vs_output source of
           None \<Rightarrow> Ok ()
         | Some out \<Rightarrow> refuse_if (out \<notin> set outputs) (OutputNotEarlier out))))))"

text \<open>
  Indexing \<open>endpoint_params\<close> cannot fail once the names agree; \<open>endpoint_param_indexed\<close> below shows it, so
  the branch of a missing key repeats the mismatch.
\<close>

definition check_endpoint_param :: "credentials \<Rightarrow> (string, field_ref) btree \<Rightarrow> string \<times> bool \<Rightarrow> (unit, http_detail) result" where
  "check_endpoint_param self refs = (\<lambda>(param, in_host).
     (case bt_get refs param of
        None \<Rightarrow> Err EndpointParamsMismatch
      | Some reference \<Rightarrow>
          (case bt_get (cr_fields self) (fr_field reference) of
             None \<Rightarrow> Err (EndpointParamUndeclaredField param)
           | Some field \<Rightarrow>
               (case (if \<not> cf_secret field \<and> fr_pointer reference = None then cf_syntax field else None) of
                  None \<Rightarrow> Err (EndpointParamNotPlainField param)
                | Some syn \<Rightarrow> refuse_if (in_host \<and> \<not> is_label_safe syn) (EndpointHostParamNotLabelSafe param)))))"

definition check_http_step :: "credentials \<Rightarrow> recipe_step \<Rightarrow> (unit, http_detail) result" where
  "check_http_step self step =
     (case sp_endpoint step of
        None \<Rightarrow> Err HttpStepWithoutEndpoint
      | Some endpoint \<Rightarrow>
          and_then (map_err BadStepTemplate (template_params endpoint)) (\<lambda>params.
          let named = collect_set (map fst params) in
          and_then (refuse_if (length named \<noteq> length (sp_endpoint_params step) \<or>
              list_ex (\<lambda>key. key \<notin> set named) (map fst (sp_endpoint_params step))) EndpointParamsMismatch) (\<lambda>_.
          and_then (try_each (check_endpoint_param self (sp_endpoint_params step)) params) (\<lambda>_.
          and_then
            (case (sp_kind step, sp_method step) of
               (Oauth2Token, None) \<Rightarrow> Ok ()
             | (Oauth2Token, Some PostMethod) \<Rightarrow> Ok ()
             | (Oauth2Token, Some GetMethod) \<Rightarrow> Err OauthIsPost
             | (_, None) \<Rightarrow> Err MethodUndeclared
             | _ \<Rightarrow> Ok ()) (\<lambda>_.
          and_then (refuse_if (sp_params step \<noteq> [] \<and> sp_encoding step = None \<and> sp_method step \<noteq> Some GetMethod) EncodingUndeclared) (\<lambda>_.
            refuse_if (sp_alg step \<noteq> None \<or> sp_key step \<noteq> None \<or> sp_claims step \<noteq> []) JwtPartsOnHttpStep))))))"

definition check_jwt_step :: "credentials \<Rightarrow> recipe_step \<Rightarrow> string list \<Rightarrow> (unit, jwt_detail) result" where
  "check_jwt_step self step outputs =
     and_then (refuse_if (sp_endpoint step \<noteq> None \<or> sp_method step \<noteq> None \<or> sp_params step \<noteq> [] \<or> sp_headers step \<noteq> [] \<or>
       sp_auth step \<noteq> None \<or> sp_on_status step \<noteq> [] \<or> sp_extract step \<noteq> []) HttpPartsOnJwtStep) (\<lambda>_.
     and_then (ok_or (sp_alg step) JwtWithoutAlg) (\<lambda>_.
     and_then (ok_or (sp_key step) JwtWithoutKey) (\<lambda>key.
     and_then (refuse_if (Option.bind (vs_field key) (cr_is_secret self) \<noteq> Some True) JwtKeyNotSecret) (\<lambda>_.
     and_then (refuse_if (sp_claims step = []) JwtWithoutClaims) (\<lambda>_.
     try_each (\<lambda>(claim, source).
         and_then (map_err (InClaim claim) (check_source self source outputs)) (\<lambda>_.
         and_then (refuse_if (claim = ''sub'' \<and> vs_constant source \<noteq> None) ConstantSubject) (\<lambda>_.
           refuse_if (vs_endpoint_of source \<noteq> None \<and> claim \<noteq> ''aud'') EndpointOfNotAud)))
       (sp_claims step))))))"

definition extract_sources :: "step_extract \<Rightarrow> string option list" where
  "extract_sources ex = [ex_pointer ex, ex_relative_seconds ex, ex_epoch_seconds ex, ex_epoch_millis ex, ex_jwt_exp ex]"

definition check_extraction :: "credentials \<Rightarrow> string \<times> step_extract \<Rightarrow> (unit, extraction_detail) result" where
  "check_extraction self = (\<lambda>(name, ex).
     let sources = extract_sources ex;
         n = length (filter (\<lambda>source. source \<noteq> None) sources) + (if ex_fixed_window ex = Some True then 1 else 0) +
           (if ex_jwt_claim ex \<noteq> None then 1 else 0)
     in
     and_then (refuse_if (\<not> is_name name) (ExtractionNameMalformed name)) (\<lambda>_.
     and_then (refuse_if (n \<noteq> 1 \<or> ex_fixed_window ex = Some False) (ExtractionNotOneSource name)) (\<lambda>_.
     and_then (refuse_if (list_ex (\<lambda>source. case source of None \<Rightarrow> False | Some pointer \<Rightarrow> \<not> is_pointer pointer False) sources)
       (ExtractionPointerMalformed name)) (\<lambda>_.
     and_then (refuse_if (case ex_jwt_claim ex of None \<Rightarrow> False
         | Some claim \<Rightarrow> \<not> is_pointer (jc_token claim) False \<or> \<not> is_pointer (jc_pointer claim) False)
       (ExtractionClaimMalformed name)) (\<lambda>_.
       refuse_if (case ex_must_equal_field ex of None \<Rightarrow> False | Some field \<Rightarrow> \<not> bt_contains (cr_fields self) field)
         (ExtractionMustEqualUndeclared name))))))"

definition check_extractions :: "credentials \<Rightarrow> recipe_step \<Rightarrow> (unit, extraction_detail) result" where
  "check_extractions self step = try_each (check_extraction self) (sp_extract step)"

definition status_key_ok :: "string \<Rightarrow> bool" where
  "status_key_ok status \<longleftrightarrow>
     status \<in> {''4xx'', ''5xx''} \<or>
     length status = 3 \<and> (case parse_unsigned 65535 status of None \<Rightarrow> False | Some code \<Rightarrow> 100 \<le> code \<and> code \<le> 599)"

definition check_step :: "credentials \<Rightarrow> recipe_step \<Rightarrow> string list \<Rightarrow> string list \<Rightarrow> (unit, step_detail) result" where
  "check_step self step outputs later =
     and_then (try_each (\<lambda>field. refuse_if (\<not> bt_contains (cr_fields self) field) (RequiresUndeclaredField field)) (sp_requires step)) (\<lambda>_.
     and_then
       (if sp_kind step = JwtSign then map_err InJwtStep (check_jwt_step self step outputs)
        else map_err InHttpStep (check_http_step self step)) (\<lambda>_.
     and_then (try_each (\<lambda>(name, source).
         and_then (map_err (InValue name) (check_source self source outputs)) (\<lambda>_.
           refuse_if (vs_endpoint_of source \<noteq> None) EndpointOfNotAClaim))
       (sp_params step @ sp_headers step)) (\<lambda>_.
     and_then
       (case find (\<lambda>name. \<not> is_header_name name) (map fst (sp_headers step)) of
          None \<Rightarrow> Ok ()
        | Some name \<Rightarrow> Err (StepHeaderMalformed name)) (\<lambda>_.
     and_then
       (case sp_auth step of
          None \<Rightarrow> Ok ()
        | Some auth \<Rightarrow>
            and_then (refuse_if (\<not> is_header_name (to_ascii_lowercase (sa_scheme auth))) AuthSchemeMalformed) (\<lambda>_.
              map_err InAuth (check_source self (sa_value auth) outputs))) (\<lambda>_.
     and_then (try_each (\<lambda>(status, action).
         and_then (refuse_if (\<not> status_key_ok status) (StatusKeyMalformed status)) (\<lambda>_.
           (case action of
              Goto target \<Rightarrow> refuse_if (target \<notin> set later) (GotoNotLater target)
            | _ \<Rightarrow> Ok ())))
       (sp_on_status step)) (\<lambda>_.
     map_err InExtraction (check_extractions self step)))))))"

definition jwt_output :: "recipe_step \<Rightarrow> string" where
  "jwt_output step = sp_id step @ ''.jwt''"

definition assertion_receivers :: "recipe \<Rightarrow> string \<Rightarrow> string list" where
  "assertion_receivers recipe jwt =
     map sp_id (filter (\<lambda>step. list_ex (\<lambda>source. vs_output source = Some jwt)
         (map snd (sp_params step) @ map snd (sp_headers step) @
          (case sp_auth step of None \<Rightarrow> [] | Some auth \<Rightarrow> [sa_value auth])))
       (rc_steps recipe))"

definition check_assertion :: "recipe \<Rightarrow> recipe_step \<Rightarrow> (unit, assertion_detail) result" where
  "check_assertion recipe signer =
     and_then
       (case List.map_filter (\<lambda>(_, source). vs_endpoint_of source) (sp_claims signer) of
          target # _ \<Rightarrow>
            refuse_if (\<not> list_ex (\<lambda>step. sp_id step = target \<and> sp_kind step \<noteq> JwtSign) (rc_steps recipe))
              (EndpointOfNamesNoHttpStep target)
        | [] \<Rightarrow> Ok ()) (\<lambda>_.
       (case assertion_receivers recipe (jwt_output signer) of
          [] \<Rightarrow> Ok ()
        | [receiver] \<Rightarrow>
            refuse_if (Option.bind (bt_get (sp_claims signer) ''aud'') vs_endpoint_of \<noteq> Some receiver)
              (AssertionAudMismatch (sp_id signer) receiver)
        | _ \<Rightarrow> Err (AssertionSentTwice (sp_id signer))))"

definition check_assertions :: "recipe \<Rightarrow> (unit, assertion_detail) result" where
  "check_assertions recipe = try_each (check_assertion recipe) (filter (\<lambda>step. sp_kind step = JwtSign) (rc_steps recipe))"

definition step_outputs :: "recipe_step \<Rightarrow> string list" where
  "step_outputs step =
     (if sp_kind step = JwtSign then [jwt_output step] else []) @ map (\<lambda>(out, _). sp_id step @ ''.'' @ out) (sp_extract step)"

definition uses_fixed_window :: "recipe_step \<Rightarrow> bool" where
  "uses_fixed_window step \<longleftrightarrow> list_ex (\<lambda>(_, ex). ex_fixed_window ex = Some True) (sp_extract step)"

text \<open>The loop over the steps, with the outputs so far and whether a fixed window was used.\<close>

fun check_steps :: "credentials \<Rightarrow> string list \<Rightarrow> nat \<Rightarrow> recipe_step list \<Rightarrow> string list \<Rightarrow> bool
    \<Rightarrow> (string list \<times> bool, recipe_detail) result" where
  "check_steps self ids index [] outputs fixed_window = Ok (outputs, fixed_window)"
| "check_steps self ids index (step # steps) outputs fixed_window =
     and_then (refuse_if (\<not> is_name (sp_id step) \<or> sp_id step \<in> set (take index ids)) (StepIdMalformedOrRepeated (sp_id step))) (\<lambda>_.
     and_then (map_err (InStep (sp_id step)) (check_step self step outputs (drop (index + 1) ids))) (\<lambda>_.
       check_steps self ids (index + 1) steps (outputs @ step_outputs step) (fixed_window \<or> uses_fixed_window step)))"

definition check_presented_jwt :: "recipe \<Rightarrow> present \<Rightarrow> (unit, recipe_detail) result" where
  "check_presented_jwt recipe candidates =
     try_each (\<lambda>signer.
       (case (Option.bind (bt_get (sp_claims signer) ''exp'') vs_now_plus, rc_default_seconds recipe) of
          (Some lifetime, Some cached) \<Rightarrow> refuse_if (\<not> int cached \<le> lifetime) PresentedJwtOutlivesExp
        | _ \<Rightarrow> Err PresentedJwtOutlivesExp))
       (filter (\<lambda>step. sp_kind step = JwtSign \<and> list_ex (\<lambda>candidate. candidate = CandidateOutput (jwt_output step)) candidates)
         (rc_steps recipe))"

definition check_write_back :: "credentials \<Rightarrow> recipe \<Rightarrow> string list \<Rightarrow> (unit, recipe_detail) result" where
  "check_write_back self recipe outputs =
     try_each (\<lambda>(field, out).
       and_then (refuse_if (cr_is_secret self field \<noteq> Some True) (WriteBackTargetNotSecret field)) (\<lambda>_.
         refuse_if (out \<notin> set outputs) (WriteBackSourceUnknown out))) (rc_write_back recipe)"

definition check_ttl :: "recipe \<Rightarrow> (unit, recipe_detail) result" where
  "check_ttl recipe =
     and_then
       (case (rc_min_ttl_seconds recipe, rc_max_ttl_seconds recipe) of
          (Some shortest, Some longest) \<Rightarrow> refuse_if (longest < shortest) TtlBoundsCrossed
        | _ \<Rightarrow> Ok ()) (\<lambda>_.
     and_then
       (case rc_refresh_margin_seconds recipe of
          None \<Rightarrow> Ok ()
        | Some margin \<Rightarrow>
            refuse_if ((case rc_min_ttl_seconds recipe of None \<Rightarrow> HOST_MIN_TTL_SECONDS | Some shortest \<Rightarrow> shortest) \<le> margin) MarginTooLong) (\<lambda>_.
     try_each (\<lambda>ttl. refuse_if (\<not> within_host_clamp ttl) TtlOutsideClamp)
       (List.map_filter (\<lambda>ttl. ttl) [rc_min_ttl_seconds recipe, rc_max_ttl_seconds recipe])))"

definition check_recipe :: "credentials \<Rightarrow> string \<Rightarrow> recipe \<Rightarrow> (unit, recipe_detail) result" where
  "check_recipe self name recipe =
     (if rc_select recipe \<noteq> [] then map_err InSelector (check_selector self name recipe)
      else
        and_then (refuse_if (rc_steps recipe = [] \<or> MAX_RECIPE_STEPS < length (rc_steps recipe)) StepCount) (\<lambda>_.
        and_then (ok_or (rc_rotates_refresh_material recipe) RotationUndeclared) (\<lambda>rotates.
        and_then (refuse_if (rotates \<and> rc_write_back recipe = []) RotatesWithoutWriteBack) (\<lambda>_.
        and_then (refuse_if (\<not> rotates \<and> rc_write_back recipe \<noteq> []) WriteBackWithoutRotation) (\<lambda>_.
        and_then (check_ttl recipe) (\<lambda>_.
        and_then (map_err InAttributes (check_attributes self (rc_attributes recipe))) (\<lambda>_.
        and_then (check_steps self (map sp_id (rc_steps recipe)) 0 (rc_steps recipe) [] False) (\<lambda>(outputs, fixed_window).
        and_then (refuse_if (fixed_window \<and> rc_fixed_validity_seconds recipe = None) FixedWindowWithoutValidity) (\<lambda>_.
        and_then (ok_or (rc_present recipe) PresentRequired) (\<lambda>candidates.
        and_then (map_err InPresent (check_present self candidates outputs)) (\<lambda>_.
        and_then (check_presented_jwt recipe candidates) (\<lambda>_.
        and_then (check_write_back self recipe outputs) (\<lambda>_.
        map_err InAssertion (check_assertions recipe))))))))))))))"

fun seed_clock_pointer :: "seed_clock \<Rightarrow> string" where
  "seed_clock_pointer (EpochSeconds pointer) = pointer"
| "seed_clock_pointer (EpochMillis pointer) = pointer"
| "seed_clock_pointer (JwtExp pointer) = pointer"
| "seed_clock_pointer (RelativeSeconds pointer) = pointer"
| "seed_clock_pointer (Rfc3339OrEpochSeconds pointer) = pointer"

definition check_families :: "credentials \<Rightarrow> string list \<Rightarrow> (unit, credential_detail) result" where
  "check_families self providers =
     (case cr_families self of
        None \<Rightarrow> Ok ()
      | Some families \<Rightarrow>
          and_then (refuse_if (families = [] \<or> length (collect_set families) \<noteq> length families) FamiliesNotDistinct) (\<lambda>_.
            (case find (\<lambda>family. family \<notin> set providers) families of
               None \<Rightarrow> Ok ()
             | Some family \<Rightarrow> Err (FamilyUndeclared family))))"

definition check_slot :: "credentials \<Rightarrow> string list \<Rightarrow> string \<times> secret_slot \<Rightarrow> (unit, credential_detail) result" where
  "check_slot self secret_slots = (\<lambda>(slot, kind).
     and_then (refuse_if (slot \<notin> set secret_slots) (SlotUndeclared slot)) (\<lambda>_.
       (case kind of
          Minted recipe \<Rightarrow> refuse_if (\<not> bt_contains (cr_recipes self) recipe) (SlotNamesNoRecipe slot recipe)
        | FieldSlot field \<Rightarrow> refuse_if (cr_is_secret self field \<noteq> Some True) (SlotNamesNoSecretField slot)
        | StaticSlot \<Rightarrow> Ok ())))"

definition check_seed :: "credentials \<Rightarrow> (unit, credential_detail) result" where
  "check_seed self =
     (case cr_seed self of
        None \<Rightarrow> Ok ()
      | Some seed \<Rightarrow>
          and_then (refuse_if (\<not> (case bt_get (cr_slots self) (sd_slot seed) of Some (Minted _) \<Rightarrow> True | _ \<Rightarrow> False)) SeedSlotNotMinted) (\<lambda>_.
            refuse_if (\<not> is_name_like_file (sd_file seed) \<or> \<not> is_pointer (sd_present seed) False \<or>
              \<not> is_pointer (seed_clock_pointer (sd_expires_at seed)) False) SeedMalformed))"

definition check_attribute_names :: "credentials \<Rightarrow> (unit, credential_detail) result" where
  "check_attribute_names self =
     (case List.map_filter (\<lambda>(recipe, declared).
         map_option (\<lambda>name. (name, recipe)) (find (bt_contains (cr_attributes self)) (map fst (rc_attributes declared))))
       (cr_recipes self) of
        [] \<Rightarrow> Ok ()
      | (name, recipe) # _ \<Rightarrow> Err (AttributeInSectionAndRecipe name recipe))"

definition credentials_check :: "credentials \<Rightarrow> string list \<Rightarrow> string list \<Rightarrow> (unit, credential_detail) result" where
  "credentials_check self secret_slots providers =
     and_then (refuse_if (cr_schema self \<noteq> CREDENTIAL_RECIPE_SCHEMA) BadSchema) (\<lambda>_.
     and_then (check_families self providers) (\<lambda>_.
     and_then (map_err InFields (check_fields self)) (\<lambda>_.
     and_then (try_each (check_slot self secret_slots) (cr_slots self)) (\<lambda>_.
     and_then
       (case find (\<lambda>slot. bt_get (cr_slots self) slot \<in> {None, Some StaticSlot}) secret_slots of
          None \<Rightarrow> Ok ()
        | Some slot \<Rightarrow> Err (SlotWithoutSource slot)) (\<lambda>_.
     and_then (check_seed self) (\<lambda>_.
     and_then (map_err InSectionAttributes (check_attributes self (cr_attributes self))) (\<lambda>_.
     and_then (check_attribute_names self) (\<lambda>_.
     try_each (\<lambda>(name, recipe).
         and_then (refuse_if (\<not> is_name name) (RecipeNameMalformed name)) (\<lambda>_.
           map_err (InRecipe name) (check_recipe self name recipe)))
       (cr_recipes self)))))))))"

section \<open>What an accepted section guarantees\<close>

named_theorems gate_simps

lemma try_each_Ok [gate_simps]: "try_each f xs = Ok u \<longleftrightarrow> (\<forall>x \<in> set xs. f x = Ok ())"
  by (induction xs) (auto simp: and_then_Ok_iff)

lemma refuse_if_Ok [gate_simps]: "refuse_if bad e = Ok u \<longleftrightarrow> \<not> bad"
  by (simp add: refuse_if_def)

lemma find_case_Ok [gate_simps]: "(case find P xs of None \<Rightarrow> Ok () | Some x \<Rightarrow> Err (f x)) = Ok u \<longleftrightarrow> (\<forall>x \<in> set xs. \<not> P x)"
  by (auto simp: find_None_iff find_Some_iff split: option.splits)

declare and_then_Ok_iff [gate_simps] map_err_Ok [gate_simps] ok_or_Ok_iff [gate_simps]

lemma collect_set [simp]: "set (collect_set xs) = set xs" "sorted (collect_set xs)" "distinct (collect_set xs)"
  by (simp_all add: collect_set_def)

lemma length_collect_set: "length (collect_set xs) = card (set xs)"
  using distinct_card [OF collect_set(3), of xs] by simp

lemma bt_contains_iff: "bt_contains m k \<longleftrightarrow> k \<in> fst ` set m"
  by (auto simp: bt_contains_def bt_get_map_of map_of_eq_None_iff)

text \<open>\<open>PresentV1\<close> survives its wire form.\<close>

lemma present_wire_round_trip: "present_of_wire (wire_of_present candidates) = candidates"
  by (induction candidates rule: wire_of_present.induct) auto

text \<open>The names agree exactly, so \<open>endpoint_params\<close> has every parameter.\<close>

lemma endpoint_param_indexed:
  assumes "bt_wf refs" "length (collect_set names) = length refs" "\<forall>key \<in> set (map fst refs). key \<in> set names" "param \<in> set names"
  shows "bt_get refs param \<noteq> None"
proof -
  have "card (set (map fst refs)) = length refs"
    using bt.entries_distinct [OF assms(1)] distinct_card by fastforce
  then have "set (map fst refs) = set names"
    using assms(2,3) by (intro card_subset_eq) (auto simp: length_collect_set)
  with assms(4) show ?thesis by (simp add: bt_get_map_of map_of_eq_None_iff)
qed

lemma check_steps_Ok:
  "check_steps self ids index steps outputs fixed_window = Ok (outputs', fixed_window') \<Longrightarrow>
    outputs' = outputs @ concat (map step_outputs steps) \<and> fixed_window' = (fixed_window \<or> list_ex uses_fixed_window steps) \<and>
    (\<forall>i < length steps. is_name (sp_id (steps ! i)) \<and> sp_id (steps ! i) \<notin> set (take (index + i) ids) \<and>
      check_step self (steps ! i) (outputs @ concat (map step_outputs (take i steps))) (drop (index + i + 1) ids) = Ok ())"
proof (induction steps arbitrary: index outputs fixed_window)
  case (Cons step steps)
  from Cons.prems have head: "is_name (sp_id step)" "sp_id step \<notin> set (take index ids)"
      "check_step self step outputs (drop (index + 1) ids) = Ok ()"
    and tail: "check_steps self ids (index + 1) steps (outputs @ step_outputs step) (fixed_window \<or> uses_fixed_window step) = Ok (outputs', fixed_window')"
    by (auto simp: gate_simps)
  note ih = Cons.IH [OF tail]
  have "is_name (sp_id ((step # steps) ! i)) \<and> sp_id ((step # steps) ! i) \<notin> set (take (index + i) ids) \<and>
      check_step self ((step # steps) ! i) (outputs @ concat (map step_outputs (take i (step # steps)))) (drop (index + i + 1) ids) = Ok ()"
    if "i < length (step # steps)" for i
    using that head ih by (cases i) auto
  with ih show ?case by auto
qed simp

text \<open>The values a step sends, and the ones it signs.\<close>

definition sent_sources :: "recipe_step \<Rightarrow> value_source list" where
  "sent_sources step = map snd (sp_params step) @ map snd (sp_headers step) @ (case sp_auth step of None \<Rightarrow> [] | Some auth \<Rightarrow> [sa_value auth])"

lemma assertion_receivers_sent:
  "assertion_receivers recipe jwt = map sp_id (filter (\<lambda>step. list_ex (\<lambda>source. vs_output source = Some jwt) (sent_sources step)) (rc_steps recipe))"
  by (simp add: assertion_receivers_def sent_sources_def)

lemma check_source_Ok:
  assumes "check_source self source outputs = Ok ()"
  shows "vs_output source = Some out \<Longrightarrow> out \<in> set outputs" "vs_field source = Some field \<Longrightarrow> bt_contains (cr_fields self) field"
  using assms by (auto simp: check_source_def Let_def gate_simps)

lemma check_http_step_Ok:
  assumes "check_http_step self step = Ok ()"
  obtains endpoint params where "sp_endpoint step = Some endpoint" "template_params endpoint = Ok params" "sp_claims step = []"
    "\<And>param in_host. (param, in_host) \<in> set params \<Longrightarrow> \<exists>reference field syn. bt_get (sp_endpoint_params step) param = Some reference \<and>
      fr_pointer reference = None \<and> bt_get (cr_fields self) (fr_field reference) = Some field \<and> \<not> cf_secret field \<and>
      cf_syntax field = Some syn \<and> (in_host \<longrightarrow> is_label_safe syn)"
proof -
  obtain endpoint params where ep: "sp_endpoint step = Some endpoint" "template_params endpoint = Ok params" "sp_claims step = []"
      "\<forall>p \<in> set params. check_endpoint_param self (sp_endpoint_params step) p = Ok ()"
    using assms by (auto simp: check_http_step_def Let_def gate_simps split: option.splits)
  show thesis
  proof (rule that [OF ep(1-3)])
    fix param in_host
    assume "(param, in_host) \<in> set params"
    with ep(4) have "check_endpoint_param self (sp_endpoint_params step) (param, in_host) = Ok ()" by blast
    then show "\<exists>reference field syn. bt_get (sp_endpoint_params step) param = Some reference \<and>
      fr_pointer reference = None \<and> bt_get (cr_fields self) (fr_field reference) = Some field \<and> \<not> cf_secret field \<and>
      cf_syntax field = Some syn \<and> (in_host \<longrightarrow> is_label_safe syn)"
      by (auto simp: check_endpoint_param_def gate_simps split: option.splits if_splits)
  qed
qed

lemma check_jwt_step_Ok:
  assumes "check_jwt_step self step outputs = Ok ()"
  shows "sent_sources step = []" "\<exists>key field. sp_key step = Some key \<and> vs_field key = Some field \<and> cr_is_secret self field = Some True"
    "(claim, source) \<in> set (sp_claims step) \<Longrightarrow> check_source self source outputs = Ok ()"
    "(''sub'', source) \<in> set (sp_claims step) \<Longrightarrow> vs_constant source = None"
  using assms unfolding check_jwt_step_def
  by (auto simp: gate_simps sent_sources_def bind_eq_Some_conv dest: bspec)

lemma check_step_Ok:
  assumes "check_step self step outputs later = Ok ()"
  shows "source \<in> set (sent_sources step @ map snd (sp_claims step)) \<Longrightarrow> check_source self source outputs = Ok ()"
    "(status, Goto target) \<in> set (sp_on_status step) \<Longrightarrow> target \<in> set later"
    "(header, v) \<in> set (sp_headers step) \<Longrightarrow> is_header_name header"
    "sp_kind step = JwtSign \<Longrightarrow> check_jwt_step self step outputs = Ok ()"
    "sp_kind step \<noteq> JwtSign \<Longrightarrow> check_http_step self step = Ok ()"
proof -
  have parts: "sp_kind step = JwtSign \<Longrightarrow> check_jwt_step self step outputs = Ok ()"
      "sp_kind step \<noteq> JwtSign \<Longrightarrow> check_http_step self step = Ok ()"
      "\<And>name source. (name, source) \<in> set (sp_params step @ sp_headers step) \<Longrightarrow> check_source self source outputs = Ok ()"
      "\<And>auth. sp_auth step = Some auth \<Longrightarrow> check_source self (sa_value auth) outputs = Ok ()"
      "(header, v) \<in> set (sp_headers step) \<Longrightarrow> is_header_name header"
      "(status, Goto target) \<in> set (sp_on_status step) \<Longrightarrow> target \<in> set later"
    using assms unfolding check_step_def by (auto simp: gate_simps split: if_splits option.splits dest: bspec)
  then show "sp_kind step = JwtSign \<Longrightarrow> check_jwt_step self step outputs = Ok ()"
      "sp_kind step \<noteq> JwtSign \<Longrightarrow> check_http_step self step = Ok ()" "(header, v) \<in> set (sp_headers step) \<Longrightarrow> is_header_name header"
      "(status, Goto target) \<in> set (sp_on_status step) \<Longrightarrow> target \<in> set later" by blast+
  have claims: "check_source self source outputs = Ok ()" if "source \<in> set (map snd (sp_claims step))" for source
  proof (cases "sp_kind step = JwtSign")
    case True
    with that check_jwt_step_Ok(3) [OF parts(1)] show ?thesis by auto
  next
    case False
    then show ?thesis using that by (elim check_http_step_Ok [OF parts(2)]) simp
  qed
  show "check_source self source outputs = Ok ()" if "source \<in> set (sent_sources step @ map snd (sp_claims step))"
  proof -
    from that have "(\<exists>name. (name, source) \<in> set (sp_params step @ sp_headers step)) \<or>
        (\<exists>auth. sp_auth step = Some auth \<and> source = sa_value auth) \<or> source \<in> set (map snd (sp_claims step))"
      by (cases "sp_auth step") (auto simp: sent_sources_def)
    then show ?thesis using parts(3,4) claims by blast
  qed
qed

lemma accepted_recipe:
  assumes "credentials_check self secret_slots providers = Ok ()" "(name, recipe) \<in> set (cr_recipes self)"
  shows "is_name name" "check_recipe self name recipe = Ok ()"
  using assms by (auto simp: credentials_check_def gate_simps)

lemma complete_recipe_steps:
  assumes "check_recipe self name recipe = Ok ()" "rc_select recipe = []" "i < length (rc_steps recipe)"
  shows "length (rc_steps recipe) \<le> MAX_RECIPE_STEPS" "is_name (sp_id (rc_steps recipe ! i))"
    "sp_id (rc_steps recipe ! i) \<notin> set (take i (map sp_id (rc_steps recipe)))"
    "check_step self (rc_steps recipe ! i) (concat (map step_outputs (take i (rc_steps recipe)))) (drop (i + 1) (map sp_id (rc_steps recipe))) = Ok ()"
    "check_assertions recipe = Ok ()" "check_write_back self recipe (concat (map step_outputs (rc_steps recipe))) = Ok ()"
    "check_attributes self (rc_attributes recipe) = Ok ()"
proof -
  obtain outputs fixed_window where steps:
      "check_steps self (map sp_id (rc_steps recipe)) 0 (rc_steps recipe) [] False = Ok (outputs, fixed_window)"
    and rest: "length (rc_steps recipe) \<le> MAX_RECIPE_STEPS" "check_write_back self recipe outputs = Ok ()"
      "check_assertions recipe = Ok ()" "check_attributes self (rc_attributes recipe) = Ok ()"
    using assms(1,2) by (auto simp: check_recipe_def gate_simps)
  from check_steps_Ok [OF steps] rest assms(3)
  show "length (rc_steps recipe) \<le> MAX_RECIPE_STEPS" "is_name (sp_id (rc_steps recipe ! i))"
    "sp_id (rc_steps recipe ! i) \<notin> set (take i (map sp_id (rc_steps recipe)))"
    "check_step self (rc_steps recipe ! i) (concat (map step_outputs (take i (rc_steps recipe)))) (drop (i + 1) (map sp_id (rc_steps recipe))) = Ok ()"
    "check_assertions recipe = Ok ()" "check_write_back self recipe (concat (map step_outputs (rc_steps recipe))) = Ok ()"
    "check_attributes self (rc_attributes recipe) = Ok ()" by auto
qed

lemma earlier_output: "out \<in> set (concat (map step_outputs (take i steps))) \<Longrightarrow> i \<le> length steps \<Longrightarrow> \<exists>j < i. out \<in> set (step_outputs (steps ! j))"
  by (auto simp: in_set_conv_nth) (metis in_set_conv_nth nth_mem)

lemma later_id: "target \<in> set (drop (i + 1) (map sp_id steps)) \<Longrightarrow> \<exists>j > i. j < length steps \<and> sp_id (steps ! j) = target"
proof -
  assume "target \<in> set (drop (i + 1) (map sp_id steps))"
  then obtain k where "k < length steps - (i + 1)" "target = sp_id (steps ! (i + 1 + k))" by (auto simp: in_set_conv_nth)
  then show ?thesis by (intro exI [of _ "i + 1 + k"]) simp
qed

lemma assertion_audience:
  assumes "check_assertions recipe = Ok ()" "signer \<in> set (rc_steps recipe)" "sp_kind signer = JwtSign"
    and "receiver \<in> set (rc_steps recipe)" "source \<in> set (sent_sources receiver)" "vs_output source = Some (jwt_output signer)"
  shows "\<exists>aud. bt_get (sp_claims signer) ''aud'' = Some aud \<and> vs_endpoint_of aud = Some (sp_id receiver)"
proof -
  have "check_assertion recipe signer = Ok ()"
    using assms(1-3) by (auto simp: check_assertions_def gate_simps)
  moreover have "sp_id receiver \<in> set (assertion_receivers recipe (jwt_output signer))"
    using assms(4-6) by (auto simp: assertion_receivers_sent list_ex_iff)
  ultimately show ?thesis
    by (auto simp: check_assertion_def gate_simps bind_eq_Some_conv split: list.splits)
qed

lemma distinct_ids: "(\<And>i. i < length xs \<Longrightarrow> xs ! i \<notin> set (take i xs)) \<Longrightarrow> distinct xs"
proof (induction xs rule: rev_induct)
  case (snoc x xs)
  have "distinct xs" using snoc.prems by (intro snoc.IH) (metis butlast_snoc length_append_singleton less_SucI nth_append take_butlast)
  moreover have "x \<notin> set xs" using snoc.prems [of "length xs"] by simp
  ultimately show ?case by simp
qed simp

text \<open>What a step of a complete recipe may do.\<close>

definition jumps_forward :: "recipe_step list \<Rightarrow> nat \<Rightarrow> bool" where
  "jumps_forward steps i \<longleftrightarrow> (\<forall>(status, action) \<in> set (sp_on_status (steps ! i)). \<forall>target. action = Goto target \<longrightarrow>
     (\<exists>j > i. j < length steps \<and> sp_id (steps ! j) = target))"

definition reads_earlier :: "recipe_step list \<Rightarrow> nat \<Rightarrow> bool" where
  "reads_earlier steps i \<longleftrightarrow> (\<forall>source \<in> set (sent_sources (steps ! i) @ map snd (sp_claims (steps ! i))). \<forall>out.
     vs_output source = Some out \<longrightarrow> (\<exists>j < i. out \<in> set (step_outputs (steps ! j))))"

definition http_confined :: "credentials \<Rightarrow> recipe_step \<Rightarrow> bool" where
  "http_confined self step \<longleftrightarrow> (\<exists>endpoint params. sp_endpoint step = Some endpoint \<and> endpoint \<in> set (credential_endpoints self) \<and>
     template_params endpoint = Ok params \<and> (\<forall>(param, in_host) \<in> set params. \<exists>reference field syn.
       bt_get (sp_endpoint_params step) param = Some reference \<and> fr_pointer reference = None \<and>
       bt_get (cr_fields self) (fr_field reference) = Some field \<and> \<not> cf_secret field \<and> cf_syntax field = Some syn \<and>
       (in_host \<longrightarrow> is_label_safe syn)))"

definition signing_confined :: "credentials \<Rightarrow> recipe_step list \<Rightarrow> recipe_step \<Rightarrow> bool" where
  "signing_confined self steps step \<longleftrightarrow>
     (\<exists>key field. sp_key step = Some key \<and> vs_field key = Some field \<and> cr_is_secret self field = Some True) \<and>
     (\<forall>source. (''sub'', source) \<in> set (sp_claims step) \<longrightarrow> vs_constant source = None) \<and>
     (\<forall>receiver \<in> set steps. \<forall>source \<in> set (sent_sources receiver). vs_output source = Some (jwt_output step) \<longrightarrow>
       (\<exists>aud. bt_get (sp_claims step) ''aud'' = Some aud \<and> vs_endpoint_of aud = Some (sp_id receiver)))"

lemma http_step_confined:
  assumes "check_http_step self step = Ok ()" "(name, recipe) \<in> set (cr_recipes self)" "step \<in> set (rc_steps recipe)"
  shows "http_confined self step"
proof (rule check_http_step_Ok [OF assms(1)])
  fix endpoint params
  assume endpoint: "sp_endpoint step = Some endpoint" "template_params endpoint = Ok params"
  assume reads: "\<And>param in_host. (param, in_host) \<in> set params \<Longrightarrow> \<exists>reference field syn.
      bt_get (sp_endpoint_params step) param = Some reference \<and> fr_pointer reference = None \<and>
      bt_get (cr_fields self) (fr_field reference) = Some field \<and> \<not> cf_secret field \<and> cf_syntax field = Some syn \<and>
      (in_host \<longrightarrow> is_label_safe syn)"
  have "step \<in> set (concat (map (\<lambda>(_, recipe). rc_steps recipe) (cr_recipes self)))"
    using assms(2,3) by force
  then have "endpoint \<in> set (credential_endpoints self)"
    using endpoint(1) by (force simp: credential_endpoints_def List.map_filter_def)
  with endpoint reads show ?thesis unfolding http_confined_def by blast
qed

text \<open>
  Claim C20. In an accepted credential section every complete recipe is confined: at most four steps with
  distinct names; a status action jumps only forward; a value a step sends or signs from an output
  takes it from an earlier step; an HTTP step goes to an \<open>https\<close> template that the section's endpoint
  list names, whose parameters come from whole non-secret fields with a syntax, inside a DNS label
  where they stand in the host; a signing key is a secret field, a signed subject is not a constant,
  and a signed assertion that a step sends has that step as its audience.
\<close>

theorem accepted_recipes_confined:
  assumes ok: "credentials_check self secret_slots providers = Ok ()" and member: "(name, recipe) \<in> set (cr_recipes self)"
    and complete: "rc_select recipe = []"
  shows "length (rc_steps recipe) \<le> 4 \<and> distinct (map sp_id (rc_steps recipe)) \<and>
    (\<forall>i < length (rc_steps recipe). jumps_forward (rc_steps recipe) i \<and> reads_earlier (rc_steps recipe) i \<and>
      (if sp_kind (rc_steps recipe ! i) = JwtSign then signing_confined self (rc_steps recipe) (rc_steps recipe ! i)
       else http_confined self (rc_steps recipe ! i)))"
proof (intro conjI allI impI)
  note recipe = accepted_recipe(2) [OF ok member]
  note checked = complete_recipe_steps [OF recipe complete]
  show "length (rc_steps recipe) \<le> 4"
    using checked(1) by (cases "rc_steps recipe = []") (auto simp: MAX_RECIPE_STEPS_def)
  show "distinct (map sp_id (rc_steps recipe))"
    using checked(3) by (intro distinct_ids) simp
  fix i assume i: "i < length (rc_steps recipe)"
  note stepped = check_step_Ok [OF checked(4) [OF i]]
  show "jumps_forward (rc_steps recipe) i"
    unfolding jumps_forward_def using later_id [OF stepped(2)] by blast
  show "reads_earlier (rc_steps recipe) i"
    unfolding reads_earlier_def using earlier_output [OF check_source_Ok(1) [OF stepped(1)]] i by simp
  show "if sp_kind (rc_steps recipe ! i) = JwtSign then signing_confined self (rc_steps recipe) (rc_steps recipe ! i)
      else http_confined self (rc_steps recipe ! i)"
  proof (cases "sp_kind (rc_steps recipe ! i) = JwtSign")
    case True
    then show ?thesis
      using check_jwt_step_Ok(2,4) [OF stepped(4) [OF True]] assertion_audience [OF checked(5) [OF i] nth_mem [OF i] True]
      unfolding signing_confined_def by auto
  next
    case False
    then show ?thesis using http_step_confined [OF stepped(5) [OF False] member nth_mem [OF i]] by simp
  qed
qed

text \<open>A service account: a signed assertion is exchanged for an access token.\<close>

definition no_source :: value_source where
  "no_source = \<lparr>vs_constant = None, vs_field = None, vs_pointer = None, vs_output = None, vs_now_plus = None, vs_endpoint_of = None\<rparr>"

definition plain_step :: "string \<Rightarrow> step_kind \<Rightarrow> recipe_step" where
  "plain_step step_id kind = \<lparr>sp_id = step_id, sp_kind = kind, sp_method = None, sp_endpoint = None, sp_endpoint_params = [],
     sp_encoding = None, sp_params = [], sp_headers = [], sp_auth = None, sp_requires = [], sp_on_status = [], sp_extract = [],
     sp_alg = None, sp_key = None, sp_claims = []\<rparr>"

definition pointer_extract :: "string \<Rightarrow> step_extract" where
  "pointer_extract pointer = \<lparr>ex_pointer = Some pointer, ex_relative_seconds = None, ex_epoch_seconds = None,
     ex_epoch_millis = None, ex_jwt_exp = None, ex_fixed_window = None, ex_jwt_claim = None, ex_secret = True,
     ex_optional = False, ex_must_equal_field = None\<rparr>"

definition sample_recipe :: recipe where
  "sample_recipe = recipe_default\<lparr>
     rc_steps := [
       (plain_step ''sign'' JwtSign)\<lparr>sp_alg := Some RS256, sp_key := Some (no_source\<lparr>vs_field := Some ''key''\<rparr>),
         sp_claims := [(''aud'', no_source\<lparr>vs_endpoint_of := Some ''swap''\<rparr>), (''exp'', no_source\<lparr>vs_now_plus := Some 3600\<rparr>),
           (''sub'', no_source\<lparr>vs_field := Some ''mail''\<rparr>)]\<rparr>,
       (plain_step ''swap'' Oauth2Token)\<lparr>sp_endpoint := Some ''https://oauth2.example.com/token'', sp_encoding := Some FormEncoding,
         sp_params := [(''assertion'', no_source\<lparr>vs_output := Some ''sign.jwt''\<rparr>)],
         sp_on_status := [(''4xx'', ReauthRequired)], sp_extract := [(''token'', pointer_extract ''/access_token'')]\<rparr>],
     rc_present := Some [CandidateOutput ''swap.token''], rc_rotates_refresh_material := Some False\<rparr>"

definition sample_credentials :: credentials where
  "sample_credentials = \<lparr>cr_schema = CREDENTIAL_RECIPE_SCHEMA, cr_families = None,
     cr_fields = [(''key'', \<lparr>cf_secret = True, cf_required = True, cf_syntax = None, cf_media = None, cf_default = None, cf_description = None\<rparr>),
       (''mail'', \<lparr>cf_secret = False, cf_required = True, cf_syntax = Some (PrintableAscii 64), cf_media = None, cf_default = None, cf_description = None\<rparr>)],
     cr_require_one_of = [], cr_import = [], cr_seed = None, cr_slots = [(''bearer'', Minted ''mint'')],
     cr_recipes = [(''mint'', sample_recipe)],
     cr_attributes = [(''account'', \<lparr>at_field = Some ''mail'', at_selected_recipe = False, at_export = True, at_persist = False\<rparr>)]\<rparr>"

lemma sample_credentials_accepted: "credentials_check sample_credentials [''bearer''] [''vertex''] = Ok ()"
  by code_simp

theorem accepted_recipes_confined_witness:
  "length (rc_steps sample_recipe) \<le> 4 \<and> signing_confined sample_credentials (rc_steps sample_recipe) (rc_steps sample_recipe ! 0) \<and>
    http_confined sample_credentials (rc_steps sample_recipe ! 1)"
proof -
  have "(''mint'', sample_recipe) \<in> set (cr_recipes sample_credentials)" by (simp add: sample_credentials_def)
  moreover have "rc_select sample_recipe = []" by (simp add: sample_recipe_def recipe_default_def)
  moreover have "length (rc_steps sample_recipe) = 2" "sp_kind (rc_steps sample_recipe ! 0) = JwtSign"
      "sp_kind (rc_steps sample_recipe ! 1) = Oauth2Token"
    by (simp_all add: sample_recipe_def plain_step_def)
  ultimately show ?thesis
    using accepted_recipes_confined [OF sample_credentials_accepted, of "''mint''" sample_recipe]
    by (metis less_2_cases_iff one_less_numeral_iff semiring_norm(76) step_kind.distinct(1) zero_less_numeral)
qed

section \<open>Exported attributes\<close>

text \<open>The kernel's \<open>ComponentValues\<close> grammar, as \<open>values.rs\<close> states it.\<close>

definition component_value :: "string \<Rightarrow> bool" where
  "component_value v \<longleftrightarrow> 1 \<le> length v \<and> length v \<le> 4096 \<and> list_all (byte_in 0x20 0x7E) v"

lemma printable_bytes:
  "is_ascii_alphanumeric b \<Longrightarrow> byte_in 0x20 0x7E b" "is_ascii_lowercase b \<Longrightarrow> byte_in 0x20 0x7E b" "is_ascii_digit b \<Longrightarrow> byte_in 0x20 0x7E b"
  "byte_in 0x21 0x7E b \<Longrightarrow> byte_in 0x20 0x7E b"
  by (auto simp: is_ascii_alphanumeric_def is_ascii_alphabetic_def is_ascii_uppercase_def is_ascii_lowercase_def is_ascii_digit_def byte_in_def)

lemma printable_symbols:
  "b \<in> set '':/._+=,@*-'' \<Longrightarrow> byte_in 0x20 0x7E b" "b = CHR ''-'' \<Longrightarrow> byte_in 0x20 0x7E b" "b = CHR ''_'' \<Longrightarrow> byte_in 0x20 0x7E b"
  "is_token_byte b \<Longrightarrow> byte_in 0x20 0x7E b"
  by (auto simp: byte_in_def is_token_byte_def dest: printable_bytes(1))

lemma dns_label_printable: "is_dns_label v \<Longrightarrow> component_value v"
  unfolding is_dns_label_def component_value_def list_all_iff using printable_bytes(2,3) printable_symbols(2) by fastforce

lemma name_printable: "is_name v \<Longrightarrow> component_value v"
  unfolding is_name_def component_value_def list_all_iff using printable_bytes(2,3) printable_symbols(3) by fastforce

lemma admitted_component_value:
  assumes "syntax_well_formed syn" "value_admits syn v"
  shows "component_value v"
proof (cases syn)
  case AwsArn
  with assms have "v \<noteq> []" "length v \<le> 2048" "list_all (\<lambda>b. is_ascii_alphanumeric b \<or> b \<in> set '':/._+=,@*-'') v"
    using admitted_nonempty [OF assms] by simp_all
  then show ?thesis
    unfolding component_value_def list_all_iff using printable_bytes(1) printable_symbols(1) by (simp add: Suc_le_eq) blast
next
  case ApiVersionDate
  define date where "date = (case strip_suffix ''-preview'' v of Some d \<Rightarrow> d | None \<Rightarrow> v)"
  have v: "v = date \<or> v = date @ ''-preview''"
    by (auto simp: date_def strip_suffix_Some_iff split: option.splits)
  have date: "length date = 10" "\<forall>(index, b) \<in> set (enumerate 0 date). if index = 4 \<or> index = 7 then b = CHR ''-'' else is_ascii_digit b"
    using assms(2) ApiVersionDate by (auto simp: date_def [symmetric] Let_def list_all_iff)
  have "byte_in 0x20 0x7E (date ! i)" if "i < length date" for i
  proof -
    have "(i, date ! i) \<in> set (enumerate 0 date)" using that by (force simp: in_set_enumerate_eq)
    with date(2) have "date ! i = CHR ''-'' \<or> is_ascii_digit (date ! i)" by (auto split: if_splits)
    then show ?thesis using printable_bytes(3) printable_symbols(2) by blast
  qed
  then have "list_all (byte_in 0x20 0x7E) date" by (simp add: list_all_length)
  moreover have "list_all (byte_in 0x20 0x7E) ''-preview''" by code_simp
  ultimately show ?thesis using v date(1) by (auto simp: component_value_def)
next
  case (EnumSyntax allowed)
  then obtain i where i: "i < length allowed" "allowed ! i = v"
    using assms(2) by (auto simp: list_ex_iff in_set_conv_nth)
  then have "(i, v) \<in> set (enumerate 0 allowed)" by (force simp: in_set_enumerate_eq)
  with assms(1) EnumSyntax have "1 \<le> length v" "length v \<le> 64" "list_all (byte_in 0x21 0x7E) v"
    by (auto simp: list_all_iff)
  then show ?thesis unfolding component_value_def list_all_iff using printable_bytes(4) by auto
next
  case (PrintableAscii bound)
  with assms show ?thesis by (auto simp: component_value_def MAX_PRINTABLE_ASCII_def Suc_le_eq)
next
  case TokenSyntax
  with assms show ?thesis using printable_symbols(4) by (auto simp: component_value_def list_all_iff)
next
  case DigitsSyntax
  with assms show ?thesis using printable_bytes(3) by (auto simp: component_value_def list_all_iff)
qed (use assms dns_label_printable in simp_all)

definition attribute_source :: "credentials \<Rightarrow> string \<Rightarrow> bool" where
  "attribute_source self v \<longleftrightarrow>
     (\<exists>name field syn. bt_get (cr_fields self) name = Some field \<and> \<not> cf_secret field \<and> cf_syntax field = Some syn \<and> value_admits syn v) \<or>
     (\<exists>recipe. bt_get (cr_recipes self) v = Some recipe \<and> rc_select recipe = [])"

lemma check_attributes_Ok:
  assumes "check_attributes self attributes = Ok ()" "bt_get attributes name = Some attr"
  shows "is_name name" "\<not> at_selected_recipe attr" "field_admits self attr v \<Longrightarrow> attribute_source self v"
proof -
  have "(name, attr) \<in> set attributes" using assms(2) by (rule bt_get_in_set)
  with assms(1) show "is_name name" "\<not> at_selected_recipe attr" "field_admits self attr v \<Longrightarrow> attribute_source self v"
    by (force simp: check_attributes_def gate_simps field_admits_def attribute_source_def cr_is_secret_def bind_eq_Some_conv
        split: option.splits if_splits)+
qed

lemma check_selector_Ok:
  assumes "check_selector self selector recipe = Ok ()"
  shows "bt_get (rc_attributes recipe) name = Some attr \<Longrightarrow> is_name name"
    "rule \<in> set (rc_select recipe) \<Longrightarrow> \<exists>target. bt_get (cr_recipes self) (sr_recipe rule) = Some target \<and> rc_select target = []"
    "bt_get (rc_attributes recipe) name = Some attr \<Longrightarrow> at_selected_recipe attr"
  using assms by (auto simp: check_selector_def Let_def gate_simps dest!: bt_get_in_set split: option.splits) blast

lemma accepted_attribute:
  assumes ok: "credentials_check self secret_slots providers = Ok ()" and admits: "admits_attribute self name v = Some True"
  shows "is_name name" "attribute_source self v" "component_value v"
proof -
  have section_attrs: "check_attributes self (cr_attributes self) = Ok ()" and recipes: "\<And>n r. (n, r) \<in> set (cr_recipes self) \<Longrightarrow> is_name n \<and> check_recipe self n r = Ok ()"
    and fields_ok: "\<And>n f syn. bt_get (cr_fields self) n = Some f \<Longrightarrow> cf_syntax f = Some syn \<Longrightarrow> syntax_well_formed syn"
    using ok by (auto simp: credentials_check_def gate_simps check_fields_def check_field_def dest!: bt_get_in_set)
  have both: "is_name name \<and> attribute_source self v"
  proof (cases "bt_get (cr_attributes self) name")
    case (Some attr)
    then show ?thesis using admits check_attributes_Ok [OF section_attrs Some] by (simp add: admits_attribute_def)
  next
    case None
    then obtain n r attr where r: "(n, r) \<in> set (cr_recipes self)" "bt_get (rc_attributes r) name = Some attr"
        "recipe_attribute_admits self v (r, attr)"
      using admits by (auto simp: admits_attribute_def Let_def List.map_filter_def list_ex_iff split: if_splits)
    note checked = recipes [OF r(1), THEN conjunct2]
    show ?thesis
    proof (cases "rc_select r = []")
      case True
      then have "check_attributes self (rc_attributes r) = Ok ()" using checked by (auto simp: check_recipe_def gate_simps)
      from check_attributes_Ok [OF this r(2)] r(3) show ?thesis
        by (auto simp: recipe_attribute_admits_def split: option.splits)
    next
      case False
      then have sel: "check_selector self n r = Ok ()" using checked by (auto simp: check_recipe_def gate_simps)
      with r(3) check_selector_Ok(3) [OF sel r(2)] obtain rule where "rule \<in> set (rc_select r)" "sr_recipe rule = v"
        by (auto simp: recipe_attribute_admits_def list_ex_iff)
      with check_selector_Ok(1) [OF sel r(2)] check_selector_Ok(2) [OF sel] show ?thesis
        unfolding attribute_source_def by blast
    qed
  qed
  then show "is_name name" "attribute_source self v" by simp_all
  from both show "component_value v"
    unfolding attribute_source_def using admitted_component_value fields_ok name_printable recipes bt_get_in_set by metis
qed

section \<open>Where the checks are weaker than their documentation\<close>

text \<open>A section that mints by the given steps.\<close>

definition minting_by :: "recipe_step list \<Rightarrow> credentials" where
  "minting_by steps = sample_credentials\<lparr>cr_recipes := [(''mint'', sample_recipe\<lparr>rc_steps := steps\<rparr>)]\<rparr>"

definition sign_step :: recipe_step where
  "sign_step = rc_steps sample_recipe ! 0"

definition swap_step :: recipe_step where
  "swap_step = rc_steps sample_recipe ! 1"

text \<open>A signing key may name a constant beside its field, although a value has exactly one source.\<close>

lemma jwt_key_may_have_two_sources:
  "credentials_check (minting_by [sign_step\<lparr>sp_key := Some (no_source\<lparr>vs_field := Some ''key'', vs_constant := Some (ConstText ''k'')\<rparr>)\<rparr>, swap_step])
     [''bearer''] [''vertex''] = Ok ()"
  by code_simp

text \<open>A step's \<open>auth\<close> may present the URL of a step, although \<open>endpoint_of\<close> is documented as an audience only.\<close>

lemma auth_may_present_endpoint_of:
  "credentials_check (minting_by [sign_step,
       swap_step\<lparr>sp_auth := Some \<lparr>sa_scheme = ''Bearer'', sa_value = no_source\<lparr>vs_endpoint_of := Some ''nowhere''\<rparr>\<rparr>\<rparr>])
     [''bearer''] [''vertex''] = Ok ()"
  by code_simp

text \<open>
  An assertion without audience can be sent inside another one: the outer assertion carries it as a
  claim, and only the outer audience is bound.
\<close>

lemma inner_assertion_unbound:
  "credentials_check (minting_by [
       (plain_step ''inner'' JwtSign)\<lparr>sp_alg := Some RS256, sp_key := Some (no_source\<lparr>vs_field := Some ''key''\<rparr>),
         sp_claims := [(''sub'', no_source\<lparr>vs_field := Some ''mail''\<rparr>)]\<rparr>,
       sign_step\<lparr>sp_claims := [(''act'', no_source\<lparr>vs_output := Some ''inner.jwt''\<rparr>), (''aud'', no_source\<lparr>vs_endpoint_of := Some ''swap''\<rparr>)]\<rparr>,
       swap_step])
     [''bearer''] [''vertex''] = Ok ()"
  by code_simp

end
