(* ===== verification/Spec2Isabelle.thy ===== *)
theory Spec2Isabelle
  imports
    Sse_Frames Eventstream_Frames Reencode
    Base64 Sse_Split
    Raw_Call
    Task_Core Task_Conformance
    Egress Descriptor Media_Views
    Task_Facts
    Credentials
begin

text \<open>
  A verification library for the host side of token-station-south: the contracts a provider request
  is built from, the calls that prepare and send it, the framings its response arrives in, the media
  a request or a response carries, the facts and workflows of long-running tasks, and the endpoint
  templates and credential recipes a package declares.

  \<^bold>\<open>The program.\<close> A host binds a trusted endpoint to one credential slot and lets a provider package
  describe requests. \<open>south-contracts\<close> turns every part of a description into a value that can only
  be built validated: endpoint, relative path, query, headers, body, authentication, user agent, and
  on the way back quota fields, diagnostics, transcripts and response shapes. \<open>south-core\<close> resolves
  the destination inside the binding, resolves the credential or asks a finalizer to sign, and hands
  the prepared request to an injected transport, raced against cancellation and a deadline; a
  streaming call is then pulled chunk by chunk. For media calls \<open>south-contracts/src/media\<close> takes the
  large strings of a body out as blobs before a component sees it, expands the component's template
  with those blobs, and decides where artifacts may be fetched. \<open>south-host-grammars\<close> and the eventstream module
  decode what arrives; \<open>south-component-conformance\<close> has the codecs the provider components link;
  \<open>south-task-core\<close> and \<open>south-task-conformance\<close> hold the task workflows and the suite a host's
  storage has to pass. Before any of this a package's manifest passes gate 1 of \<open>south-provider-api\<close>,
  which decides among other things where its endpoints may lead and how its credentials are minted.

  \<^bold>\<open>Shared theories.\<close> \<open>Prelude\<close>: results, byte strings, slices, checked sizes and the rules for
  refusals. \<open>Ascii\<close>: byte classes and case folding. \<open>Framing\<close>: the interface of an incremental
  decoder, a locale interpreted by the SSE decoder and the deframer, from which their independence of
  chunking follows. \<open>Utf8\<close>, \<open>Big_Endian\<close>, \<open>Ordered_Map\<close>: the parts of the standard library the
  sources use. \<open>Host_Effects\<close>: awaited host operations and their logs. \<open>Async_Call\<close>: futures as what
  their polls return, \<open>async\<close> blocks with two awaits, the biased \<open>select!\<close> with \<open>timeout_at\<close>, and the
  locale \<open>guarded_flow\<close> of a call that is refused by its guards or becomes such a race.

  \<^bold>\<open>Framings.\<close>
  \<^item> \<open>Sse\<close>, \<open>Sse_Frames\<close> model \<open>south-host-grammars/src/sse.rs\<close> (\<open>SseDecoderV1\<close>, \<open>decode_sse_v1\<close>):
    independence of chunking, agreement of the two decoders, frames that decode alone, round trip,
    memory bounds and sticky errors.
  \<^item> \<open>Crc32\<close>, \<open>Eventstream\<close>, \<open>Eventstream_Frames\<close>, \<open>Reencode\<close> model
    \<open>south-contracts/src/eventstream.rs\<close>: the table CRC is CRC-32, the deframer accepts exactly the
    wire format and detects any changed byte, and the re-encoded stream decodes to one event per
    message.
  \<^item> \<open>Base64\<close> and \<open>Sse_Split\<close> model \<open>base64.rs\<close> and \<open>sse_split.rs\<close> of \<open>south-component-conformance\<close>:
    the codec is exact in both directions, and the splitter cuts the events the strict decoder reads.

  \<^bold>\<open>Contracts\<close> (\<open>south-contracts/src/lib.rs\<close>, \<open>declared.rs\<close>, \<open>secret_header.rs\<close>).
  \<^item> \<open>Contract_Errors\<close>: the errors of every phase; their codes identify them.
  \<^item> \<open>Header_Names\<close>, \<open>Secret_Headers\<close>, \<open>Safe_Headers\<close>: closed name sets, declared secret headers and
    the header policy; what is accepted exactly, and that no accepted header is one South owns.
  \<^item> \<open>Paths\<close>, \<open>Query\<close>, \<open>Resolution\<close>: accepted paths cannot climb, queries are canonical and read back,
    and a resolved URL stays below its endpoint.
  \<^item> \<open>Bodies\<close>, \<open>Requests\<close>: bounded bodies and the four request shapes, whose rendered media type is the
    only one.
  \<^item> \<open>Response_Metadata\<close>, \<open>Responses\<close>: closed fields (the locale \<open>closed_fields\<close>, interpreted for
    diagnostics and quota), redacted transcripts, and the response shapes with their bounds.

  \<^bold>\<open>Calls\<close> (\<open>south-core/src/lib.rs\<close>, \<open>raw.rs\<close>).
  \<^item> \<open>Prepared\<close>: request parts, assembly and the finalizer's output. A secret reaches only reserved
    headers; a finalizer's output is bound exactly when it is its declaration.
  \<^item> \<open>Provider_Call\<close>: \<open>execute_buffered\<close>, \<open>execute_signed_buffered\<close> and the entry points, interpreted as
    guarded flows: what they ask and in which order, what each answer rests on, that they return, and
    that cancellation wins.
  \<^item> \<open>Streaming_Call\<close>: opening and \<open>next_chunk\<close>. Runs of pulls are an inductive relation; by rule
    induction they deliver the source's chunks, then one end, then nothing.
  \<^item> \<open>Raw_Call\<close>: calls given as strings, the field a failed parse names, the wrappers that parse and
    call, and the resolver adapters. This theory's own theorem follows a raw call from its strings to
    the request on the wire.

  \<^bold>\<open>Media\<close> (\<open>south-contracts/src/media\<close>).
  \<^item> \<open>Utf8_Chars\<close>, \<open>Media_Json\<close>: characters of UTF-8 and \<open>json.rs\<close>. The parser accepts exactly the
    grammar of RFC 8259 up to its depth bound, written as inductive relations, and what is written
    compactly parses to the same tree.
  \<^item> \<open>Media_Base\<close>, \<open>Elide\<close>: blob identifiers and sets, and \<open>elide.rs\<close>. Putting the blobs back gives
    the document, the view is bounded, and exactly the documents with admissible keys are elided.
  \<^item> \<open>Transform\<close>, \<open>Egress\<close>: \<open>transform.rs\<close> and \<open>egress.rs\<close>. The codec agrees with that of the
    references, data URLs round trip, and an admitted address is a public one.
  \<^item> \<open>Multipart\<close>, \<open>Descriptor\<close>, \<open>Media_Views\<close>: \<open>multipart.rs\<close>, \<open>descriptor.rs\<close> and \<open>response.rs\<close>. An
    encoded form decodes to its parts, an admitted template expands, and a response view holds what
    the upstream answered.

  \<^bold>\<open>Tasks\<close> (\<open>south-task-core\<close>, \<open>south-task-conformance\<close>). \<open>Task_Core\<close>: submission, observation,
  cancellation and waiting over host effects, with a step relation for submission; one send under a
  claim, results that are the host's, waits that end. \<open>Task_Conformance\<close>: the suite's scenarios; what a
  passing host has shown, and a host that fails. \<open>Float64\<close>, \<open>Task_Facts\<close>: \<open>south-contracts/src/task.rs\<close>
  and \<open>task_v2.rs\<close>, the values a host mints, artifacts, observations, usage and estimates. Markers of a
  rendered body are filled exactly, an inline artifact is bytes of its own call, token buckets are what
  was reported, and an estimate is the exact product up to double rounding.

  \<^bold>\<open>Packages\<close> (\<open>south-provider-api\<close>). \<open>Value_Syntax\<close>: \<open>config.rs\<close>, per family: value syntaxes, endpoint
  templates, filling and the bounded search that reads a URL back. A filled URL stays in one domain,
  and reading back returns the only assignment or says that there are two. \<open>Credentials\<close>: all of
  \<open>credentials.rs\<close>. The recipes of an accepted section are confined, and exported attributes come from
  non-secret fields and lie in the kernel's value grammar.

  \<^bold>\<open>Parameters and their laws.\<close> The \<open>url\<close> crate (\<open>append_slash_law\<close>), the \<open>http\<close> crate's header grammars
  (\<open>header_name_law\<close>), the hosts \<open>url::Host\<close> parses, \<open>serde_json\<close> validity and number reading, resolvers, finalizers, transports, byte sources and task
  hosts are arguments. Each law used as a hypothesis is documented behaviour and has an instance in a
  witness.

  \<^bold>\<open>Bounds and fuel.\<close> Sizes are natural numbers with the checked \<open>usize\<close> additions written out; CRC and
  base64 arithmetic is on words. A double is a signed mantissa and an exponent, rounded half to even
  where the code computes. Loops are structural or have a termination proof; nothing runs on
  fuel. An asynchronous call runs over the list of polls it gets and is pending at its end; the
  liveness theorems say how many polls are enough. Clocks are natural numbers, read once per poll.

  \<^bold>\<open>Not modelled.\<close> \<open>Debug\<close> and \<open>Display\<close> texts and zeroizing, which carry no decision; messages of
  refusals are values, one constructor per text. The reqwest transport, the WebAssembly runtime and
  the test kits are I/O and calls into libraries. The manifest record of \<open>south-provider-api\<close> with its
  remaining validators and the compatibility handshake, the request contracts of the image, speech and
  embeddings worlds, the reference components' mappings and the northbound codec are outside this
  library: the contracts above are what protects a host from a component, and these either declare
  data those contracts check again or translate documents of third-party services.
\<close>

section \<open>From raw strings to the wire\<close>

definition sample_grammars :: "(sample_url, unit) grammars" where
  "sample_grammars =
     \<lparr>gr_url = sample_url_crate, gr_header_name = token_name, gr_header_value = visible_value,
      gr_json = (\<lambda>s. if s = ''{}'' then Some () else None), gr_json_end = (\<lambda>_. True)\<rparr>"

definition sample_raw_call :: raw_provider_call where
  "sample_raw_call =
     \<lparr>rc_endpoint = ''https://h/v1'', rc_relative_path = ''chat'', rc_bound_slot = ''main'',
      rc_requested_slot = ''main'', rc_headers = [], rc_query = None, rc_user_agent = None,
      rg_auth = RawBearer, rg_secret_headers = dshs_none, rj_body = ''{}''\<rparr>"

definition sample_posted :: "sample_url prepared_request" where
  "sample_posted =
     \<lparr>pr_method = POST, pr_url = \<lparr>su_host = ''h'', su_path = ''/v1/chat'', su_query = None\<rparr>,
      pr_headers = \<lparr>sh_values = [], sh_secret_headers = dshs_none\<rparr>,
      pr_body = Some (JsonBody \<lparr>jb_value = ''{}''\<rparr>),
      pr_auth_headers = [(''authorization'', ''Bearer s'')], pr_user_agent = None\<rparr>"

definition sample_answer :: "sample_url prepared_request \<Rightarrow> nat \<Rightarrow> nat
    \<Rightarrow> (nat buffered_http_response, transport_error) result option" where
  "sample_answer prepared remaining k =
     (if k = 0 then Some (Err ConnectFailed) else None)"

lemma sample_raw_call_parses: "parse_raw_call sample_grammars sample_raw_call = Ok (sample_binding, sample_post)"
proof -
  have slot: "credential_slot_parse ''main'' = Ok \<lparr>cs_value = ''main''\<rparr>"
    by (simp add: credential_slot_parse_def MAX_CREDENTIAL_SLOT_BYTES_def is_ascii_lowercase_def byte_in_def)
  have checks: "\<not> starts_with ''/'' ''chat''" "\<not> has_invalid_or_forbidden_percent_encoding ''chat'' AdmitInSegment"
      "has_safe_segments ''chat''" "\<not> has_scheme_like_first_segment ''chat''" "list_all ascii ''chat''"
      "\<not> list_ex (\<lambda>c. c \<in> set ''?#'') ''chat''" "\<not> list_ex is_forbidden_path_byte ''chat''"
    by code_simp+
  have path: "relative_path_parse ''chat'' = Ok \<lparr>rp_value = ''chat''\<rparr>"
    using checks by (simp add: relative_path_parse_def MAX_RELATIVE_PATH_BYTES_def)
  have headers: "sh_try_from_iter_with_secret_headers token_name visible_value [] dshs_none =
      Ok \<lparr>sh_values = [], sh_secret_headers = dshs_none\<rparr>"
    by (simp add: sh_try_from_iter_with_secret_headers_def)
  have body: "json_body_parse (gr_json sample_grammars) (gr_json_end sample_grammars) ''{}'' = Ok \<lparr>jb_value = ''{}''\<rparr>"
    by (simp add: json_body_parse_def sample_grammars_def MAX_JSON_REQUEST_BODY_BYTES_def)
  show ?thesis
    using slot path headers body sample_endpoint_parses
    by (simp add: parse_raw_call_def parse_raw_parts_def parse_raw_binding_def parse_raw_headers_def
        sample_grammars_def sample_raw_call_def sample_post_def sample_bearer_def sample_binding_def
        finish_request_def bearer_auth_new_def)
qed

text \<open>
  Claim C1. What a raw call puts on the wire, across every layer below it. When a raw call given as
  strings dispatches a request, its two slots are equal and the credential of that slot was asked
  for once, before; the request goes to the endpoint the string parsed to, with its scheme, host and
  port, a path below its path, no user information, no fragment and exactly the declared query; it
  posts the declared body with the declared user agent; its ordinary headers are the admitted
  headers in canonical form; and its secret is in headers that no ordinary header can carry and that
  a response transcript drops.
\<close>

theorem raw_call_end_to_end:
  fixes r :: "('s buffered_http_response, 's raw_provider_call_error) result option"
  assumes law: "append_slash_law (gr_url G)"
    and declared: "dshs_try_from_names names = Ok (rg_secret_headers raw)"
    and run: "execute_raw_call_v1 G raw resolve transport deadline start polls = (calls, r)"
    and sent: "Dispatch prepared remaining \<in> set calls"
  shows "\<exists>endpoint k secret.
    rc_requested_slot raw = rc_bound_slot raw \<and>
    calls = [ResolveCredential \<lparr>cs_value = rc_bound_slot raw\<rparr>, Dispatch prepared remaining] \<and>
    0 < remaining \<and> remaining \<le> deadline \<and>
    resolve \<lparr>cs_value = rc_bound_slot raw\<rparr> k = Some (Ok secret) \<and>
    provider_endpoint_parse (gr_url G) (rc_endpoint raw) = Ok endpoint \<and>
    url_scheme (gr_url G) (pr_url prepared) = url_scheme (gr_url G) (pe_url endpoint) \<and>
    url_scheme (gr_url G) (pr_url prepared) \<in> {''http'', ''https''} \<and>
    url_host_str (gr_url G) (pr_url prepared) = url_host_str (gr_url G) (pe_url endpoint) \<and>
    url_port_or_known_default (gr_url G) (pr_url prepared) = url_port_or_known_default (gr_url G) (pe_url endpoint) \<and>
    prefix (url_path (gr_url G) (pe_url endpoint)) (url_path (gr_url G) (pr_url prepared)) \<and>
    suffix ''/'' (url_path (gr_url G) (pe_url endpoint)) \<and>
    url_query (gr_url G) (pr_url prepared) = map_option qs_serialized (rc_query raw) \<and>
    url_username (gr_url G) (pr_url prepared) = [] \<and> url_password (gr_url G) (pr_url prepared) = None \<and>
    url_fragment (gr_url G) (pr_url prepared) = None \<and>
    pr_method prepared = POST \<and> pr_body prepared = Some (JsonBody \<lparr>jb_value = rj_body raw\<rparr>) \<and>
    pr_user_agent prepared = rc_user_agent raw \<and>
    mset (sh_iter (pr_headers prepared)) = mset (canonical_headers (gr_header_name G) (rc_headers raw)) \<and>
    (\<forall>nv \<in> set (pr_auth_headers prepared).
       (snd nv = sv_value secret \<or> snd nv = ''Bearer '' @ sv_value secret) \<and>
       fst nv \<notin> fst ` set (sh_iter (pr_headers prepared)) \<and> fst nv \<noteq> ''user-agent'' \<and>
       transcript_denied (rg_secret_headers raw) (fst nv))"
proof -
  from raw_call_dispatched [OF run sent] obtain binding request destination k secret where
    parsed: "parse_raw_call G raw = Ok (binding, request)"
    and dest: "parts_destination (gr_url G) (json_parts request) binding = Ok destination"
    and calls: "rc_bound_slot raw = rc_requested_slot raw"
      "calls = [ResolveCredential (pb_credential_slot binding), Dispatch prepared remaining]"
      "0 < remaining" "remaining \<le> deadline"
    and secret: "resolve (pb_credential_slot binding) k = Some (Ok secret)"
    and prepared: "assemble (json_parts request) destination secret = Ok prepared" .
  note fields = parse_raw_call_Ok [OF parsed]
  have parts: "pt_relative_path (json_parts request) = rq_relative_path request"
      "pt_query (json_parts request) = rc_query raw" "pt_headers (json_parts request) = rq_headers request"
      "pt_method (json_parts request) = POST" "pt_user_agent (json_parts request) = rc_user_agent raw"
      "pt_body (json_parts request) = Some (JsonBody \<lparr>jb_value = rj_body raw\<rparr>)"
    using fields by (simp_all add: json_parts_def parts_of_def)
  note request = assemble_Ok [OF prepared]
  have headers: "headers_of G raw (rg_secret_headers raw) = Ok (pt_headers (json_parts request))"
    using fields(5) parts by simp
  have endpoint: "endpoint_ok (gr_url G) (pb_endpoint binding)"
    using law fields(1) by (rule endpoint_ok_parse)
  have declared_kept: "sh_secret_headers (pr_headers prepared) = rg_secret_headers raw"
    using headers request by (simp add: sh_try_from_iter_Ok)
  have held: "mset (sh_iter (pr_headers prepared)) = mset (canonical_headers (gr_header_name G) (rc_headers raw))"
    using admitted_entries [OF headers] request by (simp add: sh_iter_def)
  show ?thesis
    using calls secret fields(1,2) held
      resolved_confined [OF dest [unfolded parts_destination_def]] endpoint
      bound_headers_protected [OF declared headers prepared]
    unfolding declared_kept request(1) request(4-6) parts endpoint_ok_def Let_def
    by (intro exI [of _ "pb_endpoint binding"] exI [of _ k] exI [of _ secret]) simp
qed

theorem raw_call_end_to_end_witness:
  "\<exists>endpoint. provider_endpoint_parse sample_url_crate ''https://h/v1'' = Ok endpoint \<and>
     fst (execute_raw_call_v1 sample_grammars sample_raw_call sample_resolver sample_answer 10
       (sample_poll False 0) [sample_poll False 1, sample_poll False 3]) =
     [ResolveCredential \<lparr>cs_value = ''main''\<rparr>, Dispatch sample_posted 7] \<and>
     url_host_str sample_url_crate (pr_url sample_posted) = url_host_str sample_url_crate (pe_url endpoint) \<and>
     prefix (url_path sample_url_crate (pe_url endpoint)) (url_path sample_url_crate (pr_url sample_posted))"
proof -
  have run: "execute_raw_call_v1 sample_grammars sample_raw_call sample_resolver sample_answer 10
      (sample_poll False 0) [sample_poll False 1, sample_poll False 3] =
      ([ResolveCredential \<lparr>cs_value = ''main''\<rparr>, Dispatch sample_posted 7],
       Some (Err (RawProviderCall (Transport ConnectFailed))))"
  proof -
    have "execute_provider_call_v1 sample_url_crate sample_binding sample_post sample_resolver sample_answer 10
        (sample_poll False 0) [sample_poll False 1, sample_poll False 3] =
        ([ResolveCredential \<lparr>cs_value = ''main''\<rparr>, Dispatch sample_posted 7],
         Some (Err (Transport ConnectFailed)))"
      by code_simp
    then show ?thesis
      by (simp add: execute_raw_call_v1_def parse_then_call_def sample_raw_call_parses)
        (simp add: sample_grammars_def)
  qed
  have names: "dshs_try_from_names [] = Ok (rg_secret_headers sample_raw_call)"
    by (simp add: dshs_try_from_names_def dshs_try_new_def dshs_none_def sample_raw_call_def)
  have law: "append_slash_law (gr_url sample_grammars)"
    by (simp add: sample_grammars_def sample_append_slash)
  have "Dispatch sample_posted 7 \<in> set [ResolveCredential \<lparr>cs_value = ''main''\<rparr>, Dispatch sample_posted 7]"
    by simp
  from raw_call_end_to_end [OF law names run this] run show ?thesis
    by (auto simp: sample_grammars_def sample_raw_call_def)
qed

end
